(* ===== verification/Prelude.thy ===== *)
theory Prelude
  imports Complex_Main "HOL-Library.AList" "HOL-Library.Monad_Syntax"
begin

text \<open>
  Shared ground of the development: the result type of functions that throw, the reading of
  optional properties, ordered dictionaries, and two interfaces (locales) for state machines
  that receive their facts at least once.

  \<^item> A TypeScript function that may \<open>throw new Error(msg)\<close> returns \<open>js_error + 'a\<close>; \<open>bindR\<close> is
    the sequencing of statements, with the exception propagated.
  \<^item> An optional property (\<open>p?: T\<close>) and a nullable one (\<open>p: T | null\<close>) are an \<open>option\<close>; a
    property that is present with the value \<open>undefined\<close> is identified with an absent one, as
    every read in the modelled code does.
  \<^item> A \<open>Record<string, T>\<close> object is an association list in insertion order: \<open>AList.update\<close>
    keeps the place of an existing key and appends a new one, \<open>AList.delete\<close> removes it.
    Keys are identifiers of the program (UUIDs and prefixed names), not array indices or
    names of \<open>Object.prototype\<close>.
\<close>

section \<open>Results\<close>

datatype js_error =
    JsError string
  | RangeError string
  | FundedRiskVeto string string string  \<comment> \<open>order id, message, code\<close>
  | FundedPriorRunActive string  \<comment> \<open>prior run id\<close>

type_synonym 'a result = "js_error + 'a"

abbreviation throw :: "string \<Rightarrow> 'a result" where
  "throw msg \<equiv> Inl (JsError msg)"

definition bindR :: "'e + 'a \<Rightarrow> ('a \<Rightarrow> 'e + 'b) \<Rightarrow> 'e + 'b" where
  "bindR m f = (case m of Inl e \<Rightarrow> Inl e | Inr x \<Rightarrow> f x)"

lemma bindR_Inl [simp]: "bindR (Inl e) f = Inl e"
  by (simp add: bindR_def)

lemma bindR_Inr [simp]: "bindR (Inr x) f = f x"
  by (simp add: bindR_def)

lemma bindR_eq_Inr: "bindR m f = Inr y \<longleftrightarrow> (\<exists>x. m = Inr x \<and> f x = Inr y)"
  by (cases m) auto

lemma bindR_eq_Inl: "bindR m f = Inl e \<longleftrightarrow> m = Inl e \<or> (\<exists>x. m = Inr x \<and> f x = Inl e)"
  by (cases m) auto

lemma bindR_split:
  "P (bindR m f) \<longleftrightarrow> (\<forall>e. m = Inl e \<longrightarrow> P (Inl e)) \<and> (\<forall>x. m = Inr x \<longrightarrow> P (f x))"
  by (cases m) auto

named_theorems result_simps \<open>what it means for a sequence of throwing statements to return\<close>

declare bindR_eq_Inr [result_simps] bindR_eq_Inl [result_simps]

lemma if_throw_Inr [result_simps]:
  "(if b then Inl e else m) = Inr y \<longleftrightarrow> \<not> b \<and> m = Inr y"
  "(if b then m else Inl e) = Inr y \<longleftrightarrow> b \<and> m = Inr y"
  by auto

text \<open>A sequence of throwing steps stops at the first error.\<close>

fun runR :: "('s \<Rightarrow> 'e \<Rightarrow> 'x + 's) \<Rightarrow> 's \<Rightarrow> 'e list \<Rightarrow> 'x + 's" where
  "runR step s [] = Inr s"
| "runR step s (e # es) = bindR (step s e) (\<lambda>s'. runR step s' es)"

lemma runR_append: "runR step s (es @ es') = bindR (runR step s es) (\<lambda>s'. runR step s' es')"
  by (induction es arbitrary: s) (auto simp: bindR_def split: sum.splits)

lemma runR_invariant:
  assumes "\<And>s e s'. I s \<Longrightarrow> ok s e \<Longrightarrow> step s e = Inr s' \<Longrightarrow> I s'"
    "\<And>before e after m. es = before @ e # after \<Longrightarrow> runR step s before = Inr m \<Longrightarrow> ok m e"
    "I s" "runR step s es = Inr s'"
  shows "I s'"
  using assms(2-)
proof (induction es arbitrary: s)
  case (Cons e es)
  then obtain m where m: "step s e = Inr m" "runR step m es = Inr s'" by (auto simp: result_simps)
  show ?case
  proof (rule Cons.IH [OF _ _ m(2)])
    show "I m" using assms(1) m(1) Cons.prems(2) Cons.prems(1) [of "[]" e es s] by auto
  next
    fix before e' after m' assume es: "es = before @ e' # after" "runR step m before = Inr m'"
    with m(1) Cons.prems(1) [of "e # before" e' after m'] show "ok m' e'" by simp
  qed
qed simp

section \<open>Optional properties\<close>

text \<open>\<open>a ?? b\<close>: the value of the left operand unless it is \<open>null\<close> or \<open>undefined\<close>.\<close>

definition coalesce :: "'a option \<Rightarrow> 'a \<Rightarrow> 'a" where
  "coalesce a b = (case a of None \<Rightarrow> b | Some x \<Rightarrow> x)"

lemma coalesce_simps [simp]:
  "coalesce None b = b"
  "coalesce (Some x) b = x"
  by (simp_all add: coalesce_def)

definition or_else :: "'a option \<Rightarrow> 'a option \<Rightarrow> 'a option" where
  "or_else a b = (case a of None \<Rightarrow> b | Some x \<Rightarrow> Some x)"

lemma or_else_simps [simp]:
  "or_else None b = b"
  "or_else (Some x) b = Some x"
  by (simp_all add: or_else_def)

lemma or_else_None_right [simp]: "or_else a None = a"
  by (cases a) simp_all

section \<open>Ordered dictionaries\<close>

lemma map_of_distinct_filter:
  "distinct (map fst al) \<Longrightarrow> map_of al k = Some v \<Longrightarrow>
     al = takeWhile (\<lambda>p. fst p \<noteq> k) al @ (k, v) # tl (dropWhile (\<lambda>p. fst p \<noteq> k) al)"
  by (induction al) (auto split: if_splits)

lemma sum_list_delete:
  fixes f :: "'k \<times> 'v \<Rightarrow> int"
  shows "distinct (map fst al) \<Longrightarrow> map_of al k = Some v \<Longrightarrow>
     sum_list (map f (AList.delete k al)) = sum_list (map f al) - f (k, v)"
proof (induction al)
  case Nil
  then show ?case by simp
next
  case (Cons p al)
  show ?case
  proof (cases "fst p = k")
    case True
    then have "k \<notin> set (map fst al)" using Cons.prems(1) by auto
    then have "AList.delete k al = al" by (simp add: AList.delete_idem)
    then show ?thesis using True Cons.prems by (cases p) (auto simp: AList.delete_eq)
  next
    case False
    then have "map_of al k = Some v" using Cons.prems by (cases p) auto
    with Cons False show ?thesis by (cases p) (auto simp: AList.delete_eq)
  qed
qed

lemma sum_list_update_new:
  fixes f :: "'k \<times> 'v \<Rightarrow> int"
  shows "map_of al k = None \<Longrightarrow>
     sum_list (map f (AList.update k v al)) = sum_list (map f al) + f (k, v)"
  by (induction al) auto

lemma sum_list_update_old:
  fixes f :: "'k \<times> 'v \<Rightarrow> int"
  shows "distinct (map fst al) \<Longrightarrow> map_of al k = Some w \<Longrightarrow>
     sum_list (map f (AList.update k v al)) = sum_list (map f al) - f (k, w) + f (k, v)"
proof (induction al)
  case Nil
  then show ?case by simp
next
  case (Cons p al)
  then show ?case by (cases p) (auto split: if_splits)
qed

section \<open>State machines fed at least once\<close>

text \<open>
  The paper machines receive quotes, candles and ledger events from polling, retries and
  replay, so the same fact may arrive again. The first interface is a machine with final
  states.
\<close>

locale absorbing_machine =
  fixes step :: "'s \<Rightarrow> 'e \<Rightarrow> 's"
    and final :: "'s \<Rightarrow> bool"
  assumes absorb: "final s \<Longrightarrow> step s e = s"
begin

lemma final_step: "final s \<Longrightarrow> final (step s e)"
  by (simp add: absorb)

lemma final_run: "final s \<Longrightarrow> foldl step s es = s"
  by (induction es arbitrary: s) (auto simp: absorb)

end

text \<open>
  The second adds a watermark: \<open>fresh s e\<close> says that \<open>e\<close> is newer than everything the state
  has taken. A well-formed fact is either ignored in every state or, once processed, not
  fresh any more; and what is not fresh stays so. Then a fact that has been delivered can be
  delivered again at any later time without effect.
\<close>

locale watermark_machine = absorbing_machine step final
  for step :: "'s \<Rightarrow> 'e \<Rightarrow> 's" and final :: "'s \<Rightarrow> bool" +
  fixes fresh :: "'s \<Rightarrow> 'e \<Rightarrow> bool"
    and wf_fact :: "'e \<Rightarrow> bool"
  assumes stale: "\<not> fresh s e \<Longrightarrow> step s e = s"
    and taken: "wf_fact e \<Longrightarrow> (\<forall>s. step s e = s) \<or> final (step s e) \<or> \<not> fresh (step s e) e"
    and fresh_mono: "\<not> fresh s e \<Longrightarrow> final (step s e') \<or> \<not> fresh (step s e') e"
begin

lemma settled_step:
  "final s \<or> \<not> fresh s e \<Longrightarrow> final (step s e') \<or> \<not> fresh (step s e') e"
  using absorb fresh_mono by metis

lemma settled_run:
  "final s \<or> \<not> fresh s e \<Longrightarrow> final (foldl step s es) \<or> \<not> fresh (foldl step s es) e"
proof (induction es arbitrary: s)
  case (Cons x es)
  then show ?case using settled_step [of s e x] by (metis foldl_Cons)
qed simp

lemma settled_noop: "final s \<or> \<not> fresh s e \<Longrightarrow> step s e = s"
  using absorb stale by blast

lemma redelivery_noop:
  "e \<in> set es \<Longrightarrow> wf_fact e \<Longrightarrow> step (foldl step s es) e = foldl step s es"
proof (induction es arbitrary: s)
  case (Cons x es)
  show ?case
  proof (cases "x = e")
    case True
    from taken [OF Cons.prems(2), of s] show ?thesis
    proof
      assume "final (step s e) \<or> \<not> fresh (step s e) e"
      then show ?thesis
        using settled_run [of "step s e" e es] settled_noop \<open>x = e\<close> by simp
    qed blast
  next
    case False
    with Cons show ?thesis by simp
  qed
qed simp

lemma redelivery_run:
  "set es' \<subseteq> set es \<Longrightarrow> \<forall>e \<in> set es'. wf_fact e \<Longrightarrow> foldl step s (es @ es') = foldl step s es"
proof (induction es')
  case (Cons x es')
  then have "step (foldl step s es) x = foldl step s es" by (intro redelivery_noop) auto
  with Cons show ?case by simp
qed simp

end

section \<open>Logs with retries\<close>

text \<open>
  A component that records each event it accepts under an identity. The contract: the same
  event again is accepted without effect, a different event under a used identity is an
  error, and any other accepted event is appended.
\<close>

locale event_log =
  fixes step :: "'s \<Rightarrow> 'e \<Rightarrow> 'x + 's"
    and log :: "'s \<Rightarrow> 'e list"
    and ident :: "'e \<Rightarrow> 'i"
    and wf_log :: "'s \<Rightarrow> bool"
  assumes kept: "wf_log s \<Longrightarrow> step s e = Inr s' \<Longrightarrow> wf_log s'"
    and retried: "wf_log s \<Longrightarrow> e \<in> set (log s) \<Longrightarrow> step s e = Inr s"
    and conflicting: "wf_log s \<Longrightarrow> ident e \<in> ident ` set (log s) \<Longrightarrow> e \<notin> set (log s) \<Longrightarrow>
      step s e \<noteq> Inr s'"
    and appended: "wf_log s \<Longrightarrow> ident e \<notin> ident ` set (log s) \<Longrightarrow> step s e = Inr s' \<Longrightarrow>
      log s' = log s @ [e]"
begin

lemma step_log:
  assumes "wf_log s" "step s e = Inr s'"
  shows "\<exists>new. log s' = log s @ new \<and> set new \<subseteq> {e} \<and> e \<in> set (log s') \<and>
    (distinct (map ident (log s)) \<longrightarrow> distinct (map ident (log s')))"
proof (cases "ident e \<in> ident ` set (log s)")
  case True
  with conflicting [OF assms(1) True] assms(2) have e: "e \<in> set (log s)" by auto
  with retried [OF assms(1) e] assms(2) have "s' = s" by simp
  with e show ?thesis by auto
next
  case False
  with appended [OF assms(1) False assms(2)] show ?thesis by auto
qed

lemma run_wf: "wf_log s \<Longrightarrow> runR step s es = Inr s' \<Longrightarrow> wf_log s'"
  by (induction es arbitrary: s) (auto simp: result_simps dest: kept)

lemma run_log:
  assumes "wf_log s" "runR step s es = Inr s'"
  shows "\<exists>new. log s' = log s @ new \<and> set new \<subseteq> set es \<and> set es \<subseteq> set (log s') \<and>
    (distinct (map ident (log s)) \<longrightarrow> distinct (map ident (log s')))"
  using assms
proof (induction es arbitrary: s)
  case (Cons e es)
  then obtain m where m: "step s e = Inr m" "runR step m es = Inr s'" by (auto simp: result_simps)
  from step_log [OF Cons.prems(1) m(1)] Cons.IH [OF kept [OF Cons.prems(1) m(1)] m(2)]
  show ?case by fastforce
qed simp

lemma retry_noop:
  assumes "wf_log s" "runR step s es = Inr s'" "set again \<subseteq> set es"
  shows "runR step s' again = Inr s'"
proof -
  have "set es \<subseteq> set (log s')" using run_log [OF assms(1,2)] by auto
  with assms(3) have "set again \<subseteq> set (log s')" by blast
  then show ?thesis using retried [OF run_wf [OF assms(1,2)]] by (induction again) auto
qed

lemma conflict_rejected:
  assumes "wf_log s" "runR step s es = Inr s'" "e \<in> set es" "ident e' = ident e" "e' \<notin> set (log s')"
  shows "step s' e' \<noteq> Inr s''"
proof (rule conflicting [OF run_wf [OF assms(1,2)] _ assms(5)])
  have "e \<in> set (log s')" using run_log [OF assms(1,2)] assms(3) by blast
  then show "ident e' \<in> ident ` set (log s')" unfolding assms(4) by (rule imageI)
qed

end

end
