(* ===== verification/JsNumber.thy ===== *)
theory JsNumber
  imports Prelude "HOL-Library.Log_Nat"
begin

text \<open>
  The Number type of ECMAScript: IEEE-754 binary64 values with round to nearest, ties to
  even. A finite value is a rational; \<open>fl\<close> rounds a rational to the nearest value with a
  53 bit significand and an exponent of at least -1074, and \<open>js\<close> adds the overflow to the
  infinities. Every arithmetic operation is the exact one followed by \<open>js\<close>, as the language
  specifies, so \<open>0.1 + 0.2\<close> differs from \<open>0.3\<close> here as it does there. The operators
  \<open>+ - * /\<close>, \<open><\<close> and \<open>\<le>\<close> of the type are the operators of the language: a comparison with NaN
  is false.

  The two zeros are one value: the code under verification reads the sign of a zero nowhere
  but in a division by zero, where the divisor counts as \<open>+0\<close>.

  The lemmas give what the components need: \<open>fl\<close> is monotone, odd and idempotent, leaves
  representable numbers (every integer up to \<open>2^53\<close>) alone, and has a relative error of at
  most \<open>2^-53\<close>; arithmetic on safe integers is exact; the order is transitive, and total
  away from NaN.
\<close>

section \<open>Rounding to binary64\<close>

definition ilog2 :: "rat \<Rightarrow> int" where
  "ilog2 x = (let (p, q) = quotient_of x; k = bitlen p - bitlen q
     in if 2 powi k \<le> x then k else k - 1)"

definition rne :: "rat \<Rightarrow> int" where
  "rne x = (let f = \<lfloor>x\<rfloor>; d = x - of_int f in
     if d < 1/2 then f else if d > 1/2 then f + 1 else if even f then f else f + 1)"

definition ulp_exp :: "rat \<Rightarrow> int" where
  "ulp_exp x = max (- 1074) (ilog2 \<bar>x\<bar> - 52)"

definition fl :: "rat \<Rightarrow> rat" where
  "fl x = (if x = 0 then 0 else of_int (rne (x / 2 powi ulp_exp x)) * 2 powi ulp_exp x)"

lemma bitlen_powi:
  assumes "0 < p"
  shows "(2::rat) powi (bitlen p - 1) \<le> of_int p" "of_int p < (2::rat) powi (bitlen p)"
proof -
  have b: "0 < bitlen p" using assms bitlen_nonneg [of p] bitlen_eq_zero_iff [of p] by linarith
  have *: "2 ^ nat (bitlen p - 1) \<le> p \<and> p < 2 ^ nat (bitlen p)"
    using bitlen_bounds [OF assms] .
  have "(2::rat) powi (bitlen p - 1) = of_int (2 ^ nat (bitlen p - 1))"
    using b by (simp add: power_int_def)
  also have "\<dots> \<le> of_int p" using * by (simp only: of_int_le_iff)
  finally show "(2::rat) powi (bitlen p - 1) \<le> of_int p" .
  have "of_int p < (of_int (2 ^ nat (bitlen p)) :: rat)" using * by (simp only: of_int_less_iff)
  also have "\<dots> = (2::rat) powi (bitlen p)"
    using b by (simp add: power_int_def)
  finally show "of_int p < (2::rat) powi (bitlen p)" .
qed

lemma ilog2_bounds:
  assumes "0 < x"
  shows "2 powi ilog2 x \<le> x" "x < 2 powi (ilog2 x + 1)"
proof -
  obtain p q where pq: "quotient_of x = (p, q)" by force
  have q: "0 < q" using quotient_of_denom_pos [OF pq] .
  have x: "x = of_int p / of_int q" using quotient_of_div [OF pq] .
  have p: "0 < p" using assms q by (simp add: x zero_less_divide_iff)
  let ?k = "bitlen p - bitlen q"
  have q1: "(2::rat) powi (bitlen q - 1) \<le> of_int q" "of_int q < (2::rat) powi bitlen q"
    using bitlen_powi [OF q] by auto
  have p1: "(2::rat) powi (bitlen p - 1) \<le> of_int p" "of_int p < (2::rat) powi bitlen p"
    using bitlen_powi [OF p] by auto
  have lo: "2 powi (?k - 1) \<le> x"
  proof -
    have "(2::rat) powi (?k - 1) * of_int q \<le> 2 powi (?k - 1) * 2 powi bitlen q"
      using q1(2) by (intro mult_left_mono) auto
    also have "\<dots> = 2 powi (bitlen p - 1)"
      by (simp flip: power_int_add)
    also have "\<dots> \<le> of_int p" by (rule p1)
    finally show ?thesis using q by (simp add: x field_simps)
  qed
  have hi: "x < 2 powi (?k + 1)"
  proof -
    have "of_int p < (2::rat) powi bitlen p" by (rule p1)
    also have "\<dots> = (2::rat) powi (?k + 1) * 2 powi (bitlen q - 1)"
      by (simp flip: power_int_add)
    also have "\<dots> \<le> (2::rat) powi (?k + 1) * of_int q"
      using q1(1) by (intro mult_left_mono) auto
    finally show ?thesis using q by (simp add: x field_simps)
  qed
  have i: "ilog2 x = (if 2 powi ?k \<le> x then ?k else ?k - 1)"
    by (simp add: ilog2_def pq Let_def)
  show "2 powi ilog2 x \<le> x" using lo by (simp add: i)
  show "x < 2 powi (ilog2 x + 1)" using hi by (auto simp: i)
qed

lemma powi2_less: "(2::rat) powi a < 2 powi b \<longleftrightarrow> a < b"
  using power_int_strict_increasing [of a b "2::rat"] power_int_increasing [of b a "2::rat"]
  by (cases "a < b") auto

lemma powi2_le: "(2::rat) powi a \<le> 2 powi b \<longleftrightarrow> a \<le> b"
  using powi2_less [of b a] by auto

lemma ilog2_unique:
  assumes "2 powi k \<le> x" "x < 2 powi (k + 1)"
  shows "ilog2 x = k"
proof -
  have x: "0 < x" using assms(1) by (rule less_le_trans [rotated]) simp
  have "2 powi ilog2 x < (2::rat) powi (k + 1)"
    using ilog2_bounds(1) [OF x] assms(2) by simp
  moreover have "2 powi k < (2::rat) powi (ilog2 x + 1)"
    using ilog2_bounds(2) [OF x] assms(1) by simp
  ultimately show ?thesis by (simp add: powi2_less)
qed

lemma ilog2_mono: "0 < x \<Longrightarrow> x \<le> y \<Longrightarrow> ilog2 x \<le> ilog2 y"
proof -
  assume a: "0 < x" "x \<le> y"
  have "2 powi ilog2 x < (2::rat) powi (ilog2 y + 1)"
    using ilog2_bounds(1) [of x] ilog2_bounds(2) [of y] a by simp
  then show ?thesis by (simp add: powi2_less)
qed

lemma rne_of_int [simp]: "rne (of_int n) = n"
  by (simp add: rne_def)

lemma rne_near: "\<bar>of_int (rne x) - x\<bar> \<le> 1/2"
proof -
  have "of_int \<lfloor>x\<rfloor> \<le> x" "x < of_int \<lfloor>x\<rfloor> + 1" by linarith+
  then show ?thesis by (auto simp: rne_def Let_def abs_le_iff)
qed

lemma rne_mono: "x \<le> y \<Longrightarrow> rne x \<le> rne y"
proof -
  assume xy: "x \<le> y"
  have f: "\<lfloor>x\<rfloor> \<le> \<lfloor>y\<rfloor>" using xy by (rule floor_mono)
  show ?thesis
  proof (cases "\<lfloor>x\<rfloor> = \<lfloor>y\<rfloor>")
    case True
    then show ?thesis using xy by (auto simp: rne_def Let_def)
  next
    case False
    with f have "\<lfloor>x\<rfloor> + 1 \<le> \<lfloor>y\<rfloor>" by linarith
    then show ?thesis by (auto simp: rne_def Let_def)
  qed
qed

lemma rne_uminus: "rne (- x) = - rne x"
proof (cases "x = of_int \<lfloor>x\<rfloor>")
  case True
  then have "rne (- x) = rne (of_int (- \<lfloor>x\<rfloor>))" by simp
  also have "\<dots> = - rne (of_int \<lfloor>x\<rfloor>)" by (simp only: rne_of_int)
  finally show ?thesis using True by simp
next
  case False
  have f: "\<lfloor>- x\<rfloor> = - \<lfloor>x\<rfloor> - 1" using False by linarith
  show ?thesis unfolding rne_def Let_def f by (auto simp: field_simps)
qed


definition repr53 :: "rat \<Rightarrow> bool" where
  "repr53 x \<longleftrightarrow> (\<exists>m e. x = of_int m * 2 powi e \<and> \<bar>m\<bar> \<le> 2 ^ 53 \<and> - 1074 \<le> e)"

lemma powi2_split: "u \<le> e \<Longrightarrow> (2::rat) powi e = of_int (2 ^ nat (e - u)) * 2 powi u"
proof -
  assume ue: "u \<le> e"
  have "(2::rat) powi e = 2 powi (e - u) * 2 powi u"
    by (simp flip: power_int_add)
  also have "(2::rat) powi (e - u) = of_int (2 ^ nat (e - u))"
    using ue by (simp add: power_int_def)
  finally show ?thesis .
qed

lemma fl_0 [simp]: "fl 0 = 0"
  by (simp add: fl_def)

lemma fl_on_grid:
  assumes "ulp_exp x \<le> e" "x = of_int m * 2 powi e"
  shows "fl x = x"
proof (cases "x = 0")
  case False
  let ?u = "ulp_exp x"
  have "of_int m * 2 powi e = of_int (m * 2 ^ nat (e - ?u)) * (2::rat) powi ?u"
    by (subst powi2_split [OF assms(1)]) simp
  then have "x = of_int (m * 2 ^ nat (e - ?u)) * 2 powi ?u"
    by (simp only: assms(2) [symmetric])
  then have "x / 2 powi ?u = of_int (m * 2 ^ nat (e - ?u))"
    by (metis nonzero_mult_div_cancel_right power_int_not_zero zero_neq_numeral)
  then have "rne (x / 2 powi ?u) = m * 2 ^ nat (e - ?u)"
    by (simp only: rne_of_int)
  with \<open>x = of_int (m * 2 ^ nat (e - ?u)) * 2 powi ?u\<close> False show ?thesis
    by (simp add: fl_def)
qed simp

lemma fl_exact_less:
  assumes "x = of_int m * 2 powi e" "\<bar>m\<bar> < 2 ^ 53" "- 1074 \<le> e"
  shows "fl x = x"
proof (cases "x = 0")
  case False
  then have x: "0 < \<bar>x\<bar>" by simp
  have m: "\<bar>rat_of_int m\<bar> < 2 ^ 53"
    using assms(2) by (metis of_int_abs of_int_less_iff of_int_numeral of_int_power)
  have "\<bar>x\<bar> = \<bar>of_int m\<bar> * 2 powi e" by (simp add: assms(1) abs_mult)
  also have "\<dots> < 2 powi 53 * 2 powi e"
    using m by (intro mult_strict_right_mono) (auto simp: power_int_def)
  also have "\<dots> = 2 powi (53 + e)" by (rule power_int_add [symmetric]) simp
  finally have "2 powi ilog2 \<bar>x\<bar> < (2::rat) powi (53 + e)"
    using ilog2_bounds(1) [OF x] by simp
  then have "ulp_exp x \<le> e" using assms(3) by (simp add: powi2_less ulp_exp_def)
  then show ?thesis using assms(1) by (rule fl_on_grid)
qed simp

lemma fl_repr: "repr53 x \<Longrightarrow> fl x = x"
proof -
  assume "repr53 x"
  then obtain m e where r: "x = of_int m * 2 powi e" "\<bar>m\<bar> \<le> 2 ^ 53" "- 1074 \<le> e"
    by (auto simp: repr53_def)
  show ?thesis
  proof (cases "\<bar>m\<bar> = 2 ^ 53")
    case False
    with r show ?thesis by (intro fl_exact_less) auto
  next
    case True
    then have m: "m = 2 * (sgn m * 2 ^ 52)"
      by (auto simp: abs_if split: if_splits)
    have "x = of_int (sgn m * 2 ^ 52) * 2 powi (e + 1)"
      by (subst r(1), subst m) (simp add: power_int_add)
    then show ?thesis
      using r(3) by (intro fl_exact_less [of x "sgn m * 2 ^ 52" "e + 1"]) (auto simp: abs_mult abs_sgn_eq)
  qed
qed

lemma repr53_int: "\<bar>n\<bar> \<le> 2 ^ 53 \<Longrightarrow> repr53 (of_int n)"
  unfolding repr53_def by (intro exI [of _ n] exI [of _ 0]) simp

lemma fl_of_int: "\<bar>n\<bar> \<le> 2 ^ 53 \<Longrightarrow> fl (of_int n) = of_int n"
  by (intro fl_repr repr53_int)

lemma fl_uminus: "fl (- x) = - fl x"
  by (simp add: fl_def ulp_exp_def rne_uminus)

lemma scaled_bound:
  assumes "x \<noteq> 0"
  shows "\<bar>x / 2 powi ulp_exp x\<bar> \<le> 2 ^ 53"
proof -
  have "\<bar>x\<bar> \<le> 2 powi (ilog2 \<bar>x\<bar> + 1)"
    using ilog2_bounds(2) [of "\<bar>x\<bar>"] assms by simp
  also have "\<dots> \<le> 2 powi (53 + ulp_exp x)"
    unfolding powi2_le by (simp add: ulp_exp_def)
  also have "\<dots> = 2 ^ 53 * 2 powi ulp_exp x"
    by (simp add: power_int_add)
  finally have "\<bar>x\<bar> / 2 powi ulp_exp x \<le> 2 ^ 53"
    by (simp add: field_simps)
  then show ?thesis by (simp add: abs_mult divide_inverse)
qed

lemma rne_abs_le: "\<bar>x\<bar> \<le> of_int n \<Longrightarrow> \<bar>rne x\<bar> \<le> n"
  using rne_mono [of x "of_int n"] rne_mono [of "of_int (- n)" x]
  by (simp only: rne_of_int) (auto simp: abs_le_iff)

lemma repr53_fl: "repr53 (fl x)"
proof (cases "x = 0")
  case True
  then show ?thesis using repr53_int [of 0] by simp
next
  case False
  have "\<bar>rne (x / 2 powi ulp_exp x)\<bar> \<le> 2 ^ 53"
    using scaled_bound [OF False] by (intro rne_abs_le) simp
  then show ?thesis
    unfolding repr53_def fl_def using False
    by (intro exI [of _ "rne (x / 2 powi ulp_exp x)"] exI [of _ "ulp_exp x"])
      (simp add: ulp_exp_def)
qed

lemma fl_fl [simp]: "fl (fl x) = fl x"
  by (rule fl_repr [OF repr53_fl])

lemma fl_error_ulp: "\<bar>fl x - x\<bar> \<le> 2 powi ulp_exp x / 2"
proof (cases "x = 0")
  case False
  let ?u = "(2::rat) powi ulp_exp x"
  have "fl x - x = (of_int (rne (x / ?u)) - x / ?u) * ?u"
    using False by (simp add: fl_def algebra_simps)
  then have "\<bar>fl x - x\<bar> = \<bar>of_int (rne (x / ?u)) - x / ?u\<bar> * ?u"
    by (simp add: abs_mult)
  also have "\<dots> \<le> 1/2 * ?u"
    using rne_near by (intro mult_right_mono) auto
  finally show ?thesis by simp
qed simp

lemma fl_error: "\<bar>fl x - x\<bar> \<le> \<bar>x\<bar> / 2 ^ 53 + 1 / 2 ^ 1075"
proof (cases "x = 0")
  case False
  show ?thesis
  proof (cases "ulp_exp x = - 1074")
    case True
    have "2 powi ulp_exp x / 2 = (1::rat) / 2 ^ 1075"
      unfolding True by (simp add: power_int_def field_simps)
    with fl_error_ulp [of x] have "\<bar>fl x - x\<bar> \<le> 1 / 2 ^ 1075" by simp
    moreover have "0 \<le> \<bar>x\<bar> / 2 ^ 53" by simp
    ultimately show ?thesis by linarith
  next
    case False
    then have u: "ulp_exp x = ilog2 \<bar>x\<bar> - 52" by (simp add: ulp_exp_def max_def split: if_splits)
    have "2 powi ulp_exp x / 2 = (2::rat) powi ilog2 \<bar>x\<bar> / 2 ^ 53"
      unfolding u by (simp add: power_int_diff)
    also have "\<dots> \<le> \<bar>x\<bar> / 2 ^ 53"
      using ilog2_bounds(1) [of "\<bar>x\<bar>"] \<open>x \<noteq> 0\<close> by (intro divide_right_mono) auto
    finally have "\<bar>fl x - x\<bar> \<le> \<bar>x\<bar> / 2 ^ 53" using fl_error_ulp [of x] by linarith
    moreover have "(0::rat) \<le> 1 / 2 ^ 1075" by simp
    ultimately show ?thesis by linarith
  qed
qed simp

lemma fl_mono_pos:
  assumes "0 < x" "x \<le> y"
  shows "fl x \<le> fl y"
proof -
  let ?u = "ulp_exp x" and ?v = "ulp_exp y"
  have y: "0 < y" using assms by simp
  have uv: "?u \<le> ?v" using ilog2_mono [OF assms] assms y by (simp add: ulp_exp_def)
  show ?thesis
  proof (cases "?u = ?v")
    case True
    have "rne (x / 2 powi ?u) \<le> rne (y / 2 powi ?u)"
      using assms(2) by (intro rne_mono divide_right_mono) auto
    then show ?thesis using True assms(1) y by (simp add: fl_def)
  next
    case False
    with uv have v: "?v = ilog2 y - 52" and l: "ulp_exp x < ilog2 y - 52"
      using y by (auto simp: ulp_exp_def max_def split: if_splits)
    have xy: "ilog2 x < ilog2 y" using l assms y by (auto simp: ulp_exp_def)
    have "x \<le> 2 powi (ilog2 x + 1)" using ilog2_bounds(2) [OF assms(1)] by simp
    also have "\<dots> \<le> 2 powi ilog2 y" using xy by (simp add: powi2_le)
    finally have xk: "x \<le> 2 powi ilog2 y" .
    have "(2::rat) powi ilog2 y = of_int (2 ^ nat (ilog2 y - ?u)) * 2 powi ?u"
      using l by (intro powi2_split) simp
    with xk have "x / 2 powi ?u \<le> of_int (2 ^ nat (ilog2 y - ?u))"
      by (simp add: field_simps)
    from rne_mono [OF this] have "rne (x / 2 powi ?u) \<le> 2 ^ nat (ilog2 y - ?u)"
      by (simp only: rne_of_int)
    then have "of_int (rne (x / 2 powi ?u)) \<le> (of_int (2 ^ nat (ilog2 y - ?u)) :: rat)"
      by (simp only: of_int_le_iff)
    then have "of_int (rne (x / 2 powi ?u)) * 2 powi ?u \<le> (2::rat) powi ilog2 y"
      unfolding \<open>(2::rat) powi ilog2 y = _\<close> by (intro mult_right_mono) auto
    then have a: "fl x \<le> 2 powi ilog2 y" using assms(1) by (simp add: fl_def)
    have e: "(2::rat) powi ilog2 y = of_int (2 ^ 52) * 2 powi ?v"
      unfolding v by (simp add: power_int_diff)
    then have "of_int (2 ^ 52) \<le> y / 2 powi ?v"
      using ilog2_bounds(1) [OF y] by (simp add: field_simps)
    from rne_mono [OF this] have "2 ^ 52 \<le> rne (y / 2 powi ?v)"
      by (simp only: rne_of_int)
    then have "of_int (2 ^ 52) \<le> (of_int (rne (y / 2 powi ?v)) :: rat)"
      by (simp only: of_int_le_iff)
    then have "(2::rat) powi ilog2 y \<le> of_int (rne (y / 2 powi ?v)) * 2 powi ?v"
      unfolding e by (intro mult_right_mono) auto
    then have "2 powi ilog2 y \<le> fl y" using y by (simp add: fl_def)
    with a show ?thesis by simp
  qed
qed

lemma fl_nonneg: "0 \<le> x \<Longrightarrow> 0 \<le> fl x"
proof (cases "x = 0")
  case False
  assume "0 \<le> x"
  then have "0 \<le> rne (x / 2 powi ulp_exp x)"
    using rne_mono [of 0 "x / 2 powi ulp_exp x"] rne_of_int [of 0] by simp
  then show ?thesis by (simp add: fl_def)
qed simp

lemma fl_mono: "x \<le> y \<Longrightarrow> fl x \<le> fl y"
proof -
  assume xy: "x \<le> y"
  consider "0 < x" | "x \<le> 0" "0 \<le> y" | "y < 0" by linarith
  then show ?thesis
  proof cases
    case 1 then show ?thesis using xy by (rule fl_mono_pos)
  next
    case 2
    have "0 \<le> fl (- x)" using 2 by (intro fl_nonneg) simp
    moreover have "0 \<le> fl y" using 2 by (intro fl_nonneg)
    ultimately show ?thesis by (simp add: fl_uminus)
  next
    case 3
    then have "fl (- y) \<le> fl (- x)" using xy by (intro fl_mono_pos) auto
    then show ?thesis by (simp add: fl_uminus)
  qed
qed

section \<open>Evaluation of the rounding\<close>

text \<open>
  Equations for evaluation, on numerators and denominators: a greatest common divisor that
  halves even numbers, products with powers of two that only append digits, and the rounding
  as one integer division.
\<close>

declare gcd_code_int [code del]

lemma gcd_halves: "gcd (2 * a) (2 * b) = 2 * gcd a (b :: int)"
  using gcd_mult_distrib_int [of 2 a b] by simp

lemma gcd_half_odd: "odd b \<Longrightarrow> gcd (2 * a) b = gcd a (b :: int)"
  by (simp add: gcd_mult_left_left_cancel coprime_commute)

lemma gcd_half_odd': "odd b \<Longrightarrow> gcd b (2 * a) = gcd b (a :: int)"
  using gcd_half_odd [of b a] by (simp add: gcd.commute)

lemma odd_Bit1: "odd (numeral (num.Bit1 n) :: int)"
  by simp

lemma gcd_int_codes [code]:
  "gcd 0 l = \<bar>l :: int\<bar>"
  "gcd k 0 = \<bar>k :: int\<bar>"
  "gcd (Int.Neg m) l = gcd (Int.Pos m) l"
  "gcd k (Int.Neg n) = gcd k (Int.Pos n)"
  "gcd (Int.Pos num.One) (Int.Pos n) = 1"
  "gcd (Int.Pos (num.Bit0 m)) (Int.Pos num.One) = 1"
  "gcd (Int.Pos (num.Bit1 m)) (Int.Pos num.One) = 1"
  "gcd (Int.Pos (num.Bit0 m)) (Int.Pos (num.Bit0 n)) = 2 * gcd (Int.Pos m) (Int.Pos n)"
  "gcd (Int.Pos (num.Bit0 m)) (Int.Pos (num.Bit1 n)) = gcd (Int.Pos m) (Int.Pos (num.Bit1 n))"
  "gcd (Int.Pos (num.Bit1 m)) (Int.Pos (num.Bit0 n)) = gcd (Int.Pos (num.Bit1 m)) (Int.Pos n)"
  "gcd (Int.Pos (num.Bit1 m)) (Int.Pos (num.Bit1 n)) =
     gcd (Int.Pos (num.Bit1 n)) (Int.Pos (num.Bit1 m) mod Int.Pos (num.Bit1 n))"
proof -
  show "gcd (Int.Pos (num.Bit0 m)) (Int.Pos (num.Bit0 n)) = 2 * gcd (Int.Pos m) (Int.Pos n)"
    unfolding Int.Pos_def numeral_Bit0_eq_double [of m] numeral_Bit0_eq_double [of n] by (rule gcd_halves)
  show "gcd (Int.Pos (num.Bit0 m)) (Int.Pos (num.Bit1 n)) = gcd (Int.Pos m) (Int.Pos (num.Bit1 n))"
    unfolding Int.Pos_def numeral_Bit0_eq_double [of m] by (rule gcd_half_odd [OF odd_Bit1])
  show "gcd (Int.Pos (num.Bit1 m)) (Int.Pos (num.Bit0 n)) = gcd (Int.Pos (num.Bit1 m)) (Int.Pos n)"
    unfolding Int.Pos_def numeral_Bit0_eq_double [of n] by (rule gcd_half_odd' [OF odd_Bit1])
  show "gcd (Int.Pos (num.Bit1 m)) (Int.Pos (num.Bit1 n)) =
     gcd (Int.Pos (num.Bit1 n)) (Int.Pos (num.Bit1 m) mod Int.Pos (num.Bit1 n))"
    by (rule gcd_red_int)
qed simp_all

text \<open>Normalising a fraction whose terms have no common factor divides by nothing.\<close>

lemma normalize_codes [code]:
  "Rat.normalize (p, q) = (if 0 < q then let a = gcd p q in if a = 1 then (p, q) else (p div a, q div a)
     else if q = 0 then (0, 1)
     else let a = - gcd p q in (p div a, q div a))"
  by (auto simp: Rat.normalize_def Let_def)

lemma bitlen_double: "0 < n \<Longrightarrow> bitlen (2 * n) = bitlen n + 1" "0 < n \<Longrightarrow> bitlen (2 * n + 1) = bitlen n + 1"
  by (simp_all add: compute_bitlen [of "2 * n"] compute_bitlen [of "2 * n + 1"])

lemma bitlen_codes [code]:
  "bitlen 0 = 0" "bitlen (Int.Neg n) = 0" "bitlen (Int.Pos num.One) = 1"
  "bitlen (Int.Pos (num.Bit0 n)) = bitlen (Int.Pos n) + 1"
  "bitlen (Int.Pos (num.Bit1 n)) = bitlen (Int.Pos n) + 1"
proof -
  show "bitlen (Int.Pos (num.Bit0 n)) = bitlen (Int.Pos n) + 1"
    unfolding Int.Pos_def numeral_Bit0_eq_double [of n] by (rule bitlen_double) simp
  show "bitlen (Int.Pos (num.Bit1 n)) = bitlen (Int.Pos n) + 1"
    unfolding Int.Pos_def numeral_Bit1_eq_inc_double [of n] by (rule bitlen_double) simp
qed (simp_all add: bitlen_eq_zero_iff compute_bitlen [of 1])

fun shift_num :: "num \<Rightarrow> num \<Rightarrow> num" where
  "shift_num n num.One = num.Bit0 n"
| "shift_num n (num.Bit0 k) = shift_num (shift_num n k) k"
| "shift_num n (num.Bit1 k) = num.Bit0 (shift_num (shift_num n k) k)"

definition times_two_to :: "int \<Rightarrow> int \<Rightarrow> int" where
  "times_two_to p k = p * 2 ^ nat k"

lemma shift_num: "numeral (shift_num n k) = numeral n * (2 :: int) ^ numeral k"
proof (induction n k rule: shift_num.induct)
  case (1 n)
  show ?case by (simp only: shift_num.simps numeral_Bit0_eq_double [of n] numeral_One power_one_right mult.commute)
next
  case (2 n k)
  have "(2 :: int) ^ numeral (num.Bit0 k) = 2 ^ numeral k * 2 ^ numeral k"
    by (simp only: numeral_Bit0 power_add)
  with 2 show ?case by (simp only: shift_num.simps mult.assoc)
next
  case (3 n k)
  have "(2 :: int) ^ numeral (num.Bit1 k) = 2 ^ numeral k * 2 ^ numeral k * 2"
    by (simp only: numeral_Bit1 power_add power_one_right)
  with 3 show ?case by (simp only: shift_num.simps numeral_Bit0_eq_double [of "shift_num (shift_num n k) k"] mult_ac)
qed

lemma times_two_to_codes [code]:
  "times_two_to p 0 = p" "times_two_to p (Int.Neg k) = p" "times_two_to 0 (Int.Pos k) = 0"
  "times_two_to (Int.Pos n) (Int.Pos k) = Int.Pos (shift_num n k)"
  "times_two_to (Int.Neg n) (Int.Pos k) = Int.Neg (shift_num n k)"
  by (simp_all add: times_two_to_def shift_num)

definition at_least_powi :: "int \<Rightarrow> int \<Rightarrow> int \<Rightarrow> bool" where
  "at_least_powi p q k = (if 0 \<le> k then times_two_to q k \<le> p else q \<le> times_two_to p (- k))"

lemma two_powi:
  "0 \<le> k \<Longrightarrow> (2 :: rat) powi k = of_int (2 ^ nat k)"
  "k \<le> 0 \<Longrightarrow> (2 :: rat) powi k = 1 / of_int (2 ^ nat (- k))"
  by (auto simp: power_int_def inverse_eq_divide power_one_over)

lemma ilog2_code [code]: "ilog2 x = (let (p, q) = quotient_of x; k = bitlen p - bitlen q in
    if at_least_powi p q k then k else k - 1)"
proof (cases "quotient_of x")
  case (Pair p q)
  then have q: "0 < q" "x = of_int p / of_int q" using quotient_of_denom_pos quotient_of_div by blast+
  have "at_least_powi p q k \<longleftrightarrow> 2 powi k \<le> x" for k
  proof (cases "0 \<le> k")
    case True
    have "2 powi k \<le> x \<longleftrightarrow> (of_int (q * 2 ^ nat k) :: rat) \<le> of_int p"
      unfolding two_powi(1) [OF True] q(2) using q(1) by (simp add: le_divide_eq mult.commute)
    with True show ?thesis by (simp only: at_least_powi_def times_two_to_def of_int_le_iff if_True)
  next
    case False
    then have "k \<le> 0" by simp
    have "2 powi k \<le> x \<longleftrightarrow> (of_int q :: rat) \<le> of_int (p * 2 ^ nat (- k))"
      unfolding two_powi(2) [OF \<open>k \<le> 0\<close>] q(2) using q(1) by (simp add: le_divide_eq divide_le_eq)
    with False show ?thesis by (simp only: at_least_powi_def times_two_to_def of_int_le_iff if_False)
  qed
  then show ?thesis by (simp add: ilog2_def Pair Let_def)
qed

definition rne_div :: "int \<Rightarrow> int \<Rightarrow> int" where
  "rne_div n d = (let (f, r) = (n div d, n mod d) in
     if 2 * r < d then f else if d < 2 * r then f + 1 else if even f then f else f + 1)"

lemma rne_div: "0 < d \<Longrightarrow> rne (of_int n / of_int d) = rne_div n d"
proof -
  assume d: "0 < d"
  have f: "\<lfloor>(of_int n / of_int d :: rat)\<rfloor> = n div d" by (rule floor_divide_of_int_eq)
  have "(of_int n :: rat) = of_int (n div d) * of_int d + of_int (n mod d)"
    by (metis div_mult_mod_eq of_int_add of_int_mult)
  then have r: "(of_int n / of_int d :: rat) - of_int (n div d) = of_int (n mod d) / of_int d"
    using d by (simp add: add_divide_distrib)
  have "(of_int (n mod d) / of_int d < (1 / 2 :: rat)) \<longleftrightarrow> (of_int (2 * (n mod d)) :: rat) < of_int d"
    using d by (simp add: divide_less_eq mult.commute)
  then have "(of_int (n mod d) / of_int d < (1 / 2 :: rat)) \<longleftrightarrow> 2 * (n mod d) < d"
    by (simp only: of_int_less_iff)
  moreover have "((1 / 2 :: rat) < of_int (n mod d) / of_int d) \<longleftrightarrow> (of_int d :: rat) < of_int (2 * (n mod d))"
    using d by (simp add: less_divide_eq mult.commute)
  then have "((1 / 2 :: rat) < of_int (n mod d) / of_int d) \<longleftrightarrow> d < 2 * (n mod d)"
    by (simp only: of_int_less_iff)
  ultimately show ?thesis by (simp only: rne_def rne_div_def Let_def f r prod.case)
qed

lemma fl_code [code]: "fl x = (let (p, q) = quotient_of x in if p = 0 then 0 else
   (let u = ulp_exp x in
    if u \<le> 0 then Fract (rne_div (times_two_to p (- u)) q) (times_two_to 1 (- u))
    else of_int (times_two_to (rne_div p (times_two_to q u)) u)))"
proof (cases "quotient_of x")
  case (Pair p q)
  then have q: "0 < q" "x = of_int p / of_int q" using quotient_of_denom_pos quotient_of_div by blast+
  let ?u = "ulp_exp x"
  show ?thesis
  proof (cases "p = 0")
    case True
    with q Pair show ?thesis by (simp add: fl_def)
  next
    case False
    then have x: "x \<noteq> 0" using q by simp
    show ?thesis
    proof (cases "?u \<le> 0")
      case True
      have "x / 2 powi ?u = of_int (times_two_to p (- ?u)) / of_int q"
        unfolding two_powi(2) [OF True] times_two_to_def by (subst q(2)) simp
      then have "rne (x / 2 powi ?u) = rne_div (times_two_to p (- ?u)) q" using rne_div q by simp
      moreover have "fl x = Fract (rne (x / 2 powi ?u)) (times_two_to 1 (- ?u))"
        unfolding fl_def two_powi(2) [OF True] Fract_of_int_quotient times_two_to_def using x by simp
      ultimately show ?thesis using True False Pair by (simp add: Let_def)
    next
      case pos: False
      have up: "0 \<le> ?u" using pos by simp
      have "x / 2 powi ?u = of_int p / of_int (times_two_to q ?u)"
        unfolding two_powi(1) [OF up] times_two_to_def by (subst q(2)) simp
      moreover have "0 < times_two_to q ?u" using q by (simp add: times_two_to_def)
      ultimately have "rne (x / 2 powi ?u) = rne_div p (times_two_to q ?u)" using rne_div by simp
      moreover have "fl x = of_int (times_two_to (rne (x / 2 powi ?u)) ?u)"
        unfolding fl_def two_powi(1) [OF up] times_two_to_def using x by simp
      ultimately show ?thesis using pos False Pair by (simp add: Let_def)
    qed
  qed
qed

section \<open>Number values and their arithmetic\<close>

datatype jsnum = NaN | PosInf | NegInf | Fin rat

definition js :: "rat \<Rightarrow> jsnum" where
  "js x = (let r = fl x in
     if r \<noteq> 0 \<and> 1024 \<le> ilog2 \<bar>r\<bar> then (if 0 < r then PosInf else NegInf) else Fin r)"

lemma overflow_iff: "r \<noteq> 0 \<and> 1024 \<le> ilog2 \<bar>r\<bar> \<longleftrightarrow> 2 ^ 1024 \<le> \<bar>r\<bar>"
proof (cases "r = 0")
  case False
  then have r: "0 < \<bar>r\<bar>" by simp
  have p: "(2::rat) powi 1024 = 2 ^ 1024"
    by (metis power_int_of_nat of_nat_numeral)
  have "1024 \<le> ilog2 \<bar>r\<bar> \<longleftrightarrow> 2 powi 1024 \<le> \<bar>r\<bar>"
  proof
    assume "1024 \<le> ilog2 \<bar>r\<bar>"
    then have "(2::rat) powi 1024 \<le> 2 powi ilog2 \<bar>r\<bar>" by (simp only: powi2_le)
    then show "2 powi 1024 \<le> \<bar>r\<bar>" using ilog2_bounds(1) [OF r] by (rule order_trans)
  next
    assume "2 powi 1024 \<le> \<bar>r\<bar>"
    then have "(2::rat) powi 1024 < 2 powi (ilog2 \<bar>r\<bar> + 1)"
      using ilog2_bounds(2) [OF r] by (rule le_less_trans)
    then show "1024 \<le> ilog2 \<bar>r\<bar>" by (simp only: powi2_less)
  qed
  then show ?thesis using False by (simp only: p) simp
qed (simp add: zero_less_power)

lemma js_alt: "js x =
  (if 2 ^ 1024 \<le> fl x then PosInf else if fl x \<le> - (2 ^ 1024) then NegInf else Fin (fl x))"
proof -
  have p: "(0::rat) < 2 ^ 1024" by (rule zero_less_power) simp
  show ?thesis
    unfolding js_def Let_def overflow_iff using p by (auto simp only: abs_if split: if_splits)
qed

instantiation jsnum :: "{plus, uminus, minus, times, inverse, ord}"
begin

fun plus_jsnum :: "jsnum \<Rightarrow> jsnum \<Rightarrow> jsnum" where
  "plus_jsnum NaN b = NaN"
| "plus_jsnum a NaN = NaN"
| "plus_jsnum PosInf NegInf = NaN"
| "plus_jsnum NegInf PosInf = NaN"
| "plus_jsnum PosInf b = PosInf"
| "plus_jsnum NegInf b = NegInf"
| "plus_jsnum a PosInf = PosInf"
| "plus_jsnum a NegInf = NegInf"
| "plus_jsnum (Fin x) (Fin y) = js (x + y)"

fun uminus_jsnum :: "jsnum \<Rightarrow> jsnum" where
  "uminus_jsnum NaN = NaN"
| "uminus_jsnum PosInf = NegInf"
| "uminus_jsnum NegInf = PosInf"
| "uminus_jsnum (Fin x) = Fin (- x)"

definition minus_jsnum :: "jsnum \<Rightarrow> jsnum \<Rightarrow> jsnum" where
  "minus_jsnum a b = a + (- b)"

fun times_jsnum :: "jsnum \<Rightarrow> jsnum \<Rightarrow> jsnum" where
  "times_jsnum NaN b = NaN"
| "times_jsnum a NaN = NaN"
| "times_jsnum (Fin x) (Fin y) = js (x * y)"
| "times_jsnum (Fin x) PosInf = (if x = 0 then NaN else if 0 < x then PosInf else NegInf)"
| "times_jsnum (Fin x) NegInf = (if x = 0 then NaN else if 0 < x then NegInf else PosInf)"
| "times_jsnum PosInf (Fin y) = (if y = 0 then NaN else if 0 < y then PosInf else NegInf)"
| "times_jsnum NegInf (Fin y) = (if y = 0 then NaN else if 0 < y then NegInf else PosInf)"
| "times_jsnum PosInf PosInf = PosInf"
| "times_jsnum PosInf NegInf = NegInf"
| "times_jsnum NegInf PosInf = NegInf"
| "times_jsnum NegInf NegInf = PosInf"

fun divide_jsnum :: "jsnum \<Rightarrow> jsnum \<Rightarrow> jsnum" where
  "divide_jsnum NaN b = NaN"
| "divide_jsnum a NaN = NaN"
| "divide_jsnum (Fin x) (Fin y) =
     (if y = 0 then (if x = 0 then NaN else if 0 < x then PosInf else NegInf) else js (x / y))"
| "divide_jsnum (Fin x) b = Fin 0"
| "divide_jsnum PosInf (Fin y) = (if 0 \<le> y then PosInf else NegInf)"
| "divide_jsnum NegInf (Fin y) = (if 0 \<le> y then NegInf else PosInf)"
| "divide_jsnum a b = NaN"

definition inverse_jsnum :: "jsnum \<Rightarrow> jsnum" where
  "inverse_jsnum a = divide (Fin 1) a"

fun less_eq_jsnum :: "jsnum \<Rightarrow> jsnum \<Rightarrow> bool" where
  "less_eq_jsnum NaN b = False"
| "less_eq_jsnum a NaN = False"
| "less_eq_jsnum NegInf b = True"
| "less_eq_jsnum a PosInf = True"
| "less_eq_jsnum (Fin x) (Fin y) = (x \<le> y)"
| "less_eq_jsnum a b = False"

fun less_jsnum :: "jsnum \<Rightarrow> jsnum \<Rightarrow> bool" where
  "less_jsnum NaN b = False"
| "less_jsnum a NaN = False"
| "less_jsnum NegInf NegInf = False"
| "less_jsnum NegInf b = True"
| "less_jsnum PosInf PosInf = False"
| "less_jsnum a PosInf = True"
| "less_jsnum (Fin x) (Fin y) = (x < y)"
| "less_jsnum a b = False"

instance ..

end

definition js_eq :: "jsnum \<Rightarrow> jsnum \<Rightarrow> bool" where
  "js_eq a b \<longleftrightarrow> a \<noteq> NaN \<and> a = b"

fun is_finite :: "jsnum \<Rightarrow> bool" where
  "is_finite (Fin x) = True"
| "is_finite a = False"

fun is_integer :: "jsnum \<Rightarrow> bool" where
  "is_integer (Fin x) = (x = of_int \<lfloor>x\<rfloor>)"
| "is_integer a = False"

fun is_safe_integer :: "jsnum \<Rightarrow> bool" where
  "is_safe_integer (Fin x) = (x = of_int \<lfloor>x\<rfloor> \<and> \<bar>x\<bar> \<le> 2 ^ 53 - 1)"
| "is_safe_integer a = False"

fun math_floor :: "jsnum \<Rightarrow> jsnum" where
  "math_floor (Fin x) = Fin (of_int \<lfloor>x\<rfloor>)"
| "math_floor a = a"

fun math_round :: "jsnum \<Rightarrow> jsnum" where
  "math_round (Fin x) = Fin (of_int \<lfloor>x + 1/2\<rfloor>)"
| "math_round a = a"

definition math_max :: "jsnum \<Rightarrow> jsnum \<Rightarrow> jsnum" where
  "math_max a b = (if a = NaN \<or> b = NaN then NaN else if a \<le> b then b else a)"

definition math_min :: "jsnum \<Rightarrow> jsnum \<Rightarrow> jsnum" where
  "math_min a b = (if a = NaN \<or> b = NaN then NaN else if a \<le> b then a else b)"

fun math_abs :: "jsnum \<Rightarrow> jsnum" where
  "math_abs (Fin x) = Fin \<bar>x\<bar>"
| "math_abs NaN = NaN"
| "math_abs a = PosInf"

abbreviation num :: "int \<Rightarrow> jsnum" where
  "num n \<equiv> Fin (of_int n)"

lemma js_Fin: "\<bar>fl x\<bar> < 2 ^ 1024 \<Longrightarrow> js x = Fin (fl x)"
  by (auto simp only: js_alt abs_less_iff split: if_splits)

lemma js_of_int: "\<bar>n\<bar> \<le> 2 ^ 53 \<Longrightarrow> js (of_int n) = num n"
proof -
  assume n: "\<bar>n\<bar> \<le> 2 ^ 53"
  have "\<bar>rat_of_int n\<bar> \<le> 2 ^ 53"
    using n by (metis of_int_abs of_int_le_iff of_int_numeral of_int_power)
  also have "(2::rat) ^ 53 < 2 ^ 1024" by (rule power_strict_increasing) auto
  finally show ?thesis using fl_of_int [OF n] by (intro trans [OF js_Fin]) auto
qed

text \<open>Evaluation takes a short way for the integers that doubles represent exactly.\<close>

lemma js_code [code]:
  "js x = (case quotient_of x of (p, q) \<Rightarrow>
     if q = 1 \<and> \<bar>p\<bar> \<le> 9007199254740992 then Fin x
     else (let r = fl x in
       if r \<noteq> 0 \<and> 1024 \<le> ilog2 \<bar>r\<bar> then (if 0 < r then PosInf else NegInf) else Fin r))"
proof (cases "quotient_of x")
  case (Pair p q)
  have "js x = Fin x" if "q = 1 \<and> \<bar>p\<bar> \<le> 9007199254740992"
    using quotient_of_div [OF Pair] js_of_int [of p] that by simp
  then show ?thesis by (simp add: Pair js_def)
qed

lemma num_add: "\<bar>a + b\<bar> \<le> 2 ^ 53 \<Longrightarrow> num a + num b = num (a + b)"
  using js_of_int [of "a + b"] by simp

lemma num_diff: "\<bar>a - b\<bar> \<le> 2 ^ 53 \<Longrightarrow> num a - num b = num (a - b)"
  using js_of_int [of "a - b"] by (simp add: minus_jsnum_def)

lemma num_mult: "\<bar>a * b\<bar> \<le> 2 ^ 53 \<Longrightarrow> num a * num b = num (a * b)"
  using js_of_int [of "a * b"] by simp

lemma js_NaN_right [simp]: "\<not> a \<le> NaN" "\<not> a < NaN"
  by (cases a; simp)+

lemma js_le_trans: "a \<le> b \<Longrightarrow> b \<le> c \<Longrightarrow> a \<le> (c::jsnum)"
  by (cases a; cases b; cases c) auto

lemma js_less_imp_le: "a < b \<Longrightarrow> a \<le> (b::jsnum)"
  by (cases a; cases b) auto

lemma js_le_less_trans: "a \<le> b \<Longrightarrow> b < c \<Longrightarrow> a < (c::jsnum)"
  by (cases a; cases b; cases c) auto

lemma js_less_le_trans: "a < b \<Longrightarrow> b \<le> c \<Longrightarrow> a < (c::jsnum)"
  by (cases a; cases b; cases c) auto

lemma js_less_trans: "a < b \<Longrightarrow> b < c \<Longrightarrow> a < (c::jsnum)"
  by (cases a; cases b; cases c) auto

lemma js_not_less: "a \<noteq> NaN \<Longrightarrow> b \<noteq> NaN \<Longrightarrow> \<not> a < b \<longleftrightarrow> b \<le> (a::jsnum)"
  by (cases a; cases b) auto

lemma js_not_le: "a \<noteq> NaN \<Longrightarrow> b \<noteq> NaN \<Longrightarrow> \<not> a \<le> b \<longleftrightarrow> b < (a::jsnum)"
  by (cases a; cases b) auto

lemma js_less_irrefl [simp]: "\<not> a < (a::jsnum)"
  by (cases a) auto

lemma js_le_refl: "a \<noteq> NaN \<Longrightarrow> a \<le> (a::jsnum)"
  by (cases a) auto

lemma js_antisym: "a \<le> b \<Longrightarrow> b \<le> a \<Longrightarrow> a = (b::jsnum)"
  by (cases a; cases b) auto

lemma js_less_iff: "a < b \<longleftrightarrow> a \<le> b \<and> a \<noteq> (b::jsnum)"
  by (cases a; cases b) auto

lemma js_mono: "x \<le> y \<Longrightarrow> js x \<le> js y"
  using fl_mono [of x y] by (auto simp: js_alt simp del: power_numeral)

lemma is_finite_iff: "is_finite a \<longleftrightarrow> (\<exists>x. a = Fin x)"
  by (cases a) auto

lemma math_min_le: "math_min a b \<noteq> NaN \<Longrightarrow> math_min a b \<le> a \<and> math_min a b \<le> b"
  by (cases a; cases b) (auto simp: math_min_def)

lemma point_one_plus_point_two: "Fin 1 / Fin 10 + Fin 2 / Fin 10 \<noteq> Fin 3 / Fin 10"
  by code_simp

end
