(* ===== verification/JsDate.thy ===== *)
theory JsDate
  imports JsNumber
begin

text \<open>
  \<open>Date.parse\<close> and \<open>Date.prototype.toISOString\<close> of ECMAScript, which the program uses for
  every timestamp. \<open>date_parse\<close> reads the date-time string format of the language: a year of
  four digits, or a sign and six, an optional month and day, and an optional time with
  seconds, a fraction (milliseconds, further digits are dropped) and the zone \<open>Z\<close> or an
  offset. Any other string gives NaN. A time without a zone is local time, which depends on
  the host; the program writes none, and it is NaN here.

  \<open>to_iso_string\<close> prints a time value; \<open>date_parse_iso\<close> is the round trip.
\<close>

section \<open>The calendar\<close>

definition day_from_year :: "int \<Rightarrow> int" where
  "day_from_year y = 365 * (y - 1970) + (y - 1969) div 4 - (y - 1901) div 100 + (y - 1601) div 400"

definition leap_year :: "int \<Rightarrow> bool" where
  "leap_year y \<longleftrightarrow> 4 dvd y \<and> (\<not> 100 dvd y \<or> 400 dvd y)"

text \<open>The first day of each month within the year; months count from 0.\<close>

definition month_start :: "bool \<Rightarrow> int \<Rightarrow> int" where
  "month_start leap m = (let l = (if leap then 1 else 0) in
     if m \<le> 0 then 0 else if m = 1 then 31 else if m = 2 then 59 + l
     else if m = 3 then 90 + l else if m = 4 then 120 + l else if m = 5 then 151 + l
     else if m = 6 then 181 + l else if m = 7 then 212 + l else if m = 8 then 243 + l
     else if m = 9 then 273 + l else if m = 10 then 304 + l else 334 + l)"

definition make_day :: "int \<Rightarrow> int \<Rightarrow> int \<Rightarrow> int" where
  "make_day y m d = day_from_year y + month_start (leap_year y) m + d - 1"

definition year_of_day :: "int \<Rightarrow> int" where
  "year_of_day d = (let y = (d * 400) div 146097 + 1970 in
     if day_from_year (y + 1) \<le> d then y + 1 else if day_from_year y \<le> d then y else y - 1)"

definition month_of_day :: "bool \<Rightarrow> int \<Rightarrow> int" where
  "month_of_day leap n = (let s = month_start leap in
     if n < s 1 then 0 else if n < s 2 then 1 else if n < s 3 then 2 else if n < s 4 then 3
     else if n < s 5 then 4 else if n < s 6 then 5 else if n < s 7 then 6 else if n < s 8 then 7
     else if n < s 9 then 8 else if n < s 10 then 9 else if n < s 11 then 10 else 11)"

lemma div_step:
  fixes z k :: int
  assumes "0 < k"
  shows "(z + 1) div k = z div k + (if k dvd z + 1 then 1 else 0)"
proof -
  let ?q = "z div k" and ?r = "z mod k"
  have z: "k * ?q + ?r = z" by (rule mult_div_mod_eq)
  have r: "0 \<le> ?r" "?r < k" using assms by simp_all
  show ?thesis
  proof (cases "?r + 1 = k")
    case True
    then have "z + 1 = k * ?q + k" using z by linarith
    then have e: "z + 1 = k * (?q + 1)" by (simp only: distrib_left mult_1_right)
    then have "(z + 1) div k = ?q + 1" using assms by (metis nonzero_mult_div_cancel_left less_irrefl)
    moreover have "k dvd z + 1" using e by (metis dvd_triv_left)
    ultimately show ?thesis by simp
  next
    case False
    then have b: "0 \<le> ?r + 1" "?r + 1 < k" using r by auto
    have "z + 1 = k * ?q + (?r + 1)" using z by linarith
    then have "(z + 1) div k = ?q" "(z + 1) mod k = ?r + 1"
      using int_div_pos_eq [of "z + 1" k ?q "?r + 1"] int_mod_pos_eq [of "z + 1" k ?q "?r + 1"] b
      by auto
    then show ?thesis using r by (auto simp: dvd_eq_mod_eq_0)
  qed
qed

lemma dvd_minus_multiple: "k dvd c \<Longrightarrow> k dvd y - c \<longleftrightarrow> k dvd (y::int)"
  by (metis diff_add_cancel dvd_add dvd_diff)

lemma div_step_offset:
  fixes y c c' k :: int
  assumes "0 < k" "k dvd c" "c' = c + 1"
  shows "(y - c) div k = (y - c') div k + (if k dvd y then 1 else 0)"
proof -
  have "y - c' + 1 = y - c" using assms(3) by simp
  with div_step [OF assms(1), of "y - c'"] show ?thesis
    by (simp only: dvd_minus_multiple [OF assms(2)])
qed

lemma day_from_year_step: "day_from_year (y + 1) = day_from_year y + (if leap_year y then 366 else 365)"
proof -
  have a: "(y - 1968) div 4 = (y - 1969) div 4 + (if 4 dvd y then 1 else 0)"
    by (rule div_step_offset) simp_all
  have b: "(y - 1900) div 100 = (y - 1901) div 100 + (if 100 dvd y then 1 else 0)"
    by (rule div_step_offset) simp_all
  have c: "(y - 1600) div 400 = (y - 1601) div 400 + (if 400 dvd y then 1 else 0)"
    by (rule div_step_offset) simp_all
  have d: "400 dvd y \<Longrightarrow> 100 dvd y" by (rule dvd_trans [of 100 400 y]) simp_all
  have e: "100 dvd y \<Longrightarrow> 4 dvd y" by (rule dvd_trans [of 4 100 y]) simp_all
  have n: "day_from_year (y + 1) =
      365 * (y - 1970) + 365 + (y - 1968) div 4 - (y - 1900) div 100 + (y - 1600) div 400"
  proof -
    have "y + 1 - 1970 = y - 1970 + 1" "y + 1 - 1969 = y - 1968" "y + 1 - 1901 = y - 1900"
      "y + 1 - 1601 = y - 1600" by linarith+
    then show ?thesis unfolding day_from_year_def by (simp only: distrib_left mult_1_right)
  qed
  have s: "365 * (y - 1970) + 365 + (p + (if P then 1 else 0)) - (q + (if Q then 1 else 0)) +
      (r + (if R then 1 else 0)) = 365 * (y - 1970) + p - q + r + (if P \<and> (\<not> Q \<or> R) then 366 else 365)"
    if "R \<longrightarrow> Q" "Q \<longrightarrow> P" for p q r :: int and P Q R
    using that by (cases P; cases Q; cases R) simp_all
  show ?thesis
    unfolding n a b c leap_year_def by (subst s) (auto intro: d e simp only: day_from_year_def)
qed

lemma year_of_day_bounds:
  "day_from_year (year_of_day d) \<le> d" "d < day_from_year (year_of_day d + 1)"
proof -
  define q where "q = d * 400 div 146097"
  define r where "r = d * 400 mod 146097"
  have m: "146097 * q + r = d * 400"
    unfolding q_def r_def by (rule mult_div_mod_eq)
  have r: "0 \<le> r" "r < 146097" by (simp_all add: r_def)
  have lo: "365 * (q - 1) + a - b + c \<le> d"
    if "4 * a \<le> q" "q + 68 - 99 \<le> 100 * b" "400 * c \<le> q + 368" for a b c :: int
  proof -
    have "400 * a \<le> 100 * q" "4 * q - 124 \<le> 400 * b" "146097 * q \<le> 400 * d"
      using that m r by linarith+
    with that(3) have "400 * (365 * (q - 1) + a - b + c) \<le> 400 * d" by (simp add: algebra_simps)
    then show ?thesis by simp
  qed
  have hi: "d < 365 * (q + 2) + a - b + c"
    if "q \<le> 4 * a" "100 * b \<le> q + 71" "q + 371 - 399 \<le> 400 * c" for a b c :: int
  proof -
    have "100 * q \<le> 400 * a" "400 * b \<le> 4 * q + 284" "400 * d < 146097 * q + 146097"
      using that m r by linarith+
    with that(3) have "400 * d < 400 * (365 * (q + 2) + a - b + c)" by (simp add: algebra_simps)
    then show ?thesis by simp
  qed
  have e: "day_from_year (q + 1969) \<le> d"
  proof -
    have u: "day_from_year (q + 1969) = 365 * (q - 1) + q div 4 - (q + 68) div 100 + (q + 368) div 400"
      by (simp add: day_from_year_def add.commute)
    show ?thesis unfolding u by (rule lo) linarith+
  qed
  have f: "d < day_from_year (q + 1972)"
  proof -
    have u: "day_from_year (q + 1972) = 365 * (q + 2) + (q + 3) div 4 - (q + 71) div 100 + (q + 371) div 400"
      by (simp add: day_from_year_def add.commute)
    show ?thesis unfolding u by (rule hi) linarith+
  qed
  have y: "year_of_day d = (if day_from_year (q + 1971) \<le> d then q + 1971
      else if day_from_year (q + 1970) \<le> d then q + 1970 else q + 1969)"
    by (simp add: year_of_day_def Let_def q_def add.commute)
  show "day_from_year (year_of_day d) \<le> d" "d < day_from_year (year_of_day d + 1)"
    using e f by (auto simp: y add.commute)
qed

lemma month_of_day_bounds:
  assumes "0 \<le> n" "n < (if leap then 366 else 365)"
  shows "0 \<le> month_of_day leap n" "month_of_day leap n \<le> 11"
    "month_start leap (month_of_day leap n) \<le> n" "n < month_start leap (month_of_day leap n) + 31"
proof -
  define s where "s = month_start leap"
  have s: "s 1 < s 2" "s 2 < s 3" "s 3 < s 4" "s 4 < s 5" "s 5 < s 6" "s 6 < s 7" "s 7 < s 8"
    "s 8 < s 9" "s 9 < s 10" "s 10 < s 11" "s 0 = 0" "s 1 \<le> 31" "s 2 \<le> s 1 + 31" "s 3 \<le> s 2 + 31"
    "s 4 \<le> s 3 + 31" "s 5 \<le> s 4 + 31" "s 6 \<le> s 5 + 31" "s 7 \<le> s 6 + 31" "s 8 \<le> s 7 + 31"
    "s 9 \<le> s 8 + 31" "s 10 \<le> s 9 + 31" "s 11 \<le> s 10 + 31" "n < s 11 + 31"
    using assms by (simp_all add: s_def month_start_def Let_def split: if_splits)
  have m: "month_of_day leap n = (if n < s 1 then 0 else if n < s 2 then 1 else if n < s 3 then 2
     else if n < s 4 then 3 else if n < s 5 then 4 else if n < s 6 then 5 else if n < s 7 then 6
     else if n < s 8 then 7 else if n < s 9 then 8 else if n < s 10 then 9 else if n < s 11 then 10 else 11)"
    by (simp add: month_of_day_def s_def)
  show "0 \<le> month_of_day leap n" "month_of_day leap n \<le> 11" by (simp_all add: m)
  show "month_start leap (month_of_day leap n) \<le> n" "n < month_start leap (month_of_day leap n) + 31"
    unfolding s_def [symmetric] m using assms(1) s by (simp_all split: if_splits)
qed

section \<open>Digits\<close>

definition digit_val :: "char \<Rightarrow> int option" where
  "digit_val c = (let n = int (of_char c) in if 48 \<le> n \<and> n \<le> 57 then Some (n - 48) else None)"

definition digit_char :: "int \<Rightarrow> char" where
  "digit_char d = char_of (nat (48 + d mod 10))"

fun pad :: "nat \<Rightarrow> int \<Rightarrow> string" where
  "pad 0 n = []"
| "pad (Suc k) n = pad k (n div 10) @ [digit_char n]"

fun read_digits :: "nat \<Rightarrow> int \<Rightarrow> string \<Rightarrow> (int \<times> string) option" where
  "read_digits 0 acc s = Some (acc, s)"
| "read_digits (Suc k) acc [] = None"
| "read_digits (Suc k) acc (c # s) =
     (case digit_val c of None \<Rightarrow> None | Some d \<Rightarrow> read_digits k (10 * acc + d) s)"

lemma digit_val_char [simp]: "digit_val (digit_char d) = Some (d mod 10)"
proof -
  have "nat (48 + d mod 10) < 256" using pos_mod_bound [of 10 d] by (simp add: nat_less_iff)
  then have "of_char (digit_char d) = nat (48 + d mod 10)"
    by (simp add: digit_char_def of_char_of)
  moreover have "0 \<le> d mod 10" "d mod 10 < 10" by simp_all
  ultimately show ?thesis by (simp add: digit_val_def Let_def)
qed

lemma read_digits_snoc:
  "read_digits k acc s = Some (n, c # s') \<Longrightarrow> read_digits (Suc k) acc s =
     (case digit_val c of None \<Rightarrow> None | Some d \<Rightarrow> Some (10 * n + d, s'))"
  by (induction k acc s rule: read_digits.induct) (auto split: option.splits)

lemma read_digits_pad:
  "0 \<le> n \<Longrightarrow> n < 10 ^ k \<Longrightarrow> read_digits k a (pad k n @ r) = Some (a * 10 ^ k + n, r)"
proof (induction k arbitrary: n r)
  case (Suc k)
  have "read_digits k a (pad k (n div 10) @ digit_char n # r)
      = Some (a * 10 ^ k + n div 10, digit_char n # r)"
    using Suc.prems by (intro Suc.IH) auto
  from read_digits_snoc [OF this] show ?case
    by (simp add: algebra_simps)
qed simp

section \<open>Parsing\<close>

definition read_char :: "char \<Rightarrow> string \<Rightarrow> string option" where
  "read_char c s = (case s of [] \<Rightarrow> None | d # s' \<Rightarrow> if c = d then Some s' else None)"

definition guard :: "bool \<Rightarrow> unit option" where
  "guard b = (if b then Some () else None)"

definition read_year :: "string \<Rightarrow> (int \<times> string) option" where
  "read_year s = (case s of [] \<Rightarrow> None
     | c # s' \<Rightarrow>
        if c = CHR ''+'' then read_digits 6 0 s'
        else if c = CHR ''-'' then do {
          (y, s'') \<leftarrow> read_digits 6 0 s';
          guard (y \<noteq> 0);
          Some (- y, s'') }
        else read_digits 4 0 s)"

definition read_month_day :: "string \<Rightarrow> (int \<times> int \<times> string) option" where
  "read_month_day s = (case read_char CHR ''-'' s of
       None \<Rightarrow> Some (1, 1, s)
     | Some s1 \<Rightarrow> do {
         (m, s2) \<leftarrow> read_digits 2 0 s1;
         guard (1 \<le> m \<and> m \<le> 12);
         (case read_char CHR ''-'' s2 of
             None \<Rightarrow> Some (m, 1, s2)
           | Some s3 \<Rightarrow> do {
               (d, s4) \<leftarrow> read_digits 2 0 s3;
               guard (1 \<le> d \<and> d \<le> 31);
               Some (m, d, s4) }) })"

fun digit_prefix :: "string \<Rightarrow> string \<times> string" where
  "digit_prefix [] = ([], [])"
| "digit_prefix (c # s) = (if digit_val c = None then ([], c # s)
     else (let (ds, r) = digit_prefix s in (c # ds, r)))"

text \<open>Seconds and the fraction are optional.\<close>

definition read_fraction :: "string \<Rightarrow> (int \<times> string) option" where
  "read_fraction s = (case read_char CHR ''.'' s of
       None \<Rightarrow> Some (0, s)
     | Some s1 \<Rightarrow> (let (ds, s2) = digit_prefix s1 in do {
         guard (ds \<noteq> []);
         (ms, _) \<leftarrow> read_digits 3 0 (ds @ ''00'');
         Some (ms, s2) }))"

definition read_seconds :: "string \<Rightarrow> (int \<times> int \<times> string) option" where
  "read_seconds s = (case read_char CHR '':'' s of
       None \<Rightarrow> Some (0, 0, s)
     | Some s1 \<Rightarrow> do {
         (sec, s2) \<leftarrow> read_digits 2 0 s1;
         (ms, s3) \<leftarrow> read_fraction s2;
         Some (sec, ms, s3) })"

definition read_zone :: "string \<Rightarrow> int option" where
  "read_zone s = (if s = ''Z'' then Some 0
     else (case s of [] \<Rightarrow> None
       | c # s1 \<Rightarrow> do {
           guard (c = CHR ''+'' \<or> c = CHR ''-'');
           (h, s2) \<leftarrow> read_digits 2 0 s1;
           s3 \<leftarrow> read_char CHR '':'' s2;
           (m, s4) \<leftarrow> read_digits 2 0 s3;
           guard (s4 = [] \<and> h \<le> 23 \<and> m \<le> 59);
           Some ((if c = CHR ''-'' then - 1 else 1) * (h * 60 + m) * 60000) }))"

definition read_time :: "string \<Rightarrow> int option" where
  "read_time s = (if s = [] then Some 0 else do {
       s1 \<leftarrow> read_char CHR ''T'' s;
       (h, s2) \<leftarrow> read_digits 2 0 s1;
       s3 \<leftarrow> read_char CHR '':'' s2;
       (mi, s4) \<leftarrow> read_digits 2 0 s3;
       (sec, ms, s5) \<leftarrow> read_seconds s4;
       guard (mi \<le> 59 \<and> sec \<le> 59 \<and> (h \<le> 23 \<or> h = 24 \<and> mi = 0 \<and> sec = 0 \<and> ms = 0));
       off \<leftarrow> read_zone s5;
       Some (h * 3600000 + mi * 60000 + sec * 1000 + ms - off) })"

definition max_time :: int where
  "max_time = 8640000000000000"

definition parse_ms :: "string \<Rightarrow> int option" where
  "parse_ms s = do {
     (y, s1) \<leftarrow> read_year s;
     (m, d, s2) \<leftarrow> read_month_day s1;
     t \<leftarrow> read_time s2;
     (let v = make_day y (m - 1) d * 86400000 + t in do {
       guard (\<bar>v\<bar> \<le> max_time);
       Some v }) }"

definition date_parse :: "string \<Rightarrow> jsnum" where
  "date_parse s = (case parse_ms s of None \<Rightarrow> NaN | Some t \<Rightarrow> num t)"

section \<open>Printing\<close>

definition iso_year :: "int \<Rightarrow> string" where
  "iso_year y = (if 0 \<le> y \<and> y \<le> 9999 then pad 4 y
     else if y < 0 then CHR ''-'' # pad 6 (- y) else CHR ''+'' # pad 6 y)"

definition iso_time :: "int \<Rightarrow> string" where
  "iso_time r = ''T'' @ pad 2 (r div 3600000) @ '':'' @ pad 2 (r div 60000 mod 60) @ '':'' @
     pad 2 (r div 1000 mod 60) @ ''.'' @ pad 3 (r mod 1000) @ ''Z''"

definition iso_of_ms :: "int \<Rightarrow> string" where
  "iso_of_ms t = (let d = t div 86400000; y = year_of_day d; n = d - day_from_year y;
     m = month_of_day (leap_year y) n in
     iso_year y @ ''-'' @ pad 2 (m + 1) @ ''-'' @ pad 2 (n - month_start (leap_year y) m + 1) @
     iso_time (t mod 86400000))"

text \<open>\<open>new Date(ms).toISOString()\<close>: the time value is clipped to an integer in range.\<close>

fun to_iso_string :: "jsnum \<Rightarrow> string result" where
  "to_iso_string (Fin x) = (let t = (if 0 \<le> x then \<lfloor>x\<rfloor> else \<lceil>x\<rceil>) in
     if \<bar>x\<bar> \<le> of_int max_time then Inr (iso_of_ms t) else Inl (RangeError ''Invalid time value''))"
| "to_iso_string a = Inl (RangeError ''Invalid time value'')"

section \<open>The round trip\<close>

lemma year_bounds:
  assumes "\<bar>t\<bar> \<le> max_time"
  shows "- 999999 \<le> year_of_day (t div 86400000)" "year_of_day (t div 86400000) \<le> 999999"
proof -
  let ?d = "t div 86400000"
  have d: "- 100000000 \<le> ?d" "?d \<le> 100000000" using assms by (auto simp: max_time_def)
  have "- 274000 \<le> ?d * 400 div 146097" "?d * 400 div 146097 \<le> 274000" using d by linarith+
  then show "- 999999 \<le> year_of_day ?d" "year_of_day ?d \<le> 999999"
    by (auto simp: year_of_day_def Let_def)
qed

lemma digit_char_not:
  "digit_char d \<noteq> CHR ''+''" "digit_char d \<noteq> CHR ''-''"
  using digit_val_char [of d] by (auto simp: digit_val_def)

lemma read_year_iso:
  assumes "- 999999 \<le> y" "y \<le> 999999"
  shows "read_year (iso_year y @ r) = Some (y, r)"
proof -
  consider "0 \<le> y \<and> y \<le> 9999" | "y < 0" | "9999 < y" by linarith
  then show ?thesis
  proof cases
    case 1
    obtain c s where cs: "pad 4 y = c # s" "c = digit_char (y div 10 div 10 div 10)"
      by (simp add: numeral_eq_Suc)
    with 1 digit_char_not [of "y div 10 div 10 div 10"] read_digits_pad [of y 4 0 r] show ?thesis
      by (simp add: read_year_def iso_year_def)
  next
    case 2
    with assms show ?thesis
      by (simp add: read_year_def iso_year_def read_digits_pad guard_def)
  next
    case 3
    with assms show ?thesis
      by (simp add: read_year_def iso_year_def read_digits_pad)
  qed
qed

lemma read_month_day_iso:
  assumes "1 \<le> m" "m \<le> 12" "1 \<le> d" "d \<le> 31"
  shows "read_month_day (''-'' @ pad 2 m @ ''-'' @ pad 2 d @ r) = Some (m, d, r)"
  using assms by (simp add: read_month_day_def read_char_def read_digits_pad guard_def)

lemma digit_prefix_pad:
  "digit_prefix (pad k n @ CHR ''Z'' # r) = (pad k n, CHR ''Z'' # r)"
proof -
  have "digit_val CHR ''Z'' = None" by (simp add: digit_val_def)
  then have "\<forall>c \<in> set s. digit_val c \<noteq> None \<Longrightarrow> digit_prefix (s @ CHR ''Z'' # r) = (s, CHR ''Z'' # r)" for s
    by (induction s) auto
  moreover have "\<forall>c \<in> set (pad k n). digit_val c \<noteq> None"
    by (induction k arbitrary: n) auto
  ultimately show ?thesis by blast
qed

lemma read_fraction_iso:
  "0 \<le> ms \<Longrightarrow> ms < 1000 \<Longrightarrow> read_fraction (''.'' @ pad 3 ms @ ''Z'') = Some (ms, ''Z'')"
  using read_digits_pad [of ms 3 0 "''00''"] digit_prefix_pad [of 3 ms "[]"]
  by (simp add: read_fraction_def read_char_def guard_def numeral_eq_Suc)

lemma read_seconds_iso:
  "0 \<le> sec \<Longrightarrow> sec \<le> 59 \<Longrightarrow> 0 \<le> ms \<Longrightarrow> ms < 1000 \<Longrightarrow>
     read_seconds ('':'' @ pad 2 sec @ ''.'' @ pad 3 ms @ ''Z'') = Some (sec, ms, ''Z'')"
  using read_digits_pad [of sec 2 0 "''.'' @ pad 3 ms @ ''Z''"] read_fraction_iso [of ms]
  by (simp add: read_seconds_def read_char_def del: pad.simps read_digits.simps)

lemma read_time_fields:
  assumes "0 \<le> h" "h \<le> 23" "0 \<le> mi" "mi \<le> 59" "0 \<le> sec" "sec \<le> 59" "0 \<le> ms" "ms < 1000"
  shows "read_time (''T'' @ pad 2 h @ '':'' @ pad 2 mi @ '':'' @ pad 2 sec @ ''.'' @ pad 3 ms @ ''Z'')
     = Some (h * 3600000 + mi * 60000 + sec * 1000 + ms)"
  using assms read_seconds_iso [of sec ms]
    read_digits_pad [of h 2 0 "'':'' @ pad 2 mi @ '':'' @ pad 2 sec @ ''.'' @ pad 3 ms @ ''Z''"]
    read_digits_pad [of mi 2 0 "'':'' @ pad 2 sec @ ''.'' @ pad 3 ms @ ''Z''"]
  by (simp add: read_time_def read_char_def read_zone_def guard_def del: pad.simps read_digits.simps)

lemma read_time_iso:
  assumes "0 \<le> r" "r < 86400000"
  shows "read_time (iso_time r) = Some r"
proof -
  have "r div 3600000 = r div 60000 div 60" "r div 60000 = r div 1000 div 60"
    using zdiv_zmult2_eq [of 60 r 60000] zdiv_zmult2_eq [of 60 r 1000] by simp_all
  then have e: "60 * (r div 3600000) + r div 60000 mod 60 = r div 60000"
    "60 * (r div 60000) + r div 1000 mod 60 = r div 1000" "1000 * (r div 1000) + r mod 1000 = r"
    by (simp_all only: mult_div_mod_eq)
  have sum: "r div 3600000 * 3600000 + r div 60000 mod 60 * 60000 + r div 1000 mod 60 * 1000 + r mod 1000 = r"
    using e by linarith
  have "read_time (iso_time r) = Some (r div 3600000 * 3600000 + r div 60000 mod 60 * 60000 +
      r div 1000 mod 60 * 1000 + r mod 1000)"
    unfolding iso_time_def
  proof (rule read_time_fields)
    show "0 \<le> r div 3600000" "r div 3600000 \<le> 23" using assms by auto
  qed (auto intro: zle_diff1_eq [THEN iffD1])
  then show ?thesis by (simp only: sum)
qed

lemma parse_ms_steps:
  assumes "read_year s = Some (y, s1)" "read_month_day s1 = Some (m, d, s2)" "read_time s2 = Some t"
    and "make_day y (m - 1) d * 86400000 + t = v" "\<bar>v\<bar> \<le> max_time"
  shows "parse_ms s = Some v"
  using assms by (simp add: parse_ms_def guard_def)

theorem parse_ms_iso:
  assumes "\<bar>t\<bar> \<le> max_time"
  shows "parse_ms (iso_of_ms t) = Some t"
proof -
  let ?d = "t div 86400000" and ?r = "t mod 86400000"
  let ?y = "year_of_day ?d"
  let ?l = "leap_year ?y" and ?n = "?d - day_from_year ?y"
  let ?m = "month_of_day ?l ?n"
  have n: "0 \<le> ?n" "?n < (if ?l then 366 else 365)"
    using year_of_day_bounds [of ?d] by (simp_all add: day_from_year_step)
  note m = month_of_day_bounds [OF n]
  show ?thesis
  proof (rule parse_ms_steps)
    show "read_year (iso_of_ms t) = Some (?y, ''-'' @ pad 2 (?m + 1) @ ''-'' @
        pad 2 (?n - month_start ?l ?m + 1) @ iso_time ?r)"
      unfolding iso_of_ms_def Let_def using year_bounds [OF assms] by (rule read_year_iso)
    show "read_month_day (''-'' @ pad 2 (?m + 1) @ ''-'' @ pad 2 (?n - month_start ?l ?m + 1) @ iso_time ?r)
        = Some (?m + 1, ?n - month_start ?l ?m + 1, iso_time ?r)"
      using m by (intro read_month_day_iso) auto
    show "read_time (iso_time ?r) = Some ?r" by (rule read_time_iso) auto
    show "make_day ?y (?m + 1 - 1) (?n - month_start ?l ?m + 1) * 86400000 + ?r = t"
      by (simp add: make_day_def)
  qed (rule assms)
qed

corollary date_parse_iso: "\<bar>t\<bar> \<le> max_time \<Longrightarrow> date_parse (iso_of_ms t) = num t"
  by (simp add: date_parse_def parse_ms_iso)

lemma parse_ms_bound: "parse_ms s = Some t \<Longrightarrow> \<bar>t\<bar> \<le> max_time"
  by (auto simp: parse_ms_def Let_def guard_def bind_eq_Some_conv split: if_splits)

lemma date_parse_cases:
  obtains "date_parse s = NaN" | t where "date_parse s = num t" "\<bar>t\<bar> \<le> max_time"
  using parse_ms_bound [of s] by (cases "parse_ms s") (auto simp: date_parse_def)

lemma date_parse_finite:
  assumes "is_finite (date_parse s)"
  obtains t where "date_parse s = num t" "\<bar>t\<bar> \<le> max_time"
  using assms by (cases rule: date_parse_cases [of s]) auto

lemma to_iso_string_num: "\<bar>t\<bar> \<le> max_time \<Longrightarrow> to_iso_string (num t) = Inr (iso_of_ms t)"
  by (simp add: Let_def flip: of_int_abs)

lemma to_iso_string_parse:
  assumes "to_iso_string (num t) = Inr s"
  shows "date_parse s = num t"
proof -
  have "\<bar>t\<bar> \<le> max_time" using assms by (auto simp: Let_def split: if_splits simp flip: of_int_abs)
  moreover from this have "s = iso_of_ms t" using assms to_iso_string_num [of t] by simp
  ultimately show ?thesis by (simp add: date_parse_iso)
qed

lemma example_parse: "date_parse ''2026-09-04T14:30:00.000Z'' = num 1788532200000"
  by code_simp

lemma example_print: "to_iso_string (num 1788532200000) = Inr ''2026-09-04T14:30:00.000Z''"
  by code_simp

end
