(* ===== verification/JsArray.thy ===== *)
theory JsArray
  imports JsDate "HOL-Library.Multiset" "HOL-Library.Char_ord" "HOL-Library.List_Lexorder"
    "HOL-Library.Product_Lexorder"
begin

text \<open>
  \<open>Array.prototype.sort\<close> with a comparator, \<open>reduce\<close> over numbers, and the interface of a
  comparator that orders by a key.

  \<open>js_sort\<close> is a stable sort, as the language requires. For a consistent comparator the
  language fixes the result, and every stable sort gives the same one; for an inconsistent
  comparator the order of the result is implementation-defined, and the lemmas here say
  nothing of it beyond that it is a permutation.
\<close>

section \<open>Sorting with a comparator\<close>

text \<open>\<open>a || b\<close> on numbers: the right operand when the left is \<open>0\<close> or NaN.\<close>

definition num_or :: "jsnum \<Rightarrow> jsnum \<Rightarrow> jsnum" where
  "num_or a b = (if a = NaN \<or> a = Fin 0 then b else a)"

fun insert_by :: "('a \<Rightarrow> 'a \<Rightarrow> jsnum) \<Rightarrow> 'a \<Rightarrow> 'a list \<Rightarrow> 'a list" where
  "insert_by cmp x [] = [x]"
| "insert_by cmp x (y # ys) = (if Fin 0 < cmp x y then y # insert_by cmp x ys else x # y # ys)"

definition js_sort :: "('a \<Rightarrow> 'a \<Rightarrow> jsnum) \<Rightarrow> 'a list \<Rightarrow> 'a list" where
  "js_sort cmp xs = foldr (insert_by cmp) xs []"

lemma mset_insert_by [simp]: "mset (insert_by cmp x ys) = add_mset x (mset ys)"
  by (induction ys) auto

lemma mset_js_sort [simp]: "mset (js_sort cmp xs) = mset xs"
  unfolding js_sort_def by (induction xs) auto

lemma set_js_sort [simp]: "set (js_sort cmp xs) = set xs"
  by (metis mset_js_sort set_mset_mset)

lemma length_js_sort [simp]: "length (js_sort cmp xs) = length xs"
  by (metis mset_js_sort size_mset)

lemma distinct_js_sort [simp]: "distinct (js_sort cmp xs) = distinct xs"
  by (metis mset_eq_imp_distinct_iff mset_js_sort)

lemma js_sort_Nil [simp]: "js_sort cmp [] = []"
  by (simp add: js_sort_def)

section \<open>Comparators that order by a key\<close>

text \<open>
  The comparators of the program order their elements by a tuple of times, numbers and
  identifiers. On the elements for which the key is defined (\<open>ok\<close>: the dates parse, the
  numbers are not NaN) such a comparator is positive exactly when the key is greater, and
  sorting with it is sorting by the key: the result is ordered, stable, and does not
  depend on the order of arrival when the keys differ.
\<close>

locale keyed_comparator =
  fixes cmp :: "'a \<Rightarrow> 'a \<Rightarrow> jsnum"
    and key :: "'a \<Rightarrow> 'k::linorder"
    and ok :: "'a \<Rightarrow> bool"
  assumes cmp_key: "ok x \<Longrightarrow> ok y \<Longrightarrow> Fin 0 < cmp x y \<longleftrightarrow> key y < key x"
begin

lemma insert_by_key:
  "ok x \<Longrightarrow> \<forall>y \<in> set ys. ok y \<Longrightarrow> insert_by cmp x ys = insort_key key x ys"
  by (induction ys) (auto simp: cmp_key not_less)

lemma js_sort_key: "\<forall>x \<in> set xs. ok x \<Longrightarrow> js_sort cmp xs = sort_key key xs"
  unfolding js_sort_def sort_key_def
  by (induction xs) (auto simp: insert_by_key set_insort_key [unfolded sort_key_def] sort_key_def [symmetric])

lemma js_sort_sorted: "\<forall>x \<in> set xs. ok x \<Longrightarrow> sorted (map key (js_sort cmp xs))"
  by (simp add: js_sort_key)

lemma js_sort_permutation:
  assumes "\<forall>x \<in> set xs. ok x" "mset xs = mset ys" "inj_on key (set xs)"
  shows "js_sort cmp xs = js_sort cmp ys"
proof -
  have "set xs = set ys" using assms(2) by (metis set_mset_mset)
  then have ok: "\<forall>x \<in> set ys. ok x" using assms(1) by simp
  have f: "filter (\<lambda>x. key k = key x) zs = replicate (count (mset zs) k) k"
    if "k \<in> set zs" "set zs = set xs" for k zs
  proof -
    have "filter (\<lambda>x. key k = key x) zs = filter ((=) k) zs"
      using that assms(3) by (intro filter_cong) (auto dest: inj_onD)
    then show ?thesis by (simp only: replicate_count_mset_eq_filter_eq)
  qed
  have "sort_key key xs = sort_key key ys"
  proof (rule properties_for_sort_key)
    fix k assume "k \<in> set (sort_key key ys)"
    then have k: "k \<in> set xs" using \<open>set xs = set ys\<close> by simp
    show "filter (\<lambda>x. key k = key x) (sort_key key ys) = filter (\<lambda>x. key k = key x) xs"
      using f [of k xs] f [of k "sort_key key ys"] k \<open>set xs = set ys\<close> assms(2) by simp
  qed (simp_all add: assms(2))
  then show ?thesis by (simp add: js_sort_key assms(1) ok)
qed

lemma js_sort_id: "\<forall>x \<in> set xs. ok x \<Longrightarrow> sorted (map key xs) \<Longrightarrow> js_sort cmp xs = xs"
  by (simp add: js_sort_key sort_key_id_if_sorted)

end

section \<open>String comparison\<close>

text \<open>\<open>left < right ? -1 : left > right ? 1 : 0\<close>, the order of code units.\<close>

definition string_cmp :: "string \<Rightarrow> string \<Rightarrow> jsnum" where
  "string_cmp a b = (if a < b then Fin (- 1) else if b < a then Fin 1 else Fin 0)"

lemma string_cmp_pos [simp]: "Fin 0 < string_cmp a b \<longleftrightarrow> b < a"
  by (auto simp: string_cmp_def)

lemma string_cmp_zero [simp]: "string_cmp a b = Fin 0 \<longleftrightarrow> a = b"
  by (auto simp: string_cmp_def)

lemma string_cmp_not_NaN [simp]: "string_cmp a b \<noteq> NaN"
  by (auto simp: string_cmp_def)

end
