(* ===== verification/PaperTypes.thy ===== *)
theory PaperTypes
  imports JsArray
begin

text \<open>
  The data of the paper execution core (\<open>paper-bot/types.ts\<close>): string unions are
  datatypes, interfaces are records. A field keeps its source name behind a prefix for its
  record (\<open>q_\<close> quote, \<open>a_\<close> assumptions, \<open>s_\<close> signal, \<open>x_\<close> sizing context, \<open>p_\<close> position,
  \<open>m_\<close> market snapshot, \<open>e_\<close> economics, \<open>xo_\<close> exit, ...), because several interfaces share
  field names. Numbers are \<open>jsnum\<close>, timestamps are strings, optional and nullable fields are
  options.
\<close>

section \<open>Unions\<close>

datatype currency = CAD | USD

datatype market_id = CA_TSX | US_EQUITIES

datatype execution_mode = UNCONSTRAINED | CAPACITY_CONSTRAINED

datatype stop_method = STRUCTURAL | ATR

datatype no_fill_reason = NF_HALTED | NF_DELAYED | NF_STALE | NF_MISSING_QUOTE
  | NF_MISSING_REFERENCE | NF_UNKNOWN_QUOTE_SIZE | NF_SHARES_BELOW_ONE
  | NF_EXECUTABLE_PRICE_OUTSIDE_LEVELS | NF_NET_TARGET_NON_POSITIVE

datatype exit_reason = TARGET | STOP | TIME_STOP | SESSION_CLOSE | SESSION_CLOSE_DELAYED

datatype economics_rejection_reason = NET_TARGET_NON_POSITIVE | SPREAD_COST_TOO_HIGH
  | STOP_DISTANCE_TOO_SMALL | TARGET_DISTANCE_TOO_SMALL | NET_REWARD_RISK_TOO_LOW

datatype sizing_cap = RISK_BUDGET | POSITION_NOTIONAL | MAX_NOTIONAL
  | DISPLAYED_SIZE_PARTICIPATION | SYMBOL_EXPOSURE | SECTOR_EXPOSURE | PORTFOLIO_RISK

datatype quote_data_status = REALTIME | DELAYED | HALTED

datatype size_unit = SHARES | BOARD_LOTS | UNKNOWN

datatype context_status = UNAVAILABLE | WEAK | NEUTRAL | STRONG | STALE

section \<open>Costs, gates and economics\<close>

record cost_snapshot =
  c_entryCommission :: jsnum
  c_exitCommission :: jsnum
  c_estimatedRegulatoryFees :: jsnum
  c_slippageBps :: jsnum
  c_currency :: currency
  c_brokerPricingVersion :: string

record economics_gates =
  g_minNetRewardRisk :: jsnum
  g_minStopFrictionMultiple :: jsnum
  g_minTargetFrictionMultiple :: jsnum
  g_maxSpreadPct :: jsnum

record distance_measures =
  d_dollars :: jsnum
  d_percent :: jsnum
  d_ticks :: jsnum
  d_spreadMultiples :: "jsnum option"
  d_frictionMultiples :: jsnum

record execution_economics =
  e_policyVersion :: string
  e_executableEntryPrice :: jsnum
  e_shares :: jsnum
  e_stop :: jsnum
  e_target :: jsnum
  e_expectedTargetExitPrice :: jsnum
  e_expectedTargetExitValue :: jsnum
  e_conservativeStopExitPrice :: jsnum
  e_conservativeStopExitValue :: jsnum
  e_expectedTargetNetPnl :: jsnum
  e_expectedStopNetPnl :: jsnum
  e_netRewardRisk :: "jsnum option"
  e_stopDistance :: distance_measures
  e_targetDistance :: distance_measures
  e_spread :: "jsnum option"
  e_spreadPct :: "jsnum option"
  e_frictionPerShare :: jsnum
  e_fixedCosts :: jsnum
  e_costs :: cost_snapshot
  e_gates :: economics_gates
  e_rejections :: "economics_rejection_reason list"

section \<open>Assumptions, signals and sizing\<close>

record assumptions =
  a_positionSize :: jsnum
  a_slippageBps :: jsnum
  a_feePerTrade :: jsnum
  a_costs :: "cost_snapshot option"
  a_riskBudget :: "jsnum option"
  a_maxNotional :: "jsnum option"
  a_economics :: "economics_gates option"
  a_stopMethod :: stop_method
  a_atrStopMultiple :: jsnum
  a_rewardRiskRatio :: "jsnum option"
  a_maxQuoteAgeSeconds :: jsnum
  a_sessionTimezone :: string
  a_noonCloseTime :: string
  a_executionMode :: "execution_mode option"
  a_latencyMs :: "jsnum option"
  a_evidenceScope :: "string option"

record signal_fact =
  s_entryReference :: "jsnum option"
  s_stopReference :: "jsnum option"
  s_targetReference :: "jsnum option"
  s_atr14 :: "jsnum option"
  s_signalTimestamp :: string

record derived_levels =
  l_stop :: jsnum
  l_target :: jsnum

type_synonym level_derivation_result = "no_fill_reason + derived_levels"

record context_reading =
  cr_signalKey :: string
  cr_status :: context_status
  cr_timestamp :: string

record sizing_context =
  x_displayedSize :: "jsnum option"
  x_openSymbolNotional :: "jsnum option"
  x_openSectorNotional :: "jsnum option"
  x_openPortfolioRisk :: "jsnum option"
  x_maxDisplayedSizeParticipation :: "jsnum option"
  x_maxSymbolNotional :: "jsnum option"
  x_maxSectorNotional :: "jsnum option"
  x_maxPortfolioRisk :: "jsnum option"
  x_executionMode :: "execution_mode option"
  x_latencyMs :: "jsnum option"
  x_strategyKey :: "string option"
  x_maximumHoldingMinutes :: "jsnum option"
  x_stalledBreakoutMinutes :: "jsnum option"
  x_stalledBreakoutMinProgressR :: "jsnum option"
  x_contexts :: "context_reading list option"
  x_contextStatus :: "context_status option"
  x_contextTimestamp :: "string option"

definition empty_context :: sizing_context where
  "empty_context = \<lparr>x_displayedSize = None, x_openSymbolNotional = None,
     x_openSectorNotional = None, x_openPortfolioRisk = None,
     x_maxDisplayedSizeParticipation = None, x_maxSymbolNotional = None,
     x_maxSectorNotional = None, x_maxPortfolioRisk = None, x_executionMode = None,
     x_latencyMs = None, x_strategyKey = None, x_maximumHoldingMinutes = None,
     x_stalledBreakoutMinutes = None, x_stalledBreakoutMinProgressR = None,
     x_contexts = None, x_contextStatus = None, x_contextTimestamp = None\<rparr>"

record sizing_breakdown =
  b_requestedRisk :: jsnum
  b_estimatedRisk :: jsnum
  b_costInclusiveLossPerShare :: jsnum
  b_uncappedShares :: jsnum
  b_shares :: jsnum
  b_unfilledShares :: "jsnum option"
  b_appliedCaps :: "sizing_cap list"

record sized_entry =
  z_executableEntryPrice :: jsnum
  z_shares :: jsnum
  z_initialRisk :: jsnum
  z_sizing :: sizing_breakdown

type_synonym entry_sizing_result = "no_fill_reason + sized_entry"

record closing_financials =
  f_exitPrice :: jsnum
  f_grossPnl :: jsnum
  f_netPnl :: jsnum
  f_rMultiple :: jsnum

section \<open>Quotes, positions and outcomes\<close>

record quote_fact =
  q_timestamp :: string
  q_bid :: jsnum
  q_ask :: jsnum
  q_bidSize :: jsnum
  q_askSize :: jsnum
  q_sizeUnit :: "size_unit option"
  q_sizeMultiplier :: "jsnum option"
  q_dataStatus :: quote_data_status
  q_actionable :: bool

record market_snapshot =
  m_bid :: jsnum
  m_ask :: jsnum
  m_bidSize :: jsnum
  m_askSize :: jsnum
  m_spread :: jsnum
  m_quoteTimestamp :: string
  m_dataStatus :: quote_data_status
  m_stalenessSeconds :: jsnum
  m_signalTimestamp :: "string option"
  m_decisionTimestamp :: "string option"
  m_fillTimestamp :: "string option"
  m_latencyMs :: "jsnum option"
  m_executionMode :: "execution_mode option"

record exit_outcome =
  xo_filledShares :: "jsnum option"
  xo_exitReason :: exit_reason
  xo_exitTime :: string
  xo_exitSizeCoverage :: jsnum
  xo_exitMarketSnapshot :: market_snapshot
  xo_financials :: closing_financials
  xo_sessionCloseDelayMs :: "jsnum option"
  xo_unfilledShares :: "jsnum option"

record open_position =
  p_remainingShares :: "jsnum option"
  p_exitFills :: "exit_outcome list option"
  p_pendingExitReason :: "exit_reason option"
  p_entryPrice :: jsnum
  p_entryTime :: string
  p_stop :: jsnum
  p_target :: jsnum
  p_shares :: jsnum
  p_initialRisk :: jsnum
  p_quoteTime :: "string option"
  p_signalTime :: "string option"
  p_decisionTime :: "string option"
  p_fillTime :: "string option"
  p_latencyMs :: "jsnum option"
  p_executionMode :: "execution_mode option"

record entry_outcome =
  o_economics :: execution_economics
  o_sizing :: sizing_breakdown
  o_entryTime :: string
  o_stop :: jsnum
  o_target :: jsnum
  o_shares :: jsnum
  o_initialRisk :: jsnum
  o_executableEntryPrice :: jsnum
  o_entrySizeCoverage :: jsnum
  o_entryMarketSnapshot :: market_snapshot
  o_quoteTime :: "string option"
  o_signalTime :: "string option"
  o_decisionTime :: "string option"
  o_fillTime :: "string option"
  o_latencyMs :: "jsnum option"
  o_executionMode :: "execution_mode option"

datatype quote_entry_result =
    EntryOpen entry_outcome
  | EntryNoFill no_fill_reason "market_snapshot option"
  | EntryRejected economics_rejection_reason execution_economics "market_snapshot option"

text \<open>\<open>QuoteExitResult\<close>: \<open>None\<close> is \<open>{ triggered: false }\<close>.\<close>

type_synonym quote_exit_result = "exit_outcome option"

datatype session_close_result = ClosePending | SessionClosed exit_outcome

record candle_fact =
  k_start :: string
  k_end :: string
  k_open :: jsnum
  k_high :: jsnum
  k_low :: jsnum
  k_close :: jsnum

record candle_entry_outcome =
  co_economics :: execution_economics
  co_sizing :: sizing_breakdown
  co_entryTime :: string
  co_stop :: jsnum
  co_target :: jsnum
  co_shares :: jsnum
  co_initialRisk :: jsnum
  co_syntheticEntryPrice :: jsnum

datatype candle_entry_result =
    CandleOpen candle_entry_outcome
  | CandleNoFill no_fill_reason
  | CandleRejected economics_rejection_reason execution_economics

record candle_exit_outcome =
  kx_exitReason :: exit_reason
  kx_exitTime :: string
  kx_financials :: closing_financials

type_synonym candle_exit_result = "candle_exit_outcome option"

datatype candle_session_close_result = CandleClosePending | CandleSessionClosed candle_exit_outcome

end
