(* ===== verification/JsRounding.thy ===== *)
theory JsRounding
  imports PaperTypes
begin

text \<open>
  What rounding does to the amounts of the program. Amounts live on a decimal grid: \<open>u / s\<close>
  for an integer number of units \<open>u\<close> and a scale \<open>s\<close> (10000 for money, 1000000 for prices
  and R-multiples), each rounded to binary64. \<open>near s x u d\<close> says that the binary value \<open>x\<close>
  lies within \<open>d\<close> units of \<open>u\<close>; sums of a few grid values stay near the sum of their units,
  and \<open>Math.round(x * s)\<close> recovers the units exactly. The bound is \<open>2^40\<close> units on every
  amount, about 110 million dollars of money at four decimals.
\<close>

section \<open>Monotonicity of the operators\<close>

lemma js_add_mono: "a \<le> b \<Longrightarrow> a + Fin c \<le> b + Fin c"
  by (cases a; cases b) (auto simp: js_mono, auto simp: js_def Let_def)

lemma js_mult_mono: "a \<le> b \<Longrightarrow> 0 < c \<Longrightarrow> a * Fin c \<le> b * Fin c"
  by (cases a; cases b) (auto simp: js_mono, auto simp: js_def Let_def)

lemma js_div_mono: "a \<le> b \<Longrightarrow> 0 < c \<Longrightarrow> a / Fin c \<le> b / Fin c"
  by (cases a; cases b) (auto simp: js_mono divide_right_mono, auto simp: js_def Let_def)

lemma math_round_mono: "a \<le> b \<Longrightarrow> math_round a \<le> math_round b"
  by (cases a; cases b) (auto intro: floor_mono)

lemma math_floor_mono: "a \<le> b \<Longrightarrow> math_floor a \<le> math_floor b"
  by (cases a; cases b) (auto intro: floor_mono)

section \<open>Values near a number of units\<close>

definition near :: "int \<Rightarrow> rat \<Rightarrow> int \<Rightarrow> rat \<Rightarrow> bool" where
  "near s x u d \<longleftrightarrow> \<bar>of_int s * x - of_int u\<bar> \<le> d"

lemma near_weaken: "near s x u d \<Longrightarrow> d \<le> d' \<Longrightarrow> near s x u d'"
  by (simp add: near_def)

lemma tiny: "(1::rat) / 2 ^ 1075 \<le> 1 / 2 ^ 60"
  by (intro divide_left_mono power_increasing) auto

lemma fl_scaled:
  assumes "0 \<le> s" "s \<le> 2 ^ 20" "\<bar>of_int s * x\<bar> \<le> 2 ^ 40 + 1"
  shows "\<bar>of_int s * fl x - of_int s * x\<bar> \<le> 1 / 4096"
proof -
  have s: "(0::rat) \<le> of_int s" "of_int s \<le> (2::rat) ^ 20"
    using assms(1,2) by (simp, metis of_int_le_iff of_int_numeral of_int_power)
  have "\<bar>of_int s * fl x - of_int s * x\<bar> = of_int s * \<bar>fl x - x\<bar>"
    using s(1) by (simp flip: right_diff_distrib add: abs_mult)
  also have "\<dots> \<le> of_int s * (\<bar>x\<bar> / 2 ^ 53 + 1 / 2 ^ 60)"
    using fl_error [of x] tiny s(1) by (intro mult_left_mono) auto
  also have "\<dots> = \<bar>of_int s * x\<bar> / 2 ^ 53 + of_int s / 2 ^ 60"
    using s(1) by (simp add: abs_mult distrib_left)
  also have "\<dots> \<le> (2 ^ 40 + 1) / 2 ^ 53 + 2 ^ 20 / 2 ^ 60"
    using assms(3) s(2) by (intro add_mono divide_right_mono) auto
  also have "\<dots> \<le> 1 / 4096" by simp
  finally show ?thesis .
qed

lemma of_int_bound: "\<bar>u\<bar> \<le> 2 ^ 40 \<Longrightarrow> \<bar>rat_of_int u\<bar> \<le> 2 ^ 40"
  by (metis of_int_abs of_int_le_iff of_int_numeral of_int_power)

lemma near_fl:
  assumes "0 \<le> s" "s \<le> 2 ^ 20" "near s x u d" "d \<le> 1" "\<bar>u\<bar> \<le> 2 ^ 40"
  shows "near s (fl x) u (d + 1 / 4096)"
proof -
  have "\<bar>of_int s * x\<bar> \<le> 2 ^ 40 + 1"
    using assms(3,4) of_int_bound [OF assms(5)] by (auto simp: near_def)
  with assms(1,2) have "\<bar>of_int s * fl x - of_int s * x\<bar> \<le> 1 / 4096" by (rule fl_scaled)
  then show ?thesis using assms(3) unfolding near_def by linarith
qed

lemma near_unit: "0 < s \<Longrightarrow> near s (of_int u / of_int s) u 0"
  by (simp add: near_def)

lemma near_add: "near s x u d \<Longrightarrow> near s y v e \<Longrightarrow> near s (x + y) (u + v) (d + e)"
  unfolding near_def by (simp add: distrib_left)

lemma near_uminus: "near s x u d \<Longrightarrow> near s (- x) (- u) d"
  unfolding near_def by simp

lemma near_fl_bound:
  assumes "0 < s" "near s x u d" "d \<le> 1" "\<bar>u\<bar> \<le> 2 ^ 40"
  shows "\<bar>x\<bar> \<le> 2 ^ 41"
proof -
  have s: "(1::rat) \<le> of_int s" using assms(1) by simp
  have "\<bar>of_int s * x\<bar> \<le> 2 ^ 40 + 1"
    using assms(2,3) of_int_bound [OF assms(4)] by (auto simp: near_def)
  then have "of_int s * \<bar>x\<bar> \<le> 2 ^ 41" using s by (simp add: abs_mult)
  moreover have "\<bar>x\<bar> \<le> of_int s * \<bar>x\<bar>" using mult_right_mono [OF s, of "\<bar>x\<bar>"] by simp
  ultimately show ?thesis by linarith
qed

lemma js_small: "\<bar>x\<bar> \<le> 2 ^ 900 \<Longrightarrow> js x = Fin (fl x)"
proof -
  assume x: "\<bar>x\<bar> \<le> 2 ^ 900"
  have "\<bar>fl x\<bar> \<le> \<bar>x\<bar> + (\<bar>x\<bar> / 2 ^ 53 + 1 / 2 ^ 60)"
    using fl_error [of x] tiny by linarith
  also have "\<dots> \<le> 2 * \<bar>x\<bar> + 1" by simp
  also have "\<dots> \<le> 2 ^ 901 + 1" using x by (simp add: power_Suc [of 2 900, symmetric] del: power_Suc)
  also have "\<dots> < 2 ^ 902" by simp
  also have "\<dots> < (2::rat) ^ 1024" by (rule power_strict_increasing) auto
  finally show ?thesis by (rule js_Fin)
qed

section \<open>Recovering the units\<close>

lemma floor_near: "\<bar>x - of_int u\<bar> < 1/2 \<Longrightarrow> \<lfloor>x + 1/2\<rfloor> = u" for x :: rat
  unfolding floor_eq_iff abs_less_iff by linarith

lemma near_round:
  assumes "0 < s" "s \<le> 2 ^ 20" "near s x u d" "d \<le> 1/4" "\<bar>u\<bar> \<le> 2 ^ 40"
  shows "math_round (Fin x * num s) = num u"
proof -
  have "\<bar>x * of_int s - of_int u\<bar> \<le> d" using assms(3) by (simp add: near_def mult.commute)
  then have n: "near 1 (x * of_int s) u d" by (simp add: near_def)
  then have "near 1 (fl (x * of_int s)) u (d + 1 / 4096)"
    using assms by (intro near_fl) auto
  then have "\<bar>fl (x * of_int s) - of_int u\<bar> \<le> d + 1 / 4096" by (simp add: near_def)
  then have "\<lfloor>fl (x * of_int s) + 1/2\<rfloor> = u"
    using assms(4) by (intro floor_near) linarith
  moreover have "\<bar>x * of_int s\<bar> \<le> 2 ^ 41"
    using near_fl_bound [OF _ n] assms by simp
  then have "\<bar>x * of_int s\<bar> \<le> 2 ^ 900"
    by (rule order_trans) (rule power_increasing, auto)
  ultimately show ?thesis by (simp add: js_small)
qed

definition grid :: "int \<Rightarrow> int \<Rightarrow> rat" where
  "grid s u = fl (of_int u / of_int s)"

lemma near_grid:
  assumes "0 < s" "s \<le> 2 ^ 20" "\<bar>u\<bar> \<le> 2 ^ 40"
  shows "near s (grid s u) u (1 / 4096)"
  using near_fl [OF _ assms(2) near_unit [OF assms(1)] _ assms(3)] assms(1) by (simp add: grid_def)

lemma num_divide_grid:
  assumes "0 < s" "\<bar>u\<bar> \<le> 2 ^ 53"
  shows "num u / num s = Fin (grid s u)"
proof -
  have s: "(1::rat) \<le> of_int s" using assms(1) by simp
  have "\<bar>rat_of_int u / of_int s\<bar> \<le> \<bar>rat_of_int u\<bar>"
    using s by (simp add: divide_le_eq mult_le_cancel_left1)
  also have "\<dots> \<le> 2 ^ 53"
    using assms(2) by (metis of_int_abs of_int_le_iff of_int_numeral of_int_power)
  also have "\<dots> \<le> 2 ^ 900" by (rule power_increasing) auto
  finally show ?thesis using s by (simp add: js_small grid_def)
qed

lemma grid_0 [simp]: "grid s 0 = 0"
  by (simp add: grid_def)

lemma grid_uminus: "grid s (- u) = - grid s u"
  by (simp add: grid_def fl_uminus)

lemma grid_mono: "0 < s \<Longrightarrow> u \<le> v \<Longrightarrow> grid s u \<le> grid s v"
  unfolding grid_def by (intro fl_mono divide_right_mono) auto

lemma grid_inj:
  assumes "0 < s" "s \<le> 2 ^ 20" "\<bar>u\<bar> \<le> 2 ^ 40" "\<bar>v\<bar> \<le> 2 ^ 40" "grid s u = grid s v"
  shows "u = v"
proof -
  have "\<bar>rat_of_int u - of_int v\<bar> \<le> 1 / 4096 + 1 / 4096"
    using near_grid [OF assms(1,2,3)] near_grid [OF assms(1,2,4)]
    unfolding near_def assms(5) by linarith
  then have "\<bar>rat_of_int (u - v)\<bar> < 1" by simp
  then show ?thesis by linarith
qed

lemma grid_le_iff:
  assumes "0 < s" "s \<le> 2 ^ 20" "\<bar>u\<bar> \<le> 2 ^ 40" "\<bar>v\<bar> \<le> 2 ^ 40"
  shows "grid s u \<le> grid s v \<longleftrightarrow> u \<le> v"
  using grid_mono [OF assms(1)] grid_inj [OF assms] by (metis antisym linear)

lemma grid_repr [simp]: "fl (grid s u) = grid s u"
  by (simp add: grid_def)

section \<open>Whole numbers\<close>

fun int_of :: "jsnum \<Rightarrow> int" where
  "int_of (Fin x) = \<lfloor>x\<rfloor>"
| "int_of a = 0"

definition whole :: "jsnum \<Rightarrow> bool" where
  "whole a \<longleftrightarrow> a = num (int_of a) \<and> 0 \<le> int_of a \<and> int_of a \<le> 2 ^ 53"

lemma whole_num [simp]: "whole (num n) \<longleftrightarrow> 0 \<le> n \<and> n \<le> 2 ^ 53"
  by (simp add: whole_def)

lemma wholeE:
  assumes "whole a"
  obtains n where "a = num n" "0 \<le> n" "n \<le> 2 ^ 53"
  using assms by (auto simp: whole_def)

section \<open>Sums of amounts\<close>

lemma js_sum_near:
  assumes "near 10000 x u d" "d + of_nat (length us) / 2048 \<le> 1/8"
    "\<bar>u\<bar> + sum_list (map abs us) \<le> 2 ^ 40"
  shows "\<exists>y. foldl (+) (Fin x) (map (\<lambda>v. Fin (grid 10000 v)) us) = Fin y \<and>
    near 10000 y (u + sum_list us) (d + of_nat (length us) / 2048)"
  using assms
proof (induction us arbitrary: x u d)
  case (Cons v us)
  have nn: "0 \<le> sum_list (map abs us)" by (intro sum_list_nonneg) auto
  have l: "d + 1 / 2048 + of_nat (length us) / 2048 = d + of_nat (length (v # us)) / 2048"
    by (simp add: add_divide_distrib)
  have pos: "(0::rat) \<le> of_nat (length us) / 2048" by simp
  have d: "d + 1 / 2048 \<le> 1/8" using Cons.prems(2) l pos by linarith
  have b: "\<bar>v\<bar> \<le> 2 ^ 40" "\<bar>u + v\<bar> \<le> 2 ^ 40"
    using Cons.prems(3) nn abs_triangle_ineq [of u v] abs_ge_zero [of u] by auto
  have n: "near 10000 (x + grid 10000 v) (u + v) (d + 1 / 4096)"
    using near_add [OF Cons.prems(1) near_grid [OF _ _ b(1)]] by simp
  then have n': "near 10000 (fl (x + grid 10000 v)) (u + v) (d + 1 / 2048)"
    using near_fl [OF _ _ n _ b(2)] d by (simp add: add.assoc)
  have "\<bar>x + grid 10000 v\<bar> \<le> 2 ^ 41" using d b by (intro near_fl_bound [OF _ n]) auto
  then have "\<bar>x + grid 10000 v\<bar> \<le> 2 ^ 900" by (rule order_trans) (rule power_increasing, auto)
  then have f: "Fin x + Fin (grid 10000 v) = Fin (fl (x + grid 10000 v))" by (simp add: js_small)
  have "\<bar>u + v\<bar> + sum_list (map abs us) \<le> 2 ^ 40"
    using Cons.prems(3) abs_triangle_ineq [of u v] by simp
  from Cons.IH [OF n' _ this] obtain y where
    y: "foldl (+) (Fin (fl (x + grid 10000 v))) (map (\<lambda>v. Fin (grid 10000 v)) us) = Fin y"
      "near 10000 y (u + v + sum_list us) (d + 1 / 2048 + of_nat (length us) / 2048)"
    using Cons.prems(2) l by auto
  from y(2) have "near 10000 y (u + sum_list (v # us)) (d + of_nat (length (v # us)) / 2048)"
    unfolding l [symmetric] by (simp only: sum_list.Cons add.assoc)
  with y(1) f show ?case by (auto simp del: plus_jsnum.simps)
qed simp

section \<open>Decimal rounding\<close>

text \<open>
  The contract of a decimal rounding function of the program: it adds \<open>Number.EPSILON\<close>,
  rounds to the nearest unit of its scale and divides back. Three functions of
  \<open>financials.ts\<close> have this shape.
\<close>

definition number_epsilon :: jsnum where
  "number_epsilon = Fin (1 / 2 ^ 52)"

locale decimal_rounding =
  fixes rnd :: "jsnum \<Rightarrow> jsnum" and scale :: int
  assumes scale: "0 < scale" "scale \<le> 2 ^ 20"
    and rnd_eq: "rnd v = math_round ((v + number_epsilon) * num scale) / num scale"
begin

lemma rnd_mono: "a \<le> b \<Longrightarrow> rnd a \<le> rnd b"
  using scale unfolding rnd_eq number_epsilon_def
  by (intro js_div_mono math_round_mono js_mult_mono js_add_mono) auto

lemma rnd_near:
  assumes "near scale x u d" "d \<le> 1/8" "\<bar>u\<bar> \<le> 2 ^ 40"
  shows "rnd (Fin x) = Fin (grid scale u)"
proof -
  have e: "near scale (1 / 2 ^ 52) 0 (1 / 4096)"
  proof -
    have "rat_of_int scale \<le> 2 ^ 20"
      using scale(2) by (metis of_int_le_iff of_int_numeral of_int_power)
    then show ?thesis using scale(1) by (simp add: near_def)
  qed
  have "near scale (x + 1 / 2 ^ 52) u (d + 1 / 4096)"
    using near_add [OF assms(1) e] by simp
  then have n: "near scale (fl (x + 1 / 2 ^ 52)) u (d + 1 / 4096 + 1 / 4096)"
    using scale assms by (intro near_fl) auto
  have "\<bar>x + 1 / 2 ^ 52\<bar> \<le> 2 ^ 41"
    using near_fl_bound [OF scale(1) near_add [OF assms(1) e]] assms by simp
  then have "\<bar>x + 1 / 2 ^ 52\<bar> \<le> 2 ^ 900"
    by (rule order_trans) (rule power_increasing, auto)
  then have "Fin x + number_epsilon = Fin (fl (x + 1 / 2 ^ 52))"
    by (simp add: js_small number_epsilon_def)
  moreover have "math_round (Fin (fl (x + 1 / 2 ^ 52)) * num scale) = num u"
    using scale assms by (intro near_round [OF _ _ n]) auto
  ultimately show ?thesis
    using num_divide_grid [of scale u] scale(1) assms(3) by (simp add: rnd_eq)
qed

lemma rnd_grid: "\<bar>u\<bar> \<le> 2 ^ 40 \<Longrightarrow> rnd (Fin (grid scale u)) = Fin (grid scale u)"
  using near_grid [OF scale] by (intro rnd_near) auto

lemma rnd_zero: "rnd (Fin 0) = Fin 0"
  using rnd_grid [of 0] by simp

lemma rnd_nonneg: "Fin 0 \<le> v \<Longrightarrow> Fin 0 \<le> rnd v"
  using rnd_mono [of "Fin 0" v] rnd_zero by simp

lemma rnd_grid_sum:
  assumes "\<bar>u\<bar> \<le> 2 ^ 40" "\<bar>v\<bar> \<le> 2 ^ 40" "\<bar>u + v\<bar> \<le> 2 ^ 40"
  shows "rnd (Fin (grid scale u) + Fin (grid scale v)) = Fin (grid scale (u + v))"
proof -
  let ?x = "grid scale u + grid scale v"
  have n: "near scale ?x (u + v) (1 / 4096 + 1 / 4096)"
    using near_add [OF near_grid [OF scale assms(1)] near_grid [OF scale assms(2)]] .
  then have "\<bar>?x\<bar> \<le> 2 ^ 41" using scale(1) assms by (intro near_fl_bound [OF _ n]) auto
  then have "\<bar>?x\<bar> \<le> 2 ^ 900" by (rule order_trans) (rule power_increasing, auto)
  moreover have "rnd (Fin (fl ?x)) = Fin (grid scale (u + v))"
    using scale assms by (intro rnd_near [OF near_fl [OF _ _ n]]) auto
  ultimately show ?thesis by (simp add: js_small)
qed

end

end
