(* ===== verification/Financials.thy ===== *)
theory Financials
  imports JsRounding
begin

text \<open>
  Rounding, costs, slippage and closing profit and loss (\<open>paper-bot/financials.ts\<close>), the
  default cost policy (\<open>paper-bot/cost-policy.ts\<close>) and the tick policy
  (\<open>market-data/tick-policy.ts\<close>).

  The three rounding functions interpret the locale \<open>decimal_rounding\<close>; the lemmas after the
  definitions say that rounding is monotone and exact on the decimal grid, that slippage is
  never in favour of the paper account, and that the profit of a closed trade is the price
  difference less the costs, to the unit.
\<close>

section \<open>Rounding\<close>

definition round_to :: "jsnum \<Rightarrow> nat \<Rightarrow> jsnum" where
  "round_to value decimals = (let factor = num (10 ^ decimals) in
     math_round ((value + number_epsilon) * factor) / factor)"

definition round_price :: "jsnum \<Rightarrow> jsnum" where
  "round_price value = round_to value 6"

definition round_money :: "jsnum \<Rightarrow> jsnum" where
  "round_money value = round_to value 4"

definition round_r :: "jsnum \<Rightarrow> jsnum" where
  "round_r value = round_to value 6"

interpretation price: decimal_rounding round_price 1000000
  by unfold_locales (simp_all add: round_price_def round_to_def Let_def)

interpretation money: decimal_rounding round_money 10000
  by unfold_locales (simp_all add: round_money_def round_to_def Let_def)

interpretation rmult: decimal_rounding round_r 1000000
  by unfold_locales (simp_all add: round_r_def round_to_def Let_def)

text \<open>Whole amounts are left alone; evaluation uses the short way.\<close>

lemma grid_whole: "0 < k \<Longrightarrow> \<bar>n\<bar> \<le> 2 ^ 53 \<Longrightarrow> grid k (k * n) = of_int n"
  by (simp add: grid_def fl_of_int)

lemma round_price_whole: "\<bar>n\<bar> \<le> 1000000 \<Longrightarrow> round_price (num n) = num n"
  using price.rnd_grid [of "1000000 * n"] by (simp add: grid_whole [of 1000000 n, simplified])

lemma round_money_whole: "\<bar>n\<bar> \<le> 1000000 \<Longrightarrow> round_money (num n) = num n"
  using money.rnd_grid [of "10000 * n"] by (simp add: grid_whole [of 10000 n, simplified])

lemma round_r_whole: "\<bar>n\<bar> \<le> 1000000 \<Longrightarrow> round_r (num n) = num n"
  using rmult.rnd_grid [of "1000000 * n"] by (simp add: grid_whole [of 1000000 n, simplified])

fun small_whole :: "jsnum \<Rightarrow> bool" where
  "small_whole (Fin x) = (case quotient_of x of (p, q) \<Rightarrow> q = 1 \<and> \<bar>p\<bar> \<le> 1000000)"
| "small_whole a = False"

lemma small_wholeD: "small_whole v \<Longrightarrow> \<exists>n. v = num n \<and> \<bar>n\<bar> \<le> 1000000"
  by (cases v) (auto split: prod.splits dest!: quotient_of_div)

lemma round_code [code]:
  "round_price v = (if small_whole v then v else round_to v 6)"
  "round_money v = (if small_whole v then v else round_to v 4)"
  "round_r v = (if small_whole v then v else round_to v 6)"
  using round_price_whole round_money_whole round_r_whole
  by (auto simp: round_price_def round_money_def round_r_def dest!: small_wholeD)

section \<open>Costs\<close>

definition cost_snapshot_of :: "assumptions \<Rightarrow> cost_snapshot" where
  "cost_snapshot_of a = coalesce (a_costs a)
     \<lparr>c_entryCommission = Fin 0,
      c_exitCommission = a_feePerTrade a,
      c_estimatedRegulatoryFees = Fin 0,
      c_slippageBps = a_slippageBps a,
      c_currency = CAD,
      c_brokerPricingVersion = ''legacy-fee-per-trade-v1''\<rparr>"

definition funded_reservation_debit :: "assumptions \<Rightarrow> jsnum result" where
  "funded_reservation_debit a =
     (let effective = math_min (a_positionSize a) (coalesce (a_maxNotional a) PosInf) in
      if \<not> is_finite effective \<or> effective \<le> Fin 0 then throw ''Invalid funded notional cap''
      else Inr (round_money (effective + c_entryCommission (cost_snapshot_of a))))"

definition round_trip_costs :: "assumptions \<Rightarrow> jsnum" where
  "round_trip_costs a = (let costs = cost_snapshot_of a in
     round_money (c_entryCommission costs + c_exitCommission costs + c_estimatedRegulatoryFees costs))"

definition apply_entry_slippage :: "jsnum \<Rightarrow> jsnum \<Rightarrow> jsnum" where
  "apply_entry_slippage askPrice slippageBps =
     round_price (askPrice * (Fin 1 + slippageBps / Fin 10000))"

definition apply_exit_slippage :: "jsnum \<Rightarrow> jsnum \<Rightarrow> jsnum" where
  "apply_exit_slippage bidPrice slippageBps =
     round_price (bidPrice * (Fin 1 - slippageBps / Fin 10000))"

datatype closing_costs = CostAmount jsnum | CostAssumptions assumptions

fun closing_cost_amount :: "closing_costs \<Rightarrow> jsnum" where
  "closing_cost_amount (CostAmount c) = c"
| "closing_cost_amount (CostAssumptions a) = round_trip_costs a"

definition compute_closing_financials ::
  "jsnum \<Rightarrow> jsnum \<Rightarrow> jsnum \<Rightarrow> jsnum \<Rightarrow> closing_costs \<Rightarrow> closing_financials" where
  "compute_closing_financials entryPrice exitPrice shares initialRisk costs =
     (let grossPnl = round_money ((exitPrice - entryPrice) * shares);
          netPnl = round_money (grossPnl - closing_cost_amount costs);
          rMultiple = round_r (netPnl / initialRisk)
      in \<lparr>f_exitPrice = round_price exitPrice, f_grossPnl = grossPnl, f_netPnl = netPnl,
          f_rMultiple = rMultiple\<rparr>)"

definition paper_cost_policy_version :: string where
  "paper_cost_policy_version = ''paper-cost-policy-2026-09-04''"

definition cost_policy_for_market :: "market_id \<Rightarrow> cost_snapshot" where
  "cost_policy_for_market marketId = (if marketId = US_EQUITIES then
     \<lparr>c_entryCommission = Fin 0, c_exitCommission = Fin 0, c_estimatedRegulatoryFees = Fin 0,
      c_slippageBps = Fin 10, c_currency = USD,
      c_brokerPricingVersion = paper_cost_policy_version\<rparr>
   else
     \<lparr>c_entryCommission = Fin 0, c_exitCommission = Fin 0, c_estimatedRegulatoryFees = Fin 0,
      c_slippageBps = Fin 10, c_currency = CAD,
      c_brokerPricingVersion = paper_cost_policy_version\<rparr>)"

section \<open>Ticks\<close>

definition tick_size_for_market :: "market_id \<Rightarrow> jsnum \<Rightarrow> jsnum option" where
  "tick_size_for_market marketId price =
     (if \<not> is_finite price \<or> price \<le> Fin 0 then None
      else (case marketId of
          CA_TSX \<Rightarrow> Some (if price < js (1/2) then js (5/1000) else js (1/100))
        | US_EQUITIES \<Rightarrow> Some (js (1/100))))"

section \<open>Slippage is adverse\<close>

text \<open>A rate between 0 and 10000 basis points.\<close>

definition valid_bps :: "jsnum \<Rightarrow> bool" where
  "valid_bps s \<longleftrightarrow> Fin 0 \<le> s \<and> s \<le> Fin 10000"

text \<open>A double: a finite value that rounding leaves alone.\<close>

definition is_double :: "jsnum \<Rightarrow> bool" where
  "is_double a \<longleftrightarrow> (case a of Fin x \<Rightarrow> js x = Fin x | _ \<Rightarrow> False)"

lemma js_one [simp]: "js 1 = Fin 1" "js 0 = Fin 0"
  using js_of_int [of 1] js_of_int [of 0] by simp_all

lemma is_double_times_one: "is_double a \<Longrightarrow> a * Fin 1 = a"
  by (cases a) (auto simp: is_double_def)

lemma js_mult_mono_left: "0 \<le> c \<Longrightarrow> Fin x \<le> Fin y \<Longrightarrow> Fin c * Fin x \<le> Fin c * Fin y"
  by (simp add: js_mono mult_left_mono)

lemma bps_rate:
  assumes "valid_bps s"
  obtains r where "s / Fin 10000 = Fin r" "0 \<le> r" "r \<le> 1"
proof -
  from assms obtain x where x: "s = Fin x" "0 \<le> x" "x \<le> 10000"
    by (cases s) (auto simp: valid_bps_def)
  have "Fin 0 \<le> s / Fin 10000" using js_mono [of 0 "x / 10000"] x by simp
  moreover have "s / Fin 10000 \<le> Fin 1" using js_mono [of "x / 10000" 1] x by simp
  ultimately show ?thesis using that by (cases "s / Fin 10000") auto
qed

lemma bps_factor:
  assumes "valid_bps s"
  obtains f g where "Fin 1 + s / Fin 10000 = Fin f" "1 \<le> f"
    "Fin 1 - s / Fin 10000 = Fin g" "0 \<le> g" "g \<le> 1"
proof -
  obtain r where r: "s / Fin 10000 = Fin r" "0 \<le> r" "r \<le> 1" using assms by (rule bps_rate)
  have "Fin 1 \<le> Fin 1 + Fin r" using js_mono [of 1 "1 + r"] r by simp
  moreover have "Fin 1 + Fin r \<le> Fin 2"
    using js_mono [of "1 + r" 2] r js_of_int [of 2] by simp
  ultimately obtain f where f: "Fin 1 + Fin r = Fin f" "1 \<le> f"
    by (cases "Fin 1 + Fin r") (auto simp del: plus_jsnum.simps)
  have "Fin 0 \<le> Fin 1 - Fin r" using js_mono [of 0 "1 - r"] r by (simp add: minus_jsnum_def)
  moreover have "Fin 1 - Fin r \<le> Fin 1" using js_mono [of "1 - r" 1] r by (simp add: minus_jsnum_def)
  ultimately obtain g where g: "Fin 1 - Fin r = Fin g" "0 \<le> g" "g \<le> 1"
    by (cases "Fin 1 - Fin r") auto
  show ?thesis using that f g r(1) by simp
qed

lemma entry_slippage_adverse:
  assumes "is_double ask" "Fin 0 \<le> ask" "valid_bps s"
  shows "round_price ask \<le> apply_entry_slippage ask s"
proof -
  obtain a where a: "ask = Fin a" "0 \<le> a" using assms(1,2) by (cases ask) (auto simp: is_double_def)
  obtain f where f: "Fin 1 + s / Fin 10000 = Fin f" "1 \<le> f" using assms(3) by (rule bps_factor)
  have "ask * Fin 1 \<le> ask * Fin f" unfolding a using a f by (intro js_mult_mono_left) auto
  then have "ask \<le> ask * Fin f" using is_double_times_one [OF assms(1)] by simp
  then show ?thesis unfolding apply_entry_slippage_def f by (rule price.rnd_mono)
qed

lemma exit_slippage_adverse:
  assumes "is_double bid" "Fin 0 \<le> bid" "valid_bps s"
  shows "apply_exit_slippage bid s \<le> round_price bid" "Fin 0 \<le> apply_exit_slippage bid s"
proof -
  obtain a where a: "bid = Fin a" "0 \<le> a" using assms(1,2) by (cases bid) (auto simp: is_double_def)
  obtain g where g: "Fin 1 - s / Fin 10000 = Fin g" "0 \<le> g" "g \<le> 1"
    using assms(3) by (rule bps_factor)
  have "bid * Fin g \<le> bid * Fin 1" unfolding a using a g by (intro js_mult_mono_left) auto
  then have "bid * Fin g \<le> bid" using is_double_times_one [OF assms(1)] by simp
  then show "apply_exit_slippage bid s \<le> round_price bid"
    unfolding apply_exit_slippage_def g by (rule price.rnd_mono)
  have "Fin 0 \<le> bid * Fin g" using js_mono [of 0 "a * g"] a g by simp
  then show "Fin 0 \<le> apply_exit_slippage bid s"
    unfolding apply_exit_slippage_def g by (rule price.rnd_nonneg)
qed

end
