(* ===== verification/Economics.thy ===== *)
theory Economics
  imports Financials
begin

text \<open>
  The economic viability gates of a candidate entry (\<open>paper-bot/economics.ts\<close>).
  \<open>evaluate_economics\<close> computes every measure and lists the failed gates in the order of
  the source; its only error is the tick size of an invalid price. The lemmas say which
  gates a viable entry has passed, that the primary reason is the first failed gate, and
  that a viable entry earns money at its own target.
\<close>

definition economics_policy_version :: string where
  "economics_policy_version = ''paper-economics-v1''"

text \<open>\<open>Number.MAX_VALUE\<close>\<close>

definition number_max_value :: jsnum where
  "number_max_value = num ((2 ^ 53 - 1) * 2 ^ 971)"

definition mandatory_economics_gates :: economics_gates where
  "mandatory_economics_gates =
     \<lparr>g_minNetRewardRisk = Fin 0, g_minStopFrictionMultiple = Fin 0,
      g_minTargetFrictionMultiple = Fin 0, g_maxSpreadPct = number_max_value\<rparr>"

definition tick_size :: "jsnum \<Rightarrow> market_id \<Rightarrow> jsnum result" where
  "tick_size price marketId = (case tick_size_for_market marketId price of
       None \<Rightarrow> throw ''Cannot derive tick size for an invalid price''
     | Some ticks \<Rightarrow> Inr ticks)"

record economics_input =
  i_marketId :: "market_id option"
  i_executableEntryPrice :: jsnum
  i_stop :: jsnum
  i_target :: jsnum
  i_shares :: jsnum
  i_spread :: "jsnum option"
  i_assumptions :: assumptions

definition distance ::
  "jsnum \<Rightarrow> jsnum \<Rightarrow> jsnum option \<Rightarrow> jsnum \<Rightarrow> market_id \<Rightarrow> distance_measures result" where
  "distance dollarsPerShare entryPrice spread frictionPerShare marketId =
     bindR (tick_size entryPrice marketId) (\<lambda>tick. Inr
       \<lparr>d_dollars = round_money dollarsPerShare,
        d_percent = round_money (dollarsPerShare / entryPrice * Fin 100),
        d_ticks = round_money (dollarsPerShare / tick),
        d_spreadMultiples = (case spread of None \<Rightarrow> None
          | Some sp \<Rightarrow> if sp \<le> Fin 0 then None else Some (round_money (dollarsPerShare / sp))),
        d_frictionMultiples = (if frictionPerShare \<le> Fin 0 then PosInf
          else round_money (dollarsPerShare / frictionPerShare))\<rparr>)"

text \<open>The gates, in the priority order of the source.\<close>

definition economics_rejections ::
  "economics_gates \<Rightarrow> jsnum \<Rightarrow> jsnum option \<Rightarrow> distance_measures \<Rightarrow> distance_measures \<Rightarrow>
     jsnum option \<Rightarrow> economics_rejection_reason list" where
  "economics_rejections gates expectedTargetNetPnl spreadPct stopDistance targetDistance netRewardRisk =
     (if expectedTargetNetPnl \<le> Fin 0 then [NET_TARGET_NON_POSITIVE] else []) @
     (case spreadPct of None \<Rightarrow> []
       | Some pct \<Rightarrow> if g_maxSpreadPct gates < pct then [SPREAD_COST_TOO_HIGH] else []) @
     (if d_frictionMultiples stopDistance < g_minStopFrictionMultiple gates
      then [STOP_DISTANCE_TOO_SMALL] else []) @
     (if d_frictionMultiples targetDistance < g_minTargetFrictionMultiple gates
      then [TARGET_DISTANCE_TOO_SMALL] else []) @
     (case netRewardRisk of None \<Rightarrow> [NET_REWARD_RISK_TOO_LOW]
       | Some rr \<Rightarrow> if rr < g_minNetRewardRisk gates then [NET_REWARD_RISK_TOO_LOW] else [])"

definition evaluate_economics :: "economics_input \<Rightarrow> execution_economics result" where
  "evaluate_economics input =
     (let entry = i_executableEntryPrice input; stop = i_stop input; target = i_target input;
          shares = i_shares input; spread = i_spread input;
          costs = cost_snapshot_of (i_assumptions input);
          fixedCosts = round_trip_costs (i_assumptions input);
          gates = coalesce (a_economics (i_assumptions input)) mandatory_economics_gates;
          conservativeStopExitPrice = apply_exit_slippage stop (c_slippageBps costs);
          slippagePerShare = round_price (stop * (c_slippageBps costs / Fin 10000));
          frictionPerShare = coalesce spread (Fin 0) + slippagePerShare
            + round_price (entry * (c_slippageBps costs / Fin 10000))
            + (if Fin 0 < shares then fixedCosts / shares else Fin 0);
          expectedTargetNetPnl = round_money ((target - entry) * shares - fixedCosts);
          expectedStopNetPnl = round_money ((conservativeStopExitPrice - entry) * shares - fixedCosts);
          netRewardRisk = (if Fin 0 \<le> expectedStopNetPnl then None
            else Some (round_money (expectedTargetNetPnl / - expectedStopNetPnl)));
          marketId = coalesce (i_marketId input)
            (if map_option c_currency (a_costs (i_assumptions input)) = Some USD
             then US_EQUITIES else CA_TSX)
      in bindR (distance (entry - stop) entry spread frictionPerShare marketId) (\<lambda>stopDistance.
         bindR (distance (target - entry) entry spread frictionPerShare marketId) (\<lambda>targetDistance.
         let spreadPct = map_option (\<lambda>sp. round_money (sp / entry * Fin 100)) spread in
         Inr \<lparr>e_policyVersion = economics_policy_version,
              e_executableEntryPrice = entry, e_shares = shares, e_stop = stop, e_target = target,
              e_expectedTargetExitPrice = round_price target,
              e_expectedTargetExitValue = round_money (target * shares),
              e_conservativeStopExitPrice = conservativeStopExitPrice,
              e_conservativeStopExitValue = round_money (conservativeStopExitPrice * shares),
              e_expectedTargetNetPnl = expectedTargetNetPnl,
              e_expectedStopNetPnl = expectedStopNetPnl,
              e_netRewardRisk = netRewardRisk,
              e_stopDistance = stopDistance, e_targetDistance = targetDistance,
              e_spread = spread, e_spreadPct = spreadPct,
              e_frictionPerShare = round_money frictionPerShare,
              e_fixedCosts = fixedCosts, e_costs = costs, e_gates = gates,
              e_rejections = economics_rejections gates expectedTargetNetPnl spreadPct
                stopDistance targetDistance netRewardRisk\<rparr>)))"

definition primary_rejection :: "execution_economics \<Rightarrow> economics_rejection_reason option" where
  "primary_rejection economics =
     (case e_rejections economics of [] \<Rightarrow> None | r # _ \<Rightarrow> Some r)"

section \<open>What the gates decide\<close>

lemma economics_rejections_empty:
  "economics_rejections gates pnl pct sd td rr = [] \<longleftrightarrow>
     \<not> pnl \<le> Fin 0 \<and> (\<forall>p. pct = Some p \<longrightarrow> \<not> g_maxSpreadPct gates < p) \<and>
     \<not> d_frictionMultiples sd < g_minStopFrictionMultiple gates \<and>
     \<not> d_frictionMultiples td < g_minTargetFrictionMultiple gates \<and>
     (\<exists>r. rr = Some r \<and> \<not> r < g_minNetRewardRisk gates)"
  by (auto simp: economics_rejections_def split: option.splits)

text \<open>The record an evaluation returns is determined by its own fields.\<close>

lemma evaluate_economics_fields:
  assumes "evaluate_economics input = Inr e"
  shows "e_executableEntryPrice e = i_executableEntryPrice input"
    "e_shares e = i_shares input" "e_stop e = i_stop input" "e_target e = i_target input"
    "e_spread e = i_spread input"
    "e_gates e = coalesce (a_economics (i_assumptions input)) mandatory_economics_gates"
    "e_fixedCosts e = round_trip_costs (i_assumptions input)"
    "e_expectedTargetNetPnl e = round_money ((i_target input - i_executableEntryPrice input) *
       i_shares input - e_fixedCosts e)"
    "e_rejections e = economics_rejections (e_gates e) (e_expectedTargetNetPnl e) (e_spreadPct e)
       (e_stopDistance e) (e_targetDistance e) (e_netRewardRisk e)"
  using assms by (auto simp: evaluate_economics_def Let_def bindR_eq_Inr)

lemma tick_size_valid: "is_finite p \<Longrightarrow> Fin 0 < p \<Longrightarrow> \<exists>t. tick_size p m = Inr t"
  by (cases p; cases m) (auto simp: tick_size_def tick_size_for_market_def)

lemma evaluate_economics_total:
  assumes "is_finite (i_executableEntryPrice input)" "Fin 0 < i_executableEntryPrice input"
  shows "\<exists>e. evaluate_economics input = Inr e"
  using tick_size_valid [OF assms]
  by (fastforce simp: evaluate_economics_def Let_def distance_def bindR_eq_Inr)

lemma evaluate_economics_error:
  "evaluate_economics input = Inl err \<Longrightarrow>
     err = JsError ''Cannot derive tick size for an invalid price''"
  by (auto simp: evaluate_economics_def Let_def distance_def bindR_eq_Inl bindR_eq_Inr tick_size_def
    split: option.splits)

lemma primary_rejection_None: "primary_rejection e = None \<longleftrightarrow> e_rejections e = []"
  by (simp add: primary_rejection_def split: list.splits)

lemma economics_rejections_priority:
  "sorted_wrt (\<lambda>a b. a \<noteq> b) (economics_rejections gates pnl pct sd td rr)"
  "pnl \<le> Fin 0 \<Longrightarrow> \<exists>rs. economics_rejections gates pnl pct sd td rr = NET_TARGET_NON_POSITIVE # rs"
  by (auto simp: economics_rejections_def split: option.splits)

end
