(* ===== verification/Sizing.thy ===== *)
theory Sizing
  imports Economics
begin

text \<open>
  Stop and target derivation and risk-based sizing (\<open>paper-bot/level-derivation.ts\<close>).
  \<open>size_limits\<close> is the list of caps in the order the source pushes them, \<open>apply_limits\<close> the
  loop that takes the smallest and records each cap that reduced the size. The lemmas say
  that the size respects every cap and is attained by one of them, that the recorded caps
  are exactly the successive reductions, and that a successful sizing has a price between
  its levels and at least one share.
\<close>

section \<open>Levels\<close>

definition derive_stop_and_target :: "signal_fact \<Rightarrow> assumptions \<Rightarrow> level_derivation_result" where
  "derive_stop_and_target signal a =
     (case s_entryReference signal of None \<Rightarrow> Inl NF_MISSING_REFERENCE
      | Some entry \<Rightarrow>
        (let stop = (if a_stopMethod a = ATR
               then (case s_atr14 signal of None \<Rightarrow> None
                  | Some atr \<Rightarrow> Some (entry - atr * a_atrStopMultiple a))
               else s_stopReference signal)
         in (case stop of None \<Rightarrow> Inl NF_MISSING_REFERENCE
            | Some st \<Rightarrow>
              (let target = (case a_rewardRiskRatio a of
                     Some ratio \<Rightarrow> Some (entry + (entry - st) * ratio)
                   | None \<Rightarrow> s_targetReference signal)
               in (case target of None \<Rightarrow> Inl NF_MISSING_REFERENCE
                  | Some tg \<Rightarrow> Inr \<lparr>l_stop = round_price st, l_target = round_price tg\<rparr>)))))"

section \<open>Sizing\<close>

record size_entry_input =
  n_entryPrice :: jsnum
  n_stop :: jsnum
  n_target :: jsnum
  n_positionSize :: jsnum
  n_fixedCosts :: jsnum
  n_stopExitPrice :: "jsnum option"
  n_riskBudget :: "jsnum option"
  n_maxNotional :: "jsnum option"
  n_context :: "sizing_context option"

definition floor_non_negative :: "jsnum \<Rightarrow> jsnum \<Rightarrow> jsnum" where
  "floor_non_negative value perShare =
     (if perShare \<le> Fin 0 then PosInf else math_floor (math_max (Fin 0) value / perShare))"

definition loss_per_share :: "size_entry_input \<Rightarrow> jsnum" where
  "loss_per_share n = n_entryPrice n - coalesce (n_stopExitPrice n) (n_stop n)"

definition participation_of :: "sizing_context \<Rightarrow> jsnum option" where
  "participation_of x = or_else (x_maxDisplayedSizeParticipation x)
     (if x_executionMode x = Some CAPACITY_CONSTRAINED then Some (Fin 1) else None)"

text \<open>The caps in push order; an absent input pushes nothing.\<close>

definition size_limits :: "size_entry_input \<Rightarrow> (sizing_cap \<times> jsnum) list" where
  "size_limits n =
     (let loss = loss_per_share n; entryPrice = n_entryPrice n;
          context = coalesce (n_context n) empty_context in
      (case n_riskBudget n of None \<Rightarrow> []
        | Some budget \<Rightarrow> [(RISK_BUDGET, floor_non_negative (budget - n_fixedCosts n) loss)]) @
      [(POSITION_NOTIONAL, math_floor (n_positionSize n / entryPrice))] @
      (case n_maxNotional n of None \<Rightarrow> []
        | Some cap \<Rightarrow> [(MAX_NOTIONAL, math_floor (cap / entryPrice))]) @
      (case x_displayedSize context of None \<Rightarrow> []
        | Some displayed \<Rightarrow> (case participation_of context of None \<Rightarrow> []
            | Some participation \<Rightarrow>
                [(DISPLAYED_SIZE_PARTICIPATION, math_floor (displayed * participation))])) @
      (case x_maxSymbolNotional context of None \<Rightarrow> []
        | Some cap \<Rightarrow> [(SYMBOL_EXPOSURE,
            floor_non_negative (cap - coalesce (x_openSymbolNotional context) (Fin 0)) entryPrice)]) @
      (case x_maxSectorNotional context of None \<Rightarrow> []
        | Some cap \<Rightarrow> [(SECTOR_EXPOSURE,
            floor_non_negative (cap - coalesce (x_openSectorNotional context) (Fin 0)) entryPrice)]) @
      (case x_maxPortfolioRisk context of None \<Rightarrow> []
        | Some cap \<Rightarrow> [(PORTFOLIO_RISK,
            floor_non_negative (cap - coalesce (x_openPortfolioRisk context) (Fin 0) - n_fixedCosts n)
              loss)]))"

fun apply_limits :: "jsnum \<times> sizing_cap list \<Rightarrow> (sizing_cap \<times> jsnum) list \<Rightarrow> jsnum \<times> sizing_cap list" where
  "apply_limits (shares, caps) [] = (shares, caps)"
| "apply_limits (shares, caps) ((cap, limit) # limits) =
     (if limit < shares then apply_limits (limit, caps @ [cap]) limits
      else apply_limits (shares, caps) limits)"

definition uncapped_shares :: "size_entry_input \<Rightarrow> jsnum" where
  "uncapped_shares n = (case n_riskBudget n of
       None \<Rightarrow> math_floor (n_positionSize n / n_entryPrice n)
     | Some budget \<Rightarrow> floor_non_negative (budget - n_fixedCosts n) (loss_per_share n))"

definition size_entry :: "size_entry_input \<Rightarrow> entry_sizing_result" where
  "size_entry n =
     (let entryPrice = n_entryPrice n in
      if \<not> (n_stop n < entryPrice \<and> entryPrice < n_target n)
      then Inl NF_EXECUTABLE_PRICE_OUTSIDE_LEVELS
      else (let loss = loss_per_share n;
                (shares, appliedCaps) = apply_limits (PosInf, []) (size_limits n);
                uncapped = uncapped_shares n in
        if shares < Fin 1 then Inl NF_SHARES_BELOW_ONE
        else Inr \<lparr>z_executableEntryPrice = round_price entryPrice, z_shares = shares,
               z_initialRisk = round_money (loss * shares),
               z_sizing = \<lparr>b_requestedRisk = round_money (coalesce (n_riskBudget n) (uncapped * loss)),
                 b_estimatedRisk = round_money (loss * shares),
                 b_costInclusiveLossPerShare = round_price loss,
                 b_uncappedShares = uncapped, b_shares = shares,
                 b_unfilledShares = Some (math_max (Fin 0) (uncapped - shares)),
                 b_appliedCaps = appliedCaps\<rparr>\<rparr>))"

text \<open>
  \<open>sizeEntryWithAssumptions\<close>: the object spread lets the caller's context override the
  execution mode and latency of the assumptions.
\<close>

definition effective_context :: "assumptions \<Rightarrow> sizing_context option \<Rightarrow> sizing_context option" where
  "effective_context a context =
     (if context \<noteq> None \<or> a_executionMode a \<noteq> None \<or> a_latencyMs a \<noteq> None
      then (let c = coalesce context empty_context in
        Some (c\<lparr>x_executionMode := or_else (x_executionMode c) (a_executionMode a),
                x_latencyMs := or_else (x_latencyMs c) (a_latencyMs a)\<rparr>))
      else None)"

definition size_entry_with_assumptions ::
  "jsnum \<Rightarrow> jsnum \<Rightarrow> jsnum \<Rightarrow> assumptions \<Rightarrow> sizing_context option \<Rightarrow> entry_sizing_result" where
  "size_entry_with_assumptions entryPrice stop target a context =
     (let fixedCosts = round_trip_costs a;
          res = size_entry \<lparr>n_entryPrice = entryPrice, n_stop = stop, n_target = target,
            n_positionSize = a_positionSize a, n_fixedCosts = fixedCosts,
            n_stopExitPrice = Some (case a_costs a of None \<Rightarrow> stop
              | Some costs \<Rightarrow> apply_exit_slippage stop (c_slippageBps costs)),
            n_riskBudget = a_riskBudget a, n_maxNotional = a_maxNotional a,
            n_context = effective_context a context\<rparr>
      in (case res of Inl reason \<Rightarrow> Inl reason
         | Inr z \<Rightarrow> (if a_costs a = None then Inr z
             else (let initialRisk = round_money (z_initialRisk z + fixedCosts) in
               Inr (z\<lparr>z_initialRisk := initialRisk,
                      z_sizing := (z_sizing z)\<lparr>b_estimatedRisk := initialRisk\<rparr>\<rparr>)))))"

section \<open>The caps\<close>

lemma apply_limits_bound:
  "apply_limits (s, caps) limits = (s', caps') \<Longrightarrow> s \<noteq> NaN \<Longrightarrow>
     s' \<noteq> NaN \<and> s' \<le> s \<and> (\<forall>(cap, l) \<in> set limits. \<not> l < s')"
proof (induction limits arbitrary: s caps)
  case Nil
  then show ?case by (auto simp: js_le_refl)
next
  case (Cons cl limits)
  obtain cap l where cl: "cl = (cap, l)" by force
  show ?case
  proof (cases "l < s")
    case True
    then have "l \<noteq> NaN" by (cases l) auto
    with Cons.IH [of l "caps @ [cap]"] Cons.prems True show ?thesis
      by (auto simp: cl dest: js_le_trans [OF _ js_less_imp_le] js_less_le_trans)
  next
    case False
    with Cons.IH [of s caps] Cons.prems show ?thesis
      by (auto simp: cl dest: js_less_le_trans)
  qed
qed

lemma apply_limits_attained:
  "apply_limits (s, caps) limits = (s', caps') \<Longrightarrow> s' = s \<or> s' \<in> snd ` set limits"
proof (induction limits arbitrary: s caps)
  case (Cons cl limits)
  then show ?case by (cases cl) (fastforce split: if_splits)
qed simp

text \<open>The recorded caps with their limits, in order: each is smaller than all before it.\<close>

fun reductions :: "jsnum \<Rightarrow> (sizing_cap \<times> jsnum) list \<Rightarrow> (sizing_cap \<times> jsnum) list" where
  "reductions s [] = []"
| "reductions s ((cap, l) # limits) =
     (if l < s then (cap, l) # reductions l limits else reductions s limits)"

lemma apply_limits_reductions:
  "apply_limits (s, caps) limits =
     (if reductions s limits = [] then s else snd (last (reductions s limits)),
      caps @ map fst (reductions s limits))"
  by (induction s limits arbitrary: caps rule: reductions.induct) auto

lemma reductions_below: "(cap, l) \<in> set (reductions s limits) \<Longrightarrow> l < s"
  by (induction s limits rule: reductions.induct) (auto split: if_splits dest: js_less_trans)

lemma reductions_decreasing:
  "sorted_wrt (\<lambda>a b. snd b < snd a) (reductions s limits)"
  by (induction s limits rule: reductions.induct) (auto dest: reductions_below)

lemma reductions_subset: "set (reductions s limits) \<subseteq> set limits"
  by (induction s limits rule: reductions.induct) auto

section \<open>A successful sizing\<close>

lemma size_entry_ok:
  assumes "size_entry n = Inr z"
  shows "n_stop n < n_entryPrice n" "n_entryPrice n < n_target n"
    "z_executableEntryPrice z = round_price (n_entryPrice n)"
    "z_initialRisk z = round_money (loss_per_share n * z_shares z)"
    "b_shares (z_sizing z) = z_shares z"
    "apply_limits (PosInf, []) (size_limits n) = (z_shares z, b_appliedCaps (z_sizing z))"
    "Fin 1 \<le> z_shares z"
proof -
  obtain s caps where l: "apply_limits (PosInf, []) (size_limits n) = (s, caps)" by force
  have "s \<noteq> NaN" using apply_limits_bound [OF l] by simp
  then have "\<not> s < Fin 1 \<longleftrightarrow> Fin 1 \<le> s" by (simp add: js_not_less)
  then show "n_stop n < n_entryPrice n" "n_entryPrice n < n_target n"
    "z_executableEntryPrice z = round_price (n_entryPrice n)"
    "z_initialRisk z = round_money (loss_per_share n * z_shares z)"
    "b_shares (z_sizing z) = z_shares z"
    "apply_limits (PosInf, []) (size_limits n) = (z_shares z, b_appliedCaps (z_sizing z))"
    "Fin 1 \<le> z_shares z"
    using assms l by (auto simp: size_entry_def Let_def split: if_splits)
qed

lemma size_entry_caps:
  assumes "size_entry n = Inr z" "(cap, limit) \<in> set (size_limits n)"
  shows "\<not> limit < z_shares z"
  using apply_limits_bound [OF size_entry_ok(6) [OF assms(1)]] assms(2) by auto

text \<open>The size found by \<open>size_entry_with_assumptions\<close> is the one of \<open>size_entry\<close>.\<close>

definition sizing_input :: "jsnum \<Rightarrow> jsnum \<Rightarrow> jsnum \<Rightarrow> assumptions \<Rightarrow> sizing_context option \<Rightarrow> size_entry_input" where
  "sizing_input entryPrice stop target a context =
     \<lparr>n_entryPrice = entryPrice, n_stop = stop, n_target = target,
      n_positionSize = a_positionSize a, n_fixedCosts = round_trip_costs a,
      n_stopExitPrice = Some (case a_costs a of None \<Rightarrow> stop
        | Some costs \<Rightarrow> apply_exit_slippage stop (c_slippageBps costs)),
      n_riskBudget = a_riskBudget a, n_maxNotional = a_maxNotional a,
      n_context = effective_context a context\<rparr>"

lemma size_entry_with_assumptions_ok:
  assumes "size_entry_with_assumptions entryPrice stop target a context = Inr z"
  obtains z' where "size_entry (sizing_input entryPrice stop target a context) = Inr z'"
    "z_shares z = z_shares z'" "z_executableEntryPrice z = z_executableEntryPrice z'"
    "b_shares (z_sizing z) = z_shares z'" "b_appliedCaps (z_sizing z) = b_appliedCaps (z_sizing z')"
    "z_initialRisk z = (if a_costs a = None then z_initialRisk z'
       else round_money (z_initialRisk z' + round_trip_costs a))"
  using assms size_entry_ok(5)
  by (fastforce simp: size_entry_with_assumptions_def sizing_input_def Let_def
    split: sum.splits if_splits)

lemma displayed_size_limit:
  assumes "x_displayedSize context = Some d" "participation_of context = Some p" "n_context n = Some context"
  shows "(DISPLAYED_SIZE_PARTICIPATION, math_floor (d * p)) \<in> set (size_limits n)"
  using assms by (simp add: size_limits_def Let_def)

end
