(* ===== verification/QuoteExecution.thy ===== *)
theory QuoteExecution
  imports Sizing
begin

text \<open>
  The canonical Level 1 quote model (\<open>paper-bot/quote-execution.ts\<close>): whether a quote can
  support a decision, the entry at the decision-time quote, exits at later quotes, the time
  stop and the session close. \<open>evaluate_quote_entry\<close> can throw (unsupported latency, an
  invalid tick price, an unprintable date), so it returns a result.
\<close>

section \<open>Snapshots and availability\<close>

definition snapshot_of :: "quote_fact \<Rightarrow> string \<Rightarrow> string option \<Rightarrow> string option \<Rightarrow> jsnum option \<Rightarrow>
    execution_mode option \<Rightarrow> market_snapshot" where
  "snapshot_of quote decisionTimestamp signalTimestamp fillTimestamp latencyMs executionMode =
     \<lparr>m_bid = q_bid quote, m_ask = q_ask quote, m_bidSize = q_bidSize quote,
      m_askSize = q_askSize quote, m_spread = q_ask quote - q_bid quote,
      m_quoteTimestamp = q_timestamp quote, m_dataStatus = q_dataStatus quote,
      m_stalenessSeconds = math_max (Fin 0)
        ((date_parse decisionTimestamp - date_parse (q_timestamp quote)) / Fin 1000),
      m_signalTimestamp = signalTimestamp, m_decisionTimestamp = Some decisionTimestamp,
      m_fillTimestamp = fillTimestamp, m_latencyMs = latencyMs, m_executionMode = executionMode\<rparr>"

definition classify_quote_availability ::
  "quote_fact option \<Rightarrow> string \<Rightarrow> jsnum \<Rightarrow> no_fill_reason option" where
  "classify_quote_availability quoteOpt decisionTimestamp maxQuoteAgeSeconds =
     (case quoteOpt of None \<Rightarrow> Some NF_MISSING_QUOTE
      | Some quote \<Rightarrow>
        if q_dataStatus quote = HALTED then Some NF_HALTED
        else if q_dataStatus quote = DELAYED \<or> \<not> q_actionable quote then Some NF_DELAYED
        else if coalesce (q_sizeUnit quote) SHARES \<noteq> SHARES then Some NF_UNKNOWN_QUOTE_SIZE
        else if q_sizeMultiplier quote \<noteq> None \<and> \<not> js_eq (the (q_sizeMultiplier quote)) (Fin 1)
          then Some NF_UNKNOWN_QUOTE_SIZE
        else if \<not> (\<forall>v \<in> set [q_bid quote, q_ask quote, q_bidSize quote, q_askSize quote]. is_finite v)
            \<or> q_bid quote \<le> Fin 0 \<or> q_ask quote < q_bid quote
            \<or> q_bidSize quote < Fin 0 \<or> q_askSize quote < Fin 0
            \<or> \<not> is_finite (date_parse (q_timestamp quote))
            \<or> \<not> is_finite (date_parse decisionTimestamp)
            \<or> date_parse decisionTimestamp < date_parse (q_timestamp quote)
          then Some NF_STALE
        else if maxQuoteAgeSeconds <
            (date_parse decisionTimestamp - date_parse (q_timestamp quote)) / Fin 1000
          then Some NF_STALE
        else None)"

section \<open>Entry\<close>

definition entry_execution_mode :: "assumptions \<Rightarrow> sizing_context option \<Rightarrow> execution_mode" where
  "entry_execution_mode a context =
     coalesce (or_else (Option.bind context x_executionMode) (a_executionMode a)) UNCONSTRAINED"

definition entry_latency :: "assumptions \<Rightarrow> sizing_context option \<Rightarrow> jsnum" where
  "entry_latency a context =
     coalesce (or_else (Option.bind context x_latencyMs) (a_latencyMs a)) (Fin 0)"

definition entry_sizing_context ::
  "quote_fact \<Rightarrow> execution_mode \<Rightarrow> jsnum \<Rightarrow> sizing_context option \<Rightarrow> sizing_context option" where
  "entry_sizing_context quote executionMode latencyMs context =
     (let base = empty_context\<lparr>x_displayedSize := Some (q_askSize quote),
        x_executionMode := Some executionMode, x_latencyMs := Some latencyMs\<rparr> in
      case context of
        None \<Rightarrow> if executionMode = CAPACITY_CONSTRAINED then Some base else None
      | Some c \<Rightarrow> Some (c\<lparr>x_displayedSize := or_else (x_displayedSize c) (x_displayedSize base),
          x_executionMode := or_else (x_executionMode c) (x_executionMode base),
          x_latencyMs := or_else (x_latencyMs c) (x_latencyMs base)\<rparr>))"

definition evaluate_quote_entry :: "signal_fact \<Rightarrow> quote_fact option \<Rightarrow> assumptions \<Rightarrow>
    sizing_context option \<Rightarrow> string option \<Rightarrow> quote_entry_result result" where
  "evaluate_quote_entry signal quoteAtSignal a context decisionTimestamp =
     (let decisionTime = coalesce decisionTimestamp (s_signalTimestamp signal);
          executionMode = entry_execution_mode a context;
          latencyMs = entry_latency a context;
          snap = (\<lambda>quote fillTime. snapshot_of quote decisionTime (Some (s_signalTimestamp signal))
            fillTime (Some latencyMs) (Some executionMode))
      in
      if \<not> is_finite latencyMs \<or> \<not> js_eq latencyMs (Fin 0)
      then throw ''Non-zero latency is unsupported: execution requires a contemporaneous quote''
      else case classify_quote_availability quoteAtSignal decisionTime (a_maxQuoteAgeSeconds a) of
        Some reason \<Rightarrow> Inr (EntryNoFill reason (map_option (\<lambda>q. snap q None) quoteAtSignal))
      | None \<Rightarrow> (let quote = the quoteAtSignal in
        if executionMode = CAPACITY_CONSTRAINED \<and> q_askSize quote < Fin 1
        then Inr (EntryNoFill NF_SHARES_BELOW_ONE (Some (snap quote None)))
        else case derive_stop_and_target signal a of
          Inl reason \<Rightarrow> Inr (EntryNoFill reason (Some (snap quote None)))
        | Inr levels \<Rightarrow>
          (let executableEntryPrice = apply_entry_slippage (q_ask quote) (a_slippageBps a) in
           case size_entry_with_assumptions executableEntryPrice (l_stop levels) (l_target levels) a
               (entry_sizing_context quote executionMode latencyMs context) of
             Inl reason \<Rightarrow> Inr (EntryNoFill reason (Some (snap quote None)))
           | Inr sized \<Rightarrow>
             bindR (evaluate_economics
               \<lparr>i_marketId = Some (if map_option c_currency (a_costs a) = Some USD
                    then US_EQUITIES else CA_TSX),
                i_executableEntryPrice = z_executableEntryPrice sized,
                i_stop = l_stop levels, i_target = l_target levels, i_shares = z_shares sized,
                i_spread = Some (q_ask quote - q_bid quote), i_assumptions = a\<rparr>)
             (\<lambda>economics.
              case primary_rejection economics of
                Some reason \<Rightarrow> Inr (EntryRejected reason economics (Some (snap quote None)))
              | None \<Rightarrow>
                (let quoteMs = date_parse (q_timestamp quote);
                     signalMs = date_parse (s_signalTimestamp signal);
                     decisionMs = date_parse decisionTime;
                     fillMs = math_max (math_max quoteMs signalMs) decisionMs + latencyMs
                 in bindR (to_iso_string fillMs) (\<lambda>fillTime.
                  Inr (EntryOpen
                    \<lparr>o_economics = economics, o_sizing = z_sizing sized, o_entryTime = fillTime,
                     o_stop = l_stop levels, o_target = l_target levels, o_shares = z_shares sized,
                     o_initialRisk = z_initialRisk sized,
                     o_executableEntryPrice = z_executableEntryPrice sized,
                     o_entrySizeCoverage = q_askSize quote / z_shares sized,
                     o_entryMarketSnapshot = snap quote (Some fillTime),
                     o_quoteTime = Some (q_timestamp quote),
                     o_signalTime = Some (s_signalTimestamp signal),
                     o_decisionTime = Some decisionTime, o_fillTime = Some fillTime,
                     o_latencyMs = Some latencyMs, o_executionMode = Some executionMode\<rparr>)))))))"

section \<open>Exits\<close>

definition remaining_of :: "open_position \<Rightarrow> jsnum" where
  "remaining_of position = coalesce (p_remainingShares position) (p_shares position)"

definition available_exit_shares :: "open_position \<Rightarrow> quote_fact \<Rightarrow> jsnum" where
  "available_exit_shares position quote =
     (if classify_quote_availability (Some quote) (q_timestamp quote) (Fin 0) \<noteq> None then Fin 0
      else if \<not> is_finite (q_bid quote) \<or> q_bid quote \<le> Fin 0
        \<or> \<not> is_finite (q_bidSize quote) \<or> q_bidSize quote < Fin 0 then Fin 0
      else if p_executionMode position \<noteq> Some CAPACITY_CONSTRAINED then remaining_of position
      else if coalesce (q_sizeUnit quote) SHARES \<noteq> SHARES
        \<or> \<not> js_eq (coalesce (q_sizeMultiplier quote) (Fin 1)) (Fin 1) then Fin 0
      else math_min (remaining_of position) (math_floor (q_bidSize quote)))"

text \<open>The outcome shared by the four exit paths of the source.\<close>

definition exit_of :: "open_position \<Rightarrow> quote_fact \<Rightarrow> assumptions \<Rightarrow> exit_reason \<Rightarrow> jsnum \<Rightarrow>
    jsnum option \<Rightarrow> exit_outcome" where
  "exit_of position quote a reason exitPrice delayMs =
     (let filledShares = available_exit_shares position quote in
      \<lparr>xo_filledShares = Some filledShares, xo_exitReason = reason,
       xo_exitTime = q_timestamp quote,
       xo_exitSizeCoverage = q_bidSize quote / p_shares position,
       xo_exitMarketSnapshot = snapshot_of quote (q_timestamp quote) (p_signalTime position)
         (Some (q_timestamp quote)) (p_latencyMs position) (p_executionMode position),
       xo_financials = compute_closing_financials (p_entryPrice position) exitPrice filledShares
         (p_initialRisk position)
         (CostAmount (round_trip_costs a * filledShares / p_shares position)),
       xo_sessionCloseDelayMs = delayMs,
       xo_unfilledShares = Some (remaining_of position - filledShares)\<rparr>)"

definition evaluate_quote_exit ::
  "open_position \<Rightarrow> quote_fact \<Rightarrow> assumptions \<Rightarrow> quote_exit_result" where
  "evaluate_quote_exit position quote a =
     (if \<not> q_actionable quote \<or> q_dataStatus quote \<noteq> REALTIME then None
      else if available_exit_shares position quote < Fin 1 then None
      else if p_pendingExitReason position = None \<and> p_target position \<le> q_bid quote
        then Some (exit_of position quote a TARGET (p_target position) None)
      else if p_pendingExitReason position \<noteq> None \<or> q_bid quote \<le> p_stop position
        then Some (exit_of position quote a (coalesce (p_pendingExitReason position) STOP)
          (apply_exit_slippage (q_bid quote) (a_slippageBps a)) None)
      else None)"

definition resolve_quote_time_stop ::
  "open_position \<Rightarrow> quote_fact \<Rightarrow> assumptions \<Rightarrow> quote_exit_result" where
  "resolve_quote_time_stop position quote a =
     (if \<not> q_actionable quote \<or> q_dataStatus quote \<noteq> REALTIME then None
      else if available_exit_shares position quote < Fin 1 then None
      else Some (exit_of position quote a TIME_STOP
        (apply_exit_slippage (q_bid quote) (a_slippageBps a)) None))"

definition resolve_session_close ::
  "open_position \<Rightarrow> quote_fact option \<Rightarrow> string \<Rightarrow> assumptions \<Rightarrow> session_close_result" where
  "resolve_session_close position candidateQuote boundary a =
     (if candidateQuote \<noteq> None \<and>
         date_parse (q_timestamp (the candidateQuote)) < date_parse boundary then ClosePending
      else
       (let decisionTimestamp = coalesce (map_option q_timestamp candidateQuote) boundary in
        case classify_quote_availability candidateQuote decisionTimestamp (a_maxQuoteAgeSeconds a) of
          Some _ \<Rightarrow> ClosePending
        | None \<Rightarrow>
          (let quote = the candidateQuote in
           if available_exit_shares position quote < Fin 1 then ClosePending
           else
            (let delayMs = date_parse (q_timestamp quote) - date_parse boundary;
                 isDelayed = Fin 0 < delayMs in
             SessionClosed (exit_of position quote a
               (if isDelayed then SESSION_CLOSE_DELAYED else SESSION_CLOSE)
               (apply_exit_slippage (q_bid quote) (a_slippageBps a))
               (if isDelayed then Some delayMs else None))))))"

section \<open>What availability guarantees\<close>

text \<open>A quote against which the simulator may trade.\<close>

definition usable_quote :: "quote_fact \<Rightarrow> bool" where
  "usable_quote quote \<longleftrightarrow> classify_quote_availability (Some quote) (q_timestamp quote) (Fin 0) = None"

lemma classify_available:
  assumes "classify_quote_availability (Some quote) t age = None"
  shows "q_dataStatus quote = REALTIME" "q_actionable quote"
    "is_finite (q_bid quote)" "is_finite (q_ask quote)"
    "is_finite (q_bidSize quote)" "is_finite (q_askSize quote)"
    "Fin 0 < q_bid quote" "q_bid quote \<le> q_ask quote"
    "Fin 0 \<le> q_bidSize quote" "Fin 0 \<le> q_askSize quote"
    "is_finite (date_parse (q_timestamp quote))" "is_finite (date_parse t)"
    "date_parse (q_timestamp quote) \<le> date_parse t"
proof -
  note c = assms [unfolded classify_quote_availability_def, simplified]
  show d: "q_dataStatus quote = REALTIME" using c by (cases "q_dataStatus quote") auto
  show "q_actionable quote" using c by (auto split: if_splits)
  have f: "is_finite (q_bid quote) \<and> is_finite (q_ask quote) \<and> is_finite (q_bidSize quote) \<and>
      is_finite (q_askSize quote) \<and> is_finite (date_parse (q_timestamp quote)) \<and> is_finite (date_parse t)"
    and l: "\<not> q_bid quote \<le> Fin 0" "\<not> q_ask quote < q_bid quote" "\<not> q_bidSize quote < Fin 0"
      "\<not> q_askSize quote < Fin 0" "\<not> date_parse t < date_parse (q_timestamp quote)"
    using c by (auto split: if_splits)
  from f show "is_finite (q_bid quote)" "is_finite (q_ask quote)" "is_finite (q_bidSize quote)"
    "is_finite (q_askSize quote)" "is_finite (date_parse (q_timestamp quote))" "is_finite (date_parse t)"
    by auto
  with l show "Fin 0 < q_bid quote" "q_bid quote \<le> q_ask quote" "Fin 0 \<le> q_bidSize quote"
    "Fin 0 \<le> q_askSize quote" "date_parse (q_timestamp quote) \<le> date_parse t"
    by (auto simp: is_finite_iff)
qed

lemma classify_missing [simp]: "classify_quote_availability None t age = Some NF_MISSING_QUOTE"
  by (simp add: classify_quote_availability_def)

text \<open>A quote available under some age limit is available against its own timestamp.\<close>

lemma date_diff_self: "date_parse t - date_parse t = Fin 0 \<or> date_parse t = NaN"
  by (rule date_parse_cases [of t]) (auto simp: num_diff)

lemma classify_own_time:
  assumes "classify_quote_availability (Some quote) t age = None"
  shows "usable_quote quote"
proof -
  note a = classify_available [OF assms]
  have "date_parse (q_timestamp quote) - date_parse (q_timestamp quote) = Fin 0"
    using date_diff_self [of "q_timestamp quote"] a(11) by auto
  moreover have "\<not> Fin 0 < Fin 0 / Fin 1000" by simp
  ultimately show ?thesis
    using assms unfolding usable_quote_def classify_quote_availability_def
    by (auto split: if_splits)
qed

lemmas usable_quoteD = classify_available [OF usable_quote_def [THEN iffD1]]

section \<open>Fill quantities\<close>

lemma available_exit_shares_unusable: "\<not> usable_quote quote \<Longrightarrow> available_exit_shares p quote = Fin 0"
  by (simp add: available_exit_shares_def usable_quote_def)

lemma math_floor_num: "math_floor (Fin x) = num \<lfloor>x\<rfloor>"
  by simp

lemma math_min_num: "math_min (num a) (num b) = num (min a b)"
  by (auto simp: math_min_def min_def)

text \<open>With a whole number of shares remaining, a fill is a whole number of them.\<close>

lemma available_exit_shares_num:
  assumes "remaining_of p = num r" "0 \<le> r"
  obtains k where "available_exit_shares p quote = num k" "0 \<le> k" "k \<le> r"
proof (cases "usable_quote quote")
  case False
  then show ?thesis using that [of 0] assms by (simp add: available_exit_shares_unusable)
next
  case True
  note u = usable_quoteD [OF True]
  from u(5,9) obtain b where b: "q_bidSize quote = Fin b" "0 \<le> b"
    by (cases "q_bidSize quote") auto
  have "available_exit_shares p quote \<in> {num 0, num r, num (min r \<lfloor>b\<rfloor>)}"
    using assms by (auto simp: available_exit_shares_def b math_min_num [unfolded math_floor_num])
  moreover have "0 \<le> min r \<lfloor>b\<rfloor>" using b assms by auto
  ultimately show ?thesis using that [of 0] that [of r] that [of "min r \<lfloor>b\<rfloor>"] assms by auto
qed

lemma available_exit_shares_capacity:
  assumes "p_executionMode p = Some CAPACITY_CONSTRAINED" "remaining_of p = num r" "0 \<le> r"
  shows "available_exit_shares p quote \<le> q_bidSize quote \<or> available_exit_shares p quote = Fin 0"
proof (cases "q_bidSize quote")
  case (Fin b)
  have "of_int (min r \<lfloor>b\<rfloor>) \<le> b"
    by (metis min.cobounded2 of_int_floor_le of_int_le_iff order_trans)
  then show ?thesis
    using assms Fin by (auto simp: available_exit_shares_def math_min_num [unfolded math_floor_num])
qed (auto simp: available_exit_shares_def)

section \<open>Inversion of the exit paths\<close>

lemma exit_of_simps [simp]:
  "xo_exitReason (exit_of p q a r price d) = r"
  "xo_exitTime (exit_of p q a r price d) = q_timestamp q"
  "xo_filledShares (exit_of p q a r price d) = Some (available_exit_shares p q)"
  "xo_unfilledShares (exit_of p q a r price d) = Some (remaining_of p - available_exit_shares p q)"
  "xo_sessionCloseDelayMs (exit_of p q a r price d) = d"
  by (simp_all add: exit_of_def Let_def)

lemma evaluate_quote_exit_Some:
  assumes "evaluate_quote_exit p q a = Some x"
  shows "\<not> available_exit_shares p q < Fin 1" "usable_quote q"
    "xo_exitTime x = q_timestamp q" "xo_filledShares x = Some (available_exit_shares p q)"
    "xo_exitReason x = TARGET \<longleftrightarrow> p_pendingExitReason p = None \<and> p_target p \<le> q_bid q \<or>
       p_pendingExitReason p = Some TARGET"
    "p_pendingExitReason p \<noteq> None \<Longrightarrow> xo_exitReason x = the (p_pendingExitReason p)"
    "p_pendingExitReason p = None \<Longrightarrow> xo_exitReason x \<in> {TARGET, STOP}"
    "xo_exitReason x = STOP \<Longrightarrow> p_pendingExitReason p = None \<Longrightarrow> q_bid q \<le> p_stop p"
proof -
  have "usable_quote q" if "\<not> available_exit_shares p q < Fin 1"
    using that available_exit_shares_unusable [of q p] by (cases "usable_quote q") auto
  then show "\<not> available_exit_shares p q < Fin 1" "usable_quote q"
    "xo_exitTime x = q_timestamp q" "xo_filledShares x = Some (available_exit_shares p q)"
    "xo_exitReason x = TARGET \<longleftrightarrow> p_pendingExitReason p = None \<and> p_target p \<le> q_bid q \<or>
       p_pendingExitReason p = Some TARGET"
    "p_pendingExitReason p \<noteq> None \<Longrightarrow> xo_exitReason x = the (p_pendingExitReason p)"
    "p_pendingExitReason p = None \<Longrightarrow> xo_exitReason x \<in> {TARGET, STOP}"
    "xo_exitReason x = STOP \<Longrightarrow> p_pendingExitReason p = None \<Longrightarrow> q_bid q \<le> p_stop p"
    using assms
    by (cases "p_pendingExitReason p"; auto simp: evaluate_quote_exit_def split: if_splits)+
qed

lemma resolve_session_close_Closed:
  assumes "resolve_session_close p c boundary a = SessionClosed x"
  obtains q where "c = Some q" "\<not> date_parse (q_timestamp q) < date_parse boundary" "usable_quote q"
    "\<not> available_exit_shares p q < Fin 1" "xo_exitTime x = q_timestamp q"
    "xo_filledShares x = Some (available_exit_shares p q)"
    "xo_exitReason x = (if Fin 0 < date_parse (q_timestamp q) - date_parse boundary
       then SESSION_CLOSE_DELAYED else SESSION_CLOSE)"
proof -
  obtain q where "c = Some q"
    using assms by (cases c) (auto simp: resolve_session_close_def Let_def)
  with assms show ?thesis
    by (intro that [of q])
      (auto simp: resolve_session_close_def Let_def classify_own_time split: if_splits option.splits)
qed

section \<open>Inversion of an open entry\<close>

lemma evaluate_quote_entry_open:
  assumes "evaluate_quote_entry signal quoteOpt a context decision = Inr (EntryOpen out)"
  obtains quote levels sized where "quoteOpt = Some quote"
    "classify_quote_availability (Some quote) (coalesce decision (s_signalTimestamp signal))
       (a_maxQuoteAgeSeconds a) = None"
    "derive_stop_and_target signal a = Inr levels"
    "size_entry_with_assumptions (apply_entry_slippage (q_ask quote) (a_slippageBps a))
       (l_stop levels) (l_target levels) a
       (entry_sizing_context quote (entry_execution_mode a context) (entry_latency a context) context)
       = Inr sized"
    "evaluate_economics
       \<lparr>i_marketId = Some (if map_option c_currency (a_costs a) = Some USD
            then US_EQUITIES else CA_TSX),
        i_executableEntryPrice = z_executableEntryPrice sized,
        i_stop = l_stop levels, i_target = l_target levels, i_shares = z_shares sized,
        i_spread = Some (q_ask quote - q_bid quote), i_assumptions = a\<rparr> = Inr (o_economics out)"
    "e_rejections (o_economics out) = []" "js_eq (entry_latency a context) (Fin 0)"
    "to_iso_string (math_max (math_max (date_parse (q_timestamp quote))
       (date_parse (s_signalTimestamp signal)))
       (date_parse (coalesce decision (s_signalTimestamp signal))) + entry_latency a context)
       = Inr (o_entryTime out)"
    "o_fillTime out = Some (o_entryTime out)" "o_sizing out = z_sizing sized"
    "o_stop out = l_stop levels" "o_target out = l_target levels" "o_shares out = z_shares sized"
    "o_initialRisk out = z_initialRisk sized"
    "o_executableEntryPrice out = z_executableEntryPrice sized"
    "o_executionMode out = Some (entry_execution_mode a context)"
proof -
  obtain quote where q: "quoteOpt = Some quote"
    using assms by (cases quoteOpt) (auto simp: evaluate_quote_entry_def Let_def split: if_splits)
  show ?thesis
    using assms unfolding q evaluate_quote_entry_def Let_def
    by (auto simp: bindR_eq_Inr primary_rejection_None q
      split: if_splits option.splits sum.splits intro!: that)
qed

end
