(* ===== verification/CandleExecution.thy ===== *)
theory CandleExecution
  imports Sizing
begin

text \<open>
  The supplementary one-minute candle model (\<open>paper-bot/candle-execution.ts\<close>): a synthetic
  entry from the signal's own reference price, the scan of completed bars for the first stop
  or target, and the session close. The lemmas characterise the scan: it stops at the first
  bar that touches a level, a bar that touches both resolves to the stop, and a bar that
  opens through the stop exits at its open.
\<close>

definition evaluate_candle_entry :: "signal_fact \<Rightarrow> assumptions \<Rightarrow> candle_entry_result result" where
  "evaluate_candle_entry signal a =
     (case derive_stop_and_target signal a of
        Inl reason \<Rightarrow> Inr (CandleNoFill reason)
      | Inr levels \<Rightarrow>
        (let syntheticEntryPrice =
               apply_entry_slippage (the (s_entryReference signal)) (a_slippageBps a) in
         case size_entry_with_assumptions syntheticEntryPrice (l_stop levels) (l_target levels) a None of
           Inl reason \<Rightarrow> Inr (CandleNoFill reason)
         | Inr sized \<Rightarrow>
           bindR (evaluate_economics
             \<lparr>i_marketId = Some (if map_option c_currency (a_costs a) = Some USD
                  then US_EQUITIES else CA_TSX),
              i_executableEntryPrice = z_executableEntryPrice sized,
              i_stop = l_stop levels, i_target = l_target levels, i_shares = z_shares sized,
              i_spread = None, i_assumptions = a\<rparr>)
           (\<lambda>economics. Inr (case primary_rejection economics of
              Some reason \<Rightarrow> CandleRejected reason economics
            | None \<Rightarrow> CandleOpen
                \<lparr>co_economics = economics, co_sizing = z_sizing sized,
                 co_entryTime = s_signalTimestamp signal,
                 co_stop = l_stop levels, co_target = l_target levels, co_shares = z_shares sized,
                 co_initialRisk = z_initialRisk sized,
                 co_syntheticEntryPrice = z_executableEntryPrice sized\<rparr>))))"

fun evaluate_candle_bars ::
  "open_position \<Rightarrow> candle_fact list \<Rightarrow> assumptions \<Rightarrow> candle_exit_result" where
  "evaluate_candle_bars position [] a = None"
| "evaluate_candle_bars position (candle # candles) a =
     (if k_low candle \<le> p_stop position then
        (let triggerPrice = math_min (k_open candle) (p_stop position);
             exitPrice = apply_exit_slippage triggerPrice (a_slippageBps a) in
         Some \<lparr>kx_exitReason = STOP, kx_exitTime = k_end candle,
           kx_financials = compute_closing_financials (p_entryPrice position) exitPrice
             (p_shares position) (p_initialRisk position) (CostAssumptions a)\<rparr>)
      else if p_target position \<le> k_high candle then
         Some \<lparr>kx_exitReason = TARGET, kx_exitTime = k_end candle,
           kx_financials = compute_closing_financials (p_entryPrice position) (p_target position)
             (p_shares position) (p_initialRisk position) (CostAssumptions a)\<rparr>
      else evaluate_candle_bars position candles a)"

definition resolve_candle_session_close ::
  "open_position \<Rightarrow> candle_fact option \<Rightarrow> assumptions \<Rightarrow> candle_session_close_result" where
  "resolve_candle_session_close position noonCandle a = (case noonCandle of
      None \<Rightarrow> CandleClosePending
    | Some candle \<Rightarrow>
       (let exitPrice = apply_exit_slippage (k_close candle) (a_slippageBps a) in
        CandleSessionClosed \<lparr>kx_exitReason = SESSION_CLOSE, kx_exitTime = k_end candle,
          kx_financials = compute_closing_financials (p_entryPrice position) exitPrice
            (p_shares position) (p_initialRisk position) (CostAssumptions a)\<rparr>))"

section \<open>The scan\<close>

definition touches :: "open_position \<Rightarrow> candle_fact \<Rightarrow> bool" where
  "touches position candle \<longleftrightarrow> k_low candle \<le> p_stop position \<or> p_target position \<le> k_high candle"

lemma evaluate_candle_bars_None:
  "evaluate_candle_bars p candles a = None \<longleftrightarrow> (\<forall>c \<in> set candles. \<not> touches p c)"
  by (induction candles) (auto simp: touches_def Let_def)

lemma evaluate_candle_bars_skip:
  "\<forall>c \<in> set before. \<not> touches p c \<Longrightarrow>
     evaluate_candle_bars p (before @ candles) a = evaluate_candle_bars p candles a"
  by (induction before) (auto simp: touches_def)

lemma evaluate_candle_bars_Some:
  assumes "evaluate_candle_bars p candles a = Some x"
  obtains before c after where "candles = before @ c # after" "\<forall>b \<in> set before. \<not> touches p b"
    "touches p c" "kx_exitTime x = k_end c"
    "kx_exitReason x = (if k_low c \<le> p_stop p then STOP else TARGET)"
    "kx_financials x = compute_closing_financials (p_entryPrice p)
       (if k_low c \<le> p_stop p
        then apply_exit_slippage (math_min (k_open c) (p_stop p)) (a_slippageBps a)
        else p_target p) (p_shares p) (p_initialRisk p) (CostAssumptions a)"
proof -
  have "\<exists>c \<in> set candles. touches p c"
    using assms evaluate_candle_bars_None [of p candles a] by auto
  from split_list_first_prop [OF this] obtain before c after where
    split: "candles = before @ c # after" "touches p c" "\<forall>b \<in> set before. \<not> touches p b"
    by auto
  then have e: "evaluate_candle_bars p (c # after) a = Some x"
    using assms evaluate_candle_bars_skip by metis
  show ?thesis
  proof (rule that [OF split(1,3,2)])
    show "kx_exitTime x = k_end c" "kx_exitReason x = (if k_low c \<le> p_stop p then STOP else TARGET)"
      "kx_financials x = compute_closing_financials (p_entryPrice p)
         (if k_low c \<le> p_stop p
          then apply_exit_slippage (math_min (k_open c) (p_stop p)) (a_slippageBps a)
          else p_target p) (p_shares p) (p_initialRisk p) (CostAssumptions a)"
      using e split(2) by (auto simp: touches_def Let_def split: if_splits)
  qed
qed

end
