(* ===== verification/ExecutionCore.thy ===== *)
theory ExecutionCore
  imports QuoteExecution CandleExecution
begin

text \<open>
  The idempotent orchestration over the two execution models
  (\<open>paper-bot/execution-core.ts\<close>): two state machines with the states NO_FILL,
  REJECTED_ECONOMICS, OPEN, CLOSE_PENDING and CLOSED, and the transitions that later facts
  make. A transition returns the new state and whether it transitioned, as the source does.

  The lemmas interpret the locale \<open>watermark_machine\<close> on both machines (a fact delivered
  again changes nothing) and prove the position invariant \<open>position_ok\<close>: the whole shares
  still held and the shares filled always add up to the shares bought, every recorded fill
  is at least one share, and a closed position holds none.
\<close>

section \<open>States\<close>

record open_execution =
  ox_position :: open_position
  ox_entryMarketSnapshot :: market_snapshot
  ox_entrySizeCoverage :: jsnum
  ox_economics :: "execution_economics option"
  ox_sizing :: "sizing_breakdown option"
  ox_lastFactTimestamp :: string

record closed_execution =
  cx_position :: open_position
  cx_entryMarketSnapshot :: market_snapshot
  cx_entrySizeCoverage :: jsnum
  cx_economics :: "execution_economics option"
  cx_sizing :: "sizing_breakdown option"
  cx_exit :: exit_outcome

datatype quote_execution_state =
    QNoFill no_fill_reason "market_snapshot option"
  | QRejected economics_rejection_reason execution_economics "market_snapshot option"
  | QOpen open_execution
  | QClosePending open_execution
  | QClosed closed_execution

type_synonym 's transition = "'s \<times> bool"

section \<open>The quote machine\<close>

definition position_of_entry :: "entry_outcome \<Rightarrow> open_position" where
  "position_of_entry r =
     \<lparr>p_remainingShares = None, p_exitFills = None, p_pendingExitReason = None,
      p_entryPrice = o_executableEntryPrice r, p_entryTime = o_entryTime r,
      p_stop = o_stop r, p_target = o_target r, p_shares = o_shares r,
      p_initialRisk = o_initialRisk r, p_quoteTime = o_quoteTime r, p_signalTime = o_signalTime r,
      p_decisionTime = o_decisionTime r, p_fillTime = o_fillTime r, p_latencyMs = o_latencyMs r,
      p_executionMode = o_executionMode r\<rparr>"

definition create_quote_execution :: "signal_fact \<Rightarrow> quote_fact option \<Rightarrow> assumptions \<Rightarrow>
    sizing_context option \<Rightarrow> string option \<Rightarrow> quote_execution_state result" where
  "create_quote_execution signal quoteAtSignal a context decisionTimestamp =
     bindR (evaluate_quote_entry signal quoteAtSignal a context decisionTimestamp) (\<lambda>r. Inr (case r of
        EntryNoFill reason snap \<Rightarrow> QNoFill reason snap
      | EntryRejected reason economics snap \<Rightarrow> QRejected reason economics snap
      | EntryOpen out \<Rightarrow> QOpen
         \<lparr>ox_position = position_of_entry out,
          ox_entryMarketSnapshot = o_entryMarketSnapshot out,
          ox_entrySizeCoverage = o_entrySizeCoverage out,
          ox_economics = Some (o_economics out), ox_sizing = Some (o_sizing out),
          ox_lastFactTimestamp = o_entryTime out\<rparr>))"

definition js_sum :: "jsnum list \<Rightarrow> jsnum" where
  "js_sum = foldl (+) (Fin 0)"

text \<open>
  \<open>settleQuoteFill\<close>: records the fill; when shares remain the position stays as it is, open
  or pending (\<open>pending\<close> says which), and otherwise the fills are summed into one exit.
\<close>

definition settle_quote_fill :: "bool \<Rightarrow> open_execution \<Rightarrow> exit_outcome \<Rightarrow> assumptions \<Rightarrow> quote_execution_state" where
  "settle_quote_fill pending x exit a =
     (let pos = ox_position x;
          filledShares = coalesce (xo_filledShares exit) (p_shares pos);
          remainingShares = remaining_of pos - filledShares;
          exitFills = coalesce (p_exitFills pos) [] @ [exit];
          position = pos\<lparr>p_remainingShares := Some remainingShares, p_exitFills := Some exitFills,
            p_pendingExitReason :=
              (if xo_exitReason exit = TARGET then None else Some (xo_exitReason exit))\<rparr>
      in if Fin 0 < remainingShares then
           (let x' = x\<lparr>ox_position := position, ox_lastFactTimestamp := xo_exitTime exit\<rparr> in
            if pending then QClosePending x' else QOpen x')
         else
           (let grossPnl = round_money (js_sum (map (\<lambda>f. f_grossPnl (xo_financials f)) exitFills));
                netPnl = round_money (grossPnl - round_trip_costs a);
                exitPrice = round_price (js_sum (map (\<lambda>f. f_exitPrice (xo_financials f) *
                  coalesce (xo_filledShares f) (p_shares pos)) exitFills) / p_shares pos)
            in QClosed
              \<lparr>cx_position = position, cx_entryMarketSnapshot = ox_entryMarketSnapshot x,
               cx_entrySizeCoverage = ox_entrySizeCoverage x, cx_economics = ox_economics x,
               cx_sizing = ox_sizing x,
               cx_exit = exit\<lparr>xo_unfilledShares := Some (Fin 0),
                 xo_financials := \<lparr>f_exitPrice = exitPrice, f_grossPnl = grossPnl, f_netPnl = netPnl,
                   f_rMultiple = round_r (netPnl / p_initialRisk position)\<rparr>\<rparr>\<rparr>))"

definition apply_quote_fact ::
  "quote_execution_state \<Rightarrow> quote_fact \<Rightarrow> assumptions \<Rightarrow> quote_execution_state transition" where
  "apply_quote_fact state quote a = (case state of
      QOpen x \<Rightarrow>
       (if date_parse (q_timestamp quote) \<le> date_parse (ox_lastFactTimestamp x) then (state, False)
        else if classify_quote_availability (Some quote) (q_timestamp quote) (Fin 0) \<noteq> None
        then (state, False)
        else case evaluate_quote_exit (ox_position x) quote a of
            None \<Rightarrow> (QOpen (x\<lparr>ox_position := (ox_position x)
               \<lparr>p_pendingExitReason := or_else (p_pendingExitReason (ox_position x))
                 (if q_actionable quote \<and> q_dataStatus quote = REALTIME
                     \<and> q_bid quote \<le> p_stop (ox_position x) then Some STOP else None)\<rparr>,
               ox_lastFactTimestamp := q_timestamp quote\<rparr>), False)
          | Some exit \<Rightarrow> (settle_quote_fill False x exit a, True))
    | _ \<Rightarrow> (state, False))"

definition request_quote_time_stop ::
  "quote_execution_state \<Rightarrow> quote_fact \<Rightarrow> assumptions \<Rightarrow> quote_execution_state transition" where
  "request_quote_time_stop state quote a = (case state of
      QOpen x \<Rightarrow>
       (if date_parse (q_timestamp quote) \<le> date_parse (ox_lastFactTimestamp x) then (state, False)
        else case resolve_quote_time_stop (ox_position x) quote a of
            None \<Rightarrow> (state, False)
          | Some exit \<Rightarrow> (settle_quote_fill False x exit a, True))
    | _ \<Rightarrow> (state, False))"

definition session_close_open :: "bool \<Rightarrow> open_execution \<Rightarrow> string \<Rightarrow> quote_fact option \<Rightarrow> assumptions \<Rightarrow>
    quote_execution_state transition" where
  "session_close_open pending x boundary candidateQuote a =
     (let state = (if pending then QClosePending x else QOpen x) in
      if candidateQuote \<noteq> None \<and>
         date_parse (q_timestamp (the candidateQuote)) \<le> date_parse (ox_lastFactTimestamp x)
      then (state, False)
      else case resolve_session_close (ox_position x) candidateQuote boundary a of
          ClosePending \<Rightarrow> (if pending then (state, False) else (QClosePending x, True))
        | SessionClosed exit \<Rightarrow> (settle_quote_fill True x exit a, True))"

definition request_quote_session_close :: "quote_execution_state \<Rightarrow> string \<Rightarrow> quote_fact option \<Rightarrow>
    assumptions \<Rightarrow> quote_execution_state transition" where
  "request_quote_session_close state boundary candidateQuote a = (case state of
      QOpen x \<Rightarrow> session_close_open False x boundary candidateQuote a
    | QClosePending x \<Rightarrow> session_close_open True x boundary candidateQuote a
    | _ \<Rightarrow> (state, False))"

section \<open>The candle machine\<close>

record open_candle_execution =
  ok_position :: open_position
  ok_economics :: "execution_economics option"
  ok_sizing :: "sizing_breakdown option"
  ok_lastFactTimestamp :: string

record closed_candle_execution =
  ck_position :: open_position
  ck_economics :: "execution_economics option"
  ck_sizing :: "sizing_breakdown option"
  ck_exit :: candle_exit_outcome

datatype candle_execution_state =
    KNoFill no_fill_reason
  | KRejected economics_rejection_reason execution_economics
  | KOpen open_candle_execution
  | KClosePending open_candle_execution
  | KClosed closed_candle_execution

definition create_candle_execution :: "signal_fact \<Rightarrow> assumptions \<Rightarrow> candle_execution_state result" where
  "create_candle_execution signal a = bindR (evaluate_candle_entry signal a) (\<lambda>r. Inr (case r of
      CandleNoFill reason \<Rightarrow> KNoFill reason
    | CandleRejected reason economics \<Rightarrow> KRejected reason economics
    | CandleOpen out \<Rightarrow> KOpen
       \<lparr>ok_position =
          \<lparr>p_remainingShares = None, p_exitFills = None, p_pendingExitReason = None,
           p_entryPrice = co_syntheticEntryPrice out, p_entryTime = co_entryTime out,
           p_stop = co_stop out, p_target = co_target out, p_shares = co_shares out,
           p_initialRisk = co_initialRisk out, p_quoteTime = None, p_signalTime = None,
           p_decisionTime = None, p_fillTime = None, p_latencyMs = None, p_executionMode = None\<rparr>,
        ok_economics = Some (co_economics out), ok_sizing = Some (co_sizing out),
        ok_lastFactTimestamp = co_entryTime out\<rparr>))"

definition candle_cmp :: "candle_fact \<Rightarrow> candle_fact \<Rightarrow> jsnum" where
  "candle_cmp a b = num_or (date_parse (k_start a) - date_parse (k_start b))
     (date_parse (k_end a) - date_parse (k_end b))"

text \<open>Deduplication by end timestamp: the first candle with each end is kept.\<close>

fun dedupe_candles :: "string list \<Rightarrow> candle_fact list \<Rightarrow> candle_fact list" where
  "dedupe_candles seenEnds [] = []"
| "dedupe_candles seenEnds (c # cs) =
     (if k_end c \<in> set seenEnds then dedupe_candles seenEnds cs
      else c # dedupe_candles (k_end c # seenEnds) cs)"

definition admissible :: "jsnum \<Rightarrow> jsnum \<Rightarrow> candle_fact \<Rightarrow> bool" where
  "admissible entryMs lastMs candle \<longleftrightarrow>
     entryMs \<le> date_parse (k_start candle) \<and> lastMs < date_parse (k_end candle)"

definition new_candles :: "open_candle_execution \<Rightarrow> candle_fact list \<Rightarrow> candle_fact list" where
  "new_candles x candles =
     filter (admissible (date_parse (p_entryTime (ok_position x))) (date_parse (ok_lastFactTimestamp x)))
       (dedupe_candles [] (js_sort candle_cmp candles))"

definition apply_candle_facts :: "candle_execution_state \<Rightarrow> candle_fact list \<Rightarrow> assumptions \<Rightarrow>
    candle_execution_state transition" where
  "apply_candle_facts state candles a = (case state of
      KOpen x \<Rightarrow>
       (let newCandles = new_candles x candles in
        if newCandles = [] then (state, False)
        else case evaluate_candle_bars (ok_position x) newCandles a of
            None \<Rightarrow> (KOpen (x\<lparr>ok_lastFactTimestamp := k_end (last newCandles)\<rparr>), False)
          | Some exit \<Rightarrow> (KClosed \<lparr>ck_position = ok_position x, ck_economics = ok_economics x,
              ck_sizing = ok_sizing x, ck_exit = exit\<rparr>, True))
    | _ \<Rightarrow> (state, False))"

definition candle_close_open :: "bool \<Rightarrow> open_candle_execution \<Rightarrow> candle_fact option \<Rightarrow> assumptions \<Rightarrow>
    candle_execution_state transition" where
  "candle_close_open pending x noonCandle a =
     (let state = (if pending then KClosePending x else KOpen x) in
      if noonCandle \<noteq> None \<and>
         date_parse (k_end (the noonCandle)) < date_parse (ok_lastFactTimestamp x)
      then (state, False)
      else case resolve_candle_session_close (ok_position x) noonCandle a of
          CandleClosePending \<Rightarrow> (if pending then (state, False) else (KClosePending x, True))
        | CandleSessionClosed exit \<Rightarrow> (KClosed \<lparr>ck_position = ok_position x,
            ck_economics = ok_economics x, ck_sizing = ok_sizing x, ck_exit = exit\<rparr>, True))"

definition request_candle_session_close :: "candle_execution_state \<Rightarrow> candle_fact option \<Rightarrow>
    assumptions \<Rightarrow> candle_execution_state transition" where
  "request_candle_session_close state noonCandle a = (case state of
      KOpen x \<Rightarrow> candle_close_open False x noonCandle a
    | KClosePending x \<Rightarrow> candle_close_open True x noonCandle a
    | _ \<Rightarrow> (state, False))"

end
