(* ===== verification/ExecutionLemmas.thy ===== *)
theory ExecutionLemmas
  imports ExecutionCore
begin

text \<open>
  The invariants of the two execution machines. \<open>position_ok\<close> is share conservation;
  \<open>quote_state_ok\<close> lifts it to the states; every transition keeps it. The interpretations
  \<open>quote_machine\<close> and \<open>candle_machine\<close> of \<open>watermark_machine\<close> give idempotence under
  redelivery, \<open>candle_order\<close> of \<open>keyed_comparator\<close> gives independence of the delivery order.
\<close>

section \<open>Share conservation\<close>

definition fills_of :: "open_position \<Rightarrow> exit_outcome list" where
  "fills_of p = coalesce (p_exitFills p) []"

definition fill_shares :: "exit_outcome \<Rightarrow> int" where
  "fill_shares f = int_of (coalesce (xo_filledShares f) (Fin 0))"

definition position_ok :: "open_position \<Rightarrow> bool" where
  "position_ok p \<longleftrightarrow> whole (p_shares p) \<and> 1 \<le> int_of (p_shares p) \<and> whole (remaining_of p) \<and>
     list_all (\<lambda>f. 1 \<le> fill_shares f) (fills_of p) \<and>
     sum_list (map fill_shares (fills_of p)) + int_of (remaining_of p) = int_of (p_shares p)"

fun quote_state_ok :: "quote_execution_state \<Rightarrow> bool" where
  "quote_state_ok (QOpen x) \<longleftrightarrow> position_ok (ox_position x) \<and> 0 < int_of (remaining_of (ox_position x))"
| "quote_state_ok (QClosePending x) \<longleftrightarrow> position_ok (ox_position x) \<and> 0 < int_of (remaining_of (ox_position x))"
| "quote_state_ok (QClosed x) \<longleftrightarrow> position_ok (cx_position x) \<and> remaining_of (cx_position x) = Fin 0"
| "quote_state_ok s \<longleftrightarrow> True"

lemma position_okE:
  assumes "position_ok p"
  obtains n r where "p_shares p = num n" "1 \<le> n" "n \<le> 2 ^ 53" "remaining_of p = num r" "0 \<le> r"
    "r \<le> n" "sum_list (map fill_shares (fills_of p)) + r = n"
    "\<forall>f \<in> set (fills_of p). 1 \<le> fill_shares f"
proof -
  from assms obtain n where n: "p_shares p = num n" "n \<le> 2 ^ 53" "1 \<le> n"
    by (auto simp: position_ok_def elim!: wholeE)
  from assms obtain r where r: "remaining_of p = num r" "0 \<le> r"
    by (auto simp: position_ok_def elim!: wholeE)
  have f: "\<forall>f \<in> set (fills_of p). 1 \<le> fill_shares f"
    using assms by (simp add: position_ok_def list_all_iff)
  have s: "sum_list (map fill_shares (fills_of p)) + r = n"
    using assms n(1) r(1) by (simp add: position_ok_def)
  have "0 \<le> sum_list (map fill_shares (fills_of p))"
    using f by (intro sum_list_nonneg) force
  then have "r \<le> n" using s by linarith
  with n r f s that show ?thesis by blast
qed

lemma settle_quote_fill_ok:
  assumes "position_ok (ox_position x)" "xo_filledShares exit = Some (num k)" "1 \<le> k"
    "remaining_of (ox_position x) = num r" "k \<le> r"
  shows "quote_state_ok (settle_quote_fill pending x exit a)"
proof -
  let ?p = "ox_position x"
  obtain n r' where n': "p_shares ?p = num n" "1 \<le> n" "n \<le> 2 ^ 53" "remaining_of ?p = num r'" "0 \<le> r'"
    "r' \<le> n" "sum_list (map fill_shares (fills_of ?p)) + r' = n"
    "\<forall>f \<in> set (fills_of ?p). 1 \<le> fill_shares f"
    using assms(1) by (rule position_okE)
  have "r' = r" using n'(4) assms(4) by simp
  note n = n' [unfolded this]
  define m where "m = r - k"
  have m: "0 \<le> m" "m \<le> 2 ^ 53" "m + k = r" using n assms by (auto simp: m_def)
  have d: "num r - num k = num m" unfolding m_def using n assms by (intro num_diff) auto
  have k: "fill_shares exit = k" by (simp add: fill_shares_def assms(2))
  define pos where "pos = ?p\<lparr>p_remainingShares := Some (num m),
     p_exitFills := Some (fills_of ?p @ [exit]),
     p_pendingExitReason := (if xo_exitReason exit = TARGET then None else Some (xo_exitReason exit))\<rparr>"
  have rem: "remaining_of pos = num m" and "fills_of pos = fills_of ?p @ [exit]" "p_shares pos = num n"
    using n(1) by (simp_all add: pos_def remaining_of_def fills_of_def)
  then have ok: "position_ok pos"
    using n assms k m by (simp add: position_ok_def list_all_iff)
  show ?thesis
    unfolding settle_quote_fill_def Let_def assms(2) coalesce_simps assms(4) d
    using ok rem m unfolding pos_def fills_of_def by auto
qed

lemma evaluate_exit_fill:
  assumes "position_ok p" "\<not> available_exit_shares p q < Fin 1"
  obtains k r where "available_exit_shares p q = num k" "1 \<le> k" "remaining_of p = num r" "k \<le> r"
proof -
  obtain r where r: "remaining_of p = num r" "0 \<le> r" using position_okE [OF assms(1)] by metis
  obtain k where k: "available_exit_shares p q = num k" "0 \<le> k" "k \<le> r"
    using available_exit_shares_num [OF r] by metis
  have "1 \<le> k" using assms(2) k(1) by simp
  with r k that show ?thesis by blast
qed

lemma position_ok_pending [simp]:
  "position_ok (p\<lparr>p_pendingExitReason := r\<rparr>) = position_ok p"
  "remaining_of (p\<lparr>p_pendingExitReason := r\<rparr>) = remaining_of p"
  by (simp_all add: position_ok_def remaining_of_def fills_of_def)

lemma apply_quote_fact_ok:
  assumes "quote_state_ok s"
  shows "quote_state_ok (fst (apply_quote_fact s q a))"
proof (cases s)
  case (QOpen x)
  show ?thesis
  proof (cases "evaluate_quote_exit (ox_position x) q a")
    case None
    then show ?thesis using assms QOpen by (simp add: apply_quote_fact_def)
  next
    case (Some exit)
    have p: "position_ok (ox_position x)" using assms QOpen by simp
    note e = evaluate_quote_exit_Some [OF Some]
    obtain k r where kr: "available_exit_shares (ox_position x) q = num k" "1 \<le> k"
      "remaining_of (ox_position x) = num r" "k \<le> r"
      using evaluate_exit_fill [OF p e(1)] by metis
    have "quote_state_ok (settle_quote_fill False x exit a)"
      using settle_quote_fill_ok [OF p _ kr(2,3,4)] e(4) kr(1) by simp
    then show ?thesis using assms QOpen Some by (simp add: apply_quote_fact_def)
  qed
qed (use assms in \<open>auto simp: apply_quote_fact_def\<close>)

lemma resolve_quote_time_stop_Some:
  assumes "resolve_quote_time_stop p q a = Some exit"
  shows "\<not> available_exit_shares p q < Fin 1" "xo_filledShares exit = Some (available_exit_shares p q)"
    "xo_exitReason exit = TIME_STOP" "xo_exitTime exit = q_timestamp q"
  using assms by (auto simp: resolve_quote_time_stop_def split: if_splits)

lemma request_quote_time_stop_ok:
  assumes "quote_state_ok s"
  shows "quote_state_ok (fst (request_quote_time_stop s q a))"
proof (cases s)
  case (QOpen x)
  show ?thesis
  proof (cases "resolve_quote_time_stop (ox_position x) q a")
    case None
    then show ?thesis using assms QOpen by (simp add: request_quote_time_stop_def)
  next
    case (Some exit)
    have p: "position_ok (ox_position x)" using assms QOpen by simp
    note e = resolve_quote_time_stop_Some [OF Some]
    obtain k r where kr: "available_exit_shares (ox_position x) q = num k" "1 \<le> k"
      "remaining_of (ox_position x) = num r" "k \<le> r"
      using evaluate_exit_fill [OF p e(1)] by metis
    have "quote_state_ok (settle_quote_fill False x exit a)"
      using settle_quote_fill_ok [OF p _ kr(2,3,4)] e(2) kr(1) by simp
    then show ?thesis using assms QOpen Some by (simp add: request_quote_time_stop_def)
  qed
qed (use assms in \<open>auto simp: request_quote_time_stop_def\<close>)

lemma session_close_open_ok:
  assumes "position_ok (ox_position x)" "0 < int_of (remaining_of (ox_position x))"
  shows "quote_state_ok (fst (session_close_open pending x boundary c a))"
proof (cases "resolve_session_close (ox_position x) c boundary a")
  case ClosePending
  then show ?thesis using assms by (simp add: session_close_open_def Let_def)
next
  case (SessionClosed exit)
  obtain q where q: "\<not> available_exit_shares (ox_position x) q < Fin 1"
    "xo_filledShares exit = Some (available_exit_shares (ox_position x) q)"
    using resolve_session_close_Closed [OF SessionClosed] by metis
  obtain k r where kr: "available_exit_shares (ox_position x) q = num k" "1 \<le> k"
    "remaining_of (ox_position x) = num r" "k \<le> r"
    using evaluate_exit_fill [OF assms(1) q(1)] by metis
  have "quote_state_ok (settle_quote_fill True x exit a)"
    using settle_quote_fill_ok [OF assms(1) _ kr(2,3,4)] q(2) kr(1) by simp
  then show ?thesis using assms SessionClosed by (simp add: session_close_open_def Let_def)
qed

lemma request_quote_session_close_ok:
  "quote_state_ok s \<Longrightarrow> quote_state_ok (fst (request_quote_session_close s boundary c a))"
  by (cases s) (auto simp: request_quote_session_close_def intro: session_close_open_ok)

section \<open>The quote machine is fed at least once\<close>

definition quote_step :: "assumptions \<Rightarrow> quote_execution_state \<Rightarrow> quote_fact \<Rightarrow> quote_execution_state" where
  "quote_step a s q = fst (apply_quote_fact s q a)"

fun quote_final :: "quote_execution_state \<Rightarrow> bool" where
  "quote_final (QOpen x) = False"
| "quote_final s = True"

fun quote_fresh :: "quote_execution_state \<Rightarrow> quote_fact \<Rightarrow> bool" where
  "quote_fresh (QOpen x) q \<longleftrightarrow> \<not> date_parse (q_timestamp q) \<le> date_parse (ox_lastFactTimestamp x)"
| "quote_fresh s q \<longleftrightarrow> False"

text \<open>After a quote step the state is the same, final, or has the quote's time as watermark.\<close>

lemma settle_watermark:
  "quote_final (settle_quote_fill False x exit a) \<or>
     (\<exists>x'. settle_quote_fill False x exit a = QOpen x' \<and> ox_lastFactTimestamp x' = xo_exitTime exit)"
  by (simp add: settle_quote_fill_def Let_def)

lemma quote_step_cases:
  obtains "quote_step a s q = s" "\<not> quote_fresh s q \<or> \<not> usable_quote q"
  | "quote_final (quote_step a s q)" "usable_quote q" "quote_fresh s q"
  | x x' where "s = QOpen x" "quote_step a s q = QOpen x'" "usable_quote q" "quote_fresh s q"
      "ox_lastFactTimestamp x' = q_timestamp q"
proof (cases s)
  case (QOpen x)
  show ?thesis
  proof (cases "quote_fresh s q \<and> usable_quote q")
    case False
    then have "quote_step a s q = s"
      using QOpen by (auto simp: quote_step_def apply_quote_fact_def usable_quote_def)
    with False show ?thesis using that(1) by blast
  next
    case True
    then have f: "\<not> date_parse (q_timestamp q) \<le> date_parse (ox_lastFactTimestamp x)"
      "classify_quote_availability (Some q) (q_timestamp q) (Fin 0) = None"
      using QOpen by (auto simp: usable_quote_def)
    show ?thesis
    proof (cases "evaluate_quote_exit (ox_position x) q a")
      case None
      then show ?thesis using that(3) [OF QOpen] True f
        by (simp add: QOpen quote_step_def apply_quote_fact_def)
    next
      case (Some exit)
      then have "quote_step a s q = settle_quote_fill False x exit a"
        using f by (simp add: QOpen quote_step_def apply_quote_fact_def)
      then show ?thesis
        using settle_watermark [of x exit a] evaluate_quote_exit_Some(3) [OF Some] that(2,3) True QOpen
        by metis
    qed
  qed
qed (use that(1) in \<open>auto simp: quote_step_def apply_quote_fact_def\<close>)

lemma quote_absorb: "quote_final s \<Longrightarrow> quote_step a s q = s"
  by (cases s) (simp_all add: quote_step_def apply_quote_fact_def)

lemma quote_stale: "\<not> quote_fresh s q \<Longrightarrow> quote_step a s q = s"
  by (cases s) (simp_all add: quote_step_def apply_quote_fact_def)

lemma quote_unusable: "\<not> usable_quote q \<Longrightarrow> quote_step a s q = s"
  by (cases rule: quote_step_cases [of a s q]) auto

lemma quote_taken:
  assumes "usable_quote q"
  shows "quote_final (quote_step a s q) \<or> \<not> quote_fresh (quote_step a s q) q"
proof (cases rule: quote_step_cases [of a s q])
  case (3 x x')
  obtain t where "date_parse (q_timestamp q) = num t"
    using usable_quoteD(11) [OF assms] by (rule date_parse_finite)
  with 3 show ?thesis by simp
qed (use assms in auto)

lemma quote_fresh_mono:
  assumes "\<not> quote_fresh s q"
  shows "quote_final (quote_step a s q') \<or> \<not> quote_fresh (quote_step a s q') q"
proof (cases rule: quote_step_cases [of a s q'])
  case (3 x x')
  have q: "date_parse (q_timestamp q) \<le> date_parse (ox_lastFactTimestamp x)"
    using assms 3 by simp
  have q': "\<not> date_parse (q_timestamp q') \<le> date_parse (ox_lastFactTimestamp x)"
    using 3 by simp
  obtain t where t: "date_parse (q_timestamp q') = num t"
    using usable_quoteD(11) [OF 3(3)] by (rule date_parse_finite)
  have "date_parse (q_timestamp q) \<le> date_parse (q_timestamp q')"
    using q q' t
    by (cases "date_parse (q_timestamp q)"; cases "date_parse (ox_lastFactTimestamp x)") auto
  with 3 show ?thesis by simp
qed (use assms in auto)

interpretation quote_machine: watermark_machine "quote_step a" quote_final quote_fresh "\<lambda>q. True" for a
proof
  show "quote_final s \<Longrightarrow> quote_step a s e = s" for s e by (rule quote_absorb)
  show "\<not> quote_fresh s e \<Longrightarrow> quote_step a s e = s" for s e by (rule quote_stale)
  show "(\<forall>s. quote_step a s e = s) \<or> quote_final (quote_step a s e) \<or> \<not> quote_fresh (quote_step a s e) e"
    for s e using quote_taken [of e a s] quote_unusable [of e a] by blast
  show "\<not> quote_fresh s e \<Longrightarrow> quote_final (quote_step a s e') \<or> \<not> quote_fresh (quote_step a s e') e"
    for s e e' by (rule quote_fresh_mono)
qed

section \<open>Candle batches\<close>

definition candle_key :: "candle_fact \<Rightarrow> int \<times> int" where
  "candle_key c = (int_of (date_parse (k_start c)), int_of (date_parse (k_end c)))"

definition candle_ok :: "candle_fact \<Rightarrow> bool" where
  "candle_ok c \<longleftrightarrow> is_finite (date_parse (k_start c)) \<and> is_finite (date_parse (k_end c))"

lemma time_diff: "\<bar>a\<bar> \<le> max_time \<Longrightarrow> \<bar>b\<bar> \<le> max_time \<Longrightarrow> \<exists>d. num a - num b = Fin d \<and> (0 < d \<longleftrightarrow> b < a) \<and> (d = 0 \<longleftrightarrow> a = b)"
proof -
  assume ab: "\<bar>a\<bar> \<le> max_time" "\<bar>b\<bar> \<le> max_time"
  have r: "\<bar>rat_of_int (a - b)\<bar> \<le> 2 ^ 900"
  proof -
    have "\<bar>a - b\<bar> \<le> 2 ^ 60" using ab by (simp add: max_time_def)
    then have "\<bar>rat_of_int (a - b)\<bar> \<le> 2 ^ 60"
      by (metis of_int_abs of_int_le_iff of_int_numeral of_int_power)
    also have "\<dots> \<le> 2 ^ 900" by (rule power_increasing) auto
    finally show ?thesis .
  qed
  have e: "num a - num b = Fin (fl (of_int (a - b)))"
    using js_small [OF r] by (simp add: minus_jsnum_def)
  have one: "1 \<le> fl (of_int d)" if "1 \<le> d" for d :: int
    using fl_mono [of 1 "of_int d"] fl_of_int [of 1] that by simp
  have p: "1 \<le> fl (of_int (a - b))" if "b < a" using one [of "a - b"] that by simp
  have "fl (of_int (a - b)) \<le> - 1" if "a < b"
    using fl_mono [of "of_int (a - b)" "- 1"] fl_uminus [of 1] fl_of_int [of 1] that by simp
  with p e show ?thesis
    by (intro exI [of _ "fl (of_int (a - b))"]) (cases a b rule: linorder_cases, auto)
qed

lemma candle_cmp_key:
  assumes "candle_ok x" "candle_ok y"
  shows "Fin 0 < candle_cmp x y \<longleftrightarrow> candle_key y < candle_key x"
proof -
  obtain sx where sx: "date_parse (k_start x) = num sx" "\<bar>sx\<bar> \<le> max_time"
    using assms by (auto simp: candle_ok_def elim: date_parse_finite)
  obtain ex where ex: "date_parse (k_end x) = num ex" "\<bar>ex\<bar> \<le> max_time"
    using assms by (auto simp: candle_ok_def elim: date_parse_finite)
  obtain sy where sy: "date_parse (k_start y) = num sy" "\<bar>sy\<bar> \<le> max_time"
    using assms by (auto simp: candle_ok_def elim: date_parse_finite)
  obtain ey where ey: "date_parse (k_end y) = num ey" "\<bar>ey\<bar> \<le> max_time"
    using assms by (auto simp: candle_ok_def elim: date_parse_finite)
  obtain d where d: "num sx - num sy = Fin d" "0 < d \<longleftrightarrow> sy < sx" "d = 0 \<longleftrightarrow> sx = sy"
    using time_diff [OF sx(2) sy(2)] by auto
  obtain e where e: "num ex - num ey = Fin e" "0 < e \<longleftrightarrow> ey < ex"
    using time_diff [OF ex(2) ey(2)] by auto
  show ?thesis
    by (auto simp: candle_cmp_def num_or_def sx sy ex ey d e candle_key_def)
qed

interpretation candle_order: keyed_comparator candle_cmp candle_key candle_ok
  by unfold_locales (rule candle_cmp_key)

lemma new_candles_permutation:
  assumes "mset xs = mset ys" "\<forall>c \<in> set xs. candle_ok c" "inj_on candle_key (set xs)"
  shows "new_candles x xs = new_candles x ys"
  using candle_order.js_sort_permutation [OF assms(2,1,3)] by (simp add: new_candles_def)

lemma dedupe_subset: "set (dedupe_candles seen cs) \<subseteq> set cs"
  by (induction seen cs rule: dedupe_candles.induct) auto

lemma dedupe_distinct_ends:
  "distinct (map k_end (dedupe_candles seen cs)) \<and> set (map k_end (dedupe_candles seen cs)) \<inter> set seen = {}"
  by (induction seen cs rule: dedupe_candles.induct) auto

lemma dedupe_sorted: "sorted (map f cs) \<Longrightarrow> sorted (map f (dedupe_candles seen cs))"
proof (induction seen cs rule: dedupe_candles.induct)
  case (2 seen c cs)
  then show ?case using dedupe_subset [of "k_end c # seen" cs] by auto
qed simp

lemma new_candles_sorted:
  assumes "\<forall>c \<in> set cs. candle_ok c"
  shows "sorted (map candle_key (new_candles x cs))"
  unfolding new_candles_def
  by (intro sorted_filter dedupe_sorted candle_order.js_sort_sorted assms)

lemma new_candles_admissible:
  "c \<in> set (new_candles x cs) \<Longrightarrow> c \<in> set cs \<and>
     date_parse (p_entryTime (ok_position x)) \<le> date_parse (k_start c) \<and>
     date_parse (ok_lastFactTimestamp x) < date_parse (k_end c)"
  using dedupe_subset [of "[]" "js_sort candle_cmp cs"]
  by (auto simp: new_candles_def admissible_def)

section \<open>The candle machine is fed at least once\<close>

definition candle_step :: "assumptions \<Rightarrow> candle_execution_state \<Rightarrow> candle_fact list \<Rightarrow> candle_execution_state" where
  "candle_step a s cs = fst (apply_candle_facts s cs a)"

fun candle_final :: "candle_execution_state \<Rightarrow> bool" where
  "candle_final (KOpen x) = False"
| "candle_final s = True"

fun candle_fresh :: "candle_execution_state \<Rightarrow> candle_fact list \<Rightarrow> bool" where
  "candle_fresh (KOpen x) cs \<longleftrightarrow> new_candles x cs \<noteq> []"
| "candle_fresh s cs \<longleftrightarrow> False"

text \<open>Bars whose ends are ordered as their starts, as bars of one length are.\<close>

definition regular_batch :: "candle_fact list \<Rightarrow> bool" where
  "regular_batch cs \<longleftrightarrow> (\<forall>c \<in> set cs. candle_ok c) \<and>
     (\<forall>c \<in> set cs. \<forall>d \<in> set cs. fst (candle_key c) \<le> fst (candle_key d) \<longrightarrow>
        snd (candle_key c) \<le> snd (candle_key d))"

lemma candle_step_cases:
  obtains "candle_step a s cs = s" "\<not> candle_fresh s cs"
  | "candle_final (candle_step a s cs)"
  | x where "s = KOpen x" "new_candles x cs \<noteq> []"
      "candle_step a s cs = KOpen (x\<lparr>ok_lastFactTimestamp := k_end (last (new_candles x cs))\<rparr>)"
proof (cases s)
  case (KOpen x)
  show ?thesis
  proof (cases "new_candles x cs = []")
    case True
    with KOpen that(1) show ?thesis by (simp add: candle_step_def apply_candle_facts_def)
  next
    case False
    then show ?thesis
      using KOpen that(2,3) by (cases "evaluate_candle_bars (ok_position x) (new_candles x cs) a")
        (auto simp: candle_step_def apply_candle_facts_def)
  qed
qed (use that(1) in \<open>auto simp: candle_step_def apply_candle_facts_def\<close>)

lemma new_candles_monotone:
  assumes "new_candles x cs = []" "date_parse (ok_lastFactTimestamp x) < date_parse t"
  shows "new_candles (x\<lparr>ok_lastFactTimestamp := t\<rparr>) cs = []"
  using assms by (auto simp: new_candles_def filter_empty_conv admissible_def dest: js_less_trans)

lemma candle_fresh_mono:
  assumes "\<not> candle_fresh s cs"
  shows "candle_final (candle_step a s cs') \<or> \<not> candle_fresh (candle_step a s cs') cs"
proof (cases rule: candle_step_cases [of a s cs'])
  case (3 x)
  have "last (new_candles x cs') \<in> set (new_candles x cs')" using 3 by simp
  then have "date_parse (ok_lastFactTimestamp x) < date_parse (k_end (last (new_candles x cs')))"
    using new_candles_admissible by blast
  with assms 3 new_candles_monotone show ?thesis by simp
qed (use assms in auto)

lemma last_is_greatest:
  "sorted (map f xs) \<Longrightarrow> x \<in> set xs \<Longrightarrow> f x \<le> f (last xs)"
  by (induction xs) auto

lemma candle_taken:
  assumes "regular_batch cs"
  shows "candle_final (candle_step a s cs) \<or> \<not> candle_fresh (candle_step a s cs) cs"
proof (cases rule: candle_step_cases [of a s cs])
  case (3 x)
  let ?new = "new_candles x cs" and ?x' = "x\<lparr>ok_lastFactTimestamp := k_end (last (new_candles x cs))\<rparr>"
  have ok: "\<forall>c \<in> set cs. candle_ok c" using assms by (simp add: regular_batch_def)
  have l: "last ?new \<in> set ?new" using 3 by simp
  have lc: "last ?new \<in> set cs" using new_candles_admissible [OF l] by simp
  have "new_candles ?x' cs = []"
  proof (rule ccontr)
    assume "new_candles ?x' cs \<noteq> []"
    then obtain c where c: "c \<in> set (new_candles ?x' cs)" by (cases "new_candles ?x' cs") auto
    note ad = new_candles_admissible [OF c]
    have lt: "date_parse (k_end (last ?new)) < date_parse (k_end c)" using ad by simp
    then have "date_parse (ok_lastFactTimestamp x) < date_parse (k_end c)"
      using new_candles_admissible [OF l] js_less_trans by blast
    then have "c \<in> set ?new" using c by (auto simp: new_candles_def admissible_def)
    then have "candle_key c \<le> candle_key (last ?new)"
      using last_is_greatest [OF new_candles_sorted [OF ok]] by blast
    then have "fst (candle_key c) \<le> fst (candle_key (last ?new))" by (auto simp: less_eq_prod_def)
    then have "snd (candle_key c) \<le> snd (candle_key (last ?new))"
      using assms ad lc by (simp add: regular_batch_def)
    moreover obtain t where "date_parse (k_end c) = num t"
      using ok ad by (auto simp: candle_ok_def elim: date_parse_finite)
    moreover obtain u where "date_parse (k_end (last ?new)) = num u"
      using ok lc by (auto simp: candle_ok_def elim: date_parse_finite)
    ultimately show False using lt by (simp add: candle_key_def)
  qed
  with 3 show ?thesis by simp
qed (use assms in auto)

lemma candle_absorb: "candle_final s \<Longrightarrow> candle_step a s cs = s"
  by (cases s) (simp_all add: candle_step_def apply_candle_facts_def)

lemma candle_stale: "\<not> candle_fresh s cs \<Longrightarrow> candle_step a s cs = s"
  by (cases s) (simp_all add: candle_step_def apply_candle_facts_def)

interpretation candle_machine: watermark_machine "candle_step a" candle_final candle_fresh regular_batch for a
proof
  show "candle_final s \<Longrightarrow> candle_step a s e = s" for s e by (rule candle_absorb)
  show "\<not> candle_fresh s e \<Longrightarrow> candle_step a s e = s" for s e by (rule candle_stale)
  show "regular_batch e \<Longrightarrow>
      (\<forall>s. candle_step a s e = s) \<or> candle_final (candle_step a s e) \<or> \<not> candle_fresh (candle_step a s e) e"
    for s e using candle_taken [of e a s] by blast
  show "\<not> candle_fresh s e \<Longrightarrow> candle_final (candle_step a s e') \<or> \<not> candle_fresh (candle_step a s e') e"
    for s e e' by (rule candle_fresh_mono)
qed

end
