(* ===== verification/Fixtures.thy ===== *)
theory Fixtures
  imports ExecutionCore
begin

text \<open>
  One trading situation with concrete numbers, in the shape of the unit tests of the
  repository: a signal at 100 with its stop at 99 and its target at 103, a quote of
  99.98 / 100 for 800 and 500 shares one second later, a 10,000 dollar position and a risk
  budget of 250 dollars. The witnesses of the properties evaluate the model on it.
\<close>

definition sample_time :: "string \<Rightarrow> string" where
  "sample_time hms = ''2026-09-04T'' @ hms @ ''.000Z''"

definition sample_signal :: signal_fact where
  "sample_signal = \<lparr>s_entryReference = Some (num 100), s_stopReference = Some (num 99),
     s_targetReference = Some (num 103), s_atr14 = None,
     s_signalTimestamp = sample_time ''14:30:00''\<rparr>"

definition sample_quote :: "string \<Rightarrow> int \<Rightarrow> int \<Rightarrow> quote_fact" where
  "sample_quote hms bid ask = \<lparr>q_timestamp = sample_time hms, q_bid = num bid, q_ask = num ask,
     q_bidSize = num 800, q_askSize = num 500, q_sizeUnit = Some SHARES, q_sizeMultiplier = None,
     q_dataStatus = REALTIME, q_actionable = True\<rparr>"

definition sample_gates :: economics_gates where
  "sample_gates = \<lparr>g_minNetRewardRisk = Fin 1, g_minStopFrictionMultiple = Fin 1,
     g_minTargetFrictionMultiple = Fin 1, g_maxSpreadPct = Fin 2\<rparr>"

definition sample_costs :: cost_snapshot where
  "sample_costs = \<lparr>c_entryCommission = Fin 1, c_exitCommission = Fin 1,
     c_estimatedRegulatoryFees = Fin 0, c_slippageBps = Fin 0, c_currency = CAD,
     c_brokerPricingVersion = ''sample''\<rparr>"

definition sample_assumptions :: assumptions where
  "sample_assumptions = \<lparr>a_positionSize = num 10000, a_slippageBps = Fin 0, a_feePerTrade = Fin 1,
     a_costs = Some sample_costs, a_riskBudget = Some (num 250), a_maxNotional = None,
     a_economics = Some sample_gates, a_stopMethod = STRUCTURAL, a_atrStopMultiple = Fin 1,
     a_rewardRiskRatio = None, a_maxQuoteAgeSeconds = Fin 5, a_sessionTimezone = ''America/Toronto'',
     a_noonCloseTime = ''12:00'', a_executionMode = Some CAPACITY_CONSTRAINED, a_latencyMs = None,
     a_evidenceScope = None\<rparr>"

definition sample_created :: "quote_execution_state result" where
  "sample_created = create_quote_execution sample_signal (Some (sample_quote ''14:29:59'' 100 100))
     sample_assumptions None None"

text \<open>The open execution of a result, if it is one.\<close>

definition open_of :: "quote_execution_state result \<Rightarrow> open_execution option" where
  "open_of r = (case r of Inr (QOpen x) \<Rightarrow> Some x | _ \<Rightarrow> None)"

lemma open_of_Some: "open_of r = Some x \<longleftrightarrow> r = Inr (QOpen x)"
  by (auto simp: open_of_def split: sum.splits quote_execution_state.splits)

lemma sample_created_position: "map_option (\<lambda>x. (p_shares (ox_position x), p_entryPrice (ox_position x),
     p_stop (ox_position x), p_target (ox_position x), p_pendingExitReason (ox_position x),
     ox_lastFactTimestamp x)) (open_of sample_created) =
   Some (num 100, num 100, num 99, num 103, None, sample_time ''14:30:00'')"
  by code_simp

text \<open>The position of that execution written out, with a committed exit reason or without.\<close>

definition sample_position :: "exit_reason option \<Rightarrow> open_position" where
  "sample_position pending = \<lparr>p_remainingShares = None, p_exitFills = None,
     p_pendingExitReason = pending, p_entryPrice = num 100, p_entryTime = sample_time ''14:30:00'',
     p_stop = num 99, p_target = num 103, p_shares = num 100, p_initialRisk = num 102,
     p_quoteTime = Some (sample_time ''14:29:59''), p_signalTime = Some (sample_time ''14:30:00''),
     p_decisionTime = Some (sample_time ''14:30:00''), p_fillTime = Some (sample_time ''14:30:00''),
     p_latencyMs = Some (Fin 0), p_executionMode = Some CAPACITY_CONSTRAINED\<rparr>"

definition sample_execution :: "exit_reason option \<Rightarrow> open_execution" where
  "sample_execution pending = \<lparr>ox_position = sample_position pending,
     ox_entryMarketSnapshot = snapshot_of (sample_quote ''14:29:59'' 100 100) (sample_time ''14:30:00'')
       (Some (sample_time ''14:30:00'')) (Some (sample_time ''14:30:00'')) (Some (Fin 0))
       (Some CAPACITY_CONSTRAINED),
     ox_entrySizeCoverage = Fin 5, ox_economics = None, ox_sizing = None,
     ox_lastFactTimestamp = sample_time ''14:30:00''\<rparr>"

definition sample_candle :: "string \<Rightarrow> string \<Rightarrow> int \<Rightarrow> int \<Rightarrow> candle_fact" where
  "sample_candle start_hms end_hms low high = \<lparr>k_start = sample_time start_hms,
     k_end = sample_time end_hms, k_open = num 100, k_high = num high, k_low = num low,
     k_close = num 100\<rparr>"

definition sample_candle_execution :: open_candle_execution where
  "sample_candle_execution = \<lparr>ok_position = sample_position None, ok_economics = None,
     ok_sizing = None, ok_lastFactTimestamp = sample_time ''14:30:00''\<rparr>"

text \<open>The stop of that position, hit by a bid of 98.\<close>

definition sample_exit :: exit_outcome where
  "sample_exit = exit_of (sample_position None) (sample_quote ''14:31:00'' 98 99) sample_assumptions
     STOP (num 98) None"

end
