(* ===== verification/ExecutionProperties.thy ===== *)
theory ExecutionProperties
  imports ExecutionLemmas Fixtures
begin

text \<open>
  What the execution machines guarantee over whole histories. \<open>quote_moves\<close> is the step
  relation of the quote machine: any quote, time stop or session-close request, under any
  assumptions, in any order. \<open>reachable\<close> collects the states such histories can reach from a
  created execution, and the properties are invariants of it, proved by rule induction.
\<close>

section \<open>Histories of the quote machine\<close>

inductive quote_moves :: "quote_execution_state \<Rightarrow> quote_execution_state \<Rightarrow> bool" where
  move_quote: "quote_moves s (fst (apply_quote_fact s q a))"
| move_time_stop: "quote_moves s (fst (request_quote_time_stop s q a))"
| move_session_close: "quote_moves s (fst (request_quote_session_close s boundary candidateQuote a))"

inductive_cases quote_movesE: "quote_moves s s'"

inductive reachable :: "quote_execution_state \<Rightarrow> quote_execution_state \<Rightarrow> bool" for s where
  reach_start: "reachable s s"
| reach_step: "reachable s s' \<Longrightarrow> quote_moves s' s'' \<Longrightarrow> reachable s s''"

lemma reachable_invariant:
  assumes "\<And>s s'. I s \<Longrightarrow> quote_moves s s' \<Longrightarrow> I s'"
  shows "reachable s s' \<Longrightarrow> I s \<Longrightarrow> I s'"
  by (induction rule: reachable.induct) (auto intro: assms)

lemma quote_moves_ok: "quote_state_ok s \<Longrightarrow> quote_moves s s' \<Longrightarrow> quote_state_ok s'"
  by (erule quote_movesE)
    (auto intro: apply_quote_fact_ok request_quote_time_stop_ok request_quote_session_close_ok)

lemma reachable_ok: "reachable s s' \<Longrightarrow> quote_state_ok s \<Longrightarrow> quote_state_ok s'"
  by (rule reachable_invariant [of quote_state_ok]) (auto intro: quote_moves_ok)

section \<open>A created position is whole\<close>

definition integral :: "jsnum \<Rightarrow> bool" where
  "integral l \<longleftrightarrow> l = PosInf \<or> (\<exists>x. l = math_floor x)"

lemma integral_math_floor [simp]: "integral (math_floor x)"
  by (auto simp: integral_def)

lemma integral_PosInf [simp]: "integral PosInf"
  by (simp add: integral_def)

lemma integral_floor_non_negative [simp]: "integral (floor_non_negative v p)"
  by (simp add: floor_non_negative_def)

lemma size_limits_integral: "(cap, l) \<in> set (size_limits n) \<Longrightarrow> integral l"
  by (auto simp: size_limits_def Let_def split: option.splits)

lemma integral_bounded:
  assumes "integral l" "Fin 1 \<le> l" "l \<le> Fin (2 ^ 53)"
  obtains n where "l = num n" "1 \<le> n" "n \<le> 2 ^ 53"
proof -
  from assms(2,3) obtain y where y: "l = Fin y" "1 \<le> y" "y \<le> 2 ^ 53" by (cases l) auto
  from assms(1) y(1) obtain x where "Fin y = math_floor x" by (auto simp: integral_def)
  then obtain n where n: "y = of_int n" by (cases x) auto
  have "rat_of_int n \<le> of_int (2 ^ 53)" using y(3) n by simp
  then have "n \<le> 2 ^ 53" by (simp only: of_int_le_iff)
  moreover have "1 \<le> n" using y(2) n by simp
  ultimately show ?thesis using that y(1) n by simp
qed

lemma sized_shares:
  assumes "size_entry_with_assumptions entryPrice stop target a context = Inr z"
  shows "integral (z_shares z)" "Fin 1 \<le> z_shares z"
    "stop < entryPrice" "entryPrice < target"
    "z_executableEntryPrice z = round_price entryPrice"
    "(cap, limit) \<in> set (size_limits (sizing_input entryPrice stop target a context)) \<Longrightarrow>
       \<not> limit < z_shares z"
proof -
  let ?n = "sizing_input entryPrice stop target a context"
  obtain z' where z: "size_entry ?n = Inr z'" "z_shares z = z_shares z'"
    "z_executableEntryPrice z = z_executableEntryPrice z'"
    using assms by (rule size_entry_with_assumptions_ok)
  note ok = size_entry_ok [OF z(1)]
  from apply_limits_attained [OF ok(6)] show "integral (z_shares z)"
    using size_limits_integral [of _ _ ?n] z(2) by auto
  show "Fin 1 \<le> z_shares z" using ok(7) z(2) by simp
  show "stop < entryPrice" "entryPrice < target" "z_executableEntryPrice z = round_price entryPrice"
    using ok(1-3) z(3) by (simp_all add: sizing_input_def)
  show "(cap, limit) \<in> set (size_limits ?n) \<Longrightarrow> \<not> limit < z_shares z"
    using size_entry_caps [OF z(1)] z(2) by simp
qed

lemma entry_shares:
  assumes "evaluate_quote_entry signal quoteOpt a context decision = Inr (EntryOpen out)"
  shows "integral (o_shares out) \<and> Fin 1 \<le> o_shares out"
  using assms by (rule evaluate_quote_entry_open) (simp add: sized_shares(1,2))

lemma create_quote_execution_open:
  assumes "create_quote_execution signal quoteOpt a context decision = Inr (QOpen x)"
  obtains out where "evaluate_quote_entry signal quoteOpt a context decision = Inr (EntryOpen out)"
    "ox_position x = position_of_entry out" "ox_economics x = Some (o_economics out)"
    "ox_lastFactTimestamp x = o_entryTime out"
proof -
  obtain r where r: "evaluate_quote_entry signal quoteOpt a context decision = Inr r"
    using assms by (auto simp: create_quote_execution_def bindR_eq_Inr)
  show ?thesis using assms that r by (cases r) (auto simp: create_quote_execution_def)
qed

lemma position_of_entry_ok:
  assumes "integral (o_shares out)" "Fin 1 \<le> o_shares out" "o_shares out \<le> Fin (2 ^ 53)"
  shows "position_ok (position_of_entry out)" "0 < int_of (remaining_of (position_of_entry out))"
proof -
  obtain n where "o_shares out = num n" "1 \<le> n" "n \<le> 2 ^ 53"
    using integral_bounded [OF assms] by metis
  then show "position_ok (position_of_entry out)" "0 < int_of (remaining_of (position_of_entry out))"
    by (simp_all add: position_ok_def position_of_entry_def remaining_of_def fills_of_def)
qed

lemma created_ok:
  assumes "create_quote_execution signal quoteOpt a context decision = Inr (QOpen x)"
    "p_shares (ox_position x) \<le> Fin (2 ^ 53)"
  shows "quote_state_ok (QOpen x)"
proof -
  obtain out where out: "evaluate_quote_entry signal quoteOpt a context decision = Inr (EntryOpen out)"
    "ox_position x = position_of_entry out" using assms(1) by (rule create_quote_execution_open)
  have "o_shares out \<le> Fin (2 ^ 53)" using assms(2) out(2) by (simp add: position_of_entry_def)
  from position_of_entry_ok [OF _ _ this] entry_shares [OF out(1)] show ?thesis using out(2) by simp
qed


section \<open>A stop that was seen stays a stop\<close>

fun position_in :: "quote_execution_state \<Rightarrow> open_position option" where
  "position_in (QOpen x) = Some (ox_position x)"
| "position_in (QClosePending x) = Some (ox_position x)"
| "position_in (QClosed c) = Some (cx_position c)"
| "position_in s = None"

fun closing_exit :: "quote_execution_state \<Rightarrow> exit_outcome option" where
  "closing_exit (QClosed c) = Some (cx_exit c)"
| "closing_exit s = None"

lemma position_in_quote: "\<exists>p. position_in (fst (apply_quote_fact (QOpen x) q a)) = Some p"
  by (simp add: apply_quote_fact_def settle_quote_fill_def Let_def split: option.split)

text \<open>
  \<open>losing before s\<close>: the history of fills extends \<open>before\<close> without another target fill, and
  the exit of the position is committed to a reason that is not the target.
\<close>

definition losing :: "exit_outcome list \<Rightarrow> quote_execution_state \<Rightarrow> bool" where
  "losing before s \<longleftrightarrow> (\<exists>p new. position_in s = Some p \<and> fills_of p = before @ new \<and>
     (\<forall>f \<in> set new. xo_exitReason f \<noteq> TARGET) \<and>
     p_pendingExitReason p \<notin> {None, Some TARGET} \<and>
     (\<forall>e \<in> set_option (closing_exit s). xo_exitReason e \<noteq> TARGET))"

lemma losing_open [simp]:
  "losing before (QOpen x) \<longleftrightarrow> (\<exists>new. fills_of (ox_position x) = before @ new \<and>
     (\<forall>f \<in> set new. xo_exitReason f \<noteq> TARGET) \<and>
     p_pendingExitReason (ox_position x) \<notin> {None, Some TARGET})"
  "losing before (QClosePending x) \<longleftrightarrow> losing before (QOpen x)"
  by (auto simp: losing_def)

lemma settle_losing:
  assumes "losing before (QOpen x)" "xo_exitReason exit \<noteq> TARGET"
  shows "losing before (settle_quote_fill pending x exit a)"
proof -
  from assms(1) obtain new where "fills_of (ox_position x) = before @ new"
    "\<forall>f \<in> set new. xo_exitReason f \<noteq> TARGET" by auto
  then have "\<exists>new'. fills_of (ox_position x) @ [exit] = before @ new' \<and>
      (\<forall>f \<in> set new'. xo_exitReason f \<noteq> TARGET)"
    using assms(2) by (intro exI [of _ "new @ [exit]"]) auto
  then show ?thesis
    using assms(2) by (simp add: losing_def settle_quote_fill_def Let_def fills_of_def [symmetric])
      (simp add: fills_of_def)
qed

lemma losing_pending [simp]:
  "fills_of (p\<lparr>p_pendingExitReason := r\<rparr>) = fills_of p"
  by (simp add: fills_of_def)

lemma apply_quote_fact_losing:
  "losing before (QOpen x) \<Longrightarrow> losing before (fst (apply_quote_fact (QOpen x) q a))"
proof (cases "evaluate_quote_exit (ox_position x) q a")
  case (Some exit)
  assume l: "losing before (QOpen x)"
  then have "p_pendingExitReason (ox_position x) \<noteq> None" "p_pendingExitReason (ox_position x) \<noteq> Some TARGET"
    by auto
  then have "xo_exitReason exit \<noteq> TARGET" using evaluate_quote_exit_Some(6) [OF Some] by auto
  with l settle_losing [OF l this] Some show ?thesis by (simp add: apply_quote_fact_def)
qed (auto simp: apply_quote_fact_def or_else_def)

lemma session_close_open_losing:
  assumes "losing before (QOpen x)"
  shows "losing before (fst (session_close_open pending x boundary c a))"
proof (cases "resolve_session_close (ox_position x) c boundary a")
  case ClosePending
  then show ?thesis using assms by (simp add: session_close_open_def Let_def)
next
  case (SessionClosed exit)
  then have "xo_exitReason exit \<noteq> TARGET"
    by (rule resolve_session_close_Closed) auto
  with settle_losing [OF assms] SessionClosed assms show ?thesis
    by (simp add: session_close_open_def Let_def)
qed

lemma request_quote_time_stop_losing:
  assumes "losing before (QOpen x)"
  shows "losing before (fst (request_quote_time_stop (QOpen x) q a))"
  using assms settle_losing [OF assms] resolve_quote_time_stop_Some(3)
  by (auto simp: request_quote_time_stop_def simp del: losing_open split: option.splits)

lemma quote_moves_losing:
  assumes "losing before s" "quote_moves s s'"
  shows "losing before s'"
  using assms(2)
proof cases
  case (move_quote q a)
  then show ?thesis using assms(1) apply_quote_fact_losing [of before]
    by (cases s) (auto simp: apply_quote_fact_def simp del: losing_open)
next
  case (move_time_stop q a)
  then show ?thesis using assms(1) request_quote_time_stop_losing [of before]
    by (cases s) (auto simp: request_quote_time_stop_def simp del: losing_open)
next
  case (move_session_close boundary c a)
  then show ?thesis using assms(1) session_close_open_losing [of before]
    by (cases s) (auto simp: request_quote_session_close_def losing_open(2) simp del: losing_open(1))
qed

lemma reachable_losing: "reachable s s' \<Longrightarrow> losing before s \<Longrightarrow> losing before s'"
  by (rule reachable_invariant [of "losing before"]) (auto intro: quote_moves_losing)

section \<open>Exact profit and loss of a closed position\<close>

lemma round_money_sum:
  assumes "length us \<le> 256" "sum_list (map abs us) \<le> 2 ^ 40"
  shows "round_money (js_sum (map (\<lambda>v. Fin (grid 10000 v)) us)) = Fin (grid 10000 (sum_list us))"
proof -
  have len: "(of_nat (length us) :: rat) \<le> 256"
    using assms(1) by (metis of_nat_le_iff of_nat_numeral)
  then have "0 + of_nat (length us) / 2048 \<le> (1/8 :: rat)" by simp
  from js_sum_near [of 0 0 0 us, OF _ this] assms(2)
  obtain y where y: "js_sum (map (\<lambda>v. Fin (grid 10000 v)) us) = Fin y"
    "near 10000 y (sum_list us) (of_nat (length us) / 2048)"
    by (auto simp: js_sum_def near_def)
  have "\<bar>sum_list us\<bar> \<le> 2 ^ 40" using sum_list_abs [of us] assms(2) by linarith
  then show ?thesis using money.rnd_near [OF y(2)] len y(1) by simp
qed

lemma round_money_difference:
  assumes "\<bar>u\<bar> \<le> 2 ^ 40" "\<bar>v\<bar> \<le> 2 ^ 40" "\<bar>u - v\<bar> \<le> 2 ^ 40"
  shows "round_money (Fin (grid 10000 u) - Fin (grid 10000 v)) = Fin (grid 10000 (u - v))"
  using money.rnd_grid_sum [of u "- v"] assms by (simp add: minus_jsnum_def grid_uminus)

section \<open>Fills are chronological\<close>

text \<open>
  \<open>chronological s\<close>: the entry, the fills and the latest fact of the position are in
  strictly increasing time, up to the last fact, which may be the last fill itself.
\<close>

definition ms_of :: "string \<Rightarrow> int" where
  "ms_of t = int_of (date_parse t)"

definition has_time :: "string \<Rightarrow> bool" where
  "has_time t \<longleftrightarrow> date_parse t = num (ms_of t)"

definition fill_times :: "open_position \<Rightarrow> string list" where
  "fill_times p = p_entryTime p # map xo_exitTime (fills_of p)"

definition times_ok :: "open_position \<Rightarrow> bool" where
  "times_ok p \<longleftrightarrow> list_all has_time (fill_times p) \<and> sorted_wrt (<) (map ms_of (fill_times p))"

definition open_chronological :: "open_execution \<Rightarrow> bool" where
  "open_chronological x \<longleftrightarrow> times_ok (ox_position x) \<and> has_time (ox_lastFactTimestamp x) \<and>
     (\<forall>t \<in> set (fill_times (ox_position x)). ms_of t \<le> ms_of (ox_lastFactTimestamp x))"

fun chronological :: "quote_execution_state \<Rightarrow> bool" where
  "chronological (QOpen x) \<longleftrightarrow> open_chronological x"
| "chronological (QClosePending x) \<longleftrightarrow> open_chronological x"
| "chronological (QClosed c) \<longleftrightarrow> times_ok (cx_position c)"
| "chronological s \<longleftrightarrow> True"

lemma has_time_usable: "usable_quote q \<Longrightarrow> has_time (q_timestamp q)"
  using usable_quoteD(11) [of q] by (auto simp: has_time_def ms_of_def elim: date_parse_finite)

lemma after_last_fact:
  assumes "has_time t" "has_time u" "\<not> date_parse t \<le> date_parse u"
  shows "ms_of u < ms_of t"
  using assms unfolding has_time_def by simp

lemma fill_times_append:
  "fill_times (p\<lparr>p_remainingShares := r, p_exitFills := Some (fills_of p @ [e]),
     p_pendingExitReason := d\<rparr>) = fill_times p @ [xo_exitTime e]"
  "fill_times (p\<lparr>p_remainingShares := r, p_exitFills := Some (fills_of p @ [e])\<rparr>) =
     fill_times p @ [xo_exitTime e]"
  by (simp_all add: fill_times_def fills_of_def)

lemma fill_times_pending [simp]: "fill_times (p\<lparr>p_pendingExitReason := r\<rparr>) = fill_times p"
  by (simp add: fill_times_def)

lemma times_ok_append:
  assumes "times_ok p" "\<forall>t \<in> set (fill_times p). ms_of t < ms_of (xo_exitTime e)" "has_time (xo_exitTime e)"
  shows "times_ok (p\<lparr>p_remainingShares := r, p_exitFills := Some (fills_of p @ [e]),
     p_pendingExitReason := d\<rparr>)"
  using assms unfolding times_ok_def fill_times_append by (auto simp: sorted_wrt_append)

lemma settle_chronological:
  assumes "open_chronological x" "has_time (xo_exitTime e)"
    "\<not> date_parse (xo_exitTime e) \<le> date_parse (ox_lastFactTimestamp x)"
  shows "chronological (settle_quote_fill pending x e a)"
proof -
  have l: "ms_of (ox_lastFactTimestamp x) < ms_of (xo_exitTime e)"
    using assms by (intro after_last_fact) (auto simp: open_chronological_def)
  then have "\<forall>t \<in> set (fill_times (ox_position x)). ms_of t < ms_of (xo_exitTime e)"
    using assms(1) unfolding open_chronological_def by fastforce
  then show ?thesis
    using assms times_ok_append [of "ox_position x" e]
    by (auto simp: settle_quote_fill_def Let_def fills_of_def [symmetric] fill_times_append
      open_chronological_def intro: less_imp_le)
qed

lemma apply_quote_fact_chronological:
  assumes "open_chronological x"
  shows "chronological (fst (apply_quote_fact (QOpen x) q a))"
proof (cases "usable_quote q \<and> \<not> date_parse (q_timestamp q) \<le> date_parse (ox_lastFactTimestamp x)")
  case True
  then have u: "has_time (q_timestamp q)"
    "classify_quote_availability (Some q) (q_timestamp q) (Fin 0) = None"
    by (auto intro: has_time_usable simp: usable_quote_def)
  then have l: "ms_of (ox_lastFactTimestamp x) < ms_of (q_timestamp q)"
    using True assms by (intro after_last_fact) (auto simp: open_chronological_def)
  show ?thesis
  proof (cases "evaluate_quote_exit (ox_position x) q a")
    case None
    then show ?thesis using True u l assms
      by (auto simp: apply_quote_fact_def times_ok_def open_chronological_def intro: order_trans less_imp_le)
  next
    case (Some e)
    then show ?thesis using True u settle_chronological [OF assms, of e False a] evaluate_quote_exit_Some(3) [OF Some]
      by (simp add: apply_quote_fact_def)
  qed
next
  case False
  then show ?thesis using assms by (auto simp: apply_quote_fact_def usable_quote_def)
qed

lemma request_quote_time_stop_chronological:
  assumes "open_chronological x"
  shows "chronological (fst (request_quote_time_stop (QOpen x) q a))"
proof (cases "resolve_quote_time_stop (ox_position x) q a")
  case None
  then show ?thesis using assms by (simp add: request_quote_time_stop_def)
next
  case (Some e)
  note r = resolve_quote_time_stop_Some [OF Some]
  have "usable_quote q"
    using r(1) available_exit_shares_unusable [of q "ox_position x"] by (cases "usable_quote q") auto
  then show ?thesis
    using settle_chronological [OF assms, of e False a] r(4) Some has_time_usable assms
    by (simp add: request_quote_time_stop_def)
qed

lemma session_close_open_chronological:
  assumes "open_chronological x"
  shows "chronological (fst (session_close_open pending x boundary c a))"
proof (cases "resolve_session_close (ox_position x) c boundary a")
  case ClosePending
  then show ?thesis using assms by (simp add: session_close_open_def Let_def)
next
  case (SessionClosed e)
  then obtain q where q: "c = Some q" "usable_quote q" "xo_exitTime e = q_timestamp q"
    by (rule resolve_session_close_Closed)
  then show ?thesis
    using settle_chronological [OF assms, of e True a] SessionClosed has_time_usable assms
    by (simp add: session_close_open_def Let_def)
qed

lemma quote_moves_chronological:
  assumes "chronological s" "quote_moves s s'"
  shows "chronological s'"
  using assms(2)
proof cases
  case (move_quote q a)
  then show ?thesis using assms(1) apply_quote_fact_chronological
    by (cases s) (auto simp: apply_quote_fact_def)
next
  case (move_time_stop q a)
  then show ?thesis using assms(1) request_quote_time_stop_chronological
    by (cases s) (auto simp: request_quote_time_stop_def)
next
  case (move_session_close boundary c a)
  then show ?thesis using assms(1) session_close_open_chronological
    by (cases s) (auto simp: request_quote_session_close_def)
qed

lemma reachable_chronological: "reachable s s' \<Longrightarrow> chronological s \<Longrightarrow> chronological s'"
  by (rule reachable_invariant [of chronological]) (auto intro: quote_moves_chronological)

lemma date_parse_num: "date_parse t \<noteq> NaN \<Longrightarrow> has_time t \<and> \<bar>ms_of t\<bar> \<le> max_time"
  by (rule date_parse_cases [of t]) (auto simp: has_time_def ms_of_def)

lemma math_max_num: "math_max (num a) (num b) = num (max a b)"
  by (auto simp: math_max_def max_def)

lemma to_iso_string_NaN: "to_iso_string NaN \<noteq> Inr s"
  by simp

text \<open>The fill of an entry is the latest of the quote, the signal and the decision.\<close>

lemma entry_time:
  assumes "evaluate_quote_entry signal quoteOpt a context decision = Inr (EntryOpen out)"
  obtains quote where "quoteOpt = Some quote" "has_time (o_entryTime out)"
    "has_time (q_timestamp quote)" "has_time (s_signalTimestamp signal)"
    "has_time (coalesce decision (s_signalTimestamp signal))"
    "ms_of (o_entryTime out) = max (max (ms_of (q_timestamp quote)) (ms_of (s_signalTimestamp signal)))
       (ms_of (coalesce decision (s_signalTimestamp signal)))"
proof (rule evaluate_quote_entry_open [OF assms])
  fix quote :: quote_fact
  let ?q = "date_parse (q_timestamp quote)" and ?s = "date_parse (s_signalTimestamp signal)"
    and ?d = "date_parse (coalesce decision (s_signalTimestamp signal))"
  assume q: "quoteOpt = Some quote" and l: "js_eq (entry_latency a context) (Fin 0)"
    and t: "to_iso_string (math_max (math_max ?q ?s) ?d + entry_latency a context) = Inr (o_entryTime out)"
  have l0: "entry_latency a context = Fin 0" using l by (simp add: js_eq_def)
  have n: "?q \<noteq> NaN \<and> ?s \<noteq> NaN \<and> ?d \<noteq> NaN"
    using t by (auto simp: math_max_def l0 split: if_splits)
  then have h: "has_time (q_timestamp quote)" "has_time (s_signalTimestamp signal)"
      "has_time (coalesce decision (s_signalTimestamp signal))"
    and b: "\<bar>ms_of (q_timestamp quote)\<bar> \<le> max_time" "\<bar>ms_of (s_signalTimestamp signal)\<bar> \<le> max_time"
      "\<bar>ms_of (coalesce decision (s_signalTimestamp signal))\<bar> \<le> max_time"
    using date_parse_num by blast+
  define m where "m = max (max (ms_of (q_timestamp quote)) (ms_of (s_signalTimestamp signal)))
       (ms_of (coalesce decision (s_signalTimestamp signal)))"
  have mb: "\<bar>m\<bar> \<le> 2 ^ 53" using b by (auto simp: m_def max_time_def)
  have "math_max (math_max ?q ?s) ?d = num m"
    using h unfolding has_time_def m_def by (simp only: math_max_num)
  then have "math_max (math_max ?q ?s) ?d + Fin 0 = num m"
    using num_add [of m 0] mb by simp
  then have "date_parse (o_entryTime out) = num m"
    using t by (intro to_iso_string_parse) (simp only: l0)
  then have "has_time (o_entryTime out) \<and> ms_of (o_entryTime out) = m"
    by (simp add: has_time_def ms_of_def)
  with that [OF q _ h] m_def show ?thesis by blast
qed

lemma created_chronological:
  assumes "create_quote_execution signal quoteOpt a context decision = Inr (QOpen x)"
  shows "chronological (QOpen x)"
proof -
  obtain out where out: "evaluate_quote_entry signal quoteOpt a context decision = Inr (EntryOpen out)"
    "ox_position x = position_of_entry out" "ox_lastFactTimestamp x = o_entryTime out"
    using assms by (rule create_quote_execution_open)
  have "has_time (o_entryTime out)" using out(1) by (rule entry_time)
  then show ?thesis using out(2,3)
    by (simp add: open_chronological_def times_ok_def fill_times_def fills_of_def position_of_entry_def)
qed

section \<open>A requested close finishes\<close>

text \<open>A quote that can close a position at the boundary: usable, not before it, with a bid.\<close>

definition can_close :: "string \<Rightarrow> quote_fact \<Rightarrow> bool" where
  "can_close boundary q \<longleftrightarrow> usable_quote q \<and> \<not> date_parse (q_timestamp q) < date_parse boundary \<and>
     Fin 1 \<le> q_bidSize q"

definition close_step :: "string \<Rightarrow> assumptions \<Rightarrow> quote_execution_state \<Rightarrow> quote_fact \<Rightarrow> quote_execution_state" where
  "close_step boundary a s q = fst (request_quote_session_close s boundary (Some q) a)"

lemma available_positive:
  assumes "usable_quote q" "Fin 1 \<le> q_bidSize q" "remaining_of p = num r" "0 < r"
  shows "\<not> available_exit_shares p q < Fin 1"
proof -
  note u = usable_quoteD [OF assms(1)]
  from u(5) assms(2) obtain b where b: "q_bidSize q = Fin b" "1 \<le> b" by (cases "q_bidSize q") auto
  have "1 \<le> \<lfloor>b\<rfloor>" using b by simp
  then have m: "\<not> math_min (num r) (num \<lfloor>b\<rfloor>) < Fin 1"
    using assms(4) unfolding math_min_num by (auto simp: min_def)
  have "coalesce (q_sizeUnit q) SHARES = SHARES" "js_eq (coalesce (q_sizeMultiplier q) (Fin 1)) (Fin 1)"
    using assms(1) by (cases "q_sizeMultiplier q";
      auto simp: usable_quote_def classify_quote_availability_def js_eq_def split: if_splits)+
  then show ?thesis
    using assms u b m by (auto simp: available_exit_shares_def usable_quote_def is_finite_iff)
qed

lemma classify_at_own_time:
  assumes "usable_quote q" "Fin 0 \<le> age"
  shows "classify_quote_availability (Some q) (q_timestamp q) age = None"
proof -
  have "date_parse (q_timestamp q) - date_parse (q_timestamp q) = Fin 0"
    using date_diff_self [of "q_timestamp q"] usable_quoteD(11) [OF assms(1)] by auto
  then have "\<not> age < (date_parse (q_timestamp q) - date_parse (q_timestamp q)) / Fin 1000"
    using assms(2) by (cases age) auto
  with assms(1) show ?thesis
    unfolding usable_quote_def classify_quote_availability_def by (auto split: if_splits)
qed

lemma close_step_progress:
  assumes "position_ok (ox_position x)" "remaining_of (ox_position x) = num r" "0 < r"
    "can_close boundary q" "\<not> date_parse (q_timestamp q) \<le> date_parse (ox_lastFactTimestamp x)"
    "Fin 0 \<le> a_maxQuoteAgeSeconds a"
  shows "(\<exists>c. close_step boundary a (QClosePending x) q = QClosed c) \<or>
    (\<exists>x' r'. close_step boundary a (QClosePending x) q = QClosePending x' \<and> position_ok (ox_position x') \<and>
       remaining_of (ox_position x') = num r' \<and> 0 < r' \<and> r' < r \<and>
       ox_lastFactTimestamp x' = q_timestamp q)"
proof -
  have u: "usable_quote q" and b: "\<not> date_parse (q_timestamp q) < date_parse boundary"
    using assms(4) by (auto simp: can_close_def)
  have av: "\<not> available_exit_shares (ox_position x) q < Fin 1"
    using available_positive [OF u _ assms(2,3)] assms(4) by (simp add: can_close_def)
  obtain e where e: "resolve_session_close (ox_position x) (Some q) boundary a = SessionClosed e"
    using b av classify_at_own_time [OF u assms(6)] by (auto simp: resolve_session_close_def Let_def)
  have f: "xo_filledShares e = Some (available_exit_shares (ox_position x) q)" "xo_exitTime e = q_timestamp q"
    using resolve_session_close_Closed [OF e] by auto
  obtain k where k: "available_exit_shares (ox_position x) q = num k" "1 \<le> k" "k \<le> r"
    using evaluate_exit_fill [OF assms(1) av] assms(2) by (metis jsnum.inject of_int_eq_iff)
  let ?s = "settle_quote_fill True x e a"
  have s: "close_step boundary a (QClosePending x) q = ?s"
    using assms(5) e by (simp add: close_step_def request_quote_session_close_def session_close_open_def)
  have ok: "quote_state_ok ?s"
    using settle_quote_fill_ok [OF assms(1) _ k(2) assms(2) k(3)] f(1) k(1) by simp
  define m where "m = r - k"
  have "r \<le> 2 ^ 53" using assms(1,2) by (auto simp: position_ok_def)
  then have d: "num r - num k = num m" unfolding m_def using k assms(3) by (intro num_diff) auto
  show ?thesis
  proof (cases "0 < m")
    case False
    then have "\<exists>c. ?s = QClosed c"
      using f(1) k(1) d assms(2) by (simp add: settle_quote_fill_def Let_def)
    then show ?thesis using s by auto
  next
    case True
    then obtain x' where x': "?s = QClosePending x'" "remaining_of (ox_position x') = num m"
      "ox_lastFactTimestamp x' = q_timestamp q"
      using f k(1) d assms(2) by (simp add: settle_quote_fill_def Let_def remaining_of_def)
    have "m < r" using k(2) by (simp add: m_def)
    with True x' ok s show ?thesis by auto
  qed
qed

lemma close_steps_finish:
  assumes "position_ok (ox_position x)" "remaining_of (ox_position x) = num r" "0 < r"
    "\<forall>q \<in> set qs. can_close boundary q" "r \<le> int (length qs)"
    "sorted_wrt (\<lambda>q q'. \<not> date_parse (q_timestamp q') \<le> date_parse (q_timestamp q)) qs"
    "\<forall>q \<in> set qs. \<not> date_parse (q_timestamp q) \<le> date_parse (ox_lastFactTimestamp x)"
    "Fin 0 \<le> a_maxQuoteAgeSeconds a"
  shows "\<exists>c. foldl (close_step boundary a) (QClosePending x) qs = QClosed c"
  using assms
proof (induction qs arbitrary: x r)
  case (Cons q qs)
  have absorb: "foldl (close_step boundary a) (QClosed c) ks = QClosed c" for c ks
    by (induction ks) (auto simp: close_step_def request_quote_session_close_def)
  from Cons.prems(4,7) have "can_close boundary q"
    "\<not> date_parse (q_timestamp q) \<le> date_parse (ox_lastFactTimestamp x)" by auto
  from close_step_progress [OF Cons.prems(1,2,3) this Cons.prems(8)] show ?case
  proof
    assume "\<exists>c. close_step boundary a (QClosePending x) q = QClosed c"
    then show ?thesis using absorb by auto
  next
    assume "\<exists>x' r'. close_step boundary a (QClosePending x) q = QClosePending x' \<and>
       position_ok (ox_position x') \<and> remaining_of (ox_position x') = num r' \<and> 0 < r' \<and> r' < r \<and>
       ox_lastFactTimestamp x' = q_timestamp q"
    then obtain x' r' where x': "close_step boundary a (QClosePending x) q = QClosePending x'"
      "position_ok (ox_position x')" "remaining_of (ox_position x') = num r'" "0 < r'" "r' < r"
      "ox_lastFactTimestamp x' = q_timestamp q" by blast
    have "\<exists>c. foldl (close_step boundary a) (QClosePending x') qs = QClosed c"
      by (rule Cons.IH [OF x'(2,3,4)]) (use Cons.prems x'(5,6) in auto)
    then show ?thesis using x'(1) by simp
  qed
qed simp

section \<open>Properties\<close>

text \<open>
  C7: Share conservation. Whatever quotes, time stops and session closes arrive, in whatever
  order, repeated or not, the shares a quote execution has sold and the shares it still
  holds add up to the whole number it bought, every recorded fill is at least one share, an
  open position still holds a share, and a closed one holds none.
\<close>

theorem share_conservation:
  assumes "create_quote_execution signal quoteOpt a context decision = Inr (QOpen x)"
    "p_shares (ox_position x) \<le> Fin (2 ^ 53)" "reachable (QOpen x) s"
  shows "quote_state_ok s"
  using reachable_ok [OF assms(3) created_ok [OF assms(1,2)]] .

lemma share_conservation_witness:
  "\<exists>x. sample_created = Inr (QOpen x) \<and>
     quote_state_ok (fst (apply_quote_fact (QOpen x) (sample_quote ''14:31:00'' 98 99) sample_assumptions))"
proof -
  obtain x where x: "sample_created = Inr (QOpen x)" "p_shares (ox_position x) = num 100"
    using sample_created_position by (auto simp: open_of_Some)
  have "p_shares (ox_position x) \<le> Fin (2 ^ 53)" by (simp add: x(2))
  from share_conservation [OF x(1) [unfolded sample_created_def] this
      reach_step [OF reach_start move_quote]] x(1)
  show ?thesis by blast
qed

text \<open>
  C8: Once an exit is committed to a reason other than the target, because a stop was seen
  that the displayed size could not fill, no later history turns it into a target fill: the
  recorded fills only grow, none of the new ones is a target, and neither is the exit that
  closes the position.
\<close>

theorem committed_stop_never_becomes_target:
  assumes "p_pendingExitReason (ox_position x) = Some reason" "reason \<noteq> TARGET"
    "reachable (QOpen x) s"
  shows "\<exists>p new. position_in s = Some p \<and> fills_of p = fills_of (ox_position x) @ new \<and>
     (\<forall>f \<in> set new. xo_exitReason f \<noteq> TARGET) \<and>
     (\<forall>e \<in> set_option (closing_exit s). xo_exitReason e \<noteq> TARGET)"
proof -
  have "losing (fills_of (ox_position x)) (QOpen x)" using assms(1,2) by simp
  from reachable_losing [OF assms(3) this] show ?thesis unfolding losing_def by blast
qed

lemma committed_stop_never_becomes_target_witness:
  "\<exists>p. position_in (fst (apply_quote_fact (QOpen (sample_execution (Some STOP)))
      (sample_quote ''14:31:00'' 104 105) sample_assumptions)) = Some p \<and>
     (\<forall>f \<in> set (fills_of p). xo_exitReason f \<noteq> TARGET)"
  using committed_stop_never_becomes_target [of "sample_execution (Some STOP)" STOP,
      OF _ _ reach_step [OF reach_start move_quote [of _ "sample_quote ''14:31:00'' 104 105" sample_assumptions]]]
  by (simp add: sample_execution_def sample_position_def fills_of_def)
    blast

text \<open>
  C9: Delivering quotes that have been delivered before, in any number and order, changes
  nothing, whatever came in between.
\<close>

theorem quote_redelivery:
  assumes "set again \<subseteq> set quotes"
  shows "foldl (\<lambda>s q. fst (apply_quote_fact s q a)) s (quotes @ again) =
     foldl (\<lambda>s q. fst (apply_quote_fact s q a)) s quotes"
  using quote_machine.redelivery_run [of again quotes a s] assms by (simp add: quote_step_def [abs_def])

lemma quote_redelivery_witness:
  "foldl (\<lambda>s q. fst (apply_quote_fact s q sample_assumptions)) (QOpen (sample_execution None))
      [sample_quote ''14:31:00'' 101 102, sample_quote ''14:32:00'' 98 99, sample_quote ''14:31:00'' 101 102] =
   foldl (\<lambda>s q. fst (apply_quote_fact s q sample_assumptions)) (QOpen (sample_execution None))
      [sample_quote ''14:31:00'' 101 102, sample_quote ''14:32:00'' 98 99]"
  using quote_redelivery [of "[sample_quote ''14:31:00'' 101 102]"
      "[sample_quote ''14:31:00'' 101 102, sample_quote ''14:32:00'' 98 99]"] by simp

text \<open>
  C10: The profit of a position closed by partial fills is exact. With every fill's gross
  profit and the costs whole numbers of ten-thousandths, at most 256 fills and totals below
  2^40 units, the recorded gross profit is the sum of the fills and the net profit is that
  sum less the costs, to the unit, in floating point.
\<close>

theorem closing_profit_exact:
  assumes "settle_quote_fill pending x exit a = QClosed c"
    "map (\<lambda>f. f_grossPnl (xo_financials f)) (fills_of (ox_position x) @ [exit]) =
       map (\<lambda>u. Fin (grid 10000 u)) us"
    "round_trip_costs a = Fin (grid 10000 k)"
    "length us \<le> 256" "sum_list (map abs us) + \<bar>k\<bar> \<le> 2 ^ 40"
  shows "f_grossPnl (xo_financials (cx_exit c)) = Fin (grid 10000 (sum_list us)) \<and>
     f_netPnl (xo_financials (cx_exit c)) = Fin (grid 10000 (sum_list us - k))"
proof -
  have "0 \<le> sum_list (map abs us)" by (rule sum_list_nonneg) auto
  with assms(5) sum_list_abs [of us]
  have k: "\<bar>k\<bar> \<le> 2 ^ 40" "sum_list (map abs us) \<le> 2 ^ 40" "\<bar>sum_list us - k\<bar> \<le> 2 ^ 40"
      "\<bar>sum_list us\<bar> \<le> 2 ^ 40" by linarith+
  have c: "f_grossPnl (xo_financials (cx_exit c)) =
        round_money (js_sum (map (\<lambda>f. f_grossPnl (xo_financials f)) (fills_of (ox_position x) @ [exit])))"
      "f_netPnl (xo_financials (cx_exit c)) =
        round_money (f_grossPnl (xo_financials (cx_exit c)) - round_trip_costs a)"
    using assms(1) by (auto simp: settle_quote_fill_def Let_def fills_of_def split: if_splits)
  have g: "f_grossPnl (xo_financials (cx_exit c)) = Fin (grid 10000 (sum_list us))"
    using round_money_sum [OF assms(4) k(2)] c(1) assms(2) by simp
  moreover have "f_netPnl (xo_financials (cx_exit c)) = Fin (grid 10000 (sum_list us - k))"
    using round_money_difference [OF k(4,1,3)] c(2) g assms(3) by simp
  ultimately show ?thesis by simp
qed

lemma closing_profit_exact_witness:
  "\<exists>c. settle_quote_fill False (sample_execution None) sample_exit sample_assumptions = QClosed c \<and>
     f_netPnl (xo_financials (cx_exit c)) = Fin (grid 10000 (- 2000000 - 20000))"
proof -
  have "closing_exit (settle_quote_fill False (sample_execution None) sample_exit sample_assumptions) \<noteq> None"
    by code_simp
  then obtain c where c: "settle_quote_fill False (sample_execution None) sample_exit sample_assumptions = QClosed c"
    by (cases "settle_quote_fill False (sample_execution None) sample_exit sample_assumptions") auto
  have "f_grossPnl (xo_financials sample_exit) = num (- 200)" by code_simp
  then have g: "f_grossPnl (xo_financials sample_exit) = Fin (grid 10000 (- 2000000))"
    using grid_whole [of 10000 "- 200"] by simp
  have "round_trip_costs sample_assumptions = num 2" by code_simp
  then have k: "round_trip_costs sample_assumptions = Fin (grid 10000 20000)"
    using grid_whole [of 10000 2] by simp
  have f: "fills_of (ox_position (sample_execution None)) = []" by code_simp
  from closing_profit_exact [OF c _ k, of "[- 2000000]"] c g f show ?thesis by simp
qed

text \<open>
  No fill uses the past. In every reachable state the entry and the recorded fills are at
  parseable times in strictly increasing order.
\<close>

theorem fills_chronological:
  assumes "create_quote_execution signal quoteOpt a context decision = Inr (QOpen x)"
    "reachable (QOpen x) s" "position_in s = Some p"
  shows "list_all has_time (p_entryTime p # map xo_exitTime (fills_of p)) \<and>
     sorted_wrt (<) (map ms_of (p_entryTime p # map xo_exitTime (fills_of p)))"
  using reachable_chronological [OF assms(2) created_chronological [OF assms(1)]] assms(3)
  by (cases s) (auto simp: open_chronological_def times_ok_def fill_times_def)

lemma fills_chronological_witness:
  "\<exists>x p. sample_created = Inr (QOpen x) \<and>
     position_in (fst (apply_quote_fact (QOpen x) (sample_quote ''14:31:00'' 98 99) sample_assumptions)) = Some p \<and>
     sorted_wrt (<) (map ms_of (p_entryTime p # map xo_exitTime (fills_of p)))"
proof -
  obtain x where x: "sample_created = Inr (QOpen x)"
    using sample_created_position by (auto simp: open_of_Some)
  let ?s = "fst (apply_quote_fact (QOpen x) (sample_quote ''14:31:00'' 98 99) sample_assumptions)"
  obtain p where p: "position_in ?s = Some p" using position_in_quote by blast
  from fills_chronological [OF x [unfolded sample_created_def] reach_step [OF reach_start move_quote] p] x p
  show ?thesis by blast
qed

text \<open>
  The modelled fill time of an entry is exactly the latest of the quote's, the signal's
  and the decision's time, and each of these is a valid time: no entry is dated before the
  facts it rests on.
\<close>

theorem entry_dated_at_latest_fact:
  assumes "evaluate_quote_entry signal quoteOpt a context decision = Inr (EntryOpen out)"
  shows "\<exists>quote. quoteOpt = Some quote \<and>
     list_all has_time [o_entryTime out, q_timestamp quote, s_signalTimestamp signal,
       coalesce decision (s_signalTimestamp signal)] \<and>
     ms_of (o_entryTime out) = max (max (ms_of (q_timestamp quote)) (ms_of (s_signalTimestamp signal)))
       (ms_of (coalesce decision (s_signalTimestamp signal)))"
  using assms by (rule entry_time) auto

lemma entry_dated_at_latest_fact_witness:
  "\<exists>out. evaluate_quote_entry sample_signal (Some (sample_quote ''14:29:59'' 100 100)) sample_assumptions
      None None = Inr (EntryOpen out) \<and>
     ms_of (o_entryTime out) = max (max (ms_of (sample_time ''14:29:59'')) (ms_of (sample_time ''14:30:00'')))
       (ms_of (sample_time ''14:30:00''))"
proof -
  obtain x where x: "sample_created = Inr (QOpen x)"
    using sample_created_position by (auto simp: open_of_Some)
  obtain out where out: "evaluate_quote_entry sample_signal (Some (sample_quote ''14:29:59'' 100 100))
      sample_assumptions None None = Inr (EntryOpen out)"
    using x [unfolded sample_created_def] by (rule create_quote_execution_open)
  from entry_dated_at_latest_fact [OF out] out show ?thesis
    by (simp add: sample_quote_def sample_signal_def)
qed

text \<open>
  C11: What an opened entry has passed. There was a quote, available at the decision time
  under the age limit; the executable price is its ask with the slippage and lies strictly
  between stop and target; the size is at least one share and no larger than any cap. The
  economics are those of this entry under the limits of the assumptions, they list no rejection,
  and each of the five gates holds: the profit expected at the target is not zero or negative,
  the spread is not above its limit, stop and target are no closer than their multiples of the
  friction, and the net reward/risk exists and is not below the minimum.
\<close>

theorem entry_passes_every_gate:
  assumes "evaluate_quote_entry signal quoteOpt a context decision = Inr (EntryOpen out)"
  shows "\<exists>quote price. quoteOpt = Some quote \<and>
     classify_quote_availability (Some quote) (coalesce decision (s_signalTimestamp signal))
       (a_maxQuoteAgeSeconds a) = None \<and>
     price = apply_entry_slippage (q_ask quote) (a_slippageBps a) \<and>
     o_executableEntryPrice out = round_price price \<and> o_stop out < price \<and> price < o_target out \<and>
     Fin 1 \<le> o_shares out \<and>
     (\<forall>(cap, limit) \<in> set (size_limits (sizing_input price (o_stop out) (o_target out) a
       (entry_sizing_context quote (entry_execution_mode a context) (entry_latency a context) context))).
       \<not> limit < o_shares out) \<and>
     evaluate_economics \<lparr>i_marketId = Some (if map_option c_currency (a_costs a) = Some USD then US_EQUITIES else CA_TSX),
       i_executableEntryPrice = o_executableEntryPrice out, i_stop = o_stop out, i_target = o_target out,
       i_shares = o_shares out, i_spread = Some (q_ask quote - q_bid quote), i_assumptions = a\<rparr> = Inr (o_economics out) \<and>
     e_gates (o_economics out) = coalesce (a_economics a) mandatory_economics_gates \<and>
     e_rejections (o_economics out) = [] \<and>
     \<not> e_expectedTargetNetPnl (o_economics out) \<le> Fin 0 \<and>
     (\<forall>pct \<in> set_option (e_spreadPct (o_economics out)).
       \<not> g_maxSpreadPct (e_gates (o_economics out)) < pct) \<and>
     \<not> d_frictionMultiples (e_stopDistance (o_economics out)) < g_minStopFrictionMultiple (e_gates (o_economics out)) \<and>
     \<not> d_frictionMultiples (e_targetDistance (o_economics out)) < g_minTargetFrictionMultiple (e_gates (o_economics out)) \<and>
     (\<exists>rr. e_netRewardRisk (o_economics out) = Some rr \<and>
       \<not> rr < g_minNetRewardRisk (e_gates (o_economics out)))"
proof (rule evaluate_quote_entry_open [OF assms])
  fix quote :: quote_fact and levels :: derived_levels and sized :: sized_entry
  let ?price = "apply_entry_slippage (q_ask quote) (a_slippageBps a)"
    and ?c = "entry_sizing_context quote (entry_execution_mode a context) (entry_latency a context) context"
  assume q: "quoteOpt = Some quote"
    and cl: "classify_quote_availability (Some quote) (coalesce decision (s_signalTimestamp signal))
      (a_maxQuoteAgeSeconds a) = None"
    and sz: "size_entry_with_assumptions ?price (l_stop levels) (l_target levels) a ?c = Inr sized"
    and ec: "evaluate_economics \<lparr>i_marketId = Some (if map_option c_currency (a_costs a) = Some USD
            then US_EQUITIES else CA_TSX), i_executableEntryPrice = z_executableEntryPrice sized,
        i_stop = l_stop levels, i_target = l_target levels, i_shares = z_shares sized,
        i_spread = Some (q_ask quote - q_bid quote), i_assumptions = a\<rparr> = Inr (o_economics out)"
    and rj: "e_rejections (o_economics out) = []"
    and out: "o_stop out = l_stop levels" "o_target out = l_target levels" "o_shares out = z_shares sized"
      "o_executableEntryPrice out = z_executableEntryPrice sized"
  note s = sized_shares [OF sz]
  let ?e = "o_economics out"
  have "economics_rejections (e_gates ?e) (e_expectedTargetNetPnl ?e) (e_spreadPct ?e)
      (e_stopDistance ?e) (e_targetDistance ?e) (e_netRewardRisk ?e) = []"
    using evaluate_economics_fields(9) [OF ec] rj by simp
  note g = this [unfolded economics_rejections_empty]
  have limits: "e_gates ?e = coalesce (a_economics a) mandatory_economics_gates"
    using evaluate_economics_fields(6) [OF ec] by simp
  have caps: "\<forall>(cap, limit) \<in> set (size_limits (sizing_input ?price (l_stop levels) (l_target levels) a ?c)).
      \<not> limit < z_shares sized"
    using s(6) by blast
  show ?thesis
    by (rule exI [of _ quote], rule exI [of _ ?price], simp only: out)
      (use q cl s(2-5) caps g ec rj limits in auto)
qed

lemma entry_passes_every_gate_witness:
  "\<exists>out. evaluate_quote_entry sample_signal (Some (sample_quote ''14:29:59'' 100 100)) sample_assumptions
      None None = Inr (EntryOpen out) \<and> Fin 1 \<le> o_shares out"
proof -
  obtain x where x: "sample_created = Inr (QOpen x)"
    using sample_created_position by (auto simp: open_of_Some)
  obtain out where out: "evaluate_quote_entry sample_signal (Some (sample_quote ''14:29:59'' 100 100))
      sample_assumptions None None = Inr (EntryOpen out)"
    using x [unfolded sample_created_def] by (rule create_quote_execution_open)
  from entry_passes_every_gate [OF out] out show ?thesis by blast
qed

text \<open>
  C12: A requested session close finishes. From a pending close that holds \<open>r\<close> whole shares,
  any \<open>r\<close> usable quotes at or after the boundary, in increasing time and each with at least
  one share on the bid, close the position completely, even when capacity limits every fill.
\<close>

theorem session_close_finishes:
  assumes "position_ok (ox_position x)" "remaining_of (ox_position x) = num r" "0 < r"
    "r \<le> int (length qs)" "\<forall>q \<in> set qs. can_close boundary q"
    "sorted_wrt (\<lambda>q q'. \<not> date_parse (q_timestamp q') \<le> date_parse (q_timestamp q)) qs"
    "\<forall>q \<in> set qs. \<not> date_parse (q_timestamp q) \<le> date_parse (ox_lastFactTimestamp x)"
    "Fin 0 \<le> a_maxQuoteAgeSeconds a"
  shows "\<exists>c. foldl (\<lambda>s q. fst (request_quote_session_close s boundary (Some q) a)) (QClosePending x) qs
    = QClosed c"
  using close_steps_finish [OF assms(1,2,3,5,4,6,7,8)] by (simp add: close_step_def [abs_def])

lemma session_close_finishes_witness:
  "\<exists>c. foldl (\<lambda>s q. fst (request_quote_session_close s (sample_time ''16:00:00'') (Some q) sample_assumptions))
     (QClosePending ((sample_execution None)\<lparr>ox_position := (sample_position None)\<lparr>p_shares := num 2\<rparr>\<rparr>))
     [sample_quote ''16:00:00'' 98 99, sample_quote ''16:01:00'' 98 99] = QClosed c"
proof (rule session_close_finishes)
  let ?x = "(sample_execution None)\<lparr>ox_position := (sample_position None)\<lparr>p_shares := num 2\<rparr>\<rparr>"
    and ?qs = "[sample_quote ''16:00:00'' 98 99, sample_quote ''16:01:00'' 98 99]"
  show "position_ok (ox_position ?x)" "remaining_of (ox_position ?x) = num 2"
    by code_simp+
  show "\<forall>q \<in> set ?qs. can_close (sample_time ''16:00:00'') q" by code_simp
  show "sorted_wrt (\<lambda>q q'. \<not> date_parse (q_timestamp q') \<le> date_parse (q_timestamp q)) ?qs" by code_simp
  show "\<forall>q \<in> set ?qs. \<not> date_parse (q_timestamp q) \<le> date_parse (ox_lastFactTimestamp ?x)"
    unfolding sample_execution_def by code_simp
  show "Fin 0 \<le> a_maxQuoteAgeSeconds sample_assumptions" by (simp add: sample_assumptions_def)
qed simp_all

text \<open>
  The candle machine does not depend on the order in which a batch is delivered: two
  deliveries with the same parseable bars, no two of which cover the same interval, lead to
  the same state and the same report of a transition.
\<close>

theorem candle_order_independence:
  assumes "mset xs = mset ys" "\<forall>c \<in> set xs. candle_ok c" "inj_on candle_key (set xs)"
  shows "apply_candle_facts s xs a = apply_candle_facts s ys a"
  using new_candles_permutation [OF assms] by (cases s) (auto simp: apply_candle_facts_def)

lemma candle_order_independence_witness:
  "apply_candle_facts (KOpen sample_candle_execution)
     [sample_candle ''14:32:00'' ''14:33:00'' 98 101, sample_candle ''14:31:00'' ''14:32:00'' 99 104]
     sample_assumptions =
   apply_candle_facts (KOpen sample_candle_execution)
     [sample_candle ''14:31:00'' ''14:32:00'' 99 104, sample_candle ''14:32:00'' ''14:33:00'' 98 101]
     sample_assumptions"
proof (rule candle_order_independence)
  let ?xs = "[sample_candle ''14:32:00'' ''14:33:00'' 98 101, sample_candle ''14:31:00'' ''14:32:00'' 99 104]"
  show "\<forall>c \<in> set ?xs. candle_ok c" by code_simp
  have "distinct (map candle_key ?xs)" by code_simp
  then show "inj_on candle_key (set ?xs)" by (simp only: distinct_map)
qed simp

text \<open>
  Batches of bars may overlap and be delivered again: once a regular batch (parseable,
  with ends ordered as starts) has been delivered, delivering it again at any later point
  changes nothing.
\<close>

theorem candle_redelivery:
  assumes "set again \<subseteq> set batches" "\<forall>b \<in> set again. regular_batch b"
  shows "foldl (\<lambda>s b. fst (apply_candle_facts s b a)) s (batches @ again) =
     foldl (\<lambda>s b. fst (apply_candle_facts s b a)) s batches"
  using candle_machine.redelivery_run [of again batches a s] assms by (simp add: candle_step_def [abs_def])

lemma candle_redelivery_witness:
  "foldl (\<lambda>s b. fst (apply_candle_facts s b sample_assumptions)) (KOpen sample_candle_execution)
      [[sample_candle ''14:31:00'' ''14:32:00'' 100 101], [sample_candle ''14:31:00'' ''14:32:00'' 100 101]] =
   foldl (\<lambda>s b. fst (apply_candle_facts s b sample_assumptions)) (KOpen sample_candle_execution)
      [[sample_candle ''14:31:00'' ''14:32:00'' 100 101]]"
proof -
  let ?b = "[sample_candle ''14:31:00'' ''14:32:00'' 100 101]"
  have "candle_ok (sample_candle ''14:31:00'' ''14:32:00'' 100 101)" by code_simp
  then have "\<forall>b \<in> set [?b]. regular_batch b" by (simp add: regular_batch_def)
  from candle_redelivery [OF _ this, of "[?b]"] show ?thesis by simp
qed

lemma dedupe_end: "c \<in> set cs \<Longrightarrow> k_end c \<in> set seen \<or> k_end c \<in> k_end ` set (dedupe_candles seen cs)"
  by (induction seen cs rule: dedupe_candles.induct) auto

lemma dedupe_all: "inj_on k_end (set cs) \<Longrightarrow> set (dedupe_candles [] cs) = set cs"
proof -
  assume inj: "inj_on k_end (set cs)"
  have sub: "set (dedupe_candles [] cs) \<subseteq> set cs" by (rule dedupe_subset)
  have "k_end ` set (dedupe_candles [] cs) = k_end ` set cs"
  proof
    show "k_end ` set (dedupe_candles [] cs) \<subseteq> k_end ` set cs" using sub by blast
    show "k_end ` set cs \<subseteq> k_end ` set (dedupe_candles [] cs)" using dedupe_end [of _ cs "[]"] by auto
  qed
  then show "set (dedupe_candles [] cs) = set cs" using inj_on_image_eq_iff [OF inj sub] by simp
qed

lemma candle_key_times:
  assumes "candle_ok b" "candle_ok b'" "candle_key b \<le> candle_key b'"
  shows "date_parse (k_start b) < date_parse (k_start b') \<or>
    date_parse (k_start b) = date_parse (k_start b') \<and> date_parse (k_end b) \<le> date_parse (k_end b')"
proof -
  have "\<exists>n. date_parse t = num n" if "is_finite (date_parse t)" for t
    using that by (auto elim: date_parse_finite)
  then obtain s e s' e' where "date_parse (k_start b) = num s" "date_parse (k_end b) = num e"
    "date_parse (k_start b') = num s'" "date_parse (k_end b') = num e'"
    using assms(1,2) unfolding candle_ok_def by metis
  then show ?thesis using assms(3) by (auto simp: candle_key_def)
qed

text \<open>
  C13: The candle exit is the first touch, read pessimistically. The bars of a batch have times
  that parse, no two different bars end at the same time, and they arrive in any order, repeated
  or not. When the batch closes the position, the exit is at the end of a bar of the batch that
  touches a level, starts at or after the entry and ends after the last fact, and no such bar of
  the batch comes earlier, by start and then by end; a bar that touches both levels is a stop; a
  stop fills at the worse of the stop and the bar's open, less the slippage; a target fills at
  the target.
\<close>

theorem candle_exit_first_touch:
  assumes "apply_candle_facts (KOpen x) cs a = (KClosed c, moved)" "\<forall>k \<in> set cs. candle_ok k" "inj_on k_end (set cs)"
  shows "\<exists>b \<in> set cs. touches (ok_position x) b \<and>
     date_parse (p_entryTime (ok_position x)) \<le> date_parse (k_start b) \<and>
     date_parse (ok_lastFactTimestamp x) < date_parse (k_end b) \<and>
     (\<forall>b' \<in> set cs. touches (ok_position x) b' \<longrightarrow> date_parse (p_entryTime (ok_position x)) \<le> date_parse (k_start b') \<longrightarrow>
       date_parse (ok_lastFactTimestamp x) < date_parse (k_end b') \<longrightarrow>
       date_parse (k_start b) < date_parse (k_start b') \<or>
       date_parse (k_start b) = date_parse (k_start b') \<and> date_parse (k_end b) \<le> date_parse (k_end b')) \<and>
     kx_exitTime (ck_exit c) = k_end b \<and>
     kx_exitReason (ck_exit c) = (if k_low b \<le> p_stop (ok_position x) then STOP else TARGET) \<and>
     kx_financials (ck_exit c) = compute_closing_financials (p_entryPrice (ok_position x))
       (if k_low b \<le> p_stop (ok_position x)
        then apply_exit_slippage (math_min (k_open b) (p_stop (ok_position x))) (a_slippageBps a)
        else p_target (ok_position x))
       (p_shares (ok_position x)) (p_initialRisk (ok_position x)) (CostAssumptions a)"
proof -
  obtain e where e: "evaluate_candle_bars (ok_position x) (new_candles x cs) a = Some e" "ck_exit c = e"
    using assms(1) by (auto simp: apply_candle_facts_def Let_def split: if_splits option.splits)
  from e(1) obtain before b after where b: "new_candles x cs = before @ b # after"
    "\<forall>b' \<in> set before. \<not> touches (ok_position x) b'" "touches (ok_position x) b" "kx_exitTime e = k_end b"
    "kx_exitReason e = (if k_low b \<le> p_stop (ok_position x) then STOP else TARGET)"
    "kx_financials e = compute_closing_financials (p_entryPrice (ok_position x))
       (if k_low b \<le> p_stop (ok_position x)
        then apply_exit_slippage (math_min (k_open b) (p_stop (ok_position x))) (a_slippageBps a)
        else p_target (ok_position x)) (p_shares (ok_position x)) (p_initialRisk (ok_position x)) (CostAssumptions a)"
    by (rule evaluate_candle_bars_Some)
  have bars: "b \<in> set (new_candles x cs)" using b(1) by simp
  have earliest: "candle_key b \<le> candle_key b'" if b': "b' \<in> set cs" "touches (ok_position x) b'"
    "date_parse (p_entryTime (ok_position x)) \<le> date_parse (k_start b')"
    "date_parse (ok_lastFactTimestamp x) < date_parse (k_end b')" for b'
  proof -
    have "b' \<in> set (before @ b # after)" unfolding b(1) [symmetric]
      using b' assms(3) by (simp add: new_candles_def admissible_def dedupe_all)
    then have "b' \<in> set (b # after)" using b(2) b'(2) by auto
    moreover have "sorted (map candle_key (before @ b # after))"
      using new_candles_sorted [OF assms(2), of x] b(1) by simp
    ultimately show ?thesis by (auto simp: sorted_append)
  qed
  have ok: "candle_ok b" using new_candles_admissible [OF bars] assms(2) by blast
  have times: "date_parse (k_start b) < date_parse (k_start b') \<or>
      date_parse (k_start b) = date_parse (k_start b') \<and> date_parse (k_end b) \<le> date_parse (k_end b')"
    if "b' \<in> set cs" "candle_key b \<le> candle_key b'" for b'
    using candle_key_times [OF ok _ that(2)] assms(2) that(1) by blast
  show ?thesis
    using new_candles_admissible [OF bars] b(3-6) e(2) earliest times by (intro bexI [of _ b]) simp_all
qed

lemma candle_exit_first_touch_witness:
  "\<exists>c. apply_candle_facts (KOpen sample_candle_execution) [sample_candle ''14:31:00'' ''14:32:00'' 98 104]
      sample_assumptions = (KClosed c, True) \<and>
     (\<exists>b. touches (sample_position None) b \<and> kx_exitTime (ck_exit c) = k_end b)"
proof -
  let ?r = "apply_candle_facts (KOpen sample_candle_execution)
    [sample_candle ''14:31:00'' ''14:32:00'' 98 104] sample_assumptions"
  have "(case ?r of (KClosed c, moved) \<Rightarrow> moved | _ \<Rightarrow> False)" by code_simp
  then obtain c where c: "?r = (KClosed c, True)"
    by (auto split: prod.splits candle_execution_state.splits)
  have "ok_position sample_candle_execution = sample_position None" by (simp add: sample_candle_execution_def)
  moreover have "\<forall>k \<in> set [sample_candle ''14:31:00'' ''14:32:00'' 98 104]. candle_ok k" by code_simp
  ultimately show ?thesis using candle_exit_first_touch [OF c] c by auto
qed

end
