(* ===== verification/EntryProperties.thy ===== *)
theory EntryProperties
  imports ExecutionProperties
begin

text \<open>
  Properties of prices and sizes: slippage is adverse, the size is the largest one every cap
  allows, and the planned loss stays inside the risk budget up to the rounding of one
  division.
\<close>

section \<open>The risk budget\<close>

lemma floor_non_negative_bound:
  assumes "floor_non_negative (Fin b) (Fin l) = num m" "0 \<le> b" "0 < l" "b / l \<le> 2 ^ 900"
  shows "of_int m * l \<le> b + b / 2 ^ 53 + l / 2 ^ 1075"
proof -
  have q: "0 \<le> b / l" using assms(2,3) by simp
  have "\<bar>b / l\<bar> \<le> 2 ^ 900" using q assms(4) by simp
  then have "math_floor (Fin b / Fin l) = num \<lfloor>fl (b / l)\<rfloor>"
    using assms(3) js_small [of "b / l"] by simp
  moreover have "math_max (Fin 0) (Fin b) = Fin b" using assms(2) by (simp add: math_max_def)
  ultimately have "m = \<lfloor>fl (b / l)\<rfloor>"
    using assms(1,3) by (simp add: floor_non_negative_def)
  then have "of_int m \<le> fl (b / l)" by simp
  also have "\<dots> \<le> b / l + (b / l / 2 ^ 53 + 1 / 2 ^ 1075)"
    using fl_error [of "b / l"] q by linarith
  finally have "of_int m * l \<le> (b / l + (b / l / 2 ^ 53 + 1 / 2 ^ 1075)) * l"
    using assms(3) by (intro mult_right_mono) auto
  also have "\<dots> = b + b / 2 ^ 53 + l / 2 ^ 1075"
    using assms(3) by (simp add: distrib_right)
  finally show ?thesis .
qed

lemma risk_budget_limit:
  assumes "n_riskBudget n = Some budget"
  shows "(RISK_BUDGET, floor_non_negative (budget - n_fixedCosts n) (loss_per_share n)) \<in> set (size_limits n)"
  using assms by (simp add: size_limits_def Let_def)

lemma floor_non_negative_num:
  assumes "0 \<le> b" "0 < l" "b / l \<le> 2 ^ 900"
  shows "\<exists>m. floor_non_negative (Fin b) (Fin l) = num m"
proof -
  have "\<bar>b / l\<bar> \<le> 2 ^ 900" using assms by simp
  then show ?thesis
    using assms js_small [of "b / l"] by (auto simp: floor_non_negative_def math_max_def)
qed

section \<open>Properties\<close>

text \<open>
  Slippage is never in favour of the paper account. For a non-negative price that is a
  double and a rate of 0 to 10,000 basis points, the entry pays at least the rounded ask, the
  exit receives at most the rounded bid, and never a negative price.
\<close>

theorem slippage_is_adverse:
  assumes "is_double price" "Fin 0 \<le> price" "valid_bps s"
  shows "round_price price \<le> apply_entry_slippage price s \<and>
     apply_exit_slippage price s \<le> round_price price \<and> Fin 0 \<le> apply_exit_slippage price s"
  using entry_slippage_adverse [OF assms] exit_slippage_adverse [OF assms] by blast

lemma slippage_is_adverse_witness:
  "round_price (num 100) \<le> apply_entry_slippage (num 100) (num 10) \<and>
     apply_exit_slippage (num 100) (num 10) \<le> round_price (num 100)"
proof -
  have "is_double (num 100)" using js_of_int [of 100] by (simp add: is_double_def)
  from slippage_is_adverse [OF this, of "num 10"] show ?thesis by (simp add: valid_bps_def)
qed

text \<open>
  C14: The size is the largest number of shares that every cap allows, and the record of caps
  explains it: no cap is below the size, the size is one of the caps (unless every cap is
  infinite), and the recorded caps are exactly the successive strict reductions, the last of
  which is the size.
\<close>

theorem size_is_largest_allowed:
  assumes "size_entry n = Inr z"
  shows "(\<forall>(cap, limit) \<in> set (size_limits n). \<not> limit < z_shares z) \<and>
     (z_shares z = PosInf \<or> z_shares z \<in> snd ` set (size_limits n)) \<and>
     b_appliedCaps (z_sizing z) = map fst (reductions PosInf (size_limits n)) \<and>
     sorted_wrt (\<lambda>a b. snd b < snd a) (reductions PosInf (size_limits n)) \<and>
     (reductions PosInf (size_limits n) \<noteq> [] \<longrightarrow>
        z_shares z = snd (last (reductions PosInf (size_limits n))))"
proof -
  note l = size_entry_ok(6) [OF assms]
  show ?thesis
    using size_entry_caps [OF assms] apply_limits_attained [OF l] reductions_decreasing
      l [unfolded apply_limits_reductions] by auto
qed

lemma size_is_largest_allowed_witness:
  "\<exists>z. size_entry (sizing_input (num 100) (num 99) (num 103) sample_assumptions None) = Inr z \<and>
     b_appliedCaps (z_sizing z) = [RISK_BUDGET, POSITION_NOTIONAL]"
proof -
  let ?n = "sizing_input (num 100) (num 99) (num 103) sample_assumptions None"
  have "(case size_entry ?n of Inr z \<Rightarrow> True | Inl r \<Rightarrow> False)" by code_simp
  then obtain z where z: "size_entry ?n = Inr z" by (auto split: sum.splits)
  have "map fst (reductions PosInf (size_limits ?n)) = [RISK_BUDGET, POSITION_NOTIONAL]" by code_simp
  with size_is_largest_allowed [OF z] z show ?thesis by auto
qed

text \<open>
  C15: The planned loss respects the risk budget. When a sizing succeeds with a risk budget,
  the shares times the cost-inclusive loss per share exceed the budget less the fixed costs
  at most by the rounding of one division (a relative error of 2^-53).
\<close>

theorem planned_loss_within_budget:
  assumes "size_entry n = Inr z" "n_riskBudget n = Some budget"
    "budget - n_fixedCosts n = Fin b" "0 \<le> b" "loss_per_share n = Fin l" "0 < l" "b / l \<le> 2 ^ 900"
    "z_shares z = num k"
  shows "of_int k * l \<le> b + b / 2 ^ 53 + l / 2 ^ 1075"
proof -
  obtain m where m: "floor_non_negative (Fin b) (Fin l) = num m"
    using floor_non_negative_num [OF assms(4,6,7)] by blast
  have "\<not> num m < num k"
    using size_entry_caps [OF assms(1) risk_budget_limit [OF assms(2)]] assms(3,5,8) m by simp
  then have "of_int k * l \<le> of_int m * l" using assms(6) by (simp add: not_less)
  also have "\<dots> \<le> b + b / 2 ^ 53 + l / 2 ^ 1075"
    by (rule floor_non_negative_bound [OF m assms(4,6,7)])
  finally show ?thesis .
qed

lemma planned_loss_within_budget_witness:
  "of_int 100 * (1::rat) \<le> 248 + 248 / 2 ^ 53 + 1 / 2 ^ 1075"
proof -
  let ?n = "sizing_input (num 100) (num 99) (num 103) sample_assumptions None"
  have "map_sum id z_shares (size_entry ?n) = Inr (num 100)" by code_simp
  then obtain z where z: "size_entry ?n = Inr z" "z_shares z = num 100"
    by (cases "size_entry ?n") auto
  have b: "num 250 - n_fixedCosts ?n = Fin 248" by code_simp
  have l: "loss_per_share ?n = Fin 1" by code_simp
  have "(248::rat) / 1 \<le> 2 ^ 8" by simp
  also have "(2::rat) ^ 8 \<le> 2 ^ 900" by (rule power_increasing) auto
  finally have q: "(248::rat) / 1 \<le> 2 ^ 900" .
  have "n_riskBudget ?n = Some (num 250)" by (simp add: sizing_input_def sample_assumptions_def)
  from planned_loss_within_budget [OF z(1) this b _ l _ q z(2)] show ?thesis by simp
qed

end
