(* ===== verification/PendingOrder.thy ===== *)
theory PendingOrder
  imports ExecutionLemmas
begin

text \<open>
  The life of an entry order (\<open>paper-bot/pending-order.ts\<close>): submission with a modelled
  latency, cancellation, expiry, and the quotes that fill or reject it. Every date that does
  not parse is an error of the operation, as it is in the source. The literal \<open>version\<close>
  field carries no information and has no counterpart.

  The lemmas give the shape of every transition, that an order which has left PENDING never
  changes again, and the interpretation \<open>order_machine\<close> of \<open>watermark_machine\<close>.
\<close>

datatype order_status = PENDING | FILLED | CANCELLED | REJECTED

datatype cancel_reason = USER_CANCELLED | SIGNAL_INVALIDATED | SESSION_CLOSED | RISK_VETO

text \<open>The \<open>reason\<close> string: a cancellation, the expiry, or the status of a failed execution.\<close>

datatype order_reason = CancelReason cancel_reason | EXPIRED | ExecutionStatus string

record pending_order =
  r_orderId :: string
  r_status :: order_status
  r_signal :: signal_fact
  r_assumptions :: assumptions
  r_context :: "sizing_context option"
  r_submittedAt :: string
  r_releaseAt :: string
  r_expiresAt :: string
  r_lastQuoteAt :: "string option"
  r_execution :: "quote_execution_state option"
  r_reason :: "order_reason option"

definition timestamp :: "string \<Rightarrow> jsnum result" where
  "timestamp value = (let t = date_parse value in
     if \<not> is_finite t then throw ''Invalid order timestamp'' else Inr t)"

record submit_input =
  si_orderId :: string
  si_signal :: signal_fact
  si_assumptions :: assumptions
  si_context :: "sizing_context option"
  si_submittedAt :: string
  si_expiresAt :: string

definition submit_entry_order :: "submit_input \<Rightarrow> pending_order result" where
  "submit_entry_order input =
     bindR (timestamp (si_submittedAt input)) (\<lambda>submitted.
     let latency = entry_latency (si_assumptions input) (si_context input) in
     if si_orderId input = [] \<or> \<not> is_safe_integer latency \<or> latency < Fin 0
     then throw ''Order ID and non-negative integer latency are required''
     else bindR (timestamp (s_signalTimestamp (si_signal input))) (\<lambda>signalAt.
     if submitted < signalAt then throw ''Order submission precedes signal''
     else bindR (to_iso_string (submitted + latency)) (\<lambda>releaseAt.
     bindR (timestamp (si_expiresAt input)) (\<lambda>expires.
     bindR (timestamp releaseAt) (\<lambda>released.
     if expires \<le> released then throw ''Order must expire after release''
     else Inr \<lparr>r_orderId = si_orderId input, r_status = PENDING, r_signal = si_signal input,
       r_assumptions = si_assumptions input, r_context = si_context input,
       r_submittedAt = si_submittedAt input, r_releaseAt = releaseAt,
       r_expiresAt = si_expiresAt input, r_lastQuoteAt = None, r_execution = None,
       r_reason = None\<rparr>)))))"

text \<open>\<open>lastQuoteAt !== null && timestamp(at) < timestamp(lastQuoteAt)\<close>, and its siblings.\<close>

definition precedes_last_quote :: "jsnum \<Rightarrow> pending_order \<Rightarrow> bool result" where
  "precedes_last_quote t order = (case r_lastQuoteAt order of
      None \<Rightarrow> Inr False
    | Some lq \<Rightarrow> bindR (timestamp lq) (\<lambda>l. Inr (t < l)))"

definition not_after_last_quote :: "jsnum \<Rightarrow> pending_order \<Rightarrow> bool result" where
  "not_after_last_quote t order = (case r_lastQuoteAt order of
      None \<Rightarrow> Inr False
    | Some lq \<Rightarrow> bindR (timestamp lq) (\<lambda>l. Inr (t \<le> l)))"

definition cancel_entry_order :: "pending_order \<Rightarrow> string \<Rightarrow> cancel_reason \<Rightarrow> pending_order result" where
  "cancel_entry_order order instant reason =
     bindR (timestamp instant) (\<lambda>t. bindR (timestamp (r_submittedAt order)) (\<lambda>submitted.
     bindR (if t < submitted then Inr True else precedes_last_quote t order) (\<lambda>early.
     if early then throw ''Cancellation precedes processed order facts''
     else Inr (if r_status order = PENDING
       then order\<lparr>r_status := CANCELLED, r_reason := Some (CancelReason reason)\<rparr> else order))))"

definition expire_entry_order :: "pending_order \<Rightarrow> string \<Rightarrow> pending_order result" where
  "expire_entry_order order instant =
     (if r_status order \<noteq> PENDING then Inr order
      else bindR (timestamp instant) (\<lambda>t. bindR (timestamp (r_expiresAt order)) (\<lambda>expires.
        Inr (if t < expires then order
          else order\<lparr>r_status := CANCELLED, r_reason := Some EXPIRED\<rparr>))))"

definition execution_status :: "quote_execution_state \<Rightarrow> string" where
  "execution_status s = (case s of QNoFill _ _ \<Rightarrow> ''NO_FILL'' | QRejected _ _ _ \<Rightarrow> ''REJECTED_ECONOMICS''
     | QOpen _ \<Rightarrow> ''OPEN'' | QClosePending _ \<Rightarrow> ''CLOSE_PENDING'' | QClosed _ \<Rightarrow> ''CLOSED'')"

definition filled_execution :: "pending_order \<Rightarrow> jsnum \<Rightarrow> open_execution \<Rightarrow> open_execution" where
  "filled_execution order latencyMs x =
     x\<lparr>ox_position := (ox_position x)\<lparr>p_decisionTime := Some (r_submittedAt order),
          p_latencyMs := Some latencyMs\<rparr>,
       ox_entryMarketSnapshot := (ox_entryMarketSnapshot x)
         \<lparr>m_decisionTimestamp := Some (r_submittedAt order), m_latencyMs := Some latencyMs\<rparr>\<rparr>"

definition settle_order_execution ::
  "pending_order \<Rightarrow> quote_fact \<Rightarrow> quote_execution_state \<Rightarrow> pending_order result" where
  "settle_order_execution order quote execution = (case execution of
      QNoFill NF_SHARES_BELOW_ONE _ \<Rightarrow> Inr (order\<lparr>r_lastQuoteAt := Some (q_timestamp quote)\<rparr>)
    | QOpen x \<Rightarrow>
        bindR (timestamp (r_releaseAt order)) (\<lambda>released.
        bindR (timestamp (r_submittedAt order)) (\<lambda>submitted.
        Inr (order\<lparr>r_status := FILLED, r_lastQuoteAt := Some (q_timestamp quote),
          r_execution := Some (QOpen (filled_execution order (released - submitted) x)),
          r_reason := None\<rparr>)))
    | _ \<Rightarrow> Inr (order\<lparr>r_status := REJECTED, r_lastQuoteAt := Some (q_timestamp quote),
          r_execution := Some execution, r_reason := Some (ExecutionStatus (execution_status execution))\<rparr>))"

definition apply_entry_order_quote :: "pending_order \<Rightarrow> quote_fact \<Rightarrow> pending_order result" where
  "apply_entry_order_quote order quote =
     (if r_status order \<noteq> PENDING then Inr order
      else bindR (timestamp (q_timestamp quote)) (\<lambda>quotedAt.
        bindR (timestamp (r_releaseAt order)) (\<lambda>released.
        bindR (if quotedAt < released then Inr True else not_after_last_quote quotedAt order) (\<lambda>early.
        if early then Inr order
        else bindR (expire_entry_order order (q_timestamp quote)) (\<lambda>expired.
        if expired \<noteq> order then Inr expired
        else if classify_quote_availability (Some quote) (q_timestamp quote) (Fin 0) \<noteq> None
        then Inr order
        else bindR (create_quote_execution (r_signal order) (Some quote)
            ((r_assumptions order)\<lparr>a_latencyMs := Some (Fin 0)\<rparr>)
            (map_option (\<lambda>c. c\<lparr>x_latencyMs := Some (Fin 0)\<rparr>) (r_context order))
            (Some (q_timestamp quote)))
          (settle_order_execution order quote))))))"

section \<open>The shape of a transition\<close>

lemma timestamp_Inr: "timestamp v = Inr t \<longleftrightarrow> date_parse v = t \<and> is_finite t"
  by (auto simp: timestamp_def Let_def)

text \<open>The quote is at or after the release and after the last quote the order has taken.\<close>

definition in_turn :: "pending_order \<Rightarrow> quote_fact \<Rightarrow> bool" where
  "in_turn order quote \<longleftrightarrow> date_parse (r_releaseAt order) \<le> date_parse (q_timestamp quote) \<and>
     (case r_lastQuoteAt order of None \<Rightarrow> True
      | Some lq \<Rightarrow> date_parse lq < date_parse (q_timestamp quote))"

definition evaluation_of :: "pending_order \<Rightarrow> quote_fact \<Rightarrow> quote_execution_state result" where
  "evaluation_of order quote = create_quote_execution (r_signal order) (Some quote)
     ((r_assumptions order)\<lparr>a_latencyMs := Some (Fin 0)\<rparr>)
     (map_option (\<lambda>c. c\<lparr>x_latencyMs := Some (Fin 0)\<rparr>) (r_context order)) (Some (q_timestamp quote))"

text \<open>What a quote in turn does to a pending order; it reads none of the changing fields.\<close>

definition process_in_turn :: "pending_order \<Rightarrow> quote_fact \<Rightarrow> pending_order result" where
  "process_in_turn order quote =
     bindR (timestamp (r_expiresAt order)) (\<lambda>expires.
     if \<not> date_parse (q_timestamp quote) < expires
     then Inr (order\<lparr>r_status := CANCELLED, r_reason := Some EXPIRED\<rparr>)
     else if \<not> usable_quote quote then Inr order
     else bindR (evaluation_of order quote) (settle_order_execution order quote))"

lemma expired_differs: "r_status order = PENDING \<Longrightarrow> order\<lparr>r_status := CANCELLED, r_reason := r\<rparr> \<noteq> order"
  by (metis order_status.distinct(3) pending_order.ext_inject pending_order.select_convs(2)
    pending_order.surjective pending_order.update_convs(2,11))

lemma apply_entry_order_quote_pending:
  assumes "r_status order = PENDING"
  shows "in_turn order quote \<Longrightarrow> apply_entry_order_quote order quote = process_in_turn order quote"
    "\<not> in_turn order quote \<Longrightarrow> apply_entry_order_quote order quote = Inr order \<or>
       (\<exists>e. apply_entry_order_quote order quote = Inl e)"
proof -
  consider "date_parse (q_timestamp quote) = NaN \<or> date_parse (r_releaseAt order) = NaN" |
    t u where "date_parse (q_timestamp quote) = num t" "date_parse (r_releaseAt order) = num u"
    by (cases rule: date_parse_cases [of "q_timestamp quote"];
        cases rule: date_parse_cases [of "r_releaseAt order"]) auto
  then have "(in_turn order quote \<longrightarrow> apply_entry_order_quote order quote = process_in_turn order quote) \<and>
    (\<not> in_turn order quote \<longrightarrow> apply_entry_order_quote order quote = Inr order \<or>
       (\<exists>e. apply_entry_order_quote order quote = Inl e))"
  proof cases
    case 1
    then show ?thesis
      using assms by (auto simp: apply_entry_order_quote_def timestamp_def Let_def in_turn_def)
  next
    case 2
    then show ?thesis using assms expired_differs [OF assms]
      by (cases "r_lastQuoteAt order"; cases rule: date_parse_cases [of "the (r_lastQuoteAt order)"])
        (auto simp: apply_entry_order_quote_def timestamp_def Let_def in_turn_def process_in_turn_def
          not_after_last_quote_def expire_entry_order_def usable_quote_def evaluation_of_def
          split: if_splits)
  qed
  then show "in_turn order quote \<Longrightarrow> apply_entry_order_quote order quote = process_in_turn order quote"
    "\<not> in_turn order quote \<Longrightarrow> apply_entry_order_quote order quote = Inr order \<or>
       (\<exists>e. apply_entry_order_quote order quote = Inl e)" by blast+
qed

section \<open>The order is fed at least once\<close>

text \<open>A quote that makes the operation throw leaves the order as it was.\<close>

definition order_step :: "pending_order \<Rightarrow> quote_fact \<Rightarrow> pending_order" where
  "order_step order quote = (case apply_entry_order_quote order quote of Inr order' \<Rightarrow> order' | Inl _ \<Rightarrow> order)"

definition order_final :: "pending_order \<Rightarrow> bool" where
  "order_final order \<longleftrightarrow> r_status order \<noteq> PENDING"

definition order_fresh :: "pending_order \<Rightarrow> quote_fact \<Rightarrow> bool" where
  "order_fresh order quote \<longleftrightarrow> order_step order quote \<noteq> order"

lemma order_step_final: "order_final order \<Longrightarrow> order_step order quote = order"
  by (simp add: order_final_def order_step_def apply_entry_order_quote_def)

lemma settle_order_cases:
  assumes "settle_order_execution order quote execution = Inr order'"
  obtains (waiting) "order' = order\<lparr>r_lastQuoteAt := Some (q_timestamp quote)\<rparr>"
      "\<exists>snap. execution = QNoFill NF_SHARES_BELOW_ONE snap"
  | (filled) x released submitted where "execution = QOpen x"
      "timestamp (r_releaseAt order) = Inr released" "timestamp (r_submittedAt order) = Inr submitted"
      "order' = order\<lparr>r_status := FILLED, r_lastQuoteAt := Some (q_timestamp quote),
         r_execution := Some (QOpen (filled_execution order (released - submitted) x)), r_reason := None\<rparr>"
  | (rejected) reason where "order' = order\<lparr>r_status := REJECTED, r_lastQuoteAt := Some (q_timestamp quote),
      r_execution := Some execution, r_reason := Some reason\<rparr>"
proof (cases execution)
  case (QNoFill reason snap)
  then show ?thesis using assms that(1,3)
    by (cases "reason = NF_SHARES_BELOW_ONE")
      (auto simp: settle_order_execution_def split: no_fill_reason.splits)
next
  case (QOpen x)
  then show ?thesis using assms that(2) by (auto simp: settle_order_execution_def bindR_eq_Inr)
qed (use assms that(3) in \<open>auto simp: settle_order_execution_def\<close>)

lemma order_step_cases:
  obtains (same) "order_step order quote = order"
  | (expired) expires where "r_status order = PENDING" "in_turn order quote"
      "timestamp (r_expiresAt order) = Inr expires" "\<not> date_parse (q_timestamp quote) < expires"
      "order_step order quote = order\<lparr>r_status := CANCELLED, r_reason := Some EXPIRED\<rparr>"
  | (settled) expires execution order' where "r_status order = PENDING" "in_turn order quote"
      "timestamp (r_expiresAt order) = Inr expires" "date_parse (q_timestamp quote) < expires"
      "usable_quote quote" "evaluation_of order quote = Inr execution"
      "settle_order_execution order quote execution = Inr order'"
      "apply_entry_order_quote order quote = Inr order'" "order_step order quote = order'"
proof (cases "r_status order = PENDING")
  case False
  then show ?thesis using same order_step_final by (simp add: order_final_def)
next
  case True
  note a = apply_entry_order_quote_pending [OF True, of quote]
  show ?thesis
  proof (cases "in_turn order quote")
    case False
    then show ?thesis using same a(2) by (auto simp: order_step_def)
  next
    case in_turn: True
    show ?thesis
      using True same expired settled a(1) [OF in_turn] in_turn
      by (cases "process_in_turn order quote")
        (auto simp: order_step_def process_in_turn_def bindR_eq_Inr split: if_splits)
  qed
qed

lemma settled_changes:
  assumes "settle_order_execution order quote execution = Inr order'" "r_status order = PENDING"
  shows "r_lastQuoteAt order' = Some (q_timestamp quote) \<and> (r_status order' = PENDING \<longrightarrow>
     order' = order\<lparr>r_lastQuoteAt := Some (q_timestamp quote)\<rparr>)"
  using assms(1) by (cases rule: settle_order_cases) (use assms(2) in auto)

lemma order_not_fresh_again:
  "order_final (order_step order quote) \<or> order_step (order_step order quote) quote = order_step order quote"
proof (cases rule: order_step_cases [of order quote])
  case (settled expires execution order')
  then have "\<not> in_turn order' quote" using settled_changes by (auto simp: in_turn_def)
  then show ?thesis
    by (cases rule: order_step_cases [of order' quote]) (use settled in auto)
qed (auto simp: order_final_def)

text \<open>Another quote in between does not make a quote without effect effective.\<close>

lemma settle_later:
  "settle_order_execution (order\<lparr>r_lastQuoteAt := l\<rparr>) quote execution = Inr order' \<Longrightarrow>
     \<exists>order''. settle_order_execution order quote execution = Inr order''"
  by (cases execution) (auto simp: settle_order_execution_def bindR_eq_Inr split: no_fill_reason.splits)

lemma evaluation_of_later [simp]: "evaluation_of (order\<lparr>r_lastQuoteAt := l\<rparr>) quote = evaluation_of order quote"
  by (simp add: evaluation_of_def)

lemma order_fresh_before:
  assumes "r_status order = PENDING" "in_turn order early"
    "order_step (order\<lparr>r_lastQuoteAt := Some (q_timestamp early)\<rparr>) quote \<noteq>
       order\<lparr>r_lastQuoteAt := Some (q_timestamp early)\<rparr>"
  shows "order_step order quote \<noteq> order"
proof -
  let ?o = "order\<lparr>r_lastQuoteAt := Some (q_timestamp early)\<rparr>"
  have t: "in_turn order quote" if "in_turn ?o quote"
    using that assms(2) by (auto simp: in_turn_def dest: js_less_trans split: option.splits)
  show ?thesis
  proof (cases rule: order_step_cases [of ?o quote])
    case (expired expires)
    then have "apply_entry_order_quote order quote =
        Inr (order\<lparr>r_status := CANCELLED, r_reason := Some EXPIRED\<rparr>)"
      using apply_entry_order_quote_pending(1) [OF assms(1) t] by (simp add: process_in_turn_def)
    then show ?thesis using expired_differs [OF assms(1)] by (simp add: order_step_def)
  next
    case (settled expires execution order')
    obtain order'' where o: "settle_order_execution order quote execution = Inr order''"
      using settle_later [OF settled(7)] by blast
    have "apply_entry_order_quote order quote = Inr order''"
      using apply_entry_order_quote_pending(1) [OF assms(1) t] settled o by (simp add: process_in_turn_def)
    moreover have "r_lastQuoteAt order'' = Some (q_timestamp quote)"
      using settled_changes [OF o assms(1)] by simp
    moreover have "r_lastQuoteAt order \<noteq> Some (q_timestamp quote)"
      using t [OF settled(2)] by (auto simp: in_turn_def)
    ultimately show ?thesis by (auto simp: order_step_def)
  qed (use assms(3) in simp)
qed

lemma order_fresh_mono:
  assumes "\<not> order_fresh order quote"
  shows "order_final (order_step order other) \<or> \<not> order_fresh (order_step order other) quote"
proof (cases rule: order_step_cases [of order other])
  case (settled expires execution order')
  note s = settled_changes [OF settled(7,1)]
  show ?thesis
    using s order_fresh_before [OF settled(1,2), of quote] assms settled(9)
    by (cases "r_status order' = PENDING") (auto simp: order_final_def order_fresh_def)
qed (use assms in \<open>auto simp: order_final_def\<close>)

interpretation order_machine: watermark_machine order_step order_final order_fresh "\<lambda>q. True"
proof
  show "order_final s \<Longrightarrow> order_step s e = s" for s e by (rule order_step_final)
  show "\<not> order_fresh s e \<Longrightarrow> order_step s e = s" for s e by (simp add: order_fresh_def)
  show "(\<forall>s. order_step s e = s) \<or> order_final (order_step s e) \<or> \<not> order_fresh (order_step s e) e" for s e
    using order_not_fresh_again [of s e] by (simp add: order_fresh_def)
  show "\<not> order_fresh s e \<Longrightarrow> order_final (order_step s e') \<or> \<not> order_fresh (order_step s e') e" for s e e'
    by (rule order_fresh_mono)
qed

end
