(* ===== verification/OrderProperties.thy ===== *)
theory OrderProperties
  imports EntryProperties PendingOrder
begin

text \<open>
  Properties of entry orders: the window a submission fixes, the conditions of a fill, the
  finality of an order that has left PENDING, and redelivery of quotes.
\<close>

section \<open>Submission\<close>

lemma release_sum:
  assumes "\<bar>t\<bar> \<le> max_time" "is_safe_integer (Fin l)" "0 \<le> l" "to_iso_string (num t + Fin l) = Inr s"
  obtains k where "l = of_int k" "date_parse s = num (t + k)"
proof -
  define k where "k = \<lfloor>l\<rfloor>"
  have k: "l = of_int k" using assms(2) by (simp add: k_def)
  have k0: "0 \<le> k" using assms(3) by (simp add: k_def)
  have "t + k \<le> 2 ^ 53"
  proof (rule ccontr)
    assume "\<not> t + k \<le> 2 ^ 53"
    then have "(of_int (2 ^ 53) :: rat) \<le> of_int (t + k)" by (simp only: of_int_le_iff)
    from js_mono [OF this] have "num (2 ^ 53) \<le> js (of_int (t + k))"
      using js_of_int [of "2 ^ 53"] by simp
    then have "num (2 ^ 53) \<le> num t + Fin l" by (simp add: k)
    then show False using assms(4)
      by (cases "num t + Fin l") (auto simp: max_time_def Let_def simp del: plus_jsnum.simps split: if_splits)
  qed
  moreover have "- (2 ^ 53) \<le> t + k" using assms(1) k0 by (simp add: max_time_def)
  ultimately have "num t + Fin l = num (t + k)" unfolding k by (intro num_add) auto
  then have "date_parse s = num (t + k)" using assms(4) by (intro to_iso_string_parse) simp
  with k that show ?thesis by blast
qed

lemma submit_entry_order_window:
  assumes "submit_entry_order input = Inr order"
  obtains submitted k signalAt expires where "date_parse (si_submittedAt input) = num submitted"
    "entry_latency (si_assumptions input) (si_context input) = num k" "0 \<le> k"
    "date_parse (s_signalTimestamp (si_signal input)) = num signalAt" "signalAt \<le> submitted"
    "date_parse (r_releaseAt order) = num (submitted + k)"
    "date_parse (si_expiresAt input) = num expires" "submitted + k < expires"
    "r_status order = PENDING" "r_submittedAt order = si_submittedAt input"
    "r_expiresAt order = si_expiresAt input" "r_signal order = si_signal input"
proof -
  let ?l = "entry_latency (si_assumptions input) (si_context input)"
  have s: "is_finite (date_parse (si_submittedAt input))" "is_safe_integer ?l" "\<not> ?l < Fin 0"
      "is_finite (date_parse (s_signalTimestamp (si_signal input)))"
      "\<not> date_parse (si_submittedAt input) < date_parse (s_signalTimestamp (si_signal input))"
      "is_finite (date_parse (si_expiresAt input))"
      "\<not> date_parse (si_expiresAt input) \<le> date_parse (r_releaseAt order)"
      "to_iso_string (date_parse (si_submittedAt input) + ?l) = Inr (r_releaseAt order)"
      "r_status order = PENDING" "r_submittedAt order = si_submittedAt input"
      "r_expiresAt order = si_expiresAt input" "r_signal order = si_signal input"
    using assms by (auto simp: submit_entry_order_def Let_def bindR_eq_Inr timestamp_Inr split: if_splits)
  obtain t where t: "date_parse (si_submittedAt input) = num t" "\<bar>t\<bar> \<le> max_time"
    using s(1) by (rule date_parse_finite)
  obtain u where u: "date_parse (s_signalTimestamp (si_signal input)) = num u"
    using s(4) by (rule date_parse_finite)
  obtain v where v: "date_parse (si_expiresAt input) = num v" using s(6) by (rule date_parse_finite)
  obtain l where l: "?l = Fin l" using s(2) by (cases ?l) auto
  have l0: "0 \<le> l" using s(3) l by simp
  have sl: "is_safe_integer (Fin l)" "to_iso_string (num t + Fin l) = Inr (r_releaseAt order)"
    using s(2,8) l t(1) by simp_all
  obtain k where k: "l = of_int k" "date_parse (r_releaseAt order) = num (t + k)"
    using release_sum [OF t(2) sl(1) l0 sl(2)] by blast
  show ?thesis
    using that [OF t(1) _ _ u _ k(2) v _ s(9-12)] l k l0 s(5,7) t(1) u v by simp
qed

section \<open>Properties\<close>

text \<open>
  C16: A submitted order has a well-formed window: it is pending, it is released exactly the
  modelled latency after its submission, which does not precede the signal, and it expires
  only after its release.
\<close>

theorem submitted_order_window:
  assumes "submit_entry_order input = Inr order"
  shows "r_status order = PENDING \<and>
     (\<exists>k. entry_latency (si_assumptions input) (si_context input) = num k \<and> 0 \<le> k \<and>
        ms_of (r_releaseAt order) = ms_of (r_submittedAt order) + k) \<and>
     list_all has_time [s_signalTimestamp (r_signal order), r_submittedAt order, r_releaseAt order, r_expiresAt order] \<and>
     ms_of (s_signalTimestamp (r_signal order)) \<le> ms_of (r_submittedAt order) \<and>
     ms_of (r_submittedAt order) \<le> ms_of (r_releaseAt order) \<and>
     ms_of (r_releaseAt order) < ms_of (r_expiresAt order)"
  using assms by (rule submit_entry_order_window) (auto simp: ms_of_def has_time_def)

definition sample_submission :: submit_input where
  "sample_submission = \<lparr>si_orderId = ''order-1'', si_signal = sample_signal,
     si_assumptions = sample_assumptions\<lparr>a_latencyMs := Some (num 250)\<rparr>, si_context = None,
     si_submittedAt = sample_time ''14:30:00'', si_expiresAt = sample_time ''14:35:00''\<rparr>"

lemma submitted_order_window_witness:
  "\<exists>order. submit_entry_order sample_submission = Inr order \<and>
     ms_of (r_releaseAt order) < ms_of (r_expiresAt order)"
proof -
  have "(case submit_entry_order sample_submission of Inr order \<Rightarrow> True | Inl e \<Rightarrow> False)" by code_simp
  then obtain order where o: "submit_entry_order sample_submission = Inr order" by (auto split: sum.splits)
  from submitted_order_window [OF o] o show ?thesis by blast
qed

text \<open>
  C17: A pending order is filled only by a usable quote at or after its release, after the
  last quote it has taken, and before its expiry; the fill is the open execution created from
  that quote at its own time, and records the time between submission and release as its
  latency.
\<close>

theorem order_fills_only_in_window:
  assumes "apply_entry_order_quote order quote = Inr order'" "r_status order = PENDING"
    "r_status order' = FILLED"
  shows "usable_quote quote \<and> in_turn order quote \<and>
     date_parse (q_timestamp quote) < date_parse (r_expiresAt order) \<and>
     (\<exists>x. evaluation_of order quote = Inr (QOpen x) \<and>
        r_execution order' = Some (QOpen (filled_execution order
          (date_parse (r_releaseAt order) - date_parse (r_submittedAt order)) x)))"
proof (cases rule: order_step_cases [of order quote])
  case same
  then show ?thesis using assms by (simp add: order_step_def)
next
  case (expired expires)
  then show ?thesis using assms by (simp add: order_step_def)
next
  case (settled expires execution order'')
  then have "settle_order_execution order quote execution = Inr order'" using assms(1) by simp
  then show ?thesis
    by (cases rule: settle_order_cases) (use settled assms(2,3) in \<open>auto simp: timestamp_Inr\<close>)
qed

definition sample_order :: "int \<Rightarrow> pending_order" where
  "sample_order n = \<lparr>r_orderId = ''order-'' @ pad 1 n, r_status = PENDING, r_signal = sample_signal,
     r_assumptions = sample_assumptions, r_context = None, r_submittedAt = sample_time ''14:30:00'',
     r_releaseAt = sample_time ''14:30:00'', r_expiresAt = sample_time ''14:35:00'',
     r_lastQuoteAt = None, r_execution = None, r_reason = None\<rparr>"

lemma sample_order_filled:
  "(case apply_entry_order_quote (sample_order 1) (sample_quote ''14:31:00'' 100 100) of
     Inr order \<Rightarrow> r_status order = FILLED | Inl e \<Rightarrow> False)"
  by code_simp

lemma order_fills_only_in_window_witness:
  "\<exists>order. apply_entry_order_quote (sample_order 1) (sample_quote ''14:31:00'' 100 100) = Inr order \<and>
     usable_quote (sample_quote ''14:31:00'' 100 100)"
proof -
  obtain order where o: "apply_entry_order_quote (sample_order 1) (sample_quote ''14:31:00'' 100 100) = Inr order"
    "r_status order = FILLED"
    using sample_order_filled by (auto split: sum.splits)
  have "r_status (sample_order 1) = PENDING" by (simp add: sample_order_def)
  from order_fills_only_in_window [OF o(1) this o(2)] o(1) show ?thesis by blast
qed

text \<open>
  An order that has left PENDING is final: no quote, expiry or cancellation changes it.
\<close>

theorem settled_order_is_final:
  assumes "r_status order \<noteq> PENDING"
  shows "apply_entry_order_quote order quote = Inr order \<and> expire_entry_order order instant = Inr order \<and>
     (\<forall>order'. cancel_entry_order order instant reason = Inr order' \<longrightarrow> order' = order)"
  using assms by (auto simp: apply_entry_order_quote_def expire_entry_order_def cancel_entry_order_def
    bindR_eq_Inr split: if_splits)

lemma settled_order_is_final_witness:
  "apply_entry_order_quote ((sample_order 1)\<lparr>r_status := CANCELLED\<rparr>) (sample_quote ''14:31:00'' 100 100) =
     Inr ((sample_order 1)\<lparr>r_status := CANCELLED\<rparr>)"
  using settled_order_is_final [of "(sample_order 1)\<lparr>r_status := CANCELLED\<rparr>"] by simp

text \<open>
  Quotes may be delivered to an order again: after any sequence of quotes, delivering
  some of them again changes nothing, where a quote that makes the operation throw leaves the
  order as it was.
\<close>

theorem order_redelivery:
  assumes "set again \<subseteq> set quotes"
  shows "foldl (\<lambda>r q. case apply_entry_order_quote r q of Inr r' \<Rightarrow> r' | Inl _ \<Rightarrow> r) order (quotes @ again) =
     foldl (\<lambda>r q. case apply_entry_order_quote r q of Inr r' \<Rightarrow> r' | Inl _ \<Rightarrow> r) order quotes"
  using order_machine.redelivery_run [of again quotes order] assms by (simp add: order_step_def [abs_def])

lemma order_redelivery_witness:
  "foldl (\<lambda>r q. case apply_entry_order_quote r q of Inr r' \<Rightarrow> r' | Inl _ \<Rightarrow> r) (sample_order 1)
      [sample_quote ''14:31:00'' 100 100, sample_quote ''14:31:00'' 100 100] =
   foldl (\<lambda>r q. case apply_entry_order_quote r q of Inr r' \<Rightarrow> r' | Inl _ \<Rightarrow> r) (sample_order 1)
      [sample_quote ''14:31:00'' 100 100]"
  using order_redelivery [of "[sample_quote ''14:31:00'' 100 100]" "[sample_quote ''14:31:00'' 100 100]"] by simp

end
