(* ===== verification/EntryLiquidity.thy ===== *)
theory EntryLiquidity
  imports PendingOrder
begin

text \<open>
  Sharing the ask side of one quote among pending orders
  (\<open>paper-bot/shared-entry-liquidity.ts\<close>). Orders are served in the order of their release,
  submission and identifier; each sees only the shares the earlier ones left.
\<close>

record entry_liquidity =
  el_instrumentId :: string
  el_quote :: quote_fact
  el_availableShares :: jsnum
  el_consumedShares :: jsnum
  el_consumedBidShares :: jsnum
  el_participation :: jsnum
  el_impactBps :: jsnum
  el_processedOrderIds :: "string list"

definition valid_liquidity_terms :: "jsnum \<Rightarrow> jsnum \<Rightarrow> bool" where
  "valid_liquidity_terms participation impactBps \<longleftrightarrow>
     \<not> (\<not> is_finite participation \<or> participation \<le> Fin 0 \<or> Fin 1 < participation \<or>
        \<not> is_finite impactBps \<or> impactBps < Fin 0 \<or> Fin 10000 < impactBps)"

definition open_entry_liquidity ::
  "string \<Rightarrow> quote_fact \<Rightarrow> jsnum \<Rightarrow> jsnum \<Rightarrow> entry_liquidity result" where
  "open_entry_liquidity instrumentId quote participation impactBps =
     (if instrumentId = [] \<or>
         classify_quote_availability (Some quote) (q_timestamp quote) (Fin 0) \<noteq> None
      then throw ''Shared liquidity requires an identified, valid quote''
      else if \<not> valid_liquidity_terms participation impactBps
      then throw ''Invalid shared liquidity assumptions''
      else Inr \<lparr>el_instrumentId = instrumentId, el_quote = quote,
        el_availableShares = math_floor (q_askSize quote * participation),
        el_consumedShares = Fin 0, el_consumedBidShares = Fin 0,
        el_participation = participation, el_impactBps = impactBps,
        el_processedOrderIds = []\<rparr>)"

definition entry_order_cmp :: "pending_order \<Rightarrow> pending_order \<Rightarrow> jsnum" where
  "entry_order_cmp left right =
     num_or (num_or (date_parse (r_releaseAt left) - date_parse (r_releaseAt right))
       (date_parse (r_submittedAt left) - date_parse (r_submittedAt right)))
       (string_cmp (r_orderId left) (r_orderId right))"

text \<open>The order as the allocation evaluates it: capacity-constrained, with the market impact.\<close>

definition executable_entry :: "entry_liquidity \<Rightarrow> jsnum \<Rightarrow> pending_order \<Rightarrow> pending_order" where
  "executable_entry liquidity remaining order =
     (let slippageBps = a_slippageBps (r_assumptions order) + el_impactBps liquidity in
      order\<lparr>r_assumptions := (r_assumptions order)
          \<lparr>a_executionMode := Some CAPACITY_CONSTRAINED, a_slippageBps := slippageBps,
           a_costs := map_option (\<lambda>c. c\<lparr>c_slippageBps := slippageBps\<rparr>) (a_costs (r_assumptions order))\<rparr>,
        r_context := Some ((coalesce (r_context order) empty_context)
          \<lparr>x_executionMode := Some CAPACITY_CONSTRAINED, x_displayedSize := Some remaining,
           x_maxDisplayedSizeParticipation := Some (Fin 1)\<rparr>)\<rparr>)"

record entry_allocation =
  ea_consumed :: jsnum
  ea_processed :: "string list"
  ea_results :: "pending_order list"

definition entry_skipped :: "entry_liquidity \<Rightarrow> string list \<Rightarrow> pending_order \<Rightarrow> bool" where
  "entry_skipped liquidity processed order \<longleftrightarrow> r_status order \<noteq> PENDING \<or>
     r_orderId order \<in> set processed \<or>
     date_parse (q_timestamp (el_quote liquidity)) < date_parse (r_releaseAt order)"

text \<open>One iteration of the loop.\<close>

definition allocate_entry_step ::
  "entry_liquidity \<Rightarrow> entry_allocation \<Rightarrow> pending_order \<Rightarrow> entry_allocation result" where
  "allocate_entry_step liquidity s order =
     (if entry_skipped liquidity (ea_processed s) order
      then Inr (s\<lparr>ea_results := ea_results s @ [order]\<rparr>)
      else (let remaining = el_availableShares liquidity - ea_consumed s in
       bindR (apply_entry_order_quote (executable_entry liquidity remaining order)
           ((el_quote liquidity)\<lparr>q_askSize := remaining\<rparr>)) (\<lambda>evaluated.
       let after = evaluated\<lparr>r_assumptions := r_assumptions order, r_context := r_context order\<rparr>;
           taken = (case r_execution after of
               Some (QOpen x) \<Rightarrow> if r_status after = FILLED then Some (p_shares (ox_position x)) else None
             | _ \<Rightarrow> None)
       in if (\<exists>shares \<in> set_option taken.
             \<not> is_safe_integer shares \<or> shares < Fin 1 \<or> remaining < shares)
          then throw ''Shared quote capacity exceeded''
          else Inr (s\<lparr>ea_consumed := (case taken of None \<Rightarrow> ea_consumed s
                  | Some shares \<Rightarrow> ea_consumed s + shares),
                ea_processed := ea_processed s @ [r_orderId order],
                ea_results := ea_results s @ [after]\<rparr>))))"

fun allocate_entry_loop ::
  "entry_liquidity \<Rightarrow> entry_allocation \<Rightarrow> pending_order list \<Rightarrow> entry_allocation result" where
  "allocate_entry_loop liquidity s [] = Inr s"
| "allocate_entry_loop liquidity s (order # orders) =
     bindR (allocate_entry_step liquidity s order) (\<lambda>s'. allocate_entry_loop liquidity s' orders)"

text \<open>\<open>results.get(orderId)\<close>; every identifier of the batch has a result.\<close>

definition result_of :: "pending_order list \<Rightarrow> pending_order \<Rightarrow> pending_order" where
  "result_of results order = coalesce (find (\<lambda>r. r_orderId r = r_orderId order) results) order"

definition allocate_entry_liquidity :: "entry_liquidity \<Rightarrow> string \<Rightarrow> pending_order list \<Rightarrow>
    (entry_liquidity \<times> pending_order list) result" where
  "allocate_entry_liquidity liquidity instrumentId orders =
     (if instrumentId \<noteq> el_instrumentId liquidity then throw ''Liquidity instrument mismatch''
      else if \<not> distinct (map r_orderId orders) then throw ''Duplicate order IDs in allocation batch''
      else bindR (allocate_entry_loop liquidity
          \<lparr>ea_consumed = el_consumedShares liquidity, ea_processed = el_processedOrderIds liquidity,
           ea_results = []\<rparr> (js_sort entry_order_cmp orders)) (\<lambda>s.
        Inr (liquidity\<lparr>el_consumedShares := ea_consumed s, el_processedOrderIds := ea_processed s\<rparr>,
          map (result_of (ea_results s)) orders)))"

section \<open>The order of service\<close>

definition entry_key :: "pending_order \<Rightarrow> int \<times> int \<times> string" where
  "entry_key r = (int_of (date_parse (r_releaseAt r)), int_of (date_parse (r_submittedAt r)), r_orderId r)"

definition dated_order :: "pending_order \<Rightarrow> bool" where
  "dated_order r \<longleftrightarrow> is_finite (date_parse (r_releaseAt r)) \<and> is_finite (date_parse (r_submittedAt r))"

lemma entry_order_cmp_key:
  assumes "dated_order x" "dated_order y"
  shows "Fin 0 < entry_order_cmp x y \<longleftrightarrow> entry_key y < entry_key x"
proof -
  obtain rx where rx: "date_parse (r_releaseAt x) = num rx" "\<bar>rx\<bar> \<le> max_time"
    using assms by (auto simp: dated_order_def elim: date_parse_finite)
  obtain sx where sx: "date_parse (r_submittedAt x) = num sx" "\<bar>sx\<bar> \<le> max_time"
    using assms by (auto simp: dated_order_def elim: date_parse_finite)
  obtain ry where ry: "date_parse (r_releaseAt y) = num ry" "\<bar>ry\<bar> \<le> max_time"
    using assms by (auto simp: dated_order_def elim: date_parse_finite)
  obtain sy where sy: "date_parse (r_submittedAt y) = num sy" "\<bar>sy\<bar> \<le> max_time"
    using assms by (auto simp: dated_order_def elim: date_parse_finite)
  obtain d where d: "num rx - num ry = Fin d" "0 < d \<longleftrightarrow> ry < rx" "d = 0 \<longleftrightarrow> rx = ry"
    using time_diff [OF rx(2) ry(2)] by auto
  obtain e where e: "num sx - num sy = Fin e" "0 < e \<longleftrightarrow> sy < sx" "e = 0 \<longleftrightarrow> sx = sy"
    using time_diff [OF sx(2) sy(2)] by auto
  show ?thesis
    by (auto simp: entry_order_cmp_def num_or_def rx sx ry sy d e entry_key_def)
qed

interpretation entry_order: keyed_comparator entry_order_cmp entry_key dated_order
  by unfold_locales (rule entry_order_cmp_key)

end
