(* ===== verification/FundedPolicy.thy ===== *)
theory FundedPolicy
  imports PaperTypes
begin

text \<open>
  The versioned portfolio policy of the funded account (\<open>paper-bot/funded-policy.ts\<close>): the
  defaults, the validation of an explicit policy and the canonicality check of a stored one.
  These are the functions on values of the type, which pass the checks of the source on versions
  and flags by construction; the theory StoredPolicy has the same code on the JSON values the
  database returns, which need not have the type, and relates the two. The lemmas say that a built policy satisfies every bound,
  and that canonical policies are exactly the fixed points of normalisation.
\<close>

datatype policy_version = PORTFOLIO_V1 | PORTFOLIO_V2

datatype context_requirement = MARKET_ONLY | MARKET_AND_SECTOR_REQUIRED

record funded_portfolio_policy =
  v_version :: policy_version
  v_maxOpenPositions :: jsnum
  v_maxTotalOpenRisk :: jsnum
  v_maxSymbolNotional :: "jsnum option"
  v_maxSectorNotional :: "jsnum option"
  v_cooldownMinutesAfterStop :: jsnum
  v_maxConsecutiveStops :: jsnum
  v_requireFreshContext :: bool
  v_contextMaxAgeSeconds :: jsnum
  v_vetoOnWeakContext :: bool
  v_contextRequirement :: "context_requirement option"
  v_maximumHoldingMinutes :: "jsnum option"
  v_maximumHoldingMinutesByStrategy :: "(string \<times> jsnum) list option"
  v_stalledBreakoutMinutes :: "jsnum option"
  v_stalledBreakoutMinProgressR :: "jsnum option"

text \<open>\<open>FundedPortfolioPolicyInput\<close>: every field may be absent.\<close>

record portfolio_input =
  u_version :: "policy_version option"
  u_maxOpenPositions :: "jsnum option"
  u_maxTotalOpenRisk :: "jsnum option"
  u_maxSymbolNotional :: "jsnum option"
  u_maxSectorNotional :: "jsnum option"
  u_cooldownMinutesAfterStop :: "jsnum option"
  u_maxConsecutiveStops :: "jsnum option"
  u_requireFreshContext :: "bool option"
  u_contextMaxAgeSeconds :: "jsnum option"
  u_vetoOnWeakContext :: "bool option"
  u_contextRequirement :: "context_requirement option"
  u_maximumHoldingMinutes :: "jsnum option"
  u_maximumHoldingMinutesByStrategy :: "(string \<times> jsnum) list option"
  u_stalledBreakoutMinutes :: "jsnum option"
  u_stalledBreakoutMinProgressR :: "jsnum option"

record funded_policy_t =
  y_participation :: jsnum
  y_impactBps :: jsnum
  y_portfolio :: "funded_portfolio_policy option"

definition default_funded_portfolio_policy :: funded_portfolio_policy where
  "default_funded_portfolio_policy =
     \<lparr>v_version = PORTFOLIO_V2, v_maxOpenPositions = Fin 3, v_maxTotalOpenRisk = Fin 1000,
      v_maxSymbolNotional = None, v_maxSectorNotional = None,
      v_cooldownMinutesAfterStop = Fin 15, v_maxConsecutiveStops = Fin 3,
      v_requireFreshContext = False, v_contextMaxAgeSeconds = Fin 300,
      v_vetoOnWeakContext = False, v_contextRequirement = None,
      v_maximumHoldingMinutes = None, v_maximumHoldingMinutesByStrategy = None,
      v_stalledBreakoutMinutes = None, v_stalledBreakoutMinProgressR = None\<rparr>"

text \<open>The defaults overridden by the entries of the input that are not \<open>undefined\<close>.\<close>

definition merge_portfolio :: "portfolio_input \<Rightarrow> funded_portfolio_policy" where
  "merge_portfolio u = (let d = default_funded_portfolio_policy in
     \<lparr>v_version = coalesce (u_version u) (v_version d),
      v_maxOpenPositions = coalesce (u_maxOpenPositions u) (v_maxOpenPositions d),
      v_maxTotalOpenRisk = coalesce (u_maxTotalOpenRisk u) (v_maxTotalOpenRisk d),
      v_maxSymbolNotional = or_else (u_maxSymbolNotional u) (v_maxSymbolNotional d),
      v_maxSectorNotional = or_else (u_maxSectorNotional u) (v_maxSectorNotional d),
      v_cooldownMinutesAfterStop =
        coalesce (u_cooldownMinutesAfterStop u) (v_cooldownMinutesAfterStop d),
      v_maxConsecutiveStops = coalesce (u_maxConsecutiveStops u) (v_maxConsecutiveStops d),
      v_requireFreshContext = coalesce (u_requireFreshContext u) (v_requireFreshContext d),
      v_contextMaxAgeSeconds = coalesce (u_contextMaxAgeSeconds u) (v_contextMaxAgeSeconds d),
      v_vetoOnWeakContext = coalesce (u_vetoOnWeakContext u) (v_vetoOnWeakContext d),
      v_contextRequirement = or_else (u_contextRequirement u) (v_contextRequirement d),
      v_maximumHoldingMinutes = or_else (u_maximumHoldingMinutes u) (v_maximumHoldingMinutes d),
      v_maximumHoldingMinutesByStrategy =
        or_else (u_maximumHoldingMinutesByStrategy u) (v_maximumHoldingMinutesByStrategy d),
      v_stalledBreakoutMinutes = or_else (u_stalledBreakoutMinutes u) (v_stalledBreakoutMinutes d),
      v_stalledBreakoutMinProgressR =
        or_else (u_stalledBreakoutMinProgressR u) (v_stalledBreakoutMinProgressR d)\<rparr>)"

definition bad_limit :: "jsnum option \<Rightarrow> bool" where
  "bad_limit v \<longleftrightarrow> (case v of None \<Rightarrow> False | Some x \<Rightarrow> \<not> is_finite x \<or> x \<le> Fin 0)"

definition invalid_portfolio :: "funded_portfolio_policy \<Rightarrow> bool" where
  "invalid_portfolio p \<longleftrightarrow>
     (\<exists>v \<in> set ([v_maximumHoldingMinutes p, v_stalledBreakoutMinutes p] @
        map (\<lambda>kv. Some (snd kv)) (coalesce (v_maximumHoldingMinutesByStrategy p) [])). bad_limit v) \<or>
     (case v_stalledBreakoutMinProgressR p of None \<Rightarrow> False | Some x \<Rightarrow> \<not> is_finite x \<or> x < Fin 0) \<or>
     \<not> is_integer (v_maxOpenPositions p) \<or> v_maxOpenPositions p < Fin 1 \<or>
     \<not> is_finite (v_maxTotalOpenRisk p) \<or> v_maxTotalOpenRisk p \<le> Fin 0 \<or>
     \<not> is_integer (v_cooldownMinutesAfterStop p) \<or> v_cooldownMinutesAfterStop p < Fin 0 \<or>
     \<not> is_integer (v_maxConsecutiveStops p) \<or> v_maxConsecutiveStops p < Fin 1 \<or>
     \<not> is_integer (v_contextMaxAgeSeconds p) \<or> v_contextMaxAgeSeconds p < Fin 1 \<or>
     bad_limit (v_maxSymbolNotional p) \<or> bad_limit (v_maxSectorNotional p)"

definition funded_policy :: "jsnum \<Rightarrow> jsnum \<Rightarrow> portfolio_input \<Rightarrow> funded_policy_t result" where
  "funded_policy participation impactBps portfolio =
     (if \<not> is_finite participation \<or> participation \<le> Fin 0 \<or> Fin 1 < participation \<or>
         \<not> is_finite impactBps \<or> impactBps < Fin 0 \<or> Fin 10000 < impactBps
      then throw ''Invalid funded liquidity policy''
      else (let canonicalPortfolio = merge_portfolio portfolio in
        if invalid_portfolio canonicalPortfolio then throw ''Invalid funded portfolio policy''
        else Inr \<lparr>y_participation = participation, y_impactBps = impactBps,
          y_portfolio = Some canonicalPortfolio\<rparr>))"

definition empty_portfolio_input :: portfolio_input where
  "empty_portfolio_input =
     \<lparr>u_version = None, u_maxOpenPositions = None, u_maxTotalOpenRisk = None,
      u_maxSymbolNotional = None, u_maxSectorNotional = None, u_cooldownMinutesAfterStop = None,
      u_maxConsecutiveStops = None, u_requireFreshContext = None, u_contextMaxAgeSeconds = None,
      u_vetoOnWeakContext = None, u_contextRequirement = None, u_maximumHoldingMinutes = None,
      u_maximumHoldingMinutesByStrategy = None, u_stalledBreakoutMinutes = None,
      u_stalledBreakoutMinProgressR = None\<rparr>"

text \<open>A complete portfolio used as an input.\<close>

definition input_of_portfolio :: "funded_portfolio_policy \<Rightarrow> portfolio_input" where
  "input_of_portfolio p =
     \<lparr>u_version = Some (v_version p), u_maxOpenPositions = Some (v_maxOpenPositions p),
      u_maxTotalOpenRisk = Some (v_maxTotalOpenRisk p),
      u_maxSymbolNotional = v_maxSymbolNotional p, u_maxSectorNotional = v_maxSectorNotional p,
      u_cooldownMinutesAfterStop = Some (v_cooldownMinutesAfterStop p),
      u_maxConsecutiveStops = Some (v_maxConsecutiveStops p),
      u_requireFreshContext = Some (v_requireFreshContext p),
      u_contextMaxAgeSeconds = Some (v_contextMaxAgeSeconds p),
      u_vetoOnWeakContext = Some (v_vetoOnWeakContext p),
      u_contextRequirement = v_contextRequirement p,
      u_maximumHoldingMinutes = v_maximumHoldingMinutes p,
      u_maximumHoldingMinutesByStrategy = v_maximumHoldingMinutesByStrategy p,
      u_stalledBreakoutMinutes = v_stalledBreakoutMinutes p,
      u_stalledBreakoutMinProgressR = v_stalledBreakoutMinProgressR p\<rparr>"

definition normalize_funded_policy :: "funded_policy_t \<Rightarrow> funded_policy_t result" where
  "normalize_funded_policy policy =
     bindR (funded_policy (y_participation policy) (y_impactBps policy)
       (case y_portfolio policy of None \<Rightarrow> empty_portfolio_input
         | Some p \<Rightarrow> input_of_portfolio p)) (\<lambda>c.
     let canonical = (if y_portfolio policy = None then c\<lparr>y_portfolio := None\<rparr> else c) in
     if policy \<noteq> canonical then throw ''Non-canonical funded policy'' else Inr canonical)"

section \<open>Canonical policies\<close>

lemma merge_input_of_portfolio [simp]: "merge_portfolio (input_of_portfolio p) = p"
  by (simp add: merge_portfolio_def input_of_portfolio_def default_funded_portfolio_policy_def Let_def)

lemma merge_empty [simp]: "merge_portfolio empty_portfolio_input = default_funded_portfolio_policy"
  by (simp add: merge_portfolio_def empty_portfolio_input_def default_funded_portfolio_policy_def Let_def)

lemma default_portfolio_valid: "\<not> invalid_portfolio default_funded_portfolio_policy"
  by (simp add: invalid_portfolio_def default_funded_portfolio_policy_def bad_limit_def)

lemma funded_policy_Inr:
  "funded_policy participation impactBps u = Inr p \<longleftrightarrow>
     is_finite participation \<and> \<not> participation \<le> Fin 0 \<and> \<not> Fin 1 < participation \<and>
     is_finite impactBps \<and> \<not> impactBps < Fin 0 \<and> \<not> Fin 10000 < impactBps \<and>
     \<not> invalid_portfolio (merge_portfolio u) \<and>
     p = \<lparr>y_participation = participation, y_impactBps = impactBps, y_portfolio = Some (merge_portfolio u)\<rparr>"
  by (auto simp: funded_policy_def Let_def)

lemma normalize_returns_itself: "normalize_funded_policy p = Inr q \<Longrightarrow> q = p"
  by (auto simp: normalize_funded_policy_def Let_def bindR_eq_Inr split: if_splits)

lemma normalize_built: "funded_policy participation impactBps u = Inr p \<Longrightarrow> normalize_funded_policy p = Inr p"
  by (auto simp: normalize_funded_policy_def funded_policy_Inr bindR_eq_Inr)

end
