(* ===== verification/ExitLiquidity.thy ===== *)
theory ExitLiquidity
  imports EntryLiquidity FundedPolicy
begin

text \<open>
  Sharing the bid side of one quote among open positions
  (\<open>paper-bot/shared-exit-liquidity.ts\<close>): each filled order is advanced by the quote with
  the shares the earlier ones left, through the session close, the time exit or the normal
  quote transition.
\<close>

definition exit_order_cmp :: "pending_order \<Rightarrow> pending_order \<Rightarrow> jsnum" where
  "exit_order_cmp left right =
     num_or (date_parse (r_submittedAt left) - date_parse (r_submittedAt right))
       (string_cmp (r_orderId left) (r_orderId right))"

definition breakout_keys :: "string list" where
  "breakout_keys = [''ORB_RETEST'', ''HIGH_OF_DAY_BREAKOUT'', ''PRIOR_DAY_HIGH_BREAKOUT'', ''BULL_FLAG'']"

text \<open>The time-exit controls: those of the portfolio when there is one, else of the order.\<close>

definition exit_context ::
  "pending_order \<Rightarrow> funded_portfolio_policy option \<Rightarrow> sizing_context option" where
  "exit_context order portfolio = (case portfolio of
      None \<Rightarrow> r_context order
    | Some v \<Rightarrow>
       (let strategyKey = Option.bind (r_context order) x_strategyKey in
        Some (empty_context\<lparr>x_strategyKey := strategyKey,
          x_maximumHoldingMinutes := or_else
            (Option.bind (v_maximumHoldingMinutesByStrategy v) (\<lambda>m. map_of m (coalesce strategyKey [])))
            (v_maximumHoldingMinutes v),
          x_stalledBreakoutMinutes := v_stalledBreakoutMinutes v,
          x_stalledBreakoutMinProgressR := v_stalledBreakoutMinProgressR v\<rparr>)))"

definition timed_out :: "sizing_context option \<Rightarrow> open_position \<Rightarrow> quote_fact \<Rightarrow> bool" where
  "timed_out context position quote =
     (let elapsedMinutes =
            (date_parse (q_timestamp quote) - date_parse (p_entryTime position)) / Fin 60000;
          riskPerShare = p_entryPrice position - p_stop position;
          breakout = coalesce (Option.bind context x_strategyKey) [] \<in> set breakout_keys;
          stalled = (breakout \<and>
            (case Option.bind context x_stalledBreakoutMinutes of None \<Rightarrow> False
              | Some minutes \<Rightarrow> minutes \<le> elapsedMinutes) \<and>
            Fin 0 < riskPerShare \<and>
            (q_bid quote - p_entryPrice position) / riskPerShare
              < coalesce (Option.bind context x_stalledBreakoutMinProgressR) (Fin 0))
      in (case Option.bind context x_maximumHoldingMinutes of None \<Rightarrow> False
           | Some minutes \<Rightarrow> minutes \<le> elapsedMinutes) \<or> stalled)"

definition set_position :: "(open_position \<Rightarrow> open_position) \<Rightarrow> open_execution \<Rightarrow> open_execution" where
  "set_position f x = x\<lparr>ox_position := f (ox_position x)\<rparr>"

text \<open>The next state of one position, given the shares still on the bid.\<close>

definition advance_exit :: "pending_order \<Rightarrow> open_execution \<Rightarrow> bool \<Rightarrow> quote_fact \<Rightarrow> jsnum \<Rightarrow>
    string option \<Rightarrow> funded_portfolio_policy option \<Rightarrow> quote_execution_state" where
  "advance_exit order x pending bidFact impactBps sessionCloseAt portfolio =
     (let a = (r_assumptions order)\<lparr>a_slippageBps := a_slippageBps (r_assumptions order) + impactBps\<rparr>;
          constrained = set_position (\<lambda>p. p\<lparr>p_executionMode := Some CAPACITY_CONSTRAINED\<rparr>) x;
          position = ox_position x;
          close = (pending \<or> (case sessionCloseAt of None \<Rightarrow> False
            | Some t \<Rightarrow> date_parse t \<le> date_parse (q_timestamp bidFact)));
          timeExit = (timed_out (exit_context order portfolio) position bidFact \<and>
            p_pendingExitReason position = None \<and>
            p_stop position < q_bid bidFact \<and> q_bid bidFact < p_target position)
      in if close then
           fst (request_quote_session_close
             (if pending then QClosePending constrained else QOpen constrained)
             (coalesce sessionCloseAt (ox_lastFactTimestamp x)) (Some bidFact) a)
         else if timeExit then
           fst (request_quote_time_stop
             (QOpen (set_position (\<lambda>p. p\<lparr>p_pendingExitReason := Some TIME_STOP\<rparr>) constrained)) bidFact a)
         else fst (apply_quote_fact (QOpen constrained) bidFact a))"

definition remaining_after :: "quote_execution_state \<Rightarrow> jsnum" where
  "remaining_after s = (case s of
      QOpen x \<Rightarrow> remaining_of (ox_position x)
    | QClosePending x \<Rightarrow> remaining_of (ox_position x)
    | _ \<Rightarrow> Fin 0)"

record exit_allocation =
  xa_remaining :: jsnum
  xa_updated :: "pending_order list"

definition open_part :: "pending_order \<Rightarrow> (open_execution \<times> bool) option" where
  "open_part order = (if r_status order \<noteq> FILLED then None
     else (case r_execution order of
         Some (QOpen x) \<Rightarrow> Some (x, False)
       | Some (QClosePending x) \<Rightarrow> Some (x, True)
       | _ \<Rightarrow> None))"

definition allocate_exit_step :: "quote_fact \<Rightarrow> jsnum \<Rightarrow> string option \<Rightarrow> funded_portfolio_policy option \<Rightarrow>
    exit_allocation \<Rightarrow> pending_order \<Rightarrow> exit_allocation result" where
  "allocate_exit_step quote impactBps sessionCloseAt portfolio s order =
     (case open_part order of None \<Rightarrow> Inr s
      | Some (x, pending) \<Rightarrow>
        (let remaining = xa_remaining s;
             before = remaining_of (ox_position x);
             after = advance_exit order x pending (quote\<lparr>q_bidSize := remaining\<rparr>) impactBps
               sessionCloseAt portfolio;
             filled = before - remaining_after after
         in if \<not> is_safe_integer filled \<or> filled < Fin 0 \<or> remaining < filled
            then throw ''Shared bid capacity exceeded''
            else Inr \<lparr>xa_remaining = remaining - filled,
              xa_updated = xa_updated s @ [order\<lparr>r_execution := Some after\<rparr>]\<rparr>))"

fun allocate_exit_loop :: "quote_fact \<Rightarrow> jsnum \<Rightarrow> string option \<Rightarrow> funded_portfolio_policy option \<Rightarrow>
    exit_allocation \<Rightarrow> pending_order list \<Rightarrow> exit_allocation result" where
  "allocate_exit_loop quote impactBps sessionCloseAt portfolio s [] = Inr s"
| "allocate_exit_loop quote impactBps sessionCloseAt portfolio s (order # orders) =
     bindR (allocate_exit_step quote impactBps sessionCloseAt portfolio s order)
       (\<lambda>s'. allocate_exit_loop quote impactBps sessionCloseAt portfolio s' orders)"

definition allocate_exit_liquidity :: "pending_order list \<Rightarrow> quote_fact \<Rightarrow> jsnum \<Rightarrow> jsnum \<Rightarrow>
    string option \<Rightarrow> funded_portfolio_policy option \<Rightarrow> (pending_order list \<times> jsnum) result" where
  "allocate_exit_liquidity orders quote participation impactBps sessionCloseAt portfolio =
     (if classify_quote_availability (Some quote) (q_timestamp quote) (Fin 0) \<noteq> None \<or>
         \<not> valid_liquidity_terms participation impactBps
      then throw ''Invalid shared exit quote or assumptions''
      else if sessionCloseAt \<noteq> None \<and> \<not> is_finite (date_parse (the sessionCloseAt))
      then throw ''Invalid session close boundary''
      else if \<not> distinct (map r_orderId orders) then throw ''Duplicate exit order ID''
      else (let capacity = math_floor (q_bidSize quote * participation) in
        bindR (allocate_exit_loop quote impactBps sessionCloseAt portfolio
          \<lparr>xa_remaining = capacity, xa_updated = []\<rparr> (js_sort exit_order_cmp orders)) (\<lambda>s.
        Inr (map (result_of (xa_updated s)) orders, capacity - xa_remaining s))))"

section \<open>The order of service\<close>

definition exit_key :: "pending_order \<Rightarrow> int \<times> string" where
  "exit_key r = (int_of (date_parse (r_submittedAt r)), r_orderId r)"

lemma exit_order_cmp_key:
  assumes "is_finite (date_parse (r_submittedAt x))" "is_finite (date_parse (r_submittedAt y))"
  shows "Fin 0 < exit_order_cmp x y \<longleftrightarrow> exit_key y < exit_key x"
proof -
  obtain sx where sx: "date_parse (r_submittedAt x) = num sx" "\<bar>sx\<bar> \<le> max_time"
    using assms(1) by (rule date_parse_finite)
  obtain sy where sy: "date_parse (r_submittedAt y) = num sy" "\<bar>sy\<bar> \<le> max_time"
    using assms(2) by (rule date_parse_finite)
  obtain e where e: "num sx - num sy = Fin e" "0 < e \<longleftrightarrow> sy < sx" "e = 0 \<longleftrightarrow> sx = sy"
    using time_diff [OF sx(2) sy(2)] by auto
  show ?thesis by (auto simp: exit_order_cmp_def num_or_def sx sy e exit_key_def)
qed

interpretation exit_order: keyed_comparator exit_order_cmp exit_key "\<lambda>r. is_finite (date_parse (r_submittedAt r))"
  by unfold_locales (rule exit_order_cmp_key)

end
