(* ===== verification/LiquidityProperties.thy ===== *)
theory LiquidityProperties
  imports OrderProperties ExitLiquidity
begin

text \<open>
  One quote shared by many orders: the allocations never hand out more shares than the quote
  has, their internal capacity errors cannot occur, they do not depend on the order of the
  batch, and repeating one changes nothing.
\<close>

section \<open>An entry never exceeds the shares left\<close>

lemma entry_caps:
  assumes "evaluate_quote_entry signal (Some quote) a context decision = Inr (EntryOpen out)"
    "(cap, limit) \<in> set (size_limits (sizing_input (apply_entry_slippage (q_ask quote) (a_slippageBps a))
       (o_stop out) (o_target out) a
       (entry_sizing_context quote (entry_execution_mode a context) (entry_latency a context) context)))"
  shows "\<not> limit < o_shares out"
  using assms(1)
proof (rule evaluate_quote_entry_open)
  fix quote' levels sized
  assume "Some quote = Some quote'"
    and sz: "size_entry_with_assumptions (apply_entry_slippage (q_ask quote') (a_slippageBps a))
       (l_stop levels) (l_target levels) a
       (entry_sizing_context quote' (entry_execution_mode a context) (entry_latency a context) context)
       = Inr sized"
    and "o_stop out = l_stop levels" "o_target out = l_target levels" "o_shares out = z_shares sized"
  then show "\<not> limit < o_shares out" using sized_shares(6) [OF sz] assms(2) by simp
qed

lemma displayed_entry_bound:
  assumes "evaluate_quote_entry signal (Some quote) a (Some c) decision = Inr (EntryOpen out)"
    "x_displayedSize c = Some (num m)" "x_maxDisplayedSizeParticipation c = Some (Fin 1)"
    "0 \<le> m" "m \<le> 2 ^ 53"
  obtains k where "o_shares out = num k" "1 \<le> k" "k \<le> m"
proof -
  let ?c = "entry_sizing_context quote (entry_execution_mode a (Some c)) (entry_latency a (Some c)) (Some c)"
  let ?n = "sizing_input (apply_entry_slippage (q_ask quote) (a_slippageBps a)) (o_stop out) (o_target out) a ?c"
  obtain c' where c': "effective_context a ?c = Some c'" "x_displayedSize c' = Some (num m)"
    "x_maxDisplayedSizeParticipation c' = Some (Fin 1)"
    using assms(2,3) by (auto simp: effective_context_def entry_sizing_context_def Let_def)
  have "(DISPLAYED_SIZE_PARTICIPATION, math_floor (num m * Fin 1)) \<in> set (size_limits ?n)"
    using c' by (intro displayed_size_limit [of c']) (auto simp: participation_of_def sizing_input_def)
  moreover have "num m * Fin 1 = num m" using num_mult [of m 1] assms(4,5) by simp
  ultimately have "\<not> num m < o_shares out" using entry_caps [OF assms(1)] by fastforce
  moreover have sh: "integral (o_shares out)" "Fin 1 \<le> o_shares out" using entry_shares [OF assms(1)] by auto
  ultimately have le: "o_shares out \<le> num m" by (cases "o_shares out") auto
  have "rat_of_int m \<le> of_int (2 ^ 53)" using assms(5) by (simp only: of_int_le_iff)
  then have "num m \<le> Fin (2 ^ 53)" by simp
  then obtain k where "o_shares out = num k" "1 \<le> k"
    by (rule integral_bounded [OF sh js_le_trans [OF le]])
  with le that show ?thesis by simp
qed

text \<open>The shares that an order has bought in this call.\<close>

definition bought :: "pending_order \<Rightarrow> int" where
  "bought order = (case r_execution order of
      Some (QOpen x) \<Rightarrow> if r_status order = FILLED then int_of (p_shares (ox_position x)) else 0
    | _ \<Rightarrow> 0)"

lemma order_fill_bound:
  assumes "apply_entry_order_quote (executable_entry liquidity (num m) order) quote = Inr order'"
    "r_status order = PENDING" "r_status order' = FILLED" "0 \<le> m" "m \<le> 2 ^ 53"
  obtains x k where "r_execution order' = Some (QOpen x)" "p_shares (ox_position x) = num k" "1 \<le> k" "k \<le> m"
proof -
  let ?o = "executable_entry liquidity (num m) order"
  have p: "r_status ?o = PENDING" using assms(2) by (simp add: executable_entry_def Let_def)
  have st: "order_step ?o quote = order'" using assms(1) by (simp add: order_step_def)
  obtain execution where e: "evaluation_of ?o quote = Inr execution"
    "settle_order_execution ?o quote execution = Inr order'"
  proof (cases rule: order_step_cases [of ?o quote])
    case same
    then show ?thesis using st assms(3) p by simp
  next
    case (expired expires)
    then have "r_status order' = CANCELLED" using st by (metis pending_order.select_convs(2)
      pending_order.surjective pending_order.update_convs(2,11))
    then show ?thesis using assms(3) by simp
  next
    case (settled expires execution order'')
    then show ?thesis using st that by simp
  qed
  from e(2) obtain x l where x: "execution = QOpen x" "r_execution order' = Some (QOpen (filled_execution ?o l x))"
    by (cases rule: settle_order_cases) (use assms(3) p in auto)
  obtain c where c: "r_context ?o = Some c" "x_displayedSize c = Some (num m)"
    "x_maxDisplayedSizeParticipation c = Some (Fin 1)"
    by (auto simp: executable_entry_def Let_def)
  from e(1) [unfolded x(1) evaluation_of_def] obtain out where
    out: "evaluate_quote_entry (r_signal ?o) (Some quote) ((r_assumptions ?o)\<lparr>a_latencyMs := Some (Fin 0)\<rparr>)
        (map_option (\<lambda>c. c\<lparr>x_latencyMs := Some (Fin 0)\<rparr>) (r_context ?o)) (Some (q_timestamp quote))
        = Inr (EntryOpen out)"
    "ox_position x = position_of_entry out"
    by (rule create_quote_execution_open)
  obtain k where "o_shares out = num k" "1 \<le> k" "k \<le> m"
    by (rule displayed_entry_bound [OF out(1) [unfolded c(1), simplified]]) (use c assms(4,5) in auto)
  then show ?thesis
    using that [OF x(2)] out(2) by (simp add: filled_execution_def position_of_entry_def)
qed

section \<open>One iteration of the entry allocation\<close>

text \<open>The shares bought by an order in this allocation: it was pending before.\<close>

definition newly_bought :: "pending_order \<Rightarrow> pending_order \<Rightarrow> int" where
  "newly_bought before after = (if r_status before = PENDING then bought after else 0)"

lemma newly_bought_self [simp]: "newly_bought order order = 0"
  by (simp add: newly_bought_def bought_def split: option.split quote_execution_state.split)

lemma apply_entry_order_quote_id:
  assumes "apply_entry_order_quote order quote = Inr order'"
  shows "r_orderId order' = r_orderId order"
proof -
  have st: "order_step order quote = order'" using assms by (simp add: order_step_def)
  show ?thesis
  proof (cases rule: order_step_cases [of order quote])
    case (settled expires execution order'')
    then show ?thesis using st by (cases rule: settle_order_cases [OF settled(7)]) auto
  qed (use st in auto)
qed

lemma allocate_entry_step_ok:
  assumes "allocate_entry_step liquidity s order = Inr s'" "el_availableShares liquidity = num a"
    "ea_consumed s = num c" "0 \<le> c" "c \<le> a" "a \<le> 2 ^ 53"
  obtains after c' where "ea_results s' = ea_results s @ [after]" "r_orderId after = r_orderId order"
    "ea_consumed s' = num c'" "c \<le> c'" "c' \<le> a" "c' - c = newly_bought order after"
    "ea_processed s' = (if entry_skipped liquidity (ea_processed s) order then ea_processed s
       else ea_processed s @ [r_orderId order])"
proof (cases "entry_skipped liquidity (ea_processed s) order")
  case True
  then have "s' = s\<lparr>ea_results := ea_results s @ [order]\<rparr>"
    using assms(1) by (simp add: allocate_entry_step_def)
  then show ?thesis using that [of order c] True assms(3-5) by simp
next
  case False
  define m where "m = a - c"
  have m: "0 \<le> m" "m \<le> 2 ^ 53" using assms(4-6) by (auto simp: m_def)
  have rem: "el_availableShares liquidity - ea_consumed s = num m"
    unfolding m_def assms(2,3) using assms(4-6) by (intro num_diff) auto
  have pend: "r_status order = PENDING" using False by (simp add: entry_skipped_def)
  let ?q = "(el_quote liquidity)\<lparr>q_askSize := num m\<rparr>"
  obtain evaluated where ev: "apply_entry_order_quote (executable_entry liquidity (num m) order) ?q = Inr evaluated"
    using assms(1) False rem by (auto simp: allocate_entry_step_def Let_def bindR_eq_Inr)
  let ?after = "evaluated\<lparr>r_assumptions := r_assumptions order, r_context := r_context order\<rparr>"
  have oid: "r_orderId ?after = r_orderId order"
    using apply_entry_order_quote_id [OF ev] by (simp add: executable_entry_def Let_def)
  show ?thesis
  proof (cases "r_status evaluated = FILLED")
    case filled: True
    obtain x k where x: "r_execution evaluated = Some (QOpen x)" "p_shares (ox_position x) = num k"
      "1 \<le> k" "k \<le> m"
      using order_fill_bound [OF ev pend filled m] by blast
    have sum: "ea_consumed s + num k = num (c + k)"
      unfolding assms(3) using x(3,4) assms(4-6) by (intro num_add) (auto simp: m_def)
    have b: "newly_bought order ?after = k"
      using pend filled x by (simp add: newly_bought_def bought_def)
    have "ea_results s' = ea_results s @ [?after]" "ea_consumed s' = num (c + k)"
      "ea_processed s' = ea_processed s @ [r_orderId order]"
      using assms(1) False rem ev filled x sum
      by (auto simp: allocate_entry_step_def Let_def split: if_splits)
    then show ?thesis
      using that [of ?after "c + k"] oid b x(3,4) False by (simp add: m_def)
  next
    case False': False
    have b: "newly_bought order ?after = 0"
      using False' by (simp add: newly_bought_def bought_def split: option.split quote_execution_state.split)
    have "ea_results s' = ea_results s @ [?after]" "ea_consumed s' = num c"
      "ea_processed s' = ea_processed s @ [r_orderId order]"
      using assms(1,3) False rem ev False'
      by (auto simp: allocate_entry_step_def Let_def split: if_splits option.splits quote_execution_state.splits)
    then show ?thesis using that [of ?after c] oid b assms(5) False by simp
  qed
qed

section \<open>The entry allocation\<close>

lemma entry_skipped_mono:
  "entry_skipped liquidity processed order \<Longrightarrow> set processed \<subseteq> set processed' \<Longrightarrow>
     entry_skipped liquidity processed' order"
  by (auto simp: entry_skipped_def)

lemma allocate_entry_loop_ok:
  assumes "allocate_entry_loop liquidity s orders = Inr s'" "el_availableShares liquidity = num a"
    "ea_consumed s = num c" "0 \<le> c" "c \<le> a" "a \<le> 2 ^ 53"
  obtains afters c' where "ea_results s' = ea_results s @ afters"
    "map r_orderId afters = map r_orderId orders" "ea_consumed s' = num c'" "c \<le> c'" "c' \<le> a"
    "c' - c = sum_list (map2 newly_bought orders afters)"
    "set (ea_processed s) \<subseteq> set (ea_processed s')"
    "\<forall>r \<in> set afters. entry_skipped liquidity (ea_processed s') r"
proof -
  have "\<exists>afters c'. ea_results s' = ea_results s @ afters \<and>
    map r_orderId afters = map r_orderId orders \<and> ea_consumed s' = num c' \<and> c \<le> c' \<and> c' \<le> a \<and>
    c' - c = sum_list (map2 newly_bought orders afters) \<and> set (ea_processed s) \<subseteq> set (ea_processed s') \<and>
    (\<forall>r \<in> set afters. entry_skipped liquidity (ea_processed s') r)"
    using assms(1,3,4,5)
  proof (induction orders arbitrary: s c)
    case (Cons order orders)
    obtain s1 where s1: "allocate_entry_step liquidity s order = Inr s1"
      "allocate_entry_loop liquidity s1 orders = Inr s'"
      using Cons.prems(1) by (auto simp: bindR_eq_Inr)
    obtain after c1 where a1: "ea_results s1 = ea_results s @ [after]" "r_orderId after = r_orderId order"
      "ea_consumed s1 = num c1" "c \<le> c1" "c1 \<le> a" "c1 - c = newly_bought order after"
      "ea_processed s1 = (if entry_skipped liquidity (ea_processed s) order then ea_processed s
       else ea_processed s @ [r_orderId order])"
      using allocate_entry_step_ok [OF s1(1) assms(2) Cons.prems(2-4) assms(6)] by blast
    have c1: "0 \<le> c1" using Cons.prems(3) a1(4) by simp
    obtain afters c' where a2: "ea_results s' = ea_results s1 @ afters"
      "map r_orderId afters = map r_orderId orders" "ea_consumed s' = num c'" "c1 \<le> c'" "c' \<le> a"
      "c' - c1 = sum_list (map2 newly_bought orders afters)" "set (ea_processed s1) \<subseteq> set (ea_processed s')"
      "\<forall>r \<in> set afters. entry_skipped liquidity (ea_processed s') r"
      using Cons.IH [OF s1(2) a1(3) c1 a1(5)] by blast
    have "entry_skipped liquidity (ea_processed s1) after"
    proof (cases "entry_skipped liquidity (ea_processed s) order")
      case True
      then have "after = order" using s1(1) a1(1) by (auto simp: allocate_entry_step_def)
      with True a1(7) show ?thesis by simp
    next
      case False
      then show ?thesis using a1(2,7) by (simp add: entry_skipped_def)
    qed
    then have "entry_skipped liquidity (ea_processed s') after" using a2(7) by (rule entry_skipped_mono)
    moreover have "set (ea_processed s) \<subseteq> set (ea_processed s')" using a1(7) a2(7) by (auto split: if_splits)
    ultimately show ?case
      using a1 a2 by (intro exI [of _ "after # afters"] exI [of _ c']) auto
  qed simp
  with that show ?thesis by blast
qed

lemma find_by_id:
  "distinct (map r_orderId results) \<Longrightarrow> r \<in> set results \<Longrightarrow>
     find (\<lambda>r'. r_orderId r' = r_orderId r) results = Some r"
  by (induction results) (auto simp: image_iff)

text \<open>Looking the results up in any arrangement of the batch gives each order its own result.\<close>

lemma map_result_of:
  assumes "distinct (map r_orderId orders)" "map r_orderId results = map r_orderId orders"
  shows "map (result_of results) orders = results"
proof (rule nth_equalityI)
  show "length (map (result_of results) orders) = length results"
    using assms(2) by (metis length_map)
  fix i assume "i < length (map (result_of results) orders)"
  then have i: "i < length orders" "i < length results" using assms(2) by (auto dest: map_eq_imp_length_eq)
  have "r_orderId (results ! i) = r_orderId (orders ! i)"
    using i assms(2) by (metis nth_map)
  moreover have "distinct (map r_orderId results)" using assms by simp
  ultimately have "result_of results (orders ! i) = results ! i"
    using find_by_id [of results "results ! i"] i by (simp add: result_of_def)
  then show "map (result_of results) orders ! i = results ! i" using i by simp
qed

lemma sum_over_permutation:
  fixes f :: "'a \<Rightarrow> int"
  shows "mset xs = mset ys \<Longrightarrow> sum_list (map f xs) = sum_list (map f ys)"
  by (metis mset_map sum_mset_sum_list)

lemma map2_map: "map2 f xs (map g xs) = map (\<lambda>x. f x (g x)) xs"
  by (induction xs) auto

lemma allocate_entry_liquidity_Inr:
  assumes "allocate_entry_liquidity liquidity instrumentId orders = Inr (liquidity', orders')"
    "el_availableShares liquidity = num a" "el_consumedShares liquidity = num c" "0 \<le> c" "c \<le> a" "a \<le> 2 ^ 53"
  obtains processed c' where
    "liquidity' = liquidity\<lparr>el_consumedShares := num c', el_processedOrderIds := processed\<rparr>"
    "c \<le> c'" "c' \<le> a" "c' - c = sum_list (map2 newly_bought orders orders')"
    "map r_orderId orders' = map r_orderId orders" "distinct (map r_orderId orders)"
    "instrumentId = el_instrumentId liquidity" "\<forall>r \<in> set orders'. entry_skipped liquidity processed r"
proof -
  let ?sorted = "js_sort entry_order_cmp orders"
  from assms(1) obtain s' where i: "instrumentId = el_instrumentId liquidity"
    and d: "distinct (map r_orderId orders)"
    and l: "allocate_entry_loop liquidity \<lparr>ea_consumed = el_consumedShares liquidity,
      ea_processed = el_processedOrderIds liquidity, ea_results = []\<rparr> ?sorted = Inr s'"
    and lq: "liquidity' = liquidity\<lparr>el_consumedShares := ea_consumed s', el_processedOrderIds := ea_processed s'\<rparr>"
    and os: "orders' = map (result_of (ea_results s')) orders"
    by (auto simp: allocate_entry_liquidity_def bindR_eq_Inr split: if_splits)
  obtain afters c' where a: "ea_results s' = afters" "map r_orderId afters = map r_orderId ?sorted"
    "ea_consumed s' = num c'" "c \<le> c'" "c' \<le> a" "c' - c = sum_list (map2 newly_bought ?sorted afters)"
    "\<forall>r \<in> set afters. entry_skipped liquidity (ea_processed s') r"
    by (rule allocate_entry_loop_ok [OF l assms(2)]) (use assms(3-6) in auto)
  have ds: "distinct (map r_orderId ?sorted)"
    using d by (metis mset_eq_imp_distinct_iff mset_js_sort mset_map)
  have ms: "map (result_of afters) ?sorted = afters" by (rule map_result_of [OF ds a(2)])
  then have set: "set orders' = set afters" using os a(1) by (metis set_js_sort set_map)
  have "sum_list (map2 newly_bought ?sorted afters) =
      sum_list (map (\<lambda>r. newly_bought r (result_of afters r)) ?sorted)"
    using map2_map [of newly_bought ?sorted "result_of afters"] ms by simp
  also have "\<dots> = sum_list (map (\<lambda>r. newly_bought r (result_of afters r)) orders)"
    by (rule sum_over_permutation) simp
  also have "\<dots> = sum_list (map2 newly_bought orders orders')"
    by (simp add: os a(1) map2_map)
  finally have sum: "c' - c = sum_list (map2 newly_bought orders orders')" using a(6) by simp
  have idr: "r_orderId (result_of afters r) = r_orderId r" for r
    by (auto simp: result_of_def coalesce_def find_Some_iff split: option.split)
  then have ids: "map r_orderId orders' = map r_orderId orders" by (simp add: os a(1))
  show ?thesis
    using that [of "ea_processed s'" c'] lq a(3,4,5,7) sum ids d i set by simp
qed

section \<open>The capacity error of the entry allocation cannot occur\<close>

lemma create_quote_execution_error:
  assumes "create_quote_execution signal quoteOpt a context decision = Inl e"
  shows "e \<in> {JsError ''Non-zero latency is unsupported: execution requires a contemporaneous quote'',
     JsError ''Cannot derive tick size for an invalid price'', RangeError ''Invalid time value''}"
proof -
  have r: "to_iso_string v = Inl e' \<Longrightarrow> e' = RangeError ''Invalid time value''" for v e'
    by (cases v) (auto simp: Let_def split: if_splits)
  from assms have "evaluate_quote_entry signal quoteOpt a context decision = Inl e"
    by (auto simp: create_quote_execution_def bindR_eq_Inl)
  then show ?thesis
    by (auto simp: evaluate_quote_entry_def Let_def bindR_eq_Inl
      dest: evaluate_economics_error r split: if_splits option.splits sum.splits)
qed

lemma apply_entry_order_quote_error:
  assumes "apply_entry_order_quote order quote = Inl e"
  shows "e \<noteq> JsError ''Shared quote capacity exceeded''"
proof -
  have t: "timestamp v = Inl e' \<Longrightarrow> e' = JsError ''Invalid order timestamp''" for v e'
    by (auto simp: timestamp_def Let_def split: if_splits)
  have s: "settle_order_execution order quote x = Inl e' \<Longrightarrow> e' = JsError ''Invalid order timestamp''" for x e'
    by (cases x) (auto simp: settle_order_execution_def bindR_eq_Inl dest: t split: no_fill_reason.splits)
  have n: "not_after_last_quote v order = Inl e' \<Longrightarrow> e' = JsError ''Invalid order timestamp''" for v e'
    by (auto simp: not_after_last_quote_def bindR_eq_Inl dest: t split: option.splits)
  have x: "expire_entry_order order v = Inl e' \<Longrightarrow> e' = JsError ''Invalid order timestamp''" for v e'
    by (auto simp: expire_entry_order_def bindR_eq_Inl dest: t split: if_splits)
  have c: "create_quote_execution sg qo a cx d = Inl e' \<Longrightarrow>
      e' \<noteq> JsError ''Shared quote capacity exceeded''" for sg qo a cx d e'
    using create_quote_execution_error by fastforce
  from assms show ?thesis
    by (auto simp: apply_entry_order_quote_def bindR_eq_Inl bindR_eq_Inr dest: t s n x c split: if_splits)
qed

lemma allocate_entry_step_error:
  assumes "el_availableShares liquidity = num a" "ea_consumed s = num c" "0 \<le> c" "c \<le> a" "a \<le> 2 ^ 53 - 1"
  shows "allocate_entry_step liquidity s order \<noteq> throw ''Shared quote capacity exceeded''"
proof
  assume err: "allocate_entry_step liquidity s order = throw ''Shared quote capacity exceeded''"
  define m where "m = a - c"
  have m: "0 \<le> m" "m \<le> 2 ^ 53 - 1" using assms(3-5) by (auto simp: m_def)
  have rem: "el_availableShares liquidity - ea_consumed s = num m"
    unfolding m_def assms(1,2) using assms(3-5) by (intro num_diff) auto
  have ns: "\<not> entry_skipped liquidity (ea_processed s) order"
    using err by (auto simp: allocate_entry_step_def split: if_splits)
  then have pend: "r_status order = PENDING" by (simp add: entry_skipped_def)
  let ?q = "(el_quote liquidity)\<lparr>q_askSize := num m\<rparr>"
  obtain evaluated where ev: "apply_entry_order_quote (executable_entry liquidity (num m) order) ?q = Inr evaluated"
    using err ns rem apply_entry_order_quote_error
    by (cases "apply_entry_order_quote (executable_entry liquidity (num m) order) ?q")
      (auto simp: allocate_entry_step_def Let_def)
  have "m \<le> 2 ^ 53" using m(2) by simp
  then have k: "\<exists>x k. r_execution evaluated = Some (QOpen x) \<and> p_shares (ox_position x) = num k \<and> 1 \<le> k \<and> k \<le> m"
    if "r_status evaluated = FILLED"
    using order_fill_bound [OF ev pend that m(1)] by metis
  have "rat_of_int i \<le> of_int (2 ^ 53 - 1)" if "i \<le> m" for i
    using that m(2) by (simp only: of_int_le_iff)
  then have "is_safe_integer (num i) \<and> \<not> num i < Fin 1 \<and> \<not> num m < num i" if "1 \<le> i" "i \<le> m" for i
    using that by simp
  with k show False
    using err ns rem ev
    by (auto simp: allocate_entry_step_def Let_def split: if_splits option.splits quote_execution_state.splits)
qed

lemma allocate_entry_loop_error:
  assumes "el_availableShares liquidity = num a" "ea_consumed s = num c" "0 \<le> c" "c \<le> a" "a \<le> 2 ^ 53 - 1"
  shows "allocate_entry_loop liquidity s orders \<noteq> throw ''Shared quote capacity exceeded''"
  using assms(2-4)
proof (induction orders arbitrary: s c)
  case (Cons order orders)
  show ?case
  proof (cases "allocate_entry_step liquidity s order")
    case (Inl e)
    then show ?thesis using allocate_entry_step_error [OF assms(1) Cons.prems assms(5), of order] by simp
  next
    case (Inr s1)
    have "a \<le> 2 ^ 53" using assms(5) by simp
    then obtain c1 where "ea_consumed s1 = num c1" "c \<le> c1" "c1 \<le> a"
      using allocate_entry_step_ok [OF Inr assms(1) Cons.prems] by metis
    then show ?thesis using Cons.IH [of s1 c1] Cons.prems(2) Inr by simp
  qed
qed simp

section \<open>Repeating an entry allocation\<close>

lemma allocate_entry_loop_skipped:
  "\<forall>r \<in> set orders. entry_skipped liquidity (ea_processed s) r \<Longrightarrow>
     allocate_entry_loop liquidity s orders = Inr (s\<lparr>ea_results := ea_results s @ orders\<rparr>)"
  by (induction orders arbitrary: s) (simp_all add: allocate_entry_step_def)

lemma allocate_entry_liquidity_skipped:
  assumes "instrumentId = el_instrumentId liquidity" "distinct (map r_orderId orders)"
    "\<forall>r \<in> set orders. entry_skipped liquidity (el_processedOrderIds liquidity) r"
  shows "allocate_entry_liquidity liquidity instrumentId orders = Inr (liquidity, orders)"
proof -
  let ?sorted = "js_sort entry_order_cmp orders"
  have "distinct (map r_orderId ?sorted)"
    using assms(2) by (metis mset_eq_imp_distinct_iff mset_js_sort mset_map)
  then have "result_of ?sorted r = r" if "r \<in> set orders" for r
    using find_by_id [of ?sorted r] that by (simp add: result_of_def)
  then have "map (result_of ?sorted) orders = orders" by (simp add: map_idI)
  then show ?thesis
    using assms by (simp add: allocate_entry_liquidity_def allocate_entry_loop_skipped)
qed

section \<open>The exit allocation\<close>

lemma available_exit_shares_pending [simp]:
  "available_exit_shares (p\<lparr>p_pendingExitReason := r\<rparr>) q = available_exit_shares p q"
  by (simp add: available_exit_shares_def remaining_of_def)

lemma remaining_mode [simp]:
  "remaining_of (p\<lparr>p_executionMode := mode\<rparr>) = remaining_of p"
  "position_ok (p\<lparr>p_executionMode := mode\<rparr>) = position_ok p"
  by (simp_all add: remaining_of_def position_ok_def fills_of_def)

text \<open>A state of one position after a quote: what it holds and that its record is in order.\<close>

definition sold_at_most :: "int \<Rightarrow> int \<Rightarrow> quote_execution_state \<Rightarrow> bool" where
  "sold_at_most r m s \<longleftrightarrow> quote_state_ok s \<and> position_in s \<noteq> None \<and>
     (\<exists>r'. remaining_after s = num r' \<and> 0 \<le> r' \<and> r' \<le> r \<and> r - r' \<le> m)"

lemma sold_nothing:
  assumes "position_ok (ox_position x)" "remaining_of (ox_position x) = num r" "0 < r" "0 \<le> m"
  shows "sold_at_most r m (QOpen x)" "sold_at_most r m (QClosePending x)"
  using assms by (auto simp: sold_at_most_def remaining_after_def)

lemma sold_by_settlement:
  assumes "position_ok (ox_position x)" "remaining_of (ox_position x) = num r" "0 < r"
    "p_executionMode (ox_position x) = Some CAPACITY_CONSTRAINED"
    "q_bidSize q = num m" "0 \<le> m" "\<not> available_exit_shares (ox_position x) q < Fin 1"
    "xo_filledShares e = Some (available_exit_shares (ox_position x) q)"
  shows "sold_at_most r m (settle_quote_fill pending x e a)"
proof -
  obtain k where k: "available_exit_shares (ox_position x) q = num k" "1 \<le> k" "k \<le> r"
    using evaluate_exit_fill [OF assms(1,7)] assms(2) by (metis jsnum.inject of_int_eq_iff)
  have "k \<le> m"
    using available_exit_shares_capacity [OF assms(4,2), of q] assms(3,5,6) k(1,2) by auto
  have ok: "quote_state_ok (settle_quote_fill pending x e a)"
    using settle_quote_fill_ok [OF assms(1) _ k(2) assms(2) k(3)] assms(8) k(1) by simp
  define d where "d = r - k"
  have "r \<le> 2 ^ 53" using assms(1,2) by (auto simp: position_ok_def)
  then have d: "num r - num k = num d" unfolding d_def using k assms(3) by (intro num_diff) auto
  have d0: "0 \<le> d" "d \<le> r" "r - d \<le> m" using k(2,3) \<open>k \<le> m\<close> by (auto simp: d_def)
  have "remaining_after (settle_quote_fill pending x e a) = num d"
    using assms(2,8) k(1) d d0(1)
    by (auto simp: settle_quote_fill_def Let_def remaining_after_def remaining_of_def)
  moreover have "position_in (settle_quote_fill pending x e a) \<noteq> None"
    by (simp add: settle_quote_fill_def Let_def)
  ultimately show ?thesis using ok d0 by (auto simp: sold_at_most_def)
qed

lemma sold_by_quote:
  assumes "position_ok (ox_position x)" "remaining_of (ox_position x) = num r" "0 < r"
    "p_executionMode (ox_position x) = Some CAPACITY_CONSTRAINED" "q_bidSize q = num m" "0 \<le> m"
  shows "sold_at_most r m (fst (apply_quote_fact (QOpen x) q a))"
    "sold_at_most r m (fst (request_quote_time_stop (QOpen x) q a))"
    "sold_at_most r m (fst (session_close_open pending x boundary (Some q) a))"
proof -
  note none = sold_nothing [OF assms(1-3) assms(6)] and sold = sold_by_settlement [OF assms]
  show "sold_at_most r m (fst (apply_quote_fact (QOpen x) q a))"
  proof (cases "evaluate_quote_exit (ox_position x) q a")
    case None
    have "sold_at_most r m (QOpen (x\<lparr>ox_position := (ox_position x)\<lparr>p_pendingExitReason := d\<rparr>,
        ox_lastFactTimestamp := t\<rparr>))" for d t
      using assms(1-3,6) by (intro sold_nothing) simp_all
    then show ?thesis using None none by (simp add: apply_quote_fact_def)
  next
    case (Some e)
    then show ?thesis using none sold [of e] evaluate_quote_exit_Some(1,4) [OF Some]
      by (simp add: apply_quote_fact_def)
  qed
  show "sold_at_most r m (fst (request_quote_time_stop (QOpen x) q a))"
    using none sold resolve_quote_time_stop_Some(1,2)
    by (auto simp: request_quote_time_stop_def split: option.splits)
  show "sold_at_most r m (fst (session_close_open pending x boundary (Some q) a))"
  proof (cases "resolve_session_close (ox_position x) (Some q) boundary a")
    case ClosePending
    then show ?thesis using none by (simp add: session_close_open_def Let_def)
  next
    case (SessionClosed e)
    then obtain q' where "Some q = Some q'" "\<not> available_exit_shares (ox_position x) q' < Fin 1"
      "xo_filledShares e = Some (available_exit_shares (ox_position x) q')"
      by (rule resolve_session_close_Closed)
    then show ?thesis using none sold [of e] SessionClosed by (simp add: session_close_open_def Let_def)
  qed
qed

lemma advance_exit_sold:
  assumes "position_ok (ox_position x)" "remaining_of (ox_position x) = num r" "0 < r"
    "q_bidSize q = num m" "0 \<le> m"
  shows "sold_at_most r m (advance_exit order x pending q impactBps sessionCloseAt portfolio)"
proof -
  let ?c = "set_position (\<lambda>p. p\<lparr>p_executionMode := Some CAPACITY_CONSTRAINED\<rparr>) x"
  let ?t = "set_position (\<lambda>p. p\<lparr>p_pendingExitReason := Some TIME_STOP\<rparr>) ?c"
  have c: "position_ok (ox_position ?c)" "remaining_of (ox_position ?c) = num r" "0 < r"
    "p_executionMode (ox_position ?c) = Some CAPACITY_CONSTRAINED"
    and t: "position_ok (ox_position ?t)" "remaining_of (ox_position ?t) = num r" "0 < r"
    "p_executionMode (ox_position ?t) = Some CAPACITY_CONSTRAINED"
    using assms by (simp_all add: set_position_def)
  show ?thesis
    using sold_by_quote [OF c assms(4,5)] sold_by_quote(2) [OF t assms(4,5)]
    by (auto simp: advance_exit_def Let_def request_quote_session_close_def)
qed

text \<open>The shares an order still holds, and an order whose position record is in order.\<close>

definition held :: "pending_order \<Rightarrow> int" where
  "held order = (case open_part order of None \<Rightarrow> 0 | Some (x, _) \<Rightarrow> int_of (remaining_of (ox_position x)))"

definition order_ok :: "pending_order \<Rightarrow> bool" where
  "order_ok order \<longleftrightarrow> (case open_part order of None \<Rightarrow> True
     | Some (x, _) \<Rightarrow> position_ok (ox_position x) \<and> 0 < int_of (remaining_of (ox_position x)))"

lemma held_after:
  assumes "r_status order = FILLED" "sold_at_most r m s" "remaining_after s = num r'"
  shows "held (order\<lparr>r_execution := Some s\<rparr>) = r' \<and> order_ok (order\<lparr>r_execution := Some s\<rparr>)"
  using assms by (cases s) (auto simp: held_def order_ok_def open_part_def sold_at_most_def remaining_after_def)

lemma allocate_exit_step_ok:
  assumes "open_part order = Some (x, pending)" "order_ok order" "xa_remaining s = num m" "0 \<le> m"
    "m \<le> 2 ^ 53 - 1"
  obtains after e where "allocate_exit_step quote impactBps sessionCloseAt portfolio s order =
      Inr \<lparr>xa_remaining = num e, xa_updated = xa_updated s @ [after]\<rparr>"
    "0 \<le> e" "e \<le> m" "m - e = held order - held after" "order_ok after" "r_orderId after = r_orderId order"
proof -
  have p: "position_ok (ox_position x)" "0 < int_of (remaining_of (ox_position x))"
    using assms(1,2) by (simp_all add: order_ok_def)
  obtain n r where r: "remaining_of (ox_position x) = num r" "r \<le> n" "n \<le> 2 ^ 53"
    using p(1) by (rule position_okE)
  have r0: "0 < r" using p(2) r(1) by simp
  have f: "r_status order = FILLED" using assms(1) by (auto simp: open_part_def split: if_splits)
  let ?q = "quote\<lparr>q_bidSize := num m\<rparr>"
  let ?s = "advance_exit order x pending ?q impactBps sessionCloseAt portfolio"
  have sold: "sold_at_most r m ?s" using r0 assms(4) by (intro advance_exit_sold [OF p(1) r(1)]) auto
  then obtain r' where r': "remaining_after ?s = num r'" "0 \<le> r'" "r' \<le> r" "r - r' \<le> m"
    by (auto simp: sold_at_most_def)
  define d where "d = r - r'"
  have d: "0 \<le> d" "d \<le> m" "d \<le> r" using r' by (auto simp: d_def)
  have sub: "num r - num r' = num d" unfolding d_def using r r' r0 by (intro num_diff) auto
  define e where "e = m - d"
  have sub2: "num m - num d = num e" unfolding e_def using d assms(4,5) by (intro num_diff) auto
  have "rat_of_int d \<le> of_int (2 ^ 53 - 1)" using d assms(5) by (simp only: of_int_le_iff)
  then have safe: "is_safe_integer (num d)" "\<not> num d < Fin 0" "\<not> num m < num d" using d by simp_all
  have "allocate_exit_step quote impactBps sessionCloseAt portfolio s order =
      Inr \<lparr>xa_remaining = num e, xa_updated = xa_updated s @ [order\<lparr>r_execution := Some ?s\<rparr>]\<rparr>"
    using assms(1,3) r(1) r'(1) sub sub2 safe by (simp add: allocate_exit_step_def Let_def)
  moreover have h: "held (order\<lparr>r_execution := Some ?s\<rparr>) = r'" "order_ok (order\<lparr>r_execution := Some ?s\<rparr>)"
    using held_after [OF f sold r'(1)] by auto
  moreover have "m - e = held order - r'" using assms(1) r(1) by (simp add: held_def e_def d_def)
  ultimately show ?thesis using that [of e "order\<lparr>r_execution := Some ?s\<rparr>"] d by (simp add: e_def)
qed

lemma allocate_exit_loop_ok:
  assumes "\<forall>r \<in> set orders. order_ok r" "xa_remaining s = num m" "0 \<le> m" "m \<le> 2 ^ 53 - 1"
  shows "\<exists>afters e. allocate_exit_loop quote impactBps sessionCloseAt portfolio s orders =
      Inr \<lparr>xa_remaining = num e, xa_updated = xa_updated s @ afters\<rparr> \<and> 0 \<le> e \<and> e \<le> m \<and>
    map r_orderId afters = map r_orderId (filter (\<lambda>r. open_part r \<noteq> None) orders) \<and>
    m - e = sum_list (map2 (\<lambda>r r'. held r - held r') (filter (\<lambda>r. open_part r \<noteq> None) orders) afters) \<and>
    (\<forall>r \<in> set afters. order_ok r)"
  using assms
proof (induction orders arbitrary: s m)
  case Nil
  then show ?case by (intro exI [of _ "[]"] exI [of _ m]) simp
next
  case (Cons order orders)
  show ?case
  proof (cases "open_part order")
    case None
    then have "allocate_exit_step quote impactBps sessionCloseAt portfolio s order = Inr s"
      by (simp add: allocate_exit_step_def)
    then show ?thesis using Cons None by simp
  next
    case (Some xp)
    then obtain x pending where o: "open_part order = Some (x, pending)" by (cases xp) simp
    have "order_ok order" using Cons.prems(1) by simp
    then obtain after e where a: "allocate_exit_step quote impactBps sessionCloseAt portfolio s order =
        Inr \<lparr>xa_remaining = num e, xa_updated = xa_updated s @ [after]\<rparr>"
      "0 \<le> e" "e \<le> m" "m - e = held order - held after" "order_ok after" "r_orderId after = r_orderId order"
      by (rule allocate_exit_step_ok [OF o _ Cons.prems(2-4)])
    let ?s = "\<lparr>xa_remaining = num e, xa_updated = xa_updated s @ [after]\<rparr>"
    have "\<forall>r \<in> set orders. order_ok r" "xa_remaining ?s = num e" "0 \<le> e" "e \<le> 2 ^ 53 - 1"
      using Cons.prems a(2,3) by auto
    from Cons.IH [OF this] obtain afters e' where b:
      "allocate_exit_loop quote impactBps sessionCloseAt portfolio ?s orders =
        Inr \<lparr>xa_remaining = num e', xa_updated = xa_updated ?s @ afters\<rparr>" "0 \<le> e'" "e' \<le> e"
      "map r_orderId afters = map r_orderId (filter (\<lambda>r. open_part r \<noteq> None) orders)"
      "e - e' = sum_list (map2 (\<lambda>r r'. held r - held r') (filter (\<lambda>r. open_part r \<noteq> None) orders) afters)"
      "\<forall>r \<in> set afters. order_ok r" by blast
    show ?thesis
      using a b o by (intro exI [of _ "after # afters"] exI [of _ e']) simp
  qed
qed

lemma result_of_missing: "\<forall>r' \<in> set results. r_orderId r' \<noteq> r_orderId r \<Longrightarrow> result_of results r = r"
  by (simp add: result_of_def find_None_iff [THEN iffD2])

lemma result_of_closed:
  assumes "distinct (map r_orderId orders)" "map r_orderId afters = map r_orderId (filter P orders)"
    "r \<in> set orders" "\<not> P r"
  shows "result_of afters r = r"
proof (rule result_of_missing, rule ballI)
  fix r' assume "r' \<in> set afters"
  then have "r_orderId r' \<in> set (map r_orderId (filter P orders))"
    unfolding assms(2) [symmetric] by simp
  then obtain r'' where "r'' \<in> set orders" "P r''" "r_orderId r'' = r_orderId r'" by auto
  then show "r_orderId r' \<noteq> r_orderId r" using assms(1,3,4) by (auto simp: distinct_map dest: inj_onD)
qed

lemma sum_over_results:
  assumes "distinct (map r_orderId orders)" "map r_orderId afters = map r_orderId (filter P orders)"
    "\<And>r. g r r = (0::int)"
  shows "sum_list (map (\<lambda>r. g r (result_of afters r)) orders) = sum_list (map2 g (filter P orders) afters)"
proof -
  have "sum_list (map (\<lambda>r. g r (result_of afters r)) orders) =
      sum_list (map (\<lambda>r. g r (result_of afters r)) (filter P orders))"
    using result_of_closed [OF assms(1,2)] assms(3)
    by (intro sum_list_map_filter [symmetric]) auto
  also have "\<dots> = sum_list (map2 g (filter P orders) (map (result_of afters) (filter P orders)))"
    by (simp add: map2_map)
  also have "map (result_of afters) (filter P orders) = afters"
    using assms(1,2) by (intro map_result_of) (auto simp: distinct_map_filter)
  finally show ?thesis .
qed

section \<open>Properties\<close>

text \<open>
  C18: One quote is never sold twice. An entry allocation that starts with \<open>c\<close> of \<open>a\<close>
  shares consumed ends with \<open>c'\<close> consumed, where \<open>c'\<close> is at least \<open>c\<close> and at most \<open>a\<close>, and the
  difference is exactly the number of shares that the orders of the batch have bought in it;
  the orders come back in the batch's own order with their identities.
\<close>

theorem entry_allocation_conserves:
  assumes "allocate_entry_liquidity liquidity instrumentId orders = Inr (liquidity', orders')"
    "el_availableShares liquidity = num a" "el_consumedShares liquidity = num c"
    "0 \<le> c" "c \<le> a" "a \<le> 2 ^ 53"
  shows "\<exists>c'. el_consumedShares liquidity' = num c' \<and> c \<le> c' \<and> c' \<le> a \<and>
     c' - c = sum_list (map2 newly_bought orders orders') \<and>
     map r_orderId orders' = map r_orderId orders"
  by (rule allocate_entry_liquidity_Inr [OF assms]) auto

definition sample_liquidity :: entry_liquidity where
  "sample_liquidity = \<lparr>el_instrumentId = ''SHOP'', el_quote = sample_quote ''14:31:00'' 100 100,
     el_availableShares = num 150, el_consumedShares = Fin 0, el_consumedBidShares = Fin 0,
     el_participation = Fin 1, el_impactBps = Fin 0, el_processedOrderIds = []\<rparr>"

lemma sample_liquidity_allocated:
  "(case allocate_entry_liquidity sample_liquidity ''SHOP'' [sample_order 2, sample_order 1] of
     Inr (liquidity, orders) \<Rightarrow> el_consumedShares liquidity = num 150 | Inl e \<Rightarrow> False)"
  by code_simp

lemma entry_allocation_conserves_witness:
  "\<exists>liquidity orders. allocate_entry_liquidity sample_liquidity ''SHOP'' [sample_order 2, sample_order 1] =
      Inr (liquidity, orders) \<and>
     sum_list (map2 newly_bought [sample_order 2, sample_order 1] orders) = 150"
proof -
  obtain l os where l: "allocate_entry_liquidity sample_liquidity ''SHOP'' [sample_order 2, sample_order 1] =
      Inr (l, os)" "el_consumedShares l = num 150"
    using sample_liquidity_allocated by (auto split: sum.splits)
  have "el_availableShares sample_liquidity = num 150" "el_consumedShares sample_liquidity = num 0"
    by (simp_all add: sample_liquidity_def)
  from entry_allocation_conserves [OF l(1) this] l show ?thesis by fastforce
qed

text \<open>
  The error \<open>Shared quote capacity exceeded\<close> of the entry allocation cannot occur: with
  whole available and consumed shares in range, no batch of orders makes the allocation throw
  it, because the sizing already keeps each fill within the shares left.
\<close>

theorem entry_capacity_error_unreachable:
  assumes "el_availableShares liquidity = num a" "el_consumedShares liquidity = num c"
    "0 \<le> c" "c \<le> a" "a \<le> 2 ^ 53 - 1"
  shows "allocate_entry_liquidity liquidity instrumentId orders \<noteq> throw ''Shared quote capacity exceeded''"
  using allocate_entry_loop_error [of liquidity a "\<lparr>ea_consumed = el_consumedShares liquidity,
      ea_processed = el_processedOrderIds liquidity, ea_results = []\<rparr>" c] assms
  by (auto simp: allocate_entry_liquidity_def bindR_eq_Inl)

lemma entry_capacity_error_unreachable_witness:
  "allocate_entry_liquidity sample_liquidity ''SHOP'' [sample_order 2, sample_order 1] \<noteq>
     throw ''Shared quote capacity exceeded''"
  by (rule entry_capacity_error_unreachable [of _ 150 0]) (simp_all add: sample_liquidity_def)

text \<open>
  C19: The entry allocation is independent of the arrangement of the batch. For a batch of
  orders with parseable dates and different identities, any permutation gives the same
  outcome: the same error, or the same liquidity and the same orders.
\<close>

theorem entry_allocation_order_independent:
  assumes "mset xs = mset ys" "\<forall>r \<in> set xs. dated_order r" "distinct (map r_orderId xs)"
  shows "map_sum id (\<lambda>(l, os). (l, mset os)) (allocate_entry_liquidity liquidity instrumentId xs) =
     map_sum id (\<lambda>(l, os). (l, mset os)) (allocate_entry_liquidity liquidity instrumentId ys)"
proof -
  have "inj_on entry_key (set xs)"
    using assms(3) by (auto simp: inj_on_def entry_key_def distinct_map)
  from entry_order.js_sort_permutation [OF assms(2,1) this]
  have s: "js_sort entry_order_cmp xs = js_sort entry_order_cmp ys" .
  have d: "distinct (map r_orderId ys)"
    using assms(1,3) by (metis mset_eq_imp_distinct_iff mset_map)
  have m: "mset (map f xs) = mset (map f ys)" for f :: "pending_order \<Rightarrow> pending_order"
    using assms(1) by simp
  show ?thesis
    using m by (auto simp: allocate_entry_liquidity_def s d assms(3) bindR_def split: sum.splits)
qed

lemma entry_allocation_order_independent_witness:
  "map_sum id (\<lambda>(l, os). (l, mset os))
     (allocate_entry_liquidity sample_liquidity ''SHOP'' [sample_order 2, sample_order 1]) =
   map_sum id (\<lambda>(l, os). (l, mset os))
     (allocate_entry_liquidity sample_liquidity ''SHOP'' [sample_order 1, sample_order 2])"
proof (rule entry_allocation_order_independent)
  show "\<forall>r \<in> set [sample_order 2, sample_order 1]. dated_order r" by code_simp
  show "distinct (map r_orderId [sample_order 2, sample_order 1])" by code_simp
qed simp

text \<open>
  Repeating an entry allocation with its own results changes nothing: the second run
  returns the same liquidity and the same orders.
\<close>

theorem entry_allocation_idempotent:
  assumes "allocate_entry_liquidity liquidity instrumentId orders = Inr (liquidity', orders')"
    "el_availableShares liquidity = num a" "el_consumedShares liquidity = num c"
    "0 \<le> c" "c \<le> a" "a \<le> 2 ^ 53"
  shows "allocate_entry_liquidity liquidity' instrumentId orders' = Inr (liquidity', orders')"
proof -
  obtain processed c' where
    p: "liquidity' = liquidity\<lparr>el_consumedShares := num c', el_processedOrderIds := processed\<rparr>"
    "map r_orderId orders' = map r_orderId orders" "distinct (map r_orderId orders)"
    "instrumentId = el_instrumentId liquidity" "\<forall>r \<in> set orders'. entry_skipped liquidity processed r"
    using allocate_entry_liquidity_Inr [OF assms] by metis
  show ?thesis
    by (rule allocate_entry_liquidity_skipped) (use p in \<open>simp_all add: entry_skipped_def\<close>)
qed

lemma entry_allocation_idempotent_witness:
  "\<exists>liquidity orders. allocate_entry_liquidity sample_liquidity ''SHOP'' [sample_order 2, sample_order 1] =
      Inr (liquidity, orders) \<and>
     allocate_entry_liquidity liquidity ''SHOP'' orders = Inr (liquidity, orders)"
proof -
  obtain l os where l: "allocate_entry_liquidity sample_liquidity ''SHOP'' [sample_order 2, sample_order 1] =
      Inr (l, os)"
    using sample_liquidity_allocated by (auto split: sum.splits)
  have "el_availableShares sample_liquidity = num 150" "el_consumedShares sample_liquidity = num 0"
    by (simp_all add: sample_liquidity_def)
  from entry_allocation_idempotent [OF l this] l show ?thesis by fastforce
qed

text \<open>
  C20: The exit allocation always succeeds on positions in order and sells exactly what it
  reports: with a usable quote, valid terms and different identities it returns the orders
  with their identities, every position record again in order, and a consumed number of
  shares that is between zero and the participation in the bid and equals the total drop of
  the shares held. Its capacity error cannot occur.
\<close>

theorem exit_allocation_exact:
  assumes "usable_quote quote" "valid_liquidity_terms participation impactBps"
    "\<forall>t \<in> set_option sessionCloseAt. is_finite (date_parse t)" "distinct (map r_orderId orders)"
    "\<forall>r \<in> set orders. order_ok r" "math_floor (q_bidSize quote * participation) = num m"
    "0 \<le> m" "m \<le> 2 ^ 53 - 1"
  shows "\<exists>orders' k. allocate_exit_liquidity orders quote participation impactBps sessionCloseAt portfolio =
       Inr (orders', num k) \<and> 0 \<le> k \<and> k \<le> m \<and>
     k = sum_list (map2 (\<lambda>r r'. held r - held r') orders orders') \<and>
     map r_orderId orders' = map r_orderId orders \<and> (\<forall>r \<in> set orders'. order_ok r)"
proof -
  let ?sorted = "js_sort exit_order_cmp orders" and ?P = "\<lambda>r. open_part r \<noteq> None"
  have ds: "distinct (map r_orderId ?sorted)"
    using assms(4) by (metis mset_eq_imp_distinct_iff mset_js_sort mset_map)
  have "\<forall>r \<in> set ?sorted. order_ok r" using assms(5) by simp
  note loop = allocate_exit_loop_ok [OF this, of "\<lparr>xa_remaining = num m, xa_updated = []\<rparr>" m quote
    impactBps sessionCloseAt portfolio, unfolded exit_allocation.select_convs append_Nil, OF refl assms(7,8)]
  from loop obtain afters e where l: "allocate_exit_loop quote impactBps sessionCloseAt portfolio
      \<lparr>xa_remaining = num m, xa_updated = []\<rparr> ?sorted = Inr \<lparr>xa_remaining = num e, xa_updated = afters\<rparr>"
    "0 \<le> e" "e \<le> m" "map r_orderId afters = map r_orderId (filter ?P ?sorted)"
    "m - e = sum_list (map2 (\<lambda>r r'. held r - held r') (filter ?P ?sorted) afters)"
    "\<forall>r \<in> set afters. order_ok r" by blast
  let ?os = "map (result_of afters) orders"
  define k where "k = m - e"
  have k: "0 \<le> k" "k \<le> m" using l(2,3) by (auto simp: k_def)
  have sub: "num m - num e = num k" unfolding k_def using l(2,3) assms(7,8) by (intro num_diff) auto
  have "k = sum_list (map (\<lambda>r. held r - held (result_of afters r)) ?sorted)"
    using sum_over_results [OF ds l(4), of "\<lambda>r r'. held r - held r'"] l(5) by (simp add: k_def)
  also have "\<dots> = sum_list (map (\<lambda>r. held r - held (result_of afters r)) orders)"
    by (rule sum_over_permutation) simp
  finally have ks: "k = sum_list (map2 (\<lambda>r r'. held r - held r') orders ?os)" by (simp add: map2_map)
  have idr: "r_orderId (result_of afters r) = r_orderId r" for r
    by (auto simp: result_of_def coalesce_def find_Some_iff split: option.split)
  have "order_ok (result_of afters r)" if "r \<in> set orders" for r
    using that assms(5) l(6) by (auto simp: result_of_def coalesce_def find_Some_iff split: option.split)
  then have ok: "\<forall>r \<in> set ?os. order_ok r" by auto
  have "allocate_exit_liquidity orders quote participation impactBps sessionCloseAt portfolio = Inr (?os, num k)"
    using assms l(1) sub by (auto simp: allocate_exit_liquidity_def usable_quote_def)
  then show ?thesis using k ks ok idr by (intro exI [of _ ?os] exI [of _ k]) simp
qed

definition sample_filled :: "int \<Rightarrow> pending_order" where
  "sample_filled n = (sample_order n)\<lparr>r_status := FILLED, r_execution := Some (QOpen (sample_execution None))\<rparr>"

lemma exit_allocation_exact_witness:
  "\<exists>orders k. allocate_exit_liquidity [sample_filled 2, sample_filled 1] (sample_quote ''14:31:00'' 98 99)
      (Fin 1) (Fin 0) None None = Inr (orders, num k) \<and>
     k = sum_list (map2 (\<lambda>r r'. held r - held r') [sample_filled 2, sample_filled 1] orders)"
proof -
  let ?q = "sample_quote ''14:31:00'' 98 99" and ?os = "[sample_filled 2, sample_filled 1]"
  have q: "usable_quote ?q" by code_simp
  have d: "distinct (map r_orderId ?os)" by code_simp
  have r: "\<forall>r \<in> set ?os. order_ok r" by code_simp
  have m: "math_floor (q_bidSize ?q * Fin 1) = num 800" by code_simp
  have v: "valid_liquidity_terms (Fin 1) (Fin 0)" by (simp add: valid_liquidity_terms_def)
  from exit_allocation_exact [OF q v _ d r m, of None None] show ?thesis by auto
qed

end
