(* ===== verification/FundedLedger.thy ===== *)
theory FundedLedger
  imports JsRounding
begin

text \<open>
  The funded account (\<open>paper-bot/funded-ledger.ts\<close>): a ledger of cash, positions and
  reservations that is only changed by events, each with an identity, a time and a currency.
  \<open>apply_ledger_event\<close> is the transition; every check of the source is a branch and every
  \<open>throw\<close> an error value.
\<close>

section \<open>State and events\<close>

record funded_position =
  fp_instrumentId :: string
  fp_shares :: jsnum
  fp_basis :: jsnum
  fp_stop :: jsnum
  fp_mark :: jsnum
  fp_markedAt :: string

record reservation =
  rv_debit :: jsnum
  rv_risk :: jsnum

datatype ledger_action =
    Reserve string jsnum jsnum  \<comment> \<open>orderId, debit, risk\<close>
  | Release string
  | Buy string string string jsnum jsnum jsnum jsnum
      \<comment> \<open>orderId, positionId, instrumentId, shares, price, fee, stop\<close>
  | Sell string jsnum jsnum jsnum  \<comment> \<open>positionId, shares, price, fee\<close>
  | Mark string jsnum  \<comment> \<open>instrumentId, bid\<close>
  | Session string

datatype ledger_currency = LCAD | LUSD

record ledger_event =
  ev_id :: string
  ev_at :: string
  ev_currency :: ledger_currency
  ev_action :: ledger_action

record ledger =
  lg_currency :: ledger_currency
  lg_cash :: jsnum
  lg_session :: string
  lg_openingEquity :: jsnum
  lg_dailyLossLimit :: jsnum
  lg_realizedPnl :: jsnum
  lg_positions :: "(string \<times> funded_position) list"
  lg_reservations :: "(string \<times> reservation) list"
  lg_events :: "ledger_event list"
  lg_lastEventAt :: string

section \<open>Checked values\<close>

definition ledger_money :: "jsnum \<Rightarrow> jsnum result" where
  "ledger_money value = (let units = math_round (value * Fin 10000) in
     if \<not> is_finite value \<or> \<not> is_safe_integer units then throw ''Invalid ledger amount''
     else Inr (units / Fin 10000))"

definition positive :: "jsnum \<Rightarrow> jsnum result" where
  "positive value = (if \<not> is_finite value \<or> value \<le> Fin 0
     then throw ''Expected positive ledger value'' else Inr value)"

definition ledger_time :: "string \<Rightarrow> jsnum result" where
  "ledger_time value = (let parsed = date_parse value in
     if \<not> is_finite parsed then throw ''Invalid ledger time'' else Inr parsed)"

definition create_funded_ledger ::
  "ledger_currency \<Rightarrow> jsnum \<Rightarrow> string \<Rightarrow> string \<Rightarrow> jsnum \<Rightarrow> ledger result" where
  "create_funded_ledger cur cash session instant dailyLossLimit =
     bindR (positive cash) (\<lambda>_. bindR (positive dailyLossLimit) (\<lambda>_. bindR (ledger_time instant) (\<lambda>_.
     if session = [] then throw ''Session is required''
     else bindR (ledger_money cash) (\<lambda>c. bindR (ledger_money dailyLossLimit) (\<lambda>limit.
       Inr \<lparr>lg_currency = cur, lg_cash = c, lg_session = session, lg_openingEquity = c,
         lg_dailyLossLimit = limit, lg_realizedPnl = Fin 0, lg_positions = [],
         lg_reservations = [], lg_events = [], lg_lastEventAt = instant\<rparr>)))))"

section \<open>The account summary\<close>

record account_summary =
  w_cash :: jsnum
  w_equity :: jsnum
  w_marketValue :: jsnum
  w_buyingPower :: jsnum
  w_reservedCash :: jsnum
  w_reservedRisk :: jsnum
  w_openRisk :: jsnum
  w_unrealizedPnl :: jsnum
  w_realizedPnl :: jsnum
  w_dailyPnl :: jsnum
  w_remainingDailyRisk :: jsnum
  w_staleMarks :: bool
  w_entriesAllowed :: bool

definition sum_of :: "('a \<Rightarrow> jsnum) \<Rightarrow> 'a list \<Rightarrow> jsnum" where
  "sum_of f xs = foldl (\<lambda>total x. total + f x) (Fin 0) xs"

text \<open>\<open>positions.some(...)\<close>: stops at the first stale mark, so a later date is not parsed.\<close>

fun some_stale :: "jsnum \<Rightarrow> jsnum \<Rightarrow> funded_position list \<Rightarrow> bool result" where
  "some_stale current maxMarkAgeMs [] = Inr False"
| "some_stale current maxMarkAgeMs (p # ps) = bindR (ledger_time (fp_markedAt p)) (\<lambda>t.
     if maxMarkAgeMs < current - t then Inr True else some_stale current maxMarkAgeMs ps)"

definition funded_account_summary :: "ledger \<Rightarrow> string \<Rightarrow> jsnum \<Rightarrow> account_summary result" where
  "funded_account_summary l instant maxMarkAgeMs =
     (if \<not> is_finite maxMarkAgeMs \<or> maxMarkAgeMs < Fin 0 then throw ''Invalid mark age limit''
      else bindR (ledger_time instant) (\<lambda>current. bindR (ledger_time (lg_lastEventAt l)) (\<lambda>lastAt.
      if current < lastAt then throw ''Summary precedes ledger''
      else (let positions = map snd (lg_positions l); reservations = map snd (lg_reservations l) in
       bindR (ledger_money (sum_of (\<lambda>p. fp_shares p * fp_mark p) positions)) (\<lambda>marketValue.
       bindR (ledger_money (sum_of fp_basis positions)) (\<lambda>basis.
       bindR (ledger_money (sum_of rv_debit reservations)) (\<lambda>reservedCash.
       bindR (ledger_money (sum_of rv_risk reservations)) (\<lambda>reservedRisk.
       bindR (ledger_money (sum_of (\<lambda>p. math_max (Fin 0) (fp_mark p - fp_stop p) * fp_shares p) positions)) (\<lambda>openRisk.
       bindR (ledger_money (lg_cash l + marketValue)) (\<lambda>equity.
       bindR (ledger_money (equity - lg_openingEquity l)) (\<lambda>dailyPnl.
       bindR (some_stale current maxMarkAgeMs positions) (\<lambda>staleMarks.
       bindR (ledger_money (math_max (Fin 0)
         (lg_dailyLossLimit l - math_max (Fin 0) (- dailyPnl) - openRisk - reservedRisk))) (\<lambda>remainingDailyRisk.
       bindR (ledger_money (math_max (Fin 0) (lg_cash l - reservedCash))) (\<lambda>buyingPower.
       bindR (ledger_money (marketValue - basis)) (\<lambda>unrealizedPnl.
       Inr \<lparr>w_cash = lg_cash l, w_equity = equity, w_marketValue = marketValue,
         w_buyingPower = buyingPower, w_reservedCash = reservedCash, w_reservedRisk = reservedRisk,
         w_openRisk = openRisk, w_unrealizedPnl = unrealizedPnl, w_realizedPnl = lg_realizedPnl l,
         w_dailyPnl = dailyPnl, w_remainingDailyRisk = remainingDailyRisk, w_staleMarks = staleMarks,
         w_entriesAllowed = (\<not> staleMarks \<and> - lg_dailyLossLimit l < dailyPnl)\<rparr>)))))))))))))))"

section \<open>Events\<close>

text \<open>
  The fields an event may change (\<open>cash\<close>, \<open>realizedPnl\<close>, \<open>openingEquity\<close>, \<open>session\<close>,
  \<open>positions\<close>, \<open>reservations\<close>): each kind of event is one function on the ledger, given the
  summary of the state before it.
\<close>

definition apply_reserve :: "ledger \<Rightarrow> account_summary \<Rightarrow> string \<Rightarrow> jsnum \<Rightarrow> jsnum \<Rightarrow> ledger result" where
  "apply_reserve l w orderId debit0 risk0 =
     bindR (bindR (positive debit0) ledger_money) (\<lambda>debit.
     bindR (bindR (positive risk0) ledger_money) (\<lambda>risk.
     if orderId = [] \<or> map_of (lg_reservations l) orderId \<noteq> None
     then throw ''Duplicate or missing reservation''
     else if \<not> w_entriesAllowed w \<or> w_buyingPower w < debit \<or> w_remainingDailyRisk w < risk
     then Inl (FundedRiskVeto orderId ''Funded account risk or buying power veto''
       ''DAILY_LOSS_OR_BUYING_POWER'')
     else Inr (l\<lparr>lg_reservations :=
       AList.update orderId \<lparr>rv_debit = debit, rv_risk = risk\<rparr> (lg_reservations l)\<rparr>)))"

definition apply_release :: "ledger \<Rightarrow> string \<Rightarrow> ledger result" where
  "apply_release l orderId = Inr (l\<lparr>lg_reservations := AList.delete orderId (lg_reservations l)\<rparr>)"

text \<open>The checks shared by fills: a whole quantity, a non-negative fee, a positive price.\<close>

definition check_fill :: "jsnum \<Rightarrow> jsnum \<Rightarrow> jsnum \<Rightarrow> jsnum result" where
  "check_fill shares price fee =
     (if \<not> is_safe_integer shares \<or> shares < Fin 1 \<or> fee < Fin 0
      then throw ''Invalid fill quantity or fee''
      else bindR (positive price) (\<lambda>_. bindR (ledger_money fee) (\<lambda>_. ledger_money (price * shares))))"

definition apply_buy :: "ledger \<Rightarrow> account_summary \<Rightarrow> string \<Rightarrow> string \<Rightarrow> string \<Rightarrow> string \<Rightarrow> jsnum \<Rightarrow>
    jsnum \<Rightarrow> jsnum \<Rightarrow> jsnum \<Rightarrow> ledger result" where
  "apply_buy l w instant orderId positionId instrumentId shares price fee stop =
     bindR (check_fill shares price fee) (\<lambda>value.
     bindR (positive stop) (\<lambda>_.
     bindR (ledger_money (value + fee)) (\<lambda>debit.
     bindR (ledger_money ((price - stop) * shares + fee)) (\<lambda>risk.
     case map_of (lg_reservations l) orderId of
       None \<Rightarrow> throw ''Invalid funded entry''
     | Some rv \<Rightarrow>
       if positionId = [] \<or> instrumentId = [] \<or> map_of (lg_positions l) positionId \<noteq> None \<or> price \<le> stop
       then throw ''Invalid funded entry''
       else (let capacity = lg_dailyLossLimit l - math_max (Fin 0) (- w_dailyPnl w)
              - w_openRisk w - w_reservedRisk w + rv_risk rv in
         if \<not> w_entriesAllowed w \<or> rv_debit rv < debit \<or> lg_cash l < debit \<or> rv_risk rv < risk \<or>
           capacity < risk
         then Inl (FundedRiskVeto orderId ''Fill exceeds funded reservation'' ''FILL_EXCEEDS_RESERVATION'')
         else bindR (ledger_money (lg_cash l - debit)) (\<lambda>cash.
           Inr (l\<lparr>lg_cash := cash,
             lg_positions := AList.update positionId
               \<lparr>fp_instrumentId = instrumentId, fp_shares = shares, fp_basis = debit, fp_stop = stop,
                fp_mark = price, fp_markedAt = instant\<rparr> (lg_positions l),
             lg_reservations := AList.delete orderId (lg_reservations l)\<rparr>)))))))"

definition apply_sell :: "ledger \<Rightarrow> string \<Rightarrow> jsnum \<Rightarrow> jsnum \<Rightarrow> jsnum \<Rightarrow> ledger result" where
  "apply_sell l positionId shares price fee =
     bindR (check_fill shares price fee) (\<lambda>value.
     case map_of (lg_positions l) positionId of
       None \<Rightarrow> throw ''Sell exceeds owned quantity''
     | Some p \<Rightarrow>
       if fp_shares p < shares then throw ''Sell exceeds owned quantity''
       else bindR (if js_eq shares (fp_shares p) then Inr (fp_basis p)
           else ledger_money (fp_basis p * shares / fp_shares p)) (\<lambda>basis.
         bindR (ledger_money (lg_cash l + value - fee)) (\<lambda>cash.
         bindR (ledger_money (lg_realizedPnl l + value - fee - basis)) (\<lambda>realizedPnl.
         if js_eq shares (fp_shares p)
         then Inr (l\<lparr>lg_cash := cash, lg_realizedPnl := realizedPnl,
           lg_positions := AList.delete positionId (lg_positions l)\<rparr>)
         else bindR (ledger_money (fp_basis p - basis)) (\<lambda>rest.
           Inr (l\<lparr>lg_cash := cash, lg_realizedPnl := realizedPnl,
             lg_positions := AList.update positionId
               (p\<lparr>fp_shares := fp_shares p - shares, fp_basis := rest\<rparr>) (lg_positions l)\<rparr>))))))"

definition apply_mark :: "ledger \<Rightarrow> string \<Rightarrow> string \<Rightarrow> jsnum \<Rightarrow> ledger result" where
  "apply_mark l instant instrumentId bid =
     bindR (positive bid) (\<lambda>_.
     Inr (l\<lparr>lg_positions := map (\<lambda>(k, p). (k, if fp_instrumentId p = instrumentId
       then p\<lparr>fp_mark := bid, fp_markedAt := instant\<rparr> else p)) (lg_positions l)\<rparr>))"

definition apply_session :: "ledger \<Rightarrow> account_summary \<Rightarrow> string \<Rightarrow> ledger result" where
  "apply_session l w session =
     (if session = [] \<or> session \<le> lg_session l \<or> w_staleMarks w \<or> lg_reservations l \<noteq> []
      then throw ''Session rollover requires fresh marks, no reservations and a later session''
      else Inr (l\<lparr>lg_session := session, lg_openingEquity := w_equity w, lg_realizedPnl := Fin 0\<rparr>))"

definition apply_action :: "ledger \<Rightarrow> account_summary \<Rightarrow> ledger_event \<Rightarrow> ledger result" where
  "apply_action l w e = (case ev_action e of
      Reserve orderId debit risk \<Rightarrow> apply_reserve l w orderId debit risk
    | Release orderId \<Rightarrow> apply_release l orderId
    | Buy orderId positionId instrumentId shares price fee stop \<Rightarrow>
        apply_buy l w (ev_at e) orderId positionId instrumentId shares price fee stop
    | Sell positionId shares price fee \<Rightarrow> apply_sell l positionId shares price fee
    | Mark instrumentId bid \<Rightarrow> apply_mark l (ev_at e) instrumentId bid
    | Session session \<Rightarrow> apply_session l w session)"

definition apply_ledger_event :: "ledger \<Rightarrow> ledger_event \<Rightarrow> jsnum \<Rightarrow> ledger result" where
  "apply_ledger_event l e maxMarkAgeMs =
     (if ev_id e = [] \<or> ev_currency e \<noteq> lg_currency l
      then throw ''Missing event identity or currency mismatch''
      else case find (\<lambda>c. ev_id c = ev_id e) (lg_events l) of
        Some prior \<Rightarrow> if prior \<noteq> e then throw ''Conflicting ledger event retry'' else Inr l
      | None \<Rightarrow>
        bindR (ledger_time (ev_at e)) (\<lambda>t. bindR (ledger_time (lg_lastEventAt l)) (\<lambda>lastAt.
        if t < lastAt then throw ''Out-of-order ledger event''
        else bindR (funded_account_summary l (ev_at e) maxMarkAgeMs) (\<lambda>w.
        bindR (apply_action l w e) (\<lambda>l'.
        Inr (l'\<lparr>lg_events := lg_events l @ [e], lg_lastEventAt := ev_at e\<rparr>))))))"

text \<open>A sequence of events, stopping at the first error.\<close>

definition apply_ledger_events :: "ledger \<Rightarrow> ledger_event list \<Rightarrow> jsnum \<Rightarrow> ledger result" where
  "apply_ledger_events l es maxMarkAgeMs = runR (\<lambda>l e. apply_ledger_event l e maxMarkAgeMs) l es"

end
