(* ===== verification/LedgerLemmas.thy ===== *)
theory LedgerLemmas
  imports FundedLedger
begin

text \<open>
  The books of the funded account in whole units of a ten-thousandth. The ledger computes
  with binary64 numbers; \<open>units\<close> reads an amount as an integer, and the lemmas \<open>amount_*\<close> say
  that on amounts of at most 10 million the ledger's sums, differences and roundings compute
  exactly what integer arithmetic computes. \<open>books_ok\<close> is the invariant of the state, one
  lemma per kind of event says what it does to the integer books, and the interpretation
  \<open>ledger_log\<close> of \<open>event_log\<close> gives the behaviour of retries.
\<close>

section \<open>Amounts as integers\<close>

definition units :: "jsnum \<Rightarrow> int" where
  "units v = int_of (math_round (v * num 10000))"

text \<open>\<open>amount v u d\<close>: the double \<open>v\<close> is within \<open>d\<close> of \<open>u\<close> units.\<close>

definition amount :: "jsnum \<Rightarrow> int \<Rightarrow> rat \<Rightarrow> bool" where
  "amount v u d \<longleftrightarrow> (\<exists>x. v = Fin x \<and> near 10000 x u d)"

abbreviation money_of :: "int \<Rightarrow> jsnum" where
  "money_of u \<equiv> Fin (grid 10000 u)"

lemma amount_money_of: "\<bar>u\<bar> \<le> 2 ^ 40 \<Longrightarrow> amount (money_of u) u (1 / 4096)"
  using near_grid [of 10000 u] by (simp add: amount_def)

lemma amount_add:
  assumes "amount a u d" "amount b v e" "\<bar>u + v\<bar> \<le> 2 ^ 40" "d + e \<le> 1 / 2"
  shows "amount (a + b) (u + v) (d + e + 1 / 4096)"
proof -
  from assms(1,2) obtain x y where ab: "a = Fin x" "b = Fin y" and n: "near 10000 (x + y) (u + v) (d + e)"
    by (auto simp: amount_def dest: near_add)
  have "\<bar>x + y\<bar> \<le> 2 ^ 41" using assms(3,4) by (intro near_fl_bound [OF _ n]) auto
  then have "\<bar>x + y\<bar> \<le> 2 ^ 900" by (rule order_trans) (rule power_increasing, auto)
  moreover have "near 10000 (fl (x + y)) (u + v) (d + e + 1 / 4096)"
    using assms(3,4) by (intro near_fl [OF _ _ n]) auto
  ultimately show ?thesis by (simp add: amount_def ab js_small)
qed

lemma amount_uminus: "amount a u d \<Longrightarrow> amount (- a) (- u) d"
  by (auto simp: amount_def near_uminus)

lemma amount_diff:
  assumes "amount a u d" "amount b v e" "\<bar>u - v\<bar> \<le> 2 ^ 40" "d + e \<le> 1 / 2"
  shows "amount (a - b) (u - v) (d + e + 1 / 4096)"
  using amount_add [OF assms(1) amount_uminus [OF assms(2)]] assms(3,4) by (simp add: minus_jsnum_def)

lemma amount_round:
  assumes "amount v u d" "d \<le> 1 / 4" "\<bar>u\<bar> \<le> 2 ^ 40"
  shows "math_round (v * num 10000) = num u"
  using assms near_round [of 10000 _ u d] by (auto simp: amount_def)

lemma amount_units: "amount v u d \<Longrightarrow> d \<le> 1 / 4 \<Longrightarrow> \<bar>u\<bar> \<le> 2 ^ 40 \<Longrightarrow> units v = u"
  by (simp only: units_def amount_round int_of.simps floor_of_int)

lemma units_money_of [simp]: "\<bar>u\<bar> \<le> 2 ^ 40 \<Longrightarrow> units (money_of u) = u"
  by (rule amount_units [OF amount_money_of]) auto

lemma safe_num: "\<bar>u\<bar> \<le> 2 ^ 53 - 1 \<Longrightarrow> is_safe_integer (num u)"
proof -
  assume "\<bar>u\<bar> \<le> 2 ^ 53 - 1"
  then have "\<bar>rat_of_int u\<bar> \<le> of_int (2 ^ 53 - 1)" by (simp only: of_int_le_iff flip: of_int_abs)
  then show ?thesis by simp
qed

lemma amount_ledger_money:
  assumes "amount v u d" "d \<le> 1 / 4" "\<bar>u\<bar> \<le> 2 ^ 40"
  shows "ledger_money v = Inr (money_of u)"
proof -
  have "is_finite v" using assms(1) by (auto simp: amount_def)
  moreover have "is_safe_integer (num u)" using assms(3) by (intro safe_num) simp
  moreover have "num u / num 10000 = money_of u" using assms(3) by (intro num_divide_grid) auto
  ultimately show ?thesis
    using amount_round [OF assms] by (simp add: ledger_money_def Let_def)
qed

section \<open>Ledger amounts\<close>

text \<open>Every result of \<open>money\<close> is the double of a whole number of units.\<close>

definition graded :: "jsnum \<Rightarrow> bool" where
  "graded v \<longleftrightarrow> (\<exists>u. v = money_of u)"

text \<open>At most 10 million, so at most \<open>2^37\<close> units.\<close>

definition modest :: "jsnum \<Rightarrow> bool" where
  "modest v \<longleftrightarrow> - Fin 10000000 \<le> v \<and> v \<le> Fin 10000000"

lemma ledger_money_graded:
  assumes "ledger_money v = Inr m"
  shows "graded m"
proof -
  let ?u = "math_round (v * Fin 10000)"
  from assms have m: "m = ?u / Fin 10000" and s: "is_safe_integer ?u"
    by (auto simp: ledger_money_def Let_def split: if_splits)
  from s obtain n where n: "?u = num n" "\<bar>rat_of_int n\<bar> \<le> of_int (2 ^ 53 - 1)"
    by (cases ?u) auto
  have "\<bar>n\<bar> \<le> 2 ^ 53 - 1" using n(2) by (simp only: of_int_le_iff flip: of_int_abs)
  then have "num n / num 10000 = money_of n" by (intro num_divide_grid) linarith+
  then show ?thesis by (auto simp: graded_def m n(1))
qed

lemma modest_units: "modest (money_of u) \<Longrightarrow> \<bar>u\<bar> \<le> 2 ^ 37"
proof -
  assume u: "modest (money_of u)"
  have lt: "w \<le> 2 ^ 37" if "grid 10000 w \<le> 10000000" for w
  proof (rule ccontr)
    assume "\<not> w \<le> 2 ^ 37"
    then have "grid 10000 130000000000 \<le> grid 10000 w" by (intro grid_mono) auto
    moreover have "grid 10000 130000000000 = 13000000"
      using fl_of_int [of 13000000] by (simp add: grid_def)
    ultimately show False using that by simp
  qed
  have "u \<le> 2 ^ 37" using u lt [of u] by (simp add: modest_def)
  moreover have "- u \<le> 2 ^ 37" using u lt [of "- u"] by (simp add: modest_def grid_uminus)
  ultimately show ?thesis by (simp add: abs_le_iff)
qed

lemma graded_modest:
  assumes "graded v" "modest v"
  obtains u where "v = money_of u" "\<bar>u\<bar> \<le> 2 ^ 37"
  using assms modest_units by (auto simp: graded_def)

lemma graded_0 [simp]: "graded (Fin 0)"
  unfolding graded_def by (rule exI [of _ 0]) simp

lemma modest_0 [simp]: "modest (Fin 0)"
  by (simp add: modest_def)

text \<open>The integer reading of a small ledger amount.\<close>

lemma units_graded:
  assumes "graded v" "modest v"
  shows "v = money_of (units v) \<and> \<bar>units v\<bar> \<le> 2 ^ 37"
  by (rule graded_modest [OF assms]) simp

lemma amount_graded: "graded v \<Longrightarrow> modest v \<Longrightarrow> amount v (units v) (1 / 4096)"
  using units_graded [of v] amount_money_of [of "units v"] by auto

lemma units_le:
  assumes "graded a" "modest a" "graded b" "modest b"
  shows "a \<le> b \<longleftrightarrow> units a \<le> units b"
proof -
  have a: "a = money_of (units a)" "\<bar>units a\<bar> \<le> 2 ^ 40" and b: "b = money_of (units b)" "\<bar>units b\<bar> \<le> 2 ^ 40"
    using units_graded [OF assms(1,2)] units_graded [OF assms(3,4)] by auto
  have "a \<le> b \<longleftrightarrow> grid 10000 (units a) \<le> grid 10000 (units b)" by (subst a(1), subst b(1)) simp
  then show ?thesis using grid_le_iff [OF _ _ a(2) b(2), of 10000] by simp
qed

section \<open>Sums and differences that stay in range\<close>

text \<open>
  When the result of a difference is small, so is the amount taken away: rounding is
  monotone, and an amount out of range would have pushed the result out of range.
\<close>

lemma ledger_money_mono:
  "a \<le> b \<Longrightarrow> ledger_money a = Inr m \<Longrightarrow> ledger_money b = Inr n \<Longrightarrow> m \<le> n"
  by (auto simp: ledger_money_def Let_def js_div_mono math_round_mono js_mult_mono split: if_splits)

lemma js_minus_mono: "a \<le> b \<Longrightarrow> a - Fin c \<le> b - Fin c"
  using js_add_mono [of a b "- c"] by (simp add: minus_jsnum_def)

lemma js_minus_antimono: "a \<le> b \<Longrightarrow> Fin c - b \<le> Fin c - a"
proof -
  assume "a \<le> b"
  then have "- b \<le> - a" by (cases a; cases b) auto
  then have "- b + Fin c \<le> - a + Fin c" by (rule js_add_mono)
  moreover have "x + Fin c = Fin c + x" for x by (cases x) (simp_all add: add.commute)
  ultimately show ?thesis by (simp add: minus_jsnum_def)
qed

lemma money_of_le: "u \<le> v \<Longrightarrow> money_of u \<le> money_of v"
  by (simp add: grid_mono)

lemma modest_upper: "2 ^ 37 < v \<Longrightarrow> money_of v \<le> m \<Longrightarrow> \<not> modest m"
proof
  assume v: "2 ^ 37 < v" "money_of v \<le> m" "modest m"
  have "\<not> modest (money_of v)" using modest_units [of v] v(1) by auto
  moreover have "money_of v \<le> Fin 10000000" using v(3) by (intro js_le_trans [OF v(2)]) (simp add: modest_def)
  moreover have "- Fin 10000000 \<le> money_of v"
    using money_of_le [of 0 v] v(1) by simp
  ultimately show False by (simp add: modest_def)
qed

lemma modest_lower: "v < - (2 ^ 37) \<Longrightarrow> m \<le> money_of v \<Longrightarrow> \<not> modest m"
  using modest_upper [of "- v" "- m"] by (cases m) (auto simp: modest_def grid_uminus)

lemma money_sub:
  assumes "graded a" "modest a" "graded b" "ledger_money (a - b) = Inr m" "modest m"
  shows "b = money_of (units b) \<and> \<bar>units b\<bar> \<le> 2 ^ 38 \<and> units m = units a - units b"
proof -
  let ?u = "units a"
  have u: "\<bar>?u\<bar> \<le> 2 ^ 37" "a = money_of ?u" using units_graded [OF assms(1,2)] by auto
  have exact: "ledger_money (a - money_of v) = Inr (money_of (?u - v))" if "\<bar>v\<bar> \<le> 2 ^ 39" for v
    using that u(1)
    by (intro amount_ledger_money [OF amount_diff [OF amount_graded [OF assms(1,2)] amount_money_of]]) auto
  obtain v where v: "b = money_of v" using assms(3) by (auto simp: graded_def)
  have small: "\<bar>v\<bar> \<le> 2 ^ 39"
  proof (rule ccontr)
    assume "\<not> \<bar>v\<bar> \<le> 2 ^ 39"
    then consider "2 ^ 39 \<le> v" | "v \<le> - (2 ^ 39)" by linarith
    then show False
    proof cases
      case 1
      then have "a - money_of v \<le> a - money_of (2 ^ 39)"
        by (subst (1 2) u(2)) (intro js_minus_antimono money_of_le)
      from ledger_money_mono [OF this assms(4) [unfolded v] exact] have "m \<le> money_of (?u - 2 ^ 39)" by simp
      then have "\<not> modest m" using u(1) by (intro modest_lower) auto
      with assms(5) show False by simp
    next
      case 2
      then have "a - money_of (- (2 ^ 39)) \<le> a - money_of v"
        by (subst (1 2) u(2)) (intro js_minus_antimono money_of_le)
      from ledger_money_mono [OF this exact assms(4) [unfolded v]] have "money_of (?u + 2 ^ 39) \<le> m" by simp
      then have "\<not> modest m" using u(1) by (intro modest_upper) auto
      with assms(5) show False by simp
    qed
  qed
  then have m: "m = money_of (?u - v)" using exact [OF small] assms(4) v by simp
  then have "\<bar>?u - v\<bar> \<le> 2 ^ 37" using assms(5) modest_units by blast
  then have "\<bar>v\<bar> \<le> 2 ^ 38" using u(1) by (simp add: abs_le_iff)
  then show ?thesis using v m u(1) by simp
qed

lemma money_receive:
  assumes "graded c" "modest c" "graded v" "Fin 0 \<le> v" "graded f" "modest f" "Fin 0 \<le> f"
    "ledger_money (c + v - f) = Inr m" "modest m"
  shows "v = money_of (units v) \<and> 0 \<le> units v \<and> units v \<le> 2 ^ 39 \<and> units m = units c + units v - units f"
proof -
  have c: "\<bar>units c\<bar> \<le> 2 ^ 37" "c = money_of (units c)" and f: "\<bar>units f\<bar> \<le> 2 ^ 37" "f = money_of (units f)"
    using units_graded assms by blast+
  have exact: "ledger_money (c + money_of v - f) = Inr (money_of (units c + v - units f))"
    if "0 \<le> v" "v \<le> 2 ^ 39" for v
    using that c(1) f(1)
    by (intro amount_ledger_money [OF amount_diff [OF amount_add [OF amount_graded [OF assms(1,2)]
      amount_money_of] amount_graded [OF assms(5,6)]]]) auto
  obtain u where u: "v = money_of u" using assms(3) by (auto simp: graded_def)
  have f0: "0 \<le> units f" using units_le [OF graded_0 modest_0 assms(5,6)] assms(7)
    units_money_of [of 0] by simp
  have u0: "0 \<le> u"
  proof (rule ccontr)
    assume "\<not> 0 \<le> u"
    then have "money_of u \<le> money_of (- 1)" by (intro money_of_le) simp
    with assms(4) u have "(0::rat) \<le> grid 10000 (- 1)" by simp
    moreover have "near 10000 (grid 10000 (- 1)) (- 1) (1 / 4096)" by (rule near_grid) auto
    ultimately show False by (simp add: near_def abs_le_iff)
  qed
  have u39: "u \<le> 2 ^ 39"
  proof (rule ccontr)
    assume "\<not> u \<le> 2 ^ 39"
    then have le: "money_of (2 ^ 39) \<le> money_of u" by (intro money_of_le) simp
    have com: "money_of (units c) + x = x + money_of (units c)" for x by (cases x) (simp_all add: add.commute)
    have "c + money_of (2 ^ 39) - f \<le> c + money_of u - f"
      by (subst (1 2) c(2), subst (1 2) f(2)) (unfold com, intro js_minus_mono js_add_mono le)
    from ledger_money_mono [OF this exact assms(8) [unfolded u]]
    have "money_of (units c + 2 ^ 39 - units f) \<le> m" by simp
    then have "\<not> modest m" using c(1) f(1) by (intro modest_upper) auto
    with assms(9) show False by simp
  qed
  have m: "m = money_of (units c + u - units f)" using exact [OF u0 u39] assms(8) u by simp
  then have "\<bar>units c + u - units f\<bar> \<le> 2 ^ 37" using assms(9) modest_units by blast
  then show ?thesis using u m u0 u39 by simp
qed

section \<open>What the events require and do\<close>

lemma apply_ledger_eventE:
  assumes "apply_ledger_event l e age = Inr l'"
  obtains "l' = l" "e \<in> set (lg_events l)"
  | w m where "ev_id e \<notin> ev_id ` set (lg_events l)" "funded_account_summary l (ev_at e) age = Inr w"
      "apply_action l w e = Inr m" "l' = m\<lparr>lg_events := lg_events l @ [e], lg_lastEventAt := ev_at e\<rparr>"
      "ev_currency e = lg_currency l" "ev_id e \<noteq> []" "date_parse (lg_lastEventAt l) \<le> date_parse (ev_at e)"
      "date_parse (ev_at e) \<noteq> NaN"
proof (cases "find (\<lambda>c. ev_id c = ev_id e) (lg_events l)")
  case (Some c)
  then have "c \<in> set (lg_events l)" by (auto simp: find_Some_iff)
  with Some assms show ?thesis
    by (auto simp: apply_ledger_event_def split: if_splits intro: that(1))
next
  case None
  then have "ev_id e \<notin> ev_id ` set (lg_events l)" by (auto simp: find_None_iff)
  with None assms show ?thesis
    by (auto simp: apply_ledger_event_def result_simps ledger_time_def Let_def is_finite_iff not_less
      split: if_splits intro!: that(2))
qed

lemma apply_reserveE:
  assumes "apply_reserve l w orderId debit0 risk0 = Inr l'"
  obtains debit risk where "ledger_money debit0 = Inr debit" "ledger_money risk0 = Inr risk" "Fin 0 < debit0"
    "map_of (lg_reservations l) orderId = None" "w_entriesAllowed w" "\<not> w_buyingPower w < debit"
    "\<not> w_remainingDailyRisk w < risk"
    "l' = l\<lparr>lg_reservations := AList.update orderId \<lparr>rv_debit = debit, rv_risk = risk\<rparr> (lg_reservations l)\<rparr>"
  using assms
  by (auto simp: apply_reserve_def result_simps positive_def is_finite_iff split: if_splits intro!: that)

lemma check_fillE:
  assumes "check_fill shares price fee = Inr v"
  obtains n where "shares = num n" "1 \<le> n" "n \<le> 2 ^ 53 - 1" "is_finite price" "\<not> price \<le> Fin 0"
    "\<not> fee < Fin 0" "is_finite fee" "ledger_money (price * shares) = Inr v"
proof -
  have s: "is_safe_integer shares" "\<not> shares < Fin 1"
    and p: "is_finite price" "\<not> price \<le> Fin 0" "\<not> fee < Fin 0" "ledger_money (price * shares) = Inr v"
    and f: "is_finite fee"
    using assms by (auto simp: check_fill_def result_simps positive_def ledger_money_def Let_def split: if_splits)
  from s obtain n where n: "shares = num n" "\<bar>rat_of_int n\<bar> \<le> of_int (2 ^ 53 - 1)" "1 \<le> n"
    by (cases shares) auto
  have "\<bar>n\<bar> \<le> 2 ^ 53 - 1" using n(2) by (simp only: of_int_le_iff flip: of_int_abs)
  with n p f show ?thesis by (intro that [of n]) auto
qed

lemma apply_buyE:
  assumes "apply_buy l w instant orderId positionId instrumentId shares price fee stop = Inr l'"
  obtains v debit risk rv cash where "check_fill shares price fee = Inr v" "ledger_money (v + fee) = Inr debit"
    "map_of (lg_reservations l) orderId = Some rv" "map_of (lg_positions l) positionId = None"
    "w_entriesAllowed w" "\<not> rv_debit rv < debit" "\<not> lg_cash l < debit" "\<not> rv_risk rv < risk"
    "ledger_money ((price - stop) * shares + fee) = Inr risk" "\<not> price \<le> stop"
    "ledger_money (lg_cash l - debit) = Inr cash"
    "l' = l\<lparr>lg_cash := cash, lg_positions := AList.update positionId
       \<lparr>fp_instrumentId = instrumentId, fp_shares = shares, fp_basis = debit, fp_stop = stop,
        fp_mark = price, fp_markedAt = instant\<rparr> (lg_positions l),
      lg_reservations := AList.delete orderId (lg_reservations l)\<rparr>"
proof -
  obtain v debit risk rv where s: "check_fill shares price fee = Inr v" "ledger_money (v + fee) = Inr debit"
    "ledger_money ((price - stop) * shares + fee) = Inr risk" "map_of (lg_reservations l) orderId = Some rv"
    using assms by (auto simp: apply_buy_def result_simps split: option.splits)
  note r = assms [unfolded apply_buy_def s bindR_Inr option.case bindR_eq_Inr]
  from r show ?thesis
    by (auto simp: s result_simps Let_def split: if_splits intro: that [OF s(1,2,4) _ _ _ _ _ s(3)])
qed

lemma apply_sellE:
  assumes "apply_sell l positionId shares price fee = Inr l'"
  obtains (all) v p cash realized where "check_fill shares price fee = Inr v"
      "map_of (lg_positions l) positionId = Some p" "js_eq shares (fp_shares p)"
      "ledger_money (lg_cash l + v - fee) = Inr cash"
      "ledger_money (lg_realizedPnl l + v - fee - fp_basis p) = Inr realized"
      "l' = l\<lparr>lg_cash := cash, lg_realizedPnl := realized,
         lg_positions := AList.delete positionId (lg_positions l)\<rparr>"
  | (part) v p cash realized basis rest where "check_fill shares price fee = Inr v"
      "map_of (lg_positions l) positionId = Some p" "\<not> fp_shares p < shares" "\<not> js_eq shares (fp_shares p)"
      "ledger_money (fp_basis p * shares / fp_shares p) = Inr basis"
      "ledger_money (lg_cash l + v - fee) = Inr cash"
      "ledger_money (lg_realizedPnl l + v - fee - basis) = Inr realized"
      "ledger_money (fp_basis p - basis) = Inr rest"
      "l' = l\<lparr>lg_cash := cash, lg_realizedPnl := realized,
         lg_positions := AList.update positionId
           (p\<lparr>fp_shares := fp_shares p - shares, fp_basis := rest\<rparr>) (lg_positions l)\<rparr>"
proof -
  obtain v p where s: "check_fill shares price fee = Inr v" "map_of (lg_positions l) positionId = Some p"
    using assms by (auto simp: apply_sell_def result_simps split: option.splits)
  note r = assms [unfolded apply_sell_def s bindR_Inr option.case]
  show ?thesis
  proof (cases "js_eq shares (fp_shares p)")
    case True
    with r show ?thesis by (auto simp: result_simps intro: all [OF s True])
  next
    case False
    with r show ?thesis by (auto simp: result_simps intro: part [OF s _ False])
  qed
qed

lemma apply_markE:
  assumes "apply_mark l instant instrumentId bid = Inr l'"
  obtains "l' = l\<lparr>lg_positions := map (\<lambda>(k, p). (k, if fp_instrumentId p = instrumentId
       then p\<lparr>fp_mark := bid, fp_markedAt := instant\<rparr> else p)) (lg_positions l)\<rparr>"
  using assms by (auto simp: apply_mark_def result_simps)

lemma apply_sessionE:
  assumes "apply_session l w session = Inr l'"
  obtains "l' = l\<lparr>lg_session := session, lg_openingEquity := w_equity w, lg_realizedPnl := Fin 0\<rparr>"
    "lg_reservations l = []"
  using assms by (auto simp: apply_session_def split: if_splits)

section \<open>The books\<close>

definition share_count :: "jsnum \<Rightarrow> bool" where
  "share_count v \<longleftrightarrow> v = num (int_of v) \<and> 1 \<le> int_of v \<and> int_of v \<le> 2 ^ 53 - 1"

lemma share_count_num [simp]: "share_count (num n) \<longleftrightarrow> 1 \<le> n \<and> n \<le> 2 ^ 53 - 1"
  by (simp add: share_count_def)

definition books_ok :: "ledger \<Rightarrow> bool" where
  "books_ok l \<longleftrightarrow> distinct (map fst (lg_positions l)) \<and> distinct (map fst (lg_reservations l)) \<and>
     graded (lg_cash l) \<and> graded (lg_realizedPnl l) \<and>
     (\<forall>(k, p) \<in> set (lg_positions l). graded (fp_basis p) \<and> share_count (fp_shares p)) \<and>
     (\<forall>(k, r) \<in> set (lg_reservations l). graded (rv_debit r) \<and> Fin 0 \<le> rv_debit r)"

text \<open>Every amount of the state is at most 10 million, and there are at most 256 reservations.\<close>

definition modest_books :: "ledger \<Rightarrow> bool" where
  "modest_books l \<longleftrightarrow> modest (lg_cash l) \<and> modest (lg_realizedPnl l) \<and>
     (\<forall>(k, p) \<in> set (lg_positions l). modest (fp_basis p)) \<and>
     (\<forall>(k, r) \<in> set (lg_reservations l). modest (rv_debit r)) \<and> length (lg_reservations l) \<le> 256"

definition basis_units :: "ledger \<Rightarrow> int" where
  "basis_units l = sum_list (map (\<lambda>(k, p). units (fp_basis p)) (lg_positions l))"

definition reserved_units :: "ledger \<Rightarrow> int" where
  "reserved_units l = sum_list (map (\<lambda>(k, r). units (rv_debit r)) (lg_reservations l))"

text \<open>Cash plus cost basis less realised profit: what was paid in.\<close>

definition book_balance :: "ledger \<Rightarrow> int" where
  "book_balance l = units (lg_cash l) + basis_units l - units (lg_realizedPnl l)"

text \<open>A fee on the money grid, as \<open>roundMoney\<close> produces it.\<close>

definition small_amount :: "jsnum \<Rightarrow> bool" where
  "small_amount v \<longleftrightarrow> modest v \<and> v = money_of (units v)"

fun regular_fee :: "ledger_action \<Rightarrow> bool" where
  "regular_fee (Sell positionId shares price fee) \<longleftrightarrow> small_amount fee"
| "regular_fee a \<longleftrightarrow> True"

lemma small_amountD: "small_amount v \<Longrightarrow> graded v \<and> modest v"
  unfolding small_amount_def graded_def by blast

lemma in_update: "x \<in> set (AList.update k v al) \<Longrightarrow> x = (k, v) \<or> x \<in> set al"
  by (induction al) (auto split: if_splits)

lemma in_delete: "x \<in> set (AList.delete k al) \<Longrightarrow> x \<in> set al"
  by (auto simp: AList.delete_eq)

lemma books_position: "books_ok l \<Longrightarrow> map_of (lg_positions l) k = Some p \<Longrightarrow>
    graded (fp_basis p) \<and> share_count (fp_shares p)"
  by (auto simp: books_ok_def dest!: map_of_SomeD)

lemma modest_position: "modest_books l \<Longrightarrow> map_of (lg_positions l) k = Some p \<Longrightarrow> modest (fp_basis p)"
  by (auto simp: modest_books_def dest!: map_of_SomeD)

lemma books_reservation: "books_ok l \<Longrightarrow> map_of (lg_reservations l) k = Some r \<Longrightarrow>
    graded (rv_debit r) \<and> Fin 0 \<le> rv_debit r"
  by (auto simp: books_ok_def dest!: map_of_SomeD)

lemma modest_reservation: "modest_books l \<Longrightarrow> map_of (lg_reservations l) k = Some r \<Longrightarrow> modest (rv_debit r)"
  by (auto simp: modest_books_def dest!: map_of_SomeD)

lemma ledger_money_0: "ledger_money (Fin 0) = Inr (Fin 0)"
  using amount_ledger_money [OF amount_money_of, of 0] by simp

lemma ledger_money_nonneg: "Fin 0 \<le> v \<Longrightarrow> ledger_money v = Inr m \<Longrightarrow> Fin 0 \<le> m"
  using ledger_money_mono ledger_money_0 by blast

lemma fill_value:
  assumes "check_fill shares price fee = Inr v"
  shows "graded v \<and> Fin 0 \<le> v \<and> share_count shares"
proof -
  obtain n where n: "shares = num n" "1 \<le> n" "n \<le> 2 ^ 53 - 1" "is_finite price" "\<not> price \<le> Fin 0"
    "ledger_money (price * shares) = Inr v" using check_fillE [OF assms] .
  have "Fin 0 \<le> price" using n(4,5) by (cases price) auto
  then have "Fin 0 * num n \<le> price * num n" using n(2) by (intro js_mult_mono) auto
  then have "Fin 0 \<le> price * shares" using n(1) js_of_int [of 0] by simp
  then show ?thesis using ledger_money_graded [OF n(6)] ledger_money_nonneg n by simp
qed

lemma part_of_shares:
  assumes "share_count a" "share_count b" "\<not> a < b" "\<not> js_eq b a"
  shows "share_count (a - b) \<and> int_of (a - b) = int_of a - int_of b"
proof -
  obtain m n where mn: "a = num m" "b = num n" "1 \<le> m" "1 \<le> n" "m \<le> 2 ^ 53 - 1"
    using assms(1,2) unfolding share_count_def by blast
  have "n < m" using assms(3,4) mn(1,2) by (auto simp: js_eq_def)
  moreover from this have "num m - num n = num (m - n)" using mn by (intro num_diff) auto
  ultimately show ?thesis using mn by (simp del: of_int_diff)
qed

text \<open>Every accepted event keeps the books in order, whatever the amounts.\<close>

lemma apply_action_ok:
  assumes "books_ok l" "apply_action l w e = Inr m"
  shows "books_ok m"
proof (cases "ev_action e")
  case (Reserve orderId debit0 risk0)
  with assms(2) have "apply_reserve l w orderId debit0 risk0 = Inr m" by (simp add: apply_action_def)
  then show ?thesis
  proof (rule apply_reserveE)
    fix debit risk assume d: "ledger_money debit0 = Inr debit" "Fin 0 < debit0"
      and m: "m = l\<lparr>lg_reservations := AList.update orderId \<lparr>rv_debit = debit, rv_risk = risk\<rparr> (lg_reservations l)\<rparr>"
    have "graded debit \<and> Fin 0 \<le> debit"
      using ledger_money_graded [OF d(1)] ledger_money_nonneg [OF js_less_imp_le [OF d(2)] d(1)] by simp
    then show ?thesis
      using assms(1) unfolding m books_ok_def by (auto simp: AList.distinct_update dest!: in_update)
  qed
next
  case (Release orderId)
  then show ?thesis using assms
    by (auto simp: apply_action_def apply_release_def books_ok_def AList.distinct_delete dest!: in_delete)
next
  case (Buy orderId positionId instrumentId shares price fee stop)
  with assms(2) have "apply_buy l w (ev_at e) orderId positionId instrumentId shares price fee stop = Inr m"
    by (simp add: apply_action_def)
  then show ?thesis
  proof (rule apply_buyE)
    fix v debit risk rv cash
    assume f: "check_fill shares price fee = Inr v" and d: "ledger_money (v + fee) = Inr debit"
      and c: "ledger_money (lg_cash l - debit) = Inr cash"
      and m: "m = l\<lparr>lg_cash := cash, lg_positions := AList.update positionId
       \<lparr>fp_instrumentId = instrumentId, fp_shares = shares, fp_basis = debit, fp_stop = stop,
        fp_mark = price, fp_markedAt = ev_at e\<rparr> (lg_positions l),
        lg_reservations := AList.delete orderId (lg_reservations l)\<rparr>"
    show ?thesis
      using assms(1) fill_value [OF f] ledger_money_graded [OF d] ledger_money_graded [OF c]
      unfolding m books_ok_def
      by (auto simp: AList.distinct_update AList.distinct_delete dest!: in_update in_delete)
  qed
next
  case (Sell positionId shares price fee)
  with assms(2) have "apply_sell l positionId shares price fee = Inr m" by (simp add: apply_action_def)
  then show ?thesis
  proof (cases rule: apply_sellE)
    case (all v p cash realized)
    then show ?thesis
      using assms(1) ledger_money_graded [OF all(4)] ledger_money_graded [OF all(5)]
      unfolding all(6) books_ok_def by (auto simp: AList.distinct_delete dest!: in_delete)
  next
    case (part v p cash realized basis rest)
    have "share_count (fp_shares p - shares)"
      using part_of_shares books_position [OF assms(1) part(2)] fill_value [OF part(1)] part(3,4) by blast
    then show ?thesis
      using assms(1) ledger_money_graded [OF part(6)] ledger_money_graded [OF part(7)]
        ledger_money_graded [OF part(8)]
      unfolding part(9) books_ok_def by (auto simp: AList.distinct_update dest!: in_update)
  qed
next
  case (Mark instrumentId bid)
  with assms(2) have "apply_mark l (ev_at e) instrumentId bid = Inr m" by (simp add: apply_action_def)
  then show ?thesis
    by (rule apply_markE) (use assms(1) in \<open>auto simp: books_ok_def o_def case_prod_unfold\<close>)
next
  case (Session session)
  with assms(2) have "apply_session l w session = Inr m" by (simp add: apply_action_def)
  then show ?thesis by (rule apply_sessionE) (use assms(1) in \<open>auto simp: books_ok_def\<close>)
qed

section \<open>What an event does to the books\<close>

lemma realized_exact:
  assumes "graded r" "modest r" "v = money_of (units v)" "0 \<le> units v" "units v \<le> 2 ^ 39"
    "graded f" "modest f" "b = money_of (units b)" "\<bar>units b\<bar> \<le> 2 ^ 38"
    "ledger_money (r + v - f - b) = Inr m"
  shows "units m = units r + units v - units f - units b"
proof -
  have r: "\<bar>units r\<bar> \<le> 2 ^ 37" and f: "\<bar>units f\<bar> \<le> 2 ^ 37"
    using units_graded [OF assms(1,2)] units_graded [OF assms(6,7)] by auto
  have v: "amount v (units v) (1 / 4096)"
    by (subst assms(3)) (rule amount_money_of, use assms(4,5) in simp)
  have b: "amount b (units b) (1 / 4096)"
    by (subst assms(8)) (rule amount_money_of, use assms(9) in simp)
  note rv = amount_add [OF amount_graded [OF assms(1,2)] v]
  note rvf = amount_diff [OF rv amount_graded [OF assms(6,7)]]
  have small: "\<bar>units r + units v - units f - units b\<bar> \<le> 2 ^ 40"
    using r f assms(4,5,9) by (simp add: abs_le_iff)
  have "ledger_money (r + v - f - b) = Inr (money_of (units r + units v - units f - units b))"
    using r f assms(4,5,9) small
    by (intro amount_ledger_money [OF amount_diff [OF rvf b]]) (auto simp: abs_le_iff)
  with assms(10) have "m = money_of (units r + units v - units f - units b)" by simp
  then show ?thesis by (simp only: units_money_of [OF small])
qed

text \<open>
  The proceeds of a sale: what one unit of account the ledger moves where. \<open>b\<close> is the basis
  that leaves with the shares.
\<close>

lemma sale_books:
  assumes "books_ok l" "modest_books l" "check_fill shares price fee = Inr v" "small_amount fee"
    "ledger_money (lg_cash l + v - fee) = Inr cash" "modest cash"
    "b = money_of (units b)" "\<bar>units b\<bar> \<le> 2 ^ 38"
    "ledger_money (lg_realizedPnl l + v - fee - b) = Inr realized"
  shows "units cash = units (lg_cash l) + units v - units fee \<and>
     units realized = units (lg_realizedPnl l) + units v - units fee - units b"
proof -
  have f: "graded fee" "modest fee" using small_amountD [OF assms(4)] by auto
  have "\<not> fee < Fin 0" "is_finite fee" using check_fillE [OF assms(3)] by blast+
  then have "Fin 0 \<le> fee" by (auto simp: is_finite_iff)
  note m = money_receive [OF _ _ _ _ f this assms(5,6)]
  have l: "graded (lg_cash l)" "modest (lg_cash l)" "graded (lg_realizedPnl l)" "modest (lg_realizedPnl l)"
    using assms(1,2) by (auto simp: books_ok_def modest_books_def)
  from m [OF l(1,2)] fill_value [OF assms(3)]
  have v: "v = money_of (units v)" "0 \<le> units v" "units v \<le> 2 ^ 39"
    and c: "units cash = units (lg_cash l) + units v - units fee" by auto
  from c realized_exact [OF l(3,4) v f assms(7,8,9)] show ?thesis by simp
qed

lemma apply_action_balance:
  assumes "books_ok l" "modest_books l" "apply_action l w e = Inr m" "modest_books m"
    "regular_fee (ev_action e)" "\<forall>s. ev_action e \<noteq> Session s"
  shows "book_balance m = book_balance l"
proof (cases "ev_action e")
  case (Reserve orderId debit0 risk0)
  with assms(3) have "apply_reserve l w orderId debit0 risk0 = Inr m" by (simp add: apply_action_def)
  then show ?thesis by (rule apply_reserveE) (simp add: book_balance_def basis_units_def)
next
  case (Release orderId)
  then show ?thesis using assms(3)
    by (auto simp: apply_action_def apply_release_def book_balance_def basis_units_def)
next
  case (Buy orderId positionId instrumentId shares price fee stop)
  with assms(3) have "apply_buy l w (ev_at e) orderId positionId instrumentId shares price fee stop = Inr m"
    by (simp add: apply_action_def)
  then show ?thesis
  proof (rule apply_buyE)
    fix v debit risk rv cash
    assume n: "map_of (lg_positions l) positionId = None" and d: "ledger_money (v + fee) = Inr debit"
      and c: "ledger_money (lg_cash l - debit) = Inr cash"
      and m: "m = l\<lparr>lg_cash := cash, lg_positions := AList.update positionId
       \<lparr>fp_instrumentId = instrumentId, fp_shares = shares, fp_basis = debit, fp_stop = stop,
        fp_mark = price, fp_markedAt = ev_at e\<rparr> (lg_positions l),
        lg_reservations := AList.delete orderId (lg_reservations l)\<rparr>"
    have "units cash = units (lg_cash l) - units debit"
      using money_sub [OF _ _ ledger_money_graded [OF d] c] assms(1,2,4)
      by (auto simp: books_ok_def modest_books_def m)
    moreover have "basis_units m = basis_units l + units debit"
      unfolding basis_units_def m by (simp add: sum_list_update_new [OF n])
    ultimately show ?thesis by (simp add: book_balance_def m)
  qed
next
  case (Sell positionId shares price fee)
  then have fee: "small_amount fee" using assms(5) by simp
  from Sell assms(3) have "apply_sell l positionId shares price fee = Inr m" by (simp add: apply_action_def)
  then show ?thesis
  proof (cases rule: apply_sellE)
    case (all v p cash realized)
    have b: "fp_basis p = money_of (units (fp_basis p))" "\<bar>units (fp_basis p)\<bar> \<le> 2 ^ 38"
      using units_graded [of "fp_basis p"] books_position [OF assms(1) all(2)]
        modest_position [OF assms(2) all(2)] by auto
    have "modest cash" using assms(4) by (simp add: modest_books_def all(6))
    note s = sale_books [OF assms(1,2) all(1) fee all(4) this b all(5)]
    have "basis_units m = basis_units l - units (fp_basis p)"
      using assms(1) by (simp add: basis_units_def all(6) sum_list_delete [OF _ all(2)] books_ok_def)
    with s show ?thesis by (simp add: book_balance_def all(6))
  next
    case (part v p cash realized basis rest)
    have p: "graded (fp_basis p)" "modest (fp_basis p)"
      using books_position [OF assms(1) part(2)] modest_position [OF assms(2) part(2)] by auto
    have mem: "(positionId, p\<lparr>fp_shares := fp_shares p - shares, fp_basis := rest\<rparr>) \<in> set (lg_positions m)"
      using map_of_SomeD [of "lg_positions m" positionId] by (simp add: part(9) AList.update_conv)
    have "modest rest" using assms(4) mem by (auto simp: modest_books_def)
    from money_sub [OF p ledger_money_graded [OF part(5)] part(8) this]
    have b: "basis = money_of (units basis)" "\<bar>units basis\<bar> \<le> 2 ^ 38"
      and r: "units rest = units (fp_basis p) - units basis" by auto
    have "modest cash" using assms(4) by (simp add: modest_books_def part(9))
    note s = sale_books [OF assms(1,2) part(1) fee part(6) this b part(7)]
    have "basis_units m = basis_units l - units (fp_basis p) + units rest"
      using assms(1) by (simp add: basis_units_def part(9) sum_list_update_old [OF _ part(2)] books_ok_def)
    with s r show ?thesis by (simp add: book_balance_def part(9))
  qed
next
  case (Mark instrumentId bid)
  with assms(3) have "apply_mark l (ev_at e) instrumentId bid = Inr m" by (simp add: apply_action_def)
  then show ?thesis
    by (rule apply_markE)
      (auto simp: book_balance_def basis_units_def o_def case_prod_unfold
        intro!: arg_cong [where f = sum_list])
next
  case (Session session)
  with assms(6) show ?thesis by simp
qed

section \<open>Reserved cash\<close>

lemma sum_of_foldl: "sum_of f xs = foldl (+) (Fin 0) (map f xs)"
  by (simp add: sum_of_def foldl_map)

lemma money_of_le_iff:
  "\<bar>u\<bar> \<le> 2 ^ 40 \<Longrightarrow> \<bar>v\<bar> \<le> 2 ^ 40 \<Longrightarrow> money_of u \<le> money_of v \<longleftrightarrow> u \<le> v"
  using grid_le_iff [of 10000 u v] by simp

lemma money_of_not_less:
  "\<bar>u\<bar> \<le> 2 ^ 40 \<Longrightarrow> \<bar>v\<bar> \<le> 2 ^ 40 \<Longrightarrow> \<not> money_of u < money_of v \<Longrightarrow> v \<le> u"
  using money_of_le_iff [of v u] js_not_less [of "money_of u" "money_of v"] by simp

lemma reservation_units:
  assumes "books_ok l" "modest_books l" "(k, r) \<in> set (lg_reservations l)"
  shows "rv_debit r = money_of (units (rv_debit r)) \<and> 0 \<le> units (rv_debit r) \<and> units (rv_debit r) \<le> 2 ^ 37"
proof -
  have r: "graded (rv_debit r)" "modest (rv_debit r)" "Fin 0 \<le> rv_debit r"
    using assms by (auto simp: books_ok_def modest_books_def)
  have "0 \<le> units (rv_debit r)"
    using units_le [OF graded_0 modest_0 r(1,2)] r(3) units_money_of [of 0] by simp
  then show ?thesis using units_graded [OF r(1,2)] by (simp add: abs_le_iff)
qed

lemma reserved_nonneg:
  assumes "books_ok l" "modest_books l"
  shows "0 \<le> reserved_units l"
  unfolding reserved_units_def
  by (intro sum_list_nonneg) (auto dest: reservation_units [OF assms])

lemma buying_power_exact:
  assumes "books_ok l" "modest_books l" "reserved_units l \<le> units (lg_cash l)"
    "funded_account_summary l instant age = Inr w"
  shows "w_buyingPower w = money_of (units (lg_cash l) - reserved_units l)"
proof -
  let ?us = "map (\<lambda>(k, r). units (rv_debit r)) (lg_reservations l)"
  obtain reserved where res: "ledger_money (sum_of rv_debit (map snd (lg_reservations l))) = Inr reserved"
    and bp: "ledger_money (math_max (Fin 0) (lg_cash l - reserved)) = Inr (w_buyingPower w)"
    using assms(4) by (auto simp: funded_account_summary_def result_simps Let_def split: if_splits)
  have cash: "graded (lg_cash l)" "modest (lg_cash l)" "\<bar>units (lg_cash l)\<bar> \<le> 2 ^ 37"
    using assms(1,2) units_graded by (auto simp: books_ok_def modest_books_def)
  have nn: "0 \<le> reserved_units l" by (rule reserved_nonneg [OF assms(1,2)])
  have abs: "sum_list (map abs ?us) = reserved_units l"
    unfolding reserved_units_def
    by (intro arg_cong [where f = sum_list]) (auto dest: reservation_units [OF assms(1,2)])
  have len: "(of_nat (length ?us) :: rat) \<le> 256"
    using assms(2) unfolding modest_books_def length_map by (metis of_nat_le_iff of_nat_numeral)
  have debits: "map rv_debit (map snd (lg_reservations l)) = map money_of ?us"
    by (auto simp: case_prod_unfold dest!: reservation_units [OF assms(1,2)])
  have "\<exists>y. foldl (+) (Fin 0) (map money_of ?us) = Fin y \<and>
      near 10000 y (0 + sum_list ?us) (0 + of_nat (length ?us) / 2048)"
    using len nn assms(3) cash(3) by (intro js_sum_near) (auto simp: near_def abs simp del: map_map)
  then have "amount (sum_of rv_debit (map snd (lg_reservations l))) (reserved_units l)
      (of_nat (length ?us) / 2048)"
    unfolding sum_of_foldl debits by (auto simp: amount_def reserved_units_def)
  from amount_ledger_money [OF this] have r: "reserved = money_of (reserved_units l)"
    using res len nn assms(3) cash(3) by simp
  let ?d = "units (lg_cash l) - reserved_units l"
  have d: "0 \<le> ?d" "?d \<le> 2 ^ 37" using nn assms(3) cash(3) by (auto simp: abs_le_iff)
  have m: "amount (lg_cash l - reserved) ?d (1 / 4096 + 1 / 4096 + 1 / 4096)"
    unfolding r using d nn assms(3) cash(3)
    by (intro amount_diff amount_graded cash amount_money_of) auto
  show ?thesis
  proof (cases "Fin 0 \<le> lg_cash l - reserved")
    case True
    then have "math_max (Fin 0) (lg_cash l - reserved) = lg_cash l - reserved"
      by (auto simp: math_max_def)
    with amount_ledger_money [OF m] bp d show ?thesis by simp
  next
    case False
    then have less: "math_max (Fin 0) (lg_cash l - reserved) = Fin 0" "lg_cash l - reserved \<le> Fin 0"
      using m by (auto simp: math_max_def amount_def)
    with bp have w: "w_buyingPower w = Fin 0" by (simp add: ledger_money_0)
    from amount_ledger_money [OF m] d have "ledger_money (lg_cash l - reserved) = Inr (money_of ?d)" by simp
    from ledger_money_mono [OF less(2) this ledger_money_0] have "money_of ?d \<le> money_of 0" by simp
    then have "?d \<le> 0" using d money_of_le_iff [of ?d 0] by simp
    then show ?thesis using d w by simp
  qed
qed

text \<open>A sale whose fee, on the money grid, is not above its proceeds.\<close>

fun fair_sale :: "ledger_action \<Rightarrow> bool" where
  "fair_sale (Sell positionId shares price fee) \<longleftrightarrow> small_amount fee \<and> fee \<le> price * shares"
| "fair_sale a \<longleftrightarrow> True"

lemma fair_sale_books:
  assumes "books_ok l" "modest_books l" "check_fill shares price fee = Inr v" "small_amount fee"
    "fee \<le> price * shares" "ledger_money (lg_cash l + v - fee) = Inr cash" "modest cash"
  shows "units (lg_cash l) \<le> units cash"
proof -
  have f: "graded fee" "modest fee" using small_amountD [OF assms(4)] by auto
  have "\<not> fee < Fin 0" "is_finite fee" using check_fillE [OF assms(3)] by blast+
  then have f0: "Fin 0 \<le> fee" by (auto simp: is_finite_iff)
  have l: "graded (lg_cash l)" "modest (lg_cash l)" using assms(1,2) by (auto simp: books_ok_def modest_books_def)
  from money_receive [OF l _ _ f f0 assms(6,7)] fill_value [OF assms(3)]
  have v: "v = money_of (units v)" "0 \<le> units v" "units v \<le> 2 ^ 39"
    and c: "units cash = units (lg_cash l) + units v - units fee" by auto
  have fu: "fee = money_of (units fee)" "\<bar>units fee\<bar> \<le> 2 ^ 37" using units_graded [OF f] by auto
  have "ledger_money fee = Inr fee"
    using amount_ledger_money [OF amount_graded [OF f]] fu by simp
  moreover have "ledger_money (price * shares) = Inr v" using check_fillE [OF assms(3)] by blast
  ultimately have "fee \<le> v" using ledger_money_mono [OF assms(5)] by blast
  then have "money_of (units fee) \<le> money_of (units v)" using fu(1) v(1) by simp
  then have "units fee \<le> units v" using fu(2) v(2,3) money_of_le_iff [of "units fee" "units v"] by simp
  with c show ?thesis by simp
qed

lemma apply_action_reserved:
  assumes "books_ok l" "modest_books l" "reserved_units l \<le> units (lg_cash l)"
    "funded_account_summary l (ev_at e) age = Inr w" "apply_action l w e = Inr m" "modest_books m"
    "fair_sale (ev_action e)"
  shows "reserved_units m \<le> units (lg_cash m)"
proof (cases "ev_action e")
  case (Reserve orderId debit0 risk0)
  with assms(5) have "apply_reserve l w orderId debit0 risk0 = Inr m" by (simp add: apply_action_def)
  then show ?thesis
  proof (rule apply_reserveE)
    fix debit risk
    assume d: "ledger_money debit0 = Inr debit" "map_of (lg_reservations l) orderId = None"
      "\<not> w_buyingPower w < debit"
      and m: "m = l\<lparr>lg_reservations := AList.update orderId \<lparr>rv_debit = debit, rv_risk = risk\<rparr> (lg_reservations l)\<rparr>"
    have mem: "(orderId, \<lparr>rv_debit = debit, rv_risk = risk\<rparr>) \<in> set (lg_reservations m)"
      using map_of_SomeD [of "lg_reservations m" orderId] by (simp add: m AList.update_conv)
    from reservation_units [OF apply_action_ok [OF assms(1,5)] assms(6) mem]
    have du: "debit = money_of (units debit)" "0 \<le> units debit" "units debit \<le> 2 ^ 37" by auto
    let ?free = "units (lg_cash l) - reserved_units l"
    have "graded (lg_cash l)" "modest (lg_cash l)" using assms(1,2) by (auto simp: books_ok_def modest_books_def)
    then have "\<bar>units (lg_cash l)\<bar> \<le> 2 ^ 37" using units_graded by blast
    then have free: "0 \<le> ?free" "?free \<le> 2 ^ 37"
      using reserved_nonneg [OF assms(1,2)] assms(3) by (auto simp: abs_le_iff)
    have "\<not> money_of ?free < money_of (units debit)"
      using d(3) du(1) buying_power_exact [OF assms(1,2,3,4)] by metis
    from money_of_not_less [OF _ _ this] du(2,3) free have "units debit \<le> ?free" by simp
    moreover have "reserved_units m = reserved_units l + units debit"
      unfolding reserved_units_def m by (simp add: sum_list_update_new [OF d(2)])
    ultimately show ?thesis by (simp add: m)
  qed
next
  case (Release orderId)
  then have m: "m = l\<lparr>lg_reservations := AList.delete orderId (lg_reservations l)\<rparr>"
    using assms(5) by (simp add: apply_action_def apply_release_def)
  show ?thesis
  proof (cases "map_of (lg_reservations l) orderId")
    case None
    then have "AList.delete orderId (lg_reservations l) = lg_reservations l"
      by (force simp: map_of_eq_None_iff AList.delete_eq intro!: filter_True)
    with assms(3) show ?thesis by (simp add: m reserved_units_def)
  next
    case (Some r)
    then have "reserved_units m = reserved_units l - units (rv_debit r)"
      using assms(1) by (simp add: m reserved_units_def sum_list_delete books_ok_def)
    with reservation_units [OF assms(1,2) map_of_SomeD [OF Some]] assms(3) show ?thesis by (simp add: m)
  qed
next
  case (Buy orderId positionId instrumentId shares price fee stop)
  with assms(5) have "apply_buy l w (ev_at e) orderId positionId instrumentId shares price fee stop = Inr m"
    by (simp add: apply_action_def)
  then show ?thesis
  proof (rule apply_buyE)
    fix v debit risk rv cash
    assume d: "ledger_money (v + fee) = Inr debit" "map_of (lg_reservations l) orderId = Some rv"
      "\<not> rv_debit rv < debit" and c: "ledger_money (lg_cash l - debit) = Inr cash"
      and m: "m = l\<lparr>lg_cash := cash, lg_positions := AList.update positionId
       \<lparr>fp_instrumentId = instrumentId, fp_shares = shares, fp_basis = debit, fp_stop = stop,
        fp_mark = price, fp_markedAt = ev_at e\<rparr> (lg_positions l),
        lg_reservations := AList.delete orderId (lg_reservations l)\<rparr>"
    have l: "graded (lg_cash l)" "modest (lg_cash l)"
      using assms(1,2) by (simp_all add: books_ok_def modest_books_def)
    have "modest cash" using assms(6) by (simp add: modest_books_def m)
    from money_sub [OF l ledger_money_graded [OF d(1)] c this]
    have debit: "debit = money_of (units debit)" "\<bar>units debit\<bar> \<le> 2 ^ 38"
      "units cash = units (lg_cash l) - units debit" by auto
    have rv: "rv_debit rv = money_of (units (rv_debit rv))" "0 \<le> units (rv_debit rv)" "units (rv_debit rv) \<le> 2 ^ 37"
      using reservation_units [OF assms(1,2) map_of_SomeD [OF d(2)]] by auto
    have "\<not> money_of (units (rv_debit rv)) < money_of (units debit)" using d(3) debit(1) rv(1) by metis
    from money_of_not_less [OF _ _ this] debit(2) rv(2,3) have "units debit \<le> units (rv_debit rv)" by simp
    moreover have "reserved_units m = reserved_units l - units (rv_debit rv)"
      using assms(1) d(2) by (simp add: m reserved_units_def sum_list_delete books_ok_def)
    ultimately show ?thesis using debit(3) assms(3) by (simp add: m)
  qed
next
  case (Sell positionId shares price fee)
  then have fee: "small_amount fee" "fee \<le> price * shares" using assms(7) by auto
  from Sell assms(5) have "apply_sell l positionId shares price fee = Inr m" by (simp add: apply_action_def)
  then show ?thesis
  proof (cases rule: apply_sellE)
    case (all v p cash realized)
    then have "modest cash" using assms(6) by (simp add: modest_books_def)
    from fair_sale_books [OF assms(1,2) all(1) fee all(4) this] assms(3)
    show ?thesis by (simp add: all(6) reserved_units_def)
  next
    case (part v p cash realized basis rest)
    then have "modest cash" using assms(6) by (simp add: modest_books_def)
    from fair_sale_books [OF assms(1,2) part(1) fee part(6) this] assms(3)
    show ?thesis by (simp add: part(9) reserved_units_def)
  qed
next
  case (Mark instrumentId bid)
  with assms(5) have "apply_mark l (ev_at e) instrumentId bid = Inr m" by (simp add: apply_action_def)
  then show ?thesis by (rule apply_markE) (use assms(3) in \<open>simp add: reserved_units_def\<close>)
next
  case (Session session)
  with assms(5) have "apply_session l w session = Inr m" by (simp add: apply_action_def)
  then show ?thesis by (rule apply_sessionE) (use assms(3) in \<open>simp add: reserved_units_def\<close>)
qed

section \<open>The log and its retries\<close>

lemma apply_action_frame:
  "apply_action l w e = Inr m \<Longrightarrow> lg_currency m = lg_currency l \<and> lg_events m = lg_events l \<and>
     lg_lastEventAt m = lg_lastEventAt l"
  by (cases "ev_action e")
    (auto simp: apply_action_def apply_release_def elim: apply_reserveE apply_buyE apply_sellE
      apply_markE apply_sessionE)

definition log_ok :: "ledger \<Rightarrow> bool" where
  "log_ok l \<longleftrightarrow> distinct (map ev_id (lg_events l)) \<and>
     (\<forall>e \<in> set (lg_events l). ev_id e \<noteq> [] \<and> ev_currency e = lg_currency l)"

lemma find_logged: "distinct (map f xs) \<Longrightarrow> x \<in> set xs \<Longrightarrow> find (\<lambda>y. f y = f x) xs = Some x"
  by (induction xs) (auto simp: image_iff)

lemma log_kept: "log_ok l \<Longrightarrow> apply_ledger_event l e age = Inr l' \<Longrightarrow> log_ok l'"
proof (erule apply_ledger_eventE)
  fix w m assume "log_ok l" "ev_id e \<notin> ev_id ` set (lg_events l)" "apply_action l w e = Inr m"
    "l' = m\<lparr>lg_events := lg_events l @ [e], lg_lastEventAt := ev_at e\<rparr>"
    "ev_currency e = lg_currency l" "ev_id e \<noteq> []"
  then show "log_ok l'" using apply_action_frame [of l w e m] by (auto simp: log_ok_def)
qed simp

lemma retried_event: "log_ok l \<Longrightarrow> e \<in> set (lg_events l) \<Longrightarrow> apply_ledger_event l e age = Inr l"
  using find_logged [of ev_id "lg_events l" e] by (auto simp: log_ok_def apply_ledger_event_def)

lemma conflicting_event:
  "ev_id e \<in> ev_id ` set (lg_events l) \<Longrightarrow> e \<notin> set (lg_events l) \<Longrightarrow> apply_ledger_event l e age \<noteq> Inr l'"
  by (auto elim: apply_ledger_eventE)

interpretation ledger_log: event_log "\<lambda>l e. apply_ledger_event l e age" lg_events ev_id log_ok for age
  using log_kept retried_event conflicting_event
  by unfold_locales (auto elim: apply_ledger_eventE)

lemma log_created: "create_funded_ledger cur cash session instant limit = Inr l \<Longrightarrow> log_ok l"
  by (auto simp: create_funded_ledger_def result_simps log_ok_def split: if_splits)

end
