(* ===== verification/LedgerProperties.thy ===== *)
theory LedgerProperties
  imports LedgerLemmas Fixtures
begin

text \<open>
  What the funded ledger guarantees over whole histories of events, from a freshly created
  account: the books balance to the unit, the account never promises cash it does not have,
  the share counts follow the log, the log is complete and chronological, and retries are
  harmless. The bounds are 10 million for every amount and 256 open reservations.
\<close>

section \<open>Histories\<close>

text \<open>Every ledger on the way, the first and the last included, has modest amounts.\<close>

definition modest_run :: "ledger \<Rightarrow> ledger_event list \<Rightarrow> jsnum \<Rightarrow> bool" where
  "modest_run l es age \<longleftrightarrow> (\<forall>n \<in> set [0..<Suc (length es)].
     case apply_ledger_events l (take n es) age of Inl _ \<Rightarrow> True | Inr m \<Rightarrow> modest_books m)"

lemma modest_runD:
  assumes "modest_run l es age" "es = before @ after" "apply_ledger_events l before age = Inr m"
  shows "modest_books m"
proof -
  have "length before \<in> set [0..<Suc (length es)]" using assms(2) by simp
  then have "case apply_ledger_events l (take (length before) es) age of Inl _ \<Rightarrow> True
      | Inr m \<Rightarrow> modest_books m"
    using assms(1) unfolding modest_run_def by blast
  with assms(2,3) show ?thesis by simp
qed

lemma books_log [simp]:
  "modest_books (l\<lparr>lg_events := es, lg_lastEventAt := t\<rparr>) = modest_books l"
  "book_balance (l\<lparr>lg_events := es, lg_lastEventAt := t\<rparr>) = book_balance l"
  "reserved_units (l\<lparr>lg_events := es, lg_lastEventAt := t\<rparr>) = reserved_units l"
  "books_ok (l\<lparr>lg_events := es, lg_lastEventAt := t\<rparr>) = books_ok l"
  by (simp_all add: books_ok_def modest_books_def book_balance_def basis_units_def reserved_units_def)

lemma event_books_ok:
  assumes "books_ok l" "apply_ledger_event l e age = Inr l'"
  shows "books_ok l'"
  using assms(2) by (rule apply_ledger_eventE) (simp_all add: assms(1) apply_action_ok [OF assms(1)])

lemma created_books:
  assumes "create_funded_ledger cur cash session instant limit = Inr l"
  shows "books_ok l \<and> lg_positions l = [] \<and> lg_reservations l = [] \<and> lg_realizedPnl l = Fin 0 \<and>
    lg_events l = [] \<and> lg_openingEquity l = lg_cash l \<and> Fin 0 \<le> lg_cash l"
proof -
  obtain c where c: "ledger_money cash = Inr c" "lg_cash l = c" "is_finite cash" "\<not> cash \<le> Fin 0"
    using assms by (auto simp: create_funded_ledger_def result_simps positive_def split: if_splits)
  have "Fin 0 \<le> cash" using c(3,4) by (cases cash) auto
  then have "Fin 0 \<le> c" using c(1) ledger_money_nonneg by blast
  with assms ledger_money_graded [OF c(1)] c(2) show ?thesis
    by (auto simp: create_funded_ledger_def result_simps books_ok_def split: if_splits)
qed

text \<open>The step of an induction over a modest run.\<close>

lemma modest_run_invariant:
  assumes "apply_ledger_events l0 es age = Inr l" "modest_run l0 es age" "books_ok l0" "I l0"
    "\<And>l e l'. books_ok l \<Longrightarrow> modest_books l \<Longrightarrow> modest_books l' \<Longrightarrow> e \<in> set es \<Longrightarrow> I l \<Longrightarrow>
       apply_ledger_event l e age = Inr l' \<Longrightarrow> I l'"
  shows "I l"
proof -
  let ?step = "\<lambda>l e. apply_ledger_event l e age"
  have "books_ok l \<and> I l"
  proof (rule runR_invariant [where I = "\<lambda>l. books_ok l \<and> I l" and step = ?step and
        ok = "\<lambda>l e. modest_books l \<and> e \<in> set es \<and> (\<forall>l'. ?step l e = Inr l' \<longrightarrow> modest_books l')"])
    fix s e s' assume "books_ok s \<and> I s" "?step s e = Inr s'"
      "modest_books s \<and> e \<in> set es \<and> (\<forall>l'. ?step s e = Inr l' \<longrightarrow> modest_books l')"
    then show "books_ok s' \<and> I s'" using event_books_ok assms(5) by blast
  next
    fix before e after m assume es: "es = before @ e # after" "runR ?step l0 before = Inr m"
    have "modest_books m'" if "?step m e = Inr m'" for m'
      using es that by (intro modest_runD [OF assms(2), of "before @ [e]" after])
        (auto simp: apply_ledger_events_def runR_append)
    moreover have "modest_books m"
      using es by (intro modest_runD [OF assms(2), of before "e # after"]) (auto simp: apply_ledger_events_def)
    ultimately show "modest_books m \<and> e \<in> set es \<and> (\<forall>l'. ?step m e = Inr l' \<longrightarrow> modest_books l')"
      using es(1) by auto
  qed (use assms(1,3,4) in \<open>auto simp: apply_ledger_events_def\<close>)
  then show ?thesis ..
qed

section \<open>Share counts\<close>

fun share_change :: "string \<Rightarrow> ledger_action \<Rightarrow> int" where
  "share_change k (Buy orderId positionId instrumentId shares price fee stop) =
     (if positionId = k then int_of shares else 0)"
| "share_change k (Sell positionId shares price fee) = (if positionId = k then - int_of shares else 0)"
| "share_change k a = 0"

definition held_shares :: "ledger \<Rightarrow> string \<Rightarrow> int" where
  "held_shares l k = (case map_of (lg_positions l) k of None \<Rightarrow> 0 | Some p \<Rightarrow> int_of (fp_shares p))"

lemma map_of_map_snd: "map_of (map (\<lambda>(k, p). (k, f p)) al) k = map_option f (map_of al k)"
  by (induction al) auto

lemma apply_action_shares:
  assumes "books_ok l" "apply_action l w e = Inr m"
  shows "held_shares m k = held_shares l k + share_change k (ev_action e)"
proof (cases "ev_action e")
  case (Reserve orderId debit0 risk0)
  with assms(2) have "apply_reserve l w orderId debit0 risk0 = Inr m" by (simp add: apply_action_def)
  then show ?thesis by (rule apply_reserveE) (simp add: Reserve held_shares_def)
next
  case (Release orderId)
  with assms(2) show ?thesis by (auto simp: apply_action_def apply_release_def held_shares_def)
next
  case (Buy orderId positionId instrumentId shares price fee stop)
  with assms(2) have "apply_buy l w (ev_at e) orderId positionId instrumentId shares price fee stop = Inr m"
    by (simp add: apply_action_def)
  then show ?thesis by (rule apply_buyE) (auto simp: Buy held_shares_def AList.update_conv)
next
  case (Sell positionId shares price fee)
  with assms(2) have "apply_sell l positionId shares price fee = Inr m" by (simp add: apply_action_def)
  then show ?thesis
  proof (cases rule: apply_sellE)
    case (all v p cash realized)
    have "int_of shares = int_of (fp_shares p)"
      using all(3) by (cases shares; cases "fp_shares p") (auto simp: js_eq_def)
    then show ?thesis using all(2) by (auto simp: Sell all(6) held_shares_def AList.delete_conv)
  next
    case (part v p cash realized basis rest)
    have "int_of (fp_shares p - shares) = int_of (fp_shares p) - int_of shares"
      using part_of_shares books_position [OF assms(1) part(2)] fill_value [OF part(1)] part(3,4) by blast
    then show ?thesis using part(2) by (auto simp: Sell part(9) held_shares_def AList.update_conv)
  qed
next
  case (Mark instrumentId bid)
  with assms(2) have "apply_mark l (ev_at e) instrumentId bid = Inr m" by (simp add: apply_action_def)
  then show ?thesis
    by (rule apply_markE) (auto simp: Mark held_shares_def map_of_map_snd split: option.splits)
next
  case (Session session)
  with assms(2) have "apply_session l w session = Inr m" by (simp add: apply_action_def)
  then show ?thesis by (rule apply_sessionE) (simp add: Session held_shares_def)
qed

lemma event_shares:
  assumes "books_ok l \<and> held_shares l k = (\<Sum>e \<leftarrow> lg_events l. share_change k (ev_action e))"
    "apply_ledger_event l e age = Inr l'"
  shows "books_ok l' \<and> held_shares l' k = (\<Sum>e \<leftarrow> lg_events l'. share_change k (ev_action e))"
proof -
  have "books_ok l'" using event_books_ok assms by blast
  moreover have "held_shares l' k = (\<Sum>e \<leftarrow> lg_events l'. share_change k (ev_action e))"
  proof (rule apply_ledger_eventE [OF assms(2)])
    fix w m assume "apply_action l w e = Inr m"
      "l' = m\<lparr>lg_events := lg_events l @ [e], lg_lastEventAt := ev_at e\<rparr>"
    then show ?thesis using apply_action_shares [of l w e m k] assms(1) by (simp add: held_shares_def)
  qed (use assms(1) in simp)
  ultimately show ?thesis ..
qed

section \<open>The order of the log\<close>

definition log_sorted :: "ledger \<Rightarrow> bool" where
  "log_sorted l \<longleftrightarrow> sorted_wrt (\<lambda>a b. date_parse (ev_at a) \<le> date_parse (ev_at b)) (lg_events l) \<and>
     (\<forall>e \<in> set (lg_events l). date_parse (ev_at e) \<le> date_parse (lg_lastEventAt l)) \<and>
     (lg_events l \<noteq> [] \<longrightarrow> lg_lastEventAt l = ev_at (last (lg_events l)))"

lemma event_log_sorted: "log_sorted l \<Longrightarrow> apply_ledger_event l e age = Inr l' \<Longrightarrow> log_sorted l'"
  by (erule apply_ledger_eventE)
    (auto simp: log_sorted_def sorted_wrt_append js_le_refl intro: js_le_trans)

section \<open>A sample history\<close>

definition sample_event :: "string \<Rightarrow> string \<Rightarrow> ledger_action \<Rightarrow> ledger_event" where
  "sample_event i hms a = \<lparr>ev_id = i, ev_at = sample_time hms, ev_currency = LCAD, ev_action = a\<rparr>"

definition sample_events :: "ledger_event list" where
  "sample_events =
     [sample_event ''r1'' ''14:30:00'' (Reserve ''o1'' (num 1002) (num 52)),
      sample_event ''b1'' ''14:30:00'' (Buy ''o1'' ''o1'' ''i1'' (num 10) (num 100) (num 1) (num 95)),
      sample_event ''s1'' ''14:30:05'' (Sell ''o1'' (num 5) (num 101) (num 1)),
      sample_event ''r1'' ''14:30:00'' (Reserve ''o1'' (num 1002) (num 52))]"

definition sample_ledger :: "ledger result" where
  "sample_ledger = create_funded_ledger LCAD (num 10000) ''2026-09-04'' (sample_time ''14:29:00'') (num 500)"

text \<open>A smaller history for the evaluation of runs.\<close>

definition sample_start :: ledger where
  "sample_start = \<lparr>lg_currency = LCAD, lg_cash = num 10000, lg_session = ''2026-09-04'',
     lg_openingEquity = num 10000, lg_dailyLossLimit = num 500, lg_realizedPnl = Fin 0,
     lg_positions = [], lg_reservations = [], lg_events = [], lg_lastEventAt = sample_time ''14:29:00''\<rparr>"

lemma sample_created_ledger: "sample_ledger = Inr sample_start"
  by code_simp

definition sample_end :: "ledger" where
  "sample_end = sample_start\<lparr>lg_cash := num 9503, lg_realizedPnl := Fin (7 / 2),
     lg_positions := [(''o1'', \<lparr>fp_instrumentId = ''i1'', fp_shares = num 5, fp_basis = Fin (1001 / 2),
       fp_stop = num 95, fp_mark = num 100, fp_markedAt = sample_time ''14:30:00''\<rparr>)],
     lg_events := take 3 sample_events, lg_lastEventAt := sample_time ''14:30:05''\<rparr>"

lemma sample_run: "apply_ledger_events sample_start sample_events (num 30000) = Inr sample_end"
  by code_simp

lemma sample_modest: "modest_run sample_start sample_events (num 30000)"
  by code_simp

lemma sample_fair: "\<forall>e \<in> set sample_events. fair_sale (ev_action e)"
  by code_simp

lemma fair_sale_regular: "fair_sale a \<Longrightarrow> regular_fee a"
  by (cases a) auto

section \<open>The properties\<close>

text \<open>
  C21: The books balance to the unit. Take an accepted history within one session in which every
  sell fee is an amount of the ledger's grid of a ten-thousandth, of at most ten million, and every
  ledger on the way is modest: no amount above ten million and at most 256 reservations. Then cash plus the cost basis of the open positions is exactly the
  initial cash plus the realised profit, in units of a ten-thousandth, although the ledger
  computes with binary floating point. A sell fee between two grid points may leave the two sides
  a unit apart, because cash and profit are rounded separately.
\<close>

theorem books_balance:
  assumes "create_funded_ledger cur cash session instant limit = Inr l0"
    "apply_ledger_events l0 es age = Inr l" "modest_run l0 es age"
    "\<forall>e \<in> set es. regular_fee (ev_action e) \<and> (\<forall>s. ev_action e \<noteq> Session s)"
  shows "units (lg_cash l) + basis_units l = units (lg_cash l0) + units (lg_realizedPnl l)"
proof -
  note c = created_books [OF assms(1)]
  have "book_balance l = book_balance l0"
  proof (rule modest_run_invariant [where I = "\<lambda>l. book_balance l = book_balance l0", OF assms(2,3)])
    fix l e l' assume h: "books_ok l" "modest_books l" "modest_books l'" "e \<in> set es"
      "book_balance l = book_balance l0" "apply_ledger_event l e age = Inr l'"
    from h(6) show "book_balance l' = book_balance l0"
    proof (rule apply_ledger_eventE)
      fix w m assume a: "apply_action l w e = Inr m"
        "l' = m\<lparr>lg_events := lg_events l @ [e], lg_lastEventAt := ev_at e\<rparr>"
      from a(2) h(3) have m: "modest_books m" by simp
      have "regular_fee (ev_action e)" "\<forall>s. ev_action e \<noteq> Session s" using assms(4) h(4) by blast+
      from apply_action_balance [OF h(1,2) a(1) m this] show ?thesis unfolding a(2) books_log h(5) .
    qed (simp only: h(5))
  qed (use c in auto)
  then show ?thesis using c units_money_of [of 0] by (simp add: book_balance_def basis_units_def)
qed

lemma books_balance_witness:
  "units (lg_cash sample_end) + basis_units sample_end =
   units (lg_cash sample_start) + units (lg_realizedPnl sample_end) \<and>
   units (lg_realizedPnl sample_end) = 35000"
proof
  have "\<forall>e \<in> set sample_events. \<forall>s. ev_action e \<noteq> Session s"
    by (simp add: sample_events_def sample_event_def)
  with sample_fair fair_sale_regular
  have "\<forall>e \<in> set sample_events. regular_fee (ev_action e) \<and> (\<forall>s. ev_action e \<noteq> Session s)" by blast
  from books_balance [OF sample_created_ledger [unfolded sample_ledger_def] sample_run sample_modest this]
  show "units (lg_cash sample_end) + basis_units sample_end =
    units (lg_cash sample_start) + units (lg_realizedPnl sample_end)" .
qed code_simp

text \<open>
  C22: The account never promises cash it does not have. Take an accepted history, sessions
  included, in which every sell fee is an amount of the grid and no larger than the proceeds of
  its sale, and every ledger on the way is modest (no amount above ten million, at most 256
  reservations). Then the cash reserved for pending orders is between zero and the cash in the
  account; so the cash is never negative. A sale that costs more than it brings is accepted by
  the ledger and is outside this statement.
\<close>

theorem never_overspends:
  assumes "create_funded_ledger cur cash session instant limit = Inr l0"
    "apply_ledger_events l0 es age = Inr l" "modest_run l0 es age"
    "\<forall>e \<in> set es. fair_sale (ev_action e)"
  shows "0 \<le> reserved_units l \<and> reserved_units l \<le> units (lg_cash l)"
proof
  note c = created_books [OF assms(1)]
  have m0: "modest_books l0" using modest_runD [OF assms(3), of "[]" es l0]
    by (simp add: apply_ledger_events_def)
  have ok: "books_ok l" using modest_run_invariant [OF assms(2,3), of books_ok] c event_books_ok by blast
  have "modest_books l" using modest_runD [OF assms(3) _ assms(2), of "[]"] by simp
  with ok show "0 \<le> reserved_units l" by (rule reserved_nonneg)
  show "reserved_units l \<le> units (lg_cash l)"
  proof (rule modest_run_invariant [where I = "\<lambda>l. reserved_units l \<le> units (lg_cash l)", OF assms(2,3)])
    fix l e l' assume h: "books_ok l" "modest_books l" "modest_books l'" "e \<in> set es"
      "reserved_units l \<le> units (lg_cash l)" "apply_ledger_event l e age = Inr l'"
    from h(6) show "reserved_units l' \<le> units (lg_cash l')"
    proof (rule apply_ledger_eventE)
      fix w m assume a: "funded_account_summary l (ev_at e) age = Inr w" "apply_action l w e = Inr m"
        "l' = m\<lparr>lg_events := lg_events l @ [e], lg_lastEventAt := ev_at e\<rparr>"
      from a(3) h(3) have m: "modest_books m" by simp
      have "fair_sale (ev_action e)" using assms(4) h(4) by blast
      from apply_action_reserved [OF h(1,2,5) a(1,2) m this] show ?thesis unfolding a(3) books_log by simp
    qed (simp only: h(5))
  next
    have "Fin 0 \<le> lg_cash l0" "graded (lg_cash l0)" "modest (lg_cash l0)"
      using c m0 by (auto simp: books_ok_def modest_books_def)
    then have "0 \<le> units (lg_cash l0)"
      using units_le [OF graded_0 modest_0] units_money_of [of 0] by simp
    then show "reserved_units l0 \<le> units (lg_cash l0)" using c by (simp add: reserved_units_def)
  qed (use c in auto)
qed

lemma never_overspends_witness:
  "0 \<le> reserved_units sample_end \<and> reserved_units sample_end \<le> units (lg_cash sample_end)"
  by (rule never_overspends [OF sample_created_ledger [unfolded sample_ledger_def] sample_run
    sample_modest sample_fair])

text \<open>
  C23: The positions are a projection of the event log. After any accepted history, the shares
  held under a position id are exactly the shares the log has bought under it less the shares
  it has sold, and never negative: nothing is sold that was not bought.
\<close>

theorem shares_follow_log:
  assumes "create_funded_ledger cur cash session instant limit = Inr l0"
    "apply_ledger_events l0 es age = Inr l"
  shows "held_shares l k = (\<Sum>e \<leftarrow> lg_events l. share_change k (ev_action e)) \<and> 0 \<le> held_shares l k"
proof -
  note c = created_books [OF assms(1)]
  let ?I = "\<lambda>l. books_ok l \<and> held_shares l k = (\<Sum>e \<leftarrow> lg_events l. share_change k (ev_action e))"
  have l: "?I l"
  proof (rule runR_invariant [where I = ?I and ok = "\<lambda>_ _. True"])
    show "runR (\<lambda>l e. apply_ledger_event l e age) l0 es = Inr l"
      using assms(2) by (simp only: apply_ledger_events_def)
    show "?I s'" if "?I s" "apply_ledger_event s e age = Inr s'" for s e s' by (rule event_shares [OF that])
    show "?I l0" using c by (simp add: held_shares_def)
  qed simp
  then have "0 \<le> held_shares l k"
    using books_position [of l k] by (auto simp: held_shares_def share_count_def split: option.splits)
  with l show ?thesis by simp
qed

lemma shares_follow_log_witness:
  "held_shares sample_end ''o1'' = (\<Sum>e \<leftarrow> lg_events sample_end. share_change ''o1'' (ev_action e)) \<and>
   held_shares sample_end ''o1'' = 5"
proof
  show "held_shares sample_end ''o1'' = (\<Sum>e \<leftarrow> lg_events sample_end. share_change ''o1'' (ev_action e))"
    using shares_follow_log [OF sample_created_ledger [unfolded sample_ledger_def] sample_run] by blast
qed code_simp

text \<open>
  The log is the history. After any accepted sequence of events it holds exactly the
  events of the sequence, each once and under its own identity, in non-decreasing time, and
  the time of the ledger is that of its last event.
\<close>

theorem ledger_history:
  assumes "create_funded_ledger cur cash session instant limit = Inr l0"
    "apply_ledger_events l0 es age = Inr l"
  shows "set (lg_events l) = set es \<and> distinct (map ev_id (lg_events l)) \<and>
     sorted_wrt (\<lambda>a b. date_parse (ev_at a) \<le> date_parse (ev_at b)) (lg_events l) \<and>
     (lg_events l \<noteq> [] \<longrightarrow> lg_lastEventAt l = ev_at (last (lg_events l)))"
proof -
  note run = assms(2) [unfolded apply_ledger_events_def]
  have "log_sorted l0" using created_books [OF assms(1)] by (simp add: log_sorted_def)
  then have "log_sorted l"
    using runR_invariant [where I = log_sorted and ok = "\<lambda>_ _. True", OF _ _ _ run] event_log_sorted by blast
  with ledger_log.run_log [OF log_created [OF assms(1)] run] created_books [OF assms(1)]
  show ?thesis by (auto simp: log_sorted_def)
qed

lemma ledger_history_witness:
  "set (lg_events sample_end) = set sample_events \<and> length (lg_events sample_end) = 3 \<and> length sample_events = 4"
proof
  show "set (lg_events sample_end) = set sample_events"
    using ledger_history [OF sample_created_ledger [unfolded sample_ledger_def] sample_run] by blast
qed code_simp

text \<open>
  Retries are harmless and conflicts are refused. After any accepted history, an event of
  the history is accepted again at any mark age without changing the ledger, and a different
  event of the same currency under a used identity is the error \<open>Conflicting ledger event
  retry\<close>.
\<close>

theorem ledger_retry:
  assumes "create_funded_ledger cur cash session instant limit = Inr l0"
    "apply_ledger_events l0 es age = Inr l" "e \<in> set es"
  shows "apply_ledger_event l e age' = Inr l \<and>
     (\<forall>e'. ev_id e' = ev_id e \<and> ev_currency e' = ev_currency e \<and> e' \<noteq> e \<longrightarrow>
        apply_ledger_event l e' age' = throw ''Conflicting ledger event retry'')"
proof -
  note run = assms(2) [unfolded apply_ledger_events_def]
  have ok: "log_ok l" by (rule ledger_log.run_wf [OF log_created [OF assms(1)] run])
  have e: "e \<in> set (lg_events l)"
    using ledger_log.run_log [OF log_created [OF assms(1)] run] assms(3) by blast
  have "apply_ledger_event l e' age' = throw ''Conflicting ledger event retry''"
    if "ev_id e' = ev_id e" "ev_currency e' = ev_currency e" "e' \<noteq> e" for e'
    using find_logged [of ev_id "lg_events l" e] ok e that by (auto simp: log_ok_def apply_ledger_event_def)
  with retried_event [OF ok e] show ?thesis by blast
qed

lemma ledger_retry_witness:
  "apply_ledger_event sample_end (sample_event ''r1'' ''14:30:00'' (Reserve ''o1'' (num 1002) (num 52))) (num 1) =
     Inr sample_end"
proof -
  have "sample_event ''r1'' ''14:30:00'' (Reserve ''o1'' (num 1002) (num 52)) \<in> set sample_events"
    by (simp add: sample_events_def)
  from ledger_retry [OF sample_created_ledger [unfolded sample_ledger_def] sample_run this] show ?thesis by blast
qed

end
