(* ===== verification/JsCompare.thy ===== *)
theory JsCompare
  imports Financials
begin

text \<open>
  Comparators built by subtraction. Most comparators of the program chain differences of
  numbers with \<open>||\<close> and end in a string comparison. Subtraction of doubles has the right sign
  even where it underflows or overflows, so each link orders by its key, and a chain orders by
  the tuple of the keys: \<open>compares\<close> is closed under \<open>num_or\<close>, and what it says is the contract
  \<open>keyed_comparator\<close> of the sorting lemmas.

  \<open>collation\<close> is the contract of \<open>localeCompare\<close>, whose order the host chooses: it compares
  strings by some sort key.
\<close>

section \<open>The sign of a difference\<close>

definition rat_of :: "jsnum \<Rightarrow> rat" where
  "rat_of a = (case a of Fin x \<Rightarrow> x | _ \<Rightarrow> 0)"

lemma rat_of_Fin [simp]: "rat_of (Fin x) = x"
  by (simp add: rat_of_def)

lemma is_double_Fin: "is_double a \<Longrightarrow> a = Fin (rat_of a) \<and> fl (rat_of a) = rat_of a"
  by (cases a) (auto simp: is_double_def js_alt split: if_splits)

lemma is_double_num: "\<bar>n\<bar> \<le> 2 ^ 53 \<Longrightarrow> is_double (num n)"
  by (simp add: is_double_def js_of_int)

text \<open>Doubles are multiples of the smallest positive double.\<close>

lemma double_multiple:
  assumes "fl x = x"
  shows "\<exists>k. x = of_int k * 2 powi (- 1074)"
proof -
  let ?u = "ulp_exp x"
  have "\<exists>k. fl x = of_int k * 2 powi (- 1074)"
  proof (cases "x = 0")
    case False
    have "(2::rat) powi ?u = of_int (2 ^ nat (?u + 1074)) * 2 powi (- 1074)"
      using powi2_split [of "- 1074" ?u] by (simp add: ulp_exp_def)
    then have "fl x = of_int (rne (x / 2 powi ?u) * 2 ^ nat (?u + 1074)) * 2 powi (- 1074)"
      using False by (simp add: fl_def)
    then show ?thesis by blast
  qed (intro exI [of _ 0], simp)
  with assms show ?thesis by simp
qed

lemma fl_smallest: "fl (2 powi (- 1074)) = 2 powi (- 1074)"
  by (rule fl_repr) (simp only: repr53_def, intro exI [of _ 1] exI [of _ "- 1074"], simp)

lemma js_pos_iff: "Fin 0 < js x \<longleftrightarrow> 0 < fl x"
proof -
  define P :: rat where "P = 2 ^ 1024"
  have "0 < P" unfolding P_def by (rule zero_less_power) simp
  then show ?thesis unfolding js_alt P_def [symmetric] by auto
qed

lemma js_not_NaN [simp]: "js x \<noteq> NaN"
  by (simp add: js_alt)

lemma difference_positive:
  assumes "fl x = x" "fl y = y" "y < x"
  shows "0 < fl (x - y)"
proof -
  obtain a b where ab: "x = of_int a * 2 powi (- 1074)" "y = of_int b * 2 powi (- 1074)"
    using double_multiple [OF assms(1)] double_multiple [OF assms(2)] by blast
  have p: "(0::rat) < 2 powi (- 1074)" by simp
  have d: "x - y = of_int (a - b) * 2 powi (- 1074)" unfolding ab by (simp add: algebra_simps)
  have "0 < x - y" using assms(3) by simp
  then have "0 < a - b" unfolding d using p by (simp add: zero_less_mult_iff del: of_int_diff)
  then have "(1::rat) \<le> of_int (a - b)" by (simp del: of_int_diff)
  then have "1 * 2 powi (- 1074) \<le> x - y" unfolding d using p by (intro mult_right_mono) auto
  then have "fl (2 powi (- 1074)) \<le> fl (x - y)" by (intro fl_mono) simp
  then show ?thesis using p unfolding fl_smallest by (rule less_le_trans [rotated])
qed

lemma difference_sign:
  assumes "is_double a" "is_double b"
  shows "(Fin 0 < a - b \<longleftrightarrow> rat_of b < rat_of a) \<and> (a - b = Fin 0 \<longleftrightarrow> rat_of a = rat_of b) \<and> a - b \<noteq> NaN"
proof -
  let ?x = "rat_of a" and ?y = "rat_of b"
  have x: "a = Fin ?x" "fl ?x = ?x" and y: "b = Fin ?y" "fl ?y = ?y"
    using is_double_Fin [OF assms(1)] is_double_Fin [OF assms(2)] by auto
  have d: "a - b = js (?x - ?y)" by (subst x(1), subst y(1)) (simp add: minus_jsnum_def)
  consider "?x = ?y" | "?y < ?x" | "?x < ?y" by linarith
  then show ?thesis
  proof cases
    case 1
    then show ?thesis unfolding d by simp
  next
    case 2
    then have "0 < fl (?x - ?y)" using x(2) y(2) by (intro difference_positive)
    then have "Fin 0 < js (?x - ?y)" by (simp add: js_pos_iff)
    with 2 show ?thesis unfolding d by auto
  next
    case 3
    then have "0 < fl (?y - ?x)" using x(2) y(2) by (intro difference_positive)
    then have n: "fl (?x - ?y) < 0" using fl_uminus [of "?y - ?x"] by simp
    then have "\<not> Fin 0 < js (?x - ?y)" "js (?x - ?y) \<noteq> Fin 0"
      using js_pos_iff [of "?x - ?y"] by (auto simp: js_alt split: if_splits)
    with 3 show ?thesis unfolding d by auto
  qed
qed

section \<open>Commutativity and clamping\<close>

lemma js_plus_commute: "a + b = b + (a::jsnum)"
  by (cases a; cases b) (simp_all add: add.commute)

lemma js_times_commute: "a * b = b * (a::jsnum)"
  by (cases a; cases b) (simp_all add: mult.commute)

lemma js_total: "a \<noteq> NaN \<Longrightarrow> b \<noteq> NaN \<Longrightarrow> a \<le> b \<or> b \<le> (a::jsnum)"
  by (cases a; cases b) auto

text \<open>\<open>Math.max(0, Math.min(1, x))\<close>\<close>

lemma clamp_unit:
  assumes "x \<noteq> NaN"
  shows "\<exists>c. math_max (Fin 0) (math_min (Fin 1) x) = Fin c \<and> 0 \<le> c \<and> c \<le> 1"
  using assms by (cases x) (auto simp: math_max_def math_min_def)

lemma clamp_mono: "x \<noteq> NaN \<Longrightarrow> y \<noteq> NaN \<Longrightarrow> x \<le> y \<Longrightarrow>
    math_max (Fin 0) (math_min (Fin 1) x) \<le> math_max (Fin 0) (math_min (Fin 1) y)"
  by (cases x; cases y) (auto simp: math_max_def math_min_def)

section \<open>Chains of comparators\<close>

definition compares :: "('a \<Rightarrow> 'a \<Rightarrow> jsnum) \<Rightarrow> ('a \<Rightarrow> 'k::linorder) \<Rightarrow> ('a \<Rightarrow> bool) \<Rightarrow> bool" where
  "compares cmp key ok \<longleftrightarrow> (\<forall>x y. ok x \<longrightarrow> ok y \<longrightarrow>
     (Fin 0 < cmp x y \<longleftrightarrow> key y < key x) \<and> (cmp x y = NaN \<or> cmp x y = Fin 0 \<longleftrightarrow> key x = key y))"

named_theorems compares_intros \<open>how the comparators of the program are put together\<close>

lemma compares_num_or [compares_intros]:
  "compares c k ok \<Longrightarrow> compares d l ok \<Longrightarrow>
     compares (\<lambda>x y. num_or (c x y) (d x y)) (\<lambda>x. (k x, l x)) ok"
  unfolding compares_def num_or_def less_prod_def' by (auto simp: less_le)

lemma compares_ascending [compares_intros]:
  "(\<And>x. ok x \<Longrightarrow> is_double (f x)) \<Longrightarrow>
     compares (\<lambda>x y. f x - f y) (\<lambda>x. rat_of (f x)) ok"
  unfolding compares_def using difference_sign by blast

lemma compares_descending [compares_intros]:
  "(\<And>x. ok x \<Longrightarrow> is_double (f x)) \<Longrightarrow>
     compares (\<lambda>x y. f y - f x) (\<lambda>x. - rat_of (f x)) ok"
  unfolding compares_def using difference_sign by fastforce

lemma compares_string [compares_intros]: "compares (\<lambda>x y. string_cmp (f x) (f y)) f ok"
  by (auto simp: compares_def)

lemma compares_keyed: "compares cmp key ok \<Longrightarrow> keyed_comparator cmp key ok"
  by unfold_locales (auto simp: compares_def)

section \<open>Collation\<close>

type_synonym locale_compare = "string \<Rightarrow> string \<Rightarrow> jsnum"

locale collation =
  fixes lc :: locale_compare and sort_key :: "string \<Rightarrow> 'k::linorder"
  assumes collates: "compares lc sort_key (\<lambda>_. True)"
begin

lemma compares_by: "compares (\<lambda>x y. lc (f x) (f y)) (\<lambda>x. sort_key (f x)) ok"
  using collates by (simp add: compares_def)

end

text \<open>The order of code units, which the program's own comparisons use, is a collation.\<close>

interpretation code_units: collation string_cmp "\<lambda>s. s"
  by unfold_locales (auto simp: compares_def)

end
