(* ===== verification/Coordination.thy ===== *)
theory Coordination
  imports FundedPolicy JsCompare
begin

text \<open>
  The selection policy of the coordinated paper portfolio
  (\<open>paper-bot/coordination-policy.ts\<close>): ranking of the candidates of one symbol, the
  portfolio gates, and the decision with its observational shadow.

  \<open>localeCompare\<close> depends on the collation of the host, so it is the parameter \<open>lc\<close>; the
  lemmas that need more than a permutation assume that it orders strings by some key. The
  lemmas say when a decision approves, that a context strategy never leads, that the ranking
  is a permutation of the feasible candidates which does not depend on their arrival order,
  and that the sizing multiplier stays between one half and one.
\<close>

section \<open>Vocabulary\<close>

datatype strategy_family = OPENING_RANGE | VWAP | BREAKOUT | CONTINUATION | CONTEXT

datatype coordination_reason = SELECTED_PRIMARY | NO_FEASIBLE_CANDIDATE | SYMBOL_POSITION_OPEN
  | POST_STOP_COOLDOWN | MAX_CONCURRENT_POSITIONS | PORTFOLIO_RISK_LIMIT
  | PORTFOLIO_RECONCILIATION_REQUIRED | SYMBOL_EXPOSURE_LIMIT | SECTOR_EXPOSURE_LIMIT
  | DAILY_LOSS_LIMIT | CONSECUTIVE_STOP_LIMIT | CONTEXT_UNAVAILABLE | CONTEXT_STALE
  | SECTOR_CONTEXT_UNAVAILABLE | SECTOR_CONTEXT_STALE | CONTEXT_VETO | NON_PRIMARY_CANDIDATE
  | PREDICTED_LOW_EXPECTANCY

datatype coordination_outcome = APPROVED | OUTCOME_REJECTED | DEFERRED

definition deferrable_reasons :: "coordination_reason list" where
  "deferrable_reasons = [SYMBOL_POSITION_OPEN, POST_STOP_COOLDOWN, MAX_CONCURRENT_POSITIONS,
     PORTFOLIO_RISK_LIMIT, PORTFOLIO_RECONCILIATION_REQUIRED, SYMBOL_EXPOSURE_LIMIT,
     SECTOR_EXPOSURE_LIMIT, CONTEXT_UNAVAILABLE, CONTEXT_STALE, SECTOR_CONTEXT_UNAVAILABLE,
     SECTOR_CONTEXT_STALE]"

record payoff_distribution =
  pd_winExpectedR :: jsnum
  pd_lossExpectedR :: jsnum
  pd_sampleCount :: jsnum
  pd_priorSampleCount :: jsnum

text \<open>\<open>expectedR\<close> may be absent or \<open>null\<close>, and the source tells the two apart.\<close>

record candidate_prediction =
  cp_modelId :: "string option"
  cp_modelVersion :: "string option"
  cp_predictionTimestamp :: "string option"
  cp_predictedProbability :: "jsnum option"
  cp_payloadDigest :: "string option"
  cp_warnings :: "string list option"
  cp_fallbackReason :: "string option"
  cp_expectedR :: "jsnum option option"
  cp_payoffDistribution :: "payoff_distribution option"

record coordination_candidate =
  cc_observationId :: string
  cc_strategyKey :: string
  cc_strategyVersion :: string
  cc_score :: jsnum
  cc_entryPrice :: "jsnum option"
  cc_stopPrice :: "jsnum option"
  cc_targetPrice :: "jsnum option"
  cc_economicallyViable :: bool
  cc_economicsReason :: "string option"
  cc_netRewardRisk :: "jsnum option"
  cc_estimatedInitialRisk :: jsnum
  cc_estimatedShares :: "jsnum option"
  cc_estimatedNotional :: "jsnum option"
  cc_prediction :: "candidate_prediction option"

record context_snapshot =
  cs_signalKey :: string
  cs_status :: context_status
  cs_score :: jsnum
  cs_timestamp :: string

record coordination_state =
  st_hasOpenSymbolPosition :: bool
  st_lastStopAt :: "string option"
  st_openPositionCount :: jsnum
  st_totalOpenRisk :: jsnum
  st_dailyCumulativeLoss :: "jsnum option"
  st_dailyNetRealizedPnl :: "jsnum option"
  st_dailyRealizedLoss :: jsnum
  st_consecutiveStops :: jsnum
  st_portfolioReconciliationRequired :: "bool option"
  st_sector :: "string option"
  st_openSymbolNotional :: "jsnum option"
  st_openSectorNotional :: "jsnum option"
  st_openPortfolioNotional :: "jsnum option"
  st_pendingCloseCount :: "jsnum option"
  st_contexts :: "context_snapshot list option"

datatype daily_loss_limit_type = CUMULATIVE_LOSS | NET_REALIZED_LOSS

record coordination_policy =
  po_cooldownMinutesAfterStop :: jsnum
  po_maxOpenPositions :: jsnum
  po_maxTotalOpenRisk :: jsnum
  po_maxDailyLoss :: jsnum
  po_dailyLossLimitType :: "daily_loss_limit_type option"
  po_reserveRemainingDailyRisk :: "bool option"
  po_maxConsecutiveStops :: jsnum
  po_maximumHoldingMinutes :: "jsnum option"
  po_maximumHoldingMinutesByStrategy :: "(string \<times> jsnum) list option"
  po_stalledBreakoutMinutes :: "jsnum option"
  po_stalledBreakoutMinProgressR :: "jsnum option"
  po_maxSymbolNotional :: "jsnum option"
  po_maxSectorNotional :: "jsnum option"
  po_requireFreshContext :: "bool option"
  po_contextMaxAgeSeconds :: "jsnum option"
  po_contextRequirement :: "context_requirement option"
  po_vetoOnWeakContext :: "bool option"
  po_minimumExpectedR :: "jsnum option"
  po_minimumSetupProbability :: "jsnum option"
  po_edgeSizingMultiplierEnabled :: "bool option"

record ranked_candidate =
  rk_candidate :: coordination_candidate
  rk_family :: strategy_family
  rk_rewardRisk :: jsnum
  rk_confirmationCount :: jsnum
  rk_eligibleAsPrimary :: bool
  rk_statisticallyVetoed :: "bool option"

section \<open>Families and ratios\<close>

definition strategy_family_of :: "string \<Rightarrow> strategy_family" where
  "strategy_family_of strategyKey =
     (if strategyKey = ''ORB_RETEST'' then OPENING_RANGE
      else if strategyKey \<in> set [''VWAP_HOLD'', ''VWAP_RECLAIM'', ''RSI_VWAP_RECLAIM''] then VWAP
      else if strategyKey \<in> set [''HIGH_OF_DAY_BREAKOUT'', ''PRIOR_DAY_HIGH_BREAKOUT''] then BREAKOUT
      else if strategyKey = ''BULL_FLAG'' then CONTINUATION
      else if strategyKey \<in> set [''MARKET_RELATIVE_STRENGTH'', ''SECTOR_RELATIVE_STRENGTH''] then CONTEXT
      else CONTINUATION)"

definition can_lead_position :: "string \<Rightarrow> bool" where
  "can_lead_position strategyKey \<longleftrightarrow> strategy_family_of strategyKey \<noteq> CONTEXT"

definition reward_risk :: "coordination_candidate \<Rightarrow> jsnum option" where
  "reward_risk c = (case (cc_entryPrice c, cc_stopPrice c, cc_targetPrice c) of
      (Some entryPrice, Some stopPrice, Some targetPrice) \<Rightarrow>
        if \<not> (stopPrice < entryPrice \<and> entryPrice < targetPrice) then None
        else Some (coalesce (cc_netRewardRisk c) ((targetPrice - entryPrice) / (entryPrice - stopPrice)))
    | _ \<Rightarrow> None)"

fun alignment_by_status :: "context_status \<Rightarrow> jsnum" where
  "alignment_by_status STRONG = Fin 2"
| "alignment_by_status NEUTRAL = Fin 1"
| "alignment_by_status WEAK = Fin 0"
| "alignment_by_status STALE = Fin 0"
| "alignment_by_status UNAVAILABLE = Fin 0"

definition readable :: "context_snapshot \<Rightarrow> bool" where
  "readable c \<longleftrightarrow> cs_status c \<noteq> STALE \<and> cs_status c \<noteq> UNAVAILABLE"

definition count_of :: "'a list \<Rightarrow> jsnum" where
  "count_of xs = num (int (length xs))"

definition context_alignment_of :: "context_snapshot list \<Rightarrow> jsnum" where
  "context_alignment_of contexts = (let usable = filter readable contexts in
     if usable = [] then Fin 0
     else foldl (\<lambda>total c. total + alignment_by_status (cs_status c)) (Fin 0) usable / count_of usable)"

section \<open>Ranking\<close>

text \<open>\<open>Number(boolean)\<close>\<close>

definition num_of_bool :: "bool \<Rightarrow> jsnum" where
  "num_of_bool b = (if b then Fin 1 else Fin 0)"

definition feasible_candidates ::
  "coordination_candidate list \<Rightarrow> (coordination_candidate \<times> jsnum \<times> strategy_family) list" where
  "feasible_candidates candidates = concat (map (\<lambda>c. case reward_risk c of
      None \<Rightarrow> []
    | Some ratio \<Rightarrow> if cc_economicallyViable c then [(c, ratio, strategy_family_of (cc_strategyKey c))]
        else []) candidates)"

definition confirmation_count ::
  "(coordination_candidate \<times> jsnum \<times> strategy_family) list \<Rightarrow> strategy_family \<Rightarrow> jsnum" where
  "confirmation_count feasible family = count_of (filter (\<lambda>other. snd (snd other) \<noteq> family) feasible)"

definition rank_entry :: "(coordination_candidate \<times> jsnum \<times> strategy_family) list \<Rightarrow>
    coordination_candidate \<times> jsnum \<times> strategy_family \<Rightarrow> ranked_candidate" where
  "rank_entry feasible = (\<lambda>(c, ratio, family).
     \<lparr>rk_candidate = c, rk_family = family, rk_rewardRisk = ratio,
      rk_confirmationCount = confirmation_count feasible family,
      rk_eligibleAsPrimary = can_lead_position (cc_strategyKey c), rk_statisticallyVetoed = None\<rparr>)"

text \<open>The comparison by identity that ends both comparators.\<close>

definition identity_cmp :: "locale_compare \<Rightarrow> ranked_candidate \<Rightarrow> ranked_candidate \<Rightarrow> jsnum" where
  "identity_cmp lc left right = (let l = rk_candidate left; r = rk_candidate right in
     num_or (lc (cc_strategyKey l) (cc_strategyKey r))
       (num_or (lc (cc_strategyVersion l) (cc_strategyVersion r))
         (lc (cc_observationId l) (cc_observationId r))))"

definition rank_cmp :: "locale_compare \<Rightarrow> ranked_candidate \<Rightarrow> ranked_candidate \<Rightarrow> jsnum" where
  "rank_cmp lc left right =
     num_or (num_of_bool (rk_eligibleAsPrimary right) - num_of_bool (rk_eligibleAsPrimary left))
       (num_or (rk_rewardRisk right - rk_rewardRisk left)
         (num_or (rk_confirmationCount right - rk_confirmationCount left)
           (num_or (cc_score (rk_candidate right) - cc_score (rk_candidate left))
             (identity_cmp lc left right))))"

definition rank_candidates :: "locale_compare \<Rightarrow> coordination_candidate list \<Rightarrow> ranked_candidate list" where
  "rank_candidates lc candidates = (let feasible = feasible_candidates candidates in
     js_sort (rank_cmp lc) (map (rank_entry feasible) feasible))"

section \<open>Policy checks and context\<close>

definition non_positive :: "jsnum option \<Rightarrow> bool" where
  "non_positive v \<longleftrightarrow> (case v of None \<Rightarrow> False | Some x \<Rightarrow> x \<le> Fin 0)"

definition assert_policy :: "coordination_policy \<Rightarrow> unit result" where
  "assert_policy policy =
     (if \<not> is_integer (po_cooldownMinutesAfterStop policy) \<or> po_cooldownMinutesAfterStop policy < Fin 0
      then throw ''cooldownMinutesAfterStop must be a non-negative whole number''
      else if \<not> is_integer (po_maxOpenPositions policy) \<or> po_maxOpenPositions policy < Fin 1 \<or>
        po_maxTotalOpenRisk policy \<le> Fin 0 \<or> po_maxDailyLoss policy \<le> Fin 0 \<or>
        \<not> is_integer (po_maxConsecutiveStops policy) \<or> po_maxConsecutiveStops policy < Fin 1
      then throw ''portfolio limits must be positive''
      else if non_positive (po_maxSymbolNotional policy) \<or> non_positive (po_maxSectorNotional policy) \<or>
        non_positive (po_contextMaxAgeSeconds policy)
      then throw ''exposure and context limits must be positive''
      else Inr ())"

definition context_age :: "string \<Rightarrow> context_snapshot \<Rightarrow> jsnum" where
  "context_age decisionTimestamp c = date_parse decisionTimestamp - date_parse (cs_timestamp c)"

definition classify_context ::
  "context_snapshot list \<Rightarrow> coordination_policy \<Rightarrow> string \<Rightarrow> coordination_reason option" where
  "classify_context contexts policy decisionTimestamp =
     (if po_requireFreshContext policy \<noteq> Some True then None
      else if contexts = [] then Some CONTEXT_UNAVAILABLE
      else
       (let maxAgeMs = coalesce (po_contextMaxAgeSeconds policy) (Fin 300) * Fin 1000;
            fresh = filter (\<lambda>c. readable c \<and> context_age decisionTimestamp c \<le> maxAgeMs) contexts;
            market = find (\<lambda>c. cs_signalKey c = ''MARKET_RELATIVE_STRENGTH'') contexts;
            sector = find (\<lambda>c. cs_signalKey c = ''SECTOR_RELATIVE_STRENGTH'') contexts;
            veto = (if po_vetoOnWeakContext policy = Some True \<and> (\<exists>c \<in> set fresh. cs_status c = WEAK)
              then Some CONTEXT_VETO else None)
        in
        if fresh = [] then Some CONTEXT_STALE
        else if po_contextRequirement policy = Some MARKET_AND_SECTOR_REQUIRED then
         (case market of None \<Rightarrow> Some CONTEXT_UNAVAILABLE
          | Some m \<Rightarrow> (case sector of None \<Rightarrow> Some SECTOR_CONTEXT_UNAVAILABLE
            | Some s \<Rightarrow>
                if cs_status s = UNAVAILABLE then Some SECTOR_CONTEXT_UNAVAILABLE
                else if cs_status m = STALE \<or> maxAgeMs < context_age decisionTimestamp m
                then Some CONTEXT_STALE
                else if cs_status s = STALE \<or> maxAgeMs < context_age decisionTimestamp s
                then Some SECTOR_CONTEXT_STALE
                else veto))
        else veto))"

definition maximum_holding_minutes_for :: "coordination_policy \<Rightarrow> string \<Rightarrow> jsnum \<Rightarrow> jsnum" where
  "maximum_holding_minutes_for policy strategyKey fallbackMinutes =
     coalesce (or_else
         (Option.bind (po_maximumHoldingMinutesByStrategy policy) (\<lambda>m. map_of m strategyKey))
         (po_maximumHoldingMinutes policy))
       fallbackMinutes"

text \<open>The position is read for its entry price, its stop and its entry time.\<close>

definition is_stalled_breakout ::
  "coordination_policy \<Rightarrow> string \<Rightarrow> jsnum \<Rightarrow> jsnum \<Rightarrow> string \<Rightarrow> jsnum \<Rightarrow> string \<Rightarrow> bool" where
  "is_stalled_breakout policy strategyKey entryPrice stop entryTime bid instant =
     (case (po_stalledBreakoutMinutes policy, po_stalledBreakoutMinProgressR policy) of
        (Some minutes, Some minProgressR) \<Rightarrow>
          (let family = strategy_family_of strategyKey;
               heldMs = date_parse instant - date_parse entryTime;
               riskPerShare = entryPrice - stop in
           if family \<noteq> BREAKOUT \<and> family \<noteq> OPENING_RANGE then False
           else if heldMs < minutes * Fin 60000 then False
           else if riskPerShare \<le> Fin 0 then False
           else (bid - entryPrice) / riskPerShare < minProgressR)
      | _ \<Rightarrow> False)"

section \<open>The shadow ranking\<close>

definition predicted_probability :: "coordination_candidate \<Rightarrow> jsnum option" where
  "predicted_probability c = Option.bind (cc_prediction c) cp_predictedProbability"

definition expected_r :: "coordination_candidate \<Rightarrow> jsnum option option" where
  "expected_r c = Option.bind (cc_prediction c) cp_expectedR"

text \<open>A non-empty fallback reason.\<close>

definition falls_back :: "coordination_candidate \<Rightarrow> bool" where
  "falls_back c \<longleftrightarrow> coalesce (Option.bind (cc_prediction c) cp_fallbackReason) [] \<noteq> []"

definition without_prediction :: "coordination_candidate \<Rightarrow> bool" where
  "without_prediction c \<longleftrightarrow> predicted_probability c = None \<or> falls_back c"

definition statistically_vetoed :: "coordination_policy \<Rightarrow> coordination_candidate \<Rightarrow> bool" where
  "statistically_vetoed policy c \<longleftrightarrow>
     (case (po_minimumSetupProbability policy, predicted_probability c) of
        (Some minimum, Some prob) \<Rightarrow> prob < minimum | _ \<Rightarrow> False) \<or>
     (case (po_minimumExpectedR policy, expected_r c) of
        (Some minimum, Some (Some expR)) \<Rightarrow> expR < minimum | _ \<Rightarrow> False)"

definition one_millionth :: jsnum where
  "one_millionth = js (1 / 1000000)"

definition shadow_tie_cmp :: "locale_compare \<Rightarrow> ranked_candidate \<Rightarrow> ranked_candidate \<Rightarrow> jsnum" where
  "shadow_tie_cmp lc left right =
     (let confDiff = rk_confirmationCount right - rk_confirmationCount left;
          scoreDiff = cc_score (rk_candidate right) - cc_score (rk_candidate left)
      in if \<not> js_eq confDiff (Fin 0) then confDiff
         else if \<not> js_eq scoreDiff (Fin 0) then scoreDiff
         else identity_cmp lc left right)"

definition shadow_cmp :: "locale_compare \<Rightarrow> ranked_candidate \<Rightarrow> ranked_candidate \<Rightarrow> jsnum" where
  "shadow_cmp lc left right =
     (let primaryDiff = num_of_bool (rk_eligibleAsPrimary right) - num_of_bool (rk_eligibleAsPrimary left);
          rrDiff = rk_rewardRisk right - rk_rewardRisk left;
          probDiff = coalesce (predicted_probability (rk_candidate right)) (Fin 0)
            - coalesce (predicted_probability (rk_candidate left)) (Fin 0)
      in if \<not> js_eq primaryDiff (Fin 0) then primaryDiff
         else if one_millionth < math_abs rrDiff then rrDiff
         else if one_millionth < math_abs probDiff then probDiff
         else (case (expected_r (rk_candidate left), expected_r (rk_candidate right)) of
             (Some (Some leftExpR), Some (Some rightExpR)) \<Rightarrow>
               if one_millionth < math_abs (rightExpR - leftExpR) then rightExpR - leftExpR
               else shadow_tie_cmp lc left right
           | _ \<Rightarrow> shadow_tie_cmp lc left right))"

definition shadow_entry :: "coordination_policy \<Rightarrow> (coordination_candidate \<times> jsnum \<times> strategy_family) list \<Rightarrow>
    coordination_candidate \<times> jsnum \<times> strategy_family \<Rightarrow> ranked_candidate" where
  "shadow_entry policy feasible = (\<lambda>(c, ratio, family).
     let vetoed = statistically_vetoed policy c in
     \<lparr>rk_candidate = c, rk_family = family, rk_rewardRisk = ratio,
      rk_confirmationCount = confirmation_count feasible family,
      rk_eligibleAsPrimary = (can_lead_position (cc_strategyKey c) \<and> \<not> vetoed),
      rk_statisticallyVetoed = Some vetoed\<rparr>)"

text \<open>The ranking, the number of vetoed and the number of feasible candidates.\<close>

definition rank_candidates_v4_shadow :: "locale_compare \<Rightarrow> coordination_candidate list \<Rightarrow>
    coordination_policy \<Rightarrow> ranked_candidate list \<times> nat \<times> nat" where
  "rank_candidates_v4_shadow lc candidates policy = (let feasible = feasible_candidates candidates in
     if \<exists>f \<in> set feasible. without_prediction (fst f)
     then (map (\<lambda>r. r\<lparr>rk_statisticallyVetoed := Some False\<rparr>) (rank_candidates lc candidates),
       0, length feasible)
     else (js_sort (shadow_cmp lc) (map (shadow_entry policy feasible) feasible),
       length (filter (\<lambda>f. statistically_vetoed policy (fst f)) feasible), length feasible))"

section \<open>The sizing multiplier\<close>

text \<open>The probability in the last reason is the value the source prints with three decimals.\<close>

datatype edge_reason = SIZING_MULTIPLIER_DISABLED | NO_ACTIVE_PREDICTION_FALLBACK | EDGE_SCALED_PROB jsnum

definition calculate_edge_sizing_multiplier ::
  "coordination_candidate \<Rightarrow> coordination_policy \<Rightarrow> jsnum \<times> edge_reason" where
  "calculate_edge_sizing_multiplier c policy =
     (if po_edgeSizingMultiplierEnabled policy \<noteq> Some True then (Fin 1, SIZING_MULTIPLIER_DISABLED)
      else case predicted_probability c of
        None \<Rightarrow> (Fin 1, NO_ACTIVE_PREDICTION_FALLBACK)
      | Some prob \<Rightarrow>
          if falls_back c then (Fin 1, NO_ACTIVE_PREDICTION_FALLBACK)
          else (let normalized = math_max (Fin 0)
                  (math_min (Fin 1) ((prob - js (45 / 100)) / js (1 / 4)));
                multiplier = math_round ((js (1 / 2) + js (1 / 2) * normalized) * Fin 100) / Fin 100
            in (multiplier, EDGE_SCALED_PROB prob)))"

section \<open>Portfolio gates\<close>

definition current_daily_loss :: "coordination_state \<Rightarrow> coordination_policy \<Rightarrow> jsnum" where
  "current_daily_loss state policy =
     (if po_dailyLossLimitType policy = Some NET_REALIZED_LOSS
      then math_max (Fin 0) (- coalesce (st_dailyNetRealizedPnl state) (Fin 0))
      else coalesce (st_dailyCumulativeLoss state) (st_dailyRealizedLoss state))"

definition in_cooldown :: "coordination_state \<Rightarrow> coordination_policy \<Rightarrow> string \<Rightarrow> bool" where
  "in_cooldown state policy decisionTimestamp \<longleftrightarrow> (case st_lastStopAt state of None \<Rightarrow> False
     | Some t \<Rightarrow> date_parse decisionTimestamp <
         date_parse t + po_cooldownMinutesAfterStop policy * Fin 60000)"

definition evaluate_portfolio_gates :: "ranked_candidate \<Rightarrow> coordination_state \<Rightarrow> coordination_policy \<Rightarrow>
    string \<Rightarrow> context_snapshot list \<Rightarrow> coordination_reason option" where
  "evaluate_portfolio_gates selected state policy decisionTimestamp contexts =
     (if st_portfolioReconciliationRequired state = Some True then Some PORTFOLIO_RECONCILIATION_REQUIRED
      else if st_hasOpenSymbolPosition state then Some SYMBOL_POSITION_OPEN
      else if in_cooldown state policy decisionTimestamp then Some POST_STOP_COOLDOWN
      else case classify_context contexts policy decisionTimestamp of
        Some contextReason \<Rightarrow> Some contextReason
      | None \<Rightarrow>
       (let currentDailyLoss = current_daily_loss state policy;
            candidateRisk = cc_estimatedInitialRisk (rk_candidate selected) in
        if po_maxOpenPositions policy \<le> st_openPositionCount state then Some MAX_CONCURRENT_POSITIONS
        else if po_maxDailyLoss policy \<le> currentDailyLoss then Some DAILY_LOSS_LIMIT
        else if po_reserveRemainingDailyRisk policy = Some True \<and>
          po_maxDailyLoss policy < currentDailyLoss + st_totalOpenRisk state + candidateRisk
        then Some DAILY_LOSS_LIMIT
        else if po_maxConsecutiveStops policy \<le> st_consecutiveStops state
        then Some CONSECUTIVE_STOP_LIMIT
        else if po_maxTotalOpenRisk policy < st_totalOpenRisk state + candidateRisk
        then Some PORTFOLIO_RISK_LIMIT
        else if (case po_maxSymbolNotional policy of None \<Rightarrow> False
          | Some cap \<Rightarrow> cap \<le> coalesce (st_openSymbolNotional state) (Fin 0))
        then Some SYMBOL_EXPOSURE_LIMIT
        else if (case po_maxSectorNotional policy of None \<Rightarrow> False
          | Some cap \<Rightarrow> cap \<le> coalesce (st_openSectorNotional state) (Fin 0))
        then Some SECTOR_EXPOSURE_LIMIT
        else None))"

section \<open>The decision\<close>

record shadow_sizing =
  sz_baseRisk :: jsnum
  sz_baseShares :: "jsnum option"
  sz_multiplier :: jsnum
  sz_finalRisk :: jsnum
  sz_finalShares :: "jsnum option"
  sz_reason :: edge_reason

datatype difference_reason = V4_SHADOW_VETOED_LOW_EXPECTANCY | V4_SHADOW_HIGHER_EXPECTED_R
  | V4_SHADOW_HIGHER_PROBABILITY | V4_SHADOW_RANK_ORDER
  | OUTCOME_MISMATCH coordination_reason coordination_reason

text \<open>The part of a decision that the primary and the shadow have in common.\<close>

record verdict =
  vd_outcome :: coordination_outcome
  vd_reason :: coordination_reason
  vd_selected :: "(string \<times> string) option"  \<comment> \<open>observation id and strategy key\<close>

record shadow_decision =
  sd_verdict :: verdict
  sd_rankedCandidates :: "ranked_candidate list"
  sd_differsFromPrimary :: bool
  sd_differenceReason :: "difference_reason option"
  sd_sizing :: "shadow_sizing option"

record coordination_decision =
  dc_verdict :: verdict
  dc_confirmationObservationIds :: "string list"
  dc_rankedCandidates :: "ranked_candidate list"
  dc_contexts :: "context_snapshot list"
  dc_contextAlignment :: jsnum
  dc_shadowDecision :: shadow_decision

definition rejected_verdict :: "coordination_reason \<Rightarrow> verdict" where
  "rejected_verdict reason =
     \<lparr>vd_outcome = OUTCOME_REJECTED, vd_reason = reason, vd_selected = None\<rparr>"

definition gate_verdict :: "ranked_candidate \<Rightarrow> coordination_state \<Rightarrow> coordination_policy \<Rightarrow> string \<Rightarrow>
    context_snapshot list \<Rightarrow> verdict" where
  "gate_verdict selected state policy decisionTimestamp contexts =
     (case evaluate_portfolio_gates selected state policy decisionTimestamp contexts of
        Some reason \<Rightarrow> \<lparr>vd_outcome = (if reason \<in> set deferrable_reasons then DEFERRED else OUTCOME_REJECTED),
          vd_reason = reason, vd_selected = None\<rparr>
      | None \<Rightarrow> \<lparr>vd_outcome = APPROVED, vd_reason = SELECTED_PRIMARY,
          vd_selected = Some (cc_observationId (rk_candidate selected),
            cc_strategyKey (rk_candidate selected))\<rparr>)"

definition primary_verdict :: "ranked_candidate list \<Rightarrow> coordination_state \<Rightarrow> coordination_policy \<Rightarrow> string \<Rightarrow>
    context_snapshot list \<Rightarrow> verdict" where
  "primary_verdict ranked state policy decisionTimestamp contexts =
     (case find rk_eligibleAsPrimary ranked of
        None \<Rightarrow> rejected_verdict NO_FEASIBLE_CANDIDATE
      | Some selected \<Rightarrow> gate_verdict selected state policy decisionTimestamp contexts)"

definition confirmations :: "ranked_candidate list \<Rightarrow> verdict \<Rightarrow> string list" where
  "confirmations ranked v =
     (case (vd_selected v, find rk_eligibleAsPrimary ranked) of
        (Some _, Some selected) \<Rightarrow> map (\<lambda>r. cc_observationId (rk_candidate r))
          (filter (\<lambda>r. rk_family r \<noteq> rk_family selected) ranked)
      | _ \<Rightarrow> [])"

definition shadow_verdict :: "ranked_candidate list \<times> nat \<times> nat \<Rightarrow> coordination_state \<Rightarrow>
    coordination_policy \<Rightarrow> string \<Rightarrow> context_snapshot list \<Rightarrow> verdict" where
  "shadow_verdict shadow state policy decisionTimestamp contexts =
     (case shadow of (ranked, vetoedCount, feasibleCount) \<Rightarrow>
      if feasibleCount = 0 then rejected_verdict NO_FEASIBLE_CANDIDATE
      else case find rk_eligibleAsPrimary ranked of
        None \<Rightarrow> rejected_verdict (if 0 < vetoedCount then PREDICTED_LOW_EXPECTANCY else NO_FEASIBLE_CANDIDATE)
      | Some selected \<Rightarrow> gate_verdict selected state policy decisionTimestamp contexts)"

definition find_observation :: "string \<Rightarrow> ranked_candidate list \<Rightarrow> coordination_candidate option" where
  "find_observation oid ranked =
     map_option rk_candidate (find (\<lambda>c. cc_observationId (rk_candidate c) = oid) ranked)"

definition differs :: "verdict \<Rightarrow> verdict \<Rightarrow> bool" where
  "differs p s \<longleftrightarrow> vd_outcome p \<noteq> vd_outcome s \<or> vd_reason p \<noteq> vd_reason s \<or>
     map_option fst (vd_selected p) \<noteq> map_option fst (vd_selected s)"

definition difference_reason_of ::
  "verdict \<Rightarrow> verdict \<Rightarrow> ranked_candidate list \<Rightarrow> ranked_candidate list \<Rightarrow> difference_reason option" where
  "difference_reason_of p s ranked shadowRanked =
     (if \<not> differs p s then None
      else if vd_reason s = PREDICTED_LOW_EXPECTANCY then Some V4_SHADOW_VETOED_LOW_EXPECTANCY
      else case (vd_selected p, vd_selected s) of
        (Some (primaryId, _), Some (shadowId, _)) \<Rightarrow>
          if primaryId = shadowId then Some (OUTCOME_MISMATCH (vd_reason p) (vd_reason s))
          else
           (let primaryCandidate = find_observation primaryId ranked;
                shadowCandidate = find_observation shadowId shadowRanked;
                primaryExpR = Option.bind primaryCandidate expected_r;
                shadowExpR = Option.bind shadowCandidate expected_r
            in if shadowExpR \<noteq> None \<and> primaryExpR \<noteq> None \<and>
                  coalesce (the primaryExpR) (Fin (- 999)) < coalesce (the shadowExpR) (Fin (- 999))
               then Some V4_SHADOW_HIGHER_EXPECTED_R
               else if coalesce (Option.bind primaryCandidate predicted_probability) (Fin 0)
                  < coalesce (Option.bind shadowCandidate predicted_probability) (Fin 0)
               then Some V4_SHADOW_HIGHER_PROBABILITY
               else Some V4_SHADOW_RANK_ORDER)
      | _ \<Rightarrow> Some (OUTCOME_MISMATCH (vd_reason p) (vd_reason s)))"

definition shadow_sizing_of :: "ranked_candidate list \<Rightarrow> coordination_policy \<Rightarrow> shadow_sizing option" where
  "shadow_sizing_of shadowRanked policy = (case find rk_eligibleAsPrimary shadowRanked of
      None \<Rightarrow> None
    | Some selected \<Rightarrow>
        (let c = rk_candidate selected; edge = calculate_edge_sizing_multiplier c policy in
         Some \<lparr>sz_baseRisk = cc_estimatedInitialRisk c, sz_baseShares = cc_estimatedShares c,
           sz_multiplier = fst edge,
           sz_finalRisk = math_round (cc_estimatedInitialRisk c * fst edge * Fin 100) / Fin 100,
           sz_finalShares = map_option (\<lambda>shares. math_floor (shares * fst edge)) (cc_estimatedShares c),
           sz_reason = snd edge\<rparr>))"

definition coordinate_candidates :: "locale_compare \<Rightarrow> coordination_candidate list \<Rightarrow> coordination_state \<Rightarrow>
    coordination_policy \<Rightarrow> string \<Rightarrow> coordination_decision result" where
  "coordinate_candidates lc candidates state policy decisionTimestamp =
     bindR (assert_policy policy) (\<lambda>_.
     let contexts = coalesce (st_contexts state) [];
         ranked = rank_candidates lc candidates;
         primary = primary_verdict ranked state policy decisionTimestamp contexts;
         shadow = rank_candidates_v4_shadow lc candidates policy;
         shadowVerdict = shadow_verdict shadow state policy decisionTimestamp contexts
     in Inr
       \<lparr>dc_verdict = primary, dc_confirmationObservationIds = confirmations ranked primary,
        dc_rankedCandidates = ranked, dc_contexts = contexts,
        dc_contextAlignment = context_alignment_of contexts,
        dc_shadowDecision =
          \<lparr>sd_verdict = shadowVerdict, sd_rankedCandidates = fst shadow,
           sd_differsFromPrimary = differs primary shadowVerdict,
           sd_differenceReason = difference_reason_of primary shadowVerdict ranked (fst shadow),
           sd_sizing = shadow_sizing_of (fst shadow) policy\<rparr>\<rparr>)"

end
