(* ===== verification/CoordinationProperties.thy ===== *)
theory CoordinationProperties
  imports Coordination
begin

text \<open>
  What the coordination policy guarantees: an approval respects every limit of the portfolio; the
  ranking, hence the decision, does not depend on the order in which the candidates arrive;
  the shadow ranking has no influence on the decision; the sizing multiplier of the shadow
  stays between one half and one; and the shadow comparator is not an order.
\<close>

section \<open>The ranking as an order by a key\<close>

definition rank_ok :: "ranked_candidate \<Rightarrow> bool" where
  "rank_ok r \<longleftrightarrow> is_double (rk_rewardRisk r) \<and> is_double (rk_confirmationCount r) \<and>
     is_double (cc_score (rk_candidate r))"

definition rank_key :: "(string \<Rightarrow> 'k::linorder) \<Rightarrow> ranked_candidate \<Rightarrow>
    rat \<times> rat \<times> rat \<times> rat \<times> 'k \<times> 'k \<times> 'k" where
  "rank_key sk r = (- rat_of (num_of_bool (rk_eligibleAsPrimary r)), - rat_of (rk_rewardRisk r),
     - rat_of (rk_confirmationCount r), - rat_of (cc_score (rk_candidate r)),
     sk (cc_strategyKey (rk_candidate r)), sk (cc_strategyVersion (rk_candidate r)),
     sk (cc_observationId (rk_candidate r)))"

lemma is_double_bool [simp]: "is_double (num_of_bool b)"
  using is_double_num [of 0] is_double_num [of 1] by (simp add: num_of_bool_def)

lemma rank_compares:
  assumes "collation lc sk"
  shows "compares (rank_cmp lc) (rank_key sk) rank_ok"
  unfolding rank_cmp_def [abs_def] identity_cmp_def [abs_def] rank_key_def [abs_def] Let_def
  by (intro compares_intros collation.compares_by [OF assms]) (auto simp: rank_ok_def)

text \<open>The ranking under the program's own string order.\<close>

interpretation code_unit_ranking: keyed_comparator "rank_cmp string_cmp" "rank_key (\<lambda>s. s)" rank_ok
  by (rule compares_keyed [OF rank_compares]) (rule code_units.collation_axioms)

text \<open>Candidates whose ratio and score are doubles.\<close>

definition numeric_candidate :: "coordination_candidate \<Rightarrow> bool" where
  "numeric_candidate c \<longleftrightarrow> is_double (cc_score c) \<and>
     (case reward_risk c of None \<Rightarrow> True | Some ratio \<Rightarrow> is_double ratio)"

text \<open>The identity by which ties are broken, under the sort key of the collation.\<close>

definition identity_of :: "(string \<Rightarrow> 'k) \<Rightarrow> coordination_candidate \<Rightarrow> 'k \<times> 'k \<times> 'k" where
  "identity_of sk c = (sk (cc_strategyKey c), sk (cc_strategyVersion c), sk (cc_observationId c))"

lemma mset_concat_map: "mset xs = mset ys \<Longrightarrow> mset (concat (map f xs)) = mset (concat (map f ys))"
proof -
  have "mset (concat (map f zs)) = (\<Sum>x \<in># mset zs. mset (f x))" for zs :: "'a list"
    by (induction zs) auto
  then show "mset xs = mset ys \<Longrightarrow> ?thesis" by simp
qed

lemma in_feasible:
  "(c, ratio, family) \<in> set (feasible_candidates cs) \<longleftrightarrow> c \<in> set cs \<and> reward_risk c = Some ratio \<and>
     cc_economicallyViable c \<and> family = strategy_family_of (cc_strategyKey c)"
  by (auto simp: feasible_candidates_def split: option.splits if_splits)

lemma length_feasible: "length (feasible_candidates cs) \<le> length cs"
  unfolding feasible_candidates_def by (induction cs) (auto split: option.splits)

lemma rank_entries_permuted:
  assumes "mset xs = mset ys"
  shows "mset (map (rank_entry (feasible_candidates xs)) (feasible_candidates xs)) =
    mset (map (rank_entry (feasible_candidates ys)) (feasible_candidates ys))"
proof -
  have f: "mset (feasible_candidates xs) = mset (feasible_candidates ys)"
    unfolding feasible_candidates_def by (rule mset_concat_map [OF assms])
  have "confirmation_count (feasible_candidates xs) = confirmation_count (feasible_candidates ys)"
  proof
    fix family
    have "size (filter_mset (\<lambda>x. snd (snd x) \<noteq> family) (mset (feasible_candidates xs))) =
        size (filter_mset (\<lambda>x. snd (snd x) \<noteq> family) (mset (feasible_candidates ys)))" by (simp only: f)
    then show "confirmation_count (feasible_candidates xs) family = confirmation_count (feasible_candidates ys) family"
      by (simp add: confirmation_count_def count_of_def flip: mset_filter)
  qed
  then have "rank_entry (feasible_candidates xs) = rank_entry (feasible_candidates ys)"
    by (simp add: rank_entry_def)
  with f show ?thesis by simp
qed

lemma rank_entries_ok:
  assumes "\<forall>c \<in> set cs. numeric_candidate c" "length cs \<le> 2 ^ 53"
    "r \<in> set (map (rank_entry (feasible_candidates cs)) (feasible_candidates cs))"
  shows "rank_ok r \<and> rk_candidate r \<in> set cs"
proof -
  obtain c ratio family where r: "r = rank_entry (feasible_candidates cs) (c, ratio, family)"
    and c: "c \<in> set cs" "reward_risk c = Some ratio"
    using assms(3) by (auto simp: in_feasible)
  have "length (filter (\<lambda>x. snd (snd x) \<noteq> family) (feasible_candidates cs)) \<le> 2 ^ 53"
    using length_filter_le length_feasible assms(2) by (rule order_trans [OF order_trans])
  then have "\<bar>int (length (filter (\<lambda>x. snd (snd x) \<noteq> family) (feasible_candidates cs)))\<bar> \<le> 2 ^ 53"
    by (simp only: abs_of_nat) (metis of_nat_le_iff of_nat_numeral of_nat_power)
  from is_double_num [OF this] assms(1) c show ?thesis
    by (auto simp: r rank_entry_def rank_ok_def numeric_candidate_def confirmation_count_def count_of_def)
qed

lemma rank_candidates_permutation:
  assumes "collation lc sk" "mset xs = mset ys" "\<forall>c \<in> set xs. numeric_candidate c" "length xs \<le> 2 ^ 53"
    "inj_on (identity_of sk) (set xs)"
  shows "rank_candidates lc xs = rank_candidates lc ys"
proof -
  let ?E = "\<lambda>zs. map (rank_entry (feasible_candidates zs)) (feasible_candidates zs)"
  have inj: "inj_on (rank_key sk) (set (?E xs))"
  proof (rule inj_onI)
    fix r s assume h: "r \<in> set (?E xs)" "s \<in> set (?E xs)" "rank_key sk r = rank_key sk s"
    have "identity_of sk (rk_candidate r) = identity_of sk (rk_candidate s)"
      using h(3) by (simp add: rank_key_def identity_of_def)
    moreover have "rk_candidate r \<in> set xs" "rk_candidate s \<in> set xs"
      using rank_entries_ok [OF assms(3,4)] h(1,2) by blast+
    ultimately have "rk_candidate r = rk_candidate s" using assms(5) by (auto dest: inj_onD)
    with h(1,2) show "r = s" by (auto simp: in_feasible rank_entry_def)
  qed
  have "js_sort (rank_cmp lc) (?E xs) = js_sort (rank_cmp lc) (?E ys)"
    using rank_entries_ok [OF assms(3,4)]
    by (intro keyed_comparator.js_sort_permutation [OF compares_keyed [OF rank_compares [OF assms(1)]] _ 
      rank_entries_permuted [OF assms(2)] inj]) blast
  then show ?thesis by (simp add: rank_candidates_def Let_def)
qed

section \<open>The decision\<close>

lemma coordinate_candidates_Inr:
  "coordinate_candidates lc candidates state policy t = Inr d \<Longrightarrow>
     assert_policy policy = Inr () \<and> dc_rankedCandidates d = rank_candidates lc candidates \<and>
     dc_verdict d = primary_verdict (rank_candidates lc candidates) state policy t (coalesce (st_contexts state) []) \<and>
     dc_confirmationObservationIds d = confirmations (rank_candidates lc candidates) (dc_verdict d) \<and>
     sd_sizing (dc_shadowDecision d) = shadow_sizing_of (fst (rank_candidates_v4_shadow lc candidates policy)) policy"
  by (auto simp: coordinate_candidates_def bindR_eq_Inr Let_def)

lemma ranked_candidate_cases:
  assumes "r \<in> set (rank_candidates lc cs)"
  shows "rk_candidate r \<in> set cs \<and> cc_economicallyViable (rk_candidate r) \<and>
    reward_risk (rk_candidate r) = Some (rk_rewardRisk r) \<and>
    (rk_eligibleAsPrimary r \<longleftrightarrow> can_lead_position (cc_strategyKey (rk_candidate r)))"
  using assms by (auto simp: rank_candidates_def Let_def rank_entry_def in_feasible)

lemma approved_cases:
  assumes "vd_outcome (primary_verdict ranked state policy t contexts) = APPROVED"
  obtains selected where "find rk_eligibleAsPrimary ranked = Some selected"
    "evaluate_portfolio_gates selected state policy t contexts = None"
    "vd_selected (primary_verdict ranked state policy t contexts) =
       Some (cc_observationId (rk_candidate selected), cc_strategyKey (rk_candidate selected))"
  using assms
  by (auto simp: primary_verdict_def gate_verdict_def rejected_verdict_def split: option.splits if_splits)

lemma gates_open:
  assumes "evaluate_portfolio_gates selected state policy t contexts = None"
  shows "st_portfolioReconciliationRequired state \<noteq> Some True \<and> \<not> st_hasOpenSymbolPosition state \<and>
    \<not> in_cooldown state policy t \<and> classify_context contexts policy t = None \<and>
    \<not> po_maxOpenPositions policy \<le> st_openPositionCount state \<and>
    \<not> po_maxDailyLoss policy \<le> current_daily_loss state policy \<and>
    (po_reserveRemainingDailyRisk policy = Some True \<longrightarrow>
      \<not> po_maxDailyLoss policy < current_daily_loss state policy + st_totalOpenRisk state
        + cc_estimatedInitialRisk (rk_candidate selected)) \<and>
    \<not> po_maxConsecutiveStops policy \<le> st_consecutiveStops state \<and>
    \<not> po_maxTotalOpenRisk policy < st_totalOpenRisk state + cc_estimatedInitialRisk (rk_candidate selected) \<and>
    (\<forall>cap \<in> set_option (po_maxSymbolNotional policy). \<not> cap \<le> coalesce (st_openSymbolNotional state) (Fin 0)) \<and>
    (\<forall>cap \<in> set_option (po_maxSectorNotional policy). \<not> cap \<le> coalesce (st_openSectorNotional state) (Fin 0))"
  using assms by (auto simp: evaluate_portfolio_gates_def Let_def split: if_splits option.splits)

section \<open>The predictions do not reach the decision\<close>

definition erase :: "coordination_candidate \<Rightarrow> coordination_candidate" where
  "erase c = c\<lparr>cc_prediction := None\<rparr>"

definition erase_ranked :: "ranked_candidate \<Rightarrow> ranked_candidate" where
  "erase_ranked r = r\<lparr>rk_candidate := erase (rk_candidate r)\<rparr>"

definition erase_policy :: "coordination_policy \<Rightarrow> coordination_policy" where
  "erase_policy p = p\<lparr>po_minimumExpectedR := None, po_minimumSetupProbability := None,
     po_edgeSizingMultiplierEnabled := None\<rparr>"

lemma erase_prices:
  "cc_entryPrice (erase c) = cc_entryPrice c" "cc_stopPrice (erase c) = cc_stopPrice c"
  "cc_targetPrice (erase c) = cc_targetPrice c" "cc_netRewardRisk (erase c) = cc_netRewardRisk c"
  by (simp_all add: erase_def)

lemma reward_risk_erase [simp]: "reward_risk (erase c) = reward_risk c"
  by (simp only: reward_risk_def erase_prices)

lemma erase_simps [simp]:
  "cc_observationId (erase c) = cc_observationId c" "cc_strategyKey (erase c) = cc_strategyKey c"
  "cc_strategyVersion (erase c) = cc_strategyVersion c" "cc_score (erase c) = cc_score c"
  "cc_estimatedInitialRisk (erase c) = cc_estimatedInitialRisk c"
  "cc_economicallyViable (erase c) = cc_economicallyViable c"
  "rk_candidate (erase_ranked r) = erase (rk_candidate r)" "rk_family (erase_ranked r) = rk_family r"
  "rk_eligibleAsPrimary (erase_ranked r) = rk_eligibleAsPrimary r"
  "rk_rewardRisk (erase_ranked r) = rk_rewardRisk r"
  "rk_confirmationCount (erase_ranked r) = rk_confirmationCount r"
  by (simp_all add: erase_def erase_ranked_def)

lemma js_sort_map:
  assumes "\<And>x y. cmp (f x) (f y) = cmp' x y"
  shows "js_sort cmp (map f xs) = map f (js_sort cmp' xs)"
proof -
  have i: "insert_by cmp (f x) (map f ys) = map f (insert_by cmp' x ys)" for x ys
    by (induction ys) (auto simp: assms)
  show ?thesis unfolding js_sort_def by (induction xs) (auto simp: i)
qed

lemma rank_cmp_erase: "rank_cmp lc (erase_ranked x) (erase_ranked y) = rank_cmp lc x y"
  by (simp add: rank_cmp_def identity_cmp_def Let_def)

lemma feasible_erase:
  "feasible_candidates (map erase cs) = map (\<lambda>(c, f). (erase c, f)) (feasible_candidates cs)"
  unfolding feasible_candidates_def by (induction cs) (auto split: option.splits)

lemma confirmation_count_erase:
  "confirmation_count (map (\<lambda>(c, f). (erase c, f)) xs) = confirmation_count xs"
proof
  fix family
  have "filter (\<lambda>other. snd (snd other) \<noteq> family) (map (\<lambda>(c, f). (erase c, f)) xs) =
      map (\<lambda>(c, f). (erase c, f)) (filter (\<lambda>other. snd (snd other) \<noteq> family) xs)"
    by (induction xs) auto
  then show "confirmation_count (map (\<lambda>(c, f). (erase c, f)) xs) family = confirmation_count xs family"
    by (simp add: confirmation_count_def count_of_def)
qed

lemma rank_erase: "rank_candidates lc (map erase cs) = map erase_ranked (rank_candidates lc cs)"
proof -
  have e: "rank_entry (feasible_candidates (map erase cs)) (erase c, f) =
      erase_ranked (rank_entry (feasible_candidates cs) (c, f))" for c f
    by (cases f) (simp add: rank_entry_def feasible_erase confirmation_count_erase erase_ranked_def)
  have "map (rank_entry (feasible_candidates (map erase cs))) (feasible_candidates (map erase cs)) =
      map erase_ranked (map (rank_entry (feasible_candidates cs)) (feasible_candidates cs))"
    by (subst (2) feasible_erase) (auto simp: e)
  then show ?thesis
    unfolding rank_candidates_def Let_def by (simp only:
      js_sort_map [where cmp = "rank_cmp lc" and f = erase_ranked and cmp' = "rank_cmp lc", OF rank_cmp_erase])
qed

lemma find_map: "find P (map f xs) = map_option f (find (\<lambda>x. P (f x)) xs)"
  by (induction xs) auto

lemma gates_erase:
  "evaluate_portfolio_gates (erase_ranked r) state policy t contexts =
   evaluate_portfolio_gates r state policy t contexts"
  by (simp only: evaluate_portfolio_gates_def erase_simps)

lemma primary_verdict_erase:
  "primary_verdict (map erase_ranked ranked) state policy t contexts =
   primary_verdict ranked state policy t contexts"
  by (simp add: primary_verdict_def find_map gate_verdict_def gates_erase split: option.splits)

lemma confirmations_erase: "confirmations (map erase_ranked ranked) v = confirmations ranked v"
  by (auto simp: confirmations_def find_map filter_map o_def split: option.splits)

lemma erase_policy_fields:
  "po_cooldownMinutesAfterStop (erase_policy p) = po_cooldownMinutesAfterStop p"
  "po_maxOpenPositions (erase_policy p) = po_maxOpenPositions p"
  "po_maxTotalOpenRisk (erase_policy p) = po_maxTotalOpenRisk p"
  "po_maxDailyLoss (erase_policy p) = po_maxDailyLoss p"
  "po_dailyLossLimitType (erase_policy p) = po_dailyLossLimitType p"
  "po_reserveRemainingDailyRisk (erase_policy p) = po_reserveRemainingDailyRisk p"
  "po_maxConsecutiveStops (erase_policy p) = po_maxConsecutiveStops p"
  "po_maxSymbolNotional (erase_policy p) = po_maxSymbolNotional p"
  "po_maxSectorNotional (erase_policy p) = po_maxSectorNotional p"
  "po_requireFreshContext (erase_policy p) = po_requireFreshContext p"
  "po_contextMaxAgeSeconds (erase_policy p) = po_contextMaxAgeSeconds p"
  "po_contextRequirement (erase_policy p) = po_contextRequirement p"
  "po_vetoOnWeakContext (erase_policy p) = po_vetoOnWeakContext p"
  by (simp_all add: erase_policy_def)

lemma gates_erase_policy:
  "evaluate_portfolio_gates r state (erase_policy policy) t contexts =
   evaluate_portfolio_gates r state policy t contexts"
  by (simp only: evaluate_portfolio_gates_def classify_context_def in_cooldown_def
    current_daily_loss_def erase_policy_fields)

lemma primary_verdict_erase_policy:
  "primary_verdict ranked state (erase_policy policy) t contexts =
   primary_verdict ranked state policy t contexts"
  by (simp only: primary_verdict_def gate_verdict_def gates_erase_policy)

lemma assert_policy_erase: "assert_policy (erase_policy policy) = assert_policy policy"
  by (simp only: assert_policy_def erase_policy_fields)

text \<open>The part of a decision that is acted upon.\<close>

definition acted_on :: "coordination_decision result \<Rightarrow> (verdict \<times> string list) result" where
  "acted_on = map_sum id (\<lambda>d. (dc_verdict d, dc_confirmationObservationIds d))"

lemma acted_on_coordinate:
  "acted_on (coordinate_candidates lc cs state policy t) = map_sum id (\<lambda>_.
     let ranked = rank_candidates lc cs; v = primary_verdict ranked state policy t (coalesce (st_contexts state) [])
     in (v, confirmations ranked v)) (assert_policy policy)"
  by (auto simp: acted_on_def coordinate_candidates_def Let_def bindR_def split: sum.splits)

lemma acted_on_erase:
  "acted_on (coordinate_candidates lc (map erase cs) state (erase_policy policy) t) =
   acted_on (coordinate_candidates lc cs state policy t)"
  by (simp only: acted_on_coordinate rank_erase primary_verdict_erase primary_verdict_erase_policy
    confirmations_erase assert_policy_erase Let_def)

section \<open>The multiplier\<close>

definition edge_curve :: "rat \<Rightarrow> jsnum" where
  "edge_curve c = math_round ((js (1 / 2) + js (1 / 2) * Fin c) * Fin 100) / Fin 100"

lemma edge_curve_ends: "edge_curve 0 = Fin (1 / 2)" "edge_curve 1 = Fin 1"
  by code_simp+

lemma js_half: "js (1 / 2) = Fin (1 / 2)"
  by code_simp

lemma edge_curve_mono: "c \<le> d \<Longrightarrow> edge_curve c \<le> edge_curve d"
  unfolding edge_curve_def js_half js_plus_commute [of "Fin (1 / 2)"]
  by (intro js_div_mono math_round_mono js_mult_mono js_add_mono js_mult_mono_left) auto

text \<open>The excess over the base probability, in units of the scale.\<close>

definition edge_of :: "jsnum \<Rightarrow> jsnum" where
  "edge_of prob = (prob - js (45 / 100)) / js (1 / 4)"

lemma edge_constants: "\<exists>b. js (45 / 100) = Fin b" "js (1 / 4) = Fin (1 / 4)"
proof -
  have "js (45 / 100) = Fin (8106479329266893 / 18014398509481984)" by code_simp
  then show "\<exists>b. js (45 / 100) = Fin b" by blast
  show "js (1 / 4) = Fin (1 / 4)" by code_simp
qed

lemma edge_of_not_NaN: "prob \<noteq> NaN \<Longrightarrow> edge_of prob \<noteq> NaN"
proof -
  assume p: "prob \<noteq> NaN"
  obtain b where b: "js (45 / 100) = Fin b" using edge_constants(1) by blast
  have "prob - Fin b \<noteq> NaN" using p by (cases prob) (auto simp: minus_jsnum_def)
  then show ?thesis unfolding edge_of_def b edge_constants(2) by (cases "prob - Fin b") auto
qed

lemma edge_of_mono: "p \<le> q \<Longrightarrow> edge_of p \<le> edge_of q"
proof -
  assume "p \<le> q"
  obtain b where b: "js (45 / 100) = Fin b" using edge_constants(1) by blast
  have "p + Fin (- b) \<le> q + Fin (- b)" by (rule js_add_mono [OF \<open>p \<le> q\<close>])
  then show ?thesis unfolding edge_of_def b edge_constants(2) minus_jsnum_def
    by (intro js_div_mono) auto
qed

lemma edge_multiplier:
  assumes "po_edgeSizingMultiplierEnabled policy = Some True" "predicted_probability c = Some prob"
    "\<not> falls_back c" "prob \<noteq> NaN"
  shows "\<exists>u. math_max (Fin 0) (math_min (Fin 1) (edge_of prob)) = Fin u \<and> 0 \<le> u \<and> u \<le> 1 \<and>
    fst (calculate_edge_sizing_multiplier c policy) = edge_curve u"
proof -
  obtain u where u: "math_max (Fin 0) (math_min (Fin 1) (edge_of prob)) = Fin u" "0 \<le> u" "u \<le> 1"
    using clamp_unit [OF edge_of_not_NaN [OF assms(4)]] by blast
  moreover have "fst (calculate_edge_sizing_multiplier c policy) = edge_curve u"
    using assms(1-3) u(1) by (simp add: calculate_edge_sizing_multiplier_def Let_def edge_curve_def edge_of_def)
  ultimately show ?thesis by blast
qed

lemma multiplier_bounds:
  assumes "\<forall>prob. predicted_probability c = Some prob \<longrightarrow> prob \<noteq> NaN"
  shows "Fin (1 / 2) \<le> fst (calculate_edge_sizing_multiplier c policy) \<and>
    fst (calculate_edge_sizing_multiplier c policy) \<le> Fin 1"
proof (cases "po_edgeSizingMultiplierEnabled policy = Some True \<and> predicted_probability c \<noteq> None \<and> \<not> falls_back c")
  case True
  then obtain prob where "predicted_probability c = Some prob" by auto
  with edge_multiplier [of policy c prob] assms True obtain u where "0 \<le> u" "u \<le> 1"
    "fst (calculate_edge_sizing_multiplier c policy) = edge_curve u" by auto
  then show ?thesis using edge_curve_mono [of 0 u] edge_curve_mono [of u 1] edge_curve_ends by simp
next
  case False
  then show ?thesis by (auto simp: calculate_edge_sizing_multiplier_def split: option.splits)
qed

section \<open>A sample decision\<close>

definition sample_candidate :: "string \<Rightarrow> string \<Rightarrow> int \<Rightarrow> candidate_prediction option \<Rightarrow> coordination_candidate" where
  "sample_candidate oid strategy target prediction =
     \<lparr>cc_observationId = oid, cc_strategyKey = strategy, cc_strategyVersion = ''v1'', cc_score = Fin 80,
      cc_entryPrice = Some (Fin 100), cc_stopPrice = Some (Fin 99), cc_targetPrice = Some (num target),
      cc_economicallyViable = True, cc_economicsReason = None, cc_netRewardRisk = None,
      cc_estimatedInitialRisk = Fin 100, cc_estimatedShares = Some (Fin 100),
      cc_estimatedNotional = Some (Fin 10000), cc_prediction = prediction\<rparr>"

definition sample_prediction :: "jsnum \<Rightarrow> jsnum \<Rightarrow> candidate_prediction" where
  "sample_prediction prob expectedR =
     \<lparr>cp_modelId = None, cp_modelVersion = None, cp_predictionTimestamp = None,
      cp_predictedProbability = Some prob, cp_payloadDigest = None, cp_warnings = None,
      cp_fallbackReason = None, cp_expectedR = Some (Some expectedR), cp_payoffDistribution = None\<rparr>"

definition sample_state :: coordination_state where
  "sample_state = \<lparr>st_hasOpenSymbolPosition = False, st_lastStopAt = None, st_openPositionCount = Fin 1,
     st_totalOpenRisk = Fin 200, st_dailyCumulativeLoss = None, st_dailyNetRealizedPnl = None,
     st_dailyRealizedLoss = Fin 0, st_consecutiveStops = Fin 0, st_portfolioReconciliationRequired = None,
     st_sector = None, st_openSymbolNotional = None, st_openSectorNotional = None,
     st_openPortfolioNotional = None, st_pendingCloseCount = None, st_contexts = None\<rparr>"

definition sample_policy :: coordination_policy where
  "sample_policy = \<lparr>po_cooldownMinutesAfterStop = Fin 15, po_maxOpenPositions = Fin 3,
     po_maxTotalOpenRisk = Fin 1000, po_maxDailyLoss = Fin 500, po_dailyLossLimitType = None,
     po_reserveRemainingDailyRisk = Some True, po_maxConsecutiveStops = Fin 3,
     po_maximumHoldingMinutes = None, po_maximumHoldingMinutesByStrategy = None,
     po_stalledBreakoutMinutes = None, po_stalledBreakoutMinProgressR = None, po_maxSymbolNotional = None,
     po_maxSectorNotional = None, po_requireFreshContext = None, po_contextMaxAgeSeconds = None,
     po_contextRequirement = None, po_vetoOnWeakContext = None, po_minimumExpectedR = None,
     po_minimumSetupProbability = None, po_edgeSizingMultiplierEnabled = Some True\<rparr>"

definition sample_candidates :: "coordination_candidate list" where
  "sample_candidates = [sample_candidate ''a'' ''ORB_RETEST'' 102 None,
     sample_candidate ''b'' ''BULL_FLAG'' 103 None,
     sample_candidate ''c'' ''MARKET_RELATIVE_STRENGTH'' 104 None]"

lemma sample_decision: "acted_on (coordinate_candidates string_cmp sample_candidates sample_state sample_policy
     ''2026-09-04T14:30:00.000Z'') =
   Inr (\<lparr>vd_outcome = APPROVED, vd_reason = SELECTED_PRIMARY, vd_selected = Some (''b'', ''BULL_FLAG'')\<rparr>,
     [''a'', ''c''])"
  by code_simp

section \<open>The properties\<close>

text \<open>The snapshots the context gates may use, and the two snapshots of the stricter requirement.\<close>

definition recent_context :: "coordination_policy \<Rightarrow> string \<Rightarrow> context_snapshot \<Rightarrow> bool" where
  "recent_context policy t x \<longleftrightarrow> context_age t x \<le> coalesce (po_contextMaxAgeSeconds policy) (Fin 300) * Fin 1000"

definition context_of :: "context_snapshot list \<Rightarrow> string \<Rightarrow> context_snapshot option" where
  "context_of contexts key = find (\<lambda>x. cs_signalKey x = key) contexts"

lemma classify_context_open:
  assumes "classify_context contexts policy t = None"
  shows "po_requireFreshContext policy = Some True \<longrightarrow>
       (\<exists>x \<in> set contexts. readable x \<and> recent_context policy t x) \<and>
       (po_vetoOnWeakContext policy = Some True \<longrightarrow> (\<forall>x \<in> set contexts.
         readable x \<longrightarrow> recent_context policy t x \<longrightarrow> cs_status x \<noteq> WEAK)) \<and>
       (po_contextRequirement policy = Some MARKET_AND_SECTOR_REQUIRED \<longrightarrow>
         (\<exists>m s. context_of contexts ''MARKET_RELATIVE_STRENGTH'' = Some m \<and>
           context_of contexts ''SECTOR_RELATIVE_STRENGTH'' = Some s \<and>
           cs_status m \<noteq> STALE \<and> cs_status s \<notin> {STALE, UNAVAILABLE} \<and>
           (\<forall>x \<in> {m, s}. \<not> coalesce (po_contextMaxAgeSeconds policy) (Fin 300) * Fin 1000 < context_age t x)))"
  using assms by (auto simp: classify_context_def Let_def recent_context_def context_of_def filter_empty_conv
    split: if_splits option.splits)

text \<open>
  C26: An approval respects every limit. When the decision is \<open>APPROVED\<close>, the selected
  candidate is one of the candidates offered, economically viable, with an entry between its
  stop and its target, of a strategy that may lead a position; the portfolio is reconciled, has
  no position in the symbol, is out of its cooldown and below its limits on positions, daily
  loss, consecutive stops, total risk with the candidate's own risk, and symbol and sector
  exposure; where the remaining daily risk is reserved, the daily loss with the open risk and the
  candidate's risk stays within the limit; and where fresh context is required, there is a
  readable recent snapshot, none of them is weak under a veto, and the market and sector
  snapshots are there, not stale and not too old when both are required.
\<close>

theorem approved_within_limits:
  assumes "coordinate_candidates lc candidates state policy t = Inr d"
    "vd_outcome (dc_verdict d) = APPROVED"
  shows "\<exists>c \<in> set candidates. vd_selected (dc_verdict d) = Some (cc_observationId c, cc_strategyKey c) \<and>
     cc_economicallyViable c \<and> reward_risk c \<noteq> None \<and> can_lead_position (cc_strategyKey c) \<and>
     st_portfolioReconciliationRequired state \<noteq> Some True \<and> \<not> st_hasOpenSymbolPosition state \<and>
     \<not> in_cooldown state policy t \<and>
     \<not> po_maxOpenPositions policy \<le> st_openPositionCount state \<and>
     \<not> po_maxDailyLoss policy \<le> current_daily_loss state policy \<and>
     (po_reserveRemainingDailyRisk policy = Some True \<longrightarrow>
       \<not> po_maxDailyLoss policy < current_daily_loss state policy + st_totalOpenRisk state + cc_estimatedInitialRisk c) \<and>
     \<not> po_maxConsecutiveStops policy \<le> st_consecutiveStops state \<and>
     \<not> po_maxTotalOpenRisk policy < st_totalOpenRisk state + cc_estimatedInitialRisk c \<and>
     (\<forall>cap \<in> set_option (po_maxSymbolNotional policy). \<not> cap \<le> coalesce (st_openSymbolNotional state) (Fin 0)) \<and>
     (\<forall>cap \<in> set_option (po_maxSectorNotional policy). \<not> cap \<le> coalesce (st_openSectorNotional state) (Fin 0)) \<and>
     (po_requireFreshContext policy = Some True \<longrightarrow>
       (\<exists>x \<in> set (coalesce (st_contexts state) []). readable x \<and> recent_context policy t x) \<and>
       (po_vetoOnWeakContext policy = Some True \<longrightarrow> (\<forall>x \<in> set (coalesce (st_contexts state) []).
         readable x \<longrightarrow> recent_context policy t x \<longrightarrow> cs_status x \<noteq> WEAK)) \<and>
       (po_contextRequirement policy = Some MARKET_AND_SECTOR_REQUIRED \<longrightarrow>
         (\<exists>m s. context_of (coalesce (st_contexts state) []) ''MARKET_RELATIVE_STRENGTH'' = Some m \<and>
           context_of (coalesce (st_contexts state) []) ''SECTOR_RELATIVE_STRENGTH'' = Some s \<and>
           cs_status m \<noteq> STALE \<and> cs_status s \<notin> {STALE, UNAVAILABLE} \<and>
           (\<forall>x \<in> {m, s}. \<not> coalesce (po_contextMaxAgeSeconds policy) (Fin 300) * Fin 1000 < context_age t x))))"
proof -
  note d = coordinate_candidates_Inr [OF assms(1)]
  from assms(2) d obtain r where f: "find rk_eligibleAsPrimary (rank_candidates lc candidates) = Some r"
    and g: "evaluate_portfolio_gates r state policy t (coalesce (st_contexts state) []) = None"
    and v: "vd_selected (dc_verdict d) = Some (cc_observationId (rk_candidate r), cc_strategyKey (rk_candidate r))"
    by (metis approved_cases)
  from f have r: "r \<in> set (rank_candidates lc candidates)" "rk_eligibleAsPrimary r"
    by (auto simp: find_Some_iff)
  note gates = gates_open [OF g]
  then have "classify_context (coalesce (st_contexts state) []) policy t = None" by blast
  note fresh = classify_context_open [OF this]
  have r': "rk_candidate r \<in> set candidates" "cc_economicallyViable (rk_candidate r)" "reward_risk (rk_candidate r) \<noteq> None"
    "can_lead_position (cc_strategyKey (rk_candidate r))"
    using ranked_candidate_cases [OF r(1)] r(2) by auto
  show ?thesis
    by (rule bexI [OF _ r'(1)], insert gates, elim conjE, intro conjI)
      (rule v | rule r'(2) | rule r'(3) | rule r'(4) | rule fresh | assumption)+
qed

lemma approved_within_limits_witness:
  "\<exists>d. coordinate_candidates string_cmp sample_candidates sample_state sample_policy ''2026-09-04T14:30:00.000Z'' = Inr d \<and>
     (\<exists>c \<in> set sample_candidates. vd_selected (dc_verdict d) = Some (cc_observationId c, cc_strategyKey c) \<and>
       can_lead_position (cc_strategyKey c))"
proof -
  obtain d where d: "coordinate_candidates string_cmp sample_candidates sample_state sample_policy
      ''2026-09-04T14:30:00.000Z'' = Inr d" "vd_outcome (dc_verdict d) = APPROVED"
    using sample_decision
    by (cases "coordinate_candidates string_cmp sample_candidates sample_state sample_policy
      ''2026-09-04T14:30:00.000Z''") (auto simp: acted_on_def)
  from approved_within_limits [OF d] obtain c where "c \<in> set sample_candidates"
    "vd_selected (dc_verdict d) = Some (cc_observationId c, cc_strategyKey c)" "can_lead_position (cc_strategyKey c)"
    by (elim bexE conjE)
  with d(1) show ?thesis by (intro exI [of _ d] conjI bexI [of _ c])
qed

text \<open>
  C27: The decision does not depend on the order in which the candidates arrive. When
  \<open>localeCompare\<close> compares by some sort key, ratios and scores are doubles, and no two
  candidates have the same identity under that key, every arrangement of the candidates gives
  the same ranking and the same decision with the same confirmations.
\<close>

theorem decision_order_independent:
  assumes "collation lc sk" "mset xs = mset ys" "\<forall>c \<in> set xs. numeric_candidate c" "length xs \<le> 2 ^ 53"
    "inj_on (identity_of sk) (set xs)"
  shows "rank_candidates lc xs = rank_candidates lc ys \<and>
     acted_on (coordinate_candidates lc xs state policy t) = acted_on (coordinate_candidates lc ys state policy t)"
  using rank_candidates_permutation [OF assms] by (simp add: acted_on_coordinate)

lemma decision_order_independent_witness:
  "acted_on (coordinate_candidates string_cmp (rev sample_candidates) sample_state sample_policy
     ''2026-09-04T14:30:00.000Z'') =
   Inr (\<lparr>vd_outcome = APPROVED, vd_reason = SELECTED_PRIMARY, vd_selected = Some (''b'', ''BULL_FLAG'')\<rparr>,
     [''a'', ''c''])"
proof -
  have "\<forall>c \<in> set sample_candidates. numeric_candidate c" "inj_on (identity_of (\<lambda>s. s)) (set sample_candidates)"
    by code_simp+
  from decision_order_independent [OF code_units.collation_axioms _ this(1) _ this(2), of "rev sample_candidates"
    sample_state sample_policy "''2026-09-04T14:30:00.000Z''"] sample_decision
  show ?thesis by (simp add: sample_candidates_def)
qed

text \<open>
  The statistical model only observes. Two batches of candidates that differ in their
  predictions alone, under policies that differ in their statistical thresholds alone, lead to
  the same decision with the same confirmations.
\<close>

theorem predictions_do_not_decide:
  assumes "map erase xs = map erase ys" "erase_policy policy = erase_policy policy'"
  shows "acted_on (coordinate_candidates lc xs state policy t) = acted_on (coordinate_candidates lc ys state policy' t)"
  using acted_on_erase [of lc xs state policy t] acted_on_erase [of lc ys state policy' t] assms by simp

lemma predictions_do_not_decide_witness:
  "acted_on (coordinate_candidates string_cmp
      (map (\<lambda>c. c\<lparr>cc_prediction := Some (sample_prediction (Fin 0) (Fin (- 1)))\<rparr>) sample_candidates)
      sample_state (sample_policy\<lparr>po_minimumSetupProbability := Some (Fin 1)\<rparr>) ''2026-09-04T14:30:00.000Z'') =
   Inr (\<lparr>vd_outcome = APPROVED, vd_reason = SELECTED_PRIMARY, vd_selected = Some (''b'', ''BULL_FLAG'')\<rparr>,
     [''a'', ''c''])"
proof -
  let ?f = "\<lambda>c. c\<lparr>cc_prediction := Some (sample_prediction (Fin 0) (Fin (- 1)))\<rparr>"
    and ?p = "sample_policy\<lparr>po_minimumSetupProbability := Some (Fin 1)\<rparr>"
  have "map erase (map ?f sample_candidates) = map erase sample_candidates" "erase_policy ?p = erase_policy sample_policy"
    by (simp_all add: sample_candidates_def sample_candidate_def erase_def erase_policy_def)
  from predictions_do_not_decide [OF this] show ?thesis by (rule trans [OF _ sample_decision])
qed

text \<open>
  The sizing multiplier of the shadow stays between one half and one, whatever the
  prediction and the policy, and does not decrease when the predicted probability grows.
\<close>

theorem multiplier_bounded_monotone:
  assumes "predicted_probability c = Some p" "predicted_probability c' = Some q" "p \<le> q"
    "falls_back c = falls_back c'"
  shows "Fin (1 / 2) \<le> fst (calculate_edge_sizing_multiplier c policy) \<and>
     fst (calculate_edge_sizing_multiplier c policy) \<le> fst (calculate_edge_sizing_multiplier c' policy) \<and>
     fst (calculate_edge_sizing_multiplier c' policy) \<le> Fin 1"
proof -
  have nan: "p \<noteq> NaN" "q \<noteq> NaN" using assms(3) by auto
  have "fst (calculate_edge_sizing_multiplier c policy) \<le> fst (calculate_edge_sizing_multiplier c' policy)"
  proof (cases "po_edgeSizingMultiplierEnabled policy = Some True \<and> \<not> falls_back c")
    case True
    obtain u v where uv: "math_max (Fin 0) (math_min (Fin 1) (edge_of p)) = Fin u"
      "math_max (Fin 0) (math_min (Fin 1) (edge_of q)) = Fin v"
      "fst (calculate_edge_sizing_multiplier c policy) = edge_curve u"
      "fst (calculate_edge_sizing_multiplier c' policy) = edge_curve v"
      using edge_multiplier [of policy c p] edge_multiplier [of policy c' q] True assms(1,2,4) nan by auto
    have "Fin u \<le> Fin v"
      using clamp_mono [OF edge_of_not_NaN [OF nan(1)] edge_of_not_NaN [OF nan(2)] edge_of_mono [OF assms(3)]]
      by (simp only: uv)
    then show ?thesis using edge_curve_mono [of u v] uv by simp
  next
    case False
    with assms show ?thesis by (auto simp: calculate_edge_sizing_multiplier_def)
  qed
  with multiplier_bounds [of c policy] multiplier_bounds [of c' policy] assms(1,2) nan show ?thesis by simp
qed

lemma multiplier_bounded_monotone_witness:
  "fst (calculate_edge_sizing_multiplier
      (sample_candidate ''a'' ''ORB_RETEST'' 102 (Some (sample_prediction (Fin (1 / 4)) (Fin 1)))) sample_policy) \<le>
   fst (calculate_edge_sizing_multiplier
      (sample_candidate ''a'' ''ORB_RETEST'' 102 (Some (sample_prediction (Fin (1 / 2)) (Fin 1)))) sample_policy)"
proof -
  have "Fin (1 / 4) \<le> Fin (1 / 2)" by simp
  from multiplier_bounded_monotone [OF _ _ this, of
      "sample_candidate ''a'' ''ORB_RETEST'' 102 (Some (sample_prediction (Fin (1 / 4)) (Fin 1)))"
      "sample_candidate ''a'' ''ORB_RETEST'' 102 (Some (sample_prediction (Fin (1 / 2)) (Fin 1)))" sample_policy]
  show ?thesis by (simp add: predicted_probability_def sample_candidate_def sample_prediction_def falls_back_def)
qed

text \<open>A candidate whose probability is given in units of a ten-millionth.\<close>

definition near_tie :: "string \<Rightarrow> int \<Rightarrow> int \<Rightarrow> coordination_candidate" where
  "near_tie oid tenMillionths expectedR = sample_candidate oid ''ORB_RETEST'' 102
     (Some (sample_prediction (js (of_int tenMillionths / 10000000)) (num expectedR)))"

lemma one_millionth_Fin: obtains u where "one_millionth = Fin u" "0 < u"
proof -
  have p: "Fin 0 < one_millionth" "is_finite one_millionth" by code_simp+
  then obtain u where u: "one_millionth = Fin u" by (auto simp: is_finite_iff)
  show thesis using p(1) unfolding u by (intro that [OF u]) simp
qed

lemma beyond_tolerance:
  assumes "x < - one_millionth"
  shows "x < Fin 0 \<and> one_millionth < math_abs x"
proof -
  obtain u where u: "one_millionth = Fin u" "0 < u" by (rule one_millionth_Fin)
  show ?thesis using assms u(2) unfolding u(1) by (cases x) auto
qed

lemma same_ratio: "Fin ratio - Fin ratio = Fin 0" "\<not> one_millionth < math_abs (Fin 0)"
proof -
  show "Fin ratio - Fin ratio = Fin 0" using js_of_int [of 0] by (simp add: minus_jsnum_def)
  obtain u where u: "one_millionth = Fin u" "0 < u" by (rule one_millionth_Fin)
  show "\<not> one_millionth < math_abs (Fin 0)" using u(2) unfolding u(1) by simp
qed

text \<open>
  C28: The comparator of the shadow ranking is not an order. Take three entries alike in their
  eligibility and their ratio whose probabilities lie so close that the first and the second, and
  the second and the third, are within the tolerance of a millionth, but the third is above the
  first by more, and whose expected returns fall from entry to entry by more than the tolerance.
  Then the first goes before the second, the second before the third and the third before the
  first: the comparator follows no sort key, and what \<open>sort\<close> makes of such entries is up to the
  implementation.
\<close>

theorem shadow_comparator_cycle:
  fixes sk :: "ranked_candidate \<Rightarrow> 'k::linorder"
  assumes "rk_eligibleAsPrimary b = rk_eligibleAsPrimary a" "rk_eligibleAsPrimary c = rk_eligibleAsPrimary a"
    "rk_rewardRisk a = Fin ratio" "rk_rewardRisk b = Fin ratio" "rk_rewardRisk c = Fin ratio"
    "predicted_probability (rk_candidate a) = Some pa" "predicted_probability (rk_candidate b) = Some pb"
    "predicted_probability (rk_candidate c) = Some pc"
    "\<not> one_millionth < math_abs (pb - pa)" "\<not> one_millionth < math_abs (pc - pb)" "pa - pc < - one_millionth"
    "expected_r (rk_candidate a) = Some (Some ea)" "expected_r (rk_candidate b) = Some (Some eb)"
    "expected_r (rk_candidate c) = Some (Some ec)"
    "eb - ea < - one_millionth" "ec - eb < - one_millionth"
  shows "shadow_cmp lc a b < Fin 0 \<and> shadow_cmp lc b c < Fin 0 \<and> shadow_cmp lc c a < Fin 0 \<and>
    \<not> (\<forall>x \<in> {a, b, c}. \<forall>y \<in> {a, b, c}. shadow_cmp lc x y < Fin 0 \<longrightarrow> sk x < sk y)"
proof -
  have cycle: "shadow_cmp lc a b < Fin 0" "shadow_cmp lc b c < Fin 0" "shadow_cmp lc c a < Fin 0"
    using assms beyond_tolerance same_ratio
    by (simp_all add: shadow_cmp_def Let_def num_of_bool_def js_eq_def)
  then show ?thesis by (meson insertCI less_asym less_trans)
qed

lemma shadow_comparator_cycle_witness:
  "let cs = [near_tie ''a'' 5000000 3, near_tie ''b'' 5000008 2, near_tie ''c'' 5000016 1];
       ranked = map (shadow_entry sample_policy (feasible_candidates cs)) (feasible_candidates cs)
   in length ranked = 3 \<and> shadow_cmp string_cmp (ranked ! 0) (ranked ! 1) < Fin 0 \<and>
      shadow_cmp string_cmp (ranked ! 1) (ranked ! 2) < Fin 0 \<and> shadow_cmp string_cmp (ranked ! 2) (ranked ! 0) < Fin 0"
proof -
  define cs where "cs = [near_tie ''a'' 5000000 3, near_tie ''b'' 5000008 2, near_tie ''c'' 5000016 1]"
  define ranked where "ranked = map (shadow_entry sample_policy (feasible_candidates cs)) (feasible_candidates cs)"
  let ?p = "\<lambda>n. js (of_int n / 10000000)"
  have len: "length ranked = 3" unfolding ranked_def cs_def by code_simp
  have fields: "map rk_eligibleAsPrimary ranked = [True, True, True]"
    "map rk_rewardRisk ranked = [Fin 2, Fin 2, Fin 2]"
    "map (\<lambda>r. predicted_probability (rk_candidate r)) ranked = [Some (?p 5000000), Some (?p 5000008), Some (?p 5000016)]"
    "map (\<lambda>r. expected_r (rk_candidate r)) ranked = [Some (Some (Fin 3)), Some (Some (Fin 2)), Some (Some (Fin 1))]"
    unfolding ranked_def cs_def by code_simp+
  have near: "\<not> one_millionth < math_abs (?p 5000008 - ?p 5000000)" "\<not> one_millionth < math_abs (?p 5000016 - ?p 5000008)"
    "?p 5000000 - ?p 5000016 < - one_millionth" "Fin 2 - Fin 3 < - one_millionth" "Fin 1 - Fin 2 < - one_millionth"
    by code_simp+
  obtain a b c where abc: "ranked = [a, b, c]"
    using len by (auto simp: numeral_3_eq_3 length_Suc_conv)
  have "shadow_cmp string_cmp a b < Fin 0 \<and> shadow_cmp string_cmp b c < Fin 0 \<and> shadow_cmp string_cmp c a < Fin 0 \<and>
      \<not> (\<forall>x \<in> {a, b, c}. \<forall>y \<in> {a, b, c}. shadow_cmp string_cmp x y < Fin 0 \<longrightarrow> (\<lambda>_. 0 :: nat) x < (\<lambda>_. 0) y)"
    by (rule shadow_comparator_cycle [where ratio = 2 and pa = "?p 5000000" and pb = "?p 5000008" and pc = "?p 5000016"
        and ea = "Fin 3" and eb = "Fin 2" and ec = "Fin 1"])
      (use fields near in \<open>simp_all add: abc del: of_int_numeral\<close>)
  then show ?thesis using len unfolding Let_def cs_def [symmetric] ranked_def [symmetric] abc by simp
qed

end
