(* ===== verification/JsText.thy ===== *)
theory JsText
  imports JsDate
begin

text \<open>
  Numbers as text in templates: \<open>n.toString()\<close> and \<open>padStart\<close>, \<open>split\<close> with a separator of one character, and
  \<open>Number\<close> of a text of decimal digits, with what undoes what.
\<close>

section \<open>Printing\<close>

text \<open>\<open>n.toString()\<close> of an integer, and \<open>padStart(k, "0")\<close>\<close>

function show_nat :: "nat \<Rightarrow> string" where
  "show_nat n = (if n < 10 then [digit_char (int n)] else show_nat (n div 10) @ [digit_char (int n)])"
  by pat_completeness auto
termination by (relation "measure (\<lambda>n. n)") auto

declare show_nat.simps [simp del]

definition show_int :: "int \<Rightarrow> string" where
  "show_int n = (if n < 0 then ''-'' @ show_nat (nat (- n)) else show_nat (nat n))"

definition pad_start :: "nat \<Rightarrow> string \<Rightarrow> string" where
  "pad_start k s = replicate (k - length s) (CHR ''0'') @ s"

section \<open>Reading\<close>

fun split_on :: "char \<Rightarrow> string \<Rightarrow> string list" where
  "split_on c [] = [[]]"
| "split_on c (x # xs) = (if x = c then [] # split_on c xs
     else (case split_on c xs of [] \<Rightarrow> [[x]] | p # ps \<Rightarrow> (x # p) # ps))"

lemma split_on_plain: "c \<notin> set p \<Longrightarrow> split_on c p = [p]"
  by (induction p) auto

lemma split_on_append: "c \<notin> set p \<Longrightarrow> split_on c (p @ c # s) = p # split_on c s"
  by (induction p) auto

text \<open>\<open>Number(s)\<close> for a text of decimal digits; other characters count as zero here.\<close>

definition text_number :: "string \<Rightarrow> int" where
  "text_number s = foldl (\<lambda>n c. 10 * n + (case digit_val c of None \<Rightarrow> 0 | Some d \<Rightarrow> d)) 0 s"

lemma text_number_snoc: "text_number (s @ [digit_char d]) = 10 * text_number s + d mod 10"
  by (simp add: text_number_def)

lemma text_number_show: "text_number (show_nat n) = int n"
proof (induction n rule: show_nat.induct)
  case (1 n)
  show ?case
  proof (cases "n < 10")
    case True
    then show ?thesis using text_number_snoc [of "[]" "int n"]
      by (subst show_nat.simps) (simp add: text_number_def [of "[]"])
  next
    case False
    then have "text_number (show_nat n) = 10 * int (n div 10) + int n mod 10"
      using 1 by (subst show_nat.simps) (simp add: text_number_snoc)
    also have "\<dots> = int n" by (simp add: zdiv_int)
    finally show ?thesis .
  qed
qed

lemma text_number_show_int: "0 \<le> n \<Longrightarrow> text_number (show_int n) = n"
  by (simp add: show_int_def text_number_show)

lemma text_number_zeros: "text_number (replicate k (CHR ''0'') @ s) = text_number s"
  by (induction k) (simp_all add: text_number_def digit_val_def)

lemma text_number_pad_start: "text_number (pad_start k s) = text_number s"
  by (simp add: pad_start_def text_number_zeros)

lemma show_nat_digits: "set (show_nat n) \<subseteq> range digit_char"
proof (induction n rule: show_nat.induct)
  case (1 n)
  then show ?case by (subst show_nat.simps) auto
qed

lemma show_nat_no_dash: "CHR ''-'' \<notin> set (show_nat n)"
  using show_nat_digits [of n] digit_char_not(2) by (auto simp: image_iff) (metis subsetD rangeE)

end
