(* ===== verification/StoredPolicy.thy ===== *)
theory StoredPolicy
  imports FundedPolicy JsText "HOL-Library.AList"
begin

text \<open>
  The funded policy as it comes back from the database: a JSON value that need not have the shape
  of the type \<open>FundedPolicy\<close>. \<open>build_policy\<close> and \<open>normalize_policy\<close> are \<open>fundedPolicy\<close> and
  \<open>normalizeFundedPolicy\<close> (\<open>paper-bot/funded-policy.ts\<close>) on such values; the functions of the theory
  FundedPolicy are the same code on values of the type. The theorems say exactly which stored
  values are accepted, and that the typed functions are a refinement.
\<close>

section \<open>Values\<close>

text \<open>An object lists its own enumerable properties, with distinct keys. Numbers have no negative zero here.\<close>

datatype js_value =
    JUndefined
  | JNull
  | JBool bool
  | JNumber jsnum
  | JString string
  | JArray "js_value list"
  | JObject "(string \<times> js_value) list"

lemma size_entry [termination_simp]: "(k, v) \<in> set kvs \<Longrightarrow> size v < Suc (size_list (size_prod (\<lambda>_. 0) size) kvs)"
  by (induction kvs) auto

lemma size_item [termination_simp]: "(x, y) \<in> set (zip xs ys) \<Longrightarrow> size x < Suc (size_list size xs)"
  using size_list_estimation' [of x xs "size x" size] by (auto dest: set_zip_leftD)

text \<open>\<open>isDeepStrictEqual\<close>: the same value, or arrays item by item, or objects with equal properties in any order\<close>

fun deep_equal :: "js_value \<Rightarrow> js_value \<Rightarrow> bool" where
  "deep_equal (JArray xs) (JArray ys) \<longleftrightarrow> xs = ys \<or>
     length xs = length ys \<and> list_all (\<lambda>(x, y). deep_equal x y) (zip xs ys)"
| "deep_equal (JObject xs) (JObject ys) \<longleftrightarrow> xs = ys \<or>
     length xs = length ys \<and> list_all (\<lambda>(k, v). case map_of ys k of None \<Rightarrow> False | Some w \<Rightarrow> deep_equal v w) xs"
| "deep_equal x y \<longleftrightarrow> x = y"

text \<open>\<open>value.key\<close> of a value that is neither \<open>null\<close> nor \<open>undefined\<close>, for the keys used here\<close>

definition prop_of :: "js_value \<Rightarrow> string \<Rightarrow> js_value" where
  "prop_of v key = (case v of JObject kvs \<Rightarrow> coalesce (map_of kvs key) JUndefined | _ \<Rightarrow> JUndefined)"

text \<open>A default parameter\<close>

definition or_default :: "js_value \<Rightarrow> js_value \<Rightarrow> js_value" where
  "or_default v d = (if v = JUndefined then d else v)"

text \<open>\<open>Object.entries(v)\<close>, which throws for \<open>null\<close> and \<open>undefined\<close>, and \<open>Object.values(v ?? {})\<close>\<close>

definition indexed :: "js_value list \<Rightarrow> (string \<times> js_value) list" where
  "indexed vs = map (\<lambda>i. (show_nat i, vs ! i)) [0..<length vs]"

definition entries_of :: "js_value \<Rightarrow> (string \<times> js_value) list result" where
  "entries_of v = (case v of
      JObject kvs \<Rightarrow> Inr kvs
    | JArray vs \<Rightarrow> Inr (indexed vs)
    | JString s \<Rightarrow> Inr (indexed (map (\<lambda>c. JString [c]) s))
    | JBool b \<Rightarrow> Inr []
    | JNumber n \<Rightarrow> Inr []
    | _ \<Rightarrow> throw ''Cannot convert undefined or null to object'')"

definition values_of :: "js_value \<Rightarrow> js_value list" where
  "values_of v = (case v of JObject kvs \<Rightarrow> map snd kvs | JArray vs \<Rightarrow> vs | JString s \<Rightarrow> map (\<lambda>c. JString [c]) s | _ \<Rightarrow> [])"

text \<open>\<open>{...m, ...kvs}\<close>\<close>

definition spread :: "(string \<times> js_value) list \<Rightarrow> (string \<times> js_value) list \<Rightarrow> (string \<times> js_value) list" where
  "spread m kvs = foldl (\<lambda>m (k, v). AList.update k v m) m kvs"

text \<open>\<open>Number.isFinite\<close> and the comparisons behind it look at numbers only.\<close>

definition number_of :: "js_value \<Rightarrow> jsnum" where
  "number_of v = (case v of JNumber x \<Rightarrow> x | _ \<Rightarrow> NaN)"

section \<open>The policy\<close>

definition stored_defaults :: "(string \<times> js_value) list" where
  "stored_defaults = [(''version'', JString ''funded-portfolio-v2''), (''maxOpenPositions'', JNumber (Fin 3)),
     (''maxTotalOpenRisk'', JNumber (Fin 1000)), (''cooldownMinutesAfterStop'', JNumber (Fin 15)),
     (''maxConsecutiveStops'', JNumber (Fin 3)), (''requireFreshContext'', JBool False),
     (''contextMaxAgeSeconds'', JNumber (Fin 300)), (''vetoOnWeakContext'', JBool False)]"

definition stored_limit_bad :: "js_value \<Rightarrow> bool" where
  "stored_limit_bad v \<longleftrightarrow> v \<noteq> JUndefined \<and> (\<not> is_finite (number_of v) \<or> number_of v \<le> Fin 0)"

definition is_boolean :: "js_value \<Rightarrow> bool" where
  "is_boolean v \<longleftrightarrow> (case v of JBool b \<Rightarrow> True | _ \<Rightarrow> False)"

definition stored_portfolio_invalid :: "js_value \<Rightarrow> bool" where
  "stored_portfolio_invalid p \<longleftrightarrow>
     prop_of p ''version'' \<notin> {JString ''funded-portfolio-v1'', JString ''funded-portfolio-v2''} \<or>
     \<not> is_boolean (prop_of p ''requireFreshContext'') \<or>
     \<not> is_boolean (prop_of p ''vetoOnWeakContext'') \<or>
     (prop_of p ''contextRequirement'' \<noteq> JUndefined \<and>
       prop_of p ''contextRequirement'' \<notin> {JString ''MARKET_ONLY'', JString ''MARKET_AND_SECTOR_REQUIRED''}) \<or>
     list_ex stored_limit_bad ([prop_of p ''maximumHoldingMinutes'', prop_of p ''stalledBreakoutMinutes''] @
       values_of (prop_of p ''maximumHoldingMinutesByStrategy'')) \<or>
     (prop_of p ''stalledBreakoutMinProgressR'' \<noteq> JUndefined \<and>
       (\<not> is_finite (number_of (prop_of p ''stalledBreakoutMinProgressR'')) \<or>
        number_of (prop_of p ''stalledBreakoutMinProgressR'') < Fin 0)) \<or>
     \<not> is_integer (number_of (prop_of p ''maxOpenPositions'')) \<or> number_of (prop_of p ''maxOpenPositions'') < Fin 1 \<or>
     \<not> is_finite (number_of (prop_of p ''maxTotalOpenRisk'')) \<or> number_of (prop_of p ''maxTotalOpenRisk'') \<le> Fin 0 \<or>
     \<not> is_integer (number_of (prop_of p ''cooldownMinutesAfterStop'')) \<or>
     number_of (prop_of p ''cooldownMinutesAfterStop'') < Fin 0 \<or>
     \<not> is_integer (number_of (prop_of p ''maxConsecutiveStops'')) \<or> number_of (prop_of p ''maxConsecutiveStops'') < Fin 1 \<or>
     \<not> is_integer (number_of (prop_of p ''contextMaxAgeSeconds'')) \<or> number_of (prop_of p ''contextMaxAgeSeconds'') < Fin 1 \<or>
     stored_limit_bad (prop_of p ''maxSymbolNotional'') \<or> stored_limit_bad (prop_of p ''maxSectorNotional'')"

definition build_policy :: "js_value \<Rightarrow> js_value \<Rightarrow> js_value \<Rightarrow> js_value result" where
  "build_policy participation0 impactBps0 portfolio0 =
     (let participation = or_default participation0 (JNumber (Fin 1)); impactBps = or_default impactBps0 (JNumber (Fin 0));
          portfolio = or_default portfolio0 (JObject [])
      in if \<not> is_finite (number_of participation) \<or> number_of participation \<le> Fin 0 \<or> Fin 1 < number_of participation \<or>
          \<not> is_finite (number_of impactBps) \<or> number_of impactBps < Fin 0 \<or> Fin 10000 < number_of impactBps
      then throw ''Invalid funded liquidity policy''
      else bindR (entries_of portfolio) (\<lambda>entries.
        let canonicalPortfolio = JObject (spread stored_defaults (filter (\<lambda>(k, v). v \<noteq> JUndefined) entries)) in
        if stored_portfolio_invalid canonicalPortfolio then throw ''Invalid funded portfolio policy''
        else Inr (JObject [(''projectionVersion'', JString ''funded-cash-v1''), (''participation'', participation),
          (''impactBps'', impactBps), (''latencyPolicy'', JString ''CAPTURED_PER_ORDER''),
          (''portfolio'', canonicalPortfolio)])))"

definition delete_prop :: "string \<Rightarrow> js_value \<Rightarrow> js_value" where
  "delete_prop key v = (case v of JObject kvs \<Rightarrow> JObject (AList.delete key kvs) | _ \<Rightarrow> v)"

definition normalize_policy :: "js_value \<Rightarrow> js_value result" where
  "normalize_policy policy =
     (if policy \<in> {JUndefined, JNull} then throw ''Cannot read properties of undefined''
      else bindR (build_policy (prop_of policy ''participation'') (prop_of policy ''impactBps'') (prop_of policy ''portfolio''))
        (\<lambda>built. let canonical = (if prop_of policy ''portfolio'' = JUndefined then delete_prop ''portfolio'' built else built) in
          if \<not> deep_equal policy canonical then throw ''Non-canonical funded policy'' else Inr canonical))"

section \<open>Equality and spreading\<close>

lemma deep_equal_refl [simp]: "deep_equal v v"
  by (cases v) simp_all

lemma same_keys:
  assumes "distinct (map fst xs)" "distinct (map fst ys)" "length xs = length ys" "fst ` set xs \<subseteq> fst ` set ys"
  shows "fst ` set xs = fst ` set ys"
proof -
  have "card (fst ` set xs) = length xs" "card (fst ` set ys) = length ys"
    using distinct_card [OF assms(1)] distinct_card [OF assms(2)] by simp_all
  with assms(3,4) show ?thesis by (simp add: card_subset_eq)
qed

lemma deep_equal_objects:
  assumes "distinct (map fst xs)" "distinct (map fst ys)"
  shows "deep_equal (JObject xs) (JObject ys) \<longleftrightarrow> dom (map_of xs) = dom (map_of ys) \<and>
    (\<forall>k v w. map_of xs k = Some v \<longrightarrow> map_of ys k = Some w \<longrightarrow> deep_equal v w)"
proof (cases "xs = ys")
  case False
  have "deep_equal (JObject xs) (JObject ys) \<longleftrightarrow> length xs = length ys \<and>
      (\<forall>k v. (k, v) \<in> set xs \<longrightarrow> (\<exists>w. map_of ys k = Some w \<and> deep_equal v w))"
    using False by (auto simp: list_all_iff split: option.splits) (metis case_prodD option.simps(5))+
  also have "\<dots> \<longleftrightarrow> dom (map_of xs) = dom (map_of ys) \<and>
      (\<forall>k v w. map_of xs k = Some v \<longrightarrow> map_of ys k = Some w \<longrightarrow> deep_equal v w)" (is "?l \<longleftrightarrow> ?r")
  proof
    assume l: ?l
    then have "fst ` set xs \<subseteq> fst ` set ys" by (force simp: map_of_eq_None_iff dest: map_of_SomeD)
    from same_keys [OF assms _ this] l have "dom (map_of xs) = dom (map_of ys)" by (simp add: dom_map_of_conv_image_fst)
    with l show ?r by (metis map_of_SomeD option.inject)
  next
    assume r: ?r
    then have "fst ` set xs = fst ` set ys" by (simp add: dom_map_of_conv_image_fst)
    then have "length xs = length ys"
      using distinct_card [OF assms(1)] distinct_card [OF assms(2)] by (metis length_map list.set_map)
    moreover have "\<exists>w. map_of ys k = Some w \<and> deep_equal v w" if "(k, v) \<in> set xs" for k v
    proof -
      have k: "map_of xs k = Some v" using that assms(1) by simp
      then have "k \<in> dom (map_of ys)" using r by (simp add: domIff flip: r)
      then obtain w where "map_of ys k = Some w" by blast
      with r k show ?thesis by blast
    qed
    ultimately show ?l by blast
  qed
  finally show ?thesis .
qed auto

lemma spread_map: "distinct (map fst kvs) \<Longrightarrow> map_of (spread m kvs) = map_of m ++ map_of kvs"
proof (induction kvs arbitrary: m)
  case (Cons e kvs)
  obtain k v where e: "e = (k, v)" by (cases e)
  have new: "map_of kvs k = None" using Cons.prems by (simp add: e map_of_eq_None_iff)
  have "map_of (spread m (e # kvs)) = map_of (AList.update k v m) ++ map_of kvs"
    using Cons by (simp add: e spread_def)
  also have "\<dots> = map_of m ++ map_of (e # kvs)"
    using new by (auto simp: e update_conv' map_add_def fun_eq_iff split: option.split)
  finally show ?case .
qed (simp add: spread_def)

lemma spread_distinct: "distinct (map fst m) \<Longrightarrow> distinct (map fst (spread m kvs))"
  unfolding spread_def by (induction kvs arbitrary: m) (auto simp: distinct_update)

section \<open>What is accepted\<close>

text \<open>A positive number, and the shape and the bounds of a stored portfolio\<close>

definition positive_value :: "js_value \<Rightarrow> bool" where
  "positive_value v \<longleftrightarrow> (\<exists>x. v = JNumber x \<and> is_finite x \<and> Fin 0 < x)"

definition whole_from :: "jsnum \<Rightarrow> js_value option \<Rightarrow> bool" where
  "whole_from least v \<longleftrightarrow> (\<exists>x. v = Some (JNumber x) \<and> is_integer x \<and> least \<le> x)"

definition canonical_portfolio :: "(string \<rightharpoonup> js_value) \<Rightarrow> bool" where
  "canonical_portfolio m \<longleftrightarrow> JUndefined \<notin> ran m \<and>
     m ''version'' \<in> {Some (JString ''funded-portfolio-v1''), Some (JString ''funded-portfolio-v2'')} \<and>
     whole_from (Fin 1) (m ''maxOpenPositions'') \<and>
     (\<exists>v. m ''maxTotalOpenRisk'' = Some v \<and> positive_value v) \<and>
     whole_from (Fin 0) (m ''cooldownMinutesAfterStop'') \<and>
     whole_from (Fin 1) (m ''maxConsecutiveStops'') \<and>
     whole_from (Fin 1) (m ''contextMaxAgeSeconds'') \<and>
     (\<exists>b. m ''requireFreshContext'' = Some (JBool b)) \<and>
     (\<exists>b. m ''vetoOnWeakContext'' = Some (JBool b)) \<and>
     m ''contextRequirement'' \<in> {None, Some (JString ''MARKET_ONLY''), Some (JString ''MARKET_AND_SECTOR_REQUIRED'')} \<and>
     (\<forall>key \<in> {''maxSymbolNotional'', ''maxSectorNotional'', ''maximumHoldingMinutes'', ''stalledBreakoutMinutes''}.
       \<forall>v. m key = Some v \<longrightarrow> positive_value v) \<and>
     (\<forall>v. m ''stalledBreakoutMinProgressR'' = Some v \<longrightarrow> (\<exists>x. v = JNumber x \<and> is_finite x \<and> Fin 0 \<le> x)) \<and>
     (\<forall>v. m ''maximumHoldingMinutesByStrategy'' = Some v \<longrightarrow>
       (\<forall>w \<in> set (values_of v). w = JUndefined \<or> positive_value w))"

definition policy_keys :: "string set" where
  "policy_keys = {''projectionVersion'', ''participation'', ''impactBps'', ''latencyPolicy''}"

definition canonical_policy :: "js_value \<Rightarrow> bool" where
  "canonical_policy v \<longleftrightarrow> (\<exists>kvs p b. v = JObject kvs \<and> dom (map_of kvs) \<in> {policy_keys, insert ''portfolio'' policy_keys} \<and>
     map_of kvs ''projectionVersion'' = Some (JString ''funded-cash-v1'') \<and>
     map_of kvs ''latencyPolicy'' = Some (JString ''CAPTURED_PER_ORDER'') \<and>
     map_of kvs ''participation'' = Some (JNumber p) \<and> is_finite p \<and> Fin 0 < p \<and> p \<le> Fin 1 \<and>
     map_of kvs ''impactBps'' = Some (JNumber b) \<and> is_finite b \<and> Fin 0 \<le> b \<and> b \<le> Fin 10000 \<and>
     (\<forall>w. map_of kvs ''portfolio'' = Some w \<longrightarrow> (\<exists>ps. w = JObject ps \<and> canonical_portfolio (map_of ps))))"

text \<open>An object has each key once.\<close>

definition objects_ok :: "js_value \<Rightarrow> bool" where
  "objects_ok v \<longleftrightarrow> (case v of JObject kvs \<Rightarrow> distinct (map fst kvs) \<and>
     (case map_of kvs ''portfolio'' of Some (JObject ps) \<Rightarrow> distinct (map fst ps) | _ \<Rightarrow> True) | _ \<Rightarrow> True)"

lemma defaults_distinct: "distinct (map fst stored_defaults)" "JUndefined \<notin> ran (map_of stored_defaults)"
  "dom (map_of stored_defaults) = set (map fst stored_defaults)"
  by (code_simp, simp add: stored_defaults_def ran_def, simp add: dom_map_of_conv_image_fst)

lemma defaults_valid: "\<not> stored_portfolio_invalid (JObject (spread stored_defaults []))"
  by code_simp

definition given :: "(string \<times> js_value) list \<Rightarrow> (string \<times> js_value) list" where
  "given ps = filter (\<lambda>(k, v). v \<noteq> JUndefined) ps"

lemma given_map:
  assumes "distinct (map fst ps)"
  shows "map_of (given ps) k = (if map_of ps k = Some JUndefined then None else map_of ps k)"
proof -
  have d: "distinct (map fst (given ps))" using assms by (simp add: given_def distinct_map_filter)
  have "map_of (given ps) k = Some v \<longleftrightarrow> map_of ps k = Some v \<and> v \<noteq> JUndefined" for v
    using map_of_eq_Some_iff [OF d] map_of_eq_Some_iff [OF assms] by (auto simp: given_def)
  then show ?thesis by (metis option.exhaust)
qed

lemma canonical_object:
  assumes "distinct (map fst ps)"
  shows "map_of (spread stored_defaults (given ps)) = map_of stored_defaults ++ map_of (given ps)"
    "distinct (map fst (spread stored_defaults (given ps)))"
    "deep_equal (JObject ps) (JObject (spread stored_defaults (given ps))) \<longleftrightarrow>
       JUndefined \<notin> ran (map_of ps) \<and> set (map fst stored_defaults) \<subseteq> dom (map_of ps)"
proof -
  let ?c = "spread stored_defaults (given ps)"
  show m: "map_of ?c = map_of stored_defaults ++ map_of (given ps)"
    using assms by (intro spread_map) (simp add: given_def distinct_map_filter)
  show d: "distinct (map fst ?c)" by (rule spread_distinct [OF defaults_distinct(1)])
  have c: "map_of ?c k = (case map_of ps k of None \<Rightarrow> map_of stored_defaults k
      | Some v \<Rightarrow> if v = JUndefined then map_of stored_defaults k else Some v)" for k
    unfolding m map_add_def using given_map [OF assms, of k] by (auto split: option.split)
  show "deep_equal (JObject ps) (JObject ?c) \<longleftrightarrow> JUndefined \<notin> ran (map_of ps) \<and> set (map fst stored_defaults) \<subseteq> dom (map_of ps)"
    (is "?l \<longleftrightarrow> ?r")
  proof
    assume l: ?l
    note e = l [unfolded deep_equal_objects [OF assms d]]
    have "map_of ps k \<noteq> Some JUndefined" for k
    proof
      assume k: "map_of ps k = Some JUndefined"
      then have "k \<in> dom (map_of ?c)" using e by auto
      then obtain w where w: "map_of ?c k = Some w" by blast
      then have "deep_equal JUndefined w" using e k by blast
      then have "w = JUndefined" by (cases w) simp_all
      then have "map_of stored_defaults k = Some JUndefined" using c [of k] k w by simp
      then show False using defaults_distinct(2) by (auto simp: ran_def)
    qed
    moreover have "k \<in> dom (map_of ps)" if "k \<in> set (map fst stored_defaults)" for k
    proof -
      have "map_of stored_defaults k \<noteq> None" using that defaults_distinct(3) by (simp add: domIff set_eq_iff)
      then have "k \<in> dom (map_of ?c)" unfolding m by auto
      then show ?thesis using e by simp
    qed
    ultimately show ?r by (auto simp: ran_def)
  next
    assume r: ?r
    then have "map_of ?c k = map_of ps k" for k
      using c [of k] defaults_distinct(3) by (cases "map_of ps k") (auto simp: ran_def)
    then show ?l unfolding deep_equal_objects [OF assms d] by (simp add: dom_def)
  qed
qed

lemma prop_of_map: "map_of xs = map_of ys \<Longrightarrow> prop_of (JObject xs) = prop_of (JObject ys)"
  by (simp add: prop_of_def fun_eq_iff)

lemma valid_map: "map_of xs = map_of ys \<Longrightarrow> stored_portfolio_invalid (JObject xs) = stored_portfolio_invalid (JObject ys)"
proof -
  assume "map_of xs = map_of ys"
  then have "prop_of (JObject xs) = prop_of (JObject ys)" by (rule prop_of_map)
  then show ?thesis unfolding stored_portfolio_invalid_def by (simp only:)
qed

text \<open>The checks of one field\<close>

lemma prop_of_object: "prop_of (JObject ps) k = coalesce (map_of ps k) JUndefined"
  by (simp add: prop_of_def)

lemma limit_ok: "\<not> stored_limit_bad v \<longleftrightarrow> v = JUndefined \<or> positive_value v"
proof -
  have "\<not> x \<le> Fin 0 \<longleftrightarrow> Fin 0 < x" if "is_finite x" for x using that by (cases x) auto
  then show ?thesis by (cases v) (auto simp: stored_limit_bad_def positive_value_def number_of_def)
qed

lemma whole_ok:
  "is_integer (number_of (prop_of (JObject ps) k)) \<and> \<not> number_of (prop_of (JObject ps) k) < Fin least \<longleftrightarrow>
     whole_from (Fin least) (map_of ps k)"
proof -
  have "\<not> x < Fin least \<longleftrightarrow> Fin least \<le> x" if "is_integer x" for x using that by (cases x) auto
  then show ?thesis
    by (cases "map_of ps k"; cases "the (map_of ps k)") (auto simp: whole_from_def prop_of_object number_of_def)
qed

lemma boolean_ok: "is_boolean (prop_of (JObject ps) k) \<longleftrightarrow> (\<exists>b. map_of ps k = Some (JBool b))"
  by (cases "map_of ps k"; cases "the (map_of ps k)") (auto simp: is_boolean_def prop_of_object)

lemma optional_limit_ok:
  "map_of ps k \<noteq> Some JUndefined \<Longrightarrow>
     \<not> stored_limit_bad (prop_of (JObject ps) k) \<longleftrightarrow> (\<forall>v. map_of ps k = Some v \<longrightarrow> positive_value v)"
  by (cases "map_of ps k") (auto simp: limit_ok prop_of_object)

lemma risk_ok: "is_finite (number_of (prop_of (JObject ps) k)) \<and> \<not> number_of (prop_of (JObject ps) k) \<le> Fin 0 \<longleftrightarrow>
    (\<exists>v. map_of ps k = Some v \<and> positive_value v)"
proof -
  have "\<not> x \<le> Fin 0 \<longleftrightarrow> Fin 0 < x" if "is_finite x" for x using that by (cases x) auto
  then show ?thesis
    by (cases "map_of ps k"; cases "the (map_of ps k)") (auto simp: positive_value_def prop_of_object number_of_def)
qed

lemma progress_ok:
  "map_of ps k \<noteq> Some JUndefined \<Longrightarrow>
     \<not> (prop_of (JObject ps) k \<noteq> JUndefined \<and> (\<not> is_finite (number_of (prop_of (JObject ps) k)) \<or>
        number_of (prop_of (JObject ps) k) < Fin 0)) \<longleftrightarrow>
     (\<forall>v. map_of ps k = Some v \<longrightarrow> (\<exists>x. v = JNumber x \<and> is_finite x \<and> Fin 0 \<le> x))"
proof -
  have "\<not> x < Fin 0 \<longleftrightarrow> Fin 0 \<le> x" if "is_finite x" for x using that by (cases x) auto
  then show "map_of ps k \<noteq> Some JUndefined \<Longrightarrow> ?thesis"
    by (cases "map_of ps k"; cases "the (map_of ps k)") (auto simp: prop_of_object number_of_def)
qed

lemma requirement_ok:
  "map_of ps k \<noteq> Some JUndefined \<Longrightarrow>
     \<not> (prop_of (JObject ps) k \<noteq> JUndefined \<and> prop_of (JObject ps) k \<notin> {a, b}) \<longleftrightarrow> map_of ps k \<in> {None, Some a, Some b}"
  by (cases "map_of ps k") (auto simp: prop_of_object)

lemma version_ok: "prop_of (JObject ps) k \<in> {JString a, JString b} \<longleftrightarrow> map_of ps k \<in> {Some (JString a), Some (JString b)}"
  by (cases "map_of ps k") (auto simp: prop_of_object)

lemma strategies_ok:
  "list_ex stored_limit_bad (values_of (prop_of (JObject ps) k)) \<longleftrightarrow>
     \<not> (\<forall>v. map_of ps k = Some v \<longrightarrow> (\<forall>w \<in> set (values_of v). w = JUndefined \<or> positive_value w))"
  using limit_ok by (cases "map_of ps k") (auto simp: prop_of_object list_ex_iff values_of_def)

lemma canonical_portfolio_iff:
  assumes "JUndefined \<notin> ran (map_of ps)"
  shows "\<not> stored_portfolio_invalid (JObject ps) \<longleftrightarrow> canonical_portfolio (map_of ps)"
proof -
  have u: "map_of ps k \<noteq> Some JUndefined" for k using assms by (auto simp: ran_def)
  let ?g = "\<lambda>k. prop_of (JObject ps) k" and ?n = "\<lambda>k. number_of (prop_of (JObject ps) k)"
  have ex: "list_ex P ([x, y] @ xs) \<longleftrightarrow> P x \<or> P y \<or> list_ex P xs" for P :: "js_value \<Rightarrow> bool" and x y xs by simp
  have "\<not> stored_portfolio_invalid (JObject ps) \<longleftrightarrow>
     ?g ''version'' \<in> {JString ''funded-portfolio-v1'', JString ''funded-portfolio-v2''} \<and>
     (is_integer (?n ''maxOpenPositions'') \<and> \<not> ?n ''maxOpenPositions'' < Fin 1) \<and>
     (is_finite (?n ''maxTotalOpenRisk'') \<and> \<not> ?n ''maxTotalOpenRisk'' \<le> Fin 0) \<and>
     (is_integer (?n ''cooldownMinutesAfterStop'') \<and> \<not> ?n ''cooldownMinutesAfterStop'' < Fin 0) \<and>
     (is_integer (?n ''maxConsecutiveStops'') \<and> \<not> ?n ''maxConsecutiveStops'' < Fin 1) \<and>
     (is_integer (?n ''contextMaxAgeSeconds'') \<and> \<not> ?n ''contextMaxAgeSeconds'' < Fin 1) \<and>
     is_boolean (?g ''requireFreshContext'') \<and> is_boolean (?g ''vetoOnWeakContext'') \<and>
     \<not> (?g ''contextRequirement'' \<noteq> JUndefined \<and>
       ?g ''contextRequirement'' \<notin> {JString ''MARKET_ONLY'', JString ''MARKET_AND_SECTOR_REQUIRED''}) \<and>
     (\<not> stored_limit_bad (?g ''maxSymbolNotional'') \<and> \<not> stored_limit_bad (?g ''maxSectorNotional'') \<and>
      \<not> stored_limit_bad (?g ''maximumHoldingMinutes'') \<and> \<not> stored_limit_bad (?g ''stalledBreakoutMinutes'')) \<and>
     \<not> (?g ''stalledBreakoutMinProgressR'' \<noteq> JUndefined \<and>
       (\<not> is_finite (?n ''stalledBreakoutMinProgressR'') \<or> ?n ''stalledBreakoutMinProgressR'' < Fin 0)) \<and>
     \<not> list_ex stored_limit_bad (values_of (?g ''maximumHoldingMinutesByStrategy''))"
    unfolding stored_portfolio_invalid_def ex by argo
  also have "\<dots> \<longleftrightarrow> canonical_portfolio (map_of ps)"
    unfolding requirement_ok [OF u]
    unfolding whole_ok risk_ok boolean_ok strategies_ok optional_limit_ok [OF u] progress_ok [OF u]
      version_ok canonical_portfolio_def
    using assms by simp
  finally show ?thesis .
qed

lemma portfolio_accepted:
  assumes "distinct (map fst ps)"
  shows "deep_equal (JObject ps) (JObject (spread stored_defaults (given ps))) \<and>
      \<not> stored_portfolio_invalid (JObject (spread stored_defaults (given ps))) \<longleftrightarrow> canonical_portfolio (map_of ps)"
proof -
  let ?c = "spread stored_defaults (given ps)"
  note c = canonical_object [OF assms]
  have same: "map_of ?c = map_of ps" if "JUndefined \<notin> ran (map_of ps)" "set (map fst stored_defaults) \<subseteq> dom (map_of ps)"
  proof
    fix k
    have "map_of (given ps) k = map_of ps k" using given_map [OF assms, of k] that(1) by (auto simp: ran_def)
    moreover have "map_of ps k = None \<Longrightarrow> map_of stored_defaults k = None"
      using that(2) defaults_distinct(3) by (metis domIff subsetD)
    ultimately show "map_of ?c k = map_of ps k" unfolding c(1) map_add_def by (auto split: option.split)
  qed
  have keys: "set (map fst stored_defaults) \<subseteq> dom (map_of ps)" if "canonical_portfolio (map_of ps)"
  proof -
    have "map_of ps k \<noteq> None" if "k \<in> set (map fst stored_defaults)" for k
    proof -
      have "k \<in> {''version'', ''maxOpenPositions'', ''maxTotalOpenRisk'', ''cooldownMinutesAfterStop'',
          ''maxConsecutiveStops'', ''requireFreshContext'', ''contextMaxAgeSeconds'', ''vetoOnWeakContext''}"
        using that by (simp add: stored_defaults_def)
      then show ?thesis
        using \<open>canonical_portfolio (map_of ps)\<close> unfolding canonical_portfolio_def whole_from_def by (elim insertE emptyE conjE) auto
    qed
    then show ?thesis by blast
  qed
  show ?thesis
  proof (cases "JUndefined \<notin> ran (map_of ps) \<and> set (map fst stored_defaults) \<subseteq> dom (map_of ps)")
    case True
    then show ?thesis using c(3) canonical_portfolio_iff [of ps] valid_map [OF same] by blast
  next
    case False
    moreover have "canonical_portfolio (map_of ps) \<Longrightarrow> JUndefined \<notin> ran (map_of ps)" by (simp add: canonical_portfolio_def)
    ultimately show ?thesis using c(3) keys by blast
  qed
qed

text \<open>The object a policy is compared with\<close>

definition policy_object :: "js_value \<Rightarrow> js_value \<Rightarrow> js_value option \<Rightarrow> (string \<times> js_value) list" where
  "policy_object p b portfolio = [(''projectionVersion'', JString ''funded-cash-v1''), (''participation'', p),
     (''impactBps'', b), (''latencyPolicy'', JString ''CAPTURED_PER_ORDER'')] @
     (case portfolio of None \<Rightarrow> [] | Some c \<Rightarrow> [(''portfolio'', c)])"

lemma deep_equal_scalar: "deep_equal v (JString s) \<longleftrightarrow> v = JString s" "deep_equal v (JNumber n) \<longleftrightarrow> v = JNumber n"
  by (cases v; simp)+

lemma policy_object_equal:
  assumes "distinct (map fst kvs)"
  shows "deep_equal (JObject kvs) (JObject (policy_object p b portfolio)) \<longleftrightarrow>
    dom (map_of kvs) = (if portfolio = None then policy_keys else insert ''portfolio'' policy_keys) \<and>
    map_of kvs ''projectionVersion'' = Some (JString ''funded-cash-v1'') \<and>
    map_of kvs ''latencyPolicy'' = Some (JString ''CAPTURED_PER_ORDER'') \<and>
    (\<exists>v. map_of kvs ''participation'' = Some v \<and> deep_equal v p) \<and>
    (\<exists>v. map_of kvs ''impactBps'' = Some v \<and> deep_equal v b) \<and>
    (\<forall>c. portfolio = Some c \<longrightarrow> (\<exists>v. map_of kvs ''portfolio'' = Some v \<and> deep_equal v c))"
proof -
  have d: "distinct (map fst (policy_object p b portfolio))" by (auto simp: policy_object_def split: option.split)
  have dom: "dom (map_of (policy_object p b portfolio)) = (if portfolio = None then policy_keys else insert ''portfolio'' policy_keys)"
    by (auto simp: policy_object_def policy_keys_def split: option.split)
  have get: "map_of (policy_object p b portfolio) k = (if k = ''projectionVersion'' then Some (JString ''funded-cash-v1'')
      else if k = ''participation'' then Some p else if k = ''impactBps'' then Some b
      else if k = ''latencyPolicy'' then Some (JString ''CAPTURED_PER_ORDER'')
      else if k = ''portfolio'' then portfolio else None)" for k
    by (auto simp: policy_object_def split: option.split)
  have vals: "(\<forall>k v w. map_of kvs k = Some v \<longrightarrow> map_of (policy_object p b portfolio) k = Some w \<longrightarrow> deep_equal v w) \<longleftrightarrow>
      (\<forall>v. map_of kvs ''projectionVersion'' = Some v \<longrightarrow> v = JString ''funded-cash-v1'') \<and>
      (\<forall>v. map_of kvs ''latencyPolicy'' = Some v \<longrightarrow> v = JString ''CAPTURED_PER_ORDER'') \<and>
      (\<forall>v. map_of kvs ''participation'' = Some v \<longrightarrow> deep_equal v p) \<and>
      (\<forall>v. map_of kvs ''impactBps'' = Some v \<longrightarrow> deep_equal v b) \<and>
      (\<forall>v c. map_of kvs ''portfolio'' = Some v \<longrightarrow> portfolio = Some c \<longrightarrow> deep_equal v c)" (is "?l \<longleftrightarrow> ?r")
  proof
    assume l: ?l
    show ?r
      using l [rule_format, of "''projectionVersion''" _ "JString ''funded-cash-v1''"]
        l [rule_format, of "''latencyPolicy''" _ "JString ''CAPTURED_PER_ORDER''"] l [rule_format, of "''participation''" _ p]
        l [rule_format, of "''impactBps''" _ b] l [rule_format, of "''portfolio''"]
      by (simp add: get deep_equal_scalar)
  next
    assume r: ?r
    show ?l
    proof (intro allI impI)
      fix k v w assume kv: "map_of kvs k = Some v" "map_of (policy_object p b portfolio) k = Some w"
      from kv(2) r kv(1) show "deep_equal v w" unfolding get by (simp add: deep_equal_scalar split: if_splits)
    qed
  qed
  have present: "map_of kvs k \<noteq> None" if "dom (map_of kvs) = (if portfolio = None then policy_keys else insert ''portfolio'' policy_keys)"
    "k \<in> policy_keys \<or> portfolio \<noteq> None \<and> k = ''portfolio''" for k
    using that by (metis domIff insert_iff)
  show ?thesis
  proof (cases "dom (map_of kvs) = (if portfolio = None then policy_keys else insert ''portfolio'' policy_keys)")
    case True
    note here = present [OF True]
    obtain a1 a2 a3 a4 where a: "map_of kvs ''projectionVersion'' = Some a1" "map_of kvs ''latencyPolicy'' = Some a2"
      "map_of kvs ''participation'' = Some a3" "map_of kvs ''impactBps'' = Some a4"
      using here [of "''projectionVersion''"] here [of "''latencyPolicy''"] here [of "''participation''"]
        here [of "''impactBps''"] by (simp add: policy_keys_def) blast
    show ?thesis
    proof (cases portfolio)
      case None
      then show ?thesis unfolding deep_equal_objects [OF assms d] dom vals using a True by simp
    next
      case (Some c)
      then obtain a5 where "map_of kvs ''portfolio'' = Some a5" using here [of "''portfolio''"] by auto
      then show ?thesis unfolding deep_equal_objects [OF assms d] dom vals using a True Some by simp
    qed
  next
    case False
    then show ?thesis unfolding deep_equal_objects [OF assms d] dom by simp
  qed
qed

lemma build_policy_Inr:
  "build_policy p b w = Inr q \<longleftrightarrow> (\<exists>x y entries. or_default p (JNumber (Fin 1)) = JNumber x \<and> is_finite x \<and> Fin 0 < x \<and> x \<le> Fin 1 \<and>
     or_default b (JNumber (Fin 0)) = JNumber y \<and> is_finite y \<and> Fin 0 \<le> y \<and> y \<le> Fin 10000 \<and>
     entries_of (or_default w (JObject [])) = Inr entries \<and>
     \<not> stored_portfolio_invalid (JObject (spread stored_defaults (given entries))) \<and>
     q = JObject (policy_object (JNumber x) (JNumber y) (Some (JObject (spread stored_defaults (given entries))))))"
proof -
  have p: "is_finite (number_of v) \<and> \<not> number_of v \<le> Fin 0 \<and> \<not> Fin 1 < number_of v \<longleftrightarrow>
      (\<exists>x. v = JNumber x \<and> is_finite x \<and> Fin 0 < x \<and> x \<le> Fin 1)" for v
  proof (cases v)
    case (JNumber x)
    then show ?thesis by (cases x) (auto simp: number_of_def)
  qed (auto simp: number_of_def)
  have b: "is_finite (number_of v) \<and> \<not> number_of v < Fin 0 \<and> \<not> Fin 10000 < number_of v \<longleftrightarrow>
      (\<exists>x. v = JNumber x \<and> is_finite x \<and> Fin 0 \<le> x \<and> x \<le> Fin 10000)" for v
  proof (cases v)
    case (JNumber x)
    then show ?thesis by (cases x) (auto simp: number_of_def)
  qed (auto simp: number_of_def)
  have "build_policy p b w = Inr q \<longleftrightarrow>
     (is_finite (number_of (or_default p (JNumber (Fin 1)))) \<and> \<not> number_of (or_default p (JNumber (Fin 1))) \<le> Fin 0 \<and>
      \<not> Fin 1 < number_of (or_default p (JNumber (Fin 1)))) \<and>
     (is_finite (number_of (or_default b (JNumber (Fin 0)))) \<and> \<not> number_of (or_default b (JNumber (Fin 0))) < Fin 0 \<and>
      \<not> Fin 10000 < number_of (or_default b (JNumber (Fin 0)))) \<and>
     (\<exists>entries. entries_of (or_default w (JObject [])) = Inr entries \<and>
       \<not> stored_portfolio_invalid (JObject (spread stored_defaults (given entries))) \<and>
       q = JObject (policy_object (or_default p (JNumber (Fin 1))) (or_default b (JNumber (Fin 0)))
         (Some (JObject (spread stored_defaults (given entries))))))"
    by (auto simp: build_policy_def Let_def bindR_eq_Inr policy_object_def given_def)
  then show ?thesis unfolding p b by auto
qed

lemma delete_portfolio: "delete_prop ''portfolio'' (JObject (policy_object p b w)) = JObject (policy_object p b None)"
  by (auto simp: delete_prop_def policy_object_def split: option.split)

lemma given_empty [simp]: "given [] = []"
  by (simp add: given_def)

lemma deep_equal_object: "deep_equal v (JObject ys) \<Longrightarrow> \<exists>xs. v = JObject xs"
  by (cases v) auto

declare deep_equal.simps(1,2) [simp del]

text \<open>The liquidity terms of a policy\<close>

definition terms_of :: "(string \<rightharpoonup> js_value) \<Rightarrow> jsnum \<Rightarrow> jsnum \<Rightarrow> bool" where
  "terms_of m x y \<longleftrightarrow> m ''participation'' = Some (JNumber x) \<and> is_finite x \<and> Fin 0 < x \<and> x \<le> Fin 1 \<and>
     m ''impactBps'' = Some (JNumber y) \<and> is_finite y \<and> Fin 0 \<le> y \<and> y \<le> Fin 10000"

lemma terms_of_default:
  assumes "distinct (map fst kvs)" "deep_equal (JObject kvs) (JObject (policy_object (JNumber x) (JNumber y) w))"
  shows "(or_default (prop_of (JObject kvs) ''participation'') (JNumber (Fin 1)) = JNumber x \<and> is_finite x \<and> Fin 0 < x \<and> x \<le> Fin 1 \<and>
    or_default (prop_of (JObject kvs) ''impactBps'') (JNumber (Fin 0)) = JNumber y \<and> is_finite y \<and> Fin 0 \<le> y \<and> y \<le> Fin 10000) \<longleftrightarrow>
    terms_of (map_of kvs) x y"
  using assms(2) unfolding policy_object_equal [OF assms(1)] deep_equal_scalar
  by (auto simp: prop_of_object or_default_def terms_of_def)

lemma normalize_object:
  assumes "distinct (map fst kvs)"
  shows "normalize_policy (JObject kvs) = Inr q \<longleftrightarrow> (\<exists>x y entries c. terms_of (map_of kvs) x y \<and>
     entries_of (or_default (prop_of (JObject kvs) ''portfolio'') (JObject [])) = Inr entries \<and>
     c = JObject (spread stored_defaults (given entries)) \<and> \<not> stored_portfolio_invalid c \<and>
     q = JObject (policy_object (JNumber x) (JNumber y) (if prop_of (JObject kvs) ''portfolio'' = JUndefined then None else Some c)) \<and>
     deep_equal (JObject kvs) q)"
proof -
  let ?w = "prop_of (JObject kvs) ''portfolio''"
  let ?q = "\<lambda>x y e. JObject (policy_object (JNumber x) (JNumber y)
    (if ?w = JUndefined then None else Some (JObject (spread stored_defaults (given e)))))"
  have built: "normalize_policy (JObject kvs) = Inr q \<longleftrightarrow> (\<exists>built. build_policy (prop_of (JObject kvs) ''participation'')
        (prop_of (JObject kvs) ''impactBps'') ?w = Inr built \<and>
      q = (if ?w = JUndefined then delete_prop ''portfolio'' built else built) \<and> deep_equal (JObject kvs) q)"
  proof -
    have "JObject kvs \<notin> {JUndefined, JNull}" by simp
    then show ?thesis unfolding normalize_policy_def bindR_eq_Inr Let_def if_throw_Inr not_not by blast
  qed
  show ?thesis (is "_ = ?r")
  proof
    assume "normalize_policy (JObject kvs) = Inr q"
    then obtain x y e where t: "or_default (prop_of (JObject kvs) ''participation'') (JNumber (Fin 1)) = JNumber x \<and> is_finite x \<and>
        Fin 0 < x \<and> x \<le> Fin 1 \<and> or_default (prop_of (JObject kvs) ''impactBps'') (JNumber (Fin 0)) = JNumber y \<and>
        is_finite y \<and> Fin 0 \<le> y \<and> y \<le> Fin 10000" and e: "entries_of (or_default ?w (JObject [])) = Inr e"
        "\<not> stored_portfolio_invalid (JObject (spread stored_defaults (given e)))" "q = ?q x y e" "deep_equal (JObject kvs) q"
      unfolding built build_policy_Inr by (auto simp: delete_portfolio split: if_splits)
    then show ?r using terms_of_default [OF assms] by metis
  next
    assume ?r
    then obtain x y e where e: "terms_of (map_of kvs) x y" "entries_of (or_default ?w (JObject [])) = Inr e"
        "\<not> stored_portfolio_invalid (JObject (spread stored_defaults (given e)))" "q = ?q x y e" "deep_equal (JObject kvs) q"
      by blast
    note t = terms_of_default [OF assms e(5) [unfolded e(4)], THEN iffD2, OF e(1)]
    have "build_policy (prop_of (JObject kvs) ''participation'') (prop_of (JObject kvs) ''impactBps'') ?w =
        Inr (JObject (policy_object (JNumber x) (JNumber y) (Some (JObject (spread stored_defaults (given e))))))"
      unfolding build_policy_Inr using t e(2,3) by blast
    then show "normalize_policy (JObject kvs) = Inr q"
      unfolding built using e(4,5) by (auto simp: delete_portfolio)
  qed
qed

lemma canonical_policy_terms: "canonical_policy v \<longleftrightarrow> (\<exists>kvs x y. v = JObject kvs \<and> terms_of (map_of kvs) x y \<and>
    dom (map_of kvs) \<in> {policy_keys, insert ''portfolio'' policy_keys} \<and>
    map_of kvs ''projectionVersion'' = Some (JString ''funded-cash-v1'') \<and>
    map_of kvs ''latencyPolicy'' = Some (JString ''CAPTURED_PER_ORDER'') \<and>
    (\<forall>w. map_of kvs ''portfolio'' = Some w \<longrightarrow> (\<exists>ps. w = JObject ps \<and> canonical_portfolio (map_of ps))))"
  unfolding canonical_policy_def terms_of_def by (intro iffI; elim exE conjE; (intro exI conjI; assumption))

lemma object_accepted:
  assumes "objects_ok (JObject kvs)"
  shows "(\<exists>q. normalize_policy (JObject kvs) = Inr q) \<longleftrightarrow> canonical_policy (JObject kvs)"
proof -
  have d: "distinct (map fst kvs)" using assms by (simp add: objects_ok_def)
  have head: "(\<exists>v. map_of kvs ''participation'' = Some v \<and> v = JNumber x) \<and> (\<exists>v. map_of kvs ''impactBps'' = Some v \<and> v = JNumber y)"
    if "terms_of (map_of kvs) x y" for x y using that by (simp add: terms_of_def)
  have no_key: "''portfolio'' \<notin> policy_keys" by (simp add: policy_keys_def)
  show ?thesis
  proof (cases "map_of kvs ''portfolio''")
    case None
    then have u: "prop_of (JObject kvs) ''portfolio'' = JUndefined" by (simp add: prop_of_object)
    have other: "dom (map_of kvs) \<noteq> insert ''portfolio'' policy_keys" using None by blast
    have "(\<exists>q. normalize_policy (JObject kvs) = Inr q) \<longleftrightarrow> (\<exists>x y. terms_of (map_of kvs) x y \<and>
        deep_equal (JObject kvs) (JObject (policy_object (JNumber x) (JNumber y) None)))"
      unfolding normalize_object [OF d] u using defaults_valid by (auto simp: or_default_def entries_of_def)
    also have "\<dots> \<longleftrightarrow> (\<exists>x y. terms_of (map_of kvs) x y \<and> dom (map_of kvs) = policy_keys \<and>
          map_of kvs ''projectionVersion'' = Some (JString ''funded-cash-v1'') \<and>
          map_of kvs ''latencyPolicy'' = Some (JString ''CAPTURED_PER_ORDER''))"
      unfolding policy_object_equal [OF d] deep_equal_scalar using head by simp blast
    also have "\<dots> \<longleftrightarrow> canonical_policy (JObject kvs)"
      unfolding canonical_policy_terms using None other by simp
    finally show ?thesis .
  next
    case (Some w)
    have key: "''portfolio'' \<in> dom (map_of kvs)" using Some by blast
    show ?thesis
    proof (cases "\<exists>ps. w = JObject ps")
      case False
      have "\<not> canonical_policy (JObject kvs)" using False Some unfolding canonical_policy_terms by auto
      moreover have "normalize_policy (JObject kvs) \<noteq> Inr q" for q
        unfolding normalize_object [OF d]
        using False Some key no_key deep_equal_object [of w]
        by (auto simp: policy_object_equal [OF d] prop_of_object)
      ultimately show ?thesis by blast
    next
      case True
      then obtain ps where w: "w = JObject ps" by blast
      have ps: "distinct (map fst ps)" using assms Some w by (simp add: objects_ok_def)
      let ?c = "JObject (spread stored_defaults (given ps))"
      have p: "prop_of (JObject kvs) ''portfolio'' = JObject ps" using Some w by (simp add: prop_of_object)
      have "(\<exists>q. normalize_policy (JObject kvs) = Inr q) \<longleftrightarrow> (\<exists>x y. terms_of (map_of kvs) x y \<and> \<not> stored_portfolio_invalid ?c \<and>
          deep_equal (JObject kvs) (JObject (policy_object (JNumber x) (JNumber y) (Some ?c))))"
        unfolding normalize_object [OF d] p by (auto simp: or_default_def entries_of_def)
      also have "\<dots> \<longleftrightarrow> (\<exists>x y. terms_of (map_of kvs) x y \<and> dom (map_of kvs) = insert ''portfolio'' policy_keys \<and>
          map_of kvs ''projectionVersion'' = Some (JString ''funded-cash-v1'') \<and>
          map_of kvs ''latencyPolicy'' = Some (JString ''CAPTURED_PER_ORDER'') \<and>
          (deep_equal (JObject ps) ?c \<and> \<not> stored_portfolio_invalid ?c))"
        using head Some w by (auto simp: policy_object_equal [OF d] deep_equal_scalar)
      also have "\<dots> \<longleftrightarrow> canonical_policy (JObject kvs)"
        unfolding portfolio_accepted [OF ps] canonical_policy_terms using Some w key no_key by auto
      finally show ?thesis .
    qed
  qed
qed

lemma policy_accepted:
  assumes "objects_ok v"
  shows "(\<exists>q. normalize_policy v = Inr q) \<longleftrightarrow> canonical_policy v"
proof (cases "\<exists>kvs. v = JObject kvs")
  case True
  then show ?thesis using object_accepted assms by blast
next
  case False
  have "normalize_policy v \<noteq> Inr q" for q
  proof
    assume n: "normalize_policy v = Inr q"
    then obtain built where "build_policy (prop_of v ''participation'') (prop_of v ''impactBps'') (prop_of v ''portfolio'') = Inr built"
      "deep_equal v q" "q = built \<or> q = delete_prop ''portfolio'' built"
      unfolding normalize_policy_def bindR_eq_Inr Let_def if_throw_Inr not_not by auto
    then have "\<exists>ys. q = JObject ys" unfolding build_policy_Inr by (auto simp: delete_portfolio)
    then show False using \<open>deep_equal v q\<close> deep_equal_object False by blast
  qed
  moreover have "\<not> canonical_policy v" using False unfolding canonical_policy_def by blast
  ultimately show ?thesis by blast
qed

lemma normalize_equal: "normalize_policy v = Inr q \<Longrightarrow> deep_equal v q"
  unfolding normalize_policy_def bindR_eq_Inr Let_def if_throw_Inr not_not by auto

lemma built_canonical:
  assumes "build_policy p b w = Inr q" "w = JUndefined \<or> (\<exists>ps. w = JObject ps \<and> distinct (map fst ps))"
  shows "objects_ok q \<and> canonical_policy q"
proof -
  obtain ps where ps: "or_default w (JObject []) = JObject ps" "distinct (map fst ps)"
    using assms(2) by (auto simp: or_default_def)
  let ?c = "spread stored_defaults (given ps)"
  from assms(1) obtain x y where xy: "is_finite x" "Fin 0 < x" "x \<le> Fin 1" "is_finite y" "Fin 0 \<le> y" "y \<le> Fin 10000"
    and valid: "\<not> stored_portfolio_invalid (JObject ?c)"
    and q: "q = JObject (policy_object (JNumber x) (JNumber y) (Some (JObject ?c)))"
    unfolding build_policy_Inr ps(1) by (auto simp: entries_of_def)
  note c = canonical_object [OF ps(2)]
  have "JUndefined \<notin> ran (map_of ?c)"
  proof
    assume "JUndefined \<in> ran (map_of ?c)"
    then obtain k where "map_of ?c k = Some JUndefined" by (auto simp: ran_def)
    then have "map_of (given ps) k = Some JUndefined \<or> map_of stored_defaults k = Some JUndefined"
      unfolding c(1) map_add_Some_iff by blast
    then show False using given_map [OF ps(2), of k] defaults_distinct(2) by (auto simp: ran_def split: if_splits)
  qed
  from canonical_portfolio_iff [OF this] valid have "canonical_portfolio (map_of ?c)" by blast
  moreover have "dom (map_of (policy_object (JNumber x) (JNumber y) (Some (JObject ?c)))) = insert ''portfolio'' policy_keys"
    by (auto simp: policy_object_def policy_keys_def)
  ultimately show ?thesis
    unfolding q canonical_policy_terms using xy c(2)
    by (auto simp: terms_of_def policy_object_def objects_ok_def)
qed

section \<open>The typed policy\<close>

text \<open>A policy of the type as a stored value: absent fields are left out.\<close>

definition opt :: "string \<Rightarrow> js_value option \<Rightarrow> (string \<times> js_value) list" where
  "opt k x = (case x of None \<Rightarrow> [] | Some v \<Rightarrow> [(k, v)])"

definition stored_version :: "policy_version \<Rightarrow> string" where
  "stored_version v = (case v of PORTFOLIO_V1 \<Rightarrow> ''funded-portfolio-v1'' | PORTFOLIO_V2 \<Rightarrow> ''funded-portfolio-v2'')"

definition stored_requirement :: "context_requirement \<Rightarrow> string" where
  "stored_requirement r = (case r of MARKET_ONLY \<Rightarrow> ''MARKET_ONLY'' | MARKET_AND_SECTOR_REQUIRED \<Rightarrow> ''MARKET_AND_SECTOR_REQUIRED'')"

definition stored_portfolio :: "funded_portfolio_policy \<Rightarrow> (string \<times> js_value) list" where
  "stored_portfolio v = [(''version'', JString (stored_version (v_version v))),
     (''maxOpenPositions'', JNumber (v_maxOpenPositions v)), (''maxTotalOpenRisk'', JNumber (v_maxTotalOpenRisk v)),
     (''cooldownMinutesAfterStop'', JNumber (v_cooldownMinutesAfterStop v)),
     (''maxConsecutiveStops'', JNumber (v_maxConsecutiveStops v)), (''requireFreshContext'', JBool (v_requireFreshContext v)),
     (''contextMaxAgeSeconds'', JNumber (v_contextMaxAgeSeconds v)), (''vetoOnWeakContext'', JBool (v_vetoOnWeakContext v))] @
     opt ''maxSymbolNotional'' (map_option JNumber (v_maxSymbolNotional v)) @
     opt ''maxSectorNotional'' (map_option JNumber (v_maxSectorNotional v)) @
     opt ''contextRequirement'' (map_option (\<lambda>r. JString (stored_requirement r)) (v_contextRequirement v)) @
     opt ''maximumHoldingMinutes'' (map_option JNumber (v_maximumHoldingMinutes v)) @
     opt ''maximumHoldingMinutesByStrategy'' (map_option (\<lambda>m. JObject (map (\<lambda>(k, x). (k, JNumber x)) m))
       (v_maximumHoldingMinutesByStrategy v)) @
     opt ''stalledBreakoutMinutes'' (map_option JNumber (v_stalledBreakoutMinutes v)) @
     opt ''stalledBreakoutMinProgressR'' (map_option JNumber (v_stalledBreakoutMinProgressR v))"

definition stored_policy :: "funded_policy_t \<Rightarrow> js_value" where
  "stored_policy p = JObject (policy_object (JNumber (y_participation p)) (JNumber (y_impactBps p))
     (map_option (\<lambda>v. JObject (stored_portfolio v)) (y_portfolio p)))"

lemma opt_get: "map_of (opt k x @ r) k' = (if k = k' \<and> x \<noteq> None then x else map_of r k')"
  "map_of (opt k x) k' = (if k = k' then x else None)"
  by (auto simp: opt_def split: option.split)

lemma opt_keys: "k' \<in> fst ` set (opt k x) \<longleftrightarrow> k' = k \<and> x \<noteq> None" "distinct (map fst (opt k x))"
  "fst ` set (opt k x) \<inter> A = {} \<longleftrightarrow> x = None \<or> k \<notin> A"
  by (auto simp: opt_def split: option.split)

lemma stored_portfolio_distinct: "distinct (map fst (stored_portfolio v))"
  unfolding stored_portfolio_def map_append distinct_append set_append set_map image_Un
  by (simp add: opt_keys)

lemma opt_defined: "(\<And>y. f y \<noteq> JUndefined) \<Longrightarrow> JUndefined \<notin> snd ` set (opt k (map_option f x))"
  by (cases x) (auto simp: opt_def, metis)

lemma stored_portfolio_defined: "JUndefined \<notin> ran (map_of (stored_portfolio v))"
proof -
  have "JUndefined \<notin> snd ` set (stored_portfolio v)"
    unfolding stored_portfolio_def set_append image_Un Un_iff de_Morgan_disj
    by (intro conjI opt_defined) simp_all
  then show ?thesis using ran_distinct [OF stored_portfolio_distinct] by simp
qed

lemma positive_number_value: "positive_value (JNumber x) \<longleftrightarrow> \<not> bad_limit (Some x)"
  by (cases x) (auto simp: positive_value_def bad_limit_def)

lemma stored_valid: "canonical_portfolio (map_of (stored_portfolio v)) \<longleftrightarrow> \<not> invalid_portfolio v"
proof -
  have w: "whole_from (Fin n) (Some (JNumber x)) \<longleftrightarrow> is_integer x \<and> \<not> x < Fin n" for n x
    by (cases x) (auto simp: whole_from_def)
  have nonneg: "is_finite x \<and> Fin 0 \<le> x \<longleftrightarrow> is_finite x \<and> \<not> x < Fin 0" for x by (cases x) auto
  have none: "\<not> bad_limit None" by (simp add: bad_limit_def)
  have limit: "(\<forall>w. map_option JNumber x = Some w \<longrightarrow> positive_value w) \<longleftrightarrow> \<not> bad_limit x" for x
    by (cases x) (simp_all add: positive_number_value none)
  have positive: "positive_value (JNumber x) \<longleftrightarrow> is_finite x \<and> \<not> x \<le> Fin 0" for x
    by (cases x) (auto simp: positive_value_def)
  have strategies: "(\<forall>w. map_option (\<lambda>m. JObject (map (\<lambda>(k, x). (k, JNumber x)) m)) ms = Some w \<longrightarrow>
      (\<forall>u \<in> set (values_of w). u = JUndefined \<or> positive_value u)) \<longleftrightarrow>
      (\<forall>l \<in> set (map (\<lambda>kv. Some (snd kv)) (coalesce ms [])). \<not> bad_limit l)" for ms
    by (cases ms) (auto simp: values_of_def positive_number_value)
  have progress: "(\<forall>w. map_option JNumber x = Some w \<longrightarrow> (\<exists>y. w = JNumber y \<and> is_finite y \<and> Fin 0 \<le> y)) \<longleftrightarrow>
      \<not> (case x of None \<Rightarrow> False | Some y \<Rightarrow> \<not> is_finite y \<or> y < Fin 0)" for x
    using nonneg by (cases x) auto
  have requirement: "map_option (\<lambda>r. JString (stored_requirement r)) x \<in>
      {None, Some (JString ''MARKET_ONLY''), Some (JString ''MARKET_AND_SECTOR_REQUIRED'')}" for x
    by (cases x) (auto simp: stored_requirement_def split: context_requirement.split)
  have version: "Some (JString (stored_version x)) \<in> {Some (JString ''funded-portfolio-v1''), Some (JString ''funded-portfolio-v2'')}" for x
    by (cases x) (simp_all add: stored_version_def)
  let ?m = "map_of (stored_portfolio v)"
  have get: "?m ''version'' = Some (JString (stored_version (v_version v)))"
    "?m ''maxOpenPositions'' = Some (JNumber (v_maxOpenPositions v))" "?m ''maxTotalOpenRisk'' = Some (JNumber (v_maxTotalOpenRisk v))"
    "?m ''cooldownMinutesAfterStop'' = Some (JNumber (v_cooldownMinutesAfterStop v))"
    "?m ''maxConsecutiveStops'' = Some (JNumber (v_maxConsecutiveStops v))"
    "?m ''contextMaxAgeSeconds'' = Some (JNumber (v_contextMaxAgeSeconds v))"
    "?m ''requireFreshContext'' = Some (JBool (v_requireFreshContext v))" "?m ''vetoOnWeakContext'' = Some (JBool (v_vetoOnWeakContext v))"
    "?m ''contextRequirement'' = map_option (\<lambda>r. JString (stored_requirement r)) (v_contextRequirement v)"
    "?m ''maxSymbolNotional'' = map_option JNumber (v_maxSymbolNotional v)"
    "?m ''maxSectorNotional'' = map_option JNumber (v_maxSectorNotional v)"
    "?m ''maximumHoldingMinutes'' = map_option JNumber (v_maximumHoldingMinutes v)"
    "?m ''stalledBreakoutMinutes'' = map_option JNumber (v_stalledBreakoutMinutes v)"
    "?m ''stalledBreakoutMinProgressR'' = map_option JNumber (v_stalledBreakoutMinProgressR v)"
    "?m ''maximumHoldingMinutesByStrategy'' = map_option (\<lambda>m. JObject (map (\<lambda>(k, x). (k, JNumber x)) m))
      (v_maximumHoldingMinutesByStrategy v)"
    by (simp_all add: stored_portfolio_def opt_get del: map_of_append)
  have four: "(\<forall>key \<in> {a, b, c, d}. P key) \<longleftrightarrow> P a \<and> P b \<and> P c \<and> P d" for a b c d :: string and P by simp
  have "canonical_portfolio (map_of (stored_portfolio v)) \<longleftrightarrow>
      (is_integer (v_maxOpenPositions v) \<and> \<not> v_maxOpenPositions v < Fin 1) \<and>
      (is_finite (v_maxTotalOpenRisk v) \<and> \<not> v_maxTotalOpenRisk v \<le> Fin 0) \<and>
      (is_integer (v_cooldownMinutesAfterStop v) \<and> \<not> v_cooldownMinutesAfterStop v < Fin 0) \<and>
      (is_integer (v_maxConsecutiveStops v) \<and> \<not> v_maxConsecutiveStops v < Fin 1) \<and>
      (is_integer (v_contextMaxAgeSeconds v) \<and> \<not> v_contextMaxAgeSeconds v < Fin 1) \<and>
      (\<not> bad_limit (v_maxSymbolNotional v) \<and> \<not> bad_limit (v_maxSectorNotional v) \<and>
       \<not> bad_limit (v_maximumHoldingMinutes v) \<and> \<not> bad_limit (v_stalledBreakoutMinutes v)) \<and>
      \<not> (case v_stalledBreakoutMinProgressR v of None \<Rightarrow> False | Some y \<Rightarrow> \<not> is_finite y \<or> y < Fin 0) \<and>
      (\<forall>l \<in> set (map (\<lambda>kv. Some (snd kv)) (coalesce (v_maximumHoldingMinutesByStrategy v) [])). \<not> bad_limit l)"
    unfolding canonical_portfolio_def four get w limit progress strategies
    using stored_portfolio_defined [of v] version requirement positive by simp
  also have "\<dots> \<longleftrightarrow> \<not> invalid_portfolio v"
    unfolding invalid_portfolio_def set_append bex_Un ball_Un by auto
  finally show ?thesis .
qed

lemma stored_policy_ok: "objects_ok (stored_policy p)"
  using stored_portfolio_distinct
  by (cases "y_portfolio p") (simp_all add: stored_policy_def objects_ok_def policy_object_def)

lemma typed_accepted: "(\<exists>q. normalize_funded_policy p = Inr q) \<longleftrightarrow> is_finite (y_participation p) \<and> \<not> y_participation p \<le> Fin 0 \<and>
    \<not> Fin 1 < y_participation p \<and> is_finite (y_impactBps p) \<and> \<not> y_impactBps p < Fin 0 \<and> \<not> Fin 10000 < y_impactBps p \<and>
    (\<forall>v. y_portfolio p = Some v \<longrightarrow> \<not> invalid_portfolio v)"
proof (cases "y_portfolio p")
  case None
  have "\<lparr>y_participation = y_participation p, y_impactBps = y_impactBps p, y_portfolio = None\<rparr> = p" using None by simp
  then show ?thesis using None default_portfolio_valid
    by (simp add: normalize_funded_policy_def bindR_eq_Inr funded_policy_Inr Let_def)
next
  case (Some v)
  have "\<lparr>y_participation = y_participation p, y_impactBps = y_impactBps p, y_portfolio = Some v\<rparr> = p" using Some by simp
  then show ?thesis using Some
    by (auto simp: normalize_funded_policy_def bindR_eq_Inr funded_policy_Inr Let_def)
qed

lemma stored_accepted: "canonical_policy (stored_policy p) \<longleftrightarrow> (\<exists>q. normalize_funded_policy p = Inr q)"
proof -
  have x: "is_finite x \<and> Fin 0 < x \<and> x \<le> Fin 1 \<longleftrightarrow> is_finite x \<and> \<not> x \<le> Fin 0 \<and> \<not> Fin 1 < x" for x by (cases x) auto
  have y: "is_finite y \<and> Fin 0 \<le> y \<and> y \<le> Fin 10000 \<longleftrightarrow> is_finite y \<and> \<not> y < Fin 0 \<and> \<not> Fin 10000 < y" for y by (cases y) auto
  let ?o = "policy_object (JNumber (y_participation p)) (JNumber (y_impactBps p)) (map_option (\<lambda>v. JObject (stored_portfolio v)) (y_portfolio p))"
  have dom: "dom (map_of ?o) \<in> {policy_keys, insert ''portfolio'' policy_keys}"
    by (cases "y_portfolio p") (auto simp: policy_object_def policy_keys_def)
  have get: "map_of ?o ''projectionVersion'' = Some (JString ''funded-cash-v1'')"
    "map_of ?o ''latencyPolicy'' = Some (JString ''CAPTURED_PER_ORDER'')"
    "map_of ?o ''participation'' = Some (JNumber (y_participation p))" "map_of ?o ''impactBps'' = Some (JNumber (y_impactBps p))"
    "map_of ?o ''portfolio'' = map_option (\<lambda>v. JObject (stored_portfolio v)) (y_portfolio p)"
    by (cases "y_portfolio p"; simp add: policy_object_def)+
  have "canonical_policy (stored_policy p) \<longleftrightarrow> (is_finite (y_participation p) \<and> Fin 0 < y_participation p \<and> y_participation p \<le> Fin 1) \<and>
      (is_finite (y_impactBps p) \<and> Fin 0 \<le> y_impactBps p \<and> y_impactBps p \<le> Fin 10000) \<and>
      (\<forall>v. y_portfolio p = Some v \<longrightarrow> canonical_portfolio (map_of (stored_portfolio v)))"
    unfolding canonical_policy_terms stored_policy_def terms_of_def
    using dom get by (cases "y_portfolio p") simp_all
  then show ?thesis unfolding x y stored_valid typed_accepted by blast
qed

section \<open>The properties\<close>

text \<open>
  C24: What the normalisation of a stored policy accepts. A stored value is accepted exactly when
  it is an object with the projection version, the latency policy, the two liquidity terms within
  their bounds, and at most a portfolio besides; and the portfolio is an object that gives every
  control that has a default, holds no \<open>undefined\<close>, and has every control it gives within its
  bound; keys the code does not know are let through in the portfolio, but not in the policy. What
  is returned is deeply equal to what was stored.
\<close>

theorem stored_policy_accepted:
  assumes "objects_ok v"
  shows "((\<exists>q. normalize_policy v = Inr q) \<longleftrightarrow> canonical_policy v) \<and>
    (\<forall>q. normalize_policy v = Inr q \<longrightarrow> deep_equal v q)"
  using policy_accepted [OF assms] normalize_equal by blast

text \<open>A stored policy as the database returns it, its keys in another order, and one with a control left out.\<close>

definition sample_stored :: js_value where
  "sample_stored = JObject [(''portfolio'', JObject [(''version'', JString ''funded-portfolio-v1''),
       (''maxOpenPositions'', JNumber (Fin 2)), (''maxTotalOpenRisk'', JNumber (Fin 500)),
       (''vetoOnWeakContext'', JBool False), (''requireFreshContext'', JBool True),
       (''maxConsecutiveStops'', JNumber (Fin 3)), (''contextMaxAgeSeconds'', JNumber (Fin 300)),
       (''cooldownMinutesAfterStop'', JNumber (Fin 0))]),
     (''impactBps'', JNumber (Fin 5)), (''latencyPolicy'', JString ''CAPTURED_PER_ORDER''),
     (''participation'', JNumber (Fin (1 / 4))), (''projectionVersion'', JString ''funded-cash-v1'')]"

definition sample_partial :: js_value where
  "sample_partial = JObject [(''portfolio'', JObject [(''version'', JString ''funded-portfolio-v1'')]),
     (''impactBps'', JNumber (Fin 5)), (''latencyPolicy'', JString ''CAPTURED_PER_ORDER''),
     (''participation'', JNumber (Fin (1 / 4))), (''projectionVersion'', JString ''funded-cash-v1'')]"

lemma stored_policy_accepted_witness:
  "(\<exists>q. normalize_policy sample_stored = Inr q \<and> deep_equal sample_stored q) \<and> canonical_policy sample_stored \<and>
   normalize_policy sample_partial = throw ''Non-canonical funded policy'' \<and> \<not> canonical_policy sample_partial"
proof -
  have ok: "objects_ok sample_stored" "objects_ok sample_partial" by code_simp+
  have "\<not> isl (normalize_policy sample_stored)" by code_simp
  then obtain q where q: "normalize_policy sample_stored = Inr q" by (cases "normalize_policy sample_stored") auto
  have bad: "normalize_policy sample_partial = throw ''Non-canonical funded policy''" by code_simp
  show ?thesis using stored_policy_accepted [OF ok(1)] stored_policy_accepted [OF ok(2)] q bad by simp
qed

text \<open>
  C25: What is built is accepted back. Whatever terms and controls \<open>fundedPolicy\<close> accepts, absent
  or \<open>undefined\<close> ones included, the policy it returns is accepted by \<open>normalizeFundedPolicy\<close>,
  which returns a policy deeply equal to it.
\<close>

theorem built_policy_accepted:
  assumes "build_policy participation impactBps portfolio = Inr q"
    "portfolio = JUndefined \<or> (\<exists>ps. portfolio = JObject ps \<and> distinct (map fst ps))"
  shows "\<exists>q'. normalize_policy q = Inr q' \<and> deep_equal q q'"
  using policy_accepted [of q] built_canonical [OF assms] normalize_equal by blast

lemma built_policy_accepted_witness:
  "\<exists>q q'. build_policy (JNumber (Fin (1 / 2))) JUndefined
      (JObject [(''maxOpenPositions'', JNumber (Fin 5)), (''maxTotalOpenRisk'', JUndefined)]) = Inr q \<and>
    normalize_policy q = Inr q' \<and> deep_equal q q'"
proof -
  let ?w = "JObject [(''maxOpenPositions'', JNumber (Fin 5)), (''maxTotalOpenRisk'', JUndefined)]"
  have "\<not> isl (build_policy (JNumber (Fin (1 / 2))) JUndefined ?w)" by code_simp
  then obtain q where q: "build_policy (JNumber (Fin (1 / 2))) JUndefined ?w = Inr q"
    by (cases "build_policy (JNumber (Fin (1 / 2))) JUndefined ?w") auto
  have "?w = JUndefined \<or> (\<exists>ps. ?w = JObject ps \<and> distinct (map fst ps))" by simp
  from built_policy_accepted [OF q this] q show ?thesis by blast
qed

text \<open>
  The typed policy refines the stored one. Writing a policy of the type to its stored form,
  with absent fields left out, the normalisation of the stored value accepts it exactly when the
  typed normalisation does; so the functions on the type, which the order service of the model
  uses, decide as the code does on the values it reads, and what the typed constructor builds is
  accepted when it is read back.
\<close>

theorem typed_policy_refines_stored:
  "((\<exists>q. normalize_policy (stored_policy p) = Inr q) \<longleftrightarrow> (\<exists>q. normalize_funded_policy p = Inr q)) \<and>
   (funded_policy participation impactBps u = Inr p \<longrightarrow> (\<exists>q. normalize_policy (stored_policy p) = Inr q \<and> deep_equal (stored_policy p) q))"
  using policy_accepted [OF stored_policy_ok] stored_accepted normalize_built normalize_equal by blast

lemma typed_policy_refines_stored_witness:
  "\<exists>p q. funded_policy (Fin (1 / 4)) (Fin 5) (empty_portfolio_input\<lparr>u_maxSymbolNotional := Some (Fin 5000)\<rparr>) = Inr p \<and>
     normalize_policy (stored_policy p) = Inr q \<and> deep_equal (stored_policy p) q"
proof -
  let ?u = "empty_portfolio_input\<lparr>u_maxSymbolNotional := Some (Fin 5000)\<rparr>"
  have "\<not> isl (funded_policy (Fin (1 / 4)) (Fin 5) ?u)" by code_simp
  then obtain p where "funded_policy (Fin (1 / 4)) (Fin 5) ?u = Inr p" by (cases "funded_policy (Fin (1 / 4)) (Fin 5) ?u") auto
  with typed_policy_refines_stored [of p "Fin (1 / 4)" "Fin 5" ?u] show ?thesis by blast
qed

end
