(* ===== verification/LedgerStore.thy ===== *)
theory LedgerStore
  imports LedgerLemmas
begin

text \<open>
  The durable funded account (\<open>paper-bot/funded-ledger-repository.ts\<close>): the snapshot of the
  ledger with its bounded cache of recent events, the immutable event rows, and the
  checkpoints. One \<open>account_store\<close> is the account's row of \<open>paper_funded_account\<close> with its rows
  of \<open>paper_funded_event\<close> and \<open>paper_funded_ledger_checkpoint\<close>; the statements of the source
  read and write exactly these. A transaction is a function that returns the new store or the
  error, and an error is the rollback: the store stays as it was. The account row is locked for
  the whole transaction, so the rows found before the loop, with those inserted by it, are the
  rows of the store.
\<close>

section \<open>State\<close>

text \<open>A row: its sequence number, the event, the fact (run and fact id) that caused it, and whether
  its position in the order is known (it is for every row the store inserts).\<close>

record event_row =
  er_sequence :: nat
  er_event :: ledger_event
  er_cause :: "(string \<times> string) option"
  er_verified :: bool

datatype checkpoint_kind = RUN_START | PERIODIC

record ledger_checkpoint =
  cp_sequence :: nat
  cp_boundaryAt :: string
  cp_kind :: checkpoint_kind
  cp_state :: ledger

record account_store =
  ac_initial :: ledger
  ac_state :: ledger
  ac_rows :: "event_row list"
  ac_nextSequence :: nat
  ac_sinceCheckpoint :: nat
  ac_checkpoints :: "ledger_checkpoint list"

definition snapshot_event_limit :: nat where
  "snapshot_event_limit = 256"

definition checkpoint_event_interval :: nat where
  "checkpoint_event_interval = 20000"

text \<open>\<open>events.slice(-n)\<close> and \<open>events.slice(0, -n)\<close> for a list longer than \<open>n\<close>\<close>

definition last_n :: "nat \<Rightarrow> 'a list \<Rightarrow> 'a list" where
  "last_n n xs = drop (length xs - n) xs"

definition all_but_last_n :: "nat \<Rightarrow> 'a list \<Rightarrow> 'a list" where
  "all_but_last_n n xs = take (length xs - n) xs"

section \<open>Provisioning\<close>

definition create_account :: "ledger result \<Rightarrow> account_store result" where
  "create_account input = bindR input (\<lambda>l. Inr \<lparr>ac_initial = l, ac_state = l, ac_rows = [],
     ac_nextSequence = 1, ac_sinceCheckpoint = 0, ac_checkpoints = []\<rparr>)"

text \<open>
  \<open>ensure\<close>: an existing account (the first argument) is returned when it has the same funding
  contract.
\<close>

definition ensure_account :: "account_store option \<Rightarrow> ledger result \<Rightarrow> account_store result" where
  "ensure_account existing input = bindR input (\<lambda>expected. case existing of
      None \<Rightarrow> create_account (Inr expected)
    | Some s \<Rightarrow>
        if lg_currency (ac_initial s) \<noteq> lg_currency expected \<or>
          \<not> js_eq (lg_cash (ac_initial s)) (lg_cash expected) \<or>
          \<not> js_eq (lg_dailyLossLimit (ac_initial s)) (lg_dailyLossLimit expected)
        then throw ''Funded account provisioning is immutable'' else Inr s)"

section \<open>Applying events in a transaction\<close>

definition find_row :: "string \<Rightarrow> event_row list \<Rightarrow> event_row option" where
  "find_row i rows = find (\<lambda>r. ev_id (er_event r) = i) rows"

text \<open>
  One iteration of the loop over the events: a persisted event is checked and skipped, another
  one is applied and, unless the ledger already had it, inserted.
\<close>

definition apply_row :: "jsnum \<Rightarrow> (string \<times> string) option \<Rightarrow> account_store \<Rightarrow> ledger_event \<Rightarrow>
    account_store result" where
  "apply_row age cause s e = (case find_row (ev_id e) (ac_rows s) of
      Some row \<Rightarrow>
        if er_event row \<noteq> e then throw ''Conflicting ledger event retry''
        else if er_cause row \<noteq> cause then throw ''Conflicting ledger event causal provenance''
        else Inr s
    | None \<Rightarrow> bindR (apply_ledger_event (ac_state s) e age) (\<lambda>l.
        if l = ac_state s then Inr s
        else Inr (s\<lparr>ac_state := l,
          ac_rows := ac_rows s @ [\<lparr>er_sequence = ac_nextSequence s, er_event = e, er_cause = cause,
            er_verified = True\<rparr>],
          ac_nextSequence := ac_nextSequence s + 1\<rparr>)))"

text \<open>The bounded cache: the evicted events must all have their durable copy.\<close>

definition trim_snapshot :: "event_row list \<Rightarrow> ledger \<Rightarrow> ledger" where
  "trim_snapshot rows l =
     (if snapshot_event_limit < length (lg_events l) \<and>
         (\<forall>e \<in> set (all_but_last_n snapshot_event_limit (lg_events l)).
            map_option er_event (find_row (ev_id e) rows) = Some e)
      then l\<lparr>lg_events := last_n snapshot_event_limit (lg_events l)\<rparr> else l)"

definition is_session :: "ledger_event \<Rightarrow> bool" where
  "is_session e \<longleftrightarrow> (case ev_action e of Session s \<Rightarrow> True | _ \<Rightarrow> False)"

text \<open>The checkpoint and the counter, when rows were inserted (\<open>s\<close> before, \<open>s'\<close> after the loop).\<close>

definition settle_checkpoint :: "nat \<Rightarrow> account_store \<Rightarrow> account_store \<Rightarrow> account_store" where
  "settle_checkpoint interval s s' =
     (let inserted = drop (length (ac_rows s)) (ac_rows s');
          pendingCount = ac_sinceCheckpoint s + length inserted;
          appliedSession = list_ex (\<lambda>r. is_session (er_event r)) inserted
      in if inserted = [] then s
         else if appliedSession \<or> interval \<le> pendingCount
         then s'\<lparr>ac_sinceCheckpoint := 0, ac_checkpoints := ac_checkpoints s' @
           [\<lparr>cp_sequence = er_sequence (last inserted), cp_boundaryAt = lg_lastEventAt (ac_state s'),
             cp_kind = (if appliedSession then RUN_START else PERIODIC), cp_state = ac_state s'\<rparr>]\<rparr>
         else s'\<lparr>ac_sinceCheckpoint := pendingCount\<rparr>)"

definition apply_in_transaction :: "nat \<Rightarrow> jsnum \<Rightarrow> (string \<times> string) option \<Rightarrow> account_store \<Rightarrow>
    ledger_event list \<Rightarrow> account_store result" where
  "apply_in_transaction interval age cause s es =
     bindR (runR (apply_row age cause) s es) (\<lambda>s'.
     if ac_state s' = ac_state s then Inr s
     else Inr (settle_checkpoint interval s (s'\<lparr>ac_state := trim_snapshot (ac_rows s') (ac_state s')\<rparr>)))"

text \<open>\<open>compact\<close>: keep the last events of the snapshot only.\<close>

definition compact :: "int \<Rightarrow> account_store \<Rightarrow> account_store result" where
  "compact retainEvents s =
     (if retainEvents < 0 \<or> 2 ^ 53 \<le> retainEvents
      then throw ''retainEvents must be a non-negative safe integer''
      else Inr (s\<lparr>ac_state := (ac_state s)\<lparr>lg_events := last_n (nat retainEvents) (lg_events (ac_state s))\<rparr>\<rparr>))"

section \<open>Replay\<close>

definition replay_start :: "ledger \<Rightarrow> string \<Rightarrow> jsnum result" where
  "replay_start initial instant = (let boundary = date_parse instant in
     if \<not> is_finite boundary then throw ''Invalid funded report time''
     else if boundary < date_parse (lg_lastEventAt initial)
     then throw ''Historical funded state precedes account creation''
     else Inr boundary)"

definition not_beyond :: "jsnum \<Rightarrow> ledger_event \<Rightarrow> bool" where
  "not_beyond boundary e \<longleftrightarrow> \<not> boundary < date_parse (ev_at e)"

definition replay_funded_ledger_at :: "ledger \<Rightarrow> ledger_event list \<Rightarrow> string \<Rightarrow> jsnum \<Rightarrow> ledger result" where
  "replay_funded_ledger_at initial es instant age =
     bindR (replay_start initial instant) (\<lambda>boundary.
       runR (\<lambda>l e. apply_ledger_event l e age) initial (takeWhile (not_beyond boundary) es))"

definition bounded_step :: "jsnum \<Rightarrow> ledger \<Rightarrow> ledger_event \<Rightarrow> ledger result" where
  "bounded_step age l e = bindR (apply_ledger_event l e age) (\<lambda>l'.
     if l' = l then Inr l
     else Inr (if snapshot_event_limit < length (lg_events l')
       then l'\<lparr>lg_events := last_n snapshot_event_limit (lg_events l')\<rparr> else l'))"

definition replay_funded_ledger_bounded :: "ledger \<Rightarrow> ledger_event list \<Rightarrow> string \<Rightarrow> jsnum \<Rightarrow> ledger result" where
  "replay_funded_ledger_bounded initial es instant age =
     bindR (replay_start initial instant) (\<lambda>boundary.
       runR (bounded_step age) initial (takeWhile (not_beyond boundary) es))"

section \<open>Reconstruction from a checkpoint\<close>

text \<open>
  \<open>reconstructFundedLedgerAt\<close> starts from the newest checkpoint at or before the boundary, of a
  completed run (rows of \<open>paper_funded_run_snapshot\<close>, written by another component, so an
  argument here) or of the account, and replays the later rows page by page. The database
  compares times as time stamps, here by their milliseconds.
\<close>

datatype failure_code = BUDGET_EXCEEDED | UNVERIFIED_ORDERING | CHECKPOINT_UNPROVEN
  | ACCOUNT_UNAVAILABLE | BOUNDARY_BEFORE_CREATION

datatype reconstruction_error = Unavailable failure_code | LedgerError js_error

record run_snapshot =
  rs_runId :: string
  rs_boundaryAt :: string
  rs_sequence :: "int option"
  rs_state :: ledger

record replay_anchor =
  an_runId :: "string option"
  an_boundaryAt :: string
  an_sequence :: int
  an_state :: ledger

record reconstruction =
  rc_ledger :: ledger
  rc_checkpoint :: "replay_anchor option"
  rc_replayed :: nat
  rc_pages :: nat

definition funded_replay_event_budget :: nat where
  "funded_replay_event_budget = 250000"

definition replay_page_size :: nat where
  "replay_page_size = 2000"

text \<open>\<open>ORDER BY ... DESC LIMIT 1\<close>, the order given by \<open>later\<close>\<close>

fun newest :: "('a \<Rightarrow> 'a \<Rightarrow> bool) \<Rightarrow> 'a list \<Rightarrow> 'a option" where
  "newest later [] = None"
| "newest later (x # xs) = (case newest later xs of
      None \<Rightarrow> Some x
    | Some y \<Rightarrow> if later y x then Some y else Some x)"

definition snapshot_candidate :: "run_snapshot list \<Rightarrow> jsnum \<Rightarrow> int \<Rightarrow> replay_anchor option" where
  "snapshot_candidate snapshots boundary bound = map_option
     (\<lambda>r. \<lparr>an_runId = Some (rs_runId r), an_boundaryAt = rs_boundaryAt r,
           an_sequence = the (rs_sequence r), an_state = rs_state r\<rparr>)
     (newest (\<lambda>r q. date_parse (rs_boundaryAt q) < date_parse (rs_boundaryAt r) \<or>
         js_eq (date_parse (rs_boundaryAt q)) (date_parse (rs_boundaryAt r)) \<and>
         the (rs_sequence q) < the (rs_sequence r))
       (filter (\<lambda>r. date_parse (rs_boundaryAt r) \<le> boundary \<and>
           (case rs_sequence r of None \<Rightarrow> False | Some n \<Rightarrow> n \<le> bound)) snapshots))"

definition checkpoint_candidate :: "ledger_checkpoint list \<Rightarrow> jsnum \<Rightarrow> int \<Rightarrow> replay_anchor option" where
  "checkpoint_candidate checkpoints boundary bound = map_option
     (\<lambda>c. \<lparr>an_runId = None, an_boundaryAt = cp_boundaryAt c, an_sequence = int (cp_sequence c),
           an_state = cp_state c\<rparr>)
     (newest (\<lambda>r q. cp_sequence q < cp_sequence r)
       (filter (\<lambda>c. date_parse (cp_boundaryAt c) \<le> boundary \<and> int (cp_sequence c) \<le> bound) checkpoints))"

definition iso_time_of :: "string \<Rightarrow> string result" where
  "iso_time_of value = to_iso_string (date_parse value)"

text \<open>The candidate with the greater sequence; of equal ones the run's snapshot.\<close>

definition choose_anchor :: "replay_anchor option \<Rightarrow> replay_anchor option \<Rightarrow> replay_anchor option" where
  "choose_anchor a b = (case (a, b) of
      (Some x, Some y) \<Rightarrow> Some (if an_sequence x < an_sequence y then y else x)
    | _ \<Rightarrow> or_else a b)"

definition invalid_cursor :: "replay_anchor option \<Rightarrow> bool" where
  "invalid_cursor a = (case a of None \<Rightarrow> False
    | Some x \<Rightarrow> an_sequence x < 1 \<or> 2 ^ 53 \<le> an_sequence x)"

text \<open>The pages of the rows still to be replayed, with the counts so far.\<close>

function replay_pages :: "nat \<Rightarrow> string \<Rightarrow> jsnum \<Rightarrow> event_row list \<Rightarrow> ledger \<Rightarrow> nat \<Rightarrow> nat \<Rightarrow>
    reconstruction_error + (ledger \<times> nat \<times> nat)" where
  "replay_pages budget instant age rows state seen pages =
     (if rows = [] then Inr (state, seen, pages)
      else (let page = take replay_page_size rows in
        if list_ex (\<lambda>r. \<not> er_verified r \<or> 2 ^ 53 \<le> int (er_sequence r)) page then Inl (Unavailable UNVERIFIED_ORDERING)
        else (case replay_funded_ledger_bounded state (map er_event page) instant age of
            Inl x \<Rightarrow> Inl (LedgerError x)
          | Inr state' \<Rightarrow>
              if budget < seen + length page then Inl (Unavailable BUDGET_EXCEEDED)
              else replay_pages budget instant age (drop replay_page_size rows) state'
                (seen + length page) (pages + 1))))"
  by pat_completeness auto

termination
  by (relation "measure (\<lambda>(b, i, a, rows, l, s, p). length rows)") (auto simp: replay_page_size_def)

declare replay_pages.simps [simp del]

definition rows_after :: "event_row list \<Rightarrow> int \<Rightarrow> jsnum \<Rightarrow> int \<Rightarrow> event_row list" where
  "rows_after rows anchor boundary bound =
     filter (\<lambda>r. anchor < int (er_sequence r) \<and> int (er_sequence r) \<le> bound \<and>
       date_parse (ev_at (er_event r)) \<le> boundary) rows"

definition reconstruct_funded_ledger_at :: "account_store option \<Rightarrow> run_snapshot list \<Rightarrow> string \<Rightarrow> nat \<Rightarrow>
    int \<Rightarrow> jsnum \<Rightarrow> reconstruction_error + reconstruction" where
  "reconstruct_funded_ledger_at account snapshots instant budget bound age =
     (let boundary = date_parse instant;
          checkpoints = (case account of None \<Rightarrow> [] | Some s \<Rightarrow> ac_checkpoints s);
          rows = (case account of None \<Rightarrow> [] | Some s \<Rightarrow> ac_rows s);
          snapshot = snapshot_candidate snapshots boundary bound;
          checkpoint = checkpoint_candidate checkpoints boundary bound;
          anchor = choose_anchor snapshot checkpoint in
      if \<not> is_finite boundary then Inl (LedgerError (JsError ''Invalid funded report time''))
      else if bound < 0 \<or> 2 ^ 53 \<le> bound
      then Inl (LedgerError (JsError ''Invalid funded reconstruction event bound''))
      else if invalid_cursor snapshot \<or> invalid_cursor checkpoint then Inl (Unavailable CHECKPOINT_UNPROVEN)
      else bindR (case anchor of
          Some a \<Rightarrow>
            if boundary < date_parse (lg_lastEventAt (an_state a)) \<or>
              iso_time_of (an_boundaryAt a) \<noteq> Inr (lg_lastEventAt (an_state a))
            then Inl (Unavailable CHECKPOINT_UNPROVEN) else Inr (an_state a, an_sequence a)
        | None \<Rightarrow> (case account of
            None \<Rightarrow> Inl (Unavailable ACCOUNT_UNAVAILABLE)
          | Some s \<Rightarrow> Inr (ac_initial s, 0))) (\<lambda>(initial, start).
        if boundary < date_parse (lg_lastEventAt initial) then Inl (Unavailable BOUNDARY_BEFORE_CREATION)
        else bindR (replay_pages budget instant age (rows_after rows start boundary bound) initial 0 0)
          (\<lambda>(state, seen, pages). Inr \<lparr>rc_ledger = state, rc_checkpoint = anchor, rc_replayed = seen,
             rc_pages = pages\<rparr>)))"

end
