(* ===== verification/LedgerStoreProperties.thy ===== *)
theory LedgerStoreProperties
  imports LedgerStore LedgerProperties
begin

text \<open>
  What the durable ledger store promises. The bounded cache of recent events in the snapshot
  makes no difference (\<open>cached\<close>): every transaction behaves as the ledger with its complete
  history, and a state rebuilt from a checkpoint is the state rebuilt from the beginning.
\<close>

section \<open>The cache of events does not matter\<close>

lemma event_field_simps:
  "lg_currency (l\<lparr>lg_events := es\<rparr>) = lg_currency l"
  "lg_cash (l\<lparr>lg_events := es\<rparr>) = lg_cash l"
  "lg_session (l\<lparr>lg_events := es\<rparr>) = lg_session l"
  "lg_openingEquity (l\<lparr>lg_events := es\<rparr>) = lg_openingEquity l"
  "lg_dailyLossLimit (l\<lparr>lg_events := es\<rparr>) = lg_dailyLossLimit l"
  "lg_realizedPnl (l\<lparr>lg_events := es\<rparr>) = lg_realizedPnl l"
  "lg_positions (l\<lparr>lg_events := es\<rparr>) = lg_positions l"
  "lg_reservations (l\<lparr>lg_events := es\<rparr>) = lg_reservations l"
  "lg_lastEventAt (l\<lparr>lg_events := es\<rparr>) = lg_lastEventAt l"
  by simp_all

lemma apply_action_events:
  "apply_action (l\<lparr>lg_events := es\<rparr>) w e = map_sum id (\<lambda>m. m\<lparr>lg_events := es\<rparr>) (apply_action l w e)"
proof (cases "ev_action e")
  case (Reserve orderId debit risk)
  then show ?thesis
    by (auto simp: apply_action_def apply_reserve_def bindR_def split: sum.splits)
next
  case (Release orderId)
  then show ?thesis by (simp add: apply_action_def apply_release_def)
next
  case (Buy orderId positionId instrumentId shares price fee stop)
  then show ?thesis
    by (auto simp: apply_action_def apply_buy_def bindR_def Let_def split: sum.splits option.splits)
next
  case (Sell positionId shares price fee)
  then show ?thesis
    by (auto simp: apply_action_def apply_sell_def bindR_def split: sum.splits option.splits)
next
  case (Mark instrumentId bid)
  then show ?thesis by (auto simp: apply_action_def apply_mark_def bindR_def split: sum.splits)
next
  case (Session session)
  then show ?thesis by (auto simp: apply_action_def apply_session_def)
qed

lemma summary_events: "funded_account_summary (l\<lparr>lg_events := es\<rparr>) instant age = funded_account_summary l instant age"
  by (simp only: funded_account_summary_def event_field_simps)

text \<open>A new event has the same effect, whatever older events the ledger remembers.\<close>

lemma apply_ledger_event_cache:
  assumes "ev_id e \<notin> ev_id ` set (lg_events l)" "ev_id e \<notin> ev_id ` set es"
  shows "apply_ledger_event (l\<lparr>lg_events := es\<rparr>) e age =
    map_sum id (\<lambda>m. m\<lparr>lg_events := es @ [e]\<rparr>) (apply_ledger_event l e age)"
proof -
  have f: "find (\<lambda>c. ev_id c = ev_id e) (lg_events l) = None" "find (\<lambda>c. ev_id c = ev_id e) es = None"
    using assms by (auto simp: find_None_iff image_iff)
  show ?thesis
    unfolding apply_ledger_event_def event_field_simps summary_events apply_action_events
    by (auto simp: f bindR_def split: sum.splits)
qed

definition cached :: "ledger \<Rightarrow> ledger \<Rightarrow> bool" where
  "cached l m \<longleftrightarrow> (\<exists>k \<le> length (lg_events m). l = m\<lparr>lg_events := drop k (lg_events m)\<rparr>)"

lemma cached_refl [simp]: "cached l l"
  unfolding cached_def by (rule exI [of _ 0]) simp

lemma cached_fields: "cached l m \<Longrightarrow> l\<lparr>lg_events := es\<rparr> = m\<lparr>lg_events := es\<rparr>"
  by (auto simp: cached_def)

lemma cached_lastEventAt: "cached l m \<Longrightarrow> lg_lastEventAt l = lg_lastEventAt m"
  by (auto simp: cached_def)

lemma cached_events: "cached l m \<Longrightarrow> set (lg_events l) \<subseteq> set (lg_events m)"
  by (auto simp: cached_def dest: in_set_dropD)

lemma cached_trim: "cached l m \<Longrightarrow> cached (l\<lparr>lg_events := last_n n (lg_events l)\<rparr>) m"
proof -
  assume "cached l m"
  then obtain k where k: "k \<le> length (lg_events m)" "l = m\<lparr>lg_events := drop k (lg_events m)\<rparr>"
    by (auto simp: cached_def)
  have "length (lg_events m) - k - n + k \<le> length (lg_events m)" using k(1) by simp
  then show ?thesis unfolding cached_def k(2) last_n_def by (intro exI conjI) (assumption, simp)
qed

lemma cached_new:
  assumes "cached l m" "ev_id e \<notin> ev_id ` set (lg_events m)"
  shows "rel_sum (=) cached (apply_ledger_event l e age) (apply_ledger_event m e age)"
proof -
  from assms(1) obtain k where k: "k \<le> length (lg_events m)" "l = m\<lparr>lg_events := drop k (lg_events m)\<rparr>"
    by (auto simp: cached_def)
  have "ev_id e \<notin> ev_id ` set (drop k (lg_events m))" using assms(2) by (auto dest: in_set_dropD)
  note eq = apply_ledger_event_cache [OF assms(2) this, of age]
  show ?thesis
  proof (cases "apply_ledger_event m e age")
    case (Inl x)
    then show ?thesis by (simp add: k(2) eq)
  next
    case (Inr m')
    with assms(2) have "lg_events m' = lg_events m @ [e]" by (auto elim: apply_ledger_eventE)
    with k(1) have "cached (m'\<lparr>lg_events := drop k (lg_events m) @ [e]\<rparr>) m'"
      unfolding cached_def by (intro exI [of _ k]) simp
    with Inr show ?thesis by (simp add: k(2) eq)
  qed
qed

text \<open>A run of new events, with any trimming between them.\<close>

definition fresh_events :: "ledger \<Rightarrow> ledger_event list \<Rightarrow> bool" where
  "fresh_events m es \<longleftrightarrow> distinct (map ev_id es) \<and> ev_id ` set es \<inter> ev_id ` set (lg_events m) = {}"

lemma fresh_event_log: "fresh_events m (e # es) \<Longrightarrow> apply_ledger_event m e age = Inr m' \<Longrightarrow>
    lg_events m' = lg_events m @ [e] \<and> fresh_events m' es"
  by (erule apply_ledger_eventE) (auto simp: fresh_events_def)

lemma fresh_run:
  assumes step: "\<And>l m e. R l m \<Longrightarrow> ev_id e \<notin> ev_id ` set (lg_events m) \<Longrightarrow>
      rel_sum (=) R (f l e) (apply_ledger_event m e age)"
  shows "R l m \<Longrightarrow> fresh_events m es \<Longrightarrow>
     rel_sum (=) R (runR f l es) (runR (\<lambda>l e. apply_ledger_event l e age) m es)"
proof (induction es arbitrary: l m)
  case (Cons e es)
  have "ev_id e \<notin> ev_id ` set (lg_events m)" using Cons.prems(2) by (auto simp: fresh_events_def)
  note e = step [OF Cons.prems(1) this]
  show ?case
  proof (cases "apply_ledger_event m e age")
    case (Inl x)
    with e show ?thesis by (cases "f l e") auto
  next
    case (Inr m')
    with e obtain l' where l': "f l e = Inr l'" "R l' m'" by (cases "f l e") auto
    show ?thesis using Cons.IH [OF l'(2)] fresh_event_log [OF Cons.prems(2) Inr] Inr l'(1) by simp
  qed
qed simp

lemma bounded_step_cached:
  assumes "cached l m" "ev_id e \<notin> ev_id ` set (lg_events m)"
  shows "rel_sum (=) cached (bounded_step age l e) (apply_ledger_event m e age)"
  using cached_new [OF assms, of age]
  by (cases "apply_ledger_event l e age"; cases "apply_ledger_event m e age")
    (auto simp: bounded_step_def cached_trim)

lemma bounded_run_cached: "cached l m \<Longrightarrow> fresh_events m es \<Longrightarrow>
    rel_sum (=) cached (runR (bounded_step age) l es) (runR (\<lambda>l e. apply_ledger_event l e age) m es)"
  by (rule fresh_run [where R = cached]) (auto intro: bounded_step_cached)

text \<open>The bounded replay remembers exactly the last events.\<close>

definition windowed :: "ledger \<Rightarrow> ledger \<Rightarrow> bool" where
  "windowed l m \<longleftrightarrow> l = m\<lparr>lg_events := last_n snapshot_event_limit (lg_events m)\<rparr>"

lemma last_n_short: "length xs \<le> n \<Longrightarrow> last_n n xs = xs"
  by (simp add: last_n_def)

lemma last_n_in: "x \<in> set (last_n n xs) \<Longrightarrow> x \<in> set xs"
  by (auto simp: last_n_def dest: in_set_dropD)

lemma last_n_snoc: "0 < n \<Longrightarrow> last_n n (last_n n xs @ [x]) = last_n n (xs @ [x])"
  by (cases "n \<le> length xs") (auto simp: last_n_def Suc_diff_le)

lemma bounded_step_windowed:
  assumes "windowed l m" "ev_id e \<notin> ev_id ` set (lg_events m)"
  shows "rel_sum (=) windowed (bounded_step age l e) (apply_ledger_event m e age)"
proof -
  let ?w = "last_n snapshot_event_limit (lg_events m)"
  have new: "ev_id e \<notin> ev_id ` set ?w" using assms(2) last_n_in by fastforce
  note eq = apply_ledger_event_cache [OF assms(2) new, of age]
  have l: "l = m\<lparr>lg_events := ?w\<rparr>" using assms(1) by (simp add: windowed_def)
  show ?thesis
  proof (cases "apply_ledger_event m e age")
    case (Inl x)
    then show ?thesis by (simp add: l eq bounded_step_def)
  next
    case (Inr m')
    with assms(2) have ev: "lg_events m' = lg_events m @ [e]" by (auto elim: apply_ledger_eventE)
    have "m'\<lparr>lg_events := ?w @ [e]\<rparr> \<noteq> l"
      using l by (metis append_self_conv ledger.select_convs(9) ledger.surjective
        ledger.update_convs(9) list.distinct(1))
    moreover have "last_n snapshot_event_limit (?w @ [e]) = last_n snapshot_event_limit (lg_events m')"
      using last_n_snoc [of snapshot_event_limit "lg_events m" e] by (simp add: snapshot_event_limit_def ev)
    moreover have "apply_ledger_event l e age = Inr (m'\<lparr>lg_events := ?w @ [e]\<rparr>)" using Inr eq by (simp add: l)
    ultimately show ?thesis
      by (auto simp: Inr bounded_step_def windowed_def last_n_short [of "last_n n xs @ [x]" for n xs x])
  qed
qed

lemma bounded_run_windowed: "windowed l m \<Longrightarrow> fresh_events m es \<Longrightarrow>
    rel_sum (=) windowed (runR (bounded_step age) l es) (runR (\<lambda>l e. apply_ledger_event l e age) m es)"
  by (rule fresh_run [where R = windowed]) (auto intro: bounded_step_windowed)

section \<open>Transactions\<close>

text \<open>The ledger with its complete history\<close>

definition full_ledger :: "account_store \<Rightarrow> ledger" where
  "full_ledger s = (ac_state s)\<lparr>lg_events := map er_event (ac_rows s)\<rparr>"

definition store_ok :: "account_store \<Rightarrow> bool" where
  "store_ok s \<longleftrightarrow> log_ok (full_ledger s) \<and> cached (ac_state s) (full_ledger s)"

lemma full_ledger_events [simp]: "lg_events (full_ledger s) = map er_event (ac_rows s)"
  by (simp add: full_ledger_def)

lemma find_row_None: "find_row i rows = None \<longleftrightarrow> i \<notin> ev_id ` set (map er_event rows)"
  by (auto simp: find_row_def find_None_iff image_iff)

lemma find_row_Some: "find_row i rows = Some r \<Longrightarrow> r \<in> set rows \<and> ev_id (er_event r) = i"
  by (auto simp: find_row_def find_Some_iff)

lemma find_row_row: "distinct (map (ev_id \<circ> er_event) rows) \<Longrightarrow> r \<in> set rows \<Longrightarrow>
    find_row (ev_id (er_event r)) rows = Some r"
  unfolding find_row_def using find_logged [of "ev_id \<circ> er_event" rows r] by simp

definition provenance_conflict :: js_error where
  "provenance_conflict = JsError ''Conflicting ledger event causal provenance''"

lemma apply_row_refines:
  assumes "store_ok s"
  shows "case apply_row age cause s e of
      Inr s' \<Rightarrow> apply_ledger_event (full_ledger s) e age = Inr (full_ledger s') \<and> store_ok s' \<and>
        (s' = s \<or> length (lg_events (ac_state s)) < length (lg_events (ac_state s')) \<and>
          ac_rows s' = ac_rows s @ [\<lparr>er_sequence = ac_nextSequence s, er_event = e, er_cause = cause, er_verified = True\<rparr>] \<and>
          ac_nextSequence s' = Suc (ac_nextSequence s)) \<and>
        ac_initial s' = ac_initial s \<and> ac_checkpoints s' = ac_checkpoints s \<and>
        ac_sinceCheckpoint s' = ac_sinceCheckpoint s
    | Inl x \<Rightarrow> x = provenance_conflict \<or> (\<exists>y. apply_ledger_event (full_ledger s) e age = Inl y)"
proof (cases "find_row (ev_id e) (ac_rows s)")
  case (Some row)
  note row = find_row_Some [OF Some]
  have id: "ev_id e \<in> ev_id ` set (lg_events (full_ledger s))"
    using row by (intro image_eqI [where x = "er_event row"]) auto
  show ?thesis
  proof (cases "er_event row = e")
    case True
    with row have "e \<in> set (lg_events (full_ledger s))" by auto
    with assms have "apply_ledger_event (full_ledger s) e age = Inr (full_ledger s)"
      using retried_event by (simp add: store_ok_def)
    with True Some assms show ?thesis by (simp add: apply_row_def provenance_conflict_def)
  next
    case False
    have "e \<notin> set (lg_events (full_ledger s))"
    proof
      assume "e \<in> set (lg_events (full_ledger s))"
      then obtain r where r: "r \<in> set (ac_rows s)" "er_event r = e" by auto
      have "distinct (map (ev_id \<circ> er_event) (ac_rows s))" using assms by (simp add: store_ok_def log_ok_def)
      from find_row_row [OF this r(1)] r(2) Some False show False by simp
    qed
    from conflicting_event [OF id this] have "\<exists>y. apply_ledger_event (full_ledger s) e age = Inl y"
      by (cases "apply_ledger_event (full_ledger s) e age") auto
    with False Some show ?thesis by (simp add: apply_row_def)
  qed
next
  case None
  then have new: "ev_id e \<notin> ev_id ` set (lg_events (full_ledger s))" by (simp add: find_row_None)
  have c: "cached (ac_state s) (full_ledger s)" using assms by (simp add: store_ok_def)
  note rel = cached_new [OF c new, of age]
  show ?thesis
  proof (cases "apply_ledger_event (ac_state s) e age")
    case (Inl x)
    with rel None show ?thesis by (cases "apply_ledger_event (full_ledger s) e age") (auto simp: apply_row_def)
  next
    case (Inr l)
    with rel obtain m where m: "apply_ledger_event (full_ledger s) e age = Inr m" "cached l m"
      by (cases "apply_ledger_event (full_ledger s) e age") auto
    have "ev_id e \<notin> ev_id ` set (lg_events (ac_state s))" using new cached_events [OF c] by blast
    with Inr have l: "lg_events l = lg_events (ac_state s) @ [e]" by (auto elim: apply_ledger_eventE)
    then have ne: "l \<noteq> ac_state s" by auto
    have mev: "lg_events m = map er_event (ac_rows s) @ [e]" using m(1) new by (auto elim: apply_ledger_eventE)
    have "l\<lparr>lg_events := lg_events m\<rparr> = m" using m(2) by (auto simp: cached_def)
    moreover have "log_ok m" using log_kept [OF _ m(1)] assms by (simp add: store_ok_def)
    ultimately show ?thesis
      using m l ne Inr None by (auto simp: apply_row_def store_ok_def full_ledger_def mev)
  qed
qed

text \<open>What the store knows of its history: every row is the next event of the account, in order.\<close>

definition checkpoint_proven :: "jsnum \<Rightarrow> account_store \<Rightarrow> int \<Rightarrow> string \<Rightarrow> ledger \<Rightarrow> bool" where
  "checkpoint_proven age s n instant state \<longleftrightarrow> (\<exists>k m. 1 \<le> k \<and> k \<le> length (ac_rows s) \<and>
     n = int (er_sequence (ac_rows s ! (k - 1))) \<and>
     apply_ledger_events (ac_initial s) (map er_event (take k (ac_rows s))) age = Inr m \<and>
     cached state m \<and> instant = lg_lastEventAt m)"

definition numbered :: "account_store \<Rightarrow> bool" where
  "numbered s \<longleftrightarrow> sorted_wrt (<) (map er_sequence (ac_rows s)) \<and> 1 \<le> ac_nextSequence s \<and>
     (\<forall>r \<in> set (ac_rows s). 1 \<le> er_sequence r \<and> er_sequence r < ac_nextSequence s \<and> er_verified r)"

definition store_history :: "jsnum \<Rightarrow> account_store \<Rightarrow> bool" where
  "store_history age s \<longleftrightarrow> store_ok s \<and> numbered s \<and> lg_events (ac_initial s) = [] \<and>
     apply_ledger_events (ac_initial s) (map er_event (ac_rows s)) age = Inr (full_ledger s) \<and>
     (\<forall>c \<in> set (ac_checkpoints s). checkpoint_proven age s (int (cp_sequence c)) (cp_boundaryAt c) (cp_state c))"

lemma checkpoint_proven_append:
  assumes "checkpoint_proven age s n instant state" "ac_rows s' = ac_rows s @ new" "ac_initial s' = ac_initial s"
  shows "checkpoint_proven age s' n instant state"
proof -
  from assms(1) obtain k m where "1 \<le> k" "k \<le> length (ac_rows s)"
    "n = int (er_sequence (ac_rows s ! (k - 1)))"
    "apply_ledger_events (ac_initial s) (map er_event (take k (ac_rows s))) age = Inr m"
    "cached state m" "instant = lg_lastEventAt m" by (auto simp: checkpoint_proven_def)
  then show ?thesis unfolding checkpoint_proven_def assms(2,3)
    by (intro exI [of _ k] exI [of _ m]) (auto simp: nth_append)
qed

lemma created_history: "create_account (create_funded_ledger cur cash session instant limit) = Inr s \<Longrightarrow>
    store_history age s"
  using log_created
  by (auto simp: create_account_def result_simps store_history_def store_ok_def full_ledger_def
      numbered_def apply_ledger_events_def create_funded_ledger_def log_ok_def split: if_splits)

lemma apply_row_history:
  assumes "store_history age s" "apply_row age cause s e = Inr s'"
  shows "store_history age s'"
proof -
  have ok: "store_ok s" using assms(1) by (simp add: store_history_def)
  note r = apply_row_refines [OF ok, where age = age and cause = cause and e = e, unfolded assms(2) sum.case]
  show ?thesis
  proof (cases "s' = s")
    case False
    with r have rows: "ac_rows s' = ac_rows s @ [\<lparr>er_sequence = ac_nextSequence s, er_event = e, er_cause = cause, er_verified = True\<rparr>]"
      and ini: "ac_initial s' = ac_initial s" by auto
    have "apply_ledger_events (ac_initial s') (map er_event (ac_rows s')) age = Inr (full_ledger s')"
      using assms(1) r by (simp add: rows ini store_history_def apply_ledger_events_def runR_append)
    moreover have "numbered s'"
      using assms(1) r False by (auto simp: store_history_def numbered_def sorted_wrt_append)
    ultimately show ?thesis
      using r assms(1) checkpoint_proven_append [OF _ rows ini] by (auto simp: store_history_def)
  qed (use assms(1) in simp)
qed

lemma rows_refine:
  assumes "store_ok s"
  shows "case runR (apply_row age cause) s es of
      Inr s' \<Rightarrow> apply_ledger_events (full_ledger s) es age = Inr (full_ledger s') \<and> store_ok s' \<and>
        (s' = s \<or> length (lg_events (ac_state s)) < length (lg_events (ac_state s')) \<and>
          (\<exists>new. new \<noteq> [] \<and> ac_rows s' = ac_rows s @ new)) \<and>
        ac_initial s' = ac_initial s \<and> ac_checkpoints s' = ac_checkpoints s \<and>
        ac_sinceCheckpoint s' = ac_sinceCheckpoint s
    | Inl x \<Rightarrow> x = provenance_conflict \<or> (\<exists>y. apply_ledger_events (full_ledger s) es age = Inl y)"
  using assms
proof (induction es arbitrary: s)
  case Nil
  then show ?case by (simp add: apply_ledger_events_def)
next
  case (Cons e es)
  note r = apply_row_refines [OF Cons.prems, where age = age and cause = cause and e = e]
  show ?case
  proof (cases "apply_row age cause s e")
    case (Inl x)
    with r show ?thesis by (auto simp: apply_ledger_events_def)
  next
    case (Inr m)
    note r = r [unfolded Inr sum.case]
    then have ok: "store_ok m" by simp
    show ?thesis
    proof (cases "runR (apply_row age cause) m es")
      case Inl': (Inl x)
      with Cons.IH [OF ok] r Inr show ?thesis by (auto simp: apply_ledger_events_def)
    next
      case Inr': (Inr s')
      note ih = Cons.IH [OF ok, unfolded Inr' sum.case]
      have "apply_ledger_events (full_ledger s) (e # es) age = Inr (full_ledger s')"
        using ih r by (simp add: apply_ledger_events_def)
      moreover have "s' = s \<or> length (lg_events (ac_state s)) < length (lg_events (ac_state s')) \<and>
          (\<exists>new. new \<noteq> [] \<and> ac_rows s' = ac_rows s @ new)"
        using ih r by auto
      ultimately show ?thesis using ih r by (simp add: Inr Inr')
    qed
  qed
qed

lemma rows_history:
  "store_history age s \<Longrightarrow> runR (apply_row age cause) s es = Inr s' \<Longrightarrow> store_history age s'"
  using apply_row_history by (rule runR_invariant [where I = "store_history age" and ok = "\<lambda>_ _. True"]) auto

section \<open>The checkpoint of a transaction\<close>

lemma cached_trim_snapshot: "cached l m \<Longrightarrow> cached (trim_snapshot rows l) m"
  by (simp add: trim_snapshot_def cached_trim)

lemma full_ledger_trim: "full_ledger (s\<lparr>ac_state := trim_snapshot rows (ac_state s)\<rparr>) = full_ledger s"
  by (simp add: full_ledger_def trim_snapshot_def)

lemma settle_fields:
  "ac_rows s' \<noteq> ac_rows s \<Longrightarrow> ac_rows s' = ac_rows s @ new \<Longrightarrow>
     ac_initial (settle_checkpoint interval s s') = ac_initial s' \<and>
     ac_state (settle_checkpoint interval s s') = ac_state s' \<and>
     ac_rows (settle_checkpoint interval s s') = ac_rows s' \<and>
     ac_nextSequence (settle_checkpoint interval s s') = ac_nextSequence s'"
  by (auto simp: settle_checkpoint_def Let_def)

lemma settle_checkpoints:
  assumes "ac_rows s' = ac_rows s @ new" "c \<in> set (ac_checkpoints (settle_checkpoint interval s s'))"
    "ac_checkpoints s' = ac_checkpoints s"
  shows "c \<in> set (ac_checkpoints s') \<or> new \<noteq> [] \<and> cp_sequence c = er_sequence (last (ac_rows s')) \<and>
     cp_boundaryAt c = lg_lastEventAt (ac_state s') \<and> cp_state c = ac_state s'"
  using assms by (auto simp: settle_checkpoint_def Let_def split: if_splits)

lemma trim_length:
  assumes "store_ok s"
  shows "length (lg_events (trim_snapshot (ac_rows s) (ac_state s))) \<le> snapshot_event_limit"
proof -
  have "cached (ac_state s) (full_ledger s)" and d: "distinct (map (ev_id \<circ> er_event) (ac_rows s))"
    using assms by (simp_all add: store_ok_def log_ok_def)
  then have "\<forall>e \<in> set (lg_events (ac_state s)). \<exists>r \<in> set (ac_rows s). er_event r = e"
    using cached_events by fastforce
  then have "map_option er_event (find_row (ev_id e) (ac_rows s)) = Some e"
    if "e \<in> set (lg_events (ac_state s))" for e
    using that find_row_row [OF d] by fastforce
  then have "\<forall>e \<in> set (all_but_last_n snapshot_event_limit (lg_events (ac_state s))).
      map_option er_event (find_row (ev_id e) (ac_rows s)) = Some e"
    by (auto simp: all_but_last_n_def dest: in_set_takeD)
  then show ?thesis by (auto simp: trim_snapshot_def last_n_def)
qed

text \<open>A transaction that returns has inserted its new rows and settled the snapshot, or nothing.\<close>

lemma apply_in_transactionE:
  assumes "store_ok s" "apply_in_transaction interval age cause s es = Inr s'"
  obtains "s' = s" "apply_ledger_events (full_ledger s) es age = Inr (full_ledger s)"
  | m new where "runR (apply_row age cause) s es = Inr m" "new \<noteq> []" "ac_rows m = ac_rows s @ new"
      "ac_checkpoints m = ac_checkpoints s" "store_ok m"
      "apply_ledger_events (full_ledger s) es age = Inr (full_ledger m)"
      "s' = settle_checkpoint interval s (m\<lparr>ac_state := trim_snapshot (ac_rows m) (ac_state m)\<rparr>)"
proof -
  from assms(2) obtain m where m: "runR (apply_row age cause) s es = Inr m"
    "s' = (if ac_state m = ac_state s then s
       else settle_checkpoint interval s (m\<lparr>ac_state := trim_snapshot (ac_rows m) (ac_state m)\<rparr>))"
    by (auto simp: apply_in_transaction_def bindR_eq_Inr split: if_splits)
  note r = rows_refine [OF assms(1), where age = age and cause = cause and es = es, unfolded m(1) sum.case]
  show ?thesis
  proof (cases "m = s")
    case True
    with m(2) r show ?thesis by (intro that(1)) auto
  next
    case False
    with r obtain new where "new \<noteq> []" "ac_rows m = ac_rows s @ new"
      "length (lg_events (ac_state s)) < length (lg_events (ac_state m))" by auto
    moreover from this m(2)
    have "s' = settle_checkpoint interval s (m\<lparr>ac_state := trim_snapshot (ac_rows m) (ac_state m)\<rparr>)" by auto
    ultimately show ?thesis using r by (intro that(2) [OF m(1)]) auto
  qed
qed

lemma settled_fields:
  assumes "ac_rows m = ac_rows s @ new" "new \<noteq> []"
    "s' = settle_checkpoint interval s (m\<lparr>ac_state := trim_snapshot (ac_rows m) (ac_state m)\<rparr>)"
  shows "ac_initial s' = ac_initial m \<and> ac_rows s' = ac_rows m \<and> ac_nextSequence s' = ac_nextSequence m \<and>
    ac_state s' = trim_snapshot (ac_rows m) (ac_state m) \<and> full_ledger s' = full_ledger m"
  using settle_fields [of "m\<lparr>ac_state := trim_snapshot (ac_rows m) (ac_state m)\<rparr>" s new interval] assms
  by (simp add: full_ledger_def trim_snapshot_def)

lemma settled_history:
  assumes "store_history age m" "ac_rows m = ac_rows s @ new" "new \<noteq> []" "ac_checkpoints m = ac_checkpoints s"
    "s' = settle_checkpoint interval s (m\<lparr>ac_state := trim_snapshot (ac_rows m) (ac_state m)\<rparr>)"
  shows "store_history age s'"
proof -
  note f = settled_fields [OF assms(2,3,5)]
  have c: "cached (ac_state s') (full_ledger m)"
    using f assms(1) cached_trim_snapshot by (simp add: store_history_def store_ok_def)
  have "checkpoint_proven age s' (int (cp_sequence c)) (cp_boundaryAt c) (cp_state c)"
    if "c \<in> set (ac_checkpoints s')" for c
  proof -
    have "c \<in> set (ac_checkpoints m) \<or> cp_sequence c = er_sequence (last (ac_rows m)) \<and>
        cp_boundaryAt c = lg_lastEventAt (ac_state s') \<and> cp_state c = ac_state s'"
      using settle_checkpoints [of "m\<lparr>ac_state := trim_snapshot (ac_rows m) (ac_state m)\<rparr>" s new c interval]
        assms(2,4,5) that f by auto
    then show ?thesis
    proof
      assume "c \<in> set (ac_checkpoints m)"
      then show ?thesis using assms(1) f checkpoint_proven_append [of age m _ _ _ s' "[]"]
        by (simp add: store_history_def)
    next
      assume c': "cp_sequence c = er_sequence (last (ac_rows m)) \<and>
        cp_boundaryAt c = lg_lastEventAt (ac_state s') \<and> cp_state c = ac_state s'"
      have "apply_ledger_events (ac_initial s') (map er_event (ac_rows s')) age = Inr (full_ledger m)"
        using assms(1) f by (simp add: store_history_def)
      then show ?thesis unfolding checkpoint_proven_def
        using c c' f assms(2,3) cached_lastEventAt [OF c]
        by (intro exI [of _ "length (ac_rows m)"] exI [of _ "full_ledger m"]) (auto simp: last_conv_nth Suc_le_eq)
    qed
  qed
  with c f assms(1) show ?thesis by (simp add: store_history_def store_ok_def numbered_def)
qed

section \<open>Reconstruction\<close>

lemma filter_takeWhile: "sorted_wrt (\<lambda>x y. P y \<longrightarrow> P x) xs \<Longrightarrow> filter P xs = takeWhile P xs"
  by (induction xs) (auto simp: filter_empty_conv)

lemma takeWhile_both: "takeWhile (\<lambda>x. P x \<and> Q x) xs = takeWhile Q (takeWhile P xs)"
  by (induction xs) auto

text \<open>The pages are the bounded replay of all the rows at once.\<close>

definition replayable :: "jsnum \<Rightarrow> event_row list \<Rightarrow> bool" where
  "replayable boundary rows \<longleftrightarrow> (\<forall>r \<in> set rows. date_parse (ev_at (er_event r)) \<le> boundary \<and>
     er_verified r \<and> int (er_sequence r) < 2 ^ 53)"

lemma js_le_not_less: "a \<le> b \<Longrightarrow> \<not> b < (a :: jsnum)"
  using js_le_less_trans by fastforce

lemma replayable_takeWhile: "replayable boundary rows \<Longrightarrow>
    takeWhile (not_beyond boundary) (map er_event rows) = map er_event rows"
  by (auto simp: takeWhile_eq_all_conv replayable_def not_beyond_def dest: js_le_not_less)

lemma bounded_last_time:
  assumes "runR (bounded_step age) l es = Inr l'" "\<forall>e \<in> set es. date_parse (ev_at e) \<le> b"
    "date_parse (lg_lastEventAt l) \<le> b"
  shows "date_parse (lg_lastEventAt l') \<le> b"
  using assms
proof (induction es arbitrary: l)
  case (Cons e es)
  then obtain m where m: "bounded_step age l e = Inr m" "runR (bounded_step age) m es = Inr l'"
    by (auto simp: bindR_eq_Inr)
  have "lg_lastEventAt m = lg_lastEventAt l \<or> lg_lastEventAt m = ev_at e"
    using m(1) by (auto simp: bounded_step_def bindR_eq_Inr elim!: apply_ledger_eventE split: if_splits)
  with Cons.prems have "date_parse (lg_lastEventAt m) \<le> b" by auto
  with Cons.IH [OF m(2)] Cons.prems(2) show ?case by simp
qed simp

lemma replay_pages_run:
  assumes "replayable boundary rows" "date_parse instant = boundary" "is_finite boundary"
    "date_parse (lg_lastEventAt state) \<le> boundary" "seen + length rows \<le> budget"
    "runR (bounded_step age) state (map er_event rows) = Inr l"
  shows "\<exists>n. replay_pages budget instant age rows state seen pages = Inr (l, seen + length rows, n)"
  using assms
proof (induction budget instant age rows state seen pages rule: replay_pages.induct)
  case (1 budget instant age rows state seen pages)
  show ?case
  proof (cases "rows = []")
    case True
    with "1.prems" show ?thesis by (simp add: replay_pages.simps)
  next
    case False
    let ?page = "take replay_page_size rows" and ?rest = "drop replay_page_size rows"
    have split: "map er_event rows = map er_event ?page @ map er_event ?rest" by (simp flip: map_append)
    from "1.prems"(6) obtain m where m: "runR (bounded_step age) state (map er_event ?page) = Inr m"
      "runR (bounded_step age) m (map er_event ?rest) = Inr l"
      unfolding split runR_append by (auto simp: bindR_eq_Inr)
    have rp: "replayable boundary ?page" "replayable boundary ?rest"
      using "1.prems"(1) by (auto simp: replayable_def dest: in_set_takeD in_set_dropD)
    have start: "\<not> boundary < date_parse (lg_lastEventAt state)"
      using "1.prems"(4) by (rule js_le_not_less)
    have page: "replay_funded_ledger_bounded state (map er_event ?page) instant age = Inr m"
      unfolding replay_funded_ledger_bounded_def "1.prems"(2) replay_start_def Let_def
      using "1.prems"(3) start m(1) by simp (simp only: replayable_takeWhile [OF rp(1)])
    have ver: "\<not> list_ex (\<lambda>r. \<not> er_verified r \<or> 2 ^ 53 \<le> int (er_sequence r)) ?page"
      using rp(1) by (auto simp: replayable_def list_ex_iff not_le)
    have m': "date_parse (lg_lastEventAt m) \<le> boundary"
      using bounded_last_time [OF m(1) _ "1.prems"(4)] rp(1) by (auto simp: replayable_def)
    have bud: "\<not> budget < seen + length ?page" using "1.prems"(5) by simp
    have len: "seen + length ?page + length ?rest = seen + length rows" by (simp add: min_def)
    have "\<exists>n. replay_pages budget instant age ?rest m (seen + length ?page) (pages + 1) =
        Inr (l, seen + length rows, n)"
      unfolding len [symmetric]
      by (rule "1.IH" [OF False refl ver page bud rp(2) "1.prems"(2,3) m' _ m(2)])
        (use "1.prems"(5) in simp)
    then show ?thesis using False ver page bud by (subst replay_pages.simps) (simp add: Let_def)
  qed
qed

text \<open>The rows that count at a boundary are a prefix of the history.\<close>

definition counted :: "jsnum \<Rightarrow> int \<Rightarrow> event_row \<Rightarrow> bool" where
  "counted boundary bound r \<longleftrightarrow> int (er_sequence r) \<le> bound \<and> date_parse (ev_at (er_event r)) \<le> boundary"

lemma history_sorted:
  assumes "store_history age s"
  shows "log_sorted (full_ledger s)"
proof -
  have "log_sorted (ac_initial s)" using assms by (simp add: store_history_def log_sorted_def)
  moreover have run: "runR (\<lambda>l e. apply_ledger_event l e age) (ac_initial s) (map er_event (ac_rows s)) =
      Inr (full_ledger s)"
    using assms by (simp add: store_history_def apply_ledger_events_def)
  ultimately show ?thesis
    using runR_invariant [where I = log_sorted and ok = "\<lambda>_ _. True", OF _ _ _ run] event_log_sorted by blast
qed

lemma counted_sorted:
  assumes "store_history age s"
  shows "sorted_wrt (\<lambda>q r. counted boundary bound r \<longrightarrow> counted boundary bound q) (ac_rows s)"
proof -
  have "sorted_wrt (\<lambda>q r. date_parse (ev_at (er_event q)) \<le> date_parse (ev_at (er_event r))) (ac_rows s)"
    using history_sorted [OF assms] by (simp add: log_sorted_def sorted_wrt_map)
  moreover have "sorted_wrt (\<lambda>q r. er_sequence q < er_sequence r) (ac_rows s)"
    using assms by (simp add: store_history_def numbered_def sorted_wrt_map)
  ultimately have "sorted_wrt (\<lambda>q r. date_parse (ev_at (er_event q)) \<le> date_parse (ev_at (er_event r)) \<and>
      er_sequence q < er_sequence r) (ac_rows s)"
    by (simp add: sorted_wrt_iff_nth_less)
  then show ?thesis
    by (rule sorted_wrt_mono_rel [rotated]) (auto simp: counted_def intro: js_le_trans)
qed

lemma history_not_beyond:
  assumes "store_history age s" "r \<in> set (ac_rows s)" "is_finite boundary"
  shows "not_beyond boundary (er_event r) \<longleftrightarrow> date_parse (ev_at (er_event r)) \<le> boundary"
proof -
  have "date_parse (ev_at (er_event r)) \<le> date_parse (lg_lastEventAt (full_ledger s))"
    using history_sorted [OF assms(1)] assms(2) by (simp add: log_sorted_def)
  then have "date_parse (ev_at (er_event r)) \<noteq> NaN" by auto
  then show ?thesis unfolding not_beyond_def using assms(3) by (intro js_not_less) auto
qed

lemma history_prefix:
  assumes "store_history age s"
  obtains m where "apply_ledger_events (ac_initial s) (map er_event (take k (ac_rows s))) age = Inr m"
proof -
  have split: "map er_event (ac_rows s) = map er_event (take k (ac_rows s)) @ map er_event (drop k (ac_rows s))"
    by (simp flip: map_append)
  have "apply_ledger_events (ac_initial s) (map er_event (ac_rows s)) age = Inr (full_ledger s)"
    using assms by (simp add: store_history_def)
  then show ?thesis
    unfolding split apply_ledger_events_def runR_append bindR_eq_Inr by (elim exE conjE) (rule that, simp add: apply_ledger_events_def)
qed

lemma replay_of_counted:
  assumes "store_history age s" "is_finite (date_parse instant)"
    "\<not> date_parse instant < date_parse (lg_lastEventAt (ac_initial s))"
  shows "replay_funded_ledger_at (ac_initial s)
      (map er_event (filter (\<lambda>r. int (er_sequence r) \<le> bound) (ac_rows s))) instant age =
    apply_ledger_events (ac_initial s) (map er_event (takeWhile (counted (date_parse instant) bound) (ac_rows s))) age"
proof -
  let ?b = "date_parse instant" and ?P = "\<lambda>r. int (er_sequence r) \<le> bound"
  have "sorted_wrt (\<lambda>q r. ?P r \<longrightarrow> ?P q) (ac_rows s)"
    using assms(1) unfolding store_history_def numbered_def sorted_wrt_map
    by (elim conjE sorted_wrt_mono_rel [rotated]) simp
  then have f: "filter ?P (ac_rows s) = takeWhile ?P (ac_rows s)" by (rule filter_takeWhile)
  have "takeWhile (not_beyond ?b) (map er_event (takeWhile ?P (ac_rows s))) =
      map er_event (takeWhile (\<lambda>r. not_beyond ?b (er_event r)) (takeWhile ?P (ac_rows s)))"
    by (simp add: takeWhile_map comp_def)
  also have "takeWhile (\<lambda>r. not_beyond ?b (er_event r)) (takeWhile ?P (ac_rows s)) =
      takeWhile (\<lambda>r. date_parse (ev_at (er_event r)) \<le> ?b) (takeWhile ?P (ac_rows s))"
    using history_not_beyond [OF assms(1) _ assms(2)]
    by (intro takeWhile_cong refl) (auto dest: set_takeWhileD)
  also have "\<dots> = takeWhile (counted ?b bound) (ac_rows s)"
    unfolding takeWhile_both [symmetric] counted_def ..
  finally show ?thesis
    unfolding f apply_ledger_events_def replay_funded_ledger_at_def replay_start_def Let_def
    using assms(2,3) by simp
qed

lemma history_distinct: "store_history age s \<Longrightarrow> distinct (map ev_id (map er_event (ac_rows s)))"
  by (simp add: store_history_def store_ok_def log_ok_def)

lemma apply_events_log:
  "lg_events l = [] \<Longrightarrow> apply_ledger_events l es age = Inr m \<Longrightarrow> set (lg_events m) \<subseteq> set es"
proof -
  assume l: "lg_events l = []" and m: "apply_ledger_events l es age = Inr m"
  have "log_ok l" using l by (simp add: log_ok_def)
  from ledger_log.run_log [OF this m [unfolded apply_ledger_events_def]] l show ?thesis by auto
qed

text \<open>Replay from a proven state \<open>k\<close> events into the history\<close>

lemma reconstruct_from:
  assumes h: "store_history age s" and b: "is_finite (date_parse instant)"
    and small: "\<forall>r \<in> set (ac_rows s). int (er_sequence r) < 2 ^ 53" and budget: "length (ac_rows s) \<le> budget"
    and m: "apply_ledger_events (ac_initial s) (map er_event (take k (ac_rows s))) age = Inr m" "cached state m"
    and k: "k \<le> length (takeWhile (counted (date_parse instant) bound) (ac_rows s))"
    and start: "\<And>i. i < length (ac_rows s) \<Longrightarrow> start < int (er_sequence (ac_rows s ! i)) \<longleftrightarrow> k \<le> i"
    and before: "date_parse (lg_lastEventAt m) \<le> date_parse instant"
  shows "\<exists>l x n M. replay_pages budget instant age (rows_after (ac_rows s) start (date_parse instant) bound) state 0 0 =
      Inr (l, x, n) \<and> cached l M \<and>
      apply_ledger_events (ac_initial s) (map er_event (takeWhile (counted (date_parse instant) bound) (ac_rows s))) age = Inr M"
proof -
  let ?b = "date_parse instant" and ?xs = "ac_rows s"
  let ?ys = "takeWhile (counted ?b bound) ?xs"
  define N where "N = length ?ys"
  have ys: "?ys = take N ?xs" unfolding N_def by (rule takeWhile_eq_take)
  have f: "filter (counted ?b bound) ?xs = ?ys" by (rule filter_takeWhile [OF counted_sorted [OF h]])
  have "rows_after ?xs start ?b bound = filter (\<lambda>r. start < int (er_sequence r)) ?ys"
    unfolding f [symmetric] rows_after_def filter_filter counted_def by (rule filter_cong) auto
  also have "\<dots> = drop k ?ys"
  proof -
    have 1: "\<forall>r \<in> set (take k ?ys). \<not> start < int (er_sequence r)"
      using start k by (auto simp: in_set_conv_nth ys)
    have 2: "\<forall>r \<in> set (drop k ?ys). start < int (er_sequence r)"
      using start k by (auto simp: in_set_conv_nth ys)
    have "filter (\<lambda>r. start < int (er_sequence r)) (take k ?ys @ drop k ?ys) = drop k ?ys"
      unfolding filter_append using 1 2 by (simp add: filter_False)
    then show ?thesis by simp
  qed
  finally have rows: "rows_after ?xs start ?b bound = drop k ?ys" .
  have tk: "take k ?ys = take k ?xs" using k by (simp add: ys N_def [symmetric] min_absorb1)
  have split: "map er_event ?ys = map er_event (take k ?xs) @ map er_event (drop k ?ys)"
    unfolding tk [symmetric] by (simp flip: map_append)
  obtain M where M: "apply_ledger_events (ac_initial s) (map er_event ?ys) age = Inr M"
    using history_prefix [OF h, of N] unfolding ys by blast
  then have run: "runR (\<lambda>l e. apply_ledger_event l e age) m (map er_event (drop k ?ys)) = Inr M"
    using m(1) unfolding split apply_ledger_events_def runR_append by simp
  have "distinct (map ev_id (map er_event ?ys))"
    using history_distinct [OF h] unfolding ys by (simp add: take_map [symmetric] distinct_take)
  moreover have "set (lg_events m) \<subseteq> set (map er_event (take k ?xs))"
    using h by (intro apply_events_log [OF _ m(1)]) (simp add: store_history_def)
  ultimately have "fresh_events m (map er_event (drop k ?ys))"
    unfolding split fresh_events_def by (auto simp: image_iff)
  from bounded_run_cached [OF m(2) this, of age, unfolded run]
  obtain l where l: "runR (bounded_step age) state (map er_event (drop k ?ys)) = Inr l" "cached l M"
    by (cases "runR (bounded_step age) state (map er_event (drop k ?ys))") auto
  have "r \<in> set ?xs \<and> counted ?b bound r" if "r \<in> set (drop k ?ys)" for r
    using that by (auto dest: in_set_dropD set_takeWhileD)
  then have "replayable ?b (drop k ?ys)"
    using h small by (auto simp: replayable_def counted_def store_history_def numbered_def)
  moreover have "0 + length (drop k ?ys) \<le> budget"
    using budget length_takeWhile_le [of "counted ?b bound" ?xs] by simp
  moreover have "date_parse (lg_lastEventAt state) \<le> ?b" using before cached_lastEventAt [OF m(2)] by simp
  ultimately obtain n where "replay_pages budget instant age (drop k ?ys) state 0 0 = Inr (l, 0 + length (drop k ?ys), n)"
    using replay_pages_run [OF _ refl b _ _ l(1)] by blast
  with l(2) M show ?thesis unfolding rows by blast
qed

text \<open>The chosen checkpoint\<close>

lemma newest_in: "newest later xs = Some x \<Longrightarrow> x \<in> set xs"
  by (induction xs arbitrary: x) (auto split: option.splits if_splits)

definition anchor_ok :: "jsnum \<Rightarrow> account_store \<Rightarrow> jsnum \<Rightarrow> int \<Rightarrow> replay_anchor \<Rightarrow> bool" where
  "anchor_ok age s boundary bound a \<longleftrightarrow> checkpoint_proven age s (an_sequence a) (an_boundaryAt a) (an_state a) \<and>
     an_sequence a \<le> bound \<and> date_parse (an_boundaryAt a) \<le> boundary"

lemma checkpoint_candidate_ok: "store_history age s \<Longrightarrow>
    checkpoint_candidate (ac_checkpoints s) boundary bound = Some a \<Longrightarrow> anchor_ok age s boundary bound a"
  by (auto simp: checkpoint_candidate_def store_history_def anchor_ok_def dest!: newest_in)

definition snapshots_proven :: "jsnum \<Rightarrow> account_store \<Rightarrow> run_snapshot list \<Rightarrow> bool" where
  "snapshots_proven age s snapshots \<longleftrightarrow> (\<forall>r \<in> set snapshots. \<forall>n. rs_sequence r = Some n \<longrightarrow>
     checkpoint_proven age s n (rs_boundaryAt r) (rs_state r))"

lemma snapshot_candidate_ok: "snapshots_proven age s snapshots \<Longrightarrow>
    snapshot_candidate snapshots boundary bound = Some a \<Longrightarrow> anchor_ok age s boundary bound a"
  by (auto simp: snapshot_candidate_def snapshots_proven_def anchor_ok_def dest!: newest_in split: option.splits)

lemma choose_anchor_ok:
  "choose_anchor x y = Some a \<Longrightarrow> (\<And>a. x = Some a \<Longrightarrow> P a) \<Longrightarrow> (\<And>a. y = Some a \<Longrightarrow> P a) \<Longrightarrow> P a"
  by (auto simp: choose_anchor_def split: option.splits if_splits)

lemma anchor_cursor: "store_history age s \<Longrightarrow> \<forall>r \<in> set (ac_rows s). int (er_sequence r) < 2 ^ 53 \<Longrightarrow>
    (\<And>a. x = Some a \<Longrightarrow> anchor_ok age s boundary bound a) \<Longrightarrow> \<not> invalid_cursor x"
proof (cases x)
  case (Some a)
  assume h: "store_history age s" "\<forall>r \<in> set (ac_rows s). int (er_sequence r) < 2 ^ 53"
    and "\<And>a. x = Some a \<Longrightarrow> anchor_ok age s boundary bound a"
  from this(3) [OF Some] obtain k where "1 \<le> k" "k \<le> length (ac_rows s)"
    "an_sequence a = int (er_sequence (ac_rows s ! (k - 1)))"
    by (auto simp: anchor_ok_def checkpoint_proven_def)
  then have "\<exists>r \<in> set (ac_rows s). an_sequence a = int (er_sequence r)"
    by (intro bexI [of _ "ac_rows s ! (k - 1)"]) auto
  with h Some show ?thesis by (auto simp: invalid_cursor_def store_history_def numbered_def)
qed (simp add: invalid_cursor_def)

lemma last_event_time:
  assumes "lg_events l = []" "apply_ledger_events l es age = Inr m" "distinct (map ev_id es)" "es \<noteq> []"
  shows "lg_lastEventAt m = ev_at (last es)"
proof -
  have es: "es = butlast es @ [last es]" using assms(4) by simp
  from assms(2) obtain p where p: "runR (\<lambda>l e. apply_ledger_event l e age) l (butlast es) = Inr p"
    "apply_ledger_event p (last es) age = Inr m"
    unfolding apply_ledger_events_def by (subst (asm) es) (auto simp: runR_append bindR_eq_Inr)
  have "set (lg_events p) \<subseteq> set (butlast es)"
    using apply_events_log [OF assms(1)] p(1) by (simp add: apply_ledger_events_def)
  moreover have "distinct (butlast es @ [last es])" using assms(3) unfolding es [symmetric] by (simp add: distinct_map)
  then have "last es \<notin> set (butlast es)" by simp
  ultimately have "last es \<notin> set (lg_events p)" by blast
  then show ?thesis using p(2) by (auto elim: apply_ledger_eventE)
qed

lemma anchor_start:
  assumes h: "store_history age s" and a: "anchor_ok age s boundary bound a"
  obtains k m where "apply_ledger_events (ac_initial s) (map er_event (take k (ac_rows s))) age = Inr m"
    "cached (an_state a) m" "an_boundaryAt a = lg_lastEventAt m" "date_parse (lg_lastEventAt m) \<le> boundary"
    "k \<le> length (takeWhile (counted boundary bound) (ac_rows s))"
    "\<And>i. i < length (ac_rows s) \<Longrightarrow> an_sequence a < int (er_sequence (ac_rows s ! i)) \<longleftrightarrow> k \<le> i"
    "\<exists>r \<in> set (ac_rows s). an_boundaryAt a = ev_at (er_event r)"
proof -
  let ?xs = "ac_rows s"
  from a obtain k m where k: "1 \<le> k" "k \<le> length ?xs" "an_sequence a = int (er_sequence (?xs ! (k - 1)))"
    "apply_ledger_events (ac_initial s) (map er_event (take k ?xs)) age = Inr m"
    "cached (an_state a) m" "an_boundaryAt a = lg_lastEventAt m"
    by (auto simp: anchor_ok_def checkpoint_proven_def)
  have "distinct (map ev_id (map er_event (take k ?xs)))"
    using history_distinct [OF h] by (simp add: take_map [symmetric] distinct_take)
  then have "lg_lastEventAt m = ev_at (last (map er_event (take k ?xs)))"
    using h k(1,2) by (intro last_event_time [OF _ k(4)]) (auto simp: store_history_def)
  moreover have ne: "take k ?xs \<noteq> []" using k(1,2) by auto
  ultimately have time: "lg_lastEventAt m = ev_at (er_event (?xs ! (k - 1)))"
    using k(1,2) by (simp add: last_map [OF ne] last_conv_nth [OF ne] min_absorb2)
  have before: "date_parse (lg_lastEventAt m) \<le> boundary" using a k(6) by (simp add: anchor_ok_def)
  have c: "counted boundary bound (?xs ! (k - 1))"
    using a k(3) before time by (simp add: counted_def anchor_ok_def)
  have mono: "counted boundary bound (?xs ! j) \<Longrightarrow> counted boundary bound (?xs ! i)"
    if "i < j" "j < length ?xs" for i j
    using counted_sorted [OF h, of boundary bound] that by (simp add: sorted_wrt_iff_nth_less)
  have "counted boundary bound (?xs ! i)" if "i < k" for i
    using mono [of i "k - 1"] c k(1,2) that by (cases "i = k - 1") auto
  then have "\<forall>r \<in> set (take k ?xs). counted boundary bound r" by (auto simp: in_set_conv_nth)
  then have "takeWhile (counted boundary bound) (take k ?xs @ drop k ?xs) =
      take k ?xs @ takeWhile (counted boundary bound) (drop k ?xs)"
    by (intro takeWhile_append2) blast
  then have len: "k \<le> length (takeWhile (counted boundary bound) ?xs)" using k(2) by simp
  have sorted: "er_sequence (?xs ! i) < er_sequence (?xs ! j)" if "i < j" "j < length ?xs" for i j
    using h that by (simp add: store_history_def numbered_def sorted_wrt_iff_nth_less)
  have lt: "k - 1 < length ?xs" using k(1,2) by simp
  have "an_sequence a < int (er_sequence (?xs ! i)) \<longleftrightarrow> k \<le> i" if "i < length ?xs" for i
    using lt sorted [of "k - 1" i] sorted [of i "k - 1"] k(1,2,3) that
    by (cases "i = k - 1"; cases "i < k - 1") auto
  moreover have "\<exists>r \<in> set ?xs. an_boundaryAt a = ev_at (er_event r)"
    using k(1,2,6) time by (intro bexI [of _ "?xs ! (k - 1)"]) auto
  ultimately show ?thesis using k(4,5,6) before len by (intro that [of k m]) auto
qed

section \<open>A sample account\<close>

definition sample_store :: account_store where
  "sample_store = \<lparr>ac_initial = sample_start, ac_state = sample_start, ac_rows = [], ac_nextSequence = 1,
     ac_sinceCheckpoint = 0, ac_checkpoints = []\<rparr>"

definition sample_committed :: account_store where
  "sample_committed = (case apply_in_transaction 2 (num 30000) None sample_store (take 2 sample_events) of
     Inr s \<Rightarrow> s | Inl _ \<Rightarrow> sample_store)"

lemma sample_store_history: "store_history age sample_store"
proof (rule created_history)
  show "create_account (create_funded_ledger LCAD (num 10000) ''2026-09-04'' (sample_time ''14:29:00'') (num 500)) =
      Inr sample_store"
    unfolding create_account_def sample_created_ledger [unfolded sample_ledger_def] by (simp add: sample_store_def)
qed

lemma sample_committed:
  "apply_in_transaction 2 (num 30000) None sample_store (take 2 sample_events) = Inr sample_committed"
proof -
  have "\<not> isl (apply_in_transaction 2 (num 30000) None sample_store (take 2 sample_events))" by code_simp
  then show ?thesis by (auto simp: sample_committed_def split: sum.splits)
qed

lemma committed_history:
  assumes "store_history age s" "apply_in_transaction interval age cause s es = Inr s'"
  shows "store_history age s'"
proof -
  have "store_ok s" using assms(1) by (simp add: store_history_def)
  then show ?thesis
    using assms(2) by (rule apply_in_transactionE) (use assms(1) rows_history settled_history in \<open>blast+\<close>)
qed

lemma sample_committed_history: "store_history (num 30000) sample_committed"
  by (rule committed_history [OF sample_store_history sample_committed])

section \<open>The store is the ledger\<close>

text \<open>
  C29: The durable store refines the ledger with unbounded history. From a store whose rows are
  the account's history, a transaction that commits leaves such a store, and its ledger with
  the complete history is the one obtained by applying the events one by one to the ledger
  before, although the snapshot keeps at most the last 256 events (or what it had). A transaction that is rolled
  back is one of which the ledger refuses an event, or in which the cause of a retried event
  conflicts with the recorded one.
\<close>

theorem store_refines_ledger:
  assumes "store_history age s"
  shows "case apply_in_transaction interval age cause s es of
      Inr s' \<Rightarrow> store_history age s' \<and> apply_ledger_events (full_ledger s) es age = Inr (full_ledger s') \<and>
        length (lg_events (ac_state s')) \<le> max snapshot_event_limit (length (lg_events (ac_state s)))
    | Inl x \<Rightarrow> x = provenance_conflict \<or> (\<exists>y. apply_ledger_events (full_ledger s) es age = Inl y)"
proof (cases "apply_in_transaction interval age cause s es")
  case (Inl x)
  then have "runR (apply_row age cause) s es = Inl x"
    by (auto simp: apply_in_transaction_def bindR_eq_Inl split: if_splits)
  with rows_refine [of s, where age = age and cause = cause and es = es] assms Inl show ?thesis by (simp add: store_history_def)
next
  case (Inr s')
  have ok: "store_ok s" using assms by (simp add: store_history_def)
  show ?thesis unfolding Inr sum.case
  proof (rule apply_in_transactionE [OF ok Inr])
    fix m new assume ok': "store_ok m"
      and m: "runR (apply_row age cause) s es = Inr m" "new \<noteq> []" "ac_rows m = ac_rows s @ new"
      "ac_checkpoints m = ac_checkpoints s" "apply_ledger_events (full_ledger s) es age = Inr (full_ledger m)"
      "s' = settle_checkpoint interval s (m\<lparr>ac_state := trim_snapshot (ac_rows m) (ac_state m)\<rparr>)"
    from settled_history [OF rows_history [OF assms m(1)] m(3,2,4,6)] settled_fields [OF m(3,2,6)] m(5)
      trim_length [OF ok']
    show "store_history age s' \<and> apply_ledger_events (full_ledger s) es age = Inr (full_ledger s') \<and>
        length (lg_events (ac_state s')) \<le> max snapshot_event_limit (length (lg_events (ac_state s)))" by simp
  qed (use assms in simp)
qed

lemma store_refines_ledger_witness:
  "store_history (num 30000) sample_committed \<and>
   apply_ledger_events (full_ledger sample_store) (take 2 sample_events) (num 30000) = Inr (full_ledger sample_committed)"
  using store_refines_ledger [OF sample_store_history, where age = "num 30000" and interval = 2 and cause = None and es = "take 2 sample_events"]
  unfolding sample_committed sum.case by blast

text \<open>
  The bounded replay has the same economics as the complete one. For events with
  identities of their own, replaying with the history cut to its last 256 events after every
  event fails exactly when the complete replay does, with the same error, and otherwise gives
  the same ledger with the last 256 events of its history.
\<close>

theorem bounded_replay_equivalent:
  assumes "distinct (map ev_id es)" "ev_id ` set es \<inter> ev_id ` set (lg_events initial) = {}"
    "length (lg_events initial) \<le> snapshot_event_limit"
  shows "replay_funded_ledger_bounded initial es instant age =
    map_sum id (\<lambda>l. l\<lparr>lg_events := last_n snapshot_event_limit (lg_events l)\<rparr>)
      (replay_funded_ledger_at initial es instant age)"
proof (cases "replay_start initial instant")
  case (Inr boundary)
  let ?es = "takeWhile (not_beyond boundary) es"
  have "fresh_events initial ?es"
    using assms(1,2) set_takeWhileD [of _ "not_beyond boundary" es]
    by (auto simp: fresh_events_def distinct_map inj_on_def)
  moreover have "windowed initial initial" using assms(3) by (simp add: windowed_def last_n_short)
  ultimately have "rel_sum (=) windowed (runR (bounded_step age) initial ?es)
      (runR (\<lambda>l e. apply_ledger_event l e age) initial ?es)"
    by (intro bounded_run_windowed)
  then show ?thesis
    by (auto simp: replay_funded_ledger_bounded_def replay_funded_ledger_at_def Inr windowed_def elim!: rel_sum.cases)
qed (simp add: replay_funded_ledger_bounded_def replay_funded_ledger_at_def)

lemma bounded_replay_equivalent_witness:
  "replay_funded_ledger_bounded sample_start (take 2 sample_events) (sample_time ''18:00:00'') (num 30000) =
   map_sum id (\<lambda>l. l\<lparr>lg_events := last_n snapshot_event_limit (lg_events l)\<rparr>)
     (replay_funded_ledger_at sample_start (take 2 sample_events) (sample_time ''18:00:00'') (num 30000))"
  by (rule bounded_replay_equivalent) code_simp+

text \<open>
  C30: A state rebuilt from a checkpoint is the state rebuilt from the beginning. For a store
  whose rows are the account's history (and run snapshots that are states of that history), a
  time not before the creation of the account and an event bound, within the event budget the
  reconstruction always succeeds, and its ledger is the one replayed from the immutable initial
  state over the rows up to the bound, except that it may remember fewer old events.
\<close>

theorem reconstruction_exact:
  assumes "store_history age s" "snapshots_proven age s snapshots"
    "\<forall>r \<in> set (ac_rows s). int (er_sequence r) < 2 ^ 53 \<and> iso_time_of (ev_at (er_event r)) = Inr (ev_at (er_event r))"
    "length (ac_rows s) \<le> budget" "0 \<le> bound" "bound < 2 ^ 53" "is_finite (date_parse instant)"
    "\<not> date_parse instant < date_parse (lg_lastEventAt (ac_initial s))"
    "date_parse (lg_lastEventAt (ac_initial s)) \<noteq> NaN"
  shows "\<exists>r l. reconstruct_funded_ledger_at (Some s) snapshots instant budget bound age = Inr r \<and>
     replay_funded_ledger_at (ac_initial s)
       (map er_event (filter (\<lambda>r. int (er_sequence r) \<le> bound) (ac_rows s))) instant age = Inr l \<and>
     cached (rc_ledger r) l"
proof -
  let ?b = "date_parse instant" and ?xs = "ac_rows s"
  let ?snapshot = "snapshot_candidate snapshots ?b bound" and ?checkpoint = "checkpoint_candidate (ac_checkpoints s) ?b bound"
  have small: "\<forall>r \<in> set ?xs. int (er_sequence r) < 2 ^ 53" using assms(3) by blast
  note ok = snapshot_candidate_ok [OF assms(2)] checkpoint_candidate_ok [OF assms(1)]
  have valid: "\<not> invalid_cursor ?snapshot" "\<not> invalid_cursor ?checkpoint"
    using anchor_cursor [OF assms(1) small] ok by blast+
  note core = reconstruct_from [OF assms(1,7) small assms(4)]
  note replay = replay_of_counted [OF assms(1,7,8), of bound]
  show ?thesis
  proof (cases "choose_anchor ?snapshot ?checkpoint")
    case None
    have "date_parse (lg_lastEventAt (ac_initial s)) \<le> ?b"
      using assms(7,8,9) by (subst js_not_less [symmetric]) auto
    moreover have "0 < int (er_sequence (?xs ! i)) \<longleftrightarrow> 0 \<le> i" if "i < length ?xs" for i
      using assms(1) nth_mem [OF that] by (force simp: store_history_def numbered_def)
    ultimately obtain l x n M where "replay_pages budget instant age (rows_after ?xs 0 ?b bound) (ac_initial s) 0 0 =
        Inr (l, x, n)" "cached l M"
      "apply_ledger_events (ac_initial s) (map er_event (takeWhile (counted ?b bound) ?xs)) age = Inr M"
      using core [where k = 0 and m = "ac_initial s" and state = "ac_initial s" and start = 0 and bound = bound]
      by (auto simp: apply_ledger_events_def)
    then show ?thesis
      using None valid assms(5-8) by (simp add: reconstruct_funded_ledger_at_def Let_def replay)
  next
    case (Some a)
    have a: "anchor_ok age s ?b bound a" by (rule choose_anchor_ok [OF Some]) (use ok in blast)+
    obtain k m where k: "apply_ledger_events (ac_initial s) (map er_event (take k ?xs)) age = Inr m"
      "cached (an_state a) m" "an_boundaryAt a = lg_lastEventAt m" "date_parse (lg_lastEventAt m) \<le> ?b"
      "k \<le> length (takeWhile (counted ?b bound) ?xs)"
      "\<And>i. i < length ?xs \<Longrightarrow> an_sequence a < int (er_sequence (?xs ! i)) \<longleftrightarrow> k \<le> i"
      "\<exists>r \<in> set ?xs. an_boundaryAt a = ev_at (er_event r)"
      by (rule anchor_start [OF assms(1) a]) blast
    obtain l x n M where "replay_pages budget instant age (rows_after ?xs (an_sequence a) ?b bound) (an_state a) 0 0 =
        Inr (l, x, n)" "cached l M"
      "apply_ledger_events (ac_initial s) (map er_event (takeWhile (counted ?b bound) ?xs)) age = Inr M"
      using core [OF k(1,2,5,6,4)] by blast
    moreover have "iso_time_of (an_boundaryAt a) = Inr (lg_lastEventAt (an_state a))"
      using k(3,7) assms(3) cached_lastEventAt [OF k(2)] by auto
    moreover have "\<not> ?b < date_parse (lg_lastEventAt (an_state a))"
      using js_le_not_less [OF k(4)] cached_lastEventAt [OF k(2)] by simp
    ultimately show ?thesis
      using Some valid assms(5-7) by (simp add: reconstruct_funded_ledger_at_def Let_def replay)
  qed
qed

lemma reconstruction_exact_witness:
  "ac_checkpoints sample_committed \<noteq> [] \<and>
   (\<exists>r l. reconstruct_funded_ledger_at (Some sample_committed) [] (sample_time ''18:00:00'') 100 50 (num 30000) = Inr r \<and>
     replay_funded_ledger_at (ac_initial sample_committed)
       (map er_event (filter (\<lambda>r. int (er_sequence r) \<le> 50) (ac_rows sample_committed)))
       (sample_time ''18:00:00'') (num 30000) = Inr l \<and>
     cached (rc_ledger r) l)"
proof
  show "ac_checkpoints sample_committed \<noteq> []" by code_simp
  show "\<exists>r l. reconstruct_funded_ledger_at (Some sample_committed) [] (sample_time ''18:00:00'') 100 50 (num 30000) = Inr r \<and>
     replay_funded_ledger_at (ac_initial sample_committed)
       (map er_event (filter (\<lambda>r. int (er_sequence r) \<le> 50) (ac_rows sample_committed)))
       (sample_time ''18:00:00'') (num 30000) = Inr l \<and>
     cached (rc_ledger r) l"
    by (rule reconstruction_exact [OF sample_committed_history]) (simp add: snapshots_proven_def, code_simp+)
qed

end
