(* ===== verification/RequestBudget.thy ===== *)
theory RequestBudget
  imports Prelude
begin

text \<open>
  The request budget of the broker connection (\<open>questrade/request-budget.ts\<close>): rolling windows
  over the grants already given. Times are the integers of \<open>Date.prototype.getTime\<close> (at most
  \<open>8.64 * 10 ^ 15\<close> in absolute value, so sums with the window lengths are exact); the \<open>-Infinity\<close>
  of \<open>lastMs\<close> and \<open>lastDiscoveryMs\<close> is \<open>None\<close>.
\<close>

section \<open>The decision\<close>

record broker_budget =
  bb_second :: int
  bb_hour :: int
  bb_spacingMs :: int
  bb_discoveryHour :: int
  bb_discoverySpacingMs :: int
  bb_monitoringReserveHour :: int
  bb_discoveryQueue :: int
  bb_discoveryExpiryMs :: int

definition BROKER_BUDGET :: broker_budget where
  "BROKER_BUDGET = \<lparr>bb_second = 20, bb_hour = 15000, bb_spacingMs = 50, bb_discoveryHour = 1800,
     bb_discoverySpacingMs = 1000, bb_monitoringReserveHour = 6000, bb_discoveryQueue = 500,
     bb_discoveryExpiryMs = 120000\<rparr>"

record budget_usage =
  us_second :: int
  us_hour :: int
  us_discoveryHour :: int
  us_oldestSecondMs :: int
  us_oldestHourMs :: int
  us_oldestDiscoveryMs :: int
  us_lastMs :: "int option"
  us_lastDiscoveryMs :: "int option"
  us_blockedUntilMs :: int

record budget_decision =
  bd_granted :: bool
  bd_retryAfterMs :: int
  bd_remainingHour :: int
  bd_remainingDiscoveryHour :: int

text \<open>\<open>Math.max(next, last + spacing)\<close> where \<open>last\<close> may be \<open>-Infinity\<close>\<close>

definition max_after :: "int option \<Rightarrow> int \<Rightarrow> int \<Rightarrow> int" where
  "max_after latest spacing next = (case latest of None \<Rightarrow> next | Some t \<Rightarrow> max next (t + spacing))"

definition next_grant :: "int \<Rightarrow> bool \<Rightarrow> budget_usage \<Rightarrow> int" where
  "next_grant now discovery usage =
     (let next1 = max_after (us_lastMs usage) (bb_spacingMs BROKER_BUDGET) (max now (us_blockedUntilMs usage));
          next2 = (if bb_second BROKER_BUDGET \<le> us_second usage
            then max next1 (us_oldestSecondMs usage + 1000) else next1);
          next3 = (if bb_hour BROKER_BUDGET \<le> us_hour usage
            then max next2 (us_oldestHourMs usage + 3600000) else next2)
      in if \<not> discovery then next3
         else (let next4 = max_after (us_lastDiscoveryMs usage) (bb_discoverySpacingMs BROKER_BUDGET) next3;
                   next5 = (if bb_discoveryHour BROKER_BUDGET \<le> us_discoveryHour usage
                     then max next4 (us_oldestDiscoveryMs usage + 3600000) else next4)
               in if bb_hour BROKER_BUDGET - bb_monitoringReserveHour BROKER_BUDGET \<le> us_hour usage
                  then max next5 (us_oldestHourMs usage + 3600000) else next5))"

definition decide_budget :: "int \<Rightarrow> bool \<Rightarrow> budget_usage \<Rightarrow> budget_decision" where
  "decide_budget now discovery usage = (let next = next_grant now discovery usage in
     \<lparr>bd_granted = (next \<le> now), bd_retryAfterMs = max 0 (next - now),
      bd_remainingHour = max 0 (bb_hour BROKER_BUDGET - us_hour usage - (if next \<le> now then 1 else 0)),
      bd_remainingDiscoveryHour = max 0 (min
        (bb_discoveryHour BROKER_BUDGET - us_discoveryHour usage - (if next \<le> now \<and> discovery then 1 else 0))
        (bb_hour BROKER_BUDGET - bb_monitoringReserveHour BROKER_BUDGET - us_hour usage -
          (if next \<le> now then 1 else 0)))\<rparr>)"

section \<open>The in-memory budget\<close>

record grant =
  gr_at :: int
  gr_discovery :: bool

record memory_budget =
  mb_grants :: "grant list"
  mb_blockedUntilMs :: int

definition new_memory_budget :: memory_budget where
  "new_memory_budget = \<lparr>mb_grants = [], mb_blockedUntilMs = 0\<rparr>"

definition since :: "int \<Rightarrow> grant list \<Rightarrow> grant list" where
  "since t gs = filter (\<lambda>g. t < gr_at g) gs"

definition first_at :: "grant list \<Rightarrow> int" where
  "first_at gs = (case gs of [] \<Rightarrow> 0 | g # _ \<Rightarrow> gr_at g)"

definition last_at :: "grant list \<Rightarrow> int option" where
  "last_at gs = (if gs = [] then None else Some (gr_at (last gs)))"

definition usage_of :: "int \<Rightarrow> grant list \<Rightarrow> int \<Rightarrow> budget_usage" where
  "usage_of now gs blockedUntil =
     (let second = since (now - 1000) gs; low = filter gr_discovery gs in
      \<lparr>us_second = int (length second), us_hour = int (length gs), us_discoveryHour = int (length low),
       us_oldestSecondMs = first_at second, us_oldestHourMs = first_at gs,
       us_oldestDiscoveryMs = first_at low, us_lastMs = last_at gs, us_lastDiscoveryMs = last_at low,
       us_blockedUntilMs = blockedUntil\<rparr>)"

definition acquire :: "int \<Rightarrow> bool \<Rightarrow> memory_budget \<Rightarrow> memory_budget \<times> budget_decision" where
  "acquire now discovery b =
     (let gs = since (now - 3600000) (mb_grants b);
          decision = decide_budget now discovery (usage_of now gs (mb_blockedUntilMs b)) in
      (b\<lparr>mb_grants := (if bd_granted decision
         then gs @ [\<lparr>gr_at = now, gr_discovery = discovery\<rparr>] else gs)\<rparr>, decision))"

definition block :: "int \<Rightarrow> memory_budget \<Rightarrow> memory_budget" where
  "block until b = b\<lparr>mb_blockedUntilMs := max (mb_blockedUntilMs b) until\<rparr>"

end
