(* ===== verification/BudgetProperties.thy ===== *)
theory BudgetProperties
  imports RequestBudget
begin

text \<open>
  What the request budget promises: over any sequence of calls with a clock that does not run
  backwards, the grants respect every rolling window and spacing, and a refused monitoring
  request is told exactly when it will be granted.
\<close>

section \<open>Sequences of calls\<close>

datatype budget_call = Acquire int bool | Block int

text \<open>The state and the record of all grants given, in order.\<close>

definition budget_step :: "memory_budget \<times> grant list \<Rightarrow> budget_call \<Rightarrow> memory_budget \<times> grant list" where
  "budget_step s c = (case c of
      Acquire now discovery \<Rightarrow> (let (b, d) = acquire now discovery (fst s) in
        (b, if bd_granted d then snd s @ [\<lparr>gr_at = now, gr_discovery = discovery\<rparr>] else snd s))
    | Block until \<Rightarrow> (block until (fst s), snd s))"

definition run_budget :: "budget_call list \<Rightarrow> memory_budget \<times> grant list" where
  "run_budget cs = foldl budget_step (new_memory_budget, []) cs"

fun call_time :: "budget_call \<Rightarrow> int option" where
  "call_time (Acquire now discovery) = Some now"
| "call_time (Block until) = None"

definition clock_sorted :: "budget_call list \<Rightarrow> bool" where
  "clock_sorted cs \<longleftrightarrow> sorted (List.map_filter call_time cs)"

section \<open>Windows\<close>

definition in_window :: "int \<Rightarrow> int \<Rightarrow> grant list \<Rightarrow> grant list" where
  "in_window t w gs = filter (\<lambda>g. t < gr_at g \<and> gr_at g \<le> t + w) gs"

text \<open>At most \<open>k\<close> grants in every window of length \<open>w\<close>\<close>

definition window_bound :: "int \<Rightarrow> int \<Rightarrow> grant list \<Rightarrow> bool" where
  "window_bound w k gs \<longleftrightarrow> (\<forall>t. int (length (in_window t w gs)) \<le> k)"

definition spaced :: "int \<Rightarrow> grant list \<Rightarrow> bool" where
  "spaced d gs \<longleftrightarrow> sorted_wrt (\<lambda>g h. gr_at g + d \<le> gr_at h) gs"

lemma in_window_append: "in_window t w (gs @ hs) = in_window t w gs @ in_window t w hs"
  by (simp add: in_window_def)

lemma window_bound_snoc:
  assumes "window_bound w k gs" "\<forall>g \<in> set gs. gr_at g \<le> gr_at h" "int (length (since (gr_at h - w) gs)) < k"
  shows "window_bound w k (gs @ [h])"
  unfolding window_bound_def
proof
  fix t
  show "int (length (in_window t w (gs @ [h]))) \<le> k"
  proof (cases "t < gr_at h \<and> gr_at h \<le> t + w")
    case True
    have "length (in_window t w gs) \<le> length (since (gr_at h - w) gs)"
      unfolding in_window_def since_def length_filter_conv_card using True assms(2)
      by (intro card_mono) (auto simp: nth_mem)
    with assms(3) True show ?thesis by (simp add: in_window_append in_window_def)
  next
    case False
    with assms(1) show ?thesis by (auto simp: in_window_append in_window_def window_bound_def)
  qed
qed

lemma since_since: "s \<le> t \<Longrightarrow> since t (since s gs) = since t gs"
  by (auto simp: since_def intro!: filter_cong)

lemma since_append: "since t (gs @ hs) = since t gs @ since t hs"
  by (simp add: since_def)

lemma since_filter: "since t (filter P gs) = filter P (since t gs)"
  by (auto simp: since_def intro!: filter_cong)

lemma last_at_sorted: "sorted (map gr_at gs) \<Longrightarrow> last_at gs = Some t \<Longrightarrow> g \<in> set gs \<Longrightarrow> gr_at g \<le> t"
  by (induction gs rule: rev_induct) (auto simp: last_at_def sorted_append)

lemma spaced_snoc:
  "spaced d gs \<Longrightarrow> (\<And>g. g \<in> set gs \<Longrightarrow> gr_at g + d \<le> gr_at h) \<Longrightarrow> spaced d (gs @ [h])"
  by (auto simp: spaced_def sorted_wrt_append)

section \<open>What a decision means\<close>

lemma first_since: "since t gs \<noteq> [] \<Longrightarrow> t < first_at (since t gs)"
proof -
  assume "since t gs \<noteq> []"
  then have "hd (since t gs) \<in> set (since t gs)" by simp
  then show ?thesis using \<open>since t gs \<noteq> []\<close> by (cases "since t gs") (auto simp: first_at_def since_def)
qed

lemma first_in_hour: "gs \<noteq> [] \<Longrightarrow> \<forall>g \<in> set gs. t < gr_at g \<Longrightarrow> t < first_at gs"
  by (cases gs) (auto simp: first_at_def)

definition may_grant :: "int \<Rightarrow> bool \<Rightarrow> grant list \<Rightarrow> int \<Rightarrow> bool" where
  "may_grant now discovery gs blockedUntil \<longleftrightarrow> blockedUntil \<le> now \<and>
     (\<forall>t. last_at gs = Some t \<longrightarrow> t + 50 \<le> now) \<and> length (since (now - 1000) gs) < 20 \<and> length gs < 15000 \<and>
     (discovery \<longrightarrow> (\<forall>t. last_at (filter gr_discovery gs) = Some t \<longrightarrow> t + 1000 \<le> now) \<and>
        length (filter gr_discovery gs) < 1800 \<and> length gs < 9000)"

lemma max_after_le: "max_after l d n \<le> now \<longleftrightarrow> n \<le> now \<and> (\<forall>t. l = Some t \<longrightarrow> t + d \<le> now)"
  by (cases l) (auto simp: max_after_def)

lemma next_grant_le:
  "next_grant now discovery u \<le> n \<longleftrightarrow> now \<le> n \<and> us_blockedUntilMs u \<le> n \<and>
     (\<forall>t. us_lastMs u = Some t \<longrightarrow> t + 50 \<le> n) \<and> (20 \<le> us_second u \<longrightarrow> us_oldestSecondMs u + 1000 \<le> n) \<and>
     (15000 \<le> us_hour u \<longrightarrow> us_oldestHourMs u + 3600000 \<le> n) \<and>
     (discovery \<longrightarrow> (\<forall>t. us_lastDiscoveryMs u = Some t \<longrightarrow> t + 1000 \<le> n) \<and>
        (1800 \<le> us_discoveryHour u \<longrightarrow> us_oldestDiscoveryMs u + 3600000 \<le> n) \<and>
        (9000 \<le> us_hour u \<longrightarrow> us_oldestHourMs u + 3600000 \<le> n))"
  by (auto simp: next_grant_def Let_def BROKER_BUDGET_def max_after_le)

lemma granted_iff:
  assumes "\<forall>g \<in> set gs. now - 3600000 < gr_at g"
  shows "bd_granted (decide_budget now discovery (usage_of now gs blocked)) \<longleftrightarrow> may_grant now discovery gs blocked"
proof -
  let ?low = "filter gr_discovery gs" and ?second = "since (now - 1000) gs"
  have second: "(20 \<le> length ?second \<longrightarrow> first_at ?second + 1000 \<le> now) \<longleftrightarrow> length ?second < 20"
    using first_since [of "now - 1000" gs] by force
  have hour: "(n \<le> length hs \<longrightarrow> first_at hs + 3600000 \<le> now) \<longleftrightarrow> length hs < n"
    if "set hs \<subseteq> set gs" "0 < n" for n and hs :: "grant list"
  proof -
    have "\<forall>g \<in> set hs. now - 3600000 < gr_at g" using assms that(1) by blast
    then show ?thesis using first_in_hour [of hs "now - 3600000"] that(2) by fastforce
  qed
  have "set ?low \<subseteq> set gs" by auto
  then show ?thesis
    by (simp add: decide_budget_def Let_def usage_of_def next_grant_le second hour may_grant_def)
qed

text \<open>A sorted list of at most \<open>k\<close> grants has \<open>k\<close> of them after \<open>t\<close> only if its first one is.\<close>

lemma since_full:
  assumes "sorted (map gr_at gs)" "length gs \<le> k" "0 < k"
  shows "length (since t gs) < k \<longleftrightarrow> (k \<le> length gs \<longrightarrow> first_at gs \<le> t)"
proof (cases gs)
  case Nil
  then show ?thesis using assms(3) by (simp add: since_def)
next
  case (Cons g hs)
  show ?thesis
  proof (cases "t < gr_at g")
    case True
    then have "since t gs = gs" using assms(1) Cons by (force simp: since_def filter_id_conv)
    with True Cons assms(2) show ?thesis by (auto simp: first_at_def)
  next
    case False
    then have "length (since t gs) \<le> length hs" using Cons by (simp add: since_def)
    with False Cons assms(2) show ?thesis by (simp add: first_at_def)
  qed
qed

lemma since_sorted: "sorted (map gr_at gs) \<Longrightarrow> sorted (map gr_at (since t gs))"
  unfolding since_def by (rule sorted_filter)

lemma last_since:
  assumes "sorted (map gr_at gs)" "d \<le> w"
  shows "(\<forall>t. last_at (since (now - w) gs) = Some t \<longrightarrow> t + d \<le> now) \<longleftrightarrow> (\<forall>t. last_at gs = Some t \<longrightarrow> t + d \<le> now)"
proof (cases gs rule: rev_cases)
  case Nil
  then show ?thesis by (simp add: since_def)
next
  case (snoc hs h)
  show ?thesis
  proof (cases "now - w < gr_at h")
    case True
    then have "last_at (since (now - w) gs) = last_at gs" using snoc by (simp add: since_def last_at_def)
    then show ?thesis by simp
  next
    case False
    then have "since (now - w) gs = []" using snoc assms(1) by (force simp: since_def sorted_append filter_empty_conv)
    with False snoc assms(2) show ?thesis by (simp add: last_at_def)
  qed
qed

section \<open>The invariant\<close>

definition reserve_kept :: "grant list \<Rightarrow> bool" where
  "reserve_kept gs \<longleftrightarrow> (\<forall>p g q. gs = p @ g # q \<longrightarrow> gr_discovery g \<longrightarrow>
     length (since (gr_at g - 3600000) p) < 9000)"

definition grants_ok :: "grant list \<Rightarrow> bool" where
  "grants_ok gs \<longleftrightarrow> spaced 50 gs \<and> window_bound 1000 20 gs \<and> window_bound 3600000 15000 gs \<and>
     spaced 1000 (filter gr_discovery gs) \<and> window_bound 3600000 1800 (filter gr_discovery gs) \<and> reserve_kept gs"

definition budget_inv :: "memory_budget \<times> grant list \<Rightarrow> int \<Rightarrow> bool" where
  "budget_inv s time \<longleftrightarrow> grants_ok (snd s) \<and> (\<forall>g \<in> set (snd s). gr_at g \<le> time) \<and>
     (\<forall>now \<ge> time. since (now - 3600000) (mb_grants (fst s)) = since (now - 3600000) (snd s))"

lemma spaced_sorted: "spaced d gs \<Longrightarrow> 0 \<le> d \<Longrightarrow> sorted (map gr_at gs)"
  unfolding spaced_def sorted_map by (erule sorted_wrt_mono_rel [rotated]) auto

lemma reserve_kept_snoc: "reserve_kept gs \<Longrightarrow> (gr_discovery h \<Longrightarrow> length (since (gr_at h - 3600000) gs) < 9000) \<Longrightarrow>
    reserve_kept (gs @ [h])"
  unfolding reserve_kept_def
proof (intro allI impI)
  fix p g q
  assume kept: "\<forall>p g q. gs = p @ g # q \<longrightarrow> gr_discovery g \<longrightarrow> length (since (gr_at g - 3600000) p) < 9000"
    and h: "gr_discovery h \<Longrightarrow> length (since (gr_at h - 3600000) gs) < 9000"
    and eq: "gs @ [h] = p @ g # q" and g: "gr_discovery g"
  show "length (since (gr_at g - 3600000) p) < 9000"
  proof (cases q rule: rev_cases)
    case Nil
    with eq h g show ?thesis by simp
  next
    case (snoc r x)
    with eq have "gs = p @ g # r" by simp
    with kept g show ?thesis by blast
  qed
qed

lemma grant_kept:
  assumes ok: "grants_ok gs" and past: "\<forall>g \<in> set gs. gr_at g \<le> now"
    and may: "may_grant now discovery (since (now - 3600000) gs) blocked"
  shows "grants_ok (gs @ [\<lparr>gr_at = now, gr_discovery = discovery\<rparr>])"
proof -
  let ?h = "\<lparr>gr_at = now, gr_discovery = discovery\<rparr>" and ?low = "filter gr_discovery gs"
  have sorted: "sorted (map gr_at gs)" "sorted (map gr_at ?low)"
    using ok spaced_sorted [of 50 gs] spaced_sorted [of 1000 ?low] by (auto simp: grants_ok_def)
  have latest: "\<forall>t. last_at gs = Some t \<longrightarrow> t + 50 \<le> now"
    "discovery \<Longrightarrow> \<forall>t. last_at ?low = Some t \<longrightarrow> t + 1000 \<le> now"
    using may last_since [OF sorted(1), of 50 3600000 now] last_since [OF sorted(2), of 1000 3600000 now]
    by (simp_all add: may_grant_def since_filter)
  have gap: "gr_at g + d \<le> now" if "g \<in> set hs" "sorted (map gr_at hs)" "\<forall>t. last_at hs = Some t \<longrightarrow> t + d \<le> now"
    for g d and hs :: "grant list"
  proof -
    have "last_at hs = Some (gr_at (last hs))" using that(1) by (auto simp: last_at_def)
    with last_at_sorted [OF that(2) this that(1)] that(3) show ?thesis by auto
  qed
  have "spaced 50 (gs @ [?h])" using ok gap [OF _ sorted(1) latest(1)] by (intro spaced_snoc) (auto simp: grants_ok_def)
  moreover have "window_bound 1000 20 (gs @ [?h])"
    using ok past may since_since [of "now - 3600000" "now - 1000" gs]
    by (intro window_bound_snoc) (auto simp: grants_ok_def may_grant_def)
  moreover have "window_bound 3600000 15000 (gs @ [?h])"
    using ok past may by (intro window_bound_snoc) (auto simp: grants_ok_def may_grant_def)
  moreover have "spaced 1000 (filter gr_discovery (gs @ [?h]))"
    using ok gap [OF _ sorted(2) latest(2)] by (auto simp: grants_ok_def intro!: spaced_snoc)
  moreover have "window_bound 3600000 1800 (filter gr_discovery (gs @ [?h]))"
    using ok past may by (auto simp: grants_ok_def may_grant_def since_filter intro!: window_bound_snoc)
  moreover have "reserve_kept (gs @ [?h])"
    using ok may by (intro reserve_kept_snoc) (auto simp: grants_ok_def may_grant_def)
  ultimately show ?thesis by (simp add: grants_ok_def)
qed

lemma since_in: "g \<in> set (since t gs) \<Longrightarrow> t < gr_at g \<and> g \<in> set gs"
  by (simp add: since_def)

lemma acquire_inv:
  assumes "budget_inv s time" "time \<le> now"
  shows "budget_inv (budget_step s (Acquire now discovery)) now"
proof -
  obtain b gs where s: "s = (b, gs)" by (cases s)
  have pruned: "since (now - 3600000) (mb_grants b) = since (now - 3600000) gs"
    using assms by (simp add: s budget_inv_def)
  have past: "\<forall>g \<in> set gs. gr_at g \<le> now" using assms by (force simp: s budget_inv_def)
  have ok: "grants_ok gs" using assms(1) by (simp add: s budget_inv_def)
  have iff: "bd_granted (snd (acquire now discovery b)) \<longleftrightarrow>
      may_grant now discovery (since (now - 3600000) gs) (mb_blockedUntilMs b)"
    unfolding acquire_def Let_def snd_conv pruned by (rule granted_iff) (auto dest: since_in)
  have keep: "since (later - 3600000) (since (now - 3600000) gs) = since (later - 3600000) gs" if "now \<le> later" for later
    using that by (intro since_since) simp
  show ?thesis
  proof (cases "bd_granted (snd (acquire now discovery b))")
    case True
    let ?h = "\<lparr>gr_at = now, gr_discovery = discovery\<rparr>"
    have "budget_step s (Acquire now discovery) =
        (b\<lparr>mb_grants := since (now - 3600000) gs @ [?h]\<rparr>, gs @ [?h])"
      using True by (simp add: s budget_step_def acquire_def Let_def pruned)
    moreover have "grants_ok (gs @ [?h])" using True iff grant_kept [OF ok past] by simp
    ultimately show ?thesis using past keep by (auto simp: budget_inv_def since_append)
  next
    case False
    with ok past keep show ?thesis
      by (auto simp: s budget_step_def budget_inv_def acquire_def Let_def pruned)
  qed
qed

lemma block_inv: "budget_inv s time \<Longrightarrow> budget_inv (budget_step s (Block until)) time"
  by (cases s) (simp add: budget_step_def budget_inv_def block_def)

lemma call_inv:
  assumes "budget_inv s time" "\<forall>now. call_time c = Some now \<longrightarrow> time \<le> now"
  shows "budget_inv (budget_step s c) (case call_time c of None \<Rightarrow> time | Some now \<Rightarrow> now)"
  using assms by (cases c) (simp_all add: acquire_inv block_inv)

lemma run_inv:
  "budget_inv s time \<Longrightarrow> sorted (time # List.map_filter call_time cs) \<Longrightarrow>
    budget_inv (foldl budget_step s cs) (last (time # List.map_filter call_time cs))"
proof (induction cs arbitrary: s time)
  case Nil
  then show ?case by (simp add: map_filter_def)
next
  case (Cons c cs)
  show ?case
  proof (cases "call_time c")
    case None
    with call_inv [OF Cons.prems(1), of c] have "budget_inv (budget_step s c) time" by simp
    with Cons.IH [OF this] Cons.prems(2) None show ?thesis by (simp add: map_filter_simps)
  next
    case (Some now)
    with call_inv [OF Cons.prems(1), of c] Cons.prems(2) have "budget_inv (budget_step s c) now"
      by (simp add: map_filter_simps)
    with Cons.IH [OF this] Cons.prems(2) Some show ?thesis by (simp add: map_filter_simps)
  qed
qed

lemma run_budget_inv:
  assumes "clock_sorted cs" "\<forall>t \<in> set (List.map_filter call_time cs). t \<le> now"
  shows "budget_inv (run_budget cs) now"
proof -
  let ?ts = "List.map_filter call_time cs"
  define time where "time = (case ?ts of [] \<Rightarrow> now | t # _ \<Rightarrow> t)"
  have "budget_inv (new_memory_budget, []) time"
    by (simp add: budget_inv_def new_memory_budget_def grants_ok_def spaced_def window_bound_def in_window_def
      reserve_kept_def)
  moreover have "sorted (time # ?ts)"
    using assms(1) by (cases ?ts) (auto simp: time_def clock_sorted_def)
  ultimately have "budget_inv (run_budget cs) (last (time # ?ts))" unfolding run_budget_def by (rule run_inv)
  moreover have "last (time # ?ts) \<le> now" using assms(2) by (cases ?ts) (auto simp: time_def)
  ultimately show ?thesis by (fastforce simp: budget_inv_def)
qed

text \<open>
  C37: Over any sequence of calls with a clock that does not run backwards, the grants keep
  every limit of the broker: they are at least 50 ms apart, at most 20 lie in any second and
  15000 in any hour; discovery grants are at least a second apart, at most 1800 in any hour,
  and none is given when 9000 requests of the last hour are used.
\<close>

theorem grants_within_budget:
  assumes "clock_sorted cs"
  shows "let gs = snd (run_budget cs) in
    spaced 50 gs \<and> window_bound 1000 20 gs \<and> window_bound 3600000 15000 gs \<and>
    spaced 1000 (filter gr_discovery gs) \<and> window_bound 3600000 1800 (filter gr_discovery gs) \<and>
    (\<forall>p g q. gs = p @ g # q \<longrightarrow> gr_discovery g \<longrightarrow> length (since (gr_at g - 3600000) p) < 9000)"
proof -
  obtain now where "\<forall>t \<in> set (List.map_filter call_time cs). t \<le> now"
    using Max_ge [of "set (List.map_filter call_time cs)"] by blast
  from run_budget_inv [OF assms this] show ?thesis
    by (simp add: budget_inv_def grants_ok_def reserve_kept_def Let_def)
qed

definition sample_calls :: "budget_call list" where
  "sample_calls = [Acquire 1000 False, Acquire 1020 False, Acquire 1050 True, Block 2000, Acquire 1900 False,
     Acquire 2000 True, Acquire 2050 True]"

lemma grants_within_budget_witness:
  "map gr_at (snd (run_budget sample_calls)) = [1000, 1050, 2050] \<and> spaced 50 (snd (run_budget sample_calls))"
proof
  show "map gr_at (snd (run_budget sample_calls)) = [1000, 1050, 2050]" by code_simp
  have "clock_sorted sample_calls" by code_simp
  from grants_within_budget [OF this] show "spaced 50 (snd (run_budget sample_calls))" by (simp add: Let_def)
qed

text \<open>
  A refusal names the right time. When a monitoring request is refused after any sequence
  of calls, then (without another grant or block in between) it is granted from the moment
  \<open>retryAfterMs\<close> later, and not before.
\<close>

theorem refusal_names_the_time:
  assumes "clock_sorted (cs @ [Acquire now False])" "acquire now False (fst (run_budget cs)) = (b, d)"
    "\<not> bd_granted d" "now \<le> later"
  shows "bd_granted (snd (acquire later False b)) \<longleftrightarrow> now + bd_retryAfterMs d \<le> later"
proof -
  obtain b0 gs0 where run: "run_budget cs = (b0, gs0)" by (cases "run_budget cs")
  have "budget_inv (run_budget cs) now"
    using assms(1) by (intro run_budget_inv) (auto simp: clock_sorted_def map_filter_def sorted_append)
  then have ok: "grants_ok gs0" and past: "\<forall>g \<in> set gs0. gr_at g \<le> now"
    and pruned: "since (now - 3600000) (mb_grants b0) = since (now - 3600000) gs0"
    by (simp_all add: run budget_inv_def)
  define gs where "gs = since (now - 3600000) gs0"
  have u: "usage_of now gs (mb_blockedUntilMs b0) = usage_of now gs (mb_blockedUntilMs b)"
    and d: "d = decide_budget now False (usage_of now gs (mb_blockedUntilMs b))"
    and b: "mb_grants b = gs"
    using assms(2,3) by (auto simp: run acquire_def Let_def pruned gs_def)
  have sorted: "sorted (map gr_at gs)" "sorted (map gr_at (since (now - 1000) gs))"
    using ok spaced_sorted [of 50 gs0] since_sorted by (auto simp: gs_def grants_ok_def)
  have inside: "since (now - w) gs0 = in_window (now - w) w gs0" for w
    using past by (auto simp: since_def in_window_def intro!: filter_cong)
  have limits: "length gs \<le> 15000" "length (since (now - 1000) gs) \<le> 20"
    using ok inside [of 3600000] inside [of 1000] since_since [of "now - 3600000" "now - 1000" gs0]
    by (auto simp: gs_def grants_ok_def window_bound_def simp flip: of_nat_le_iff)
  have hour: "since (later - 3600000) gs = since (later - 3600000) (since (now - 3600000) gs)"
    using assms(4) by (simp add: gs_def since_since)
  have second: "since (later - 1000) (since (later - 3600000) gs) = since (later - 1000) (since (now - 1000) gs)"
    using assms(4) by (simp add: since_since)
  have "bd_granted (snd (acquire later False b)) \<longleftrightarrow> may_grant later False (since (later - 3600000) gs) (mb_blockedUntilMs b)"
    unfolding acquire_def Let_def snd_conv b by (rule granted_iff) (auto dest: since_in)
  also have "\<dots> \<longleftrightarrow> next_grant now False (usage_of now gs (mb_blockedUntilMs b)) \<le> later"
    unfolding may_grant_def next_grant_le second last_since [OF sorted(1), of 50 3600000, simplified]
    using since_full [OF sorted(1) limits(1), of "later - 3600000"] since_full [OF sorted(2) limits(2), of "later - 1000"]
      assms(4)
    by (auto simp: usage_of_def Let_def)
  finally show ?thesis using assms(3,4) d by (auto simp: decide_budget_def Let_def)
qed

lemma refusal_names_the_time_witness:
  "\<not> bd_granted (snd (acquire 1025 False (fst (acquire 1020 False (fst (run_budget [Acquire 1000 False])))))) \<and>
   bd_granted (snd (acquire 1050 False (fst (acquire 1020 False (fst (run_budget [Acquire 1000 False]))))))"
proof -
  have r: "acquire 1020 False (fst (run_budget [Acquire 1000 False])) =
      (\<lparr>mb_grants = [\<lparr>gr_at = 1000, gr_discovery = False\<rparr>], mb_blockedUntilMs = 0\<rparr>,
       \<lparr>bd_granted = False, bd_retryAfterMs = 30, bd_remainingHour = 14999, bd_remainingDiscoveryHour = 1800\<rparr>)"
    by code_simp
  have c: "clock_sorted ([Acquire 1000 False] @ [Acquire 1020 False])" by code_simp
  show ?thesis
    using refusal_names_the_time [OF c r, of 1025] refusal_names_the_time [OF c r, of 1050] by (simp add: r)
qed

end
