(* ===== verification/RateLimiter.thy ===== *)
theory RateLimiter
  imports RequestBudget "HOL-Library.Product_Lexorder"
begin

text \<open>
  The request scheduler of the broker connection (\<open>questrade/rate-limiter.ts\<close>): one queue
  ordered by priority and arrival, at most \<open>maxConcurrent\<close> operations in flight, a budget grant
  for every request except token redemptions (\<open>P0\<close>), and a timer that wakes the queue.

  The program is single-threaded: code runs in turns, and a turn ends where a function awaits.
  \<open>drain\<close> awaits only the budget, so a turn of it ends either with the loop left or with a
  request waiting for its grant (\<open>lm_acquiring\<close>, in which case \<open>draining\<close> is true). Every turn
  is a step of the model, with the clock reading \<open>now\<close> of that turn and what the environment
  answered; the operations and the budget service are the environment. The diagnostics
  (\<open>observe\<close>) are left out, and the listeners of abort signals are the rule that an abort only
  reaches a queued request.
\<close>

section \<open>State\<close>

datatype request_priority = P0 | P1 | P2 | P3 | P4

instantiation request_priority :: linorder
begin

definition priority_rank :: "request_priority \<Rightarrow> nat" where
  "priority_rank p = (case p of P0 \<Rightarrow> 0 | P1 \<Rightarrow> 1 | P2 \<Rightarrow> 2 | P3 \<Rightarrow> 3 | P4 \<Rightarrow> 4)"

definition less_eq_request_priority :: "request_priority \<Rightarrow> request_priority \<Rightarrow> bool" where
  "less_eq_request_priority p q \<longleftrightarrow> priority_rank p \<le> priority_rank q"

definition less_request_priority :: "request_priority \<Rightarrow> request_priority \<Rightarrow> bool" where
  "less_request_priority p q \<longleftrightarrow> priority_rank p < priority_rank q"

instance
proof
  fix p q :: request_priority
  assume "p \<le> q" "q \<le> p"
  then show "p = q"
    by (cases p; cases q) (auto simp: less_eq_request_priority_def priority_rank_def)
qed (auto simp: less_eq_request_priority_def less_request_priority_def)

end

record queued_request =
  rq_priority :: request_priority
  rq_sequence :: nat
  rq_discovery :: bool
  rq_enqueuedAt :: int
  rq_expiresAt :: "int option"  \<comment> \<open>\<open>None\<close> is \<open>Infinity\<close>\<close>
  rq_availableAt :: int

datatype queue_error_code = QUEUE_FULL | CANCELLED | EXPIRED

text \<open>A given expiry may be an invalid date, whose time is \<open>NaN\<close>.\<close>

datatype expiry = NoExpiry | ExpiresAt int | InvalidExpiry

record request_options =
  ro_discovery :: bool
  ro_aborted :: "queue_error_code option"  \<comment> \<open>the code of a signal that is already aborted\<close>
  ro_expiresAt :: expiry

record limiter_config =
  lc_maxConcurrent :: nat
  lc_reserveRequests :: int

record limiter =
  lm_queue :: "queued_request list"
  lm_active :: "queued_request list"  \<comment> \<open>the dispatched operations; \<open>active\<close> is their number\<close>
  lm_settled :: "nat list"  \<comment> \<open>those of them that have settled and whose \<open>finally\<close> is still to run\<close>
  lm_sequence :: nat
  lm_blockedUntilMs :: int
  lm_wakeTimer :: "int option"
  lm_acquiring :: "queued_request option"
  lm_completed :: nat
  lm_failed :: nat
  lm_cancelled :: nat
  lm_expired :: nat
  lm_discoveryCompleted :: nat
  lm_discoveryFailed :: nat
  lm_discoveryCancelled :: nat
  lm_discoveryExpired :: nat
  lm_latestBudget :: "budget_decision option"

definition new_limiter :: limiter where
  "new_limiter = \<lparr>lm_queue = [], lm_active = [], lm_settled = [], lm_sequence = 0, lm_blockedUntilMs = 0, lm_wakeTimer = None,
     lm_acquiring = None, lm_completed = 0, lm_failed = 0, lm_cancelled = 0, lm_expired = 0,
     lm_discoveryCompleted = 0, lm_discoveryFailed = 0, lm_discoveryCancelled = 0, lm_discoveryExpired = 0,
     lm_latestBudget = None\<rparr>"

definition valid_config :: "limiter_config \<Rightarrow> bool" where
  "valid_config c \<longleftrightarrow> 1 \<le> lc_maxConcurrent c"

section \<open>The queue\<close>

definition request_key :: "queued_request \<Rightarrow> request_priority \<times> nat" where
  "request_key r = (rq_priority r, rq_sequence r)"

definition in_queue :: "queued_request \<Rightarrow> limiter \<Rightarrow> bool" where
  "in_queue r s \<longleftrightarrow> list_ex (\<lambda>q. rq_sequence q = rq_sequence r) (lm_queue s)"

text \<open>\<open>queue.splice(queue.indexOf(request), 1)\<close>; a request is identified by its sequence number\<close>

definition remove_request :: "queued_request \<Rightarrow> limiter \<Rightarrow> limiter" where
  "remove_request r s = s\<lparr>lm_queue := filter (\<lambda>q. rq_sequence q \<noteq> rq_sequence r) (lm_queue s)\<rparr>"

definition count_rejected :: "queue_error_code \<Rightarrow> bool \<Rightarrow> limiter \<Rightarrow> limiter" where
  "count_rejected code discovery s =
     (let s1 = (if code = CANCELLED then s\<lparr>lm_cancelled := lm_cancelled s + 1\<rparr>
        else s\<lparr>lm_expired := lm_expired s + 1\<rparr>) in
      if \<not> discovery then s1
      else if code = CANCELLED then s1\<lparr>lm_discoveryCancelled := lm_discoveryCancelled s1 + 1\<rparr>
      else s1\<lparr>lm_discoveryExpired := lm_discoveryExpired s1 + 1\<rparr>)"

definition reject_queued :: "queue_error_code \<Rightarrow> queued_request \<Rightarrow> limiter \<Rightarrow> limiter" where
  "reject_queued code r s =
     (if \<not> in_queue r s then s else count_rejected code (rq_discovery r) (remove_request r s))"

definition count_failed :: "bool \<Rightarrow> limiter \<Rightarrow> limiter" where
  "count_failed discovery s = (let s1 = s\<lparr>lm_failed := lm_failed s + 1\<rparr> in
     if discovery then s1\<lparr>lm_discoveryFailed := lm_discoveryFailed s1 + 1\<rparr> else s1)"

definition count_completed :: "bool \<Rightarrow> limiter \<Rightarrow> limiter" where
  "count_completed discovery s = (let s1 = s\<lparr>lm_completed := lm_completed s + 1\<rparr> in
     if discovery then s1\<lparr>lm_discoveryCompleted := lm_discoveryCompleted s1 + 1\<rparr> else s1)"

definition is_expired :: "int \<Rightarrow> queued_request \<Rightarrow> bool" where
  "is_expired now r \<longleftrightarrow> (case rq_expiresAt r of None \<Rightarrow> False | Some t \<Rightarrow> t \<le> now)"

text \<open>\<open>for (const item of [...this.queue]) if (...) this.rejectQueued(item, code)\<close>\<close>

definition reject_where :: "(queued_request \<Rightarrow> bool) \<Rightarrow> queue_error_code \<Rightarrow> limiter \<Rightarrow> limiter" where
  "reject_where P code s = foldl (\<lambda>s r. if P r then reject_queued code r s else s) s (lm_queue s)"

section \<open>Draining\<close>

definition full_capacity :: "limiter_config \<Rightarrow> limiter \<Rightarrow> bool" where
  "full_capacity c s \<longleftrightarrow> lc_maxConcurrent c \<le> length (lm_active s)"

definition ready :: "int \<Rightarrow> limiter \<Rightarrow> queued_request \<Rightarrow> bool" where
  "ready now s r \<longleftrightarrow> rq_availableAt r \<le> now \<and> (rq_priority r = P0 \<or> lm_blockedUntilMs s \<le> now)"

text \<open>\<open>scheduleWake\<close>: the earliest time at which an item expires or may start\<close>

definition min_option :: "int option \<Rightarrow> int option \<Rightarrow> int option" where
  "min_option a b = (case a of None \<Rightarrow> b | Some x \<Rightarrow> (case b of None \<Rightarrow> a | Some y \<Rightarrow> Some (min x y)))"

definition wake_time :: "limiter_config \<Rightarrow> limiter \<Rightarrow> queued_request \<Rightarrow> int option" where
  "wake_time c s r = min_option (rq_expiresAt r)
     (if \<not> full_capacity c s
      then Some (max (rq_availableAt r) (if rq_priority r = P0 then 0 else lm_blockedUntilMs s)) else None)"

definition schedule_wake :: "limiter_config \<Rightarrow> int \<Rightarrow> limiter \<Rightarrow> limiter" where
  "schedule_wake c now s = (if lm_queue s = [] then s
     else case foldr min_option (map (wake_time c s) (lm_queue s)) None of
       None \<Rightarrow> s
     | Some next \<Rightarrow> s\<lparr>lm_wakeTimer := Some (now + max 1 (next - now))\<rparr>)"

text \<open>The last part of the loop body: the request is dispatched unless it has expired.\<close>

definition dispatch :: "int \<Rightarrow> queued_request \<Rightarrow> limiter \<Rightarrow> limiter" where
  "dispatch now r s =
     (if is_expired now r then reject_queued EXPIRED r s
      else if \<not> in_queue r s then s
      else (remove_request r s)\<lparr>lm_active := lm_active s @ [r]\<rparr>)"

lemma reject_queued_queue: "lm_queue (reject_queued code r s) = filter (\<lambda>q. rq_sequence q \<noteq> rq_sequence r) (lm_queue s)"
  by (auto simp: reject_queued_def in_queue_def remove_request_def count_rejected_def Let_def list_ex_iff
      filter_id_conv)

lemma dispatch_queue: "in_queue r s \<Longrightarrow> lm_queue (dispatch now r s) = filter (\<lambda>q. rq_sequence q \<noteq> rq_sequence r) (lm_queue s)"
  by (simp add: dispatch_def reject_queued_queue remove_request_def)

lemma reject_where_shrinks: "length (lm_queue (foldl (\<lambda>s r. if P r then reject_queued code r s else s) s rs)) \<le> length (lm_queue s)"
proof (induction rs arbitrary: s)
  case (Cons r rs)
  have "length (lm_queue (reject_queued code r s)) \<le> length (lm_queue s)" by (simp add: reject_queued_queue)
  with Cons.IH [of s] Cons.IH [of "reject_queued code r s"] show ?case by auto
qed simp

lemma find_in_queue: "find P (lm_queue s) = Some r \<Longrightarrow> in_queue r s"
  by (auto simp: in_queue_def list_ex_iff find_Some_iff)

text \<open>One turn of \<open>drain\<close>: until the loop is left or a request awaits its grant.\<close>

function drain :: "limiter_config \<Rightarrow> int \<Rightarrow> limiter \<Rightarrow> limiter" where
  "drain c now s0 =
     (let s = reject_where (is_expired now) EXPIRED s0 in
      if full_capacity c s then schedule_wake c now s
      else case find (ready now s) (lm_queue s) of
        None \<Rightarrow> schedule_wake c now s
      | Some r \<Rightarrow> if rq_priority r \<noteq> P0 then s\<lparr>lm_acquiring := Some r\<rparr>
          else drain c now (dispatch now r s))"
  by pat_completeness auto

termination
proof (relation "measure (\<lambda>(c, now, s). length (lm_queue s))")
  fix c now s0 s r
  assume "s = reject_where (is_expired now) EXPIRED s0" "find (ready now s) (lm_queue s) = Some r"
  then have r: "in_queue r s" and len: "length (lm_queue s) \<le> length (lm_queue s0)"
    using find_in_queue reject_where_shrinks by (auto simp: reject_where_def)
  from r have "length (lm_queue (dispatch now r s)) < length (lm_queue s)"
    unfolding dispatch_queue [OF r] in_queue_def list_ex_iff by (auto intro: length_filter_less)
  with len show "((c, now, dispatch now r s), (c, now, s0)) \<in> measure (\<lambda>(c, now, s). length (lm_queue s))" by simp
qed simp

declare drain.simps [simp del]

definition kick :: "limiter_config \<Rightarrow> int \<Rightarrow> limiter \<Rightarrow> limiter" where
  "kick c now s = (let s1 = s\<lparr>lm_wakeTimer := None\<rparr> in
     if lm_acquiring s1 = None then drain c now s1 else s1)"

text \<open>The budget answers, or fails, for the request that awaits it.\<close>

datatype budget_answer = BudgetUnavailable | Decided budget_decision

definition postpone :: "int \<Rightarrow> queued_request \<Rightarrow> budget_decision \<Rightarrow> limiter \<Rightarrow> limiter" where
  "postpone now r d s = (let availableAt = now + max 1 (bd_retryAfterMs d) in
     s\<lparr>lm_queue := map (\<lambda>q. if rq_sequence q = rq_sequence r then q\<lparr>rq_availableAt := availableAt\<rparr>
         else if rq_priority q \<noteq> P0 \<and> rq_discovery q = rq_discovery r
         then q\<lparr>rq_availableAt := max (rq_availableAt q) availableAt\<rparr> else q) (lm_queue s)\<rparr>)"

definition answer :: "limiter_config \<Rightarrow> int \<Rightarrow> budget_answer \<Rightarrow> limiter \<Rightarrow> limiter" where
  "answer c now a s = (case lm_acquiring s of None \<Rightarrow> s
     | Some r \<Rightarrow> (let s1 = s\<lparr>lm_acquiring := None\<rparr> in
         drain c now (case a of
           BudgetUnavailable \<Rightarrow>
             if in_queue r s1 then count_failed (rq_discovery r) (remove_request r s1) else s1
         | Decided d \<Rightarrow> (let s2 = s1\<lparr>lm_latestBudget := Some d\<rparr> in
             if \<not> in_queue r s2 then s2
             else if \<not> bd_granted d then postpone now r d s2
             else dispatch now r s2))))"

section \<open>The operations\<close>

definition discovery_expiry :: "int \<Rightarrow> request_options \<Rightarrow> int option" where
  "discovery_expiry now o1 = (if ro_discovery o1 then Some (now + bb_discoveryExpiryMs BROKER_BUDGET) else None)"

text \<open>\<open>Math.min(options.expiresAt?.getTime() ?? Infinity, ...)\<close>; the outer \<open>None\<close> is \<open>NaN\<close>\<close>

definition expires_at :: "int \<Rightarrow> request_options \<Rightarrow> int option option" where
  "expires_at now o1 = (case ro_expiresAt o1 of
      NoExpiry \<Rightarrow> Some (discovery_expiry now o1)
    | ExpiresAt t \<Rightarrow> Some (min_option (Some t) (discovery_expiry now o1))
    | InvalidExpiry \<Rightarrow> None)"

definition queue_full :: "limiter \<Rightarrow> bool" where
  "queue_full s \<longleftrightarrow> bb_discoveryQueue BROKER_BUDGET \<le> int (length (filter rq_discovery (lm_queue s)))"

definition schedule :: "limiter_config \<Rightarrow> int \<Rightarrow> request_priority \<Rightarrow> request_options \<Rightarrow> limiter \<Rightarrow>
    limiter \<times> queue_error_code option" where
  "schedule c now priority o1 s = (case ro_aborted o1 of
      Some code \<Rightarrow> (s, Some code)
    | None \<Rightarrow>
        if ro_discovery o1 \<and> queue_full s then (s, Some QUEUE_FULL)
        else (case expires_at now o1 of
            None \<Rightarrow> (s, Some EXPIRED)
          | Some expiresAt \<Rightarrow>
              if (case expiresAt of None \<Rightarrow> False | Some t \<Rightarrow> t \<le> now) then (s, Some EXPIRED)
              else (kick c now (s\<lparr>lm_sequence := lm_sequence s + 1,
                lm_queue := sort_key request_key (lm_queue s @
                  [\<lparr>rq_priority = (if ro_discovery o1 then P4 else priority), rq_sequence = lm_sequence s,
                    rq_discovery = ro_discovery o1, rq_enqueuedAt = now, rq_expiresAt = expiresAt,
                    rq_availableAt = now\<rparr>])\<rparr>), None)))"

text \<open>The listener of an abort signal, which is removed when the request leaves the queue\<close>

definition abort :: "limiter_config \<Rightarrow> int \<Rightarrow> nat \<Rightarrow> queue_error_code \<Rightarrow> limiter \<Rightarrow> limiter" where
  "abort c now i code s = (case find (\<lambda>r. rq_sequence r = i) (lm_queue s) of
      None \<Rightarrow> s
    | Some r \<Rightarrow> kick c now (reject_queued code r s))"

definition cancel_pending_discovery :: "limiter_config \<Rightarrow> int \<Rightarrow> limiter \<Rightarrow> limiter" where
  "cancel_pending_discovery c now s = kick c now (reject_where rq_discovery CANCELLED s)"

text \<open>
  \<open>observeLimit\<close> up to its \<open>await\<close> (\<open>None\<close>: a value that is not finite), after which it kicks.
\<close>

definition observe_limit :: "limiter_config \<Rightarrow> int option \<Rightarrow> int option \<Rightarrow> limiter \<Rightarrow> limiter" where
  "observe_limit c remaining resetAt s = (case (remaining, resetAt) of
      (Some n, Some t) \<Rightarrow>
        if n \<le> lc_reserveRequests c then s\<lparr>lm_blockedUntilMs := max (lm_blockedUntilMs s) t\<rparr> else s
    | _ \<Rightarrow> s)"

text \<open>
  An operation settles: the counters are advanced and the caller is told. \<open>active\<close> is decremented
  only by the \<open>finally\<close> behind it, which is a later turn (\<open>release_slot\<close>): in between the caller
  runs on, and sees the request counted as settled and as active.
\<close>

definition settle :: "nat \<Rightarrow> bool \<Rightarrow> limiter \<Rightarrow> limiter" where
  "settle i succeeded s = (case find (\<lambda>r. rq_sequence r = i) (lm_active s) of
      None \<Rightarrow> s
    | Some r \<Rightarrow> if i \<in> set (lm_settled s) then s
        else (let s1 = (if succeeded then count_completed (rq_discovery r) s else count_failed (rq_discovery r) s)
          in s1\<lparr>lm_settled := lm_settled s1 @ [i]\<rparr>))"

definition release_slot :: "limiter_config \<Rightarrow> int \<Rightarrow> nat \<Rightarrow> limiter \<Rightarrow> limiter" where
  "release_slot c now i s = (if i \<notin> set (lm_settled s) then s
     else kick c now (s\<lparr>lm_active := filter (\<lambda>q. rq_sequence q \<noteq> i) (lm_active s),
       lm_settled := filter (\<lambda>j. j \<noteq> i) (lm_settled s)\<rparr>))"

text \<open>The wake timer fires, not before its time.\<close>

definition wake :: "limiter_config \<Rightarrow> int \<Rightarrow> limiter \<Rightarrow> limiter" where
  "wake c now s = (case lm_wakeTimer s of
      None \<Rightarrow> s
    | Some t \<Rightarrow> if t \<le> now then kick c now (s\<lparr>lm_wakeTimer := None\<rparr>) else s)"

section \<open>The scheduler as a transition system\<close>

inductive limiter_step :: "limiter_config \<Rightarrow> limiter \<Rightarrow> limiter \<Rightarrow> bool" for c where
  step_schedule: "schedule c now priority o1 s = (s', rejected) \<Longrightarrow> limiter_step c s s'"
| step_abort: "code = CANCELLED \<or> code = EXPIRED \<Longrightarrow> limiter_step c s (abort c now i code s)"
| step_cancel: "limiter_step c s (cancel_pending_discovery c now s)"
| step_observe: "limiter_step c s (observe_limit c remaining resetAt s)"
| step_observed: "limiter_step c s (kick c now s)"
| step_answer: "limiter_step c s (answer c now a s)"
| step_settle: "limiter_step c s (settle i succeeded s)"
| step_release: "limiter_step c s (release_slot c now i s)"
| step_wake: "limiter_step c s (wake c now s)"

inductive_cases limiter_stepE: "limiter_step c s s'"

inductive limiter_reachable :: "limiter_config \<Rightarrow> limiter \<Rightarrow> bool" for c where
  reachable_new: "limiter_reachable c new_limiter"
| reachable_step: "limiter_reachable c s \<Longrightarrow> limiter_step c s s' \<Longrightarrow> limiter_reachable c s'"

end
