(* ===== verification/LimiterProperties.thy ===== *)
theory LimiterProperties
  imports RateLimiter "HOL-Library.Multiset"
begin

text \<open>
  What the scheduler promises in every reachable state, whatever the order in which requests,
  aborts, budget answers, settlements and timers arrive: no request is lost or counted twice,
  the number of operations in flight stays within its limit, the queue is in order, and a
  waiting request always has something that will wake it.
\<close>

section \<open>The invariant\<close>

definition limiter_core :: "limiter_config \<Rightarrow> limiter \<Rightarrow> bool" where
  "limiter_core c s \<longleftrightarrow> length (lm_active s) \<le> lc_maxConcurrent c \<and>
     distinct (map rq_sequence (lm_queue s) @ map rq_sequence (lm_active s)) \<and>
     (\<forall>i \<in> set (map rq_sequence (lm_queue s) @ map rq_sequence (lm_active s)). i < lm_sequence s) \<and>
     distinct (lm_settled s) \<and> set (lm_settled s) \<subseteq> rq_sequence ` set (lm_active s) \<and>
     lm_sequence s + length (lm_settled s) = lm_completed s + lm_failed s + lm_cancelled s + lm_expired s +
       length (lm_queue s) + length (lm_active s) \<and>
     sorted (map request_key (lm_queue s)) \<and>
     int (length (filter rq_discovery (lm_queue s))) \<le> bb_discoveryQueue BROKER_BUDGET \<and>
     (\<forall>r \<in> set (lm_queue s). rq_discovery r \<longrightarrow> rq_priority r = P4)"

text \<open>While a request awaits its grant there is room for it.\<close>

definition acquiring_ok :: "limiter_config \<Rightarrow> limiter \<Rightarrow> bool" where
  "acquiring_ok c s \<longleftrightarrow> (\<forall>r. lm_acquiring s = Some r \<longrightarrow> rq_priority r \<noteq> P0 \<and> length (lm_active s) < lc_maxConcurrent c)"

text \<open>The queue cannot be forgotten: a drain is suspended, an operation will settle, or a timer is set.\<close>

definition attended :: "limiter \<Rightarrow> bool" where
  "attended s \<longleftrightarrow> lm_queue s = [] \<or> lm_acquiring s \<noteq> None \<or> lm_active s \<noteq> [] \<or> lm_wakeTimer s \<noteq> None"

definition limiter_inv :: "limiter_config \<Rightarrow> limiter \<Rightarrow> bool" where
  "limiter_inv c s \<longleftrightarrow> limiter_core c s \<and> acquiring_ok c s \<and> attended s"

lemma limiter_core_irrelevant [simp]:
  "limiter_core c (s\<lparr>lm_wakeTimer := w\<rparr>) \<longleftrightarrow> limiter_core c s"
  "limiter_core c (s\<lparr>lm_acquiring := r\<rparr>) \<longleftrightarrow> limiter_core c s"
  "limiter_core c (s\<lparr>lm_latestBudget := d\<rparr>) \<longleftrightarrow> limiter_core c s"
  "limiter_core c (s\<lparr>lm_blockedUntilMs := t\<rparr>) \<longleftrightarrow> limiter_core c s"
  by (simp_all add: limiter_core_def)

section \<open>Leaving the queue\<close>

lemma filter_one:
  "distinct (map f xs) \<Longrightarrow> x \<in> set xs \<Longrightarrow> Suc (length (filter (\<lambda>y. f y \<noteq> f x) xs)) = length xs"
proof (induction xs)
  case (Cons a xs)
  show ?case
  proof (cases "x = a")
    case True
    with Cons.prems(1) have "filter (\<lambda>y. f y \<noteq> f a) xs = xs" by (auto simp: filter_id_conv image_iff)
    with True show ?thesis by simp
  next
    case False
    with Cons.prems have "f a \<noteq> f x" "x \<in> set xs" by auto
    with Cons show ?thesis by simp
  qed
qed simp

lemma in_queueE: "in_queue r s \<Longrightarrow> \<exists>q \<in> set (lm_queue s). rq_sequence q = rq_sequence r"
  by (auto simp: in_queue_def list_ex_iff)

lemma remove_length:
  assumes "limiter_core c s" "in_queue r s"
  shows "Suc (length (filter (\<lambda>q. rq_sequence q \<noteq> rq_sequence r) (lm_queue s))) = length (lm_queue s)"
proof -
  from in_queueE [OF assms(2)] obtain q where q: "q \<in> set (lm_queue s)" "rq_sequence q = rq_sequence r" by blast
  have "distinct (map rq_sequence (lm_queue s))" using assms(1) by (simp add: limiter_core_def)
  from filter_one [OF this q(1)] q(2) show ?thesis by simp
qed

lemma filter_core:
  assumes "limiter_core c s"
  shows "distinct (map rq_sequence (filter P (lm_queue s)) @ map rq_sequence (lm_active s))"
    "sorted (map request_key (filter P (lm_queue s)))"
    "int (length (filter rq_discovery (filter P (lm_queue s)))) \<le> bb_discoveryQueue BROKER_BUDGET"
proof -
  show "distinct (map rq_sequence (filter P (lm_queue s)) @ map rq_sequence (lm_active s))"
    using assms by (auto simp: limiter_core_def distinct_map_filter)
  show "sorted (map request_key (filter P (lm_queue s)))"
    using assms by (simp add: limiter_core_def sorted_filter)
  have "length (filter rq_discovery (filter P (lm_queue s))) \<le> length (filter rq_discovery (lm_queue s))"
    unfolding filter_filter by (induction "lm_queue s") (auto simp: length_filter_conv_card intro!: card_mono)
  then show "int (length (filter rq_discovery (filter P (lm_queue s)))) \<le> bb_discoveryQueue BROKER_BUDGET"
    using assms by (simp add: limiter_core_def)
qed

lemma reject_core:
  assumes "limiter_core c s" "code = CANCELLED \<or> code = EXPIRED"
  shows "limiter_core c (reject_queued code r s)"
proof (cases "in_queue r s")
  case True
  note f = filter_core [OF assms(1), of "\<lambda>q. rq_sequence q \<noteq> rq_sequence r"]
  show ?thesis
    using assms True f remove_length [OF assms(1) True]
    by (auto simp: limiter_core_def reject_queued_def remove_request_def count_rejected_def Let_def)
qed (use assms(1) in \<open>simp add: reject_queued_def\<close>)

lemma reject_fields [simp]:
  "lm_active (reject_queued code r s) = lm_active s"
  "lm_acquiring (reject_queued code r s) = lm_acquiring s"
  by (simp_all add: reject_queued_def remove_request_def count_rejected_def Let_def)

lemma reject_where_fields [simp]:
  "lm_active (reject_where P code s) = lm_active s"
  "lm_acquiring (reject_where P code s) = lm_acquiring s"
proof -
  have "lm_active (foldl (\<lambda>s r. if P r then reject_queued code r s else s) s rs) = lm_active s \<and>
      lm_acquiring (foldl (\<lambda>s r. if P r then reject_queued code r s else s) s rs) = lm_acquiring s" for rs
    by (induction rs arbitrary: s) auto
  then show "lm_active (reject_where P code s) = lm_active s" "lm_acquiring (reject_where P code s) = lm_acquiring s"
    by (simp_all add: reject_where_def)
qed

lemma reject_where_core:
  assumes "limiter_core c s" "code = CANCELLED \<or> code = EXPIRED"
  shows "limiter_core c (reject_where P code s)"
proof -
  have "limiter_core c t \<Longrightarrow> limiter_core c (foldl (\<lambda>s r. if P r then reject_queued code r s else s) t rs)" for t rs
    using assms(2) by (induction rs arbitrary: t) (auto intro: reject_core)
  with assms(1) show ?thesis by (simp add: reject_where_def)
qed

lemma dispatch_core:
  assumes "limiter_core c s" "length (lm_active s) < lc_maxConcurrent c"
  shows "limiter_core c (dispatch now r s)"
proof -
  note f = filter_core [OF assms(1), of "\<lambda>q. rq_sequence q \<noteq> rq_sequence r"]
  have "limiter_core c ((remove_request r s)\<lparr>lm_active := lm_active s @ [r]\<rparr>)" if q: "in_queue r s"
  proof -
    from in_queueE [OF q] have "rq_sequence r \<in> set (map rq_sequence (lm_queue s))"
      by (metis image_eqI set_map)
    with assms(1) have "rq_sequence r \<notin> set (map rq_sequence (lm_active s))" "rq_sequence r < lm_sequence s"
      by (auto simp: limiter_core_def)
    then show ?thesis
      using assms f remove_length [OF assms(1) q] by (auto simp: limiter_core_def remove_request_def)
  qed
  then show ?thesis using assms(1) reject_core by (auto simp: dispatch_def)
qed

lemma dispatch_acquiring [simp]: "lm_acquiring (dispatch now r s) = lm_acquiring s"
  by (simp add: dispatch_def remove_request_def)

section \<open>Draining\<close>

lemma schedule_wake_fields [simp]:
  "lm_queue (schedule_wake c now s) = lm_queue s" "lm_active (schedule_wake c now s) = lm_active s"
  "lm_acquiring (schedule_wake c now s) = lm_acquiring s"
  by (simp_all add: schedule_wake_def split: option.splits)

lemma schedule_wake_core: "limiter_core c s \<Longrightarrow> limiter_core c (schedule_wake c now s)"
  by (simp add: schedule_wake_def split: option.splits)

lemma min_option_None: "min_option a b = None \<longleftrightarrow> a = None \<and> b = None"
  by (auto simp: min_option_def split: option.splits)

lemma fold_min_None: "foldr min_option xs None = None \<longleftrightarrow> set xs \<subseteq> {None}"
  by (induction xs) (auto simp: min_option_None)

lemma schedule_wake_attended:
  assumes "1 \<le> lc_maxConcurrent c"
  shows "attended (schedule_wake c now s)"
proof (cases "lm_queue s = [] \<or> full_capacity c s")
  case True
  with assms show ?thesis by (auto simp: attended_def full_capacity_def)
next
  case False
  then obtain q qs where q: "lm_queue s = q # qs" by (cases "lm_queue s") auto
  with False have "wake_time c s q \<noteq> None" by (simp add: wake_time_def min_option_None)
  then have "foldr min_option (map (wake_time c s) (lm_queue s)) None \<noteq> None"
    unfolding fold_min_None q by simp
  with q show ?thesis by (auto simp: attended_def schedule_wake_def)
qed

lemma drain_inv:
  assumes "limiter_core c s" "lm_acquiring s = None" "1 \<le> lc_maxConcurrent c"
  shows "limiter_inv c (drain c now s)"
  using assms
proof (induction c now s rule: drain.induct)
  case (1 c now s0)
  let ?s = "reject_where (is_expired now) EXPIRED s0"
  have core: "limiter_core c ?s" and acq: "lm_acquiring ?s = None"
    using reject_where_core [OF "1.prems"(1)] "1.prems"(2) by auto
  have stop: "limiter_inv c (schedule_wake c now ?s)"
    using schedule_wake_core [OF core] schedule_wake_attended [OF "1.prems"(3)] acq
    by (simp add: limiter_inv_def acquiring_ok_def)
  show ?case
  proof (cases "full_capacity c ?s")
    case True
    with stop show ?thesis by (subst drain.simps) (simp add: Let_def)
  next
    case free: False
    then have room: "length (lm_active ?s) < lc_maxConcurrent c" by (simp add: full_capacity_def)
    show ?thesis
    proof (cases "find (ready now ?s) (lm_queue ?s)")
      case None
      with stop free show ?thesis by (subst drain.simps) (simp add: Let_def)
    next
      case (Some r)
      show ?thesis
      proof (cases "rq_priority r = P0")
        case True
        have "limiter_inv c (drain c now (dispatch now r ?s))"
          using True by (intro "1.IH" [OF refl free Some]) (use acq dispatch_core [OF core room] "1.prems"(3) in auto)
        then show ?thesis using free Some True by (subst drain.simps) (simp add: Let_def)
      next
        case False
        have "limiter_inv c (?s\<lparr>lm_acquiring := Some r\<rparr>)"
          using core room False by (simp add: limiter_inv_def acquiring_ok_def attended_def)
        then show ?thesis using free Some False by (subst drain.simps) (simp add: Let_def)
      qed
    qed
  qed
qed

lemma kick_inv:
  assumes "limiter_core c s" "acquiring_ok c s" "1 \<le> lc_maxConcurrent c"
  shows "limiter_inv c (kick c now s)"
proof (cases "lm_acquiring s = None")
  case True
  with drain_inv assms(1,3) show ?thesis by (simp add: kick_def Let_def)
next
  case False
  then obtain r where "lm_acquiring s = Some r" by blast
  with assms show ?thesis by (simp add: kick_def Let_def limiter_inv_def acquiring_ok_def attended_def)
qed

section \<open>The operations\<close>

lemma limiter_invD: "limiter_inv c s \<Longrightarrow> limiter_core c s \<and> acquiring_ok c s"
  by (simp add: limiter_inv_def)

lemma sorted_request_keys: "sorted (map request_key (sort_key request_key rs))"
  by simp

lemma schedule_inv:
  assumes "limiter_inv c s" "1 \<le> lc_maxConcurrent c" "schedule c now priority o1 s = (s', rejected)"
  shows "limiter_inv c s'"
proof (cases "rejected")
  case (Some code)
  with assms(3) have "s' = s" by (auto simp: schedule_def split: option.splits if_splits)
  with assms(1) show ?thesis by simp
next
  case None
  define r where "r e = \<lparr>rq_priority = (if ro_discovery o1 then P4 else priority), rq_sequence = lm_sequence s,
     rq_discovery = ro_discovery o1, rq_enqueuedAt = now, rq_expiresAt = e, rq_availableAt = now\<rparr>" for e
  from None assms(3) obtain e where "s' = kick c now (s\<lparr>lm_sequence := lm_sequence s + 1,
      lm_queue := sort_key request_key (lm_queue s @ [r e])\<rparr>)" "ro_discovery o1 \<longrightarrow> \<not> queue_full s"
    by (auto simp: schedule_def r_def split: option.splits if_splits)
  then obtain r where r: "rq_sequence r = lm_sequence s" "rq_discovery r \<longrightarrow> rq_priority r = P4 \<and> \<not> queue_full s"
    "s' = kick c now (s\<lparr>lm_sequence := lm_sequence s + 1, lm_queue := sort_key request_key (lm_queue s @ [r])\<rparr>)"
    by (intro that [of "r e"]) (auto simp: r_def)
  let ?t = "s\<lparr>lm_sequence := lm_sequence s + 1, lm_queue := sort_key request_key (lm_queue s @ [r])\<rparr>"
  have core: "limiter_core c s" using limiter_invD [OF assms(1)] by blast
  have perm: "mset (sort_key request_key (lm_queue s @ [r])) = add_mset r (mset (lm_queue s))" by simp
  have "int (length (filter rq_discovery (sort_key request_key (lm_queue s @ [r])))) \<le> bb_discoveryQueue BROKER_BUDGET"
  proof -
    have "length (filter rq_discovery (sort_key request_key (lm_queue s @ [r]))) =
        length (filter rq_discovery (lm_queue s)) + (if rq_discovery r then 1 else 0)"
      by (simp add: filter_sort)
    then show ?thesis using r(2) core by (auto simp: limiter_core_def queue_full_def)
  qed
  moreover have "distinct (map rq_sequence (sort_key request_key (lm_queue s @ [r])) @ map rq_sequence (lm_active s))"
  proof -
    have "mset (map rq_sequence (sort_key request_key (lm_queue s @ [r])) @ map rq_sequence (lm_active s)) =
        mset (map rq_sequence (lm_queue s @ [r]) @ map rq_sequence (lm_active s))" by simp
    from mset_eq_imp_distinct_iff [OF this] show ?thesis using core r(1) by (auto simp: limiter_core_def)
  qed
  ultimately have "limiter_core c ?t" using core r(1,2) by (auto simp: limiter_core_def intro: less_SucI)
  moreover have "acquiring_ok c ?t" using limiter_invD [OF assms(1)] by (simp add: acquiring_ok_def)
  ultimately show ?thesis using kick_inv assms(2) r(3) by blast
qed

lemma abort_inv:
  assumes "limiter_inv c s" "1 \<le> lc_maxConcurrent c" "code = CANCELLED \<or> code = EXPIRED"
  shows "limiter_inv c (abort c now i code s)"
  using assms limiter_invD [OF assms(1)] reject_core
  by (auto simp: abort_def acquiring_ok_def intro!: kick_inv split: option.splits)

lemma cancel_inv: "limiter_inv c s \<Longrightarrow> 1 \<le> lc_maxConcurrent c \<Longrightarrow> limiter_inv c (cancel_pending_discovery c now s)"
  unfolding cancel_pending_discovery_def
  by (intro kick_inv) (auto simp: acquiring_ok_def reject_where_core dest!: limiter_invD)

lemma observe_inv: "limiter_inv c s \<Longrightarrow> limiter_inv c (observe_limit c remaining resetAt s)"
  by (auto simp: observe_limit_def limiter_inv_def acquiring_ok_def attended_def split: option.splits)

lemma wake_inv: "limiter_inv c s \<Longrightarrow> 1 \<le> lc_maxConcurrent c \<Longrightarrow> limiter_inv c (wake c now s)"
  by (auto simp: wake_def acquiring_ok_def dest: limiter_invD intro!: kick_inv split: option.splits)

lemma settle_inv:
  assumes "limiter_inv c s"
  shows "limiter_inv c (settle i succeeded s)"
proof (cases "find (\<lambda>r. rq_sequence r = i) (lm_active s)")
  case None
  with assms show ?thesis by (simp add: settle_def)
next
  case (Some r)
  then have r: "r \<in> set (lm_active s)" "rq_sequence r = i" by (auto simp: find_Some_iff)
  then have i: "i \<in> rq_sequence ` set (lm_active s)" by blast
  define s1 where "s1 = (if succeeded then count_completed (rq_discovery r) s else count_failed (rq_discovery r) s)"
  have s1: "lm_queue s1 = lm_queue s" "lm_active s1 = lm_active s" "lm_acquiring s1 = lm_acquiring s"
    "lm_sequence s1 = lm_sequence s" "lm_completed s1 + lm_failed s1 = Suc (lm_completed s + lm_failed s)"
    "lm_cancelled s1 = lm_cancelled s" "lm_expired s1 = lm_expired s" "lm_settled s1 = lm_settled s"
    "lm_wakeTimer s1 = lm_wakeTimer s"
    by (simp_all add: s1_def count_completed_def count_failed_def Let_def)
  have "limiter_inv c (s1\<lparr>lm_settled := lm_settled s1 @ [i]\<rparr>)" if "i \<notin> set (lm_settled s)"
    using assms that i s1 by (simp add: limiter_inv_def limiter_core_def acquiring_ok_def attended_def)
  then show ?thesis using Some assms by (simp add: settle_def s1_def Let_def)
qed

lemma release_inv:
  assumes "limiter_inv c s" "1 \<le> lc_maxConcurrent c"
  shows "limiter_inv c (release_slot c now i s)"
proof (cases "i \<in> set (lm_settled s)")
  case False
  with assms(1) show ?thesis by (simp add: release_slot_def)
next
  case True
  have core: "limiter_core c s" and acq: "acquiring_ok c s" using limiter_invD [OF assms(1)] by auto
  then obtain r where r: "r \<in> set (lm_active s)" "rq_sequence r = i" using True by (auto simp: limiter_core_def)
  have "distinct (map rq_sequence (lm_active s))" "distinct (map (\<lambda>j. j) (lm_settled s))"
    using core by (simp_all add: limiter_core_def)
  note filter_one [OF this(1) r(1)] filter_one [OF this(2) True]
  then have len: "Suc (length (filter (\<lambda>q. rq_sequence q \<noteq> i) (lm_active s))) = length (lm_active s)"
    "Suc (length (filter (\<lambda>j. j \<noteq> i) (lm_settled s))) = length (lm_settled s)" using r(2) by simp_all
  let ?t = "s\<lparr>lm_active := filter (\<lambda>q. rq_sequence q \<noteq> i) (lm_active s),
    lm_settled := filter (\<lambda>j. j \<noteq> i) (lm_settled s)\<rparr>"
  have "limiter_core c ?t" using core len by (auto simp: limiter_core_def distinct_map_filter)
  moreover have "acquiring_ok c ?t" using acq len by (auto simp: acquiring_ok_def)
  ultimately show ?thesis using True assms(2) by (auto simp: release_slot_def intro: kick_inv)
qed

lemma map_queue_core:
  assumes "limiter_core c s" "\<And>q. rq_sequence (f q) = rq_sequence q \<and> rq_priority (f q) = rq_priority q \<and>
    rq_discovery (f q) = rq_discovery q"
  shows "limiter_core c (s\<lparr>lm_queue := map f (lm_queue s)\<rparr>)"
proof -
  have f: "map rq_sequence (map f qs) = map rq_sequence qs" "map request_key (map f qs) = map request_key qs"
    "length (filter rq_discovery (map f qs)) = length (filter rq_discovery qs)" for qs
    using assms(2) by (simp_all add: request_key_def filter_map comp_def)
  show ?thesis
    using assms(1) assms(2) unfolding limiter_core_def by (auto simp del: map_map simp: f filter_map comp_def)
qed

lemma postpone_core: "limiter_core c s \<Longrightarrow> limiter_core c (postpone now r d s)"
  unfolding postpone_def Let_def by (erule map_queue_core) simp

lemma fail_core:
  assumes core: "limiter_core c s" and q: "in_queue r s"
  shows "limiter_core c (count_failed (rq_discovery r) (remove_request r s))"
  using core filter_core [OF core, of "\<lambda>q. rq_sequence q \<noteq> rq_sequence r"] remove_length [OF core q]
  by (auto simp: limiter_core_def count_failed_def remove_request_def Let_def)

lemma acquiring_fields [simp]:
  "lm_acquiring (count_failed b s) = lm_acquiring s" "lm_acquiring (remove_request r s) = lm_acquiring s"
  "lm_acquiring (postpone now r d s) = lm_acquiring s"
  by (simp_all add: count_failed_def remove_request_def postpone_def Let_def)

lemma answer_inv:
  assumes "limiter_inv c s" "1 \<le> lc_maxConcurrent c"
  shows "limiter_inv c (answer c now a s)"
proof (cases "lm_acquiring s")
  case None
  with assms(1) show ?thesis by (simp add: answer_def)
next
  case (Some r)
  have core: "limiter_core c s" and room: "length (lm_active s) < lc_maxConcurrent c"
    using limiter_invD [OF assms(1)] Some by (auto simp: acquiring_ok_def)
  show ?thesis
    unfolding answer_def Some option.case Let_def
    by (rule drain_inv [OF _ _ assms(2)])
      (use core room in \<open>auto simp: fail_core postpone_core dispatch_core split: budget_answer.split\<close>)
qed

lemma step_inv:
  assumes "limiter_inv c s" "valid_config c" "limiter_step c s s'"
  shows "limiter_inv c s'"
  using assms(3,1,2)
proof cases
  case (step_observed now)
  then show ?thesis using assms limiter_invD by (auto simp: valid_config_def intro: kick_inv)
qed (use assms in \<open>auto simp: valid_config_def intro: schedule_inv abort_inv cancel_inv observe_inv answer_inv
  settle_inv release_inv wake_inv\<close>)

lemma new_limiter_inv: "limiter_inv c new_limiter"
  by (simp add: limiter_inv_def limiter_core_def acquiring_ok_def attended_def new_limiter_def BROKER_BUDGET_def)

lemma reachable_inv: "limiter_reachable c s \<Longrightarrow> valid_config c \<Longrightarrow> limiter_inv c s"
  by (induction rule: limiter_reachable.induct) (auto intro: new_limiter_inv step_inv)

text \<open>
  C38: The scheduler in every reachable state. At most \<open>maxConcurrent\<close> operations hold a slot, and
  the settled ones among them are distinct; every accepted request is exactly once queued, running,
  completed, failed, cancelled or expired, where a request that has settled is counted as active as
  well until its \<open>finally\<close> has run; the queue is in the order of priority and arrival with at most
  500 discovery requests, all of the lowest priority; and the queue cannot stall: while a request
  waits, a budget answer, a settlement or a \<open>finally\<close> is outstanding or the wake timer is set.
\<close>

theorem scheduler_keeps_requests:
  assumes "valid_config c" "limiter_reachable c s"
  shows "length (lm_active s) \<le> lc_maxConcurrent c \<and>
     distinct (lm_settled s) \<and> set (lm_settled s) \<subseteq> set (map rq_sequence (lm_active s)) \<and>
     lm_sequence s + length (lm_settled s) = lm_completed s + lm_failed s + lm_cancelled s + lm_expired s +
       length (lm_queue s) + length (lm_active s) \<and>
     distinct (map rq_sequence (lm_queue s @ lm_active s)) \<and>
     sorted (map request_key (lm_queue s)) \<and>
     length (filter rq_discovery (lm_queue s)) \<le> 500 \<and>
     (\<forall>r \<in> set (lm_queue s). rq_discovery r \<longrightarrow> rq_priority r = P4) \<and>
     (lm_queue s = [] \<or> lm_acquiring s \<noteq> None \<or> lm_active s \<noteq> [] \<or> lm_wakeTimer s \<noteq> None)"
  using reachable_inv [OF assms(2,1)]
  by (simp add: limiter_inv_def limiter_core_def attended_def BROKER_BUDGET_def)

definition sample_config :: limiter_config where
  "sample_config = \<lparr>lc_maxConcurrent = 1, lc_reserveRequests = 2\<rparr>"

definition plain_options :: request_options where
  "plain_options = \<lparr>ro_discovery = False, ro_aborted = None, ro_expiresAt = NoExpiry\<rparr>"

definition granted_decision :: budget_decision where
  "granted_decision = \<lparr>bd_granted = True, bd_retryAfterMs = 0, bd_remainingHour = 14999, bd_remainingDiscoveryHour = 1800\<rparr>"

text \<open>Two requests: the first has been dispatched and has settled, and its caller has scheduled the
  second, a discovery, before the slot is free.\<close>

definition sample_limiter :: limiter where
  "sample_limiter = fst (schedule sample_config 1001 P1 (plain_options\<lparr>ro_discovery := True\<rparr>)
     (settle 0 True (answer sample_config 1000 (Decided granted_decision)
       (fst (schedule sample_config 1000 P1 plain_options new_limiter)))))"

lemma sample_limiter_reachable: "limiter_reachable sample_config sample_limiter"
proof -
  have "limiter_reachable c (fst (schedule c now p o1 s))" if "limiter_reachable c s" for c now p o1 s
    by (rule reachable_step [OF that step_schedule [OF surjective_pairing]])
  moreover have "limiter_reachable c (answer c now a s)" if "limiter_reachable c s" for c now a s
    by (rule reachable_step [OF that step_answer])
  moreover have "limiter_reachable c (settle i b s)" if "limiter_reachable c s" for c i b s
    by (rule reachable_step [OF that step_settle])
  ultimately show ?thesis unfolding sample_limiter_def by (metis reachable_new)
qed

lemma scheduler_keeps_requests_witness:
  "length (lm_active sample_limiter) = 1 \<and> lm_settled sample_limiter = [0] \<and> lm_completed sample_limiter = 1 \<and>
   map rq_priority (lm_queue sample_limiter) = [P4] \<and> lm_wakeTimer sample_limiter = Some 121001 \<and>
   lm_sequence sample_limiter = 2 \<and> distinct (map rq_sequence (lm_queue sample_limiter @ lm_active sample_limiter))"
proof -
  have "valid_config sample_config" by code_simp
  note inv = scheduler_keeps_requests [OF this sample_limiter_reachable]
  have "length (lm_active sample_limiter) = 1" "lm_settled sample_limiter = [0]" "lm_completed sample_limiter = 1"
    "map rq_priority (lm_queue sample_limiter) = [P4]" "lm_wakeTimer sample_limiter = Some 121001"
    "lm_sequence sample_limiter = 2" by code_simp+
  with inv show ?thesis by blast
qed

end
