(* ===== verification/OrderStore.thy ===== *)
theory OrderStore
  imports ExitLiquidity LedgerStore
begin

text \<open>
  The durable orders (\<open>paper-bot/pending-order-repository.ts\<close>) and the tables they live in. A
  \<open>database\<close> holds the rows the funded order service reads and writes; a transaction is a function
  that returns the new database, or the error, and then the database is as before (the rollback).
  The run row is locked for the whole of every transaction, so transactions of one run follow one
  another. A foreign key of the schema is a branch of the insertion that depends on it.

  A query without \<open>ORDER BY\<close> returns its rows in an order the database chooses: it sorts them by
  \<open>db_place\<close>, an arbitrary comparison that no operation depends on or changes. \<open>db_collate\<close> is the
  collation of its text columns. Time stamps read back from a column are milliseconds.
\<close>

section \<open>Rows\<close>

datatype run_status = RUNNING | CLOSE_PENDING | COMPLETED | FAILED

record bot_run =
  br_id :: string
  br_market :: market_id
  br_status :: run_status
  br_sessionDate :: string
  br_scheduledClose :: int

record instrument =
  in_id :: string
  in_market :: market_id
  in_currency :: currency
  in_sector :: "string option"

text \<open>The place of a fact in the inbox (\<open>FactOrder\<close>); the four columns are written and cleared together.\<close>

record fact_order =
  fo_at :: int
  fo_priority :: jsnum
  fo_sortKey :: string
  fo_id :: string

record funded_binding =
  bd_runId :: string
  bd_accountId :: string
  bd_currency :: currency
  bd_policy :: "funded_policy_t option"
  bd_clockAt :: "int option"
  bd_inflight :: "fact_order option"

record order_row =
  ow_orderId :: string
  ow_runId :: string
  ow_instrumentId :: string
  ow_submission :: pending_order
  ow_state :: pending_order
  ow_lastFactAt :: string
  ow_lastFactId :: "string option"
  ow_revision :: nat

record liquidity_row =
  lw_runId :: string
  lw_instrumentId :: string
  lw_state :: entry_liquidity
  lw_orders :: "pending_order list"

text \<open>\<open>FundedSessionFact\<close> of \<open>paper-bot/funded-session-driver.ts\<close>, the content of an inbox row.\<close>

datatype session_fact =
    Clock string
  | Signal string submit_input jsnum jsnum  \<comment> \<open>instrumentId, order, maximumDebit, maximumRisk\<close>
  | Quoted string quote_fact jsnum jsnum  \<comment> \<open>instrumentId, quote, participation, impactBps\<close>
  | Cancel string string cancel_reason "string option"
      \<comment> \<open>orderId, at, reason, preSubmissionEventId\<close>

record fact_row =
  fr_runId :: string
  fr_factId :: string
  fr_factAt :: int
  fr_priority :: jsnum
  fr_sortKey :: string
  fr_economicKey :: string
  fr_fact :: session_fact
  fr_outcome :: "string option"  \<comment> \<open>\<open>outcome->>'status'\<close>\<close>

record database =
  db_runs :: "bot_run list"
  db_instruments :: "instrument list"
  db_bindings :: "funded_binding list"
  db_accounts :: "(string \<times> account_store) list"
  db_orders :: "order_row list"
  db_liquidity :: "liquidity_row list"
  db_facts :: "fact_row list"
  db_place :: "order_row \<Rightarrow> order_row \<Rightarrow> jsnum"
  db_collate :: "string \<Rightarrow> string \<Rightarrow> jsnum"

section \<open>Queries and updates\<close>

definition find_run :: "database \<Rightarrow> string \<Rightarrow> bot_run option" where
  "find_run db runId = find (\<lambda>r. br_id r = runId) (db_runs db)"

definition find_instrument :: "database \<Rightarrow> string \<Rightarrow> instrument option" where
  "find_instrument db i = find (\<lambda>r. in_id r = i) (db_instruments db)"

definition find_binding :: "database \<Rightarrow> string \<Rightarrow> funded_binding option" where
  "find_binding db runId = find (\<lambda>b. bd_runId b = runId) (db_bindings db)"

definition find_order :: "database \<Rightarrow> string \<Rightarrow> order_row option" where
  "find_order db orderId = find (\<lambda>w. ow_orderId w = orderId) (db_orders db)"

definition find_liquidity :: "database \<Rightarrow> string \<Rightarrow> string \<Rightarrow> liquidity_row option" where
  "find_liquidity db runId i = find (\<lambda>r. lw_runId r = runId \<and> lw_instrumentId r = i) (db_liquidity db)"

text \<open>\<open>SELECT ... FROM paper_entry_order WHERE ...\<close> without an order\<close>

definition select_orders :: "database \<Rightarrow> (order_row \<Rightarrow> bool) \<Rightarrow> order_row list" where
  "select_orders db p = js_sort (db_place db) (filter p (db_orders db))"

text \<open>\<open>UPDATE paper_entry_order SET state=..., revision=revision+1 WHERE order_id=...\<close>\<close>

definition update_order :: "string option \<Rightarrow> string \<Rightarrow> database \<Rightarrow> pending_order \<Rightarrow> database" where
  "update_order cause instant db order = db\<lparr>db_orders := map (\<lambda>w.
     if ow_orderId w = r_orderId order
     then w\<lparr>ow_state := order, ow_lastFactAt := instant, ow_lastFactId := cause,
       ow_revision := ow_revision w + 1\<rparr> else w) (db_orders db)\<rparr>"

text \<open>\<open>INSERT ... ON CONFLICT(run_id,instrument_id) DO UPDATE\<close>\<close>

definition put_liquidity :: "database \<Rightarrow> liquidity_row \<Rightarrow> database" where
  "put_liquidity db r = db\<lparr>db_liquidity :=
     (if \<exists>x \<in> set (db_liquidity db). lw_runId x = lw_runId r \<and> lw_instrumentId x = lw_instrumentId r
      then map (\<lambda>x. if lw_runId x = lw_runId r \<and> lw_instrumentId x = lw_instrumentId r then r else x)
        (db_liquidity db)
      else db_liquidity db @ [r])\<rparr>"

text \<open>\<open>state->>'status'='PENDING'\<close>, and \<open>state->'execution'->>'status' IN ('OPEN','CLOSE_PENDING')\<close>\<close>

definition is_pending :: "pending_order \<Rightarrow> bool" where
  "is_pending r \<longleftrightarrow> r_status r = PENDING"

definition has_open_execution :: "pending_order \<Rightarrow> bool" where
  "has_open_execution r \<longleftrightarrow> (case r_execution r of Some (QOpen x) \<Rightarrow> True
     | Some (QClosePending x) \<Rightarrow> True | _ \<Rightarrow> False)"

section \<open>The store\<close>

text \<open>What a transaction does beside the order rows; an error of the effects rolls it back.\<close>

type_synonym 'a effects = "database \<Rightarrow> 'a \<Rightarrow> database result"

definition require_funded_effects :: "database \<Rightarrow> string \<Rightarrow> bool \<Rightarrow> unit result" where
  "require_funded_effects db runId hasEffects =
     (if \<not> hasEffects \<and> find_binding db runId \<noteq> None
      then throw ''Funded runs require transactional ledger effects'' else Inr ())"

definition run_effects :: "'a effects option \<Rightarrow> 'a effects" where
  "run_effects effects db x = (case effects of None \<Rightarrow> Inr db | Some f \<Rightarrow> f db x)"

definition insert_order :: "database \<Rightarrow> string \<Rightarrow> string \<Rightarrow> pending_order \<Rightarrow> string option \<Rightarrow>
    database result" where
  "insert_order db runId i initial cause =
     (if find_run db runId = None \<or> find_instrument db i = None
      then throw ''insert violates foreign key constraint''
      else Inr (db\<lparr>db_orders := db_orders db @ [\<lparr>ow_orderId = r_orderId initial, ow_runId = runId,
        ow_instrumentId = i, ow_submission = initial, ow_state = initial,
        ow_lastFactAt = r_submittedAt initial, ow_lastFactId = cause, ow_revision = 0\<rparr>]\<rparr>))"

definition store_submit :: "database \<Rightarrow> string \<Rightarrow> string \<Rightarrow> submit_input \<Rightarrow> pending_order effects option \<Rightarrow>
    pending_order effects option \<Rightarrow> string option \<Rightarrow> (database \<times> pending_order) result" where
  "store_submit db runId i input persistEffects validateRetry cause =
     bindR (submit_entry_order input) (\<lambda>initial.
     bindR (require_funded_effects db runId (persistEffects \<noteq> None)) (\<lambda>_.
     case find_order db (r_orderId initial) of
       None \<Rightarrow> bindR (insert_order db runId i initial cause) (\<lambda>db1.
         bindR (run_effects persistEffects db1 initial) (\<lambda>db2. Inr (db2, initial)))
     | Some w \<Rightarrow>
         if ow_runId w \<noteq> runId \<or> ow_instrumentId w \<noteq> i \<or> ow_submission w \<noteq> initial
         then throw ''Order ID reused with different submission''
         else bindR (run_effects validateRetry db initial) (\<lambda>db1. Inr (db1, ow_state w))))"

text \<open>The orders a quote may change, in the collation order of their identifiers.\<close>

definition quotable :: "string \<Rightarrow> string \<Rightarrow> order_row \<Rightarrow> bool" where
  "quotable runId i w \<longleftrightarrow> ow_runId w = runId \<and> ow_instrumentId w = i \<and>
     (is_pending (ow_state w) \<or> r_status (ow_state w) = FILLED \<and> has_open_execution (ow_state w))"

definition quotable_orders :: "database \<Rightarrow> string \<Rightarrow> string \<Rightarrow> pending_order list" where
  "quotable_orders db runId i = map ow_state (js_sort (\<lambda>x y. db_collate db (ow_orderId x) (ow_orderId y))
     (filter (quotable runId i) (db_orders db)))"

text \<open>\<open>orders.map(...)\<close> with a callback that may throw\<close>

fun mapR :: "('a \<Rightarrow> 'b result) \<Rightarrow> 'a list \<Rightarrow> 'b list result" where
  "mapR f [] = Inr []"
| "mapR f (x # xs) = bindR (f x) (\<lambda>y. bindR (mapR f xs) (\<lambda>ys. Inr (y # ys)))"

definition close_out :: "quote_fact \<Rightarrow> string \<Rightarrow> pending_order \<Rightarrow> pending_order result" where
  "close_out quote closeAt order =
     (if r_status order = PENDING \<and> date_parse closeAt \<le> date_parse (q_timestamp quote)
      then cancel_entry_order order (q_timestamp quote) SESSION_CLOSED else Inr order)"

text \<open>Exits first, then the cancellations of the close, then entries on what is left.\<close>

definition allocate_orders :: "entry_liquidity \<Rightarrow> pending_order list \<Rightarrow> quote_fact \<Rightarrow> jsnum \<Rightarrow> jsnum \<Rightarrow>
    string \<Rightarrow> funded_portfolio_policy option \<Rightarrow> (entry_liquidity \<times> pending_order list) result" where
  "allocate_orders initial orders quote participation impactBps closeAt portfolio =
     bindR (allocate_exit_liquidity orders quote participation impactBps (Some closeAt) portfolio)
       (\<lambda>(exited, consumedShares).
     bindR (mapR (close_out quote closeAt) exited) (\<lambda>eligible.
     allocate_entry_liquidity (initial\<lparr>el_consumedBidShares := consumedShares\<rparr>)
       (el_instrumentId initial) eligible))"

definition changed_orders :: "pending_order list \<Rightarrow> pending_order list \<Rightarrow> pending_order list" where
  "changed_orders before after = map snd (filter (\<lambda>(x, y). y \<noteq> x) (zip before after))"

definition store_allocate_quote :: "database \<Rightarrow> string \<Rightarrow> string \<Rightarrow> quote_fact \<Rightarrow> jsnum \<Rightarrow> jsnum \<Rightarrow>
    pending_order list effects option \<Rightarrow> funded_portfolio_policy option \<Rightarrow> string option \<Rightarrow>
    (database \<times> entry_liquidity \<times> pending_order list) result" where
  "store_allocate_quote db runId i quote participation impactBps persistEffects portfolio cause =
     bindR (open_entry_liquidity i quote participation impactBps) (\<lambda>initial.
     case find_run db runId of None \<Rightarrow> throw ''Order run not found''
     | Some run \<Rightarrow>
       bindR (require_funded_effects db runId (persistEffects \<noteq> None)) (\<lambda>_.
       let fresh = bindR (to_iso_string (num (br_scheduledClose run))) (\<lambda>closeAt.
           let orders = quotable_orders db runId i in
           bindR (allocate_orders initial orders quote participation impactBps closeAt portfolio)
             (\<lambda>(liquidity, orders').
           let changed = changed_orders orders orders' in
           bindR (run_effects persistEffects db changed) (\<lambda>db1.
           Inr (put_liquidity (foldl (update_order cause (q_timestamp quote)) db1 changed)
               \<lparr>lw_runId = runId, lw_instrumentId = i, lw_state = liquidity, lw_orders = orders'\<rparr>,
             liquidity, orders'))))
       in case find_liquidity db runId i of None \<Rightarrow> fresh
         | Some previous \<Rightarrow>
           (let prior = date_parse (q_timestamp (el_quote (lw_state previous)));
                current = date_parse (q_timestamp quote) in
            if current \<le> prior then
              (if current < prior then throw ''Out-of-order shared quote''
               else if el_quote (lw_state previous) \<noteq> quote \<or>
                 \<not> js_eq (el_participation (lw_state previous)) participation \<or>
                 \<not> js_eq (el_impactBps (lw_state previous)) impactBps
               then throw ''Conflicting shared quote retry''
               else Inr (db, lw_state previous, lw_orders previous))
            else fresh)))"

text \<open>\<open>pending\<close>: in the order of release; the table is in the order of creation.\<close>

definition store_pending :: "database \<Rightarrow> string \<Rightarrow> pending_order list" where
  "store_pending db runId = map ow_state (js_sort
     (\<lambda>x y. date_parse (r_releaseAt (ow_state x)) - date_parse (r_releaseAt (ow_state y)))
     (filter (\<lambda>w. ow_runId w = runId \<and> is_pending (ow_state w)) (db_orders db)))"

text \<open>The part of an order that no transition may change.\<close>

definition submission_of :: "pending_order \<Rightarrow> pending_order" where
  "submission_of r = r\<lparr>r_status := PENDING, r_lastQuoteAt := None, r_execution := None, r_reason := None\<rparr>"

definition store_transition :: "database \<Rightarrow> string \<Rightarrow> string \<Rightarrow> (pending_order \<Rightarrow> pending_order result) \<Rightarrow>
    pending_order effects option \<Rightarrow> string option \<Rightarrow> string option \<Rightarrow> (database \<times> pending_order) result" where
  "store_transition db runId orderId evolve persistEffects factAt cause =
     bindR (require_funded_effects db runId (persistEffects \<noteq> None)) (\<lambda>_.
     case find (\<lambda>w. ow_orderId w = orderId \<and> ow_runId w = runId) (db_orders db) of
       None \<Rightarrow> throw ''Order not found in run''
     | Some w \<Rightarrow>
       let current = ow_state w in
       if r_status current \<noteq> PENDING then Inr (db, current)
       else bindR (evolve current) (\<lambda>after.
         if submission_of after \<noteq> submission_of current then throw ''Order submission is immutable''
         else if after \<noteq> current
         then bindR (run_effects persistEffects db after) (\<lambda>db1.
           Inr (update_order cause (coalesce factAt (ow_lastFactAt w)) db1 after, after))
         else Inr (db, after)))"

end
