(* ===== verification/OrderService.thy ===== *)
theory OrderService
  imports OrderStore
begin

text \<open>
  The funded order service (\<open>paper-bot/funded-order-service.ts\<close>): binding a run to an account,
  submission with its reservation, cancellation, the clock and quotes. Each operation composes the
  order store, the ledger store and the portfolio checks in the transaction the source runs. A
  quote that meets a risk veto cancels the vetoed order and tries again: \<open>quote_orders\<close> is that
  recursion, and it returns the database with the result because a cancellation that has been
  committed stays when a later attempt fails.
\<close>

record order_service =
  os_runId :: string
  os_accountId :: string
  os_currency :: currency

definition ledger_currency_of :: "currency \<Rightarrow> ledger_currency" where
  "ledger_currency_of c = (case c of CAD \<Rightarrow> LCAD | USD \<Rightarrow> LUSD)"

definition currency_of_market :: "market_id \<Rightarrow> currency" where
  "currency_of_market m = (case m of CA_TSX \<Rightarrow> CAD | US_EQUITIES \<Rightarrow> USD)"

definition find_account :: "database \<Rightarrow> string \<Rightarrow> account_store option" where
  "find_account db accountId = map_of (db_accounts db) accountId"

section \<open>Policies\<close>

definition same_funded_policy :: "funded_policy_t option \<Rightarrow> funded_policy_t \<Rightarrow> bool result" where
  "same_funded_policy left right =
     bindR (case left of None \<Rightarrow> Inr None
       | Some p \<Rightarrow> bindR (normalize_funded_policy p) (\<lambda>n. Inr (Some n))) (\<lambda>normalizedLeft.
     bindR (normalize_funded_policy right) (\<lambda>normalizedRight.
     Inr (normalizedLeft = Some normalizedRight)))"

definition quote_matches_funded_policy :: "funded_policy_t option \<Rightarrow> jsnum \<Rightarrow> jsnum \<Rightarrow> bool result" where
  "quote_matches_funded_policy policy participation impactBps = (case policy of None \<Rightarrow> Inr False
     | Some p \<Rightarrow> bindR (normalize_funded_policy p) (\<lambda>bound.
       Inr (is_finite participation \<and> Fin 0 < participation \<and> participation \<le> Fin 1 \<and>
         is_finite impactBps \<and> Fin 0 \<le> impactBps \<and> impactBps \<le> Fin 10000 \<and>
         js_eq (y_participation bound) participation \<and> js_eq (y_impactBps bound) impactBps)))"

section \<open>The ledger inside a transaction\<close>

text \<open>\<open>causeRunId: causeFactId ? this.runId : undefined\<close>, and the check that both are given\<close>

definition cause_of :: "order_service \<Rightarrow> string option \<Rightarrow> (string \<times> string) option result" where
  "cause_of sv causeFactId = (case causeFactId of None \<Rightarrow> Inr None
     | Some f \<Rightarrow> if f = [] then throw ''Ledger event cause requires both run and fact identity''
         else Inr (Some (os_runId sv, f)))"

definition mark_age :: jsnum where
  "mark_age = Fin 30000"

definition ledger_transaction :: "order_service \<Rightarrow> string option \<Rightarrow> database \<Rightarrow> ledger_event list \<Rightarrow>
    database result" where
  "ledger_transaction sv causeFactId db es =
     bindR (cause_of sv causeFactId) (\<lambda>cause.
     case find_account db (os_accountId sv) of None \<Rightarrow> throw ''Funded account not found''
     | Some s \<Rightarrow> bindR (apply_in_transaction checkpoint_event_interval mark_age cause s es) (\<lambda>s'.
         Inr (db\<lparr>db_accounts := AList.update (os_accountId sv) s' (db_accounts db)\<rparr>)))"

definition ledger_event_of :: "order_service \<Rightarrow> string \<Rightarrow> string \<Rightarrow> ledger_action \<Rightarrow> ledger_event" where
  "ledger_event_of sv i instant action = \<lparr>ev_id = i, ev_at = instant,
     ev_currency = ledger_currency_of (os_currency sv), ev_action = action\<rparr>"

definition release_event :: "order_service \<Rightarrow> string \<Rightarrow> string \<Rightarrow> ledger_event" where
  "release_event sv orderId instant =
     ledger_event_of sv (''release:'' @ orderId) instant (Release orderId)"

section \<open>Binding\<close>

text \<open>The obligations of an earlier run of the account.\<close>

definition unresolved_run :: "database \<Rightarrow> string \<Rightarrow> bool" where
  "unresolved_run db runId \<longleftrightarrow>
     (\<exists>w \<in> set (db_orders db). ow_runId w = runId \<and>
        (is_pending (ow_state w) \<or> has_open_execution (ow_state w))) \<or>
     (\<exists>f \<in> set (db_facts db). fr_runId f = runId \<and> fr_outcome f = None)"

fun check_prior_runs :: "database \<Rightarrow> funded_policy_t \<Rightarrow> (funded_binding \<times> bot_run) list \<Rightarrow> unit result" where
  "check_prior_runs db canonical [] = Inr ()"
| "check_prior_runs db canonical ((b, r) # rest) =
     (if br_status r \<noteq> COMPLETED then Inl (FundedPriorRunActive (bd_runId b))
      else if unresolved_run db (bd_runId b) then throw ''Funded account has unresolved prior orders''
      else bindR (case bd_policy b of None \<Rightarrow> Inr True
          | Some p \<Rightarrow> same_funded_policy (Some p) canonical) (\<lambda>same.
        if \<not> same then throw ''Funded account policy is immutable''
        else check_prior_runs db canonical rest))"

definition prior_runs :: "order_service \<Rightarrow> database \<Rightarrow> (funded_binding \<times> bot_run) list" where
  "prior_runs sv db = List.map_filter (\<lambda>b. map_option (Pair b) (find_run db (bd_runId b)))
     (rev (filter (\<lambda>b. bd_accountId b = os_accountId sv \<and> bd_runId b \<noteq> os_runId sv) (db_bindings db)))"

definition set_clock :: "string \<Rightarrow> (int option \<Rightarrow> int option) \<Rightarrow> database \<Rightarrow> database" where
  "set_clock runId f db = db\<lparr>db_bindings := map (\<lambda>b. if bd_runId b = runId
     then b\<lparr>bd_clockAt := f (bd_clockAt b)\<rparr> else b) (db_bindings db)\<rparr>"

definition int_of_time :: "string \<Rightarrow> int" where
  "int_of_time s = int_of (date_parse s)"

definition session_rollover :: "order_service \<Rightarrow> database \<Rightarrow> ledger \<Rightarrow> string \<Rightarrow> string \<Rightarrow> database result" where
  "session_rollover sv db state session instant =
     (if session = [] \<or> \<not> is_finite (date_parse instant) then throw ''Invalid funded session rollover''
      else bindR (to_iso_string (math_max (date_parse instant) (date_parse (lg_lastEventAt state))))
        (\<lambda>sessionAt.
      bindR (if lg_session state \<noteq> session
          then ledger_transaction sv None db [ledger_event_of sv
            (''session:'' @ os_accountId sv @ '':'' @ session) sessionAt (Session session)]
          else Inr db) (\<lambda>db1.
      Inr (set_clock (os_runId sv) (\<lambda>c. Some (case c of None \<Rightarrow> int_of_time sessionAt
        | Some t \<Rightarrow> max t (int_of_time sessionAt))) db1))))"

definition bind_run :: "order_service \<Rightarrow> database \<Rightarrow> funded_policy_t \<Rightarrow> (string \<times> string) option \<Rightarrow>
    database result" where
  "bind_run sv db policy session =
     bindR (normalize_funded_policy policy) (\<lambda>canonical.
     case find_run db (os_runId sv) of None \<Rightarrow> throw ''Funded run market/currency mismatch''
     | Some run \<Rightarrow>
       if currency_of_market (br_market run) \<noteq> os_currency sv
       then throw ''Funded run market/currency mismatch''
       else (case find_account db (os_accountId sv) of None \<Rightarrow> throw ''Funded account currency mismatch''
       | Some account \<Rightarrow>
         if lg_currency (ac_state account) \<noteq> ledger_currency_of (os_currency sv)
         then throw ''Funded account currency mismatch''
         else (case find_binding db (os_runId sv) of
           Some b \<Rightarrow>
             bindR (if bd_accountId b \<noteq> os_accountId sv \<or> bd_currency b \<noteq> os_currency sv then Inr False
               else same_funded_policy (bd_policy b) canonical) (\<lambda>same.
             if same then Inr db else throw ''Funded run binding is immutable'')
         | None \<Rightarrow>
             bindR (check_prior_runs db canonical (prior_runs sv db)) (\<lambda>_.
             if \<exists>w \<in> set (db_orders db). ow_runId w = os_runId sv
             then throw ''Cannot bind a run with existing unfunded orders''
             else let db1 = db\<lparr>db_bindings := db_bindings db @ [\<lparr>bd_runId = os_runId sv,
                 bd_accountId = os_accountId sv, bd_currency = os_currency sv,
                 bd_policy = Some canonical, bd_clockAt = None, bd_inflight = None\<rparr>]\<rparr> in
               (case session of None \<Rightarrow> Inr db1
                | Some (name, instant) \<Rightarrow>
                    session_rollover sv db1 (ac_state account) name instant)))))"

definition verify_binding :: "order_service \<Rightarrow> database \<Rightarrow> string option \<Rightarrow> unit result" where
  "verify_binding sv db instrumentId =
     (if \<not> (\<exists>b \<in> set (db_bindings db). bd_runId b = os_runId sv \<and> bd_accountId b = os_accountId sv \<and>
         bd_currency b = os_currency sv)
      then throw ''Funded run is not bound to this account''
      else (case instrumentId of None \<Rightarrow> Inr ()
        | Some i \<Rightarrow>
          if \<exists>x \<in> set (db_instruments db). in_id x = i \<and> in_currency x = os_currency sv \<and>
            (\<exists>r \<in> set (db_runs db). br_id r = os_runId sv \<and> br_market r = in_market x)
          then Inr () else throw ''Instrument does not match funded run market/currency''))"

section \<open>Time\<close>

text \<open>A pre-close signal is still admitted when it is exactly the claimed inbox envelope.\<close>

definition recovers :: "order_service \<Rightarrow> database \<Rightarrow> string \<Rightarrow> session_fact option \<Rightarrow> bool" where
  "recovers sv db instant retained = (case retained of None \<Rightarrow> False
     | Some signal \<Rightarrow> \<exists>b \<in> set (db_bindings db). bd_runId b = os_runId sv \<and>
         (\<exists>f \<in> set (db_facts db). fr_runId f = os_runId sv \<and> map_option fo_id (bd_inflight b) = Some (fr_factId f) \<and>
            fr_outcome f = None \<and> (case fr_fact f of Signal i s d r \<Rightarrow> True | _ \<Rightarrow> False) \<and>
            fr_fact f = signal \<and> fr_factAt f = int_of_time instant))"

definition verify_time :: "order_service \<Rightarrow> database \<Rightarrow> string \<Rightarrow> bool \<Rightarrow> session_fact option \<Rightarrow>
    unit result" where
  "verify_time sv db instant entry retained =
     (case (find_binding db (os_runId sv), find_run db (os_runId sv)) of
       (Some b, Some r) \<Rightarrow>
         if \<not> is_finite (date_parse instant) \<or>
           (case bd_clockAt b of None \<Rightarrow> False | Some t \<Rightarrow> date_parse instant < num t)
         then throw ''Fact precedes funded clock''
         else if \<not> entry then Inr ()
         else if num (br_scheduledClose r) \<le> date_parse instant
         then throw ''Funded session is closed for submissions''
         else if br_status r \<noteq> RUNNING \<and> \<not> (br_status r = CLOSE_PENDING \<and> recovers sv db instant retained)
         then throw ''Funded session is closed for submissions''
         else Inr ()
     | _ \<Rightarrow> throw ''Fact precedes funded clock'')"

section \<open>Portfolio checks\<close>

text \<open>The position of an execution that has one (\<open>"position" in execution\<close>)\<close>

definition execution_position :: "quote_execution_state \<Rightarrow> open_position option" where
  "execution_position s = (case s of QOpen x \<Rightarrow> Some (ox_position x)
     | QClosePending x \<Rightarrow> Some (ox_position x) | QClosed x \<Rightarrow> Some (cx_position x) | _ \<Rightarrow> None)"

record final_exit =
  fe_at :: string
  fe_stopped :: bool
  fe_instrumentId :: string

definition final_exit_of :: "pending_order \<Rightarrow> (string \<times> bool) option" where
  "final_exit_of state = (case r_execution state of
      Some (QClosed x) \<Rightarrow> (let fills = coalesce (p_exitFills (cx_position x)) [] in
        if fills = [] then None
        else Some (xo_exitTime (List.last fills), xo_exitReason (List.last fills) = STOP))
    | _ \<Rightarrow> None)"

definition override :: "pending_order list \<Rightarrow> pending_order \<Rightarrow> pending_order" where
  "override overrides state = coalesce (find (\<lambda>v. r_orderId v = r_orderId state) overrides) state"

record active_row =
  ar_instrumentId :: string
  ar_sector :: "string option"
  ar_state :: pending_order

definition is_active :: "pending_order \<Rightarrow> bool" where
  "is_active r \<longleftrightarrow> is_pending r \<or> has_open_execution r"

text \<open>The orders and positions of the run that are active once the overrides are in place.\<close>

definition active_rows :: "order_service \<Rightarrow> database \<Rightarrow> pending_order list \<Rightarrow> active_row list" where
  "active_rows sv db overrides =
     filter (\<lambda>a. is_active (ar_state a))
       (List.map_filter (\<lambda>w. map_option (\<lambda>i. \<lparr>ar_instrumentId = ow_instrumentId w,
           ar_sector = in_sector i, ar_state = override overrides (ow_state w)\<rparr>)
           (find_instrument db (ow_instrumentId w)))
         (select_orders db (\<lambda>w. ow_runId w = os_runId sv \<and> is_active (ow_state w))))"

definition order_notional :: "pending_order \<Rightarrow> jsnum" where
  "order_notional v = (case (r_status v, Option.bind (r_execution v) execution_position) of
      (FILLED, Some p) \<Rightarrow> p_entryPrice p * remaining_of p
    | _ \<Rightarrow> a_positionSize (r_assumptions v))"

definition veto :: "pending_order \<Rightarrow> string \<Rightarrow> string \<Rightarrow> 'a result" where
  "veto order message code = Inl (FundedRiskVeto (r_orderId order) message code)"

definition context_readings :: "pending_order \<Rightarrow> context_reading list" where
  "context_readings order = (case r_context order of None \<Rightarrow> []
     | Some c \<Rightarrow> (case x_contexts c of Some rs \<Rightarrow> rs
       | None \<Rightarrow> (case x_contextStatus c of None \<Rightarrow> []
         | Some st \<Rightarrow> [\<lparr>cr_signalKey = ''MARKET_RELATIVE_STRENGTH'', cr_status = st,
             cr_timestamp = coalesce (x_contextTimestamp c) []\<rparr>])))"

definition required_contexts :: "funded_portfolio_policy \<Rightarrow> string list" where
  "required_contexts v = (if v_contextRequirement v = Some MARKET_AND_SECTOR_REQUIRED
     then [''MARKET_RELATIVE_STRENGTH'', ''SECTOR_RELATIVE_STRENGTH'']
     else [''MARKET_RELATIVE_STRENGTH''])"

definition check_context :: "funded_portfolio_policy \<Rightarrow> pending_order \<Rightarrow> string \<Rightarrow> string \<Rightarrow> unit result" where
  "check_context v order instant key =
     (let reading = find (\<lambda>r. cr_signalKey r = key) (context_readings order);
          age = date_parse instant - (case reading of None \<Rightarrow> NaN | Some r \<Rightarrow> date_parse (cr_timestamp r)) in
      if v_requireFreshContext v \<and>
         ((case reading of None \<Rightarrow> True | Some r \<Rightarrow> cr_status r \<in> {UNAVAILABLE, STALE}) \<or>
          \<not> is_finite age \<or> age < Fin 0 \<or> v_contextMaxAgeSeconds v * Fin 1000 < age)
      then veto order ''Funded portfolio context unavailable or stale veto'' ''CONTEXT_UNAVAILABLE_OR_STALE''
      else if v_vetoOnWeakContext v \<and> map_option cr_status reading = Some WEAK
      then veto order ''Funded portfolio weak-context veto'' ''WEAK_CONTEXT''
      else Inr ())"

fun check_contexts :: "funded_portfolio_policy \<Rightarrow> pending_order \<Rightarrow> string \<Rightarrow> string list \<Rightarrow> unit result" where
  "check_contexts v order instant [] = Inr ()"
| "check_contexts v order instant (key # keys) =
     bindR (check_context v order instant key) (\<lambda>_. check_contexts v order instant keys)"

definition check_symbol :: "funded_portfolio_policy \<Rightarrow> pending_order \<Rightarrow> string \<Rightarrow> active_row list \<Rightarrow> unit result" where
  "check_symbol v order instrumentId active = (case v_maxSymbolNotional v of None \<Rightarrow> Inr ()
     | Some limit \<Rightarrow>
       if limit < sum_of (\<lambda>a. order_notional (ar_state a)) (filter (\<lambda>a. ar_instrumentId a = instrumentId) active)
       then veto order ''Funded portfolio symbol exposure veto'' ''SYMBOL_EXPOSURE'' else Inr ())"

definition check_sector :: "funded_portfolio_policy \<Rightarrow> pending_order \<Rightarrow> string \<Rightarrow> active_row list \<Rightarrow> unit result" where
  "check_sector v order instrumentId active = (case v_maxSectorNotional v of None \<Rightarrow> Inr ()
     | Some limit \<Rightarrow>
       (case Option.bind (find (\<lambda>a. ar_instrumentId a = instrumentId) active) ar_sector of
         None \<Rightarrow> veto order ''Funded portfolio sector exposure unavailable'' ''SECTOR_EXPOSURE''
       | Some sector \<Rightarrow>
         if sector = [] then veto order ''Funded portfolio sector exposure unavailable'' ''SECTOR_EXPOSURE''
         else if limit < sum_of (\<lambda>a. order_notional (ar_state a)) (filter (\<lambda>a. ar_sector a = Some sector) active)
         then veto order ''Funded portfolio sector exposure veto'' ''SECTOR_EXPOSURE'' else Inr ()))"

text \<open>The final exits of the account's orders of this session, latest first.\<close>

definition session_exits :: "order_service \<Rightarrow> database \<Rightarrow> string \<Rightarrow> string \<Rightarrow> pending_order list \<Rightarrow>
    final_exit list" where
  "session_exits sv db orderId session overrides =
     js_sort (\<lambda>x y. date_parse (fe_at y) - date_parse (fe_at x))
       (List.map_filter (\<lambda>w. map_option (\<lambda>(t, stopped). \<lparr>fe_at = t, fe_stopped = stopped,
            fe_instrumentId = ow_instrumentId w\<rparr>) (final_exit_of (override overrides (ow_state w))))
         (select_orders db (\<lambda>w. ow_orderId w \<noteq> orderId \<and>
           (\<exists>b \<in> set (db_bindings db). bd_runId b = ow_runId w \<and> bd_accountId b = os_accountId sv) \<and>
           (\<exists>r \<in> set (db_runs db). br_id r = ow_runId w \<and> br_sessionDate r = session))))"

definition check_history :: "funded_portfolio_policy \<Rightarrow> pending_order \<Rightarrow> string \<Rightarrow> string \<Rightarrow>
    final_exit list \<Rightarrow> unit result" where
  "check_history v order instrumentId instant exits =
     (if (case find (\<lambda>x. fe_stopped x \<and> fe_instrumentId x = instrumentId) exits of None \<Rightarrow> False
          | Some x \<Rightarrow> date_parse instant < date_parse (fe_at x) + v_cooldownMinutesAfterStop v * Fin 60000)
      then veto order ''Funded portfolio post-stop cooldown veto'' ''POST_STOP_COOLDOWN''
      else if v_maxConsecutiveStops v \<le> num (int (length (takeWhile fe_stopped exits)))
      then veto order ''Funded portfolio consecutive-stop limit veto'' ''CONSECUTIVE_STOP_LIMIT''
      else Inr ())"

definition bound_policy :: "order_service \<Rightarrow> database \<Rightarrow> funded_policy_t option" where
  "bound_policy sv db = Option.bind (find_binding db (os_runId sv)) bd_policy"

definition check_portfolio :: "order_service \<Rightarrow> database \<Rightarrow> pending_order \<Rightarrow> string \<Rightarrow> string \<Rightarrow> ledger \<Rightarrow>
    jsnum \<Rightarrow> pending_order list \<Rightarrow> unit result" where
  "check_portfolio sv db order instrumentId instant l additionalRisk overrides =
     bindR (case bound_policy sv db of None \<Rightarrow> throw ''TypeError: policy is null''
       | Some p \<Rightarrow> normalize_funded_policy p) (\<lambda>policy.
     case y_portfolio policy of None \<Rightarrow> Inr ()
     | Some v \<Rightarrow>
       bindR (funded_account_summary l instant mark_age) (\<lambda>summary.
       let active = active_rows sv db overrides in
       if v_maxOpenPositions v < num (int (length active))
       then veto order ''Funded portfolio maximum open positions veto'' ''MAX_OPEN_POSITIONS''
       else if v_maxTotalOpenRisk v < w_openRisk summary + w_reservedRisk summary + additionalRisk
       then veto order ''Funded portfolio maximum open risk veto'' ''MAX_TOTAL_OPEN_RISK''
       else bindR (check_contexts v order instant (required_contexts v)) (\<lambda>_.
         bindR (check_symbol v order instrumentId active) (\<lambda>_.
         bindR (check_sector v order instrumentId active) (\<lambda>_.
         check_history v order instrumentId instant
           (session_exits sv db (r_orderId order) (lg_session l) overrides))))))"

section \<open>Submission\<close>

definition reserve_event :: "order_service \<Rightarrow> pending_order \<Rightarrow> jsnum \<Rightarrow> jsnum \<Rightarrow> ledger_event" where
  "reserve_event sv order maximumDebit maximumRisk =
     ledger_event_of sv (''reserve:'' @ r_orderId order) (r_submittedAt order)
       (Reserve (r_orderId order) maximumDebit maximumRisk)"

definition reserve :: "order_service \<Rightarrow> string \<Rightarrow> jsnum \<Rightarrow> jsnum \<Rightarrow> string option \<Rightarrow> pending_order effects" where
  "reserve sv instrumentId maximumDebit maximumRisk cause db order =
     bindR (verify_binding sv db (Some instrumentId)) (\<lambda>_.
     case find_account db (os_accountId sv) of None \<Rightarrow> throw ''Funded account not found''
     | Some account \<Rightarrow>
       let l = ac_state account;
           existing = find (\<lambda>w. ow_runId w = os_runId sv \<and> ow_orderId w = r_orderId order) (db_orders db);
           retryHasEffects = (map_of (lg_reservations l) (r_orderId order) \<noteq> None \<or>
             (case existing of None \<Rightarrow> False | Some w \<Rightarrow> r_status (ow_state w) \<noteq> PENDING)) in
       bindR (if retryHasEffects then Inr ()
         else check_portfolio sv db order instrumentId (r_submittedAt order) l maximumRisk []) (\<lambda>_.
       ledger_transaction sv cause db [reserve_event sv order maximumDebit maximumRisk]))"

definition submit_order :: "order_service \<Rightarrow> database \<Rightarrow> string \<Rightarrow> submit_input \<Rightarrow> jsnum \<Rightarrow> jsnum \<Rightarrow>
    string option \<Rightarrow> (database \<times> pending_order) result" where
  "submit_order sv db instrumentId input maximumDebit maximumRisk cause =
     bindR (verify_binding sv db (Some instrumentId)) (\<lambda>_.
     if c_currency (cost_snapshot_of (si_assumptions input)) \<noteq> os_currency sv
     then throw ''Order costs do not match funded currency''
     else store_submit db (os_runId sv) instrumentId input
       (Some (\<lambda>db1 order. bindR (verify_time sv db1 (r_submittedAt order) True
           (Some (Signal instrumentId input maximumDebit maximumRisk))) (\<lambda>_.
         reserve sv instrumentId maximumDebit maximumRisk cause db1 order)))
       (Some (reserve sv instrumentId maximumDebit maximumRisk cause)) cause)"

section \<open>Cancellation\<close>

datatype no_op_reason = RESERVATION_VETO | PRE_SUBMISSION_INVALIDATION

datatype cancellation = Transitioned pending_order | NoOp no_op_reason

definition run_has_order :: "order_service \<Rightarrow> database \<Rightarrow> string \<Rightarrow> bool" where
  "run_has_order sv db orderId \<longleftrightarrow>
     (\<exists>w \<in> set (db_orders db). ow_runId w = os_runId sv \<and> ow_orderId w = orderId)"

definition run_facts :: "order_service \<Rightarrow> database \<Rightarrow> fact_row list" where
  "run_facts sv db = filter (\<lambda>f. fr_runId f = os_runId sv) (db_facts db)"

definition invalidation_proven :: "order_service \<Rightarrow> database \<Rightarrow> string \<Rightarrow> string \<Rightarrow> bool" where
  "invalidation_proven sv db orderId eventId \<longleftrightarrow> (\<exists>f \<in> set (run_facts sv db).
     fr_factId f = ''funded-invalidation:'' @ eventId \<and>
     (case fr_fact f of Cancel i t reason pre \<Rightarrow> i = orderId \<and> pre = Some eventId | _ \<Rightarrow> False))"

definition reservation_vetoed :: "order_service \<Rightarrow> database \<Rightarrow> string \<Rightarrow> bool" where
  "reservation_vetoed sv db orderId \<longleftrightarrow> (\<exists>f \<in> set (run_facts sv db).
     (case fr_fact f of Signal i order debit risk \<Rightarrow> si_orderId order = orderId | _ \<Rightarrow> False) \<and>
     fr_outcome f = Some ''RISK_VETO'')"

definition suppressed_before :: "order_service \<Rightarrow> database \<Rightarrow> string \<Rightarrow> string \<Rightarrow> bool" where
  "suppressed_before sv db orderId instant \<longleftrightarrow> (\<exists>f \<in> set (run_facts sv db).
     (case fr_fact f of Cancel i t reason pre \<Rightarrow> i = orderId \<and>
        (case pre of None \<Rightarrow> False | Some e \<Rightarrow> fr_factId f = ''funded-invalidation:'' @ e) | _ \<Rightarrow> False) \<and>
     fr_outcome f = Some ''PRE_SUBMISSION_SUPPRESSED'' \<and> fr_factAt f \<le> int_of_time instant)"

definition cancel_in_store :: "order_service \<Rightarrow> database \<Rightarrow> string \<Rightarrow> string \<Rightarrow> cancel_reason \<Rightarrow>
    string option \<Rightarrow> (database \<times> cancellation) result" where
  "cancel_in_store sv db orderId instant reason cause =
     bindR (store_transition db (os_runId sv) orderId (\<lambda>order. cancel_entry_order order instant reason)
       (Some (\<lambda>db1 order. bindR (verify_binding sv db1 None) (\<lambda>_.
         bindR (verify_time sv db1 instant False None) (\<lambda>_.
         ledger_transaction sv cause db1 [release_event sv orderId instant]))))
       (Some instant) cause) (\<lambda>(db1, order). Inr (db1, Transitioned order))"

text \<open>An empty \<open>preSubmissionEventId\<close> is false in the source, as an absent one.\<close>

definition cancel_order :: "order_service \<Rightarrow> database \<Rightarrow> string \<Rightarrow> string \<Rightarrow> cancel_reason \<Rightarrow>
    string option \<Rightarrow> string option \<Rightarrow> (database \<times> cancellation) result" where
  "cancel_order sv db orderId instant reason preSubmissionEventId cause =
     bindR (verify_binding sv db None) (\<lambda>_.
     if coalesce preSubmissionEventId [] \<noteq> [] then
       (if \<not> invalidation_proven sv db orderId (the preSubmissionEventId)
        then throw ''Pre-submission invalidation provenance is unknown''
        else if \<not> run_has_order sv db orderId then Inr (db, NoOp PRE_SUBMISSION_INVALIDATION)
        else cancel_in_store sv db orderId instant reason cause)
     else if \<not> run_has_order sv db orderId \<and> reservation_vetoed sv db orderId
     then Inr (db, NoOp RESERVATION_VETO)
     else if \<not> run_has_order sv db orderId \<and> \<not> is_finite (date_parse instant)
     then throw ''invalid input syntax for type timestamp with time zone''
     else if \<not> run_has_order sv db orderId \<and> suppressed_before sv db orderId instant
     then Inr (db, NoOp PRE_SUBMISSION_INVALIDATION)
     else cancel_in_store sv db orderId instant reason cause)"

section \<open>The clock\<close>

definition close_intent :: "bot_run \<Rightarrow> string \<Rightarrow> pending_order \<Rightarrow> pending_order result" where
  "close_intent run instant state =
     (if r_status state = PENDING then
        (if num (br_scheduledClose run) \<le> date_parse instant
         then cancel_entry_order state instant SESSION_CLOSED
         else expire_entry_order state instant)
      else (case r_execution state of
          Some (QOpen x) \<Rightarrow>
            if num (br_scheduledClose run) \<le> date_parse instant
            then bindR (to_iso_string (num (br_scheduledClose run))) (\<lambda>closeAt.
              Inr (state\<lparr>r_execution := Some (fst (request_quote_session_close (QOpen x) closeAt None
                (r_assumptions state)))\<rparr>))
            else Inr state
        | _ \<Rightarrow> Inr state))"

text \<open>One iteration of the loop over the orders: the row and the ledger event of a changed order.\<close>

definition clock_step :: "order_service \<Rightarrow> bot_run \<Rightarrow> string \<Rightarrow> string option \<Rightarrow>
    database \<times> ledger_event list \<Rightarrow> pending_order \<Rightarrow> (database \<times> ledger_event list) result" where
  "clock_step sv run instant cause acc state =
     bindR (close_intent run instant state) (\<lambda>after.
     Inr (if after = state then acc
       else (update_order cause instant (fst acc) after,
         snd acc @ (if r_status state = PENDING then [release_event sv (r_orderId state) instant] else []))))"

definition clocked :: "order_service \<Rightarrow> order_row \<Rightarrow> bool" where
  "clocked sv w \<longleftrightarrow> ow_runId w = os_runId sv \<and> (is_pending (ow_state w) \<or>
     (case r_execution (ow_state w) of Some (QOpen x) \<Rightarrow> True | _ \<Rightarrow> False))"

definition advance_clock :: "order_service \<Rightarrow> database \<Rightarrow> string \<Rightarrow> string option \<Rightarrow> database result" where
  "advance_clock sv db instant cause =
     (if \<not> is_finite (date_parse instant) then throw ''Invalid funded clock''
      else bindR (verify_binding sv db None) (\<lambda>_.
        case (find_run db (os_runId sv), find_binding db (os_runId sv)) of
          (Some run, Some b) \<Rightarrow>
            (case find_account db (os_accountId sv) of None \<Rightarrow> throw ''TypeError: account is undefined''
             | Some account \<Rightarrow>
               if date_parse instant < math_max (case bd_clockAt b of None \<Rightarrow> Fin 0 | Some t \<Rightarrow> num t)
                 (date_parse (lg_lastEventAt (ac_state account)))
               then throw ''Out-of-order funded clock''
               else bindR (runR (clock_step sv run instant cause) (db, [])
                   (map ow_state (select_orders db (clocked sv)))) (\<lambda>(db1, events).
                 bindR (ledger_transaction sv cause db1 events) (\<lambda>db2.
                 Inr (set_clock (os_runId sv) (\<lambda>_. Some (int_of_time instant)) db2))))
        | _ \<Rightarrow> throw ''Funded run not found''))"

section \<open>Quotes\<close>

text \<open>The sales of the fills at the quote's time; the exit costs are spread over all shares sold.\<close>

fun sell_events :: "order_service \<Rightarrow> string \<Rightarrow> string \<Rightarrow> open_position \<Rightarrow> cost_snapshot \<Rightarrow> jsnum \<Rightarrow>
    exit_outcome list \<Rightarrow> ledger_event list" where
  "sell_events sv orderId instant position costs sold [] = []"
| "sell_events sv orderId instant position costs sold (exit # exits) =
     (let shares = coalesce (xo_filledShares exit) (p_shares position);
          total = c_exitCommission costs + c_estimatedRegulatoryFees costs;
          fee = round_money (total * (sold + shares) / p_shares position) -
            round_money (total * sold / p_shares position);
          rest = sell_events sv orderId instant position costs (sold + shares) exits
      in if js_eq (date_parse (xo_exitTime exit)) (date_parse instant)
         then ledger_event_of sv (''sell:'' @ orderId @ '':'' @ xo_exitTime exit) instant
           (Sell orderId shares (f_exitPrice (xo_financials exit)) (round_money fee)) # rest
         else rest)"

definition mark_event :: "order_service \<Rightarrow> string \<Rightarrow> string \<Rightarrow> quote_fact \<Rightarrow> ledger_event" where
  "mark_event sv prefix instrumentId quote = ledger_event_of sv
     (prefix @ os_runId sv @ '':'' @ instrumentId @ '':'' @ q_timestamp quote) (q_timestamp quote)
     (Mark instrumentId (q_bid quote))"

definition buy_event :: "order_service \<Rightarrow> string \<Rightarrow> quote_fact \<Rightarrow> pending_order \<Rightarrow> open_position \<Rightarrow> ledger_event" where
  "buy_event sv instrumentId quote order position = ledger_event_of sv (''buy:'' @ r_orderId order)
     (q_timestamp quote) (Buy (r_orderId order) (r_orderId order) instrumentId (p_shares position)
       (p_entryPrice position) (c_entryCommission (cost_snapshot_of (r_assumptions order))) (p_stop position))"

text \<open>The ledger events of one changed order.\<close>

definition order_events :: "order_service \<Rightarrow> string \<Rightarrow> quote_fact \<Rightarrow> pending_order \<Rightarrow> ledger_event list result" where
  "order_events sv instrumentId quote order =
     (case r_status order of
        FILLED \<Rightarrow> (case r_execution order of
            Some e \<Rightarrow> (case execution_position e of
                Some position \<Rightarrow>
                  if (case e of QOpen x \<Rightarrow> True | _ \<Rightarrow> False) \<and>
                    js_eq (date_parse (p_entryTime position)) (date_parse (q_timestamp quote))
                  then (if c_currency (cost_snapshot_of (r_assumptions order)) \<noteq> os_currency sv
                    then throw ''Fill currency mismatch''
                    else Inr [buy_event sv instrumentId quote order position])
                  else Inr (sell_events sv (r_orderId order) (q_timestamp quote) position
                    (cost_snapshot_of (r_assumptions order)) (Fin 0) (coalesce (p_exitFills position) []))
              | None \<Rightarrow> Inr [])
          | None \<Rightarrow> Inr [])
      | PENDING \<Rightarrow> Inr []
      | _ \<Rightarrow> Inr [release_event sv (r_orderId order) (q_timestamp quote)])"

definition is_sale :: "ledger_event \<Rightarrow> bool" where
  "is_sale e \<longleftrightarrow> (case ev_action e of Sell p s r f \<Rightarrow> True | _ \<Rightarrow> False)"

text \<open>The batch: the mark, the sales, the other events and, after any of these, a second mark.\<close>

definition quote_batch :: "order_service \<Rightarrow> string \<Rightarrow> quote_fact \<Rightarrow> ledger_event list \<Rightarrow> ledger_event list" where
  "quote_batch sv instrumentId quote es =
     mark_event sv ''mark:'' instrumentId quote # filter is_sale es @ filter (\<lambda>e. \<not> is_sale e) es @
     (if es = [] then [] else [mark_event sv ''post-fill-mark:'' instrumentId quote])"

definition bought_order :: "ledger_event \<Rightarrow> string option" where
  "bought_order e = (case ev_action e of Buy orderId p i s r f t \<Rightarrow> Some orderId | _ \<Rightarrow> None)"

text \<open>The portfolio checks of every fill, against the ledger with the whole batch applied.\<close>

fun check_fills :: "order_service \<Rightarrow> database \<Rightarrow> string \<Rightarrow> string \<Rightarrow> ledger \<Rightarrow> pending_order list \<Rightarrow>
    ledger_event list \<Rightarrow> unit result" where
  "check_fills sv db instrumentId instant projected orders [] = Inr ()"
| "check_fills sv db instrumentId instant projected orders (e # es) =
     bindR (case Option.bind (bought_order e) (\<lambda>i. find (\<lambda>v. r_orderId v = i) orders) of
         None \<Rightarrow> Inr ()
       | Some order \<Rightarrow> check_portfolio sv db order instrumentId instant projected (Fin 0) orders) (\<lambda>_.
     check_fills sv db instrumentId instant projected orders es)"

definition quote_effects :: "order_service \<Rightarrow> string \<Rightarrow> quote_fact \<Rightarrow> string option \<Rightarrow>
    pending_order list effects" where
  "quote_effects sv instrumentId quote cause db orders =
     bindR (verify_binding sv db (Some instrumentId)) (\<lambda>_.
     bindR (verify_time sv db (q_timestamp quote) False None) (\<lambda>_.
     bindR (mapR (order_events sv instrumentId quote) orders) (\<lambda>es.
     bindR (ledger_transaction sv cause db (quote_batch sv instrumentId quote (concat es))) (\<lambda>db1.
     case find_account db1 (os_accountId sv) of None \<Rightarrow> throw ''Funded account not found''
     | Some projected \<Rightarrow>
       bindR (check_fills sv db1 instrumentId (q_timestamp quote) (ac_state projected) orders
         (filter (\<lambda>e. \<not> is_sale e) (concat es))) (\<lambda>_. Inr db1)))))"

text \<open>One attempt at a quote, in one transaction.\<close>

definition quote_attempt :: "order_service \<Rightarrow> database \<Rightarrow> string \<Rightarrow> quote_fact \<Rightarrow> jsnum \<Rightarrow> jsnum \<Rightarrow>
    string option \<Rightarrow> (database \<times> entry_liquidity \<times> pending_order list) result" where
  "quote_attempt sv db instrumentId quote participation impactBps cause =
     bindR (verify_binding sv db (Some instrumentId)) (\<lambda>_.
     bindR (quote_matches_funded_policy (bound_policy sv db) participation impactBps) (\<lambda>matches.
     if \<not> matches then throw ''Quote does not match immutable funded policy''
     else bindR (normalize_funded_policy (the (bound_policy sv db))) (\<lambda>canonical.
       store_allocate_quote db (os_runId sv) instrumentId quote participation impactBps
         (Some (quote_effects sv instrumentId quote cause)) (y_portfolio canonical) cause)))"

partial_function (option) quote_orders :: "order_service \<Rightarrow> database \<Rightarrow> string \<Rightarrow> quote_fact \<Rightarrow> jsnum \<Rightarrow> jsnum \<Rightarrow>
    string option \<Rightarrow> (database \<times> (entry_liquidity \<times> pending_order list) result) option" where
  "quote_orders sv db instrumentId quote participation impactBps cause =
     (case quote_attempt sv db instrumentId quote participation impactBps cause of
        Inr (db1, r) \<Rightarrow> Some (db1, Inr r)
      | Inl e \<Rightarrow> (case e of
          FundedRiskVeto orderId message code \<Rightarrow>
            (case cancel_order sv db orderId (q_timestamp quote) RISK_VETO None cause of
              Inl e' \<Rightarrow> Some (db, Inl e')
            | Inr (db1, c) \<Rightarrow>
              if (case c of Transitioned r \<Rightarrow> r_status r = CANCELLED | NoOp n \<Rightarrow> False)
              then quote_orders sv db1 instrumentId quote participation impactBps cause
              else Some (db1, Inl e))
        | _ \<Rightarrow> Some (db, Inl e)))"

declare quote_orders.simps [code]

end
