(* ===== verification/SessionDriver.thy ===== *)
theory SessionDriver
  imports OrderService JsCompare
begin

text \<open>
  The session driver (\<open>paper-bot/funded-session-driver.ts\<close>): a batch of inbox facts is put in the
  order of time, priority and key and dispatched to the order service. A vetoed signal is recorded
  and the batch goes on; any other error ends it, and what has been committed before stays.
\<close>

definition fact_instant :: "session_fact \<Rightarrow> string" where
  "fact_instant f = (case f of Clock t \<Rightarrow> t | Signal i order debit risk \<Rightarrow> si_submittedAt order
     | Quoted i quote p b \<Rightarrow> q_timestamp quote | Cancel i t reason pre \<Rightarrow> t)"

definition fact_time :: "session_fact \<Rightarrow> jsnum result" where
  "fact_time f = (let value = date_parse (fact_instant f) in
     if \<not> is_finite value then throw ''Invalid funded session fact time'' else Inr value)"

definition fact_key :: "session_fact \<Rightarrow> string" where
  "fact_key f = (case f of Clock t \<Rightarrow> [] | Quoted i quote p b \<Rightarrow> i
     | Signal i order debit risk \<Rightarrow> si_orderId order | Cancel i t reason pre \<Rightarrow> i)"

definition fact_priority :: "session_fact \<Rightarrow> jsnum" where
  "fact_priority f = (case f of Cancel i t reason pre \<Rightarrow> Fin 0 | Clock t \<Rightarrow> Fin 1
     | Signal i order debit risk \<Rightarrow> Fin 2 | Quoted i quote p b \<Rightarrow> Fin 3)"

text \<open>\<open>FundedSessionFactInput\<close>, and the input with its time\<close>

record fact_input =
  fi_fact :: session_fact
  fi_factId :: "string option"

record timed_input = fact_input +
  ti_time :: jsnum

definition timed :: "fact_input \<Rightarrow> timed_input result" where
  "timed input = bindR (fact_time (fi_fact input)) (\<lambda>t.
     Inr \<lparr>fi_fact = fi_fact input, fi_factId = fi_factId input, ti_time = t\<rparr>)"

definition fact_cmp :: "timed_input \<Rightarrow> timed_input \<Rightarrow> jsnum" where
  "fact_cmp left right =
     num_or (num_or (ti_time left - ti_time right)
       (fact_priority (fi_fact left) - fact_priority (fi_fact right)))
       (string_cmp (fact_key (fi_fact left)) (fact_key (fi_fact right)))"

record session_summary =
  sm_processed :: nat
  sm_vetoes :: "(string \<times> string \<times> string) list"  \<comment> \<open>orderId, reason, code\<close>
  sm_noOps :: "(string \<times> no_op_reason) list"

text \<open>The database after a step, with the summary or the error that ends the batch.\<close>

type_synonym driver_state = "database \<times> session_summary result"

definition deliver_signal :: "order_service \<Rightarrow> database \<Rightarrow> session_summary \<Rightarrow> string \<Rightarrow> submit_input \<Rightarrow>
    jsnum \<Rightarrow> jsnum \<Rightarrow> string option \<Rightarrow> driver_state" where
  "deliver_signal sv db sm i order debit risk cause =
     (case submit_order sv db i order debit risk cause of
        Inr (db1, r) \<Rightarrow> (db1, Inr sm)
      | Inl (FundedRiskVeto orderId reason code) \<Rightarrow>
          (db, Inr (sm\<lparr>sm_vetoes := sm_vetoes sm @ [(si_orderId order, reason, code)]\<rparr>))
      | Inl e \<Rightarrow> (db, Inl e))"

definition deliver_clock :: "order_service \<Rightarrow> database \<Rightarrow> session_summary \<Rightarrow> string \<Rightarrow> string option \<Rightarrow>
    driver_state" where
  "deliver_clock sv db sm t cause = (case advance_clock sv db t cause of
      Inr db1 \<Rightarrow> (db1, Inr sm) | Inl e \<Rightarrow> (db, Inl e))"

definition deliver_cancel :: "order_service \<Rightarrow> database \<Rightarrow> session_summary \<Rightarrow> string \<Rightarrow> string \<Rightarrow>
    cancel_reason \<Rightarrow> string option \<Rightarrow> string option \<Rightarrow> driver_state" where
  "deliver_cancel sv db sm i t reason pre cause = (case cancel_order sv db i t reason pre cause of
      Inr (db1, NoOp why) \<Rightarrow> (db1, Inr (sm\<lparr>sm_noOps := sm_noOps sm @ [(i, why)]\<rparr>))
    | Inr (db1, Transitioned r) \<Rightarrow> (db1, Inr sm)
    | Inl e \<Rightarrow> (db, Inl e))"

definition deliver_quote :: "order_service \<Rightarrow> database \<Rightarrow> session_summary \<Rightarrow> string \<Rightarrow> quote_fact \<Rightarrow>
    jsnum \<Rightarrow> jsnum \<Rightarrow> string option \<Rightarrow> driver_state option" where
  "deliver_quote sv db sm i quote participation impactBps cause =
     map_option (\<lambda>(db1, r). (db1, bindR r (\<lambda>_. Inr sm)))
       (quote_orders sv db i quote participation impactBps cause)"

definition deliver :: "order_service \<Rightarrow> database \<Rightarrow> session_summary \<Rightarrow> timed_input \<Rightarrow> driver_state option" where
  "deliver sv db sm input = map_option (\<lambda>(db1, r).
       (db1, bindR r (\<lambda>sm1. Inr (sm1\<lparr>sm_processed := sm_processed sm1 + 1\<rparr>))))
     (case fi_fact input of
        Signal i order debit risk \<Rightarrow> Some (deliver_signal sv db sm i order debit risk (fi_factId input))
      | Clock t \<Rightarrow> Some (deliver_clock sv db sm t (fi_factId input))
      | Cancel i t reason pre \<Rightarrow> Some (deliver_cancel sv db sm i t reason pre (fi_factId input))
      | Quoted i quote p b \<Rightarrow> deliver_quote sv db sm i quote p b (fi_factId input))"

fun deliver_all :: "order_service \<Rightarrow> database \<Rightarrow> session_summary \<Rightarrow> timed_input list \<Rightarrow> driver_state option" where
  "deliver_all sv db sm [] = Some (db, Inr sm)"
| "deliver_all sv db sm (input # inputs) = (case deliver sv db sm input of
      None \<Rightarrow> None
    | Some (db1, Inl e) \<Rightarrow> Some (db1, Inl e)
    | Some (db1, Inr sm1) \<Rightarrow> deliver_all sv db1 sm1 inputs)"

definition process_session_facts :: "order_service \<Rightarrow> database \<Rightarrow> fact_input list \<Rightarrow> driver_state option" where
  "process_session_facts sv db inputs = (case mapR timed inputs of
      Inl e \<Rightarrow> Some (db, Inl e)
    | Inr ts \<Rightarrow> deliver_all sv db \<lparr>sm_processed = 0, sm_vetoes = [], sm_noOps = []\<rparr> (js_sort fact_cmp ts))"

end
