(* ===== verification/OrderLemmas.thy ===== *)
theory OrderLemmas
  imports SessionDriver LiquidityProperties LedgerStoreProperties
begin

text \<open>
  Facts about the order store and the order service shared by their properties: whose vetoes an
  operation can raise, which orders a quote works on and what becomes of them, and that the rows
  keep their keys. From these, a quote comes to an end.
\<close>

section \<open>Vetoes\<close>

text \<open>Every veto the result can be is against one of the given orders.\<close>

definition vetoes_in :: "string set \<Rightarrow> 'a result \<Rightarrow> bool" where
  "vetoes_in S r \<longleftrightarrow> (\<forall>i m c. r = Inl (FundedRiskVeto i m c) \<longrightarrow> i \<in> S)"

named_theorems vetoes \<open>rules for the vetoes of a composed operation\<close>

lemma vetoes_Inr [vetoes, simp]: "vetoes_in S (Inr x)"
  by (simp add: vetoes_in_def)

lemma vetoes_throw [vetoes, simp]: "vetoes_in S (throw m)" "vetoes_in S (Inl (RangeError m))"
    "vetoes_in S (Inl (FundedPriorRunActive m))"
  by (simp_all add: vetoes_in_def)

lemma vetoes_veto [vetoes]: "i \<in> S \<Longrightarrow> vetoes_in S (Inl (FundedRiskVeto i m c))"
  by (simp add: vetoes_in_def)

lemma vetoes_bindR [vetoes]: "vetoes_in S m \<Longrightarrow> (\<And>x. m = Inr x \<Longrightarrow> vetoes_in S (f x)) \<Longrightarrow> vetoes_in S (bindR m f)"
  by (cases m) (auto simp: vetoes_in_def)

lemma vetoes_if [vetoes]: "(b \<Longrightarrow> vetoes_in S x) \<Longrightarrow> (\<not> b \<Longrightarrow> vetoes_in S y) \<Longrightarrow> vetoes_in S (if b then x else y)"
  by simp

lemma vetoes_option [vetoes]:
  "vetoes_in S x \<Longrightarrow> (\<And>v. m = Some v \<Longrightarrow> vetoes_in S (f v)) \<Longrightarrow> vetoes_in S (case m of None \<Rightarrow> x | Some v \<Rightarrow> f v)"
  by (cases m) auto

lemma vetoes_pair [vetoes]: "(\<And>a b. p = (a, b) \<Longrightarrow> vetoes_in S (f a b)) \<Longrightarrow> vetoes_in S (case p of (a, b) \<Rightarrow> f a b)"
  by (cases p) auto

lemma vetoes_mono: "vetoes_in S r \<Longrightarrow> S \<subseteq> T \<Longrightarrow> vetoes_in T r"
  by (auto simp: vetoes_in_def)

lemma vetoes_empty [vetoes]: "vetoes_in {} r \<Longrightarrow> vetoes_in S r"
  by (auto simp: vetoes_in_def)

lemma vetoes_mapR: "(\<And>x. x \<in> set xs \<Longrightarrow> vetoes_in S (f x)) \<Longrightarrow> vetoes_in S (mapR f xs)"
  by (induction xs) (auto intro!: vetoes_bindR)

lemma vetoes_runR: "(\<And>s x. x \<in> set xs \<Longrightarrow> vetoes_in S (f s x)) \<Longrightarrow> vetoes_in S (runR f s xs)"
  by (induction xs arbitrary: s) (auto intro!: vetoes_bindR)

lemma vetoes_iso: "vetoes_in {} (to_iso_string v)"
  by (cases v) (auto simp: vetoes_in_def Let_def)

lemma vetoes_timestamp: "vetoes_in {} (timestamp v)"
  by (simp add: timestamp_def Let_def)

lemma vetoes_cancel: "vetoes_in {} (cancel_entry_order r t reason)"
  unfolding cancel_entry_order_def precedes_last_quote_def
  by (intro vetoes_bindR vetoes_if vetoes_option vetoes_timestamp vetoes_Inr vetoes_throw)

lemma vetoes_expire: "vetoes_in {} (expire_entry_order r t)"
  unfolding expire_entry_order_def by (intro vetoes_bindR vetoes_if vetoes_timestamp vetoes_Inr)

lemma vetoes_normalize: "vetoes_in {} (normalize_funded_policy p)"
  by (auto simp: normalize_funded_policy_def funded_policy_def Let_def intro!: vetoes_bindR)

lemma vetoes_execution: "vetoes_in {} (create_quote_execution signal q a c d)"
  using create_quote_execution_error [of signal q a c d] by (auto simp: vetoes_in_def)

lemma vetoes_settle: "vetoes_in {} (settle_order_execution order quote e)"
  by (cases e) (auto simp: settle_order_execution_def intro!: vetoes_bindR vetoes_timestamp
      split: no_fill_reason.splits)

lemma vetoes_entry_quote: "vetoes_in {} (apply_entry_order_quote order quote)"
  unfolding apply_entry_order_quote_def not_after_last_quote_def
  by (intro vetoes_bindR vetoes_if vetoes_option vetoes_timestamp vetoes_Inr vetoes_throw
      vetoes_expire vetoes_execution vetoes_settle)

lemma vetoes_entry_loop: "vetoes_in {} (allocate_entry_loop liquidity s orders)"
proof (induction orders arbitrary: s)
  case (Cons order orders)
  have "vetoes_in {} (allocate_entry_step liquidity s order)"
    by (auto simp: allocate_entry_step_def Let_def intro!: vetoes_bindR vetoes_entry_quote)
  then show ?case using Cons by (auto intro!: vetoes_bindR)
qed simp

lemma vetoes_entry_allocation: "vetoes_in {} (allocate_entry_liquidity liquidity i orders)"
  unfolding allocate_entry_liquidity_def
  by (intro vetoes_bindR vetoes_if vetoes_Inr vetoes_throw vetoes_entry_loop)

lemma vetoes_exit_loop: "vetoes_in {} (allocate_exit_loop quote b close portfolio s orders)"
proof (induction orders arbitrary: s)
  case (Cons order orders)
  have "vetoes_in {} (allocate_exit_step quote b close portfolio s order)"
    by (auto simp: allocate_exit_step_def Let_def intro!: vetoes_option vetoes_pair vetoes_if)
  then show ?case using Cons by (auto intro!: vetoes_bindR)
qed simp

lemma vetoes_exit_allocation: "vetoes_in {} (allocate_exit_liquidity orders quote p b close portfolio)"
  unfolding allocate_exit_liquidity_def Let_def
  by (intro vetoes_bindR vetoes_if vetoes_Inr vetoes_throw vetoes_exit_loop)

lemma vetoes_allocation: "vetoes_in {} (allocate_orders initial orders quote p b closeAt portfolio)"
  unfolding allocate_orders_def close_out_def
  by (intro vetoes_bindR vetoes_pair vetoes_mapR vetoes_if vetoes_Inr vetoes_cancel
      vetoes_exit_allocation vetoes_entry_allocation)

lemma vetoes_open_liquidity: "vetoes_in {} (open_entry_liquidity i quote p b)"
  by (simp add: open_entry_liquidity_def)

section \<open>The vetoes of the service\<close>

lemma vetoes_binding: "vetoes_in {} (verify_binding sv db i)"
  by (auto simp: verify_binding_def split: option.split)

lemma vetoes_time: "vetoes_in {} (verify_time sv db t entry s)"
  by (auto simp: verify_time_def split: option.splits)

lemma vetoes_effects_required: "vetoes_in {} (require_funded_effects db runId b)"
  by (simp add: require_funded_effects_def)

lemma vetoes_money: "vetoes_in {} (ledger_money v)" "vetoes_in {} (positive v)" "vetoes_in {} (ledger_time t)"
  by (simp_all add: ledger_money_def positive_def ledger_time_def Let_def)

lemma vetoes_stale: "vetoes_in {} (some_stale c m ps)"
  by (induction ps) (auto intro!: vetoes_bindR vetoes_money)

lemma vetoes_summary: "vetoes_in {} (funded_account_summary l t age)"
  unfolding funded_account_summary_def Let_def
  by (intro vetoes_bindR vetoes_if vetoes_Inr vetoes_throw vetoes_money vetoes_stale)

text \<open>The order a reservation or a purchase may be vetoed for.\<close>

definition vetoable :: "ledger_event \<Rightarrow> string set" where
  "vetoable e = (case ev_action e of Reserve i d r \<Rightarrow> {i} | Buy i p n s c f t \<Rightarrow> {i} | _ \<Rightarrow> {})"

lemma vetoes_fill: "vetoes_in {} (check_fill s p f)"
  unfolding check_fill_def by (intro vetoes_bindR vetoes_if vetoes_throw vetoes_money)

lemma vetoes_reserve: "vetoes_in {i} (apply_reserve l w i d r)"
  unfolding apply_reserve_def
  by (intro vetoes_bindR vetoes_if vetoes_Inr vetoes_throw vetoes_veto vetoes_empty [OF vetoes_money(1)]
      vetoes_empty [OF vetoes_money(2)]) simp

lemma vetoes_buy: "vetoes_in {i} (apply_buy l w t i p n s c f stop)"
  unfolding apply_buy_def Let_def
  by (intro vetoes_bindR vetoes_if vetoes_option vetoes_Inr vetoes_throw vetoes_veto
      vetoes_empty [OF vetoes_money(1)] vetoes_empty [OF vetoes_money(2)] vetoes_empty [OF vetoes_fill]) simp

lemma vetoes_sell: "vetoes_in {} (apply_sell l p s c f)"
  unfolding apply_sell_def
  by (intro vetoes_bindR vetoes_if vetoes_option vetoes_Inr vetoes_throw vetoes_money vetoes_fill)

lemma vetoes_action: "vetoes_in (vetoable e) (apply_action l w e)"
  unfolding apply_action_def vetoable_def
  by (cases "ev_action e")
    (auto simp: apply_release_def apply_mark_def apply_session_def
      intro!: vetoes_reserve vetoes_buy vetoes_sell vetoes_bindR vetoes_money)

lemma vetoes_event: "vetoes_in (vetoable e) (apply_ledger_event l e age)"
  unfolding apply_ledger_event_def
  by (intro vetoes_bindR vetoes_if vetoes_option vetoes_Inr vetoes_throw vetoes_action
      vetoes_empty [OF vetoes_money(3)] vetoes_empty [OF vetoes_summary])

lemma vetoes_transaction:
  "vetoes_in (\<Union>e \<in> set es. vetoable e) (apply_in_transaction interval age cause s es)"
proof -
  have "vetoes_in (vetoable e) (apply_row age cause s' e)" for s' e
    by (auto simp: apply_row_def intro!: vetoes_option vetoes_bindR vetoes_event)
  then have "vetoes_in (\<Union>e \<in> set es. vetoable e) (runR (apply_row age cause) s es)"
    by (intro vetoes_runR) (auto intro: vetoes_mono)
  then show ?thesis by (auto simp: apply_in_transaction_def intro!: vetoes_bindR)
qed

lemma vetoes_ledger: "vetoes_in (\<Union>e \<in> set es. vetoable e) (ledger_transaction sv cause db es)"
  unfolding ledger_transaction_def cause_of_def
  by (intro vetoes_bindR vetoes_if vetoes_option vetoes_Inr vetoes_throw vetoes_transaction)

lemma vetoes_contexts: "vetoes_in {r_orderId order} (check_contexts v order t keys)"
  by (induction keys) (auto simp: check_context_def Let_def veto_def intro!: vetoes_bindR vetoes_if vetoes_veto)

lemma vetoes_portfolio: "vetoes_in {r_orderId order} (check_portfolio sv db order i t l risk overrides)"
  unfolding check_portfolio_def check_symbol_def check_sector_def check_history_def veto_def Let_def
  by (intro vetoes_bindR vetoes_if vetoes_option vetoes_Inr vetoes_throw vetoes_contexts vetoes_veto
      vetoes_empty [OF vetoes_normalize] vetoes_empty [OF vetoes_summary]) simp_all

lemma order_events_vetoable: "order_events sv i quote order = Inr es \<Longrightarrow> e \<in> set es \<Longrightarrow> vetoable e \<subseteq> {r_orderId order}"
proof -
  have sells: "e \<in> set (sell_events sv o' t p c sold xs) \<Longrightarrow> vetoable e = {}" for o' t p c sold xs
    by (induction xs arbitrary: sold) (auto simp: Let_def vetoable_def ledger_event_of_def split: if_splits)
  show "order_events sv i quote order = Inr es \<Longrightarrow> e \<in> set es \<Longrightarrow> ?thesis"
    by (auto simp: order_events_def dest!: sells split: order_status.splits option.splits if_splits)
      (auto simp: vetoable_def buy_event_def release_event_def ledger_event_of_def)
qed

lemma mapR_Inr: "mapR f xs = Inr ys \<longleftrightarrow> list_all2 (\<lambda>x y. f x = Inr y) xs ys"
  by (induction xs arbitrary: ys) (auto simp: bindR_eq_Inr list_all2_Cons1)

lemma mapR_set: "mapR f xs = Inr ys \<Longrightarrow> y \<in> set ys \<Longrightarrow> \<exists>x \<in> set xs. f x = Inr y"
  by (induction xs arbitrary: ys) (auto simp: bindR_eq_Inr)

lemma quote_batch_vetoable:
  assumes "mapR (order_events sv i quote) orders = Inr es" "e \<in> set (quote_batch sv i quote (concat es))"
  shows "vetoable e \<subseteq> r_orderId ` set orders"
proof (cases "e \<in> set (concat es)")
  case True
  then obtain evs where "evs \<in> set es" "e \<in> set evs" by auto
  with mapR_set [OF assms(1)] obtain order where "order \<in> set orders" "order_events sv i quote order = Inr evs"
    by blast
  then show ?thesis using order_events_vetoable \<open>e \<in> set evs\<close> by blast
next
  case False
  then show ?thesis using assms(2)
    by (auto simp: quote_batch_def vetoable_def mark_event_def ledger_event_of_def split: if_splits)
qed

lemma vetoes_fills: "vetoes_in (r_orderId ` set orders) (check_fills sv db i t l orders es)"
proof (induction es)
  case (Cons e es)
  have "vetoes_in (r_orderId ` set orders) (check_portfolio sv db order i t l (Fin 0) orders)"
    if "order \<in> set orders" for order
    using that by (intro vetoes_mono [OF vetoes_portfolio]) auto
  then show ?case
    by (auto intro!: vetoes_bindR vetoes_option Cons simp: find_Some_iff bind_eq_Some_conv)
qed simp

lemma vetoes_order_events: "vetoes_in {} (order_events sv i quote order)"
  by (auto simp: order_events_def split: order_status.split option.split)

lemma vetoes_quote_effects: "vetoes_in (r_orderId ` set orders) (quote_effects sv i quote cause db orders)"
  unfolding quote_effects_def
  by (intro vetoes_bindR vetoes_option vetoes_Inr vetoes_throw vetoes_fills vetoes_empty [OF vetoes_binding]
      vetoes_empty [OF vetoes_time] vetoes_empty [OF vetoes_mapR] vetoes_order_events
      vetoes_mono [OF vetoes_ledger])
    (auto dest: subsetD [OF quote_batch_vetoable])

section \<open>The orders of an allocation keep their identity\<close>

lemma cancel_id: "cancel_entry_order r t reason = Inr r' \<Longrightarrow> r_orderId r' = r_orderId r"
  by (auto simp: cancel_entry_order_def bindR_eq_Inr split: if_splits)

lemma result_of_id [simp]: "r_orderId (result_of results r) = r_orderId r"
  by (auto simp: result_of_def coalesce_def find_Some_iff split: option.split)

lemma exit_allocation_ids: "allocate_exit_liquidity orders quote p b close portfolio = Inr (exited, n) \<Longrightarrow>
    map r_orderId exited = map r_orderId orders \<and> distinct (map r_orderId orders)"
  by (auto simp: allocate_exit_liquidity_def Let_def bindR_eq_Inr split: if_splits)

lemma entry_allocation_ids: "allocate_entry_liquidity liquidity i orders = Inr (l, after) \<Longrightarrow>
    map r_orderId after = map r_orderId orders"
  by (auto simp: allocate_entry_liquidity_def bindR_eq_Inr split: if_splits)

lemma close_out_ids: "mapR (close_out quote closeAt) orders = Inr after \<Longrightarrow>
    map r_orderId after = map r_orderId orders"
  unfolding mapR_Inr
  by (induction rule: list_all2_induct) (auto simp: close_out_def split: if_splits dest: cancel_id)

lemma allocation_ids: "allocate_orders initial orders quote p b closeAt portfolio = Inr (l, after) \<Longrightarrow>
    map r_orderId after = map r_orderId orders \<and> distinct (map r_orderId orders)"
  by (auto simp: allocate_orders_def bindR_eq_Inr dest!: exit_allocation_ids close_out_ids entry_allocation_ids)

lemma changed_orders_subset: "set (changed_orders before after) \<subseteq> set after"
  by (auto simp: changed_orders_def dest: set_zip_rightD)

lemma vetoes_attempt:
  "vetoes_in (r_orderId ` set (quotable_orders db (os_runId sv) i)) (quote_attempt sv db i quote p b cause)"
proof -
  have changed: "r_orderId ` set (changed_orders orders after) \<subseteq> r_orderId ` set orders"
    if "allocate_orders initial orders quote p b closeAt portfolio = Inr (l, after)"
    for initial orders closeAt portfolio l after
  proof -
    have "r_orderId ` set after = r_orderId ` set orders"
      using allocation_ids [OF that] by (metis list.set_map)
    then show ?thesis using changed_orders_subset [of orders after] by blast
  qed
  show ?thesis
    unfolding quote_attempt_def store_allocate_quote_def Let_def run_effects_def option.case
      quote_matches_funded_policy_def
    by (intro vetoes_bindR vetoes_if vetoes_option vetoes_pair vetoes_Inr vetoes_throw
        vetoes_empty [OF vetoes_binding] vetoes_empty [OF vetoes_normalize] vetoes_empty [OF vetoes_iso]
        vetoes_empty [OF vetoes_open_liquidity] vetoes_empty [OF vetoes_effects_required]
        vetoes_empty [OF vetoes_allocation] vetoes_mono [OF vetoes_quote_effects])
      (auto dest: subsetD [OF changed])
qed

section \<open>The rows keep their keys\<close>

text \<open>The primary key of the order table, and its constraint that the state carries the key.\<close>

definition keyed_orders :: "database \<Rightarrow> bool" where
  "keyed_orders db \<longleftrightarrow> distinct (map ow_orderId (db_orders db)) \<and>
     (\<forall>w \<in> set (db_orders db). r_orderId (ow_state w) = ow_orderId w)"

definition pending_rows :: "database \<Rightarrow> order_row list" where
  "pending_rows db = filter (\<lambda>w. is_pending (ow_state w)) (db_orders db)"

lemma update_order_fields [simp]:
  "db_runs (update_order c t db r) = db_runs db" "db_instruments (update_order c t db r) = db_instruments db"
  "db_bindings (update_order c t db r) = db_bindings db" "db_accounts (update_order c t db r) = db_accounts db"
  "db_liquidity (update_order c t db r) = db_liquidity db" "db_facts (update_order c t db r) = db_facts db"
  by (simp_all add: update_order_def)

lemma update_order_ids [simp]:
  "map ow_orderId (db_orders (update_order c t db r)) = map ow_orderId (db_orders db)"
  by (auto simp: update_order_def)

lemma keyed_update: "keyed_orders db \<Longrightarrow> keyed_orders (update_order c t db r)"
  unfolding keyed_orders_def update_order_ids by (auto simp: update_order_def)

lemma ledger_transaction_fields:
  assumes "ledger_transaction sv cause db es = Inr db'"
  shows "db_orders db' = db_orders db \<and> db_runs db' = db_runs db \<and> db_instruments db' = db_instruments db \<and>
    db_bindings db' = db_bindings db \<and> db_liquidity db' = db_liquidity db \<and> db_facts db' = db_facts db"
  using assms by (auto simp: ledger_transaction_def bindR_eq_Inr split: option.splits)

lemma cancel_shape: "cancel_entry_order r t reason = Inr r' \<Longrightarrow>
    r' = (if r_status r = PENDING then r\<lparr>r_status := CANCELLED, r_reason := Some (CancelReason reason)\<rparr> else r)"
  by (auto simp: cancel_entry_order_def bindR_eq_Inr split: if_splits)

text \<open>What a cancellation that returns has done.\<close>

lemma cancel_in_storeE:
  assumes "cancel_in_store sv db i t reason cause = Inr (db', c)"
  obtains (settled) w where "w \<in> set (db_orders db)" "ow_orderId w = i" "ow_runId w = os_runId sv"
      "r_status (ow_state w) \<noteq> PENDING" "db' = db" "c = Transitioned (ow_state w)"
  | (cancelled) w db1 where "w \<in> set (db_orders db)" "ow_orderId w = i" "ow_runId w = os_runId sv"
      "r_status (ow_state w) = PENDING" "verify_binding sv db None = Inr ()"
      "ledger_transaction sv cause db [release_event sv i t] = Inr db1"
      "cancel_entry_order (ow_state w) t reason =
        Inr ((ow_state w)\<lparr>r_status := CANCELLED, r_reason := Some (CancelReason reason)\<rparr>)"
      "db' = update_order cause t db1 ((ow_state w)\<lparr>r_status := CANCELLED, r_reason := Some (CancelReason reason)\<rparr>)"
      "c = Transitioned ((ow_state w)\<lparr>r_status := CANCELLED, r_reason := Some (CancelReason reason)\<rparr>)"
proof -
  obtain w where w: "find (\<lambda>w. ow_orderId w = i \<and> ow_runId w = os_runId sv) (db_orders db) = Some w"
    using assms by (auto simp: cancel_in_store_def store_transition_def bindR_eq_Inr split: option.splits)
  then have in_rows: "w \<in> set (db_orders db)" "ow_orderId w = i" "ow_runId w = os_runId sv"
    by (auto simp: find_Some_iff)
  show ?thesis
  proof (cases "r_status (ow_state w) = PENDING")
    case False
    then show ?thesis using assms w settled [OF in_rows False]
      by (auto simp: cancel_in_store_def store_transition_def bindR_eq_Inr Let_def)
  next
    case True
    then have ne: "(ow_state w)\<lparr>r_status := CANCELLED, r_reason := r\<rparr> \<noteq> ow_state w" for r
      by (rule expired_differs)
    obtain after where after: "cancel_entry_order (ow_state w) t reason = Inr after"
      using assms w True by (auto simp: cancel_in_store_def store_transition_def bindR_eq_Inr Let_def)
    with True have shape: "after = (ow_state w)\<lparr>r_status := CANCELLED, r_reason := Some (CancelReason reason)\<rparr>"
      by (auto dest: cancel_shape)
    show ?thesis
      using assms w True ne after
      by (auto simp: cancel_in_store_def store_transition_def bindR_eq_Inr Let_def run_effects_def shape
          split: if_splits intro: cancelled [OF in_rows True])
  qed
qed

lemma cancel_orderE:
  assumes "cancel_order sv db i t reason pre cause = Inr (db', c)"
  obtains (none) n where "db' = db" "c = NoOp n" | (stored) "cancel_in_store sv db i t reason cause = Inr (db', c)"
  using assms by (auto simp: cancel_order_def bindR_eq_Inr split: if_splits)

section \<open>A quote comes to an end\<close>

lemma quotable_order_row:
  "r \<in> set (quotable_orders db runId i) \<Longrightarrow> \<exists>w \<in> set (db_orders db). ow_state w = r \<and> quotable runId i w"
  by (auto simp: quotable_orders_def)

lemma keyed_row_unique:
  assumes "keyed_orders db" "w \<in> set (db_orders db)" "w' \<in> set (db_orders db)" "ow_orderId w = ow_orderId w'"
  shows "w = w'"
  using assms by (auto simp: keyed_orders_def distinct_map dest: inj_onD)

lemma filter_fewer:
  "(\<And>x. P x \<Longrightarrow> Q x) \<Longrightarrow> y \<in> set xs \<Longrightarrow> Q y \<Longrightarrow> \<not> P y \<Longrightarrow> length (filter P xs) < length (filter Q xs)"
proof -
  assume sub: "\<And>x. P x \<Longrightarrow> Q x" and y: "y \<in> set xs" "Q y" "\<not> P y"
  have "filter P xs = filter P (filter Q xs)" using sub by (auto intro: filter_cong)
  then show ?thesis using length_filter_less [of y "filter Q xs" P] y by simp
qed

text \<open>A cancellation of an order the quote worked on that ends CANCELLED has just cancelled it.\<close>

lemma cancel_fewer_pending:
  assumes "keyed_orders db" "r \<in> set (quotable_orders db (os_runId sv) i)"
    "cancel_order sv db (r_orderId r) t reason pre cause = Inr (db', Transitioned r')" "r_status r' = CANCELLED"
  shows "keyed_orders db' \<and> length (pending_rows db') < length (pending_rows db)"
proof -
  obtain w where w: "w \<in> set (db_orders db)" "ow_state w = r" "quotable (os_runId sv) i w"
    using quotable_order_row [OF assms(2)] by blast
  from assms(3) have "cancel_in_store sv db (r_orderId r) t reason cause = Inr (db', Transitioned r')"
    by (cases rule: cancel_orderE) auto
  then show ?thesis
  proof (cases rule: cancel_in_storeE)
    case (settled w')
    then have "w' = w" using assms(1) w by (auto intro: keyed_row_unique simp: keyed_orders_def)
    with settled assms(4) w(3) show ?thesis by (simp add: quotable_def is_pending_def)
  next
    case (cancelled w' db1)
    let ?after = "(ow_state w')\<lparr>r_status := CANCELLED, r_reason := Some (CancelReason reason)\<rparr>"
    note db1 = ledger_transaction_fields [OF cancelled(6)]
    have keyed: "keyed_orders db1" using assms(1) db1 by (simp add: keyed_orders_def)
    let ?f = "\<lambda>w. if ow_orderId w = r_orderId ?after
       then w\<lparr>ow_state := ?after, ow_lastFactAt := t, ow_lastFactId := cause, ow_revision := ow_revision w + 1\<rparr> else w"
    have rows: "db_orders db' = map ?f (db_orders db)"
      unfolding cancelled(8) update_order_def using db1 by simp
    have id: "r_orderId ?after = ow_orderId w'"
      using assms(1) cancelled(1) by (simp add: keyed_orders_def)
    have "length (filter (\<lambda>w. is_pending (ow_state (?f w))) (db_orders db)) < length (filter (\<lambda>w. is_pending (ow_state w)) (db_orders db))"
    proof (rule filter_fewer)
      show "\<And>w. is_pending (ow_state (?f w)) \<Longrightarrow> is_pending (ow_state w)"
        by (auto simp: is_pending_def split: if_splits)
      show "w' \<in> set (db_orders db)" "is_pending (ow_state w')" "\<not> is_pending (ow_state (?f w'))"
        using cancelled(1,4) id by (simp_all add: is_pending_def)
    qed
    then have "length (pending_rows db') < length (pending_rows db)"
      by (simp add: pending_rows_def rows filter_map comp_def)
    moreover have "keyed_orders db'" unfolding cancelled(8) by (rule keyed_update [OF keyed])
    ultimately show ?thesis by simp
  qed
qed

lemma quote_orders_returns:
  assumes "keyed_orders db"
  shows "quote_orders sv db i quote p b cause \<noteq> None"
  using assms
proof (induction "length (pending_rows db)" arbitrary: db rule: less_induct)
  case less
  show ?case
  proof (cases "quote_attempt sv db i quote p b cause")
    case (Inr x)
    then show ?thesis by (cases x) (simp add: quote_orders.simps)
  next
    case (Inl e)
    show ?thesis
    proof (cases "\<exists>o' m c. e = FundedRiskVeto o' m c")
      case False
      then show ?thesis using Inl by (cases e) (simp_all add: quote_orders.simps)
    next
      case True
      then obtain o' m c where e: "e = FundedRiskVeto o' m c" by blast
      then obtain r where r: "r \<in> set (quotable_orders db (os_runId sv) i)" "o' = r_orderId r"
        using vetoes_attempt [of db sv i quote p b cause] Inl by (auto simp: vetoes_in_def)
      show ?thesis
      proof (cases "cancel_order sv db o' (q_timestamp quote) RISK_VETO None cause")
        case Inl': (Inl e')
        then show ?thesis using Inl e by (simp add: quote_orders.simps)
      next
        case (Inr x)
        obtain db1 c1 where x: "x = (db1, c1)" by (cases x)
        show ?thesis
        proof (cases "\<exists>r'. c1 = Transitioned r' \<and> r_status r' = CANCELLED")
          case True
          then obtain r' where c1: "c1 = Transitioned r'" "r_status r' = CANCELLED" by blast
          have "keyed_orders db1 \<and> length (pending_rows db1) < length (pending_rows db)"
            using cancel_fewer_pending [OF less.prems r(1) _ c1(2)] Inr x c1(1) r(2) by simp
          then have "quote_orders sv db1 i quote p b cause \<noteq> None" using less.hyps by blast
          then show ?thesis using Inl e Inr x c1
            by (subst quote_orders.simps) simp
        next
          case False
          then show ?thesis using Inl e Inr x
            by (cases c1) (simp_all add: quote_orders.simps)
        qed
      qed
    qed
  qed
qed

section \<open>Every operation keeps the keys\<close>

lemma keyed_orders_cong: "keyed_orders db \<Longrightarrow> db_orders db' = db_orders db \<Longrightarrow> keyed_orders db'"
  by (simp add: keyed_orders_def)

lemma keyed_updates: "keyed_orders db \<Longrightarrow> keyed_orders (foldl (update_order c t) db rs)"
  by (induction rs arbitrary: db) (auto intro: keyed_update)

lemma put_liquidity_fields [simp]:
  "db_orders (put_liquidity db r) = db_orders db" "db_accounts (put_liquidity db r) = db_accounts db"
  "db_bindings (put_liquidity db r) = db_bindings db" "db_runs (put_liquidity db r) = db_runs db"
  "db_instruments (put_liquidity db r) = db_instruments db" "db_facts (put_liquidity db r) = db_facts db"
  by (simp_all add: put_liquidity_def)

lemma set_clock_fields [simp]:
  "db_orders (set_clock i f db) = db_orders db" "db_accounts (set_clock i f db) = db_accounts db"
  "db_runs (set_clock i f db) = db_runs db" "db_liquidity (set_clock i f db) = db_liquidity db"
  "db_instruments (set_clock i f db) = db_instruments db" "db_facts (set_clock i f db) = db_facts db"
  by (simp_all add: set_clock_def)

lemma quote_effectsE:
  assumes "quote_effects sv i quote cause db orders = Inr db'"
  obtains es s where "verify_binding sv db (Some i) = Inr ()"
    "mapR (order_events sv i quote) orders = Inr es"
    "ledger_transaction sv cause db (quote_batch sv i quote (concat es)) = Inr db'"
    "find_account db' (os_accountId sv) = Some s"
    "check_fills sv db' i (q_timestamp quote) (ac_state s) orders (filter (\<lambda>e. \<not> is_sale e) (concat es)) = Inr ()"
  using assms by (auto simp: quote_effects_def bindR_eq_Inr split: option.splits)

lemma keyed_effects: "keyed_orders db \<Longrightarrow> quote_effects sv i quote cause db orders = Inr db' \<Longrightarrow> keyed_orders db'"
  by (erule quote_effectsE) (auto dest!: ledger_transaction_fields intro: keyed_orders_cong)

lemma store_allocate_quoteE:
  assumes "store_allocate_quote db runId i quote p b (Some effects) portfolio cause = Inr (db', x)"
  obtains (retry) previous where "find_liquidity db runId i = Some previous" "db' = db"
      "x = (lw_state previous, lw_orders previous)" "el_quote (lw_state previous) = quote"
  | (fresh) run initial closeAt liquidity after db1 where "find_run db runId = Some run"
      "open_entry_liquidity i quote p b = Inr initial"
      "to_iso_string (num (br_scheduledClose run)) = Inr closeAt"
      "allocate_orders initial (quotable_orders db runId i) quote p b closeAt portfolio = Inr (liquidity, after)"
      "effects db (changed_orders (quotable_orders db runId i) after) = Inr db1"
      "db' = put_liquidity (foldl (update_order cause (q_timestamp quote)) db1
          (changed_orders (quotable_orders db runId i) after))
        \<lparr>lw_runId = runId, lw_instrumentId = i, lw_state = liquidity, lw_orders = after\<rparr>"
      "x = (liquidity, after)"
      "\<And>previous. find_liquidity db runId i = Some previous \<Longrightarrow>
        \<not> date_parse (q_timestamp quote) \<le> date_parse (q_timestamp (el_quote (lw_state previous)))"
proof -
  obtain initial run where base: "open_entry_liquidity i quote p b = Inr initial" "find_run db runId = Some run"
    using assms by (auto simp: store_allocate_quote_def bindR_eq_Inr split: option.splits)
  let ?orders = "quotable_orders db runId i"
  define new where "new = bindR (to_iso_string (num (br_scheduledClose run))) (\<lambda>closeAt.
      bindR (allocate_orders initial ?orders quote p b closeAt portfolio) (\<lambda>(liquidity, orders').
      bindR (effects db (changed_orders ?orders orders')) (\<lambda>db1.
      Inr (put_liquidity (foldl (update_order cause (q_timestamp quote)) db1 (changed_orders ?orders orders'))
          \<lparr>lw_runId = runId, lw_instrumentId = i, lw_state = liquidity, lw_orders = orders'\<rparr>,
        liquidity, orders'))))"
  have shape: "(case find_liquidity db runId i of None \<Rightarrow> new
      | Some previous \<Rightarrow>
        (let prior = date_parse (q_timestamp (el_quote (lw_state previous)));
             current = date_parse (q_timestamp quote) in
         if current \<le> prior then
           (if current < prior then throw ''Out-of-order shared quote''
            else if el_quote (lw_state previous) \<noteq> quote \<or>
              \<not> js_eq (el_participation (lw_state previous)) p \<or> \<not> js_eq (el_impactBps (lw_state previous)) b
            then throw ''Conflicting shared quote retry''
            else Inr (db, lw_state previous, lw_orders previous))
         else new)) = Inr (db', x)"
    using assms unfolding store_allocate_quote_def base bindR_Inr option.case run_effects_def Let_def new_def
      require_funded_effects_def
    by simp
  have made: thesis if "new = Inr (db', x)" "\<And>previous. find_liquidity db runId i = Some previous \<Longrightarrow>
        \<not> date_parse (q_timestamp quote) \<le> date_parse (q_timestamp (el_quote (lw_state previous)))"
  proof -
    from that(1) obtain closeAt liquidity after db1 where
      "to_iso_string (num (br_scheduledClose run)) = Inr closeAt"
      "allocate_orders initial ?orders quote p b closeAt portfolio = Inr (liquidity, after)"
      "effects db (changed_orders ?orders after) = Inr db1"
      "db' = put_liquidity (foldl (update_order cause (q_timestamp quote)) db1 (changed_orders ?orders after))
        \<lparr>lw_runId = runId, lw_instrumentId = i, lw_state = liquidity, lw_orders = after\<rparr>"
      "x = (liquidity, after)"
      unfolding new_def by (auto simp: bindR_eq_Inr)
    from fresh [OF base(2,1) this that(2)] show thesis by blast
  qed
  show thesis
  proof (cases "find_liquidity db runId i")
    case None
    with shape made show thesis by simp
  next
    case (Some previous)
    show thesis
    proof (cases "date_parse (q_timestamp quote) \<le> date_parse (q_timestamp (el_quote (lw_state previous)))")
      case True
      with shape Some show thesis by (intro retry [OF Some]) (auto simp: Let_def split: if_splits)
    next
      case False
      with shape Some made show thesis by (simp add: Let_def)
    qed
  qed
qed

lemma quote_attemptE:
  assumes "quote_attempt sv db i quote p b cause = Inr (db', x)"
  obtains portfolio where "verify_binding sv db (Some i) = Inr ()"
    "store_allocate_quote db (os_runId sv) i quote p b (Some (quote_effects sv i quote cause)) portfolio cause =
      Inr (db', x)"
  using assms by (auto simp: quote_attempt_def bindR_eq_Inr split: if_splits)

lemma keyed_attempt:
  assumes "keyed_orders db" "quote_attempt sv db i quote p b cause = Inr (db', r)"
  shows "keyed_orders db'"
proof -
  from assms(2) obtain portfolio where
    "store_allocate_quote db (os_runId sv) i quote p b (Some (quote_effects sv i quote cause)) portfolio cause =
      Inr (db', r)" by (rule quote_attemptE)
  then show ?thesis
  proof (cases rule: store_allocate_quoteE)
    case (fresh run initial closeAt liquidity after db1)
    from keyed_updates [OF keyed_effects [OF assms(1) fresh(5)]]
    show ?thesis unfolding fresh(6) by (rule keyed_orders_cong) simp
  qed (use assms(1) in simp)
qed

lemma keyed_cancel:
  assumes "keyed_orders db" "cancel_order sv db i t reason pre cause = Inr (db', c)"
  shows "keyed_orders db'"
  using assms(2)
proof (cases rule: cancel_orderE)
  case stored
  then show ?thesis
    by (cases rule: cancel_in_storeE)
      (use assms(1) in \<open>auto dest!: ledger_transaction_fields intro!: keyed_update intro: keyed_orders_cong\<close>)
qed (use assms(1) in simp)

lemma reserve_orders: "reserve sv i debit risk cause db order = Inr db' \<Longrightarrow> db_orders db' = db_orders db"
  by (auto simp: reserve_def bindR_eq_Inr Let_def dest!: ledger_transaction_fields split: option.splits if_splits)

lemma reserveE:
  assumes "reserve sv i debit risk cause db order = Inr db'"
  obtains s where "verify_binding sv db (Some i) = Inr ()" "find_account db (os_accountId sv) = Some s"
    "map_of (lg_reservations (ac_state s)) (r_orderId order) \<noteq> None \<or>
     (\<exists>w \<in> set (db_orders db). ow_orderId w = r_orderId order \<and> r_status (ow_state w) \<noteq> PENDING) \<or>
     check_portfolio sv db order i (r_submittedAt order) (ac_state s) risk [] = Inr ()"
    "ledger_transaction sv cause db [reserve_event sv order debit risk] = Inr db'"
proof -
  from assms obtain s where s: "verify_binding sv db (Some i) = Inr ()" "find_account db (os_accountId sv) = Some s"
    by (auto simp: reserve_def bindR_eq_Inr split: option.splits)
  define existing where "existing = find (\<lambda>w. ow_runId w = os_runId sv \<and> ow_orderId w = r_orderId order) (db_orders db)"
  have row: "\<exists>w \<in> set (db_orders db). ow_orderId w = r_orderId order \<and> r_status (ow_state w) \<noteq> PENDING"
    if "existing = Some w" "r_status (ow_state w) \<noteq> PENDING" for w
    using that by (auto simp: existing_def find_Some_iff)
  show ?thesis
    using assms unfolding reserve_def s bindR_Inr option.case Let_def existing_def [symmetric]
    by (cases existing; auto simp: bindR_eq_Inr split: if_splits intro: that [OF s])
      (auto intro!: that [OF s] dest: row)
qed

lemma submit_orderE:
  assumes "submit_order sv db i input debit risk cause = Inr (db', r)"
  obtains (new) initial db1 where "submit_entry_order input = Inr initial" "verify_binding sv db (Some i) = Inr ()"
      "find_order db (r_orderId initial) = None" "insert_order db (os_runId sv) i initial cause = Inr db1"
      "verify_time sv db1 (r_submittedAt initial) True (Some (Signal i input debit risk)) = Inr ()"
      "reserve sv i debit risk cause db1 initial = Inr db'" "r = initial"
  | (retried) initial w where "submit_entry_order input = Inr initial" "verify_binding sv db (Some i) = Inr ()"
      "find_order db (r_orderId initial) = Some w" "ow_runId w = os_runId sv" "ow_instrumentId w = i"
      "ow_submission w = initial" "reserve sv i debit risk cause db initial = Inr db'" "r = ow_state w"
proof -
  from assms have v: "verify_binding sv db (Some i) = Inr ()" by (auto simp: submit_order_def bindR_eq_Inr)
  from assms obtain initial where initial: "submit_entry_order input = Inr initial"
    by (auto simp: submit_order_def store_submit_def bindR_eq_Inr split: if_splits)
  show ?thesis
  proof (cases "find_order db (r_orderId initial)")
    case None
    show ?thesis using assms v initial None
      by (auto simp: submit_order_def store_submit_def bindR_eq_Inr run_effects_def split: if_splits
          intro: new [OF initial v None])
  next
    case (Some w)
    show ?thesis using assms v initial Some
      by (intro retried [OF initial v Some])
        (auto simp: submit_order_def store_submit_def bindR_eq_Inr run_effects_def split: if_splits)
  qed
qed

lemma insert_orderE:
  assumes "insert_order db runId i initial cause = Inr db'"
  obtains "db' = db\<lparr>db_orders := db_orders db @ [\<lparr>ow_orderId = r_orderId initial, ow_runId = runId,
        ow_instrumentId = i, ow_submission = initial, ow_state = initial,
        ow_lastFactAt = r_submittedAt initial, ow_lastFactId = cause, ow_revision = 0\<rparr>]\<rparr>"
  using assms by (auto simp: insert_order_def split: if_splits)

lemma find_order_None: "find_order db o' = None \<longleftrightarrow> o' \<notin> ow_orderId ` set (db_orders db)"
  by (auto simp: find_order_def find_None_iff)

lemma keyed_submit:
  assumes "keyed_orders db" "submit_order sv db i input debit risk cause = Inr (db', r)"
  shows "keyed_orders db'"
  using assms(2)
proof (cases rule: submit_orderE)
  case (new initial db1)
  have "keyed_orders db1" using new(3,4) assms(1)
    by (elim insert_orderE) (simp add: keyed_orders_def find_order_None)
  then show ?thesis using reserve_orders [OF new(6)] by (rule keyed_orders_cong)
next
  case (retried initial w)
  from assms(1) reserve_orders [OF retried(7)] show ?thesis by (rule keyed_orders_cong)
qed

lemma advance_clockE:
  assumes "advance_clock sv db t cause = Inr db'"
  obtains run b s db1 events db2 where "is_finite (date_parse t)" "verify_binding sv db None = Inr ()"
    "find_run db (os_runId sv) = Some run" "find_binding db (os_runId sv) = Some b"
    "find_account db (os_accountId sv) = Some s"
    "runR (clock_step sv run t cause) (db, []) (map ow_state (select_orders db (clocked sv))) = Inr (db1, events)"
    "ledger_transaction sv cause db1 events = Inr db2"
    "db' = set_clock (os_runId sv) (\<lambda>_. Some (int_of_time t)) db2"
  using assms by (auto simp: advance_clock_def bindR_eq_Inr split: if_splits option.splits)

lemma keyed_clock:
  assumes "keyed_orders db" "advance_clock sv db t cause = Inr db'"
  shows "keyed_orders db'"
proof -
  have run: "keyed_orders (fst acc')" if "runR (clock_step sv run t cause) acc states = Inr acc'"
    "keyed_orders (fst acc)" for run acc states acc'
    using that
    by (induction states arbitrary: acc) (auto simp: bindR_eq_Inr clock_step_def keyed_update split: if_splits)
  from assms(2) show ?thesis
  proof (rule advance_clockE)
    fix run db1 events db2
    assume r: "runR (clock_step sv run t cause) (db, []) (map ow_state (select_orders db (clocked sv))) = Inr (db1, events)"
      and l: "ledger_transaction sv cause db1 events = Inr db2"
      and db': "db' = set_clock (os_runId sv) (\<lambda>_. Some (int_of_time t)) db2"
    have "keyed_orders db1" using run [OF r] assms(1) by simp
    moreover have "db_orders db' = db_orders db1" using ledger_transaction_fields [OF l] db' by simp
    ultimately show "keyed_orders db'" by (rule keyed_orders_cong)
  qed
qed

text \<open>An invariant of quotes: kept by the attempt that commits and the cancellations before it.\<close>

lemma quote_orders_invariant:
  assumes returned: "quote_orders sv db i quote p b cause = Some y"
    and attempt: "\<And>db db' x. P db \<Longrightarrow> quote_attempt sv db i quote p b cause = Inr (db', x) \<Longrightarrow> P db'"
    and cancel: "\<And>db db' id c. P db \<Longrightarrow>
      cancel_order sv db id (q_timestamp quote) RISK_VETO None cause = Inr (db', c) \<Longrightarrow> P db'"
    and "P db"
  shows "P (fst y)"
proof -
  let ?Q = "\<lambda>sv' db i' quote' p' b' cause' y. sv' = sv \<longrightarrow> i' = i \<longrightarrow> quote' = quote \<longrightarrow> p' = p \<longrightarrow> b' = b \<longrightarrow>
     cause' = cause \<longrightarrow> P db \<longrightarrow> P (fst y)"
  have "?Q sv db i quote p b cause y"
  proof (rule quote_orders.raw_induct [of ?Q, OF _ returned], intro impI)
    fix rec sv' db i' quote' p' b' cause' y
    assume ih: "\<And>sv' db i' quote' p' b' cause' y. rec sv' db i' quote' p' b' cause' = Some y \<Longrightarrow>
        ?Q sv' db i' quote' p' b' cause' y"
      and body: "(case quote_attempt sv' db i' quote' p' b' cause' of
        Inl e \<Rightarrow> (case e of FundedRiskVeto orderId message code \<Rightarrow>
            (case cancel_order sv' db orderId (q_timestamp quote') RISK_VETO None cause' of
              Inl e' \<Rightarrow> Some (db, Inl e')
            | Inr (db1, c) \<Rightarrow>
              if (case c of Transitioned r \<Rightarrow> r_status r = CANCELLED | NoOp n \<Rightarrow> False)
              then rec sv' db1 i' quote' p' b' cause' else Some (db1, Inl e))
          | _ \<Rightarrow> Some (db, Inl e))
      | Inr (db1, r) \<Rightarrow> Some (db1, Inr r)) = Some y"
      and same: "sv' = sv" "i' = i" "quote' = quote" "p' = p" "b' = b" "cause' = cause" and p: "P db"
    note body = body [unfolded same]
    show "P (fst y)"
    proof (cases "quote_attempt sv db i quote p b cause")
      case (Inr x)
      then show ?thesis using body p attempt by (cases x) auto
    next
      case (Inl e)
      show ?thesis
      proof (cases "\<exists>o' m c db1 c1. e = FundedRiskVeto o' m c \<and>
          cancel_order sv db o' (q_timestamp quote) RISK_VETO None cause = Inr (db1, c1)")
        case False
        with body p Inl show ?thesis
          by (auto split: js_error.splits sum.splits prod.splits)
      next
        case True
        then obtain o' m c db1 c1 where e: "e = FundedRiskVeto o' m c"
          "cancel_order sv db o' (q_timestamp quote) RISK_VETO None cause = Inr (db1, c1)" by blast
        have p1: "P db1" by (rule cancel [OF p e(2)])
        with body Inl e ih [of sv db1 i quote p b cause y] show ?thesis
          by (auto split: if_splits)
      qed
    qed
  qed
  then show ?thesis using assms(4) by simp
qed

lemma keyed_quote: "keyed_orders db \<Longrightarrow> quote_orders sv db i quote p b cause = Some y \<Longrightarrow> keyed_orders (fst y)"
  by (erule quote_orders_invariant) (auto intro: keyed_attempt keyed_cancel)

lemma deliver_returns:
  assumes "keyed_orders db"
  shows "\<exists>y. deliver sv db sm input = Some y \<and> keyed_orders (fst y)"
proof (cases "fi_fact input")
  case (Clock t)
  then show ?thesis using assms keyed_clock
    by (cases "advance_clock sv db t (fi_factId input)") (auto simp: deliver_def deliver_clock_def)
next
  case (Signal i order debit risk)
  then show ?thesis using assms keyed_submit
    by (cases "submit_order sv db i order debit risk (fi_factId input)")
      (auto simp: deliver_def deliver_signal_def split: js_error.split)
next
  case (Quoted i quote p b)
  obtain y where "quote_orders sv db i quote p b (fi_factId input) = Some y"
    using quote_orders_returns [OF assms] by blast
  then show ?thesis using keyed_quote [OF assms] Quoted
    by (cases y) (auto simp: deliver_def deliver_quote_def)
next
  case (Cancel i t reason pre)
  then show ?thesis using assms keyed_cancel
    by (cases "cancel_order sv db i t reason pre (fi_factId input)")
      (auto simp: deliver_def deliver_cancel_def split: cancellation.split)
qed

lemma deliver_all_returns: "keyed_orders db \<Longrightarrow> \<exists>y. deliver_all sv db sm inputs = Some y \<and> keyed_orders (fst y)"
proof (induction inputs arbitrary: db sm)
  case (Cons input inputs)
  obtain db1 r where d: "deliver sv db sm input = Some (db1, r)" "keyed_orders db1"
    using deliver_returns [OF Cons.prems, of sv sm input] by auto
  then show ?case using Cons.IH [OF d(2)] by (cases r) auto
qed simp

end
