(* ===== verification/OrderBooks.thy ===== *)
theory OrderBooks
  imports OrderLemmas
begin

text \<open>
  The agreement of orders and ledger. \<open>holding\<close> is what the ledger has under the identity of an
  order, a reservation and the shares of a position; \<open>expected_holding\<close> is what the order's row
  says it should have. The lemmas follow both through one ledger event, one batch and one change of
  an order, up to the invariant \<open>books_inv\<close> that every operation of the service keeps.
\<close>

section \<open>What the ledger holds for an order\<close>

type_synonym holding = "bool \<times> (string \<times> jsnum) option"

definition holding :: "ledger \<Rightarrow> string \<Rightarrow> holding" where
  "holding l i = (map_of (lg_reservations l) i \<noteq> None,
     map_option (\<lambda>p. (fp_instrumentId p, fp_shares p)) (map_of (lg_positions l) i))"

text \<open>The order an event is about; a purchase opens its position under the order's identity.\<close>

definition event_order :: "ledger_event \<Rightarrow> string option" where
  "event_order e = (case ev_action e of Reserve i d r \<Rightarrow> Some i | Release i \<Rightarrow> Some i
     | Buy i p n s c f t \<Rightarrow> Some i | Sell p s c f \<Rightarrow> Some p | _ \<Rightarrow> None)"

definition own_position :: "ledger_event \<Rightarrow> bool" where
  "own_position e \<longleftrightarrow> (case ev_action e of Buy i p n s c f t \<Rightarrow> p = i | _ \<Rightarrow> True)"

fun effect :: "ledger_action \<Rightarrow> holding \<Rightarrow> holding" where
  "effect (Reserve i d r) h = (True, snd h)"
| "effect (Release i) h = (False, snd h)"
| "effect (Buy i p n s c f t) h = (False, Some (n, s))"
| "effect (Sell p s c f) h = (fst h, (case snd h of None \<Rightarrow> None
     | Some (n, m) \<Rightarrow> if js_eq s m then None else Some (n, m - s)))"
| "effect (Mark n b) h = h"
| "effect (Session s) h = h"

text \<open>What the ledger has checked before it accepted the event.\<close>

fun accepted :: "ledger_action \<Rightarrow> holding \<Rightarrow> bool" where
  "accepted (Reserve i d r) h \<longleftrightarrow> \<not> fst h"
| "accepted (Buy i p n s c f t) h \<longleftrightarrow> fst h \<and> snd h = None"
| "accepted (Sell p s c f) h \<longleftrightarrow> (case snd h of None \<Rightarrow> False | Some (n, m) \<Rightarrow> \<not> m < s)"
| "accepted _ h \<longleftrightarrow> True"

lemma holding_log [simp]: "holding (l\<lparr>lg_events := es, lg_lastEventAt := t\<rparr>) i = holding l i"
  by (simp add: holding_def)

lemma sell_holding:
  assumes "apply_sell l p s c f = Inr l'"
  shows "holding l' i = (if i = p then effect (Sell p s c f) (holding l i) else holding l i) \<and>
    accepted (Sell p s c f) (holding l p)"
  using assms
proof (cases rule: apply_sellE)
  case (all v q cash realized)
  have "\<not> fp_shares q < s" using all(3) by (cases s; cases "fp_shares q") (auto simp: js_eq_def)
  with all show ?thesis by (simp add: holding_def delete_conv)
next
  case (part v q cash realized basis rest)
  then show ?thesis by (simp add: holding_def update_conv)
qed

lemma action_holding:
  assumes "apply_action l w e = Inr m" "own_position e"
  shows "holding m i = (if event_order e = Some i then effect (ev_action e) (holding l i) else holding l i) \<and>
    (event_order e = Some i \<longrightarrow> accepted (ev_action e) (holding l i))"
proof (cases "ev_action e")
  case (Reserve o' d r)
  with assms(1) have "apply_reserve l w o' d r = Inr m" by (simp add: apply_action_def)
  then show ?thesis
    by (rule apply_reserveE) (auto simp: Reserve event_order_def holding_def update_conv)
next
  case (Release o')
  with assms(1) show ?thesis
    by (auto simp: apply_action_def apply_release_def event_order_def holding_def delete_conv)
next
  case (Buy o' p n s c f t)
  with assms have "apply_buy l w (ev_at e) o' o' n s c f t = Inr m"
    by (simp add: apply_action_def own_position_def)
  then show ?thesis
    by (rule apply_buyE) (auto simp: Buy event_order_def holding_def update_conv delete_conv)
next
  case (Sell p s c f)
  with assms(1) have "apply_sell l p s c f = Inr m" by (simp add: apply_action_def)
  from sell_holding [OF this] Sell show ?thesis by (auto simp: event_order_def)
next
  case (Mark n b)
  with assms(1) have "apply_mark l (ev_at e) n b = Inr m" by (simp add: apply_action_def)
  then show ?thesis
    by (rule apply_markE)
      (auto simp: Mark event_order_def holding_def map_of_map [where f = "\<lambda>p. if fp_instrumentId p = n
          then p\<lparr>fp_mark := b, fp_markedAt := ev_at e\<rparr> else p"] option.map_comp comp_def intro!: option.map_cong)
next
  case (Session s)
  with assms(1) have "apply_session l w s = Inr m" by (simp add: apply_action_def)
  then show ?thesis by (rule apply_sessionE) (simp add: Session event_order_def holding_def)
qed

lemma event_holding:
  assumes "apply_ledger_event l e age = Inr l'" "own_position e"
  shows "l' = l \<and> e \<in> set (lg_events l) \<or>
    lg_events l' = lg_events l @ [e] \<and> e \<notin> set (lg_events l) \<and>
    holding l' i = (if event_order e = Some i then effect (ev_action e) (holding l i) else holding l i) \<and>
    (event_order e = Some i \<longrightarrow> accepted (ev_action e) (holding l i))"
  using assms(1)
proof (cases rule: apply_ledger_eventE)
  case 1
  then show ?thesis by simp
next
  case (2 w m)
  then have "holding m i = (if event_order e = Some i then effect (ev_action e) (holding l i) else holding l i) \<and>
    (event_order e = Some i \<longrightarrow> accepted (ev_action e) (holding l i))"
    by (intro action_holding [OF _ assms(2)])
  with 2 show ?thesis by auto
qed

text \<open>A batch, seen from one order: it has at most one event of its own in it, and a new one.\<close>

definition events_of :: "string \<Rightarrow> ledger_event list \<Rightarrow> ledger_event list" where
  "events_of i es = filter (\<lambda>e. event_order e = Some i) es"

lemma events_of_simps [simp]:
  "events_of i [] = []"
  "events_of i (es @ es') = events_of i es @ events_of i es'"
  "events_of i (e # es) = (if event_order e = Some i then [e] else []) @ events_of i es"
  by (simp_all add: events_of_def)

lemma batch_log:
  assumes "apply_ledger_events l es age = Inr l'" "log_ok l"
  shows "log_ok l' \<and> set (lg_events l) \<subseteq> set (lg_events l') \<and> set es \<subseteq> set (lg_events l') \<and>
    set (lg_events l') \<subseteq> set (lg_events l) \<union> set es"
  using ledger_log.run_wf [OF assms(2)] ledger_log.run_log [OF assms(2)] assms(1)
  by (fastforce simp: apply_ledger_events_def)

lemma batch_none:
  assumes "apply_ledger_events l es age = Inr l'" "\<forall>e \<in> set es. own_position e" "events_of i es = []"
  shows "holding l' i = holding l i"
  using assms unfolding apply_ledger_events_def
proof (induction es arbitrary: l)
  case (Cons e es)
  then obtain m where m: "apply_ledger_event l e age = Inr m" "runR (\<lambda>l e. apply_ledger_event l e age) m es = Inr l'"
    by (auto simp: bindR_eq_Inr)
  have e: "event_order e \<noteq> Some i" "own_position e" using Cons.prems(2,3) by (auto split: if_splits)
  have "holding m i = holding l i" using event_holding [OF m(1) e(2), of i] e(1) by auto
  then show ?case using Cons.IH [OF m(2)] Cons.prems(2,3) e by simp
qed simp

lemma batch_one:
  assumes "apply_ledger_events l es age = Inr l'" "\<forall>e \<in> set es. own_position e" "events_of i es = [e]"
    "e \<notin> set (lg_events l)" "log_ok l"
  shows "holding l' i = effect (ev_action e) (holding l i) \<and> accepted (ev_action e) (holding l i)"
proof -
  from assms(3) obtain before after where es: "es = before @ e # after"
    "event_order e = Some i" "events_of i before = []" "events_of i after = []"
    by (auto simp: events_of_def filter_eq_Cons_iff filter_empty_conv dest!: sym [of "[]"])
  obtain m m' where m: "apply_ledger_events l before age = Inr m" "apply_ledger_event m e age = Inr m'"
    "apply_ledger_events m' after age = Inr l'"
    using assms(1) unfolding es apply_ledger_events_def runR_append by (auto simp: bindR_eq_Inr)
  have own: "\<forall>x \<in> set before. own_position x" "\<forall>x \<in> set after. own_position x" "own_position e"
    using assms(2) es(1) by auto
  have "e \<notin> set before" using es(2,3) by (auto simp: events_of_def filter_empty_conv)
  then have new: "e \<notin> set (lg_events m)" using batch_log [OF m(1) assms(5)] assms(4) by blast
  show ?thesis
    using event_holding [OF m(2) own(3), of i] new es(2) batch_none [OF m(1) own(1) es(3)]
      batch_none [OF m(3) own(2) es(4)] by auto
qed

section \<open>One position and one quote\<close>

text \<open>What a quote does to an open execution: nothing is sold, or exactly one new fill.\<close>

definition unsold :: "open_execution \<Rightarrow> quote_execution_state \<Rightarrow> bool" where
  "unsold x s \<longleftrightarrow> (\<exists>y. (s = QOpen y \<or> s = QClosePending y) \<and>
     remaining_of (ox_position y) = remaining_of (ox_position x) \<and>
     fills_of (ox_position y) = fills_of (ox_position x) \<and>
     p_entryTime (ox_position y) = p_entryTime (ox_position x))"

definition sold_one :: "string \<Rightarrow> open_execution \<Rightarrow> quote_execution_state \<Rightarrow> exit_outcome \<Rightarrow> bool" where
  "sold_one t x s e \<longleftrightarrow> xo_exitTime e = t \<and> (\<exists>k. xo_filledShares e = Some (num k) \<and> 0 \<le> k \<and> k \<le> 2 ^ 53) \<and>
     (let left = remaining_of (ox_position x) - the (xo_filledShares e) in
      if Fin 0 < left
      then \<exists>y. (s = QOpen y \<or> s = QClosePending y) \<and> remaining_of (ox_position y) = left \<and>
        fills_of (ox_position y) = fills_of (ox_position x) @ [e] \<and>
        p_entryTime (ox_position y) = p_entryTime (ox_position x)
      else \<exists>c. s = QClosed c \<and> fills_of (cx_position c) = fills_of (ox_position x) @ [e])"

lemma unsold_mode [simp]:
  "unsold (set_position (\<lambda>p. p\<lparr>p_executionMode := m\<rparr>) x) s = unsold x s"
  "unsold (set_position (\<lambda>p. p\<lparr>p_pendingExitReason := d\<rparr>) x) s = unsold x s"
  by (simp_all add: unsold_def set_position_def remaining_of_def fills_of_def)

lemma sold_one_mode [simp]:
  "sold_one t (set_position (\<lambda>p. p\<lparr>p_executionMode := m\<rparr>) x) s e = sold_one t x s e"
  "sold_one t (set_position (\<lambda>p. p\<lparr>p_pendingExitReason := d\<rparr>) x) s e = sold_one t x s e"
  by (simp_all add: sold_one_def set_position_def remaining_of_def fills_of_def)

lemma unsold_same: "unsold x (QOpen x)" "unsold x (QClosePending x)"
  by (simp_all add: unsold_def)

definition quote_outcome :: "string \<Rightarrow> open_execution \<Rightarrow> quote_execution_state \<Rightarrow> bool" where
  "quote_outcome t x s \<longleftrightarrow> unsold x s \<or> (\<exists>e. sold_one t x s e)"

lemma outcome_unsold [intro]: "unsold x s \<Longrightarrow> quote_outcome t x s"
  by (simp add: quote_outcome_def)

lemma outcome_settled:
  assumes "position_ok (ox_position x)" "xo_exitTime e = t"
    "xo_filledShares e = Some (available_exit_shares (ox_position x) q)"
  shows "quote_outcome t x (settle_quote_fill pending x e a)"
proof -
  obtain n r where r: "n \<le> 2 ^ 53" "remaining_of (ox_position x) = num r" "0 \<le> r" "r \<le> n"
    using position_okE [OF assms(1)] by metis
  obtain k where k: "available_exit_shares (ox_position x) q = num k" "0 \<le> k" "k \<le> r"
    using available_exit_shares_num [OF r(2,3)] by metis
  have "sold_one t x (settle_quote_fill pending x e a) e"
    using assms(2,3) k r(1,4)
    by (auto simp: sold_one_def settle_quote_fill_def Let_def fills_of_def remaining_of_def)
  then show ?thesis unfolding quote_outcome_def by blast
qed

lemma apply_quote_outcome: "position_ok (ox_position x) \<Longrightarrow>
    quote_outcome (q_timestamp q) x (fst (apply_quote_fact (QOpen x) q a))"
proof (cases "evaluate_quote_exit (ox_position x) q a")
  case None
  have "unsold x (QOpen (x\<lparr>ox_position := (ox_position x)\<lparr>p_pendingExitReason := d\<rparr>, ox_lastFactTimestamp := u\<rparr>))" for d u
    by (simp add: unsold_def remaining_of_def fills_of_def)
  moreover have "unsold x (QOpen (x\<lparr>ox_lastFactTimestamp := u\<rparr>))" for u
    by (simp add: unsold_def)
  ultimately show ?thesis using None by (auto simp: apply_quote_fact_def intro: unsold_same)
next
  case (Some e)
  assume "position_ok (ox_position x)"
  with Some outcome_settled [OF this evaluate_quote_exit_Some(3,4) [OF Some]] show ?thesis
    by (auto simp: apply_quote_fact_def intro: unsold_same)
qed

lemma time_stop_outcome: "position_ok (ox_position x) \<Longrightarrow>
    quote_outcome (q_timestamp q) x (fst (request_quote_time_stop (QOpen x) q a))"
proof (cases "resolve_quote_time_stop (ox_position x) q a")
  case (Some e)
  assume "position_ok (ox_position x)"
  with Some outcome_settled [OF this resolve_quote_time_stop_Some(4,2) [OF Some]] show ?thesis
    by (auto simp: request_quote_time_stop_def intro: unsold_same)
qed (auto simp: request_quote_time_stop_def intro: unsold_same)

lemma session_close_outcome: "position_ok (ox_position x) \<Longrightarrow>
    quote_outcome (q_timestamp q) x (fst (session_close_open pending x boundary (Some q) a))"
proof (cases "resolve_session_close (ox_position x) (Some q) boundary a")
  case ClosePending
  then show ?thesis by (auto simp: session_close_open_def Let_def intro: unsold_same)
next
  case (SessionClosed e)
  assume p: "position_ok (ox_position x)"
  from SessionClosed obtain q' where "Some q = Some q'" "xo_exitTime e = q_timestamp q'"
    "xo_filledShares e = Some (available_exit_shares (ox_position x) q')"
    by (rule resolve_session_close_Closed)
  with SessionClosed outcome_settled [OF p, of e "q_timestamp q" q] show ?thesis
    by (auto simp: session_close_open_def Let_def intro: unsold_same)
qed

lemma outcome_mode:
  "quote_outcome t (set_position (\<lambda>p. p\<lparr>p_executionMode := m\<rparr>) x) s = quote_outcome t x s"
  "quote_outcome t (set_position (\<lambda>p. p\<lparr>p_pendingExitReason := d\<rparr>) x) s = quote_outcome t x s"
  by (simp_all add: quote_outcome_def)

lemma advance_exit_outcome:
  assumes "position_ok (ox_position x)"
  shows "quote_outcome (q_timestamp q) x (advance_exit order x pending q b close portfolio)"
proof -
  let ?c = "set_position (\<lambda>p. p\<lparr>p_executionMode := Some CAPACITY_CONSTRAINED\<rparr>) x"
  let ?t = "set_position (\<lambda>p. p\<lparr>p_pendingExitReason := Some TIME_STOP\<rparr>) ?c"
  have ok: "position_ok (ox_position ?c)" "position_ok (ox_position ?t)"
    using assms by (simp_all add: set_position_def)
  have "quote_outcome (q_timestamp q) x (fst (session_close_open w ?c boundary (Some q) a))"
    "quote_outcome (q_timestamp q) x (fst (apply_quote_fact (QOpen ?c) q a))"
    "quote_outcome (q_timestamp q) x (fst (request_quote_time_stop (QOpen ?t) q a))" for w boundary a
    using session_close_outcome [OF ok(1)] apply_quote_outcome [OF ok(1)] time_stop_outcome [OF ok(2)]
    unfolding outcome_mode by blast+
  then show ?thesis
    by (simp add: advance_exit_def Let_def request_quote_session_close_def)
qed

text \<open>The record of the position stays in order, and dated by the quote at the latest.\<close>

definition dated_by :: "int \<Rightarrow> quote_execution_state \<Rightarrow> bool" where
  "dated_by m s \<longleftrightarrow> (case s of QOpen x \<Rightarrow> ms_of (ox_lastFactTimestamp x) \<le> m
     | QClosePending x \<Rightarrow> ms_of (ox_lastFactTimestamp x) \<le> m | _ \<Rightarrow> True)"

definition record_ok :: "int \<Rightarrow> quote_execution_state \<Rightarrow> bool" where
  "record_ok m s \<longleftrightarrow> quote_state_ok s \<and> chronological s \<and> dated_by m s"

lemma dated_settle: "dated_by m (settle_quote_fill pending x e a) \<longleftrightarrow>
    ms_of (xo_exitTime e) \<le> m \<or> (\<exists>c. settle_quote_fill pending x e a = QClosed c)"
  by (auto simp: settle_quote_fill_def Let_def dated_by_def)

lemma advance_exit_dated:
  assumes "ms_of (ox_lastFactTimestamp x) \<le> ms_of (q_timestamp q)"
  shows "dated_by (ms_of (q_timestamp q)) (advance_exit order x pending q b close portfolio)"
proof -
  note r = evaluate_quote_exit_Some(3) resolve_quote_time_stop_Some(4)
  have c: "resolve_session_close p (Some q) boundary a = SessionClosed e \<Longrightarrow> xo_exitTime e = q_timestamp q" for p boundary a e
    by (erule resolve_session_close_Closed) simp
  have "dated_by (ms_of (q_timestamp q)) (fst (apply_quote_fact (QOpen y) q a))"
    "dated_by (ms_of (q_timestamp q)) (fst (request_quote_time_stop (QOpen y) q a))"
    "dated_by (ms_of (q_timestamp q)) (fst (session_close_open w y boundary (Some q) a))"
    if "ox_lastFactTimestamp y = ox_lastFactTimestamp x" for y a w boundary
    using assms that
    by (auto simp: apply_quote_fact_def request_quote_time_stop_def session_close_open_def Let_def dated_settle
        dest: r c split: option.split session_close_result.split)
      (auto simp: dated_by_def)
  then show ?thesis
    by (simp add: advance_exit_def Let_def request_quote_session_close_def set_position_def)
qed

lemma advance_exit_reachable:
  "reachable (if pending then QClosePending (set_position (\<lambda>p. p\<lparr>p_executionMode := Some CAPACITY_CONSTRAINED\<rparr>) x)
       else QOpen (set_position (\<lambda>p. p\<lparr>p_executionMode := Some CAPACITY_CONSTRAINED\<rparr>) x))
     (advance_exit order x pending q b close portfolio) \<or>
   reachable (QOpen (set_position (\<lambda>p. p\<lparr>p_pendingExitReason := Some TIME_STOP\<rparr>)
       (set_position (\<lambda>p. p\<lparr>p_executionMode := Some CAPACITY_CONSTRAINED\<rparr>) x)))
     (advance_exit order x pending q b close portfolio)"
  unfolding advance_exit_def Let_def
  by (auto intro: reach_step [OF reach_start] move_quote move_time_stop move_session_close)

lemma advance_exit_record:
  assumes "position_ok (ox_position x)" "0 < int_of (remaining_of (ox_position x))" "open_chronological x"
    "ms_of (ox_lastFactTimestamp x) \<le> ms_of (q_timestamp q)"
  shows "record_ok (ms_of (q_timestamp q)) (advance_exit order x pending q b close portfolio)"
proof -
  let ?c = "set_position (\<lambda>p. p\<lparr>p_executionMode := Some CAPACITY_CONSTRAINED\<rparr>) x"
  let ?t = "set_position (\<lambda>p. p\<lparr>p_pendingExitReason := Some TIME_STOP\<rparr>) ?c"
  have mode: "open_chronological (set_position (\<lambda>p. p\<lparr>p_executionMode := m\<rparr>) y) = open_chronological y"
    "open_chronological (set_position (\<lambda>p. p\<lparr>p_pendingExitReason := d\<rparr>) y) = open_chronological y" for m d y
    by (simp_all add: open_chronological_def set_position_def times_ok_def fill_times_def fills_of_def)
  have ok: "position_ok (ox_position ?c)" "0 < int_of (remaining_of (ox_position ?c))"
    "position_ok (ox_position ?t)" "0 < int_of (remaining_of (ox_position ?t))"
    using assms(1,2) by (simp_all add: set_position_def)
  let ?s = "advance_exit order x pending q b close portfolio"
  from advance_exit_reachable [of pending x order q b close portfolio] have "quote_state_ok ?s \<and> chronological ?s"
    using ok assms(3) mode reachable_ok reachable_chronological
    by (auto split: if_splits elim!: reachable_ok reachable_chronological)
  then show ?thesis using advance_exit_dated [OF assms(4)] by (simp add: record_ok_def)
qed

section \<open>One order and one quote\<close>

text \<open>An execution as a fill leaves it: nothing sold yet, entered at the time of the quote.\<close>

definition entered_at :: "string \<Rightarrow> open_execution \<Rightarrow> bool" where
  "entered_at t x \<longleftrightarrow> p_remainingShares (ox_position x) = None \<and> p_exitFills (ox_position x) = None \<and>
     record_ok (ms_of t) (QOpen x) \<and> has_time t \<and> has_time (p_entryTime (ox_position x)) \<and>
     ms_of (p_entryTime (ox_position x)) = ms_of t"

inductive order_change :: "quote_fact \<Rightarrow> pending_order \<Rightarrow> pending_order \<Rightarrow> bool" for quote where
  change_none: "order_change quote r r"
| change_waiting: "is_pending r \<Longrightarrow> order_change quote r (r\<lparr>r_lastQuoteAt := t\<rparr>)"
| change_cancelled: "is_pending r \<Longrightarrow> order_change quote r (r\<lparr>r_status := CANCELLED, r_reason := reason\<rparr>)"
| change_rejected: "is_pending r \<Longrightarrow> position_in e = None \<Longrightarrow>
    order_change quote r (r\<lparr>r_status := REJECTED, r_lastQuoteAt := t, r_execution := Some e, r_reason := reason\<rparr>)"
| change_filled: "is_pending r \<Longrightarrow> entered_at (q_timestamp quote) x \<Longrightarrow>
    order_change quote r (r\<lparr>r_status := FILLED, r_lastQuoteAt := t, r_execution := Some (QOpen x), r_reason := None\<rparr>)"
| change_advanced: "open_part r = Some (x, pending) \<Longrightarrow> quote_outcome (q_timestamp quote) x s \<Longrightarrow>
    record_ok (ms_of (q_timestamp quote)) s \<Longrightarrow> order_change quote r (r\<lparr>r_execution := Some s\<rparr>)"

inductive_cases order_changeE: "order_change quote r r'"

text \<open>The record of an order: what its status says about its execution.\<close>

definition released_after_signal :: "pending_order \<Rightarrow> bool" where
  "released_after_signal r \<longleftrightarrow> date_parse (s_signalTimestamp (r_signal r)) \<le> date_parse (r_releaseAt r)"

definition order_record_ok :: "pending_order \<Rightarrow> bool" where
  "order_record_ok r \<longleftrightarrow> (case r_status r of
      PENDING \<Rightarrow> r_execution r = None \<and> released_after_signal r
    | FILLED \<Rightarrow> (\<exists>e. r_execution r = Some e \<and> quote_state_ok e \<and> chronological e \<and> position_in e \<noteq> None)
    | _ \<Rightarrow> \<not> has_open_execution r)"

text \<open>Its open execution is dated at the latest by the time given.\<close>

definition order_dated :: "int \<Rightarrow> pending_order \<Rightarrow> bool" where
  "order_dated m r \<longleftrightarrow> (\<forall>x pending. open_part r = Some (x, pending) \<longrightarrow> ms_of (ox_lastFactTimestamp x) \<le> m)"

lemma outcome_position: "quote_outcome t x s \<Longrightarrow> position_in s \<noteq> None"
  by (auto simp: quote_outcome_def unsold_def sold_one_def Let_def split: if_splits)

lemma open_part_status: "open_part r = Some (x, pending) \<Longrightarrow> r_status r = FILLED \<and> has_open_execution r"
  by (auto simp: open_part_def has_open_execution_def split: if_splits option.splits quote_execution_state.splits)

lemma order_change_record:
  assumes "order_change quote r r'" "order_record_ok r" "order_dated (ms_of (q_timestamp quote)) r"
  shows "order_record_ok r' \<and> order_dated (ms_of (q_timestamp quote)) r' \<and> r_orderId r' = r_orderId r"
  using assms(1)
proof (cases rule: order_change.cases)
  case (change_filled x t)
  then show ?thesis
    by (auto simp: order_record_ok_def order_dated_def open_part_def entered_at_def record_ok_def dated_by_def)
next
  case (change_advanced x pending s)
  then show ?thesis using open_part_status [OF change_advanced(2)] outcome_position [OF change_advanced(3)]
    by (cases s) (auto simp: order_record_ok_def order_dated_def open_part_def record_ok_def dated_by_def)
next
  case (change_rejected e t reason)
  then show ?thesis using assms(2)
    by (cases e) (auto simp: order_record_ok_def order_dated_def open_part_def has_open_execution_def)
qed (use assms(2,3) in \<open>auto simp: order_record_ok_def order_dated_def open_part_def is_pending_def
    has_open_execution_def released_after_signal_def\<close>)

section \<open>The orders of an allocation\<close>

lemma filled_entered:
  assumes "create_quote_execution signal (Some quote) a c (Some (q_timestamp quote)) = Inr (QOpen x)"
    "date_parse (s_signalTimestamp signal) \<le> date_parse (q_timestamp quote)"
    "p_shares (ox_position x) \<le> Fin (2 ^ 53)"
  shows "entered_at (q_timestamp quote) (filled_execution order latency x)"
proof -
  obtain out where out: "evaluate_quote_entry signal (Some quote) a c (Some (q_timestamp quote)) = Inr (EntryOpen out)"
    "ox_position x = position_of_entry out" "ox_lastFactTimestamp x = o_entryTime out"
    using assms(1) by (rule create_quote_execution_open)
  have time: "has_time (o_entryTime out)" "has_time (q_timestamp quote)" "has_time (s_signalTimestamp signal)"
    "ms_of (o_entryTime out) = max (max (ms_of (q_timestamp quote)) (ms_of (s_signalTimestamp signal))) (ms_of (q_timestamp quote))"
    by (rule entry_time [OF out(1)]; simp)+
  have "ms_of (s_signalTimestamp signal) \<le> ms_of (q_timestamp quote)"
    using assms(2) time(2,3) unfolding has_time_def by simp
  then have entry: "ms_of (o_entryTime out) = ms_of (q_timestamp quote)" using time(4) by simp
  have same: "quote_state_ok (QOpen (filled_execution order latency x)) = quote_state_ok (QOpen x)"
    "chronological (QOpen (filled_execution order latency x)) = chronological (QOpen x)"
    by (simp_all add: filled_execution_def position_ok_def remaining_of_def fills_of_def open_chronological_def
        times_ok_def fill_times_def)
  have "record_ok (ms_of (q_timestamp quote)) (QOpen (filled_execution order latency x))"
    unfolding record_ok_def same
    using created_ok [OF assms(1,3)] created_chronological [OF assms(1)] entry out(3)
    by (simp add: dated_by_def filled_execution_def)
  then show ?thesis using time(1,2) entry out(2)
    by (simp add: entered_at_def filled_execution_def position_of_entry_def)
qed

lemma create_quote_execution_kind: "create_quote_execution signal q a c d = Inr e \<Longrightarrow>
    position_in e = None \<or> (\<exists>x. e = QOpen x)"
  by (auto simp: create_quote_execution_def bindR_eq_Inr split: quote_entry_result.splits)
    (case_tac x, auto)

text \<open>The allocation evaluates a pending order with its own terms replaced, and puts them back.\<close>

lemma entry_quote_change:
  assumes "apply_entry_order_quote (executable_entry liquidity m order) quote' = Inr evaluated"
    "is_pending order" "order_record_ok order" "q_timestamp quote' = q_timestamp quote"
    "\<And>x. r_status evaluated = FILLED \<Longrightarrow> r_execution evaluated = Some (QOpen x) \<Longrightarrow>
      p_shares (ox_position x) \<le> Fin (2 ^ 53)"
  shows "order_change quote order (evaluated\<lparr>r_assumptions := r_assumptions order, r_context := r_context order\<rparr>)"
proof -
  let ?e = "executable_entry liquidity m order"
  let ?restore = "\<lambda>r. r\<lparr>r_assumptions := r_assumptions order, r_context := r_context order\<rparr>"
  have fields: "r_signal ?e = r_signal order" "r_releaseAt ?e = r_releaseAt order"
    by (simp_all add: executable_entry_def Let_def)
  have restored: "?restore ?e = order" "\<And>t. ?restore (?e\<lparr>r_lastQuoteAt := t\<rparr>) = order\<lparr>r_lastQuoteAt := t\<rparr>"
    "\<And>s u. ?restore (?e\<lparr>r_status := s, r_reason := u\<rparr>) = order\<lparr>r_status := s, r_reason := u\<rparr>"
    "\<And>s t x u. ?restore (?e\<lparr>r_status := s, r_lastQuoteAt := t, r_execution := x, r_reason := u\<rparr>) =
       order\<lparr>r_status := s, r_lastQuoteAt := t, r_execution := x, r_reason := u\<rparr>"
    by (simp_all add: executable_entry_def Let_def)
  have step: "order_step ?e quote' = evaluated" using assms(1) by (simp add: order_step_def)
  show ?thesis
  proof (cases rule: order_step_cases [of ?e quote'])
    case same
    then show ?thesis using step restored(1) by (metis change_none)
  next
    case (expired expires)
    then show ?thesis using step restored(3) assms(2) by (metis change_cancelled)
  next
    case (settled expires execution order')
    from settled(7) step settled(9) have e: "settle_order_execution ?e quote' execution = Inr evaluated" by simp
    then show ?thesis
    proof (cases rule: settle_order_cases)
      case waiting
      then show ?thesis using restored(2) assms(2) by (metis change_waiting)
    next
      case (filled x released submitted)
      let ?x = "filled_execution ?e (released - submitted) x"
      have "date_parse (s_signalTimestamp (r_signal order)) \<le> date_parse (q_timestamp quote')"
        using assms(2,3) settled(2) fields
        by (auto simp: order_record_ok_def is_pending_def released_after_signal_def in_turn_def dest: js_le_trans)
      moreover have "p_shares (ox_position x) \<le> Fin (2 ^ 53)"
        using assms(5) [of ?x] filled(4) by (simp add: filled_execution_def)
      ultimately have "entered_at (q_timestamp quote') ?x"
        using settled(6) filled(1) fields
        by (intro filled_entered) (simp_all add: evaluation_of_def)
      then have x: "entered_at (q_timestamp quote) ?x" unfolding assms(4) .
      show ?thesis unfolding filled(4) restored(4) using assms(2) x by (rule change_filled)
    next
      case (rejected reason)
      have "\<not> (\<exists>x. execution = QOpen x)"
      proof
        assume "\<exists>x. execution = QOpen x"
        then have "r_status evaluated = FILLED" using e by (auto simp: settle_order_execution_def bindR_eq_Inr)
        then show False using rejected by simp
      qed
      then have "position_in execution = None"
        using create_quote_execution_kind [OF settled(6) [unfolded evaluation_of_def]] by auto
      then show ?thesis unfolding rejected restored(4) using assms(2) by (intro change_rejected)
    qed
  qed
qed

text \<open>From lists of orders to their changes.\<close>

definition changes :: "quote_fact \<Rightarrow> pending_order list \<Rightarrow> pending_order list \<Rightarrow> bool" where
  "changes quote = list_all2 (order_change quote)"

lemma entry_step_change:
  assumes "allocate_entry_step liquidity s order = Inr s'" "order_record_ok order"
    "q_timestamp (el_quote liquidity) = q_timestamp quote"
  obtains after where "ea_results s' = ea_results s @ [after]" "r_orderId after = r_orderId order"
    "if is_pending order then order_change quote order after else after = order"
proof (cases "entry_skipped liquidity (ea_processed s) order")
  case True
  then have "ea_results s' = ea_results s @ [order]"
    using assms(1) by (auto simp: allocate_entry_step_def)
  then show ?thesis by (rule that) (simp_all add: change_none)
next
  case False
  then have pend: "is_pending order" by (simp add: entry_skipped_def is_pending_def)
  let ?m = "el_availableShares liquidity - ea_consumed s"
  let ?q = "(el_quote liquidity)\<lparr>q_askSize := ?m\<rparr>"
  obtain evaluated where ev: "apply_entry_order_quote (executable_entry liquidity ?m order) ?q = Inr evaluated"
    using assms(1) False by (auto simp: allocate_entry_step_def Let_def bindR_eq_Inr)
  let ?after = "evaluated\<lparr>r_assumptions := r_assumptions order, r_context := r_context order\<rparr>"
  have results: "ea_results s' = ea_results s @ [?after]"
    using assms(1) False ev by (auto simp: allocate_entry_step_def Let_def split: if_splits)
  have shares: "p_shares (ox_position x) \<le> Fin (2 ^ 53)"
    if "r_status evaluated = FILLED" "r_execution evaluated = Some (QOpen x)" for x
  proof -
    have "is_safe_integer (p_shares (ox_position x))"
      using assms(1) False ev that by (auto simp: allocate_entry_step_def Let_def split: if_splits)
    then show ?thesis by (cases "p_shares (ox_position x)") auto
  qed
  have "q_timestamp ?q = q_timestamp quote" using assms(3) by simp
  from entry_quote_change [OF ev pend assms(2) this shares] have "order_change quote order ?after" by blast
  moreover have "r_orderId ?after = r_orderId order"
    using apply_entry_order_quote_id [OF ev] by (simp add: executable_entry_def Let_def)
  ultimately show ?thesis using results pend that by simp
qed

lemma entry_loop_change:
  assumes "allocate_entry_loop liquidity s orders = Inr s'" "\<forall>r \<in> set orders. order_record_ok r"
    "q_timestamp (el_quote liquidity) = q_timestamp quote"
  shows "\<exists>afters. ea_results s' = ea_results s @ afters \<and> map r_orderId afters = map r_orderId orders \<and>
    list_all2 (\<lambda>r r'. if is_pending r then order_change quote r r' else r' = r) orders afters"
  using assms(1,2)
proof (induction orders arbitrary: s)
  case (Cons order orders)
  then obtain s1 where s1: "allocate_entry_step liquidity s order = Inr s1"
    "allocate_entry_loop liquidity s1 orders = Inr s'" by (auto simp: bindR_eq_Inr)
  have "order_record_ok order" using Cons.prems(2) by simp
  then obtain after where a: "ea_results s1 = ea_results s @ [after]" "r_orderId after = r_orderId order"
    "if is_pending order then order_change quote order after else after = order"
    by (rule entry_step_change [OF s1(1) _ assms(3)])
  obtain afters where b: "ea_results s' = ea_results s1 @ afters" "map r_orderId afters = map r_orderId orders"
    "list_all2 (\<lambda>r r'. if is_pending r then order_change quote r r' else r' = r) orders afters"
    using Cons.IH [OF s1(2)] Cons.prems(2) by auto
  show ?case using a b by (intro exI [of _ "after # afters"]) simp
qed simp

lemma permuted_results:
  assumes "distinct (map r_orderId orders)" "set batch = set orders"
    "map r_orderId afters = map r_orderId batch" "list_all2 P batch afters" "distinct (map r_orderId batch)"
  shows "list_all2 P orders (map (result_of afters) orders)"
proof -
  have "P r (result_of afters r)" if "r \<in> set orders" for r
  proof -
    have "r \<in> set batch" using that assms(2) by simp
    then obtain k where k: "k < length batch" "batch ! k = r" unfolding in_set_conv_nth by blast
    have len: "length afters = length batch" using assms(3) by (rule map_eq_imp_length_eq)
    have "map (result_of afters) batch = afters" by (rule map_result_of [OF assms(5,3)])
    then have "result_of afters r = afters ! k" using k len by (metis nth_map)
    with list_all2_nthD [OF assms(4) k(1)] k(2) show ?thesis by simp
  qed
  then show ?thesis by (simp add: list_all2_conv_all_nth)
qed

lemma entry_allocation_changes:
  assumes "allocate_entry_liquidity liquidity i orders = Inr (l, after)" "\<forall>r \<in> set orders. order_record_ok r"
    "q_timestamp (el_quote liquidity) = q_timestamp quote"
  shows "list_all2 (\<lambda>r r'. if is_pending r then order_change quote r r' else r' = r) orders after"
proof -
  let ?sorted = "js_sort entry_order_cmp orders"
  from assms(1) obtain s' where d: "distinct (map r_orderId orders)"
    and l: "allocate_entry_loop liquidity \<lparr>ea_consumed = el_consumedShares liquidity,
      ea_processed = el_processedOrderIds liquidity, ea_results = []\<rparr> ?sorted = Inr s'"
    and os: "after = map (result_of (ea_results s')) orders"
    by (auto simp: allocate_entry_liquidity_def bindR_eq_Inr split: if_splits)
  have ok: "\<forall>r \<in> set ?sorted. order_record_ok r" using assms(2) by simp
  from entry_loop_change [OF l ok assms(3)] obtain afters where a: "ea_results s' = afters"
    "map r_orderId afters = map r_orderId ?sorted"
    "list_all2 (\<lambda>r r'. if is_pending r then order_change quote r r' else r' = r) ?sorted afters" by auto
  have "distinct (map r_orderId ?sorted)" using d by (metis mset_eq_imp_distinct_iff mset_js_sort mset_map)
  from permuted_results [OF d _ a(2,3) this] show ?thesis unfolding os a(1) by simp
qed

lemma exit_loop_change:
  assumes "allocate_exit_loop quote b close portfolio s orders = Inr s'"
    "\<forall>r \<in> set orders. order_record_ok r \<and> order_dated (ms_of (q_timestamp quote)) r"
  shows "\<exists>afters. xa_updated s' = xa_updated s @ afters \<and>
    map r_orderId afters = map r_orderId (filter (\<lambda>r. open_part r \<noteq> None) orders) \<and>
    list_all2 (\<lambda>r r'. order_change quote r r' \<and> r_status r' = r_status r)
      (filter (\<lambda>r. open_part r \<noteq> None) orders) afters"
  using assms
proof (induction orders arbitrary: s)
  case (Cons order orders)
  then obtain s1 where s1: "allocate_exit_step quote b close portfolio s order = Inr s1"
    "allocate_exit_loop quote b close portfolio s1 orders = Inr s'" by (auto simp: bindR_eq_Inr)
  show ?case
  proof (cases "open_part order")
    case None
    then show ?thesis using s1 Cons.IH [of s] Cons.prems(2) by (simp add: allocate_exit_step_def)
  next
    case (Some xp)
    then obtain x pending where o: "open_part order = Some (x, pending)" by (cases xp) simp
    let ?q = "quote\<lparr>q_bidSize := xa_remaining s\<rparr>"
    let ?s = "advance_exit order x pending ?q b close portfolio"
    have ok: "order_record_ok order" "order_dated (ms_of (q_timestamp quote)) order" using Cons.prems(2) by auto
    have f: "r_status order = FILLED" using open_part_status [OF o] by simp
    have x: "position_ok (ox_position x)" "0 < int_of (remaining_of (ox_position x))" "open_chronological x"
      "ms_of (ox_lastFactTimestamp x) \<le> ms_of (q_timestamp ?q)"
      using ok o f by (auto simp: order_record_ok_def order_dated_def open_part_def
          split: option.splits quote_execution_state.splits)
    have "order_change quote order (order\<lparr>r_execution := Some ?s\<rparr>)"
      using advance_exit_outcome [OF x(1), of ?q order pending b close portfolio] advance_exit_record [OF x]
      by (intro change_advanced [OF o]) simp_all
    moreover have "xa_updated s1 = xa_updated s @ [order\<lparr>r_execution := Some ?s\<rparr>]"
      using s1(1) o by (auto simp: allocate_exit_step_def Let_def split: if_splits)
    moreover obtain afters where "xa_updated s' = xa_updated s1 @ afters"
      "map r_orderId afters = map r_orderId (filter (\<lambda>r. open_part r \<noteq> None) orders)"
      "list_all2 (\<lambda>r r'. order_change quote r r' \<and> r_status r' = r_status r)
        (filter (\<lambda>r. open_part r \<noteq> None) orders) afters"
      using Cons.IH [OF s1(2)] Cons.prems(2) by auto
    ultimately show ?thesis using o
      by (intro exI [of _ "order\<lparr>r_execution := Some ?s\<rparr> # afters"]) simp
  qed
qed simp

lemma exit_allocation_changes:
  assumes "allocate_exit_liquidity orders quote p b close portfolio = Inr (exited, n)"
    "\<forall>r \<in> set orders. order_record_ok r \<and> order_dated (ms_of (q_timestamp quote)) r"
  shows "list_all2 (\<lambda>r r'. order_change quote r r' \<and> r_status r' = r_status r \<and> (open_part r = None \<longrightarrow> r' = r))
    orders exited"
proof -
  let ?sorted = "js_sort exit_order_cmp orders"
  let ?P = "\<lambda>r. open_part r \<noteq> None"
  from assms(1) obtain s where d: "distinct (map r_orderId orders)"
    and l: "allocate_exit_loop quote b close portfolio
      \<lparr>xa_remaining = math_floor (q_bidSize quote * p), xa_updated = []\<rparr> ?sorted = Inr s"
    and os: "exited = map (result_of (xa_updated s)) orders"
    by (auto simp: allocate_exit_liquidity_def Let_def bindR_eq_Inr split: if_splits)
  have ok: "\<forall>r \<in> set ?sorted. order_record_ok r \<and> order_dated (ms_of (q_timestamp quote)) r" using assms(2) by simp
  from exit_loop_change [OF l ok] obtain afters where a: "xa_updated s = afters"
    "map r_orderId afters = map r_orderId (filter ?P ?sorted)"
    "list_all2 (\<lambda>r r'. order_change quote r r' \<and> r_status r' = r_status r) (filter ?P ?sorted) afters" by auto
  have ds: "distinct (map r_orderId ?sorted)" using d by (metis mset_eq_imp_distinct_iff mset_js_sort mset_map)
  then have df: "distinct (map r_orderId (filter ?P ?sorted))" by (simp add: distinct_map_filter)
  have dor: "distinct (map r_orderId (filter ?P orders))" using d by (simp add: distinct_map_filter)
  have open_orders: "list_all2 (\<lambda>r r'. order_change quote r r' \<and> r_status r' = r_status r) (filter ?P orders)
      (map (result_of afters) (filter ?P orders))"
    by (rule permuted_results [OF dor _ a(2,3) df]) simp
  have "order_change quote r (result_of afters r) \<and> r_status (result_of afters r) = r_status r \<and>
      (open_part r = None \<longrightarrow> result_of afters r = r)" if r: "r \<in> set orders" for r
  proof (cases "open_part r")
    case None
    then have "result_of afters r = r" using result_of_closed [OF ds a(2), of r] r by simp
    then show ?thesis using change_none by simp
  next
    case (Some xp)
    with r have "r \<in> set (filter ?P orders)" by simp
    then obtain k where "k < length (filter ?P orders)" "filter ?P orders ! k = r" unfolding in_set_conv_nth by blast
    with open_orders Some show ?thesis by (auto simp: list_all2_conv_all_nth)
  qed
  then show ?thesis unfolding os a(1) by (simp add: list_all2_conv_all_nth)
qed

lemma record_cancelled: "order_record_ok r \<Longrightarrow> is_pending r \<Longrightarrow>
    order_record_ok (r\<lparr>r_status := CANCELLED, r_reason := reason\<rparr>)"
  by (simp add: order_record_ok_def is_pending_def has_open_execution_def)

lemma close_out_shape: "close_out quote closeAt r = Inr r' \<Longrightarrow> r' = r \<or>
    is_pending r \<and> (\<exists>reason. r' = r\<lparr>r_status := CANCELLED, r_reason := reason\<rparr>)"
  by (auto simp: close_out_def is_pending_def dest!: cancel_shape split: if_splits)

lemma allocation_changes:
  assumes "allocate_orders initial orders quote p b closeAt portfolio = Inr (l, after)"
    "el_quote initial = quote"
    "\<forall>r \<in> set orders. order_record_ok r \<and> order_dated (ms_of (q_timestamp quote)) r"
  shows "list_all2 (order_change quote) orders after"
proof -
  obtain exited n eligible where e: "allocate_exit_liquidity orders quote p b (Some closeAt) portfolio = Inr (exited, n)"
    "mapR (close_out quote closeAt) exited = Inr eligible"
    "allocate_entry_liquidity (initial\<lparr>el_consumedBidShares := n\<rparr>) (el_instrumentId initial) eligible = Inr (l, after)"
    using assms(1) by (auto simp: allocate_orders_def bindR_eq_Inr)
  have 1: "list_all2 (\<lambda>r r'. order_change quote r r' \<and> r_status r' = r_status r \<and> (open_part r = None \<longrightarrow> r' = r)) orders exited"
    by (rule exit_allocation_changes [OF e(1) assms(3)])
  have 2: "list_all2 (\<lambda>x y. close_out quote closeAt x = Inr y) exited eligible" using e(2) by (simp add: mapR_Inr)
  have len: "length exited = length orders" "length eligible = length orders"
    using list_all2_lengthD [OF 1] list_all2_lengthD [OF 2] by simp_all
  have ok: "order_record_ok (exited ! k)" if "k < length orders" for k
    using order_change_record [of quote "orders ! k" "exited ! k"] list_all2_nthD [OF 1 that] assms(3) that by simp
  have closed: "eligible ! k = exited ! k \<or> is_pending (exited ! k) \<and>
      (\<exists>reason. eligible ! k = (exited ! k)\<lparr>r_status := CANCELLED, r_reason := reason\<rparr>)" if "k < length orders" for k
    using close_out_shape list_all2_nthD [OF 2, of k] that len(1) by simp
  have "order_record_ok (eligible ! k)" if "k < length orders" for k
    using closed [OF that] ok [OF that] record_cancelled by metis
  then have okE: "\<forall>r \<in> set eligible. order_record_ok r" using len by (metis in_set_conv_nth)
  have 3: "list_all2 (\<lambda>r r'. if is_pending r then order_change quote r r' else r' = r) eligible after"
    using assms(2) by (intro entry_allocation_changes [OF e(3) okE]) simp
  have "order_change quote (orders ! k) (after ! k)" if k: "k < length orders" for k
  proof -
    have c: "order_change quote (orders ! k) (exited ! k)" "r_status (exited ! k) = r_status (orders ! k)"
      "open_part (orders ! k) = None \<longrightarrow> exited ! k = orders ! k"
      using 1 k by (auto simp: list_all2_conv_all_nth)
    have d: "if is_pending (eligible ! k) then order_change quote (eligible ! k) (after ! k) else after ! k = eligible ! k"
      using 3 k len by (auto simp: list_all2_conv_all_nth)
    show ?thesis
    proof (cases "is_pending (orders ! k)")
      case True
      then have same: "exited ! k = orders ! k" using c(3) by (simp add: open_part_def is_pending_def)
      from closed [OF k] d True show ?thesis unfolding same
        by (auto simp: is_pending_def intro: change_cancelled [unfolded is_pending_def])
    next
      case False
      then have "\<not> is_pending (exited ! k)" using c(2) by (simp add: is_pending_def)
      with closed [OF k] d c(1) show ?thesis by auto
    qed
  qed
  then show ?thesis using 3 len by (auto simp: list_all2_conv_all_nth)
qed

section \<open>The ledger events of a changed order\<close>

definition open_holding :: "string \<Rightarrow> pending_order \<Rightarrow> (string \<times> jsnum) option" where
  "open_holding n r = map_option (\<lambda>(x, pending). (n, remaining_of (ox_position x))) (open_part r)"

definition order_holding :: "string \<Rightarrow> pending_order \<Rightarrow> holding" where
  "order_holding n r = (is_pending r, open_holding n r)"

lemma sell_events_earlier:
  "\<forall>f \<in> set fs. \<not> js_eq (date_parse (xo_exitTime f)) (date_parse t) \<Longrightarrow> sell_events sv i t p c sold fs = []"
  by (induction fs arbitrary: sold) (auto simp: Let_def)

lemma sell_events_last:
  assumes "\<forall>f \<in> set fs. \<not> js_eq (date_parse (xo_exitTime f)) (date_parse t)"
    "js_eq (date_parse (xo_exitTime e)) (date_parse t)"
  shows "\<exists>price fee. sell_events sv i t p c sold (fs @ [e]) =
    [ledger_event_of sv (''sell:'' @ i @ '':'' @ xo_exitTime e) t
      (Sell i (coalesce (xo_filledShares e) (p_shares p)) price fee)]"
  using assms by (induction fs arbitrary: sold) (auto simp: Let_def)

lemma has_time_eq: "has_time t \<Longrightarrow> has_time u \<Longrightarrow> js_eq (date_parse t) (date_parse u) \<longleftrightarrow> ms_of t = ms_of u"
  unfolding has_time_def by (simp add: js_eq_def)

lemma earlier_fills:
  assumes "open_chronological x" "ms_of (ox_lastFactTimestamp x) < ms_of t" "has_time t"
  shows "\<forall>f \<in> set (fills_of (ox_position x)). \<not> js_eq (date_parse (xo_exitTime f)) (date_parse t)"
    "\<not> js_eq (date_parse (p_entryTime (ox_position x))) (date_parse t)"
proof -
  have t: "\<not> js_eq (date_parse u) (date_parse t)" if u: "u \<in> set (fill_times (ox_position x))" for u
  proof -
    have "has_time u" "ms_of u \<le> ms_of (ox_lastFactTimestamp x)"
      using assms(1) u by (auto simp: open_chronological_def times_ok_def list_all_iff)
    then show ?thesis using assms(2,3) has_time_eq by simp
  qed
  show "\<forall>f \<in> set (fills_of (ox_position x)). \<not> js_eq (date_parse (xo_exitTime f)) (date_parse t)"
    using t by (simp add: fill_times_def)
  show "\<not> js_eq (date_parse (p_entryTime (ox_position x))) (date_parse t)"
    using t by (simp add: fill_times_def)
qed

text \<open>The events of a filled order that is not entered at the time of the quote are its sales.\<close>

lemma order_events_position:
  assumes "r_status r = FILLED" "r_execution r = Some s" "position_in s = Some p"
    "\<And>x. s = QOpen x \<Longrightarrow> \<not> js_eq (date_parse (p_entryTime p)) (date_parse (q_timestamp quote))"
  shows "order_events sv n quote r = Inr (sell_events sv (r_orderId r) (q_timestamp quote) p
    (cost_snapshot_of (r_assumptions r)) (Fin 0) (fills_of p))"
  using assms by (cases s) (auto simp: order_events_def execution_position_def fills_of_def)

definition new_for :: "pending_order \<Rightarrow> quote_fact \<Rightarrow> ledger_event \<Rightarrow> bool" where
  "new_for r quote e \<longleftrightarrow> ev_at e = q_timestamp quote \<and> (case ev_action e of
      Release i \<Rightarrow> is_pending r | Buy i p n s c f t \<Rightarrow> is_pending r | Sell p s c f \<Rightarrow> \<not> is_pending r | _ \<Rightarrow> False)"

text \<open>The events change what the ledger holds for the order as the order itself has changed.\<close>

definition mirrored :: "string \<Rightarrow> quote_fact \<Rightarrow> pending_order \<Rightarrow> pending_order \<Rightarrow> ledger_event list \<Rightarrow> bool" where
  "mirrored n quote r r' es \<longleftrightarrow>
     es = [] \<and> order_holding n r' = order_holding n r \<or>
     (\<exists>e. es = [e] \<and> event_order e = Some (r_orderId r) \<and> own_position e \<and> new_for r quote e \<and>
        (accepted (ev_action e) (order_holding n r) \<longrightarrow> effect (ev_action e) (order_holding n r) = order_holding n r'))"

lemma mirrored_filled:
  assumes "entered_at (q_timestamp quote) x" "is_pending r" "order_record_ok r"
    "r' = r\<lparr>r_status := FILLED, r_lastQuoteAt := t, r_execution := Some (QOpen x), r_reason := None\<rparr>"
    "order_events sv n quote r' = Inr es"
  shows "mirrored n quote r r' es"
proof -
  have "js_eq (date_parse (p_entryTime (ox_position x))) (date_parse (q_timestamp quote))"
    using assms(1) has_time_eq by (auto simp: entered_at_def)
  then have es: "es = [buy_event sv n quote r' (ox_position x)]"
    using assms(4,5) by (auto simp: order_events_def execution_position_def split: if_splits)
  have "order_holding n r' = (False, Some (n, p_shares (ox_position x)))"
    using assms(1,4) by (simp add: order_holding_def is_pending_def open_holding_def open_part_def
        entered_at_def remaining_of_def)
  then show ?thesis unfolding mirrored_def es
    using assms(2,4) by (auto simp: buy_event_def ledger_event_of_def event_order_def own_position_def new_for_def)
qed

lemma mirrored_release:
  assumes "is_pending r" "order_record_ok r" "r_status r' \<noteq> PENDING" "open_part r' = None"
    "es = [release_event sv (r_orderId r) (q_timestamp quote)]"
  shows "mirrored n quote r r' es"
proof -
  have "order_holding n r = (True, None)" "order_holding n r' = (False, None)"
    using assms(1-4) by (auto simp: order_holding_def open_holding_def open_part_def is_pending_def)
  then show ?thesis unfolding mirrored_def assms(5)
    using assms(1) by (auto simp: release_event_def ledger_event_of_def event_order_def own_position_def new_for_def)
qed

lemma mirrored_advanced:
  assumes "open_part r = Some (x, pending)" "quote_outcome (q_timestamp quote) x s"
    "order_record_ok r" "ms_of (ox_lastFactTimestamp x) < ms_of (q_timestamp quote)" "has_time (q_timestamp quote)"
    "r' = r\<lparr>r_execution := Some s\<rparr>" "record_ok (ms_of (q_timestamp quote)) s"
    "order_events sv n quote r' = Inr es"
  shows "mirrored n quote r r' es"
proof -
  have f: "r_status r = FILLED" "\<not> is_pending r" using open_part_status [OF assms(1)] by (simp_all add: is_pending_def)
  have x: "position_ok (ox_position x)" "open_chronological x"
    using assms(1,3) f by (auto simp: order_record_ok_def open_part_def split: option.splits quote_execution_state.splits)
  note early = earlier_fills [OF x(2) assms(4,5)]
  have h: "order_holding n r = (False, Some (n, remaining_of (ox_position x)))"
    using assms(1) f by (simp add: order_holding_def open_holding_def)
  from assms(2) consider "unsold x s" | e where "sold_one (q_timestamp quote) x s e"
    by (auto simp: quote_outcome_def)
  then show ?thesis
  proof cases
    case 1
    then obtain y where y: "s = QOpen y \<or> s = QClosePending y"
      "remaining_of (ox_position y) = remaining_of (ox_position x)"
      "fills_of (ox_position y) = fills_of (ox_position x)"
      "p_entryTime (ox_position y) = p_entryTime (ox_position x)" by (auto simp: unsold_def)
    have "order_events sv n quote r' = Inr (sell_events sv (r_orderId r') (q_timestamp quote) (ox_position y)
        (cost_snapshot_of (r_assumptions r')) (Fin 0) (fills_of (ox_position y)))"
      using y early(2) f assms(6) by (intro order_events_position [of _ s]) auto
    then have "es = []" using assms(8) y(3) sell_events_earlier early(1) by simp
    moreover have "order_holding n r' = (False, Some (n, remaining_of (ox_position x)))"
      using y f assms(6) by (auto simp: order_holding_def open_holding_def open_part_def is_pending_def)
    ultimately show ?thesis using h by (simp add: mirrored_def)
  next
    case (2 e)
    define left where "left = remaining_of (ox_position x) - the (xo_filledShares e)"
    obtain k where k: "xo_filledShares e = Some (num k)" "0 \<le> k" "k \<le> 2 ^ 53" using 2 by (auto simp: sold_one_def)
    have "\<exists>p. position_in s = Some p \<and> fills_of p = fills_of (ox_position x) @ [e] \<and>
        order_holding n r' = (False, if Fin 0 < left then Some (n, left) else None) \<and>
        (\<forall>z. s = QOpen z \<longrightarrow> p_entryTime p = p_entryTime (ox_position x))"
      using 2 f assms(6) unfolding sold_one_def Let_def left_def [symmetric]
      by (cases "Fin 0 < left") (auto simp: order_holding_def open_holding_def open_part_def is_pending_def)
    then obtain p where p: "position_in s = Some p" "fills_of p = fills_of (ox_position x) @ [e]"
      and hs: "order_holding n r' = (False, if Fin 0 < left then Some (n, left) else None)"
      and en: "\<And>z. s = QOpen z \<Longrightarrow> p_entryTime p = p_entryTime (ox_position x)" by blast
    have "order_events sv n quote r' = Inr (sell_events sv (r_orderId r') (q_timestamp quote) p
        (cost_snapshot_of (r_assumptions r')) (Fin 0) (fills_of p))"
      using f assms(6) early(2) en by (intro order_events_position [OF _ _ p(1)]) auto
    moreover have "js_eq (date_parse (xo_exitTime e)) (date_parse (q_timestamp quote))"
      using 2 assms(5) has_time_eq by (simp add: sold_one_def)
    ultimately obtain price fee where es: "es = [ledger_event_of sv (''sell:'' @ r_orderId r' @ '':'' @ xo_exitTime e)
        (q_timestamp quote) (Sell (r_orderId r') (num k) price fee)]"
      using assms(8) sell_events_last [OF early(1)] k unfolding p(2) by fastforce
    obtain m w where m: "m \<le> 2 ^ 53" "remaining_of (ox_position x) = num w" "0 \<le> w" "w \<le> m"
      using position_okE [OF x(1)] by metis
    have "accepted (Sell (r_orderId r') (num k) price fee) (order_holding n r) \<longrightarrow>
        effect (Sell (r_orderId r') (num k) price fee) (order_holding n r) = order_holding n r'"
    proof
      assume "accepted (Sell (r_orderId r') (num k) price fee) (order_holding n r)"
      then have le: "k \<le> w" using h m(2) by simp
      define d where "d = w - k"
      have "num w - num k = num d" unfolding d_def using k m le by (intro num_diff) auto
      then have left: "left = num d" by (simp add: left_def m(2) k(1))
      have eq: "js_eq (num k) (num w) \<longleftrightarrow> d = 0" by (auto simp: js_eq_def d_def)
      show "effect (Sell (r_orderId r') (num k) price fee) (order_holding n r) = order_holding n r'"
        using le eq left unfolding h hs m(2) by (simp add: d_def \<open>num w - num k = num d\<close>)
    qed
    note sums = this
    show ?thesis unfolding mirrored_def es
      using sums f(2) assms(6)
      by (auto simp: ledger_event_of_def event_order_def own_position_def new_for_def)
  qed
qed

lemma order_change_mirrored:
  assumes "order_change quote r r'" "r' \<noteq> r" "order_record_ok r" "has_time (q_timestamp quote)"
    "\<And>x pending. open_part r = Some (x, pending) \<Longrightarrow> ms_of (ox_lastFactTimestamp x) < ms_of (q_timestamp quote)"
    "order_events sv n quote r' = Inr es"
  shows "mirrored n quote r r' es"
  using assms(1)
proof (cases rule: order_change.cases)
  case (change_waiting t)
  then have "es = []" "order_holding n r' = order_holding n r"
    using assms(6) by (auto simp: order_events_def is_pending_def order_holding_def open_holding_def open_part_def)
  then show ?thesis by (simp add: mirrored_def)
next
  case (change_cancelled reason)
  then show ?thesis using assms(6)
    by (intro mirrored_release [OF _ assms(3)]) (auto simp: order_events_def open_part_def)
next
  case (change_rejected e t reason)
  then show ?thesis using assms(6)
    by (intro mirrored_release [OF _ assms(3)]) (auto simp: order_events_def open_part_def)
next
  case (change_filled x t)
  with assms(6) mirrored_filled [OF change_filled(3,2) assms(3)] show ?thesis by simp
next
  case (change_advanced x pending s)
  show ?thesis
    by (rule mirrored_advanced [OF change_advanced(2,3) assms(3) assms(5) [OF change_advanced(2)] assms(4)
          change_advanced(1,4) assms(6)])
qed (use assms(2) in simp)

section \<open>Rows and accounts\<close>

text \<open>The run of the row is bound to the account.\<close>

definition bound_row :: "database \<Rightarrow> string \<Rightarrow> order_row \<Rightarrow> bool" where
  "bound_row db a w \<longleftrightarrow> (\<exists>b \<in> set (db_bindings db). bd_runId b = ow_runId w \<and> bd_accountId b = a)"

definition account_order :: "database \<Rightarrow> string \<Rightarrow> string \<Rightarrow> order_row option" where
  "account_order db a i = find (\<lambda>w. ow_orderId w = i \<and> bound_row db a w) (db_orders db)"

definition row_holding :: "order_row \<Rightarrow> holding" where
  "row_holding w = order_holding (ow_instrumentId w) (ow_state w)"

definition expected_holding :: "database \<Rightarrow> string \<Rightarrow> string \<Rightarrow> holding" where
  "expected_holding db a i = (case account_order db a i of None \<Rightarrow> (False, None) | Some w \<Rightarrow> row_holding w)"

text \<open>The last quote of the row's run and instrument is not before the given time.\<close>

definition quoted_since :: "database \<Rightarrow> order_row \<Rightarrow> int \<Rightarrow> bool" where
  "quoted_since db w m \<longleftrightarrow> (\<exists>l. find_liquidity db (ow_runId w) (ow_instrumentId w) = Some l \<and>
     has_time (q_timestamp (el_quote (lw_state l))) \<and> m \<le> ms_of (q_timestamp (el_quote (lw_state l))))"

definition row_ok :: "database \<Rightarrow> order_row \<Rightarrow> bool" where
  "row_ok db w \<longleftrightarrow> order_record_ok (ow_state w) \<and>
     (\<forall>x pending. open_part (ow_state w) = Some (x, pending) \<longrightarrow> quoted_since db w (ms_of (ox_lastFactTimestamp x)))"

text \<open>What an event in the log of an account says of the order it is about.\<close>

definition event_ok :: "database \<Rightarrow> string \<Rightarrow> ledger_event \<Rightarrow> bool" where
  "event_ok db a e \<longleftrightarrow> own_position e \<and> (case ev_action e of
      Reserve i d r \<Rightarrow> account_order db a i \<noteq> None
    | Release i \<Rightarrow> (\<exists>w. account_order db a i = Some w \<and> \<not> is_pending (ow_state w))
    | Buy i p n s c f t \<Rightarrow> (\<exists>w. account_order db a i = Some w \<and> \<not> is_pending (ow_state w))
    | Sell p s c f \<Rightarrow> (\<exists>w. account_order db a p = Some w \<and> \<not> is_pending (ow_state w) \<and>
        has_time (ev_at e) \<and> quoted_since db w (ms_of (ev_at e)))
    | _ \<Rightarrow> True)"

definition reserve_id :: "string \<Rightarrow> string" where
  "reserve_id i = ''reserve:'' @ i"

definition account_ok :: "database \<Rightarrow> string \<Rightarrow> account_store \<Rightarrow> bool" where
  "account_ok db a s \<longleftrightarrow> store_ok s \<and>
     (\<forall>e \<in> set (lg_events (full_ledger s)). event_ok db a e) \<and>
     (\<forall>w \<in> set (db_orders db). bound_row db a w \<longrightarrow>
        reserve_id (ow_orderId w) \<in> ev_id ` set (lg_events (full_ledger s))) \<and>
     (\<forall>i. holding (full_ledger s) i = expected_holding db a i)"

definition books_inv :: "database \<Rightarrow> bool" where
  "books_inv db \<longleftrightarrow> keyed_orders db \<and> distinct (map bd_runId (db_bindings db)) \<and>
     (\<forall>w \<in> set (db_orders db). \<forall>a. bound_row db a w \<longrightarrow> row_ok db w \<and> find_account db a \<noteq> None) \<and>
     (\<forall>a s. find_account db a = Some s \<longrightarrow> account_ok db a s)"

text \<open>The rows of an account may only move forward.\<close>

definition row_progress :: "database \<Rightarrow> database \<Rightarrow> order_row \<Rightarrow> order_row \<Rightarrow> bool" where
  "row_progress db db' w w' \<longleftrightarrow> (is_pending (ow_state w') \<longrightarrow> is_pending (ow_state w)) \<and>
     (\<forall>m. quoted_since db w m \<longrightarrow> quoted_since db' w' m)"

definition account_progress :: "database \<Rightarrow> database \<Rightarrow> string \<Rightarrow> bool" where
  "account_progress db db' a \<longleftrightarrow> (\<forall>i w. account_order db a i = Some w \<longrightarrow>
     (\<exists>w'. account_order db' a i = Some w' \<and> row_progress db db' w w'))"

lemma event_ok_progress: "account_progress db db' a \<Longrightarrow> event_ok db a e \<Longrightarrow> event_ok db' a e"
  unfolding event_ok_def account_progress_def row_progress_def
  by (cases "ev_action e") (fastforce split: ledger_action.splits)+

lemma transaction_ledger:
  assumes "store_ok s" "apply_in_transaction interval age cause s es = Inr s'"
  shows "store_ok s' \<and> apply_ledger_events (full_ledger s) es age = Inr (full_ledger s')"
  using assms
proof (cases rule: apply_in_transactionE)
  case (2 m new)
  note f = settled_fields [OF 2(3,2,7)]
  have "cached (ac_state s') (full_ledger s')"
    using f 2(5) cached_trim_snapshot by (simp add: store_ok_def)
  with 2(5,6) f show ?thesis by (simp add: store_ok_def)
qed (use assms(1) in simp)

text \<open>
  The step of one account: every order either keeps what it is expected to hold and has no event, or
  has one new event that mirrors its change.
\<close>

lemma account_step:
  assumes ok: "account_ok db a s"
    and tx: "apply_in_transaction interval age cause s es = Inr s'"
    and progress: "account_progress db db' a"
    and events: "\<forall>e \<in> set es. event_ok db' a e"
    and reserved: "\<And>w. w \<in> set (db_orders db') \<Longrightarrow> bound_row db' a w \<Longrightarrow>
      (\<exists>w0 \<in> set (db_orders db). bound_row db a w0 \<and> ow_orderId w0 = ow_orderId w) \<or>
      reserve_id (ow_orderId w) \<in> ev_id ` set es"
    and mirror: "\<And>i. events_of i es = [] \<and> expected_holding db' a i = expected_holding db a i \<or>
      (\<exists>e. events_of i es = [e] \<and> e \<notin> set (lg_events (full_ledger s)) \<and>
        (accepted (ev_action e) (expected_holding db a i) \<longrightarrow>
          effect (ev_action e) (expected_holding db a i) = expected_holding db' a i))"
  shows "account_ok db' a s'"
proof -
  have st: "store_ok s" "log_ok (full_ledger s)" using ok by (simp_all add: account_ok_def store_ok_def)
  from transaction_ledger [OF st(1) tx] have s': "store_ok s'"
    and run: "apply_ledger_events (full_ledger s) es age = Inr (full_ledger s')" by auto
  note log = batch_log [OF run st(2)]
  have own: "\<forall>e \<in> set es. own_position e" using events by (simp add: event_ok_def)
  have "event_ok db' a e" if "e \<in> set (lg_events (full_ledger s'))" for e
    using that log events ok event_ok_progress [OF progress] unfolding account_ok_def by blast
  moreover have "reserve_id (ow_orderId w) \<in> ev_id ` set (lg_events (full_ledger s'))"
    if "w \<in> set (db_orders db')" "bound_row db' a w" for w
    using reserved [OF that]
  proof
    assume "\<exists>w0 \<in> set (db_orders db). bound_row db a w0 \<and> ow_orderId w0 = ow_orderId w"
    then have "reserve_id (ow_orderId w) \<in> ev_id ` set (lg_events (full_ledger s))"
      using ok unfolding account_ok_def by metis
    then show ?thesis using log by blast
  next
    assume "reserve_id (ow_orderId w) \<in> ev_id ` set es"
    then show ?thesis using log by blast
  qed
  moreover have "holding (full_ledger s') i = expected_holding db' a i" for i
    using mirror [of i] batch_none [OF run own] batch_one [OF run own _ _ st(2)] ok
    unfolding account_ok_def by metis
  ultimately show ?thesis using s' by (simp add: account_ok_def)
qed

section \<open>One transaction of the service\<close>

lemma find_append': "find P (xs @ ys) = (case find P xs of None \<Rightarrow> find P ys | Some x \<Rightarrow> Some x)"
  by (induction xs) auto

lemma find_map': "find P (map f xs) = map_option f (find (P \<circ> f) xs)"
  by (induction xs) auto

text \<open>The rows after a transaction of one run: changed in place, and appended.\<close>

definition rows_step :: "string \<Rightarrow> database \<Rightarrow> database \<Rightarrow> (order_row \<Rightarrow> order_row) \<Rightarrow> order_row list \<Rightarrow> bool" where
  "rows_step runId db db' f new \<longleftrightarrow> db_orders db' = map f (db_orders db) @ new \<and>
     (\<forall>w. ow_orderId (f w) = ow_orderId w \<and> ow_runId (f w) = ow_runId w \<and>
        ow_instrumentId (f w) = ow_instrumentId w) \<and>
     (\<forall>w \<in> set (db_orders db). ow_runId w \<noteq> runId \<longrightarrow> f w = w) \<and>
     (\<forall>w \<in> set new. ow_runId w = runId) \<and>
     map (\<lambda>b. (bd_runId b, bd_accountId b)) (db_bindings db') = map (\<lambda>b. (bd_runId b, bd_accountId b)) (db_bindings db) \<and>
     (\<forall>r i. r \<noteq> runId \<longrightarrow> find_liquidity db' r i = find_liquidity db r i)"

lemma rows_step_bound:
  assumes "rows_step runId db db' f new"
  shows "bound_row db' a w = bound_row db a w" "bound_row db a (f w) = bound_row db a w"
proof -
  have "set (map (\<lambda>b. (bd_runId b, bd_accountId b)) (db_bindings db')) =
      set (map (\<lambda>b. (bd_runId b, bd_accountId b)) (db_bindings db))" using assms by (simp add: rows_step_def)
  then have "(\<exists>b \<in> set (db_bindings db'). (bd_runId b, bd_accountId b) = (ow_runId w, a)) \<longleftrightarrow>
      (\<exists>b \<in> set (db_bindings db). (bd_runId b, bd_accountId b) = (ow_runId w, a))"
    by (simp only: set_map image_iff [symmetric] flip: ex_simps) (metis (no_types, lifting) image_iff)
  then show "bound_row db' a w = bound_row db a w" by (simp add: bound_row_def)
  show "bound_row db a (f w) = bound_row db a w" using assms by (simp add: rows_step_def bound_row_def)
qed

lemma account_order_step:
  assumes "rows_step runId db db' f new"
  shows "account_order db' a i = (case account_order db a i of
      None \<Rightarrow> find (\<lambda>w. ow_orderId w = i \<and> bound_row db a w) new | Some w \<Rightarrow> Some (f w))"
proof -
  have "(\<lambda>w. ow_orderId w = i \<and> bound_row db a w) \<circ> f = (\<lambda>w. ow_orderId w = i \<and> bound_row db a w)"
    using assms rows_step_bound [OF assms] by (auto simp: rows_step_def fun_eq_iff)
  then show ?thesis
    using assms rows_step_bound(1) [OF assms]
    by (auto simp: account_order_def rows_step_def find_append' find_map' split: option.split)
qed

lemma account_orderD:
  "account_order db a i = Some w \<Longrightarrow> w \<in> set (db_orders db) \<and> ow_orderId w = i \<and> bound_row db a w"
  by (auto simp: account_order_def find_Some_iff)

lemma account_order_row:
  assumes "keyed_orders db" "w \<in> set (db_orders db)" "bound_row db a w"
  shows "account_order db a (ow_orderId w) = Some w"
proof (cases "account_order db a (ow_orderId w)")
  case None
  then show ?thesis using assms by (auto simp: account_order_def find_None_iff)
next
  case (Some w')
  then show ?thesis using account_orderD [OF Some] keyed_row_unique [OF assms(1) _ assms(2)] by auto
qed

lemma bound_once:
  assumes "distinct (map bd_runId (db_bindings db))" "bound_row db a w" "bound_row db a' w'" "ow_runId w = ow_runId w'"
  shows "a = a'"
proof -
  obtain b b' where b: "b \<in> set (db_bindings db)" "bd_runId b = ow_runId w" "bd_accountId b = a"
    "b' \<in> set (db_bindings db)" "bd_runId b' = ow_runId w'" "bd_accountId b' = a'"
    using assms(2,3) by (auto simp: bound_row_def)
  then have "b = b'" using assms(1,4) inj_onD [of bd_runId "set (db_bindings db)" b b'] by (simp add: distinct_map)
  then show ?thesis using b by simp
qed

text \<open>What all the transactions have in common: the run is bound to the account of the service.\<close>

lemma books_step:
  assumes inv: "books_inv db"
    and bound: "\<And>w. ow_runId w = runId \<Longrightarrow> bound_row db a w"
    and rows: "rows_step runId db db' f new" and keyed: "keyed_orders db'"
    and accounts: "find_account db a = Some s" "find_account db' a = Some s'"
      "\<And>a'. a' \<noteq> a \<Longrightarrow> find_account db' a' = find_account db a'"
    and tx: "apply_in_transaction interval age cause s es = Inr s'"
    and progress: "\<And>w. w \<in> set (db_orders db) \<Longrightarrow> ow_runId w = runId \<Longrightarrow> row_progress db db' w (f w)"
    and ok: "\<And>w. w \<in> set (db_orders db') \<Longrightarrow> ow_runId w = runId \<Longrightarrow> row_ok db' w"
    and events: "\<forall>e \<in> set es. event_ok db' a e"
    and reserved: "\<And>w. w \<in> set new \<Longrightarrow> reserve_id (ow_orderId w) \<in> ev_id ` set es"
    and mirror: "\<And>i. events_of i es = [] \<and> expected_holding db' a i = expected_holding db a i \<or>
      (\<exists>e. events_of i es = [e] \<and> e \<notin> set (lg_events (full_ledger s)) \<and>
        (accepted (ev_action e) (expected_holding db a i) \<longrightarrow>
          effect (ev_action e) (expected_holding db a i) = expected_holding db' a i))"
  shows "books_inv db'"
proof -
  note b = rows_step_bound [OF rows]
  have dist: "distinct (map bd_runId (db_bindings db))" and old: "account_ok db a s"
    using inv accounts(1) by (simp_all add: books_inv_def)
  have others: "row_progress db db' w w" if "ow_runId w \<noteq> runId" for w
    using rows that by (simp add: rows_step_def row_progress_def quoted_since_def)
  have moved: "row_progress db db' w (f w)" if "w \<in> set (db_orders db)" for w
  proof (cases "ow_runId w = runId")
    case False
    then have "f w = w" using that rows by (simp add: rows_step_def)
    then show ?thesis using others [OF False] by simp
  qed (use progress [OF that] in simp)
  have "account_progress db db' a'" for a'
    unfolding account_progress_def account_order_step [OF rows]
    by (auto dest!: account_orderD intro: moved)
  note progress' = this
  have dist': "distinct (map bd_runId (db_bindings db'))"
  proof -
    have "map fst (map (\<lambda>b. (bd_runId b, bd_accountId b)) (db_bindings db')) =
        map fst (map (\<lambda>b. (bd_runId b, bd_accountId b)) (db_bindings db))" using rows by (simp add: rows_step_def)
    then show ?thesis using dist by (simp add: comp_def)
  qed
  have "row_ok db' w" if w: "w \<in> set (db_orders db')" "\<exists>a'. bound_row db' a' w" for w
  proof (cases "ow_runId w = runId")
    case False
    then have "w \<in> set (db_orders db)" using w(1) rows by (auto simp: rows_step_def)
    then have "row_ok db w" using inv w(2) b by (auto simp: books_inv_def)
    then show ?thesis using others [OF False] by (auto simp: row_ok_def row_progress_def)
  qed (use ok w in blast)
  moreover have "account_ok db' a' t" if t: "find_account db' a' = Some t" for a' t
  proof (cases "a' = a")
    case True
    have "account_ok db' a s'"
    proof (rule account_step [OF old tx progress' events _ mirror])
      fix w assume w: "w \<in> set (db_orders db')" "bound_row db' a w"
      show "(\<exists>w0 \<in> set (db_orders db). bound_row db a w0 \<and> ow_orderId w0 = ow_orderId w) \<or>
          reserve_id (ow_orderId w) \<in> ev_id ` set es"
        using w rows b reserved by (auto simp: rows_step_def)
    qed
    with True t accounts(2) show ?thesis by simp
  next
    case False
    have old': "account_ok db a' t" using inv t accounts(3) [OF False] by (simp add: books_inv_def)
    have run: "ow_runId w \<noteq> runId" if "bound_row db a' w" for w
      using bound_once [OF dist that bound] False by auto
    have same: "account_order db' a' i = account_order db a' i" for i
    proof -
      have "find (\<lambda>w. ow_orderId w = i \<and> bound_row db a' w) new = None"
        using rows run by (fastforce simp: find_None_iff rows_step_def)
      moreover have "f w = w" if "account_order db a' i = Some w" for w
        using run account_orderD [OF that] rows by (auto simp: rows_step_def)
      ultimately show ?thesis unfolding account_order_step [OF rows] by (auto split: option.split)
    qed
    have "w \<in> set (db_orders db)" if "w \<in> set (db_orders db')" "bound_row db' a' w" for w
    proof -
      have r: "ow_runId w \<noteq> runId" using run that(2) b(1) by blast
      then have "w \<notin> set new" using rows by (auto simp: rows_step_def)
      then show ?thesis using that(1) r rows by (auto simp: rows_step_def)
    qed
    then show ?thesis
      using old' event_ok_progress [OF progress'] same b by (auto simp: account_ok_def expected_holding_def)
  qed
  moreover have "find_account db' a' \<noteq> None" if "w \<in> set (db_orders db')" "bound_row db' a' w" for w a'
  proof (cases "a' = a")
    case False
    have w: "bound_row db a' w" using that(2) b(1) by simp
    have "ow_runId w \<noteq> runId" using bound_once [OF dist w bound] False by auto
    then have "w \<in> set (db_orders db)" using that(1) rows by (auto simp: rows_step_def)
    then show ?thesis using inv w accounts(3) [OF False] by (auto simp: books_inv_def)
  qed (use accounts(2) in simp)
  ultimately show ?thesis using keyed dist' by (auto simp: books_inv_def)
qed

text \<open>The rows after the updates of a list of orders.\<close>

definition updated_row :: "string option \<Rightarrow> string \<Rightarrow> pending_order list \<Rightarrow> order_row \<Rightarrow> order_row" where
  "updated_row c t rs w = foldl (\<lambda>w r. if ow_orderId w = r_orderId r
     then w\<lparr>ow_state := r, ow_lastFactAt := t, ow_lastFactId := c, ow_revision := ow_revision w + 1\<rparr> else w) w rs"

lemma updates_orders: "db_orders (foldl (update_order c t) db rs) = map (updated_row c t rs) (db_orders db)"
  by (induction rs arbitrary: db) (simp_all add: updated_row_def [abs_def] update_order_def comp_def)

lemma updates_fields [simp]:
  "db_accounts (foldl (update_order c t) db rs) = db_accounts db"
  "db_bindings (foldl (update_order c t) db rs) = db_bindings db"
  "db_liquidity (foldl (update_order c t) db rs) = db_liquidity db"
  "db_runs (foldl (update_order c t) db rs) = db_runs db"
  by (induction rs arbitrary: db) simp_all

lemma updated_row_fields [simp]:
  "ow_orderId (updated_row c t rs w) = ow_orderId w" "ow_runId (updated_row c t rs w) = ow_runId w"
  "ow_instrumentId (updated_row c t rs w) = ow_instrumentId w"
  by (induction rs arbitrary: w) (simp_all add: updated_row_def)

lemma updated_row_same: "\<forall>r \<in> set rs. r_orderId r \<noteq> ow_orderId w \<Longrightarrow> updated_row c t rs w = w"
  by (induction rs) (auto simp: updated_row_def)

lemma updated_row_state:
  "distinct (map r_orderId rs) \<Longrightarrow> r \<in> set rs \<Longrightarrow> r_orderId r = ow_orderId w \<Longrightarrow> ow_state (updated_row c t rs w) = r"
proof (induction rs arbitrary: w)
  case (Cons r' rs)
  show ?case
  proof (cases "r = r'")
    case True
    let ?w = "w\<lparr>ow_state := r', ow_lastFactAt := t, ow_lastFactId := c, ow_revision := ow_revision w + 1\<rparr>"
    have "\<forall>r \<in> set rs. r_orderId r \<noteq> ow_orderId ?w" using Cons.prems True by force
    then have "updated_row c t rs ?w = ?w" by (rule updated_row_same)
    then show ?thesis using Cons.prems(3) True by (simp add: updated_row_def)
  next
    case False
    then have "r \<in> set rs" "r_orderId r' \<noteq> ow_orderId w" using Cons.prems by force+
    then show ?thesis using Cons.IH [of w] Cons.prems by (simp add: updated_row_def)
  qed
qed simp

lemma verify_binding_bound: "verify_binding sv db i = Inr () \<Longrightarrow> ow_runId w = os_runId sv \<Longrightarrow>
    bound_row db (os_accountId sv) w"
  by (auto simp: verify_binding_def bound_row_def split: if_splits)

lemma ledger_transactionE:
  assumes "ledger_transaction sv cause db es = Inr db'"
  obtains s s' c where "find_account db (os_accountId sv) = Some s"
    "apply_in_transaction checkpoint_event_interval mark_age c s es = Inr s'"
    "find_account db' (os_accountId sv) = Some s'"
    "\<And>a. a \<noteq> os_accountId sv \<Longrightarrow> find_account db' a = find_account db a"
  using assms
proof -
  from assms obtain s c s' where "map_of (db_accounts db) (os_accountId sv) = Some s"
    "apply_in_transaction checkpoint_event_interval mark_age c s es = Inr s'"
    "db' = db\<lparr>db_accounts := AList.update (os_accountId sv) s' (db_accounts db)\<rparr>"
    by (auto simp: ledger_transaction_def bindR_eq_Inr find_account_def split: option.splits)
  then show thesis by (intro that [of s c s']) (simp_all add: find_account_def update_conv)
qed

text \<open>Orders of the service's run changed in place, with the ledger events of the changes.\<close>

lemma books_updates:
  assumes inv: "books_inv db" and bound: "verify_binding sv db i0 = Inr ()"
    and tx: "ledger_transaction sv cause db0 es = Inr db1" "db_accounts db0 = db_accounts db"
    and orders: "db_orders db' = map (updated_row c t rs) (db_orders db)"
    and accounts: "db_accounts db' = db_accounts db1"
    and bindings: "map (\<lambda>b. (bd_runId b, bd_accountId b)) (db_bindings db') =
      map (\<lambda>b. (bd_runId b, bd_accountId b)) (db_bindings db)"
    and liquidity: "\<And>r i. r \<noteq> os_runId sv \<Longrightarrow> find_liquidity db' r i = find_liquidity db r i"
    and later: "\<And>w m. w \<in> set (db_orders db) \<Longrightarrow> quoted_since db w m \<Longrightarrow> quoted_since db' w m"
    and dist: "distinct (map r_orderId rs)"
    and old: "\<And>r. r \<in> set rs \<Longrightarrow> \<exists>w \<in> set (db_orders db). ow_runId w = os_runId sv \<and> ow_orderId w = r_orderId r \<and>
      order_record_ok r \<and> (is_pending r \<longrightarrow> is_pending (ow_state w)) \<and>
      (\<forall>x pending. open_part r = Some (x, pending) \<longrightarrow> quoted_since db' w (ms_of (ox_lastFactTimestamp x)))"
    and none: "\<And>i. i \<notin> r_orderId ` set rs \<Longrightarrow> events_of i es = []"
    and events: "\<forall>e \<in> set es. event_ok db' (os_accountId sv) e"
    and mirror: "\<And>r w s. r \<in> set rs \<Longrightarrow> w \<in> set (db_orders db) \<Longrightarrow> ow_orderId w = r_orderId r \<Longrightarrow>
      ow_runId w = os_runId sv \<Longrightarrow> account_ok db (os_accountId sv) s \<Longrightarrow>
      events_of (r_orderId r) es = [] \<and> order_holding (ow_instrumentId w) r = row_holding w \<or>
      (\<exists>e. events_of (r_orderId r) es = [e] \<and> e \<notin> set (lg_events (full_ledger s)) \<and>
        (accepted (ev_action e) (row_holding w) \<longrightarrow>
          effect (ev_action e) (row_holding w) = order_holding (ow_instrumentId w) r))"
  shows "books_inv db'"
proof -
  let ?a = "os_accountId sv" and ?f = "updated_row c t rs"
  obtain s s' cs where acc: "find_account db ?a = Some s" "find_account db1 ?a = Some s'"
    "apply_in_transaction checkpoint_event_interval mark_age cs s es = Inr s'"
    "\<And>a. a \<noteq> ?a \<Longrightarrow> find_account db1 a = find_account db a"
  proof (rule ledger_transactionE [OF tx(1)])
    fix s cs s'
    assume "find_account db0 ?a = Some s" "find_account db1 ?a = Some s'"
      "apply_in_transaction checkpoint_event_interval mark_age cs s es = Inr s'"
      "\<And>a. a \<noteq> ?a \<Longrightarrow> find_account db1 a = find_account db0 a"
    then show thesis using tx(2) by (intro that [of s s' cs]) (simp_all add: find_account_def)
  qed
  have acc': "find_account db' a = find_account db1 a" for a using accounts by (simp add: find_account_def)
  have keyed: "keyed_orders db" and ok: "account_ok db ?a s" using inv acc(1) by (simp_all add: books_inv_def)
  have here: "ow_runId w = os_runId sv" if "w \<in> set (db_orders db)" "r \<in> set rs" "r_orderId r = ow_orderId w" for w r
    using old [OF that(2)] keyed_row_unique [OF keyed _ that(1)] that(3) by auto
  have rows: "rows_step (os_runId sv) db db' ?f []"
    using orders bindings liquidity here by (auto simp: rows_step_def intro!: updated_row_same)
  have state: "\<exists>r \<in> set rs. r_orderId r = ow_orderId w \<and> ow_state (?f w) = r"
    if "\<exists>r \<in> set rs. r_orderId r = ow_orderId w" for w
    using that updated_row_state [OF dist] by blast
  have same: "?f w = w" if "\<not> (\<exists>r \<in> set rs. r_orderId r = ow_orderId w)" for w
    using that by (intro updated_row_same) blast
  have keyed': "keyed_orders db'"
    using keyed state same unfolding keyed_orders_def orders by (auto simp: comp_def) metis
  show ?thesis
  proof (rule books_step [OF inv _ rows keyed' acc(1) _ _ acc(3)])
    show "bound_row db ?a w" if "ow_runId w = os_runId sv" for w
      using that by (rule verify_binding_bound [OF bound])
    show "find_account db' ?a = Some s'" "\<And>a'. a' \<noteq> ?a \<Longrightarrow> find_account db' a' = find_account db a'"
      using acc acc' by auto
    show "row_progress db db' w (?f w)" if w: "w \<in> set (db_orders db)" for w
    proof -
      have "is_pending (ow_state (?f w)) \<longrightarrow> is_pending (ow_state w)"
      proof (cases "\<exists>r \<in> set rs. r_orderId r = ow_orderId w")
        case True
        then obtain r where r: "r \<in> set rs" "r_orderId r = ow_orderId w" "ow_state (?f w) = r" using state by blast
        with old [OF r(1)] keyed_row_unique [OF keyed _ w] show ?thesis by auto
      qed (simp add: same)
      moreover have "quoted_since db' (?f w) m" if "quoted_since db w m" for m
        using later [OF w that] by (simp add: quoted_since_def)
      ultimately show ?thesis by (simp add: row_progress_def)
    qed
    show "row_ok db' w" if w: "w \<in> set (db_orders db')" "ow_runId w = os_runId sv" for w
    proof -
      obtain w0 where w0: "w0 \<in> set (db_orders db)" "w = ?f w0" using w(1) orders by auto
      have q: "quoted_since db' w m = quoted_since db' w0 m" for m by (simp add: quoted_since_def w0(2))
      show ?thesis
      proof (cases "\<exists>r \<in> set rs. r_orderId r = ow_orderId w0")
        case True
        then obtain r where r: "r \<in> set rs" "r_orderId r = ow_orderId w0" "ow_state w = r" using state w0(2) by blast
        with old [OF r(1)] keyed_row_unique [OF keyed _ w0(1)] q show ?thesis by (auto simp: row_ok_def)
      next
        case False
        then have "w = w0" using same w0(2) by simp
        moreover have "row_ok db w0" using inv w0 w(2) verify_binding_bound [OF bound, of w0] by (auto simp: books_inv_def)
        ultimately show ?thesis using later [OF w0(1)] by (auto simp: row_ok_def)
      qed
    qed
    show "\<forall>e \<in> set es. event_ok db' ?a e" by (rule events)
    show "events_of i es = [] \<and> expected_holding db' ?a i = expected_holding db ?a i \<or>
      (\<exists>e. events_of i es = [e] \<and> e \<notin> set (lg_events (full_ledger s)) \<and>
        (accepted (ev_action e) (expected_holding db ?a i) \<longrightarrow>
          effect (ev_action e) (expected_holding db ?a i) = expected_holding db' ?a i))" for i
    proof (cases "i \<in> r_orderId ` set rs")
      case True
      then obtain r where r0: "r \<in> set rs" "i = r_orderId r" by blast
      with old [OF r0(1)] obtain w where r: "r \<in> set rs" "i = r_orderId r" "w \<in> set (db_orders db)" "ow_orderId w = i"
        "ow_runId w = os_runId sv" by auto
      have "account_order db ?a i = Some w"
        using account_order_row [OF keyed r(3) verify_binding_bound [OF bound r(5)]] r(4) by simp
      moreover have "ow_state (?f w) = r" using updated_row_state [OF dist r(1)] r(2,4) by simp
      ultimately have "expected_holding db ?a i = row_holding w"
        "expected_holding db' ?a i = order_holding (ow_instrumentId w) r"
        unfolding expected_holding_def account_order_step [OF rows] by (simp_all add: row_holding_def)
      then show ?thesis using mirror [OF r(1,3) _ r(5) ok] r(2,4) by auto
    next
      case False
      have "?f w = w" if "account_order db ?a i = Some w" for w
        using False account_orderD [OF that] by (intro same) (auto simp: image_iff)
      then have "account_order db' ?a i = account_order db ?a i"
        unfolding account_order_step [OF rows] by (auto split: option.split)
      then show ?thesis using none [OF False] by (simp add: expected_holding_def)
    qed
  qed simp_all
qed

section \<open>The operations keep the books\<close>

lemma logged_not_pending:
  assumes "account_ok db a s" "account_order db a i = Some w" "is_pending (ow_state w)"
    "event_order e = Some i" "case ev_action e of Reserve i d r \<Rightarrow> False | _ \<Rightarrow> True"
  shows "e \<notin> set (lg_events (full_ledger s))"
proof
  assume "e \<in> set (lg_events (full_ledger s))"
  then have "event_ok db a e" using assms(1) unfolding account_ok_def by blast
  then show False using assms(2-5)
    by (cases "ev_action e") (auto simp: event_ok_def event_order_def)
qed

text \<open>Withdrawing a pending order releases what was reserved for it.\<close>

lemma release_mirror:
  assumes "order_record_ok r" "is_pending r"
  shows "accepted (Release i) (order_holding n r)"
    "effect (Release i) (order_holding n r) = order_holding n (r\<lparr>r_status := CANCELLED, r_reason := reason\<rparr>)"
  using assms by (auto simp: order_record_ok_def is_pending_def order_holding_def open_holding_def open_part_def)

lemma release_event_simps [simp]:
  "ev_action (release_event sv i t) = Release i" "ev_at (release_event sv i t) = t"
  "event_order (release_event sv i t) = Some i" "own_position (release_event sv i t)"
  by (simp_all add: release_event_def ledger_event_of_def event_order_def own_position_def)

lemma books_withdraw:
  assumes inv: "books_inv db" and w: "w \<in> set (db_orders db)" "ow_runId w = os_runId sv" "is_pending (ow_state w)"
    and bind: "verify_binding sv db None = Inr ()"
    and tx: "ledger_transaction sv cause db [release_event sv (ow_orderId w) t] = Inr db1"
  shows "books_inv (update_order cause t db1 ((ow_state w)\<lparr>r_status := CANCELLED, r_reason := reason\<rparr>))"
proof -
  let ?after = "(ow_state w)\<lparr>r_status := CANCELLED, r_reason := reason\<rparr>"
  let ?i = "ow_orderId w" and ?db' = "update_order cause t db1 ?after"
  note same = ledger_transaction_fields [OF tx]
  have keyed: "keyed_orders db" using inv by (simp add: books_inv_def)
  have id: "r_orderId ?after = ?i" using keyed w(1) by (simp add: keyed_orders_def)
  have b: "bound_row db (os_accountId sv) w" using verify_binding_bound [OF bind w(2)] .
  have rec: "order_record_ok (ow_state w)" using inv w(1) b by (auto simp: books_inv_def row_ok_def)
  have orders: "db_orders ?db' = map (updated_row cause t [?after]) (db_orders db)"
    using updates_orders [of cause t db1 "[?after]"] same by simp
  have w': "account_order db (os_accountId sv) ?i = Some w" by (rule account_order_row [OF keyed w(1) b])
  show ?thesis
  proof (rule books_updates [OF inv bind tx refl orders])
    have "rows_step (os_runId sv) db ?db' (updated_row cause t [?after]) []"
      unfolding rows_step_def orders using id w(2) same keyed_row_unique [OF keyed w(1)]
      by (auto simp: find_liquidity_def intro!: updated_row_same)
    then have "account_order ?db' (os_accountId sv) ?i = Some (updated_row cause t [?after] w)"
      using w' by (simp add: account_order_step)
    moreover have "ow_state (updated_row cause t [?after] w) = ?after"
      using id by (intro updated_row_state) auto
    ultimately show "\<forall>e \<in> set [release_event sv ?i t]. event_ok ?db' (os_accountId sv) e"
      by (simp add: event_ok_def is_pending_def)
    show "events_of (r_orderId r) [release_event sv ?i t] = [] \<and> order_holding (ow_instrumentId w0) r = row_holding w0 \<or>
      (\<exists>e. events_of (r_orderId r) [release_event sv ?i t] = [e] \<and> e \<notin> set (lg_events (full_ledger s)) \<and>
        (accepted (ev_action e) (row_holding w0) \<longrightarrow> effect (ev_action e) (row_holding w0) = order_holding (ow_instrumentId w0) r))"
      if "r \<in> set [?after]" "w0 \<in> set (db_orders db)" "ow_orderId w0 = r_orderId r" "account_ok db (os_accountId sv) s" for r w0 s
    proof -
      have "w0 = w" using keyed_row_unique [OF keyed that(2) w(1)] that(1,3) id by auto
      then show ?thesis
        using logged_not_pending [OF that(4) w' w(3)] release_mirror(2) [OF rec w(3)] that(1) id
        by (auto simp: row_holding_def)
    qed
  qed (use w same id record_cancelled [OF rec w(3)] in
      \<open>auto simp: quoted_since_def find_liquidity_def is_pending_def open_part_def\<close>)
qed

lemma books_cancel_in_store:
  assumes inv: "books_inv db" and c: "cancel_in_store sv db i t reason cause = Inr (db', c)"
  shows "books_inv db'"
  using c
proof (cases rule: cancel_in_storeE)
  case (cancelled w db1)
  have "is_pending (ow_state w)" using cancelled(4) by (simp add: is_pending_def)
  from books_withdraw [OF inv cancelled(1,3) this cancelled(5)] cancelled(2,6,8) show ?thesis by simp
qed (use inv in simp)

lemma books_cancel: "books_inv db \<Longrightarrow> cancel_order sv db i t reason pre cause = Inr (db', c) \<Longrightarrow> books_inv db'"
  by (erule cancel_orderE) (auto intro: books_cancel_in_store)

text \<open>The clock withdraws pending orders and turns open executions into pending closes.\<close>

lemma clock_step_Inr: "clock_step sv run t cause (db, evs) r = Inr acc \<longleftrightarrow> (\<exists>r'. close_intent run t r = Inr r' \<and>
    acc = (if r' = r then (db, evs) else (update_order cause t db r', evs @
      (if r_status r = PENDING then [release_event sv (r_orderId r) t] else []))))"
  by (auto simp: clock_step_def bindR_eq_Inr)

lemma clock_run:
  assumes "runR (clock_step sv run t cause) (db, evs) states = Inr (db', evs')"
  shows "\<exists>after. list_all2 (\<lambda>r r'. close_intent run t r = Inr r') states after \<and>
    db' = foldl (update_order cause t) db (changed_orders states after) \<and>
    evs' = evs @ map (\<lambda>(r, r'). release_event sv (r_orderId r) t)
      (filter (\<lambda>(r, r'). r' \<noteq> r \<and> is_pending r) (zip states after))"
  using assms
proof (induction states arbitrary: db evs)
  case Nil
  then show ?case by (intro exI [of _ "[]"]) (simp add: changed_orders_def)
next
  case (Cons r states)
  then obtain r' acc where r': "close_intent run t r = Inr r'"
    "acc = (if r' = r then (db, evs) else (update_order cause t db r', evs @
      (if r_status r = PENDING then [release_event sv (r_orderId r) t] else [])))"
    "runR (clock_step sv run t cause) acc states = Inr (db', evs')"
    unfolding runR.simps bindR_eq_Inr clock_step_Inr by blast
  obtain db0 evs0 where acc: "acc = (db0, evs0)" by (cases acc)
  from Cons.IH [of db0 evs0] r'(3) acc obtain after where
    "list_all2 (\<lambda>r r'. close_intent run t r = Inr r') states after"
    "db' = foldl (update_order cause t) db0 (changed_orders states after)"
    "evs' = evs0 @ map (\<lambda>(r, r'). release_event sv (r_orderId r) t)
      (filter (\<lambda>(r, r'). r' \<noteq> r \<and> is_pending r) (zip states after))" by auto
  then show ?case using r'(1,2) acc
    by (intro exI [of _ "r' # after"]) (auto simp: changed_orders_def is_pending_def split: if_splits)
qed

lemma expire_shape: "expire_entry_order r t = Inr r' \<Longrightarrow> r' = r \<or>
    r_status r = PENDING \<and> r' = r\<lparr>r_status := CANCELLED, r_reason := Some EXPIRED\<rparr>"
  by (auto simp: expire_entry_order_def bindR_eq_Inr split: if_splits)

lemma request_close_none: "request_quote_session_close (QOpen x) boundary None a = (QClosePending x, True)"
proof -
  have "resolve_session_close p None boundary a = ClosePending" for p
    by (simp add: resolve_session_close_def Let_def classify_quote_availability_def)
  then show ?thesis by (simp add: request_quote_session_close_def session_close_open_def)
qed

lemma close_intent_cases:
  assumes "close_intent run t r = Inr r'"
  obtains (same) "r' = r"
  | (withdrawn) reason where "is_pending r" "r' = r\<lparr>r_status := CANCELLED, r_reason := Some reason\<rparr>"
  | (closing) x where "\<not> is_pending r" "r_execution r = Some (QOpen x)" "r' = r\<lparr>r_execution := Some (QClosePending x)\<rparr>"
proof (cases "is_pending r")
  case True
  then show ?thesis using assms same withdrawn
    by (auto simp: close_intent_def is_pending_def dest!: cancel_shape expire_shape split: if_splits)
next
  case False
  then show ?thesis using assms same closing
    by (auto simp: close_intent_def is_pending_def bindR_eq_Inr request_close_none
        split: option.splits quote_execution_state.splits if_splits)
qed

lemma closing_same:
  assumes "order_record_ok r" "\<not> is_pending r" "r_execution r = Some (QOpen x)"
    "r' = r\<lparr>r_execution := Some (QClosePending x)\<rparr>"
  shows "order_record_ok r'" "order_holding n r' = order_holding n r" "\<not> is_pending r'"
    "open_part r' = Some (x, True)" "open_part r = Some (x, False)"
proof -
  have "r_status r = FILLED"
    using assms(1-3) by (auto simp: order_record_ok_def is_pending_def has_open_execution_def split: order_status.splits)
  then show "order_record_ok r'" "order_holding n r' = order_holding n r" "\<not> is_pending r'"
    "open_part r' = Some (x, True)" "open_part r = Some (x, False)"
    using assms by (auto simp: order_record_ok_def order_holding_def is_pending_def open_holding_def open_part_def)
qed

text \<open>The events of a batch that is put together from the events of each order.\<close>

lemma events_of_own: "\<forall>e \<in> set es. event_order e = Some i \<Longrightarrow> events_of i es = es"
  by (simp add: events_of_def)

lemma events_of_other: "\<forall>e \<in> set es. event_order e \<noteq> Some i \<Longrightarrow> events_of i es = []"
  by (simp add: events_of_def filter_empty_conv)

lemma events_of_concat:
  assumes "\<forall>p \<in> set ps. \<forall>e \<in> set (g p). event_order e = Some (key p)" "distinct (map key ps)"
  shows "p \<in> set ps \<Longrightarrow> events_of (key p) (concat (map g ps)) = g p"
    "i \<notin> key ` set ps \<Longrightarrow> events_of i (concat (map g ps)) = []"
proof -
  have none: "events_of i (concat (map g qs)) = []"
    if "set qs \<subseteq> set ps" "i \<notin> key ` set qs" for i qs
  proof (rule events_of_other, rule ballI)
    fix e assume "e \<in> set (concat (map g qs))"
    then obtain p where "p \<in> set qs" "e \<in> set (g p)" by auto
    moreover from this have "event_order e = Some (key p)" using assms(1) that(1) by blast
    ultimately show "event_order e \<noteq> Some i" using that(2) by auto
  qed
  show "i \<notin> key ` set ps \<Longrightarrow> events_of i (concat (map g ps)) = []" by (rule none) simp_all
  assume "p \<in> set ps"
  then obtain before after where ps: "ps = before @ p # after" by (auto dest: split_list)
  have "key p \<notin> key ` set before" "key p \<notin> key ` set after" using assms(2) unfolding ps by auto
  then have "events_of (key p) (concat (map g before)) = []" "events_of (key p) (concat (map g after)) = []"
    by (auto simp: ps intro!: none)
  moreover have "events_of (key p) (g p) = g p" using assms(1) ps by (intro events_of_own) simp
  ultimately show "events_of (key p) (concat (map g ps)) = g p" unfolding ps by simp
qed

lemma changed_orders_Cons: "changed_orders (r # before) (r' # after) =
    (if r' \<noteq> r then [r'] else []) @ changed_orders before after"
  by (simp add: changed_orders_def)

lemma changed_pair: "r' \<in> set (changed_orders before after) \<Longrightarrow> \<exists>r. (r, r') \<in> set (zip before after) \<and> r' \<noteq> r"
  by (auto simp: changed_orders_def)

lemma changed_orders_distinct:
  "map r_orderId after = map r_orderId before \<Longrightarrow> distinct (map r_orderId before) \<Longrightarrow>
     distinct (map r_orderId (changed_orders before after))"
proof (induction before arbitrary: after)
  case Nil
  then show ?case by (simp add: changed_orders_def)
next
  case (Cons r before)
  then obtain r' after' where a: "after = r' # after'" "r_orderId r' = r_orderId r"
    "map r_orderId after' = map r_orderId before" by (cases after) auto
  have "r_orderId ` set (changed_orders before after') \<subseteq> r_orderId ` set after'"
    using changed_orders_subset by blast
  then have "r_orderId r \<notin> r_orderId ` set (changed_orders before after')"
    using Cons.prems(2) a(3) by (auto simp flip: set_map)
  then show ?case using Cons.IH [OF a(3)] Cons.prems(2) a(1,2)
    by (simp add: changed_orders_Cons)
qed

lemma zip_ids: "(r, r') \<in> set (zip before after) \<Longrightarrow> map r_orderId after = map r_orderId before \<Longrightarrow>
    r_orderId r' = r_orderId r"
  by (metis (no_types, lifting) in_set_zip nth_map map_eq_imp_length_eq fst_conv snd_conv)

lemma sorted_rows_distinct:
  assumes "keyed_orders db" "distinct (db_orders db)"
  shows "distinct (map r_orderId (map ow_state (js_sort cmp (filter p (db_orders db)))))"
proof -
  let ?rows = "js_sort cmp (filter p (db_orders db))"
  have "inj_on ow_orderId (set ?rows)" using assms(1) by (auto simp: keyed_orders_def distinct_map inj_on_def)
  then have "distinct (map ow_orderId ?rows)" using assms(2) by (simp add: distinct_map)
  moreover have eq: "map r_orderId (map ow_state ?rows) = map ow_orderId ?rows"
    using assms(1) by (auto simp: keyed_orders_def)
  ultimately show ?thesis unfolding eq by simp
qed

lemma keyed_distinct: "keyed_orders db \<Longrightarrow> distinct (db_orders db)"
  by (simp add: keyed_orders_def distinct_map)

lemma closing_ids:
  assumes "list_all2 (\<lambda>r r'. close_intent run t r = Inr r') states after"
  shows "map r_orderId after = map r_orderId states"
proof -
  have "r_orderId r' = r_orderId r" if "close_intent run t r = Inr r'" for r r'
    using that by (cases rule: close_intent_cases) auto
  with assms show ?thesis by (induction rule: list_all2_induct) auto
qed

lemma closing_pair:
  assumes "list_all2 (\<lambda>r r'. close_intent run t r = Inr r') states after" "r' \<in> set (changed_orders states after)"
  obtains r where "(r, r') \<in> set (zip states after)" "r' \<noteq> r" "r \<in> set states" "r_orderId r' = r_orderId r"
    "close_intent run t r = Inr r'"
proof -
  obtain r where r: "(r, r') \<in> set (zip states after)" "r' \<noteq> r" using changed_pair [OF assms(2)] by blast
  then show ?thesis
    using zip_ids [OF r(1) closing_ids [OF assms(1)]] assms(1) by (intro that [of r]) (auto simp: list_all2_iff dest: set_zip_leftD)
qed

lemma books_clock:
  assumes inv: "books_inv db" and c: "advance_clock sv db t cause = Inr db'"
  shows "books_inv db'"
  using c
proof (rule advance_clockE)
  fix run b s db1 events db2
  assume bind: "verify_binding sv db None = Inr ()"
    and run: "runR (clock_step sv run t cause) (db, []) (map ow_state (select_orders db (clocked sv))) = Inr (db1, events)"
    and tx: "ledger_transaction sv cause db1 events = Inr db2"
    and db': "db' = set_clock (os_runId sv) (\<lambda>_. Some (int_of_time t)) db2"
  let ?a = "os_accountId sv"
  define states where "states = map ow_state (select_orders db (clocked sv))"
  obtain after where after: "list_all2 (\<lambda>r r'. close_intent run t r = Inr r') states after"
    "db1 = foldl (update_order cause t) db (changed_orders states after)"
    "events = map (\<lambda>(r, r'). release_event sv (r_orderId r) t) (filter (\<lambda>(r, r'). r' \<noteq> r \<and> is_pending r) (zip states after))"
    using clock_run [OF run] states_def by auto
  let ?rs = "changed_orders states after"
  have keyed: "keyed_orders db" using inv by (simp add: books_inv_def)
  note same = ledger_transaction_fields [OF tx]
  have row: "\<exists>w \<in> set (db_orders db). ow_state w = r \<and> ow_runId w = os_runId sv \<and> ow_orderId w = r_orderId r \<and>
      row_ok db w \<and> account_order db ?a (r_orderId r) = Some w" if "r \<in> set states" for r
  proof -
    from that obtain w where w: "w \<in> set (db_orders db)" "ow_state w = r" "ow_runId w = os_runId sv"
      by (auto simp: states_def select_orders_def clocked_def)
    have "ow_orderId w = r_orderId r" "bound_row db ?a w"
      using keyed w verify_binding_bound [OF bind w(3)] by (auto simp: keyed_orders_def)
    with w inv account_order_row [OF keyed w(1), of ?a] show ?thesis by (auto simp: books_inv_def)
  qed
  note ids = closing_ids [OF after(1)]
  have dist: "distinct (map r_orderId states)"
    unfolding states_def select_orders_def using sorted_rows_distinct [OF keyed keyed_distinct [OF keyed]] .
  have distR: "distinct (map r_orderId ?rs)" by (rule changed_orders_distinct [OF ids dist])
  let ?g = "\<lambda>(r, r'). if r' \<noteq> r \<and> is_pending r then [release_event sv (r_orderId r) t] else []"
  let ?key = "\<lambda>(r, r'). r_orderId r"
  have evs: "events = concat (map ?g (zip states after))"
    unfolding after(3) using after(1) by (induction rule: list_all2_induct) auto
  have keys: "map ?key (zip states after) = map r_orderId states"
    using after(1) by (induction rule: list_all2_induct) auto
  have own: "\<forall>p \<in> set (zip states after). \<forall>e \<in> set (?g p). event_order e = Some (?key p)" by auto
  note concat = events_of_concat [OF own, folded evs]
  have pair: "\<exists>r. (r, r') \<in> set (zip states after) \<and> r' \<noteq> r \<and> r \<in> set states \<and> r_orderId r' = r_orderId r \<and>
      close_intent run t r = Inr r'" if "r' \<in> set ?rs" for r'
    using that by (rule closing_pair [OF after(1)]) blast
  have orders: "db_orders db' = map (updated_row cause t ?rs) (db_orders db)"
    using same db' after(2) by (simp add: updates_orders)
  have rows: "rows_step (os_runId sv) db db' (updated_row cause t ?rs) []"
  proof -
    have "updated_row cause t ?rs w = w" if "w \<in> set (db_orders db)" "ow_runId w \<noteq> os_runId sv" for w
    proof (rule updated_row_same, rule ballI)
      fix r' assume "r' \<in> set ?rs"
      then obtain r where r: "r \<in> set states" "r_orderId r' = r_orderId r" using pair by blast
      from row [OF r(1)] obtain w' where "w' \<in> set (db_orders db)" "ow_runId w' = os_runId sv"
        "ow_orderId w' = r_orderId r" by blast
      then show "r_orderId r' \<noteq> ow_orderId w"
        using keyed_row_unique [OF keyed _ that(1), of w'] r(2) that(2) by auto
    qed
    then show ?thesis
      using orders same db' after(2) by (simp add: rows_step_def find_liquidity_def set_clock_def comp_def if_distrib cong: if_cong)
  qed
  show "books_inv db'"
  proof (rule books_updates [OF inv bind tx _ orders _ _ _ _ distR])
    show "db_accounts db1 = db_accounts db" "db_accounts db' = db_accounts db2" using after(2) db' by simp_all
    show "map (\<lambda>b. (bd_runId b, bd_accountId b)) (db_bindings db') = map (\<lambda>b. (bd_runId b, bd_accountId b)) (db_bindings db)"
      "\<And>r i. r \<noteq> os_runId sv \<Longrightarrow> find_liquidity db' r i = find_liquidity db r i"
      using rows by (simp_all add: rows_step_def)
    have q: "quoted_since db' w m = quoted_since db w m" for w m
      using same db' after(2) by (simp add: quoted_since_def find_liquidity_def)
    then show "\<And>w m. quoted_since db w m \<Longrightarrow> quoted_since db' w m" by simp
    show "\<exists>w \<in> set (db_orders db). ow_runId w = os_runId sv \<and> ow_orderId w = r_orderId r' \<and>
      order_record_ok r' \<and> (is_pending r' \<longrightarrow> is_pending (ow_state w)) \<and>
      (\<forall>x pending. open_part r' = Some (x, pending) \<longrightarrow> quoted_since db' w (ms_of (ox_lastFactTimestamp x)))"
      if r': "r' \<in> set ?rs" for r'
    proof -
      obtain r where r: "r' \<noteq> r" "r \<in> set states" "r_orderId r' = r_orderId r" "close_intent run t r = Inr r'"
        using pair [OF r'] by blast
      obtain w where w: "w \<in> set (db_orders db)" "ow_state w = r" "ow_runId w = os_runId sv" "ow_orderId w = r_orderId r"
        "row_ok db w" using row [OF r(2)] by blast
      from r(4) have "order_record_ok r' \<and> (is_pending r' \<longrightarrow> is_pending r) \<and>
          (\<forall>x pending. open_part r' = Some (x, pending) \<longrightarrow> quoted_since db w (ms_of (ox_lastFactTimestamp x)))"
      proof (cases rule: close_intent_cases)
        case (withdrawn reason)
        then show ?thesis using w(2,5) record_cancelled [of r] by (simp add: row_ok_def open_part_def)
      next
        case (closing x)
        have "order_record_ok r" using w(2,5) by (simp add: row_ok_def)
        note c = closing_same(1,3-5) [OF this closing]
        show ?thesis using w(2,5) c by (auto simp: row_ok_def)
      qed (use r(1) in simp)
      then show ?thesis using w r(3) q by auto
    qed
    show none: "events_of i events = []" if "i \<notin> r_orderId ` set ?rs" for i
    proof (cases "i \<in> ?key ` set (zip states after)")
      case True
      then obtain r r' where p: "(r, r') \<in> set (zip states after)" "i = r_orderId r" by auto
      have "r' = r"
      proof (rule ccontr)
        assume "r' \<noteq> r"
        then have "r' \<in> set ?rs" using p(1) by (force simp: changed_orders_def)
        then show False using that zip_ids [OF p(1) ids] p(2) by (auto simp: image_iff)
      qed
      then show ?thesis using concat(1) [of "(r, r')"] p keys dist by simp
    next
      case False
      then show ?thesis using concat(2) keys dist by simp
    qed
    show "\<forall>e \<in> set events. event_ok db' ?a e"
    proof
      fix e assume "e \<in> set events"
      then obtain r r' where p: "(r, r') \<in> set (zip states after)" "r' \<noteq> r" "is_pending r"
        "e = release_event sv (r_orderId r) t" unfolding after(3) by auto
      have r': "r' \<in> set ?rs" using p(1,2) by (force simp: changed_orders_def)
      have id: "r_orderId r' = r_orderId r" by (rule zip_ids [OF p(1) ids])
      have rs: "r \<in> set states" using p(1) by (rule set_zip_leftD)
      obtain w where w: "account_order db ?a (r_orderId r) = Some w" "ow_orderId w = r_orderId r" using row [OF rs] by blast
      have "ow_state (updated_row cause t ?rs w) = r'" using updated_row_state [OF distR r'] id w(2) by simp
      moreover have "account_order db' ?a (r_orderId r) = Some (updated_row cause t ?rs w)"
        using account_order_step [OF rows] w(1) by simp
      moreover have "\<not> is_pending r'"
      proof -
        have "close_intent run t r = Inr r'" using after(1) p(1) by (auto simp: list_all2_iff)
        then show ?thesis using p(2,3) by (cases rule: close_intent_cases) (auto simp: is_pending_def)
      qed
      ultimately show "event_ok db' ?a e" using p(4) by (simp add: event_ok_def)
    qed
    show "events_of (r_orderId r') events = [] \<and> order_holding (ow_instrumentId w) r' = row_holding w \<or>
      (\<exists>e. events_of (r_orderId r') events = [e] \<and> e \<notin> set (lg_events (full_ledger s)) \<and>
        (accepted (ev_action e) (row_holding w) \<longrightarrow>
          effect (ev_action e) (row_holding w) = order_holding (ow_instrumentId w) r'))"
      if r': "r' \<in> set ?rs" "w \<in> set (db_orders db)" "ow_orderId w = r_orderId r'" "account_ok db ?a s" for r' w s
    proof -
      obtain r where r: "(r, r') \<in> set (zip states after)" "r' \<noteq> r" "r \<in> set states" "r_orderId r' = r_orderId r"
        "close_intent run t r = Inr r'" using pair [OF r'(1)] by blast
      obtain w' where w': "w' \<in> set (db_orders db)" "ow_state w' = r" "ow_orderId w' = r_orderId r" "row_ok db w'"
        "account_order db ?a (r_orderId r) = Some w'" using row [OF r(3)] by blast
      have ww: "w' = w" using keyed_row_unique [OF keyed w'(1) r'(2)] w'(3) r'(3) r(4) by simp
      have rec: "order_record_ok r" using w'(2,4) by (simp add: row_ok_def)
      have ev: "events_of (r_orderId r') events = (if is_pending r then [release_event sv (r_orderId r) t] else [])"
        using concat(1) [of "(r, r')"] r(1,2,4) keys dist by simp
      show ?thesis
      proof (cases "is_pending r")
        case True
        from r(5) obtain reason where "r' = r\<lparr>r_status := CANCELLED, r_reason := reason\<rparr>"
          by (cases rule: close_intent_cases) (use r(2) True in auto)
        then have h: "effect (Release (r_orderId r)) (order_holding (ow_instrumentId w) r) = order_holding (ow_instrumentId w) r'"
          using release_mirror(2) [OF rec True] by simp
        have "release_event sv (r_orderId r) t \<notin> set (lg_events (full_ledger s))"
          using logged_not_pending [OF r'(4) w'(5)] w'(2) True by simp
        then show ?thesis using ev True h w'(2) ww by (simp add: row_holding_def)
      next
        case False
        from r(5) have "order_holding (ow_instrumentId w) r' = order_holding (ow_instrumentId w) r"
          by (cases rule: close_intent_cases) (use r(2) False closing_same(2) [OF rec False] in auto)
        then show ?thesis using ev False w'(2) ww by (simp add: row_holding_def)
      qed
    qed
  qed
qed

end
