(* ===== verification/FactInbox.thy ===== *)
theory FactInbox
  imports SessionDriver
begin

text \<open>
  The durable inbox of session facts (\<open>paper-bot/funded-fact-adapter.ts\<close>,
  \<open>paper-bot/funded-fact-schema.ts\<close>). Producers enqueue facts; the drain takes the first pending
  one, claims it, hands it to the session driver and acknowledges it with its outcome. The claim,
  the effects and the acknowledgement are separate transactions, so a crash between them leaves a
  claimed fact, which is delivered again. Producer and drain hold the run's advisory lock: whether
  it is free is an argument. The evidence repository (decision captures and refusal requests) is
  not part of the model; the formats of the schema library are arguments.
\<close>

section \<open>The schema\<close>

text \<open>\<open>z.string().uuid()\<close> and \<open>z.string().datetime(...)\<close>\<close>

record text_formats =
  tf_uuid :: "string \<Rightarrow> bool"
  tf_datetime :: "string \<Rightarrow> bool"

definition nonnegative_number :: "jsnum \<Rightarrow> bool" where
  "nonnegative_number x \<longleftrightarrow> is_finite x \<and> Fin 0 \<le> x"

definition positive_number :: "jsnum \<Rightarrow> bool" where
  "positive_number x \<longleftrightarrow> is_finite x \<and> Fin 0 < x"

definition safe_count :: "jsnum \<Rightarrow> bool" where
  "safe_count x \<longleftrightarrow> nonnegative_number x \<and> is_safe_integer x"

text \<open>\<open>.optional()\<close> and \<open>.nullable()\<close>\<close>

definition if_given :: "('a \<Rightarrow> bool) \<Rightarrow> 'a option \<Rightarrow> bool" where
  "if_given p x \<longleftrightarrow> (case x of None \<Rightarrow> True | Some v \<Rightarrow> p v)"

definition costs_schema :: "cost_snapshot \<Rightarrow> bool" where
  "costs_schema c \<longleftrightarrow> nonnegative_number (c_entryCommission c) \<and> nonnegative_number (c_exitCommission c) \<and>
     nonnegative_number (c_estimatedRegulatoryFees c) \<and> nonnegative_number (c_slippageBps c) \<and>
     c_brokerPricingVersion c \<noteq> []"

definition is_digit :: "char \<Rightarrow> bool" where
  "is_digit c \<longleftrightarrow> digit_val c \<noteq> None"

definition clock_pattern :: "string \<Rightarrow> bool" where
  "clock_pattern s \<longleftrightarrow> (case s of [a, b, c, d, e] \<Rightarrow> is_digit a \<and> is_digit b \<and> c = CHR '':'' \<and> is_digit d \<and> is_digit e
     | _ \<Rightarrow> False)"

definition gates_schema :: "economics_gates \<Rightarrow> bool" where
  "gates_schema g \<longleftrightarrow> nonnegative_number (g_minNetRewardRisk g) \<and> nonnegative_number (g_minStopFrictionMultiple g) \<and>
     nonnegative_number (g_minTargetFrictionMultiple g) \<and> nonnegative_number (g_maxSpreadPct g)"

text \<open>\<open>.strict()\<close>: a field the schema does not have must be absent.\<close>

definition assumptions_schema :: "assumptions \<Rightarrow> bool" where
  "assumptions_schema a \<longleftrightarrow> positive_number (a_positionSize a) \<and> nonnegative_number (a_slippageBps a) \<and>
     nonnegative_number (a_feePerTrade a) \<and> positive_number (a_atrStopMultiple a) \<and>
     if_given positive_number (a_rewardRiskRatio a) \<and> nonnegative_number (a_maxQuoteAgeSeconds a) \<and>
     a_sessionTimezone a \<noteq> [] \<and> clock_pattern (a_noonCloseTime a) \<and> if_given safe_count (a_latencyMs a) \<and>
     if_given costs_schema (a_costs a) \<and> if_given positive_number (a_riskBudget a) \<and>
     if_given positive_number (a_maxNotional a) \<and> if_given gates_schema (a_economics a) \<and> a_evidenceScope a = None"

definition context_schema :: "text_formats \<Rightarrow> sizing_context \<Rightarrow> bool" where
  "context_schema z x \<longleftrightarrow> if_given nonnegative_number (x_displayedSize x) \<and>
     if_given nonnegative_number (x_openSymbolNotional x) \<and> if_given nonnegative_number (x_openSectorNotional x) \<and>
     if_given nonnegative_number (x_openPortfolioRisk x) \<and>
     if_given (\<lambda>v. positive_number v \<and> v \<le> Fin 1) (x_maxDisplayedSizeParticipation x) \<and>
     if_given nonnegative_number (x_maxSymbolNotional x) \<and> if_given nonnegative_number (x_maxSectorNotional x) \<and>
     if_given nonnegative_number (x_maxPortfolioRisk x) \<and> if_given safe_count (x_latencyMs x) \<and>
     if_given positive_number (x_maximumHoldingMinutes x) \<and> if_given positive_number (x_stalledBreakoutMinutes x) \<and>
     if_given nonnegative_number (x_stalledBreakoutMinProgressR x) \<and>
     if_given (list_all (\<lambda>r. tf_datetime z (cr_timestamp r))) (x_contexts x) \<and>
     if_given (tf_datetime z) (x_contextTimestamp x)"

definition signal_schema :: "text_formats \<Rightarrow> signal_fact \<Rightarrow> bool" where
  "signal_schema z s \<longleftrightarrow> if_given positive_number (s_entryReference s) \<and> if_given positive_number (s_stopReference s) \<and>
     if_given positive_number (s_targetReference s) \<and> if_given nonnegative_number (s_atr14 s) \<and>
     tf_datetime z (s_signalTimestamp s)"

definition quote_schema :: "text_formats \<Rightarrow> quote_fact \<Rightarrow> bool" where
  "quote_schema z q \<longleftrightarrow> tf_datetime z (q_timestamp q) \<and> positive_number (q_bid q) \<and> positive_number (q_ask q) \<and>
     safe_count (q_bidSize q) \<and> safe_count (q_askSize q) \<and> q_dataStatus q = REALTIME \<and> q_actionable q \<and>
     q_sizeUnit q = None \<and> q_sizeMultiplier q = None"

definition fact_schema :: "text_formats \<Rightarrow> session_fact \<Rightarrow> bool" where
  "fact_schema z f \<longleftrightarrow> (case f of
      Clock t \<Rightarrow> tf_datetime z t
    | Cancel orderId t reason pre \<Rightarrow> tf_datetime z t \<and> tf_uuid z orderId \<and> if_given (\<lambda>e. e \<noteq> []) pre
    | Quoted i quote participation impactBps \<Rightarrow> tf_uuid z i \<and> positive_number participation \<and>
        participation \<le> Fin 1 \<and> nonnegative_number impactBps \<and> impactBps \<le> Fin 10000 \<and> quote_schema z quote
    | Signal i order debit risk \<Rightarrow> tf_uuid z i \<and> positive_number debit \<and> nonnegative_number risk \<and>
        tf_uuid z (si_orderId order) \<and> tf_datetime z (si_submittedAt order) \<and> tf_datetime z (si_expiresAt order) \<and>
        signal_schema z (si_signal order) \<and> assumptions_schema (si_assumptions order) \<and>
        if_given (context_schema z) (si_context order))"

record fact_envelope =
  en_id :: string
  en_fact :: session_fact

definition parse_envelopes :: "text_formats \<Rightarrow> fact_envelope list \<Rightarrow> unit result" where
  "parse_envelopes z envelopes =
     (if list_all (\<lambda>e. en_id e \<noteq> [] \<and> fact_schema z (en_fact e)) envelopes then Inr ()
      else throw ''ZodError'')"

section \<open>The order of the inbox\<close>

definition compare_fact_order :: "fact_order \<Rightarrow> fact_order \<Rightarrow> jsnum" where
  "compare_fact_order left right =
     num_or (num_or (num_or (num (fo_at left) - num (fo_at right)) (fo_priority left - fo_priority right))
       (string_cmp (fo_sortKey left) (fo_sortKey right))) (string_cmp (fo_id left) (fo_id right))"

definition order_of_row :: "fact_row \<Rightarrow> fact_order" where
  "order_of_row f = \<lparr>fo_at = fr_factAt f, fo_priority = fr_priority f, fo_sortKey = fr_sortKey f,
     fo_id = fr_factId f\<rparr>"

definition iso_instant :: "string \<Rightarrow> string result" where
  "iso_instant t = to_iso_string (date_parse t)"

definition fact_economic_key :: "session_fact \<Rightarrow> string result" where
  "fact_economic_key f = (case f of
      Clock t \<Rightarrow> bindR (iso_instant t) (\<lambda>s. Inr (''CLOCK|'' @ s))
    | Signal i order debit risk \<Rightarrow> Inr (''SIGNAL|'' @ si_orderId order)
    | Cancel orderId t reason pre \<Rightarrow> bindR (iso_instant t) (\<lambda>s. Inr (''CANCEL|'' @ orderId @ ''|'' @ s))
    | Quoted i quote p b \<Rightarrow> bindR (iso_instant (q_timestamp quote)) (\<lambda>s. Inr (''QUOTE|'' @ i @ ''|'' @ s)))"

text \<open>\<open>COMPARISON_SIGNAL_SORT_KEY_PATTERN\<close>: six digits, a colon and a UUID in lower case.\<close>

definition is_hex :: "char \<Rightarrow> bool" where
  "is_hex c \<longleftrightarrow> is_digit c \<or> c \<in> set ''abcdef''"

fun matches :: "string \<Rightarrow> string \<Rightarrow> bool" where
  "matches [] [] = True"
| "matches (p # ps) (c # cs) =
     ((if p = CHR ''d'' then is_digit c else if p = CHR ''x'' then is_hex c else p = c) \<and> matches ps cs)"
| "matches ps cs = False"

definition comparison_sort_key :: "string \<Rightarrow> bool" where
  "comparison_sort_key s \<longleftrightarrow> matches ''dddddd:xxxxxxxx-xxxx-xxxx-xxxx-xxxxxxxxxxxx'' s"

definition comparison_signal_sort_key :: "jsnum \<Rightarrow> string \<Rightarrow> string result" where
  "comparison_signal_sort_key appliedRank sourceOpportunityId =
     (if \<not> is_safe_integer appliedRank \<or> appliedRank < Fin 1 \<or> Fin 999999 < appliedRank
      then throw ''Invalid comparison signal rank''
      else Inr (pad 6 (int_of appliedRank) @ '':'' @ sourceOpportunityId))"

section \<open>Enqueue\<close>

text \<open>\<open>new Map(pairs)\<close> and \<open>map.set\<close>\<close>

definition js_map :: "('k \<times> 'v) list \<Rightarrow> ('k \<times> 'v) list" where
  "js_map ps = foldl (\<lambda>m (k, v). AList.update k v m) [] ps"

text \<open>The foreign key, the primary key and the unique index of the table are branches.\<close>

definition insert_fact :: "database \<Rightarrow> fact_row \<Rightarrow> database result" where
  "insert_fact db f =
     (if find_binding db (fr_runId f) = None then throw ''insert violates foreign key constraint''
      else if \<exists>g \<in> set (db_facts db). fr_runId g = fr_runId f \<and>
        (fr_factId g = fr_factId f \<or> fr_economicKey g = fr_economicKey f)
      then throw ''duplicate key value violates unique constraint''
      else Inr (db\<lparr>db_facts := db_facts db @ [f]\<rparr>))"

text \<open>\<open>UPDATE paper_funded_fact SET outcome=... WHERE run_id AND fact_id AND outcome IS NULL\<close>\<close>

definition set_outcome :: "string \<Rightarrow> string \<Rightarrow> string \<Rightarrow> database \<Rightarrow> database" where
  "set_outcome runId factId status db = db\<lparr>db_facts := map (\<lambda>f.
     if fr_runId f = runId \<and> fr_factId f = factId \<and> fr_outcome f = None then f\<lparr>fr_outcome := Some status\<rparr> else f)
     (db_facts db)\<rparr>"

text \<open>The place of a new fact against the processed facts, the clock and the claimed fact.\<close>

definition at_or_before_claim :: "funded_binding option \<Rightarrow> fact_order \<Rightarrow> bool" where
  "at_or_before_claim binding order \<longleftrightarrow> (case Option.bind binding bd_inflight of None \<Rightarrow> False
     | Some barrier \<Rightarrow> compare_fact_order order barrier \<le> Fin 0)"

definition late_fact :: "database \<Rightarrow> string \<Rightarrow> funded_binding option \<Rightarrow> fact_order \<Rightarrow> bool" where
  "late_fact db runId binding order \<longleftrightarrow>
     (\<exists>f \<in> set (db_facts db). fr_runId f = runId \<and> fr_outcome f \<noteq> None \<and> fo_at order \<le> fr_factAt f) \<or>
     (case Option.bind binding bd_clockAt of None \<Rightarrow> False | Some clock \<Rightarrow> fo_at order < clock) \<or>
     at_or_before_claim binding order"

text \<open>
  A suppression that arrives after its order was committed: the reservation is released and the
  order cancelled at the earliest time the order and the account allow.
\<close>

definition effective_at :: "pending_order \<Rightarrow> ledger \<Rightarrow> int option \<Rightarrow> string result" where
  "effective_at current l clock = to_iso_string
     (math_max (math_max (math_max (date_parse (r_submittedAt current))
       (date_parse (coalesce (r_lastQuoteAt current) (r_submittedAt current))))
       (date_parse (lg_lastEventAt l))) (num (coalesce clock 0)))"

definition reconcile_order :: "database \<Rightarrow> string \<Rightarrow> string \<Rightarrow> int option \<Rightarrow> pending_order \<Rightarrow> database result" where
  "reconcile_order db runId factId clock current =
     (case find_binding db runId of None \<Rightarrow> throw ''Run has no funded binding''
      | Some b \<Rightarrow> (case find_account db (bd_accountId b) of None \<Rightarrow> throw ''Run has no funded binding''
        | Some account \<Rightarrow>
          bindR (effective_at current (ac_state account) clock) (\<lambda>effectiveAt.
          bindR (cancel_entry_order current effectiveAt SIGNAL_INVALIDATED) (\<lambda>cancelled.
          let sv = \<lparr>os_runId = runId, os_accountId = bd_accountId b, os_currency = bd_currency b\<rparr> in
          bindR (ledger_transaction sv (Some factId) db [release_event sv (r_orderId current) effectiveAt]) (\<lambda>db1.
          Inr (update_order (Some factId) effectiveAt db1 cancelled))))))"

definition reconcile :: "database \<Rightarrow> string \<Rightarrow> int option \<Rightarrow> fact_row \<Rightarrow> string \<Rightarrow> cancel_reason \<Rightarrow>
    pending_order \<Rightarrow> database result" where
  "reconcile db runId clock row instant reason current =
     (if reason \<noteq> SIGNAL_INVALIDATED \<or> date_parse (r_submittedAt current) < date_parse instant
      then throw ''Invalid pre-submission reconciliation''
      else bindR (insert_fact db (row\<lparr>fr_outcome := None\<rparr>)) (\<lambda>db1.
        bindR (reconcile_order db1 runId (fr_factId row) clock current) (\<lambda>db2.
        Inr (set_outcome runId (fr_factId row) ''APPLIED'' db2))))"

record inbox =
  ib_db :: database
  ib_byId :: "(string \<times> fact_row) list"
  ib_byKey :: "(string \<times> fact_row) list"

text \<open>A fact the inbox does not have yet.\<close>

definition admit_fact :: "string \<Rightarrow> funded_binding option \<Rightarrow> session_fact \<Rightarrow> fact_row \<Rightarrow> database \<Rightarrow>
    (database \<times> fact_row) result" where
  "admit_fact runId binding f row db =
     (let outcome = (if late_fact db runId binding (order_of_row row) then Some ''LATE_FACT'' else None);
          plain = (\<lambda>db1. bindR (insert_fact db1 (row\<lparr>fr_outcome := outcome\<rparr>)) (\<lambda>db2.
            Inr (db2, row\<lparr>fr_outcome := outcome\<rparr>)))
      in case f of
        Cancel orderId instant reason pre \<Rightarrow>
          if coalesce pre [] = [] then plain db
          else (case find (\<lambda>w. ow_runId w = runId \<and> ow_orderId w = orderId) (db_orders db) of
              None \<Rightarrow> plain (set_outcome runId (''funded-signal:'' @ orderId) ''PRE_SUBMISSION_SUPPRESSED'' db)
            | Some w \<Rightarrow>
                if r_status (ow_state w) = PENDING
                then bindR (reconcile db runId (Option.bind binding bd_clockAt) row instant reason (ow_state w))
                  (\<lambda>db1. Inr (db1, row\<lparr>fr_outcome := Some ''APPLIED''\<rparr>))
                else plain db)
      | _ \<Rightarrow> plain db)"

definition enqueue_fact :: "string \<Rightarrow> funded_binding option \<Rightarrow> (string \<Rightarrow> string option) \<Rightarrow> inbox \<Rightarrow>
    fact_envelope \<Rightarrow> inbox result" where
  "enqueue_fact runId binding sortKeys s e =
     (let f = en_fact e in
      if en_id e = [] then throw ''Invalid funded fact identity/type''
      else bindR (fact_time f) (\<lambda>t. bindR (to_iso_string t) (\<lambda>instant.
      let comparison = (case f of Signal i order debit risk \<Rightarrow> sortKeys (si_orderId order) | _ \<Rightarrow> None) in
      if \<not> if_given comparison_sort_key comparison
      then throw ''Invalid comparison funded SIGNAL sort key''
      else let expected = coalesce comparison (fact_key f) in
      case map_of (ib_byId s) (en_id e) of
        Some prior \<Rightarrow>
          if fr_fact prior \<noteq> f \<or> fr_sortKey prior \<noteq> expected then throw ''Conflicting funded fact retry'' else Inr s
      | None \<Rightarrow> bindR (fact_economic_key f) (\<lambda>key.
          case map_of (ib_byKey s) key of
            Some equivalent \<Rightarrow>
              if fr_fact equivalent \<noteq> f \<or> fr_sortKey equivalent \<noteq> expected
              then throw ''Conflicting funded economic fact'' else Inr s
          | None \<Rightarrow>
              bindR (admit_fact runId binding f \<lparr>fr_runId = runId, fr_factId = en_id e,
                fr_factAt = int_of_time instant, fr_priority = fact_priority f, fr_sortKey = expected,
                fr_economicKey = key, fr_fact = f, fr_outcome = None\<rparr> (ib_db s)) (\<lambda>(db1, stored).
              Inr (s\<lparr>ib_db := db1, ib_byId := AList.update (en_id e) stored (ib_byId s),
                ib_byKey := AList.update key stored (ib_byKey s)\<rparr>))))))"

definition prepare_fact :: "fact_envelope \<Rightarrow> unit result" where
  "prepare_fact e = (case en_fact e of
      Signal i order debit risk \<Rightarrow> bindR (submit_entry_order order) (\<lambda>_. Inr ())
    | Quoted i quote p b \<Rightarrow> bindR (open_entry_liquidity i quote p b) (\<lambda>_. Inr ())
    | _ \<Rightarrow> Inr ())"

definition enqueue :: "text_formats \<Rightarrow> string \<Rightarrow> bool \<Rightarrow> (string \<Rightarrow> string option) \<Rightarrow> fact_envelope list \<Rightarrow>
    database \<Rightarrow> database result" where
  "enqueue z runId lockFree sortKeys facts db =
     bindR (parse_envelopes z facts) (\<lambda>_.
     bindR (mapR prepare_fact facts) (\<lambda>_.
     if \<not> lockFree then throw ''Funded inbox busy; retry enqueue''
     else if find_run db runId = None then throw ''Funded run not found''
     else bindR (mapR (\<lambda>e. fact_economic_key (en_fact e)) facts) (\<lambda>keys.
       let existing = filter (\<lambda>f. fr_runId f = runId \<and>
           (fr_factId f \<in> set (map en_id facts) \<or> fr_economicKey f \<in> set keys)) (db_facts db) in
       bindR (runR (enqueue_fact runId (find_binding db runId) sortKeys)
         \<lparr>ib_db = db, ib_byId = js_map (map (\<lambda>f. (fr_factId f, f)) existing),
          ib_byKey = js_map (map (\<lambda>f. (fr_economicKey f, f)) existing)\<rparr> facts) (\<lambda>s. Inr (ib_db s)))))"

section \<open>Drain\<close>

text \<open>Only the fields of the budget the drain compares are read; the clock is read between facts.\<close>

record drain_budget =
  dg_maxFacts :: jsnum
  dg_maxDurationMs :: jsnum

definition valid_budget :: "drain_budget \<Rightarrow> bool" where
  "valid_budget g \<longleftrightarrow> \<not> (\<not> is_safe_integer (dg_maxFacts g) \<or> dg_maxFacts g < Fin 1 \<or>
     \<not> is_finite (dg_maxDurationMs g) \<or> dg_maxDurationMs g \<le> Fin 0)"

definition set_inflight :: "string \<Rightarrow> (funded_binding \<Rightarrow> bool) \<Rightarrow> fact_order option \<Rightarrow> database \<Rightarrow> database" where
  "set_inflight runId p claim db = db\<lparr>db_bindings := map (\<lambda>b.
     if bd_runId b = runId \<and> p b then b\<lparr>bd_inflight := claim\<rparr> else b) (db_bindings db)\<rparr>"

text \<open>The claim of a fact that has its outcome is cleared.\<close>

definition repair_claim :: "string \<Rightarrow> database \<Rightarrow> database" where
  "repair_claim runId db = set_inflight runId (\<lambda>b. \<exists>f \<in> set (db_facts db). fr_runId f = runId \<and>
     map_option fo_id (bd_inflight b) = Some (fr_factId f) \<and> fr_outcome f \<noteq> None) None db"

definition pending_facts :: "string \<Rightarrow> database \<Rightarrow> fact_row list" where
  "pending_facts runId db = filter (\<lambda>f. fr_runId f = runId \<and> fr_outcome f = None) (db_facts db)"

definition fact_row_cmp :: "fact_row \<Rightarrow> fact_row \<Rightarrow> jsnum" where
  "fact_row_cmp x y = compare_fact_order (order_of_row x) (order_of_row y)"

text \<open>\<open>ORDER BY fact_at,priority,sort_key,fact_id LIMIT 1\<close>\<close>

definition next_fact :: "string \<Rightarrow> database \<Rightarrow> fact_row option" where
  "next_fact runId db = (case js_sort fact_row_cmp (pending_facts runId db) of [] \<Rightarrow> None | f # rest \<Rightarrow> Some f)"

definition claim_of :: "fact_row \<Rightarrow> fact_order result" where
  "claim_of row = bindR (fact_time (fr_fact row)) (\<lambda>t. bindR (to_iso_string t) (\<lambda>instant.
     Inr \<lparr>fo_at = int_of_time instant, fo_priority = fact_priority (fr_fact row),
       fo_sortKey = fact_key (fr_fact row), fo_id = fr_factId row\<rparr>))"

definition claimable :: "fact_row \<Rightarrow> funded_binding \<Rightarrow> bool" where
  "claimable row b \<longleftrightarrow> bd_inflight b = None \<or> map_option fo_id (bd_inflight b) = Some (fr_factId row)"

definition claim_fact :: "string \<Rightarrow> fact_row \<Rightarrow> database \<Rightarrow> database result" where
  "claim_fact runId row db = bindR (claim_of row) (\<lambda>c.
     if \<not> (\<exists>b \<in> set (db_bindings db). bd_runId b = runId \<and> claimable row b)
     then throw ''Funded inbox has a different in-flight fact''
     else Inr (set_inflight runId (claimable row) (Some c) db))"

definition outcome_of :: "session_summary \<Rightarrow> string" where
  "outcome_of sm = (if sm_vetoes sm \<noteq> [] then ''RISK_VETO''
     else (case sm_noOps sm of [] \<Rightarrow> ''APPLIED''
       | (orderId, why) # rest \<Rightarrow> if why = PRE_SUBMISSION_INVALIDATION then ''PRE_SUBMISSION_SUPPRESSED''
           else ''CANCEL_NOOP_RESERVATION_VETO''))"

definition acknowledge :: "string \<Rightarrow> string \<Rightarrow> string \<Rightarrow> database \<Rightarrow> database" where
  "acknowledge runId factId status db = set_inflight runId
     (\<lambda>b. map_option fo_id (bd_inflight b) = Some factId) None (set_outcome runId factId status db)"

text \<open>The claimed fact is handed to the session driver.\<close>

definition process_fact :: "order_service \<Rightarrow> fact_row \<Rightarrow> database \<Rightarrow> driver_state option" where
  "process_fact sv row db =
     process_session_facts sv db [\<lparr>fi_fact = fr_fact row, fi_factId = Some (fr_factId row)\<rparr>]"

definition budget_spent :: "drain_budget option \<Rightarrow> (nat \<Rightarrow> jsnum) \<Rightarrow> nat \<Rightarrow> bool" where
  "budget_spent budget elapsed processed \<longleftrightarrow> (case budget of None \<Rightarrow> False
     | Some g \<Rightarrow> 0 < processed \<and> (dg_maxFacts g \<le> num (int processed) \<or> dg_maxDurationMs g \<le> elapsed processed))"

partial_function (option) drain_loop :: "order_service \<Rightarrow> drain_budget option \<Rightarrow> (nat \<Rightarrow> jsnum) \<Rightarrow> nat \<Rightarrow>
    database \<Rightarrow> (database \<times> nat result) option" where
  "drain_loop sv budget elapsed processed db =
     (if budget_spent budget elapsed processed then Some (db, Inr processed)
      else (case next_fact (os_runId sv) (repair_claim (os_runId sv) db) of
          None \<Rightarrow> Some (repair_claim (os_runId sv) db, Inr processed)
        | Some row \<Rightarrow> (case claim_fact (os_runId sv) row (repair_claim (os_runId sv) db) of
            Inl e \<Rightarrow> Some (repair_claim (os_runId sv) db, Inl e)
          | Inr claimed \<Rightarrow> (case process_fact sv row claimed of
              None \<Rightarrow> None
            | Some (db1, Inl e) \<Rightarrow> Some (db1, Inl e)
            | Some (db1, Inr sm) \<Rightarrow> drain_loop sv budget elapsed (processed + 1)
                (acknowledge (os_runId sv) (fr_factId row) (outcome_of sm) db1)))))"

declare drain_loop.simps [code]

definition drain_inbox :: "string \<Rightarrow> bool \<Rightarrow> drain_budget option \<Rightarrow> (nat \<Rightarrow> jsnum) \<Rightarrow> database \<Rightarrow>
    (database \<times> nat result) option" where
  "drain_inbox runId lockFree budget elapsed db =
     (if \<not> if_given valid_budget budget then Some (db, throw ''Invalid funded drain budget'')
      else if \<not> lockFree then Some (db, Inr 0)
      else (case find_binding db runId of None \<Rightarrow> Some (db, throw ''Run has no funded binding'')
        | Some b \<Rightarrow> drain_loop \<lparr>os_runId = runId, os_accountId = bd_accountId b, os_currency = bd_currency b\<rparr>
            budget elapsed 0 db))"

end
