(* ===== verification/OrderInvariant.thy ===== *)
theory OrderInvariant
  imports OrderBooks FactInbox
begin

text \<open>
  Quotes, submissions and the binding of a run keep the agreement of orders and ledger, as the
  cancellation and the clock do. \<open>service_step\<close> is what may happen to the database: an operation of
  any run's service, or a change made elsewhere; the agreement holds in every database reached.
\<close>

section \<open>Quotes\<close>

lemma find_put_liquidity: "find_liquidity (put_liquidity db l) r i =
    (if r = lw_runId l \<and> i = lw_instrumentId l then Some l else find_liquidity db r i)"
proof -
  let ?m = "\<lambda>x. lw_runId x = lw_runId l \<and> lw_instrumentId x = lw_instrumentId l"
  have a: "find (\<lambda>x. lw_runId x = r \<and> lw_instrumentId x = i) (map (\<lambda>x. if ?m x then l else x) xs) =
      (if r = lw_runId l \<and> i = lw_instrumentId l then (if \<exists>x \<in> set xs. ?m x then Some l else None)
       else find (\<lambda>x. lw_runId x = r \<and> lw_instrumentId x = i) xs)" for xs
    by (induction xs) auto
  have b: "find (\<lambda>x. lw_runId x = r \<and> lw_instrumentId x = i) (xs @ [l]) =
      (if r = lw_runId l \<and> i = lw_instrumentId l then Some l
       else find (\<lambda>x. lw_runId x = r \<and> lw_instrumentId x = i) xs)" if "\<not> (\<exists>x \<in> set xs. ?m x)" for xs
    using that by (induction xs) auto
  show ?thesis
  proof (cases "\<exists>x \<in> set (db_liquidity db). ?m x")
    case True
    then have "db_liquidity (put_liquidity db l) = map (\<lambda>x. if ?m x then l else x) (db_liquidity db)"
      by (simp add: put_liquidity_def)
    then show ?thesis unfolding find_liquidity_def using a [of "db_liquidity db"] True by (simp only: if_True)
  next
    case False
    then have "db_liquidity (put_liquidity db l) = db_liquidity db @ [l]" by (simp add: put_liquidity_def)
    then show ?thesis unfolding find_liquidity_def using b [OF False] by (simp only:)
  qed
qed

lemma open_liquidity_fields: "open_entry_liquidity i quote p b = Inr initial \<Longrightarrow>
    el_quote initial = quote \<and> has_time (q_timestamp quote)"
  by (auto simp: open_entry_liquidity_def usable_quote_def intro!: has_time_usable split: if_splits)

lemma allocation_quote: "allocate_orders initial orders quote p b closeAt portfolio = Inr (l, after) \<Longrightarrow>
    el_quote l = el_quote initial"
  by (auto simp: allocate_orders_def allocate_entry_liquidity_def bindR_eq_Inr split: if_splits)

text \<open>The orders a new quote works on, with their rows.\<close>

definition newer_quote :: "database \<Rightarrow> string \<Rightarrow> string \<Rightarrow> quote_fact \<Rightarrow> bool" where
  "newer_quote db runId i quote \<longleftrightarrow> has_time (q_timestamp quote) \<and>
     (\<forall>l. find_liquidity db runId i = Some l \<longrightarrow>
        \<not> date_parse (q_timestamp quote) \<le> date_parse (q_timestamp (el_quote (lw_state l))))"

lemma newer_strict:
  assumes "newer_quote db (ow_runId w) (ow_instrumentId w) quote" "quoted_since db w m"
  shows "m < ms_of (q_timestamp quote)"
proof -
  obtain l where l: "find_liquidity db (ow_runId w) (ow_instrumentId w) = Some l"
    "has_time (q_timestamp (el_quote (lw_state l)))" "m \<le> ms_of (q_timestamp (el_quote (lw_state l)))"
    using assms(2) by (auto simp: quoted_since_def)
  then have "\<not> date_parse (q_timestamp quote) \<le> date_parse (q_timestamp (el_quote (lw_state l)))"
    "has_time (q_timestamp quote)" using assms(1) by (simp_all add: newer_quote_def)
  with l(2,3) show ?thesis unfolding has_time_def by simp
qed

lemma quoted_order:
  assumes inv: "books_inv db" and bind: "verify_binding sv db (Some i) = Inr ()"
    and newer: "newer_quote db (os_runId sv) i quote" and r: "r \<in> set (quotable_orders db (os_runId sv) i)"
  obtains w where "w \<in> set (db_orders db)" "ow_state w = r" "ow_runId w = os_runId sv" "ow_instrumentId w = i"
    "ow_orderId w = r_orderId r" "account_order db (os_accountId sv) (r_orderId r) = Some w" "order_record_ok r"
    "\<And>x pending. open_part r = Some (x, pending) \<Longrightarrow> ms_of (ox_lastFactTimestamp x) < ms_of (q_timestamp quote)"
proof -
  obtain w where w: "w \<in> set (db_orders db)" "ow_state w = r" "quotable (os_runId sv) i w"
    using quotable_order_row [OF r] by blast
  have keyed: "keyed_orders db" using inv by (simp add: books_inv_def)
  have f: "ow_runId w = os_runId sv" "ow_instrumentId w = i" "ow_orderId w = r_orderId r"
    using w keyed by (auto simp: quotable_def keyed_orders_def)
  have b: "bound_row db (os_accountId sv) w" by (rule verify_binding_bound [OF bind f(1)])
  have ok: "row_ok db w" using inv w(1) b by (auto simp: books_inv_def)
  show ?thesis
  proof (rule that [OF w(1,2) f])
    show "account_order db (os_accountId sv) (r_orderId r) = Some w"
      using account_order_row [OF keyed w(1) b] f(3) by simp
    show "order_record_ok r" using ok w(2) by (simp add: row_ok_def)
    show "ms_of (ox_lastFactTimestamp x) < ms_of (q_timestamp quote)" if "open_part r = Some (x, pending)" for x pending
    proof (rule newer_strict)
      show "newer_quote db (ow_runId w) (ow_instrumentId w) quote" using newer f by simp
      show "quoted_since db w (ms_of (ox_lastFactTimestamp x))" using ok w(2) that by (simp add: row_ok_def)
    qed
  qed
qed

lemma quotable_distinct: "keyed_orders db \<Longrightarrow> distinct (map r_orderId (quotable_orders db runId i))"
  unfolding quotable_orders_def by (rule sorted_rows_distinct [OF _ keyed_distinct])

text \<open>The batch has the events of the changed orders and marks, which are about no order.\<close>

lemma batch_events_of:
  assumes "length (events_of i es) \<le> 1"
  shows "events_of i (quote_batch sv n quote es) = events_of i es"
proof -
  have mark: "event_order (mark_event sv p n quote) = None" for p
    by (simp add: mark_event_def ledger_event_of_def event_order_def)
  have "events_of i (filter is_sale es) @ events_of i (filter (\<lambda>e. \<not> is_sale e) es) =
      filter is_sale (events_of i es) @ filter (\<lambda>e. \<not> is_sale e) (events_of i es)"
    by (simp add: events_of_def conj_commute)
  also have "\<dots> = events_of i es"
    using assms by (cases "events_of i es") auto
  finally show ?thesis by (auto simp: quote_batch_def mark)
qed

lemma batch_event_ok:
  assumes "\<forall>e \<in> set es. event_ok db a e"
  shows "\<forall>e \<in> set (quote_batch sv n quote es). event_ok db a e"
proof -
  have "event_ok db a (mark_event sv p n quote)" for p
    by (simp add: mark_event_def ledger_event_of_def event_ok_def own_position_def)
  with assms show ?thesis by (auto simp: quote_batch_def)
qed

lemma order_change_pending: "order_change quote r r' \<Longrightarrow> is_pending r' \<Longrightarrow> is_pending r"
  by (cases rule: order_change.cases) (auto simp: is_pending_def)

text \<open>An event of a changed order is new to the log, and afterwards the order is no longer pending.\<close>

lemma new_event:
  assumes ok: "account_ok db a s" "account_order db a (r_orderId r) = Some w" "ow_state w = r"
    and newer: "newer_quote db (ow_runId w) (ow_instrumentId w) quote"
    and e: "new_for r quote e" "event_order e = Some (r_orderId r)"
  shows "e \<notin> set (lg_events (full_ledger s))"
proof (cases "is_pending r")
  case True
  with e(1) show ?thesis
    by (intro logged_not_pending [OF ok(1,2) _ e(2)]) (auto simp: new_for_def ok(3) split: ledger_action.splits)
next
  case False
  with e obtain n c f where action: "ev_action e = Sell (r_orderId r) n c f" and t: "ev_at e = q_timestamp quote"
    by (auto simp: new_for_def event_order_def split: ledger_action.splits)
  show ?thesis
  proof
    assume "e \<in> set (lg_events (full_ledger s))"
    then have "event_ok db a e" using ok(1) unfolding account_ok_def by blast
    then have "quoted_since db w (ms_of (q_timestamp quote))" using action t ok(2) by (simp add: event_ok_def)
    then show False using newer_strict [OF newer] by blast
  qed
qed

text \<open>The events of each changed order in the batch.\<close>

lemma changed_events:
  assumes run: "mapR (order_events sv n quote) rs = Inr ess" and dist: "distinct (map r_orderId rs)"
    and own: "\<forall>r \<in> set rs. \<forall>es. order_events sv n quote r = Inr es \<longrightarrow>
      length es \<le> 1 \<and> (\<forall>e \<in> set es. event_order e = Some (r_orderId r))"
  shows "r \<in> set rs \<Longrightarrow> order_events sv n quote r = Inr (events_of (r_orderId r) (quote_batch sv n quote (concat ess)))"
    "i \<notin> r_orderId ` set rs \<Longrightarrow> events_of i (quote_batch sv n quote (concat ess)) = []"
    "e \<in> set (concat ess) \<Longrightarrow> \<exists>r \<in> set rs. order_events sv n quote r = Inr [e]"
proof -
  have all: "list_all2 (\<lambda>r es. order_events sv n quote r = Inr es) rs ess" using run by (simp add: mapR_Inr)
  let ?ps = "zip rs ess" and ?key = "\<lambda>p. r_orderId (fst p)"
  have len: "length ess = length rs" using list_all2_lengthD [OF all] by simp
  have "map ?key ?ps = map r_orderId (map fst ?ps)" by simp
  then have parts: "map snd ?ps = ess" "map ?key ?ps = map r_orderId rs" using len by simp_all
  have p: "fst q \<in> set rs \<and> order_events sv n quote (fst q) = Inr (snd q)" if "q \<in> set ?ps" for q
  proof (cases q)
    case (Pair r es)
    have "r \<in> set rs" using that Pair set_zip_leftD [of r es rs ess] by simp
    then show ?thesis using that all Pair by (auto simp: list_all2_iff)
  qed
  have "\<forall>q \<in> set ?ps. \<forall>e \<in> set (snd q). event_order e = Some (?key q)" using p own by blast
  note concat = events_of_concat [where g = snd and ps = ?ps and key = ?key, OF this, unfolded parts, OF dist]
  have keys: "?key ` set ?ps = r_orderId ` set rs" using parts(2) by (metis list.set_map)
  show one: "order_events sv n quote r = Inr (events_of (r_orderId r) (quote_batch sv n quote (concat ess)))"
    if r: "r \<in> set rs" for r
  proof -
    obtain es where es: "(r, es) \<in> set ?ps" using r len by (metis in_set_impl_in_set_zip1)
    from p [OF es] concat(1) [OF es] have e: "order_events sv n quote r = Inr es"
      "events_of (r_orderId r) (concat ess) = es" by simp_all
    then show ?thesis using batch_events_of own r e(1) by simp
  qed
  show "events_of i (quote_batch sv n quote (concat ess)) = []" if "i \<notin> r_orderId ` set rs"
    using concat(2) [of i] that keys by (subst batch_events_of) simp_all
  show "\<exists>r \<in> set rs. order_events sv n quote r = Inr [e]" if e: "e \<in> set (concat ess)"
  proof -
    obtain es where "es \<in> set ess" "e \<in> set es" using e by auto
    then obtain q where q: "q \<in> set ?ps" "e \<in> set (snd q)" using len by (metis in_set_impl_in_set_zip2 snd_conv)
    have "snd q = [e]" using own p [OF q(1)] q(2)
      by (cases "snd q") auto
    then show ?thesis using p [OF q(1)] by auto
  qed
qed

lemma order_change_keeps: "order_change quote r r' \<Longrightarrow> r_orderId r' = r_orderId r"
  by (cases rule: order_change.cases) auto

lemma mirrored_one: "mirrored n quote r r' es \<Longrightarrow>
    length es \<le> 1 \<and> (\<forall>e \<in> set es. event_order e = Some (r_orderId r) \<and> own_position e \<and> new_for r quote e)"
  by (auto simp: mirrored_def)

text \<open>A single new event of a change says that the order is no longer pending.\<close>

lemma mirrored_settled:
  assumes "mirrored n quote r r' [e]" "order_change quote r r'" "order_record_ok r"
  shows "\<not> is_pending r'"
proof (cases "is_pending r")
  case True
  then have h: "order_holding n r = (True, None)"
    using assms(3) by (simp add: order_holding_def open_holding_def open_part_def order_record_ok_def is_pending_def)
  from assms(1) have e: "new_for r quote e" "accepted (ev_action e) (order_holding n r) \<longrightarrow>
      effect (ev_action e) (order_holding n r) = order_holding n r'" by (auto simp: mirrored_def)
  with True h have "fst (order_holding n r') = False"
    by (cases "ev_action e") (auto simp: new_for_def dest: sym)
  then show ?thesis by (simp add: order_holding_def)
next
  case False
  then show ?thesis using order_change_pending [OF assms(2)] by blast
qed

text \<open>What the allocation has done to one of the orders it changed.\<close>

lemma quote_change:
  assumes inv: "books_inv db" and bind: "verify_binding sv db (Some i) = Inr ()"
    and newer: "newer_quote db (os_runId sv) i quote" and initial: "el_quote initial = quote"
    and alloc: "allocate_orders initial (quotable_orders db (os_runId sv) i) quote p b closeAt portfolio = Inr (l, after)"
    and r': "r' \<in> set (changed_orders (quotable_orders db (os_runId sv) i) after)"
  obtains r w where "order_change quote r r'" "w \<in> set (db_orders db)" "ow_state w = r" "ow_runId w = os_runId sv"
    "ow_instrumentId w = i" "ow_orderId w = r_orderId r'" "account_order db (os_accountId sv) (r_orderId r') = Some w"
    "order_record_ok r" "order_dated (ms_of (q_timestamp quote)) r" "r_orderId r' = r_orderId r"
    "\<And>es. order_events sv i quote r' = Inr es \<Longrightarrow> mirrored i quote r r' es"
proof -
  let ?orders = "quotable_orders db (os_runId sv) i"
  have dated: "order_dated (ms_of (q_timestamp quote)) r" "order_record_ok r" if "r \<in> set ?orders" for r
    by (rule quoted_order [OF inv bind newer that]; fastforce simp: order_dated_def)+
  obtain r where r: "(r, r') \<in> set (zip ?orders after)" "r' \<noteq> r" using changed_pair [OF r'] by blast
  have ro: "r \<in> set ?orders" using r(1) by (rule set_zip_leftD)
  have "list_all2 (order_change quote) ?orders after"
    using dated by (intro allocation_changes [OF alloc initial]) blast
  then have change: "order_change quote r r'" using r(1) by (auto simp: list_all2_iff)
  note id = order_change_keeps [OF change]
  obtain w where w: "w \<in> set (db_orders db)" "ow_state w = r" "ow_runId w = os_runId sv" "ow_instrumentId w = i"
    "ow_orderId w = r_orderId r" "account_order db (os_accountId sv) (r_orderId r) = Some w" "order_record_ok r"
    "\<And>x pending. open_part r = Some (x, pending) \<Longrightarrow> ms_of (ox_lastFactTimestamp x) < ms_of (q_timestamp quote)"
    by (rule quoted_order [OF inv bind newer ro]) blast
  have t: "has_time (q_timestamp quote)" using newer by (simp add: newer_quote_def)
  show ?thesis
    using that [OF change w(1-4) _ _ w(7) dated(1) [OF ro] id order_change_mirrored [OF change r(2) w(7) t w(8)]]
      w(5,6) id by simp
qed

lemma updated_account_order:
  assumes "db_orders db' = map (updated_row c t rs) (db_orders db)" "db_bindings db' = db_bindings db"
  shows "account_order db' a n = map_option (updated_row c t rs) (account_order db a n)"
  using assms by (simp add: account_order_def bound_row_def find_map' comp_def)

lemma books_fresh_quote:
  assumes inv: "books_inv db" and bind: "verify_binding sv db (Some i) = Inr ()"
    and newer: "newer_quote db (os_runId sv) i quote" and initial: "el_quote initial = quote"
    and alloc: "allocate_orders initial (quotable_orders db (os_runId sv) i) quote p b closeAt portfolio = Inr (l, after)"
    and effects: "quote_effects sv i quote cause db (changed_orders (quotable_orders db (os_runId sv) i) after) = Inr db1"
    and db': "db' = put_liquidity (foldl (update_order cause (q_timestamp quote)) db1
        (changed_orders (quotable_orders db (os_runId sv) i) after))
      \<lparr>lw_runId = os_runId sv, lw_instrumentId = i, lw_state = l, lw_orders = after\<rparr>"
  shows "books_inv db'"
proof -
  let ?a = "os_accountId sv" and ?t = "q_timestamp quote"
  let ?rs = "changed_orders (quotable_orders db (os_runId sv) i) after"
  obtain ess where run: "mapR (order_events sv i quote) ?rs = Inr ess"
    and tx: "ledger_transaction sv cause db (quote_batch sv i quote (concat ess)) = Inr db1"
    by (rule quote_effectsE [OF effects])
  let ?es = "quote_batch sv i quote (concat ess)"
  have keyed: "keyed_orders db" using inv by (simp add: books_inv_def)
  note same = ledger_transaction_fields [OF tx]
  note ids = allocation_ids [OF alloc]
  have dist: "distinct (map r_orderId ?rs)"
    using ids quotable_distinct [OF keyed] by (intro changed_orders_distinct) blast+
  note change = quote_change [OF inv bind newer initial alloc]
  have "length es \<le> 1 \<and> (\<forall>e \<in> set es. event_order e = Some (r_orderId r'))"
    if "r' \<in> set ?rs" "order_events sv i quote r' = Inr es" for r' es
    using that mirrored_one by (elim change) metis
  then have own: "\<forall>r' \<in> set ?rs. \<forall>es. order_events sv i quote r' = Inr es \<longrightarrow>
      length es \<le> 1 \<and> (\<forall>e \<in> set es. event_order e = Some (r_orderId r'))" by blast
  note events = changed_events [OF run dist own]
  have quote': "el_quote l = quote" "has_time ?t" using allocation_quote [OF alloc] initial newer
    by (simp_all add: newer_quote_def)
  have liq: "find_liquidity db' r n = (if r = os_runId sv \<and> n = i
      then Some \<lparr>lw_runId = os_runId sv, lw_instrumentId = i, lw_state = l, lw_orders = after\<rparr>
      else find_liquidity db r n)" for r n
    unfolding db' find_put_liquidity using same by (simp add: find_liquidity_def)
  have now: "quoted_since db' w m" if "ow_runId w = os_runId sv" "ow_instrumentId w = i" "m \<le> ms_of ?t" for w m
    using that quote' by (simp add: quoted_since_def liq)
  have later: "quoted_since db' w m" if "quoted_since db w m" for w m
  proof (cases "ow_runId w = os_runId sv \<and> ow_instrumentId w = i")
    case True
    then have "m < ms_of ?t" using newer_strict [of db w quote m] newer that by simp
    then show ?thesis using now True by simp
  next
    case False
    then show ?thesis using that by (auto simp: quoted_since_def liq)
  qed
  have orders: "db_orders db' = map (updated_row cause ?t ?rs) (db_orders db)"
    unfolding db' using same by (simp add: updates_orders)
  show ?thesis
  proof (rule books_updates [OF inv bind tx refl orders _ _ _ later dist])
    show "\<exists>w \<in> set (db_orders db). ow_runId w = os_runId sv \<and> ow_orderId w = r_orderId r' \<and>
      order_record_ok r' \<and> (is_pending r' \<longrightarrow> is_pending (ow_state w)) \<and>
      (\<forall>x pending. open_part r' = Some (x, pending) \<longrightarrow> quoted_since db' w (ms_of (ox_lastFactTimestamp x)))"
      if r': "r' \<in> set ?rs" for r'
      using r'
    proof (rule change)
      fix r w assume r: "order_change quote r r'" "w \<in> set (db_orders db)" "ow_state w = r" "ow_runId w = os_runId sv"
        "ow_instrumentId w = i" "ow_orderId w = r_orderId r'" "order_record_ok r" "order_dated (ms_of ?t) r"
      from order_change_record [OF r(1,7,8)] order_change_pending [OF r(1)] r now show ?thesis
        unfolding order_dated_def by blast
    qed
    show "find_liquidity db' r n = find_liquidity db r n" if "r \<noteq> os_runId sv" for r n using that by (simp add: liq)
    show "events_of n ?es = []" if "n \<notin> r_orderId ` set ?rs" for n by (rule events(2) [OF that])
    have "event_ok db' ?a e" if listed: "e \<in> set (concat ess)" for e
    proof -
      obtain r' where r': "r' \<in> set ?rs" "order_events sv i quote r' = Inr [e]"
        using events(3) [OF listed] by auto
      from r'(1) show ?thesis
      proof (rule change)
        fix r w assume r: "order_change quote r r'" "ow_runId w = os_runId sv" "ow_instrumentId w = i"
          "ow_orderId w = r_orderId r'" "account_order db ?a (r_orderId r') = Some w" "order_record_ok r"
          "r_orderId r' = r_orderId r" "\<And>es. order_events sv i quote r' = Inr es \<Longrightarrow> mirrored i quote r r' es"
        note m = r(8) [OF r'(2)]
        have e: "event_order e = Some (r_orderId r')" "own_position e" "new_for r quote e"
          using mirrored_one [OF m] r(7) by simp_all
        let ?w = "updated_row cause ?t ?rs w"
        have w: "account_order db' ?a (r_orderId r') = Some ?w"
          using updated_account_order [OF orders] r(5) same by (simp add: db')
        have "ow_state ?w = r'" by (rule updated_row_state [OF dist r'(1) r(4) [symmetric]])
        then have "\<not> is_pending (ow_state ?w)" using mirrored_settled [OF m r(1,6)] by simp
        moreover have "quoted_since db' ?w (ms_of ?t)" using r(2,3) by (intro now) simp_all
        ultimately show "event_ok db' ?a e" using e w quote'(2)
          by (cases "ev_action e") (auto simp: event_ok_def new_for_def event_order_def)
      qed
    qed
    then show "\<forall>e \<in> set ?es. event_ok db' ?a e" by (intro batch_event_ok) blast
    show "events_of (r_orderId r') ?es = [] \<and> order_holding (ow_instrumentId w0) r' = row_holding w0 \<or>
      (\<exists>e. events_of (r_orderId r') ?es = [e] \<and> e \<notin> set (lg_events (full_ledger s)) \<and>
        (accepted (ev_action e) (row_holding w0) \<longrightarrow>
          effect (ev_action e) (row_holding w0) = order_holding (ow_instrumentId w0) r'))"
      if r': "r' \<in> set ?rs" "w0 \<in> set (db_orders db)" "ow_orderId w0 = r_orderId r'" "account_ok db ?a s" for r' w0 s
      using r'(1)
    proof (rule change)
      fix r w assume r: "w \<in> set (db_orders db)" "ow_state w = r" "ow_runId w = os_runId sv" "ow_instrumentId w = i"
        "ow_orderId w = r_orderId r'" "account_order db ?a (r_orderId r') = Some w" "r_orderId r' = r_orderId r"
        "\<And>es. order_events sv i quote r' = Inr es \<Longrightarrow> mirrored i quote r r' es"
      have w: "w0 = w" using keyed_row_unique [OF keyed r'(2) r(1)] r'(3) r(5) by simp
      have "order_events sv i quote r' = Inr (events_of (r_orderId r') ?es)" by (rule events(1) [OF r'(1)])
      note m = r(8) [OF this]
      have "e \<notin> set (lg_events (full_ledger s))" if "events_of (r_orderId r') ?es = [e]" for e
        using mirrored_one [OF m] that newer r
        by (intro new_event [OF r'(4), of r w quote]) simp_all
      then show ?thesis using m unfolding mirrored_def w row_holding_def r(2,4) by blast
    qed
  qed (simp_all add: db' same)
qed

lemma books_attempt:
  assumes "books_inv db" "quote_attempt sv db i quote p b cause = Inr (db', x)"
  shows "books_inv db'"
proof -
  obtain portfolio where bind: "verify_binding sv db (Some i) = Inr ()"
    and store: "store_allocate_quote db (os_runId sv) i quote p b (Some (quote_effects sv i quote cause)) portfolio cause =
      Inr (db', x)" using assms(2) by (rule quote_attemptE)
  from store show ?thesis
  proof (cases rule: store_allocate_quoteE)
    case (fresh run initial closeAt liquidity after db1)
    note init = open_liquidity_fields [OF fresh(2)]
    have "newer_quote db (os_runId sv) i quote" using init fresh(8) by (simp add: newer_quote_def)
    from books_fresh_quote [OF assms(1) bind this _ fresh(4,5,6)] init show ?thesis by blast
  qed (use assms(1) in simp)
qed

lemma books_quote: "books_inv db \<Longrightarrow> quote_orders sv db i quote p b cause = Some y \<Longrightarrow> books_inv (fst y)"
  by (erule quote_orders_invariant) (auto intro: books_attempt books_cancel)

section \<open>Submissions\<close>

lemma submitted_record: "submit_entry_order input = Inr r \<Longrightarrow> is_pending r \<and> order_record_ok r \<and>
    order_holding n r = (True, None)"
proof -
  assume r: "submit_entry_order input = Inr r"
  have e: "r_execution r = None" "r_status r = PENDING"
    using r by (auto simp: submit_entry_order_def Let_def bindR_eq_Inr split: if_splits)
  have "released_after_signal r"
    using r by (rule submit_entry_order_window) (simp add: released_after_signal_def)
  then show ?thesis using e
    by (simp add: is_pending_def order_record_ok_def order_holding_def open_holding_def open_part_def)
qed

lemma reserve_event_simps [simp]:
  "ev_action (reserve_event sv r d k) = Reserve (r_orderId r) d k" "ev_id (reserve_event sv r d k) = reserve_id (r_orderId r)"
  "event_order (reserve_event sv r d k) = Some (r_orderId r)" "own_position (reserve_event sv r d k)"
  by (simp_all add: reserve_event_def ledger_event_of_def event_order_def own_position_def reserve_id_def)

text \<open>What the invariant reads.\<close>

lemma books_inv_cong:
  assumes "books_inv db" "db_orders db' = db_orders db" "db_bindings db' = db_bindings db"
    "db_liquidity db' = db_liquidity db" "\<And>a. find_account db' a = find_account db a"
  shows "books_inv db'"
proof -
  have b: "bound_row db' = bound_row db" "account_order db' = account_order db" "quoted_since db' = quoted_since db"
    using assms(2-4) by (simp_all add: fun_eq_iff bound_row_def account_order_def quoted_since_def find_liquidity_def)
  then have "row_ok db' = row_ok db" "event_ok db' = event_ok db" "expected_holding db' = expected_holding db"
    by (intro ext; simp only: row_ok_def event_ok_def expected_holding_def)+
  then have "account_ok db' = account_ok db" using b assms(2) by (simp add: fun_eq_iff account_ok_def)
  then show ?thesis using assms b \<open>row_ok db' = row_ok db\<close> by (simp add: books_inv_def keyed_orders_def)
qed

text \<open>An event whose identity is in the log changes nothing.\<close>

lemma logged_transaction:
  assumes "ev_id e \<in> ev_id ` set (lg_events (full_ledger s))"
    "apply_in_transaction interval age cause s [e] = Inr s'"
  shows "s' = s"
proof -
  have "find_row (ev_id e) (ac_rows s) \<noteq> None" using assms(1) by (auto simp: find_row_None)
  then show ?thesis using assms(2)
    by (auto simp: apply_in_transaction_def apply_row_def bindR_eq_Inr split: option.splits if_splits)
qed

lemma books_retry:
  assumes inv: "books_inv db" and bind: "verify_binding sv db j = Inr ()"
    and w: "w \<in> set (db_orders db)" "ow_runId w = os_runId sv" "ow_orderId w = r_orderId r"
    and tx: "ledger_transaction sv cause db [reserve_event sv r d k] = Inr db'"
  shows "books_inv db'"
  using tx
proof (rule ledger_transactionE)
  fix s s' c
  assume s: "find_account db (os_accountId sv) = Some s" "find_account db' (os_accountId sv) = Some s'"
    "apply_in_transaction checkpoint_event_interval mark_age c s [reserve_event sv r d k] = Inr s'"
    "\<And>a. a \<noteq> os_accountId sv \<Longrightarrow> find_account db' a = find_account db a"
  have "account_ok db (os_accountId sv) s" using inv s(1) by (simp add: books_inv_def)
  then have "reserve_id (r_orderId r) \<in> ev_id ` set (lg_events (full_ledger s))"
    using w verify_binding_bound [OF bind w(2)] unfolding account_ok_def by metis
  then have "s' = s" by (intro logged_transaction [OF _ s(3)]) simp
  then have "find_account db' a = find_account db a" for a using s(1,2,4) by (cases "a = os_accountId sv") auto
  with ledger_transaction_fields [OF tx] show ?thesis by (intro books_inv_cong [OF inv]) auto
qed

lemma books_new_order:
  assumes inv: "books_inv db" and bind: "verify_binding sv db j = Inr ()"
    and r: "submit_entry_order input = Inr r" "find_order db (r_orderId r) = None"
    and ins: "insert_order db (os_runId sv) i r cause = Inr db1"
    and tx: "ledger_transaction sv cause db1 [reserve_event sv r d k] = Inr db'"
  shows "books_inv db'"
proof -
  let ?a = "os_accountId sv" and ?e = "reserve_event sv r d k"
  obtain w where w: "ow_orderId w = r_orderId r" "ow_runId w = os_runId sv" "ow_state w = r"
    and db1: "db1 = db\<lparr>db_orders := db_orders db @ [w]\<rparr>"
    by (rule insert_orderE [OF ins]) (metis order_row.select_convs(1,2,5))
  note same = ledger_transaction_fields [OF tx]
  have rows: "rows_step (os_runId sv) db db' id [w]"
    using same db1 w by (simp add: rows_step_def find_liquidity_def)
  have q: "quoted_since db' = quoted_since db"
    using same db1 by (simp add: fun_eq_iff quoted_since_def find_liquidity_def)
  have b: "bound_row db ?a w" by (rule verify_binding_bound [OF bind w(2)])
  have none: "account_order db ?a (r_orderId r) = None"
    using r(2) by (force simp: account_order_def find_None_iff find_order_None)
  have order: "account_order db' ?a n = (if n = r_orderId r then Some w else account_order db ?a n)" for n
    unfolding account_order_step [OF rows] using w b none by (auto split: option.split)
  note rec = submitted_record [OF r(1), of "ow_instrumentId w"]
  obtain s s' c where s: "find_account db1 ?a = Some s" "find_account db' ?a = Some s'"
    "apply_in_transaction checkpoint_event_interval mark_age c s [?e] = Inr s'"
    "\<And>a. a \<noteq> ?a \<Longrightarrow> find_account db' a = find_account db1 a"
    by (rule ledger_transactionE [OF tx]) blast
  have acc: "find_account db1 a = find_account db a" for a by (simp add: find_account_def db1)
  have ok: "account_ok db ?a s" using inv s(1) acc by (simp add: books_inv_def)
  have new: "?e \<notin> set (lg_events (full_ledger s))"
  proof
    assume "?e \<in> set (lg_events (full_ledger s))"
    then have "event_ok db ?a ?e" using ok unfolding account_ok_def by blast
    then show False using none by (simp add: event_ok_def)
  qed
  show ?thesis
  proof (rule books_step [OF inv verify_binding_bound [OF bind] rows _ _ s(2) _ s(3)])
    show "keyed_orders db'" using inv same db1 w r(2) by (auto simp: books_inv_def keyed_orders_def find_order_None)
    show "row_ok db' x" if x: "x \<in> set (db_orders db')" "ow_runId x = os_runId sv" for x
    proof (cases "x = w")
      case True
      then show ?thesis using rec w(3) by (simp add: row_ok_def open_part_def is_pending_def)
    next
      case False
      then have "row_ok db x" using x inv same db1 verify_binding_bound [OF bind x(2)] by (auto simp: books_inv_def)
      then show ?thesis by (simp add: row_ok_def q)
    qed
    show "\<forall>e \<in> set [?e]. event_ok db' ?a e" using order by (simp add: event_ok_def)
    show "events_of n [?e] = [] \<and> expected_holding db' ?a n = expected_holding db ?a n \<or>
      (\<exists>e. events_of n [?e] = [e] \<and> e \<notin> set (lg_events (full_ledger s)) \<and>
        (accepted (ev_action e) (expected_holding db ?a n) \<longrightarrow>
          effect (ev_action e) (expected_holding db ?a n) = expected_holding db' ?a n))" for n
      using new rec w(3) none order by (auto simp: expected_holding_def row_holding_def)
  qed (use s(1,4) acc w(1) in \<open>auto simp: row_progress_def q\<close>)
qed

lemma books_submit:
  assumes inv: "books_inv db" and submit: "submit_order sv db i input debit risk cause = Inr (db', r)"
  shows "books_inv db'"
  using submit
proof (cases rule: submit_orderE)
  case (new initial db1)
  from new(6) show ?thesis
    by (rule reserveE) (rule books_new_order [OF inv new(2,1,3,4)])
next
  case (retried initial w)
  have w: "w \<in> set (db_orders db)" "ow_orderId w = r_orderId initial"
    using retried(3) by (auto simp: find_order_def find_Some_iff)
  from retried(7) show ?thesis
    by (rule reserveE) (rule books_retry [OF inv retried(2) w(1) retried(4) w(2)])
qed

section \<open>What happens elsewhere\<close>

text \<open>Changes that leave the orders, the accounts and the owners of the runs as they are.\<close>

definition unrelated :: "database \<Rightarrow> database \<Rightarrow> bool" where
  "unrelated db db' \<longleftrightarrow> db_orders db' = db_orders db \<and> db_liquidity db' = db_liquidity db \<and>
     db_accounts db' = db_accounts db \<and>
     map (\<lambda>b. (bd_runId b, bd_accountId b)) (db_bindings db') = map (\<lambda>b. (bd_runId b, bd_accountId b)) (db_bindings db)"

lemma books_unrelated:
  assumes "books_inv db" "unrelated db db'"
  shows "books_inv db'"
proof -
  have m: "map (\<lambda>b. (bd_runId b, bd_accountId b)) (db_bindings db') = map (\<lambda>b. (bd_runId b, bd_accountId b)) (db_bindings db)"
    using assms(2) by (simp add: unrelated_def)
  have rows: "rows_step r db db' id []" for r
    using assms(2) by (simp add: rows_step_def find_liquidity_def unrelated_def)
  note b = rows_step_bound(1) [OF rows]
  have o: "account_order db' = account_order db" "quoted_since db' = quoted_since db"
    using b assms(2) by (simp_all add: fun_eq_iff account_order_def quoted_since_def find_liquidity_def unrelated_def)
  have same: "row_ok db' = row_ok db" "event_ok db' = event_ok db" "expected_holding db' = expected_holding db"
    using o by (intro ext; simp only: row_ok_def event_ok_def expected_holding_def)+
  have acc: "find_account db' = find_account db" using assms(2) by (simp add: fun_eq_iff find_account_def unrelated_def)
  have "map fst (map (\<lambda>b. (bd_runId b, bd_accountId b)) (db_bindings db')) =
      map fst (map (\<lambda>b. (bd_runId b, bd_accountId b)) (db_bindings db))" using m by simp
  then have "map bd_runId (db_bindings db') = map bd_runId (db_bindings db)" by (simp add: comp_def)
  then show ?thesis
    using assms b same acc by (simp add: books_inv_def keyed_orders_def account_ok_def unrelated_def)
qed

section \<open>Binding a run\<close>

text \<open>A run without orders may be bound: no order moves from one account to another.\<close>

lemma books_new_binding:
  assumes inv: "books_inv db" and new: "\<forall>b \<in> set (db_bindings db). bd_runId x \<noteq> bd_runId b"
    and free: "\<forall>w \<in> set (db_orders db). ow_runId w \<noteq> bd_runId x"
  shows "books_inv (db\<lparr>db_bindings := db_bindings db @ [x]\<rparr>)"
proof -
  let ?db = "db\<lparr>db_bindings := db_bindings db @ [x]\<rparr>"
  have b: "bound_row ?db a w = bound_row db a w" if "w \<in> set (db_orders db)" for a w
    using free that by (auto simp: bound_row_def)
  have o: "account_order ?db = account_order db"
    by (intro ext, unfold account_order_def) (auto intro!: find_cong simp: b)
  have q: "quoted_since ?db = quoted_since db"
    by (simp add: fun_eq_iff quoted_since_def find_liquidity_def)
  have same: "row_ok ?db = row_ok db" "event_ok ?db = event_ok db" "expected_holding ?db = expected_holding db"
    using o q by (intro ext; simp only: row_ok_def event_ok_def expected_holding_def)+
  have acc: "find_account ?db = find_account db" by (simp add: fun_eq_iff find_account_def)
  have "account_ok ?db a s = account_ok db a s" for a s using same b by (simp add: account_ok_def)
  then show ?thesis using inv new b same acc by (simp add: books_inv_def keyed_orders_def image_iff)
qed

lemma unrelated_set_clock: "unrelated db (set_clock r f db)"
  by (simp add: unrelated_def set_clock_def comp_def if_distrib cong: if_cong)

text \<open>An event about no order.\<close>

lemma books_neutral:
  assumes inv: "books_inv db" and bind: "verify_binding sv db None = Inr ()"
    and tx: "ledger_transaction sv cause db [e] = Inr db'" and e: "event_order e = None" "own_position e"
    and action: "case ev_action e of Session s \<Rightarrow> True | Mark n b \<Rightarrow> True | _ \<Rightarrow> False"
  shows "books_inv db'"
proof (rule books_updates [OF inv bind tx refl _ refl, where rs = "[]"])
  note same = ledger_transaction_fields [OF tx]
  show "db_orders db' = map (updated_row c t []) (db_orders db)" for c t using same by (simp add: updated_row_def [abs_def])
  show "\<forall>e \<in> set [e]. event_ok db' (os_accountId sv) e"
    using e action by (auto simp: event_ok_def split: ledger_action.splits)
qed (use ledger_transaction_fields [OF tx] e in \<open>simp_all add: quoted_since_def find_liquidity_def\<close>)

lemma session_rolloverE:
  assumes "session_rollover sv db state name t = Inr db'"
  obtains at' db1 f where "db' = set_clock (os_runId sv) f db1" "db1 = db \<or> ledger_transaction sv None db
      [ledger_event_of sv (''session:'' @ os_accountId sv @ '':'' @ name) at' (Session name)] = Inr db1"
  using assms by (cases "lg_session state = name") (auto simp: session_rollover_def bindR_eq_Inr split: if_splits)

lemma books_bind:
  assumes inv: "books_inv db" and bind: "bind_run sv db policy session = Inr db'"
  shows "books_inv db'"
proof -
  obtain canonical run account where c: "normalize_funded_policy policy = Inr canonical"
    "find_run db (os_runId sv) = Some run" "find_account db (os_accountId sv) = Some account"
    using bind by (auto simp: bind_run_def bindR_eq_Inr split: option.splits if_splits)
  show ?thesis
  proof (cases "find_binding db (os_runId sv)")
    case (Some b)
    then have "db' = db" using bind c by (auto simp: bind_run_def bindR_eq_Inr split: if_splits)
    then show ?thesis using inv by simp
  next
    case None
    let ?x = "\<lparr>bd_runId = os_runId sv, bd_accountId = os_accountId sv, bd_currency = os_currency sv,
      bd_policy = Some canonical, bd_clockAt = None, bd_inflight = None\<rparr>"
    let ?db = "db\<lparr>db_bindings := db_bindings db @ [?x]\<rparr>"
    have free: "\<forall>w \<in> set (db_orders db). ow_runId w \<noteq> os_runId sv"
      using bind c None by (auto simp: bind_run_def bindR_eq_Inr split: if_splits)
    have inv': "books_inv ?db"
      using None free by (intro books_new_binding [OF inv]) (auto simp: find_binding_def find_None_iff)
    have bound: "verify_binding sv ?db None = Inr ()" by (simp add: verify_binding_def)
    show ?thesis
    proof (cases session)
      case None': None
      then have "db' = ?db" using bind c None by (auto simp: bind_run_def bindR_eq_Inr Let_def split: if_splits)
      then show ?thesis using inv' by simp
    next
      case (Some p)
      obtain name t where p: "session = Some (name, t)" using Some by (cases p) auto
      then have roll: "session_rollover sv ?db (ac_state account) name t = Inr db'"
        using bind c None by (auto simp: bind_run_def bindR_eq_Inr Let_def split: if_splits)
      from roll show ?thesis
      proof (rule session_rolloverE)
        fix at' db1 f
        assume db': "db' = set_clock (os_runId sv) f db1" and "db1 = ?db \<or> ledger_transaction sv None ?db
          [ledger_event_of sv (''session:'' @ os_accountId sv @ '':'' @ name) at' (Session name)] = Inr db1"
        then have "books_inv db1"
          using inv' by (auto simp: ledger_event_of_def event_order_def own_position_def intro: books_neutral [OF inv' bound])
        then show ?thesis unfolding db' by (rule books_unrelated [OF _ unrelated_set_clock])
      qed
    qed
  qed
qed

section \<open>Inbox and accounts\<close>

lemma unrelated_trans: "unrelated db db1 \<Longrightarrow> unrelated db1 db2 \<Longrightarrow> unrelated db db2"
  by (simp add: unrelated_def)

lemma unrelated_facts [simp]: "unrelated db (db\<lparr>db_facts := fs\<rparr>)"
  by (simp add: unrelated_def)

lemma unrelated_set_outcome: "unrelated db (set_outcome r i st db)"
  by (simp add: set_outcome_def)

lemma unrelated_insert: "insert_fact db f = Inr db' \<Longrightarrow> unrelated db db'"
  by (auto simp: insert_fact_def split: if_splits)

lemma unrelated_inflight: "unrelated db (set_inflight r p c db)"
  by (simp add: unrelated_def set_inflight_def comp_def if_distrib cong: if_cong)

text \<open>An account is opened, or its snapshot compacted.\<close>

definition put_account :: "string \<Rightarrow> account_store \<Rightarrow> database \<Rightarrow> database" where
  "put_account a s db = db\<lparr>db_accounts := AList.update a s (db_accounts db)\<rparr>"

lemma books_put_account:
  assumes inv: "books_inv db" and ok: "account_ok db a s"
  shows "books_inv (put_account a s db)"
proof -
  let ?db = "put_account a s db"
  have acc: "find_account ?db a' = (if a' = a then Some s else find_account db a')" for a'
    by (simp add: find_account_def put_account_def update_conv)
  have b: "bound_row ?db = bound_row db" "account_order ?db = account_order db" "quoted_since ?db = quoted_since db"
    by (simp_all add: fun_eq_iff bound_row_def account_order_def quoted_since_def find_liquidity_def put_account_def)
  then have same: "row_ok ?db = row_ok db" "event_ok ?db = event_ok db" "expected_holding ?db = expected_holding db"
    by (intro ext; simp only: row_ok_def event_ok_def expected_holding_def)+
  have orders: "db_orders ?db = db_orders db" "db_bindings ?db = db_bindings db" by (simp_all add: put_account_def)
  have "account_ok ?db a' t = account_ok db a' t" for a' t using same b orders by (simp add: account_ok_def)
  then have "account_ok ?db a' t" if "find_account ?db a' = Some t" for a' t
    using that inv ok acc by (cases "a' = a") (auto simp: books_inv_def)
  then show ?thesis using inv b same acc orders by (auto simp: books_inv_def keyed_orders_def)
qed

lemma books_open_account:
  assumes inv: "books_inv db" and free: "find_account db a = None"
    and s: "create_account (create_funded_ledger cur cash session instant limit) = Inr s"
  shows "books_inv (put_account a s db)"
proof (rule books_put_account [OF inv])
  have unbound: "\<not> bound_row db a w" if "w \<in> set (db_orders db)" for w
    using inv that free unfolding books_inv_def by blast
  then have none: "account_order db a i = None" for i by (auto simp: account_order_def find_None_iff)
  have "store_ok s" using created_history [OF s] by (simp add: store_history_def)
  moreover have "full_ledger s = ac_state s" "lg_events (ac_state s) = []" "lg_reservations (ac_state s) = []"
      "lg_positions (ac_state s) = []"
    using s by (auto simp: create_account_def create_funded_ledger_def result_simps full_ledger_def split: if_splits)
  ultimately show "account_ok db a s"
    using none unbound by (simp add: account_ok_def expected_holding_def holding_def)
qed

lemma books_compact:
  assumes inv: "books_inv db" and s: "find_account db a = Some s" "compact n s = Inr s'"
  shows "books_inv (put_account a s' db)"
proof (rule books_put_account [OF inv])
  have same: "full_ledger s' = full_ledger s" using s(2) by (auto simp: compact_def full_ledger_def split: if_splits)
  have ok: "account_ok db a s" using inv s(1) by (simp add: books_inv_def)
  have "store_ok s'"
    using ok s(2) cached_trim [of "ac_state s" "full_ledger s" "nat n"] same
    by (auto simp: account_ok_def store_ok_def compact_def split: if_splits)
  with ok same show "account_ok db a s'" by (simp add: account_ok_def)
qed

text \<open>The reconciliation of a late suppression is a cancellation; all else is about facts.\<close>

lemma books_reconcile_order:
  assumes inv: "books_inv db" and w: "w \<in> set (db_orders db)" "ow_runId w = runId" "r_status (ow_state w) = PENDING"
    and run: "reconcile_order db runId factId clock (ow_state w) = Inr db'"
  shows "books_inv db'"
proof -
  obtain b t db1 cancelled where b: "find_binding db runId = Some b"
    and cancelled: "cancel_entry_order (ow_state w) t SIGNAL_INVALIDATED = Inr cancelled"
    and tx: "ledger_transaction \<lparr>os_runId = runId, os_accountId = bd_accountId b, os_currency = bd_currency b\<rparr>
        (Some factId) db [release_event \<lparr>os_runId = runId, os_accountId = bd_accountId b, os_currency = bd_currency b\<rparr>
        (r_orderId (ow_state w)) t] = Inr db1"
    and db': "db' = update_order (Some factId) t db1 cancelled"
    using run by (auto simp: reconcile_order_def bindR_eq_Inr Let_def split: option.splits)
  let ?sv = "\<lparr>os_runId = runId, os_accountId = bd_accountId b, os_currency = bd_currency b\<rparr>"
  have "b \<in> set (db_bindings db)" "bd_runId b = runId" using b by (auto simp: find_binding_def find_Some_iff)
  then have bind: "verify_binding ?sv db None = Inr ()" by (auto simp: verify_binding_def)
  have id: "r_orderId (ow_state w) = ow_orderId w" using inv w(1) by (simp add: books_inv_def keyed_orders_def)
  have shape: "cancelled = (ow_state w)\<lparr>r_status := CANCELLED, r_reason := Some (CancelReason SIGNAL_INVALIDATED)\<rparr>"
    using cancel_shape [OF cancelled] w(3) by simp
  show ?thesis unfolding db' shape
    using w tx by (intro books_withdraw [OF inv w(1) _ _ bind]) (simp_all add: is_pending_def id)
qed

lemma books_admit:
  assumes inv: "books_inv db" and a: "admit_fact runId binding f row db = Inr (db', stored)"
  shows "books_inv db'"
proof -
  have plain: "books_inv db2" if "insert_fact db1 x = Inr db2" "unrelated db db1" for db1 x db2
    using books_unrelated [OF inv unrelated_trans [OF that(2) unrelated_insert [OF that(1)]]] .
  show ?thesis
  proof (cases "\<exists>w db1 i t reason pre. f = Cancel i t reason pre \<and>
      find (\<lambda>w. ow_runId w = runId \<and> ow_orderId w = i) (db_orders db) = Some w \<and> r_status (ow_state w) = PENDING \<and>
      reconcile db runId (Option.bind binding bd_clockAt) row t reason (ow_state w) = Inr db'")
    case True
    then obtain w i t reason where w: "find (\<lambda>w. ow_runId w = runId \<and> ow_orderId w = i) (db_orders db) = Some w"
      "r_status (ow_state w) = PENDING"
      and r: "reconcile db runId (Option.bind binding bd_clockAt) row t reason (ow_state w) = Inr db'" by blast
    obtain db1 db2 where d: "insert_fact db (row\<lparr>fr_outcome := None\<rparr>) = Inr db1"
      "reconcile_order db1 runId (fr_factId row) (Option.bind binding bd_clockAt) (ow_state w) = Inr db2"
      "db' = set_outcome runId (fr_factId row) ''APPLIED'' db2"
      using r by (auto simp: reconcile_def bindR_eq_Inr split: if_splits)
    have "w \<in> set (db_orders db1)" "ow_runId w = runId"
      using w(1) unrelated_insert [OF d(1)] by (auto simp: find_Some_iff unrelated_def)
    from books_reconcile_order [OF plain [OF d(1)] this w(2) d(2)] have "books_inv db2" by (simp add: unrelated_def)
    then show ?thesis unfolding d(3) by (rule books_unrelated [OF _ unrelated_set_outcome])
  next
    case False
    then obtain db1 x where "insert_fact db1 x = Inr db'" "db1 = db \<or> (\<exists>i st. db1 = set_outcome runId i st db)"
      using a by (auto simp: admit_fact_def Let_def bindR_eq_Inr split: session_fact.splits option.splits if_splits)
    then show ?thesis using plain unrelated_set_outcome by (fastforce simp: unrelated_def)
  qed
qed

lemma fact_timeE:
  assumes "fact_time f = Inr t" "to_iso_string t = Inr instant"
  obtains k where "t = num k" "\<bar>k\<bar> \<le> max_time" "date_parse (fact_instant f) = num k" "int_of_time instant = k"
proof -
  have t: "t = date_parse (fact_instant f)" "is_finite (date_parse (fact_instant f))"
    using assms(1) by (auto simp: fact_time_def Let_def split: if_splits)
  obtain k where k: "date_parse (fact_instant f) = num k" "\<bar>k\<bar> \<le> max_time" using t(2) by (rule date_parse_finite)
  have "date_parse instant = num k" using assms(2) t(1) k(1) by (intro to_iso_string_parse) simp
  with k t(1) show ?thesis by (intro that [of k]) (simp_all add: int_of_time_def)
qed

text \<open>A fact of the batch is known already, or a row for it is admitted.\<close>

lemma enqueue_factE:
  assumes "enqueue_fact runId binding sortKeys s e = Inr s'"
  obtains (known) "s' = s"
  | (admitted) row stored where "fr_runId row = runId" "fr_factId row = en_id e" "fr_fact row = en_fact e"
      "fr_outcome row = None" "\<bar>fr_factAt row\<bar> \<le> max_time" "fr_priority row = fact_priority (en_fact e)"
      "date_parse (fact_instant (en_fact e)) = num (fr_factAt row)"
      "sortKeys = (\<lambda>_. None) \<Longrightarrow> fr_sortKey row = fact_key (en_fact e)"
      "admit_fact runId binding (en_fact e) row (ib_db s) = Inr (ib_db s', stored)"
proof -
  obtain t instant where t: "fact_time (en_fact e) = Inr t" "to_iso_string t = Inr instant"
    using assms by (auto simp: enqueue_fact_def Let_def bindR_eq_Inr split: if_splits)
  obtain k where k: "t = num k" "\<bar>k\<bar> \<le> max_time" "date_parse (fact_instant (en_fact e)) = num k" "int_of_time instant = k"
    by (rule fact_timeE [OF t])
  define comparison where "comparison = (case en_fact e of Signal i order debit risk \<Rightarrow> sortKeys (si_orderId order) | _ \<Rightarrow> None)"
  have none: "sortKeys = (\<lambda>_. None) \<Longrightarrow> comparison = None" by (simp add: comparison_def split: session_fact.split)
  from assms have "s' = s \<or> (\<exists>key stored. admit_fact runId binding (en_fact e) \<lparr>fr_runId = runId, fr_factId = en_id e,
      fr_factAt = k, fr_priority = fact_priority (en_fact e), fr_sortKey = coalesce comparison (fact_key (en_fact e)),
      fr_economicKey = key, fr_fact = en_fact e, fr_outcome = None\<rparr> (ib_db s) = Inr (ib_db s', stored))"
    unfolding enqueue_fact_def Let_def t bindR_Inr k(4) comparison_def [symmetric]
    by (auto simp: bindR_eq_Inr split: if_splits option.splits)
  then show ?thesis
  proof (elim disjE exE)
    fix key stored
    assume a: "admit_fact runId binding (en_fact e) \<lparr>fr_runId = runId, fr_factId = en_id e,
      fr_factAt = k, fr_priority = fact_priority (en_fact e), fr_sortKey = coalesce comparison (fact_key (en_fact e)),
      fr_economicKey = key, fr_fact = en_fact e, fr_outcome = None\<rparr> (ib_db s) = Inr (ib_db s', stored)"
    show ?thesis by (rule admitted [OF _ _ _ _ _ _ _ _ a]) (use k none in \<open>simp_all add: coalesce_def\<close>)
  qed (rule known)
qed

lemma enqueue_run:
  assumes "enqueue z runId lockFree sortKeys facts db = Inr db'"
  obtains s s' where "runR (enqueue_fact runId (find_binding db runId) sortKeys) s facts = Inr s'"
    "ib_db s = db" "ib_db s' = db'"
proof -
  from assms obtain byId byKey s' where
    "runR (enqueue_fact runId (find_binding db runId) sortKeys) \<lparr>ib_db = db, ib_byId = byId, ib_byKey = byKey\<rparr> facts = Inr s'"
    "db' = ib_db s'" by (auto simp: enqueue_def Let_def bindR_eq_Inr split: if_splits)
  then show ?thesis by (intro that [of "\<lparr>ib_db = db, ib_byId = byId, ib_byKey = byKey\<rparr>" s']) simp_all
qed

text \<open>An invariant of the facts of a batch.\<close>

lemma enqueue_invariant:
  assumes "enqueue z runId lockFree sortKeys facts db = Inr db'" "P db"
    and step: "\<And>e s s'. P (ib_db s) \<Longrightarrow> enqueue_fact runId (find_binding db runId) sortKeys s e = Inr s' \<Longrightarrow> P (ib_db s')"
  shows "P db'"
proof -
  obtain s s' where s: "runR (enqueue_fact runId (find_binding db runId) sortKeys) s facts = Inr s'"
    "ib_db s = db" "ib_db s' = db'" by (rule enqueue_run [OF assms(1)])
  have "runR (enqueue_fact runId (find_binding db runId) sortKeys) t facts = Inr s' \<Longrightarrow> P (ib_db t) \<Longrightarrow> P (ib_db s')" for t
    by (induction facts arbitrary: t) (auto simp: bindR_eq_Inr dest: step)
  from this [OF s(1)] show ?thesis using s(2,3) assms(2) by simp
qed

lemma books_enqueue: "books_inv db \<Longrightarrow> enqueue z runId lockFree sortKeys facts db = Inr db' \<Longrightarrow> books_inv db'"
  by (erule enqueue_invariant [rotated]) (auto elim!: enqueue_factE intro: books_admit)

section \<open>Every database reached\<close>

text \<open>
  The steps: an operation of the service of any run (the cancellations a vetoed quote makes are
  steps of their own), a batch put in the inbox, an account opened or compacted, and any change
  elsewhere: runs, instruments, facts, clocks and claims, and the orders in which the database
  returns rows.
\<close>

inductive service_step :: "database \<Rightarrow> database \<Rightarrow> bool" where
  bound: "bind_run sv db policy session = Inr db' \<Longrightarrow> service_step db db'"
| submitted: "submit_order sv db i input debit risk cause = Inr (db', r) \<Longrightarrow> service_step db db'"
| withdrawn: "cancel_order sv db orderId t reason pre cause = Inr (db', c) \<Longrightarrow> service_step db db'"
| ticked: "advance_clock sv db t cause = Inr db' \<Longrightarrow> service_step db db'"
| quoted: "quote_attempt sv db i quote participation impactBps cause = Inr (db', x) \<Longrightarrow> service_step db db'"
| enqueued: "enqueue z runId lockFree sortKeys facts db = Inr db' \<Longrightarrow> service_step db db'"
| opened: "find_account db a = None \<Longrightarrow>
    create_account (create_funded_ledger cur cash session instant limit) = Inr s \<Longrightarrow>
    service_step db (put_account a s db)"
| compacted: "find_account db a = Some s \<Longrightarrow> compact n s = Inr s' \<Longrightarrow> service_step db (put_account a s' db)"
| elsewhere: "unrelated db db' \<Longrightarrow> service_step db db'"

text \<open>A database without accounts, bindings, orders or liquidity to begin with.\<close>

definition fresh_database :: "database \<Rightarrow> bool" where
  "fresh_database db \<longleftrightarrow> db_accounts db = [] \<and> db_bindings db = [] \<and> db_orders db = [] \<and> db_liquidity db = []"

inductive service_reachable :: "database \<Rightarrow> bool" where
  reach_fresh: "fresh_database db \<Longrightarrow> service_reachable db"
| reach_next: "service_reachable db \<Longrightarrow> service_step db db' \<Longrightarrow> service_reachable db'"

lemma books_fresh: "fresh_database db \<Longrightarrow> books_inv db"
  by (simp add: fresh_database_def books_inv_def keyed_orders_def find_account_def)

lemma books_service_step: "service_step db db' \<Longrightarrow> books_inv db \<Longrightarrow> books_inv db'"
  by (induction rule: service_step.induct)
    (auto intro: books_bind books_submit books_cancel books_clock books_attempt books_enqueue books_open_account
      books_compact books_unrelated)

lemma books_reachable: "service_reachable db \<Longrightarrow> books_inv db"
  by (induction rule: service_reachable.induct) (auto intro: books_fresh books_service_step)

text \<open>The driver and the drain are made of these steps.\<close>

lemma reachable_quote: "service_reachable db \<Longrightarrow> quote_orders sv db i quote p b cause = Some y \<Longrightarrow> service_reachable (fst y)"
  by (erule quote_orders_invariant) (blast intro: reach_next quoted withdrawn)+

lemma reachable_deliver:
  assumes "service_reachable db" "deliver sv db sm input = Some y"
  shows "service_reachable (fst y)"
proof (cases "fi_fact input")
  case (Clock t)
  with assms show ?thesis by (cases "advance_clock sv db t (fi_factId input)")
      (auto simp: deliver_def deliver_clock_def intro: reach_next [OF assms(1) ticked])
next
  case (Signal i order debit risk)
  with assms show ?thesis by (cases "submit_order sv db i order debit risk (fi_factId input)")
      (auto simp: deliver_def deliver_signal_def intro: reach_next [OF assms(1) submitted] split: js_error.splits)
next
  case (Quoted i quote p b)
  with assms obtain z where z: "quote_orders sv db i quote p b (fi_factId input) = Some z" "fst y = fst z"
    by (auto simp: deliver_def deliver_quote_def)
  from reachable_quote [OF assms(1) z(1)] z(2) show ?thesis by simp
next
  case (Cancel i t reason pre)
  with assms show ?thesis by (cases "cancel_order sv db i t reason pre (fi_factId input)")
      (auto simp: deliver_def deliver_cancel_def intro: reach_next [OF assms(1) withdrawn] split: cancellation.splits)
qed

lemma reachable_deliver_all: "service_reachable db \<Longrightarrow> deliver_all sv db sm inputs = Some y \<Longrightarrow> service_reachable (fst y)"
proof (induction inputs arbitrary: db sm)
  case (Cons input inputs)
  from Cons.prems(2) obtain db1 r where d: "deliver sv db sm input = Some (db1, r)"
    by (auto split: option.splits)
  have "service_reachable db1" using reachable_deliver [OF Cons.prems(1) d] by simp
  then show ?case using Cons.IH Cons.prems(2) d by (cases r) auto
qed auto

lemma reachable_driver: "service_reachable db \<Longrightarrow> process_session_facts sv db inputs = Some y \<Longrightarrow> service_reachable (fst y)"
  by (auto simp: process_session_facts_def intro: reachable_deliver_all split: sum.splits)

lemma reachable_elsewhere: "service_reachable db \<Longrightarrow> unrelated db db' \<Longrightarrow> service_reachable db'"
  by (blast intro: reach_next elsewhere)

end
