(* ===== verification/InboxLemmas.thy ===== *)
theory InboxLemmas
  imports OrderInvariant
begin

text \<open>
  Facts about the inbox shared by its properties: the service never touches the inbox, the drain
  comes to an end, a delivered fact is delivered again without effect, and what a batch of new
  facts does to the rows.
\<close>

section \<open>The service leaves the inbox alone\<close>

text \<open>What the inbox keeps in the database: its rows, and the claim of each run.\<close>

definition inbox_view :: "database \<Rightarrow> fact_row list \<times> (string \<times> fact_order option) list" where
  "inbox_view db = (db_facts db, map (\<lambda>b. (bd_runId b, bd_inflight b)) (db_bindings db))"

lemma view_transaction: "ledger_transaction sv cause db es = Inr db' \<Longrightarrow> inbox_view db' = inbox_view db"
  by (auto dest!: ledger_transaction_fields simp: inbox_view_def)

lemma view_simps [simp]:
  "inbox_view (update_order c t db r) = inbox_view db" "inbox_view (put_liquidity db l) = inbox_view db"
  "inbox_view (set_clock r' f db) = inbox_view db" "inbox_view (foldl (update_order c t) db rs) = inbox_view db"
  "inbox_view (db\<lparr>db_orders := ws\<rparr>) = inbox_view db"
proof -
  show *: "inbox_view (update_order c t db r) = inbox_view db" for db r by (simp add: inbox_view_def)
  show "inbox_view (foldl (update_order c t) db rs) = inbox_view db" by (induction rs arbitrary: db) (simp_all add: *)
  show "inbox_view (set_clock r' f db) = inbox_view db"
    by (simp add: inbox_view_def set_clock_def comp_def if_distrib cong: if_cong)
qed (simp_all add: inbox_view_def)

lemma view_cancel: "cancel_order sv db i t reason pre cause = Inr (db', c) \<Longrightarrow> inbox_view db' = inbox_view db"
  by (erule cancel_orderE) (auto elim!: cancel_in_storeE dest!: view_transaction)

lemma facts_cancel: "cancel_order sv db i t reason pre cause = Inr (db', c) \<Longrightarrow> db_facts db' = db_facts db"
  using view_cancel by (fastforce simp: inbox_view_def)

lemma view_clock:
  assumes "advance_clock sv db t cause = Inr db'"
  shows "inbox_view db' = inbox_view db"
proof -
  have run: "inbox_view (fst acc') = inbox_view (fst acc)" if "runR (clock_step sv run t cause) acc states = Inr acc'"
    for run acc states acc'
    using that by (induction states arbitrary: acc) (auto simp: bindR_eq_Inr clock_step_def split: if_splits)
  from assms show ?thesis
    by (rule advance_clockE) (auto dest!: view_transaction run)
qed

lemma view_submit:
  assumes "submit_order sv db i input debit risk cause = Inr (db', r)"
  shows "inbox_view db' = inbox_view db"
proof -
  have "inbox_view db2 = inbox_view db1" if "reserve sv i debit risk cause db1 initial = Inr db2" for db1 db2 initial
    using that by (rule reserveE) (auto dest!: view_transaction)
  with assms show ?thesis by (cases rule: submit_orderE) (auto elim!: insert_orderE)
qed

lemma updates_instruments [simp]: "db_instruments (foldl (update_order c t) db rs) = db_instruments db"
  by (induction rs arbitrary: db) simp_all

lemma view_attempt:
  assumes "quote_attempt sv db i quote p b cause = Inr (db', x)"
  shows "inbox_view db' = inbox_view db"
proof -
  obtain portfolio where
    "store_allocate_quote db (os_runId sv) i quote p b (Some (quote_effects sv i quote cause)) portfolio cause = Inr (db', x)"
    using assms by (rule quote_attemptE)
  then show ?thesis
    by (cases rule: store_allocate_quoteE) (auto elim!: quote_effectsE dest!: view_transaction)
qed

lemma view_quote:
  assumes "quote_orders sv db i quote p b cause = Some y"
  shows "inbox_view (fst y) = inbox_view db"
  by (rule quote_orders_invariant [OF assms, where P = "\<lambda>db'. inbox_view db' = inbox_view db"])
    (auto dest: view_attempt view_cancel)

lemma view_deliver:
  assumes "deliver sv db sm input = Some y"
  shows "inbox_view (fst y) = inbox_view db"
proof (cases "fi_fact input")
  case (Clock t)
  with assms show ?thesis by (cases "advance_clock sv db t (fi_factId input)")
      (auto simp: deliver_def deliver_clock_def dest: view_clock)
next
  case (Signal i order debit risk)
  with assms show ?thesis by (cases "submit_order sv db i order debit risk (fi_factId input)")
      (auto simp: deliver_def deliver_signal_def dest: view_submit split: js_error.splits)
next
  case (Quoted i quote p b)
  with assms show ?thesis by (auto simp: deliver_def deliver_quote_def dest!: view_quote)
next
  case (Cancel i t reason pre)
  with assms show ?thesis by (cases "cancel_order sv db i t reason pre (fi_factId input)")
      (auto simp: deliver_def deliver_cancel_def dest: view_cancel split: cancellation.splits)
qed

lemma process_fact_deliver: "process_fact sv row db = (case timed \<lparr>fi_fact = fr_fact row, fi_factId = Some (fr_factId row)\<rparr> of
    Inl e \<Rightarrow> Some (db, Inl e)
  | Inr t \<Rightarrow> deliver sv db \<lparr>sm_processed = 0, sm_vetoes = [], sm_noOps = []\<rparr> t)"
  by (auto simp: process_fact_def process_session_facts_def js_sort_def split: sum.split option.split)

lemma process_fact_view: "process_fact sv row db = Some y \<Longrightarrow> inbox_view (fst y) = inbox_view db"
  by (auto simp: process_fact_deliver dest: view_deliver split: sum.splits)

lemma process_fact_facts: "process_fact sv row db = Some y \<Longrightarrow> db_facts (fst y) = db_facts db"
  using process_fact_view by (fastforce simp: inbox_view_def)

lemma process_fact_returns: "keyed_orders db \<Longrightarrow> \<exists>y. process_fact sv row db = Some y \<and> keyed_orders (fst y)"
  using deliver_returns by (auto simp: process_fact_deliver split: sum.split)

section \<open>The drain comes to an end\<close>

lemma inflight_fields [simp]:
  "db_facts (set_inflight r p c db) = db_facts db" "db_orders (set_inflight r p c db) = db_orders db"
  "pending_facts i (set_inflight r p c db) = pending_facts i db"
  by (simp_all add: set_inflight_def pending_facts_def)

lemma repair_fields [simp]: "db_facts (repair_claim r db) = db_facts db" "db_orders (repair_claim r db) = db_orders db"
    "pending_facts i (repair_claim r db) = pending_facts i db"
  by (simp_all add: repair_claim_def)

lemma claim_fields: "claim_fact r row db = Inr db' \<Longrightarrow> db_facts db' = db_facts db \<and> db_orders db' = db_orders db"
  by (auto simp: claim_fact_def bindR_eq_Inr Let_def split: if_splits)

lemma next_fact_pending: "next_fact r db = Some row \<Longrightarrow> row \<in> set (pending_facts r db)"
proof -
  assume "next_fact r db = Some row"
  then obtain rest where "js_sort fact_row_cmp (pending_facts r db) = row # rest"
    by (auto simp: next_fact_def split: list.splits)
  then have "row \<in> set (js_sort fact_row_cmp (pending_facts r db))" by (metis list.set_intros(1))
  then show ?thesis by simp
qed

lemma acknowledge_fewer:
  assumes "row \<in> set (pending_facts r db)"
  shows "length (pending_facts r (acknowledge r (fr_factId row) status db)) < length (pending_facts r db)"
proof -
  let ?f = "\<lambda>f. if fr_runId f = r \<and> fr_factId f = fr_factId row \<and> fr_outcome f = None then f\<lparr>fr_outcome := Some status\<rparr> else f"
  have "length (filter (\<lambda>f. fr_runId (?f f) = r \<and> fr_outcome (?f f) = None) (db_facts db)) <
      length (filter (\<lambda>f. fr_runId f = r \<and> fr_outcome f = None) (db_facts db))"
    using assms by (intro filter_fewer [of _ _ row]) (auto simp: pending_facts_def split: if_splits)
  then show ?thesis
    by (simp add: acknowledge_def pending_facts_def set_outcome_def filter_map comp_def)
qed

lemma drain_loop_returns:
  assumes "keyed_orders db"
  shows "\<exists>y. drain_loop sv budget elapsed n db = Some y \<and> keyed_orders (fst y)"
  using assms
proof (induction "length (pending_facts (os_runId sv) db)" arbitrary: db n rule: less_induct)
  case less
  let ?r = "os_runId sv" and ?db = "repair_claim (os_runId sv) db"
  have k: "keyed_orders ?db" using less.prems by (rule keyed_orders_cong) simp
  show ?case
  proof (cases "budget_spent budget elapsed n")
    case True
    then show ?thesis using less.prems by (simp add: drain_loop.simps)
  next
    case False
    note unspent = False
    show ?thesis
    proof (cases "next_fact ?r ?db")
      case None
      then show ?thesis using unspent k by (simp add: drain_loop.simps)
    next
      case (Some row)
      show ?thesis
      proof (cases "claim_fact ?r row ?db")
        case (Inl e)
        then show ?thesis using unspent Some k by (simp add: drain_loop.simps)
      next
        case (Inr claimed)
        have kc: "keyed_orders claimed" using keyed_orders_cong [OF k] claim_fields [OF Inr] by simp
        obtain y where y: "process_fact sv row claimed = Some y" "keyed_orders (fst y)"
          using process_fact_returns [OF kc] by blast
        show ?thesis
        proof (cases y)
          case (Pair db1 res)
          show ?thesis
          proof (cases res)
            case Inl': (Inl e)
            then show ?thesis using unspent Some Inr y Pair by (simp add: drain_loop.simps)
          next
            case Inr': (Inr sm)
            let ?next = "acknowledge ?r (fr_factId row) (outcome_of sm) db1"
            have facts: "db_facts db1 = db_facts db"
              using process_fact_facts [OF y(1)] claim_fields [OF Inr] Pair by simp
            then have pf: "pending_facts ?r db1 = pending_facts ?r db" by (simp add: pending_facts_def)
            have "row \<in> set (pending_facts ?r db1)" using next_fact_pending [OF Some] pf by simp
            then have "length (pending_facts ?r ?next) < length (pending_facts ?r db)"
              using acknowledge_fewer [of row ?r db1 "outcome_of sm"] pf by simp
            moreover have "keyed_orders ?next"
              using y(2) Pair by - (rule keyed_orders_cong [of db1], simp_all add: acknowledge_def set_outcome_def)
            ultimately obtain z where z: "drain_loop sv budget elapsed (n + 1) ?next = Some z" "keyed_orders (fst z)"
              using less.hyps by blast
            have "process_fact sv row claimed = Some (db1, Inr sm)" using y(1) Pair Inr' by simp
            then have "drain_loop sv budget elapsed n db = drain_loop sv budget elapsed (n + 1) ?next"
              by (subst drain_loop.simps) (simp only: unspent Some Inr option.case sum.case prod.case if_False)
            then show ?thesis using z by simp
          qed
        qed
      qed
    qed
  qed
qed

section \<open>A delivered fact is delivered again without effect\<close>

lemma update_present: "map_of al k = Some v \<Longrightarrow> AList.update k v al = al"
  by (induction al) (auto split: if_splits)

lemma ledger_same:
  assumes "cause_of sv cause = Inr c" "find_account db (os_accountId sv) = Some s"
    "apply_in_transaction checkpoint_event_interval mark_age c s es = Inr s"
  shows "ledger_transaction sv cause db es = Inr db"
  using assms by (simp add: ledger_transaction_def find_account_def update_present)

lemma ledger_transactionE':
  assumes "ledger_transaction sv cause db es = Inr db'"
  obtains s s' c where "cause_of sv cause = Inr c" "find_account db (os_accountId sv) = Some s"
    "apply_in_transaction checkpoint_event_interval mark_age c s es = Inr s'"
    "db' = put_account (os_accountId sv) s' db" "find_account db' (os_accountId sv) = Some s'"
  using assms by (auto simp: ledger_transaction_def bindR_eq_Inr find_account_def put_account_def update_conv
      split: option.splits)

lemma verify_binding_cong:
  assumes "\<And>b. b \<in> set (db_bindings db) \<Longrightarrow> \<exists>b' \<in> set (db_bindings db'). bd_runId b' = bd_runId b \<and>
      bd_accountId b' = bd_accountId b \<and> bd_currency b' = bd_currency b"
    "db_instruments db' = db_instruments db" "db_runs db' = db_runs db" "verify_binding sv db i = Inr ()"
  shows "verify_binding sv db' i = Inr ()"
proof -
  have "\<exists>b \<in> set (db_bindings db). bd_runId b = os_runId sv \<and> bd_accountId b = os_accountId sv \<and> bd_currency b = os_currency sv"
    using assms(4) by (auto simp: verify_binding_def split: if_splits)
  then have "\<exists>b \<in> set (db_bindings db'). bd_runId b = os_runId sv \<and> bd_accountId b = os_accountId sv \<and> bd_currency b = os_currency sv"
    using assms(1) by metis
  then show ?thesis using assms(2-4) by (auto simp: verify_binding_def split: if_splits option.splits)
qed

lemma event_logged: "apply_ledger_event l e age = Inr l' \<Longrightarrow> e \<in> set (lg_events l')"
  by (erule apply_ledger_eventE) auto

text \<open>The event and the cause of a committed event are on record.\<close>

lemma recorded_event:
  assumes "store_ok s" "apply_in_transaction interval age c s [e] = Inr s'"
  shows "apply_in_transaction interval age c s' [e] = Inr s'"
proof -
  obtain m where m: "apply_row age c s e = Inr m"
    "s' = (if ac_state m = ac_state s then s else settle_checkpoint interval s (m\<lparr>ac_state := trim_snapshot (ac_rows m) (ac_state m)\<rparr>))"
    using assms(2) by (auto simp: apply_in_transaction_def bindR_eq_Inr split: if_splits)
  have "\<exists>row. find_row (ev_id e) (ac_rows s') = Some row \<and> er_event row = e \<and> er_cause row = c"
  proof (cases "find_row (ev_id e) (ac_rows s)")
    case (Some row)
    then show ?thesis using m by (auto simp: apply_row_def split: if_splits)
  next
    case None
    then have new: "ev_id e \<notin> ev_id ` set (lg_events (full_ledger s))" by (simp add: find_row_None)
    note r = apply_row_refines [OF assms(1), where age = age and cause = c and e = e, unfolded m(1) sum.case]
    have "m \<noteq> s"
    proof
      assume "m = s"
      with r have "apply_ledger_event (full_ledger s) e age = Inr (full_ledger s)" by simp
      then show False using event_logged new by blast
    qed
    with r have rows: "ac_rows m = ac_rows s @ [\<lparr>er_sequence = ac_nextSequence s, er_event = e, er_cause = c, er_verified = True\<rparr>]"
      and "ac_state m \<noteq> ac_state s" by auto
    then have "s' = settle_checkpoint interval s (m\<lparr>ac_state := trim_snapshot (ac_rows m) (ac_state m)\<rparr>)"
      using m(2) by simp
    from settled_fields [OF rows _ this] have "ac_rows s' = ac_rows m" by simp
    then show ?thesis using None rows by (auto simp: find_row_def find_append')
  qed
  then show ?thesis by (auto simp: apply_in_transaction_def apply_row_def)
qed

lemma transaction_again:
  assumes inv: "books_inv db" and tx: "ledger_transaction sv cause db [e] = Inr db1"
    and acc: "find_account db' (os_accountId sv) = find_account db1 (os_accountId sv)"
  shows "ledger_transaction sv cause db' [e] = Inr db'"
  using tx
proof (rule ledger_transactionE')
  fix s s' c
  assume a: "cause_of sv cause = Inr c" "find_account db (os_accountId sv) = Some s"
    "apply_in_transaction checkpoint_event_interval mark_age c s [e] = Inr s'" "find_account db1 (os_accountId sv) = Some s'"
  have "store_ok s" using inv a(2) by (simp add: books_inv_def account_ok_def)
  from ledger_same [OF a(1) _ recorded_event [OF this a(3)]] a(4) acc show ?thesis by simp
qed

text \<open>A submission: the order is there, and its reservation.\<close>

lemma reserved_in_books:
  assumes inv: "books_inv db" and bind: "verify_binding sv db i = Inr ()"
    and w: "w \<in> set (db_orders db)" "ow_runId w = os_runId sv" "is_pending (ow_state w)"
    and s: "find_account db (os_accountId sv) = Some s"
  shows "map_of (lg_reservations (ac_state s)) (ow_orderId w) \<noteq> None"
proof -
  have "account_order db (os_accountId sv) (ow_orderId w) = Some w"
    using inv verify_binding_bound [OF bind w(2)] w(1) by (intro account_order_row) (simp_all add: books_inv_def)
  then have "holding (full_ledger s) (ow_orderId w) = row_holding w"
    using inv s by (simp add: books_inv_def account_ok_def expected_holding_def)
  then show ?thesis using w(3) by (simp add: holding_def row_holding_def order_holding_def full_ledger_def)
qed

lemma submit_again:
  assumes inv: "books_inv db" and submit: "submit_order sv db i input debit risk cause = Inr (db', r)"
  shows "\<exists>r'. submit_order sv db' i input debit risk cause = Inr (db', r')"
proof -
  have inv': "books_inv db'" by (rule books_submit [OF inv submit])
  have currency: "c_currency (cost_snapshot_of (si_assumptions input)) = os_currency sv"
    using submit by (auto simp: submit_order_def bindR_eq_Inr split: if_splits)
  from submit show ?thesis
  proof (cases rule: submit_orderE)
    case (new initial db1)
    obtain w where w: "ow_orderId w = r_orderId initial" "ow_runId w = os_runId sv" "ow_state w = initial"
      "ow_submission w = initial" "ow_instrumentId w = i" and db1: "db1 = db\<lparr>db_orders := db_orders db @ [w]\<rparr>"
      by (rule insert_orderE [OF new(4)]) (metis order_row.select_convs(1-5))
    from new(6) obtain tx: "ledger_transaction sv cause db1 [reserve_event sv initial debit risk] = Inr db'"
      by (rule reserveE) blast
    note same = ledger_transaction_fields [OF tx]
    have bind: "verify_binding sv db' (Some i) = Inr ()"
      using new(2) same db1 by (intro verify_binding_cong [OF _ _ _ new(2)]) auto
    have row: "find_order db' (r_orderId initial) = Some w" "w \<in> set (db_orders db')"
      using new(3) same db1 w(1) by (auto simp: find_order_def find_append')
    obtain s where s: "find_account db' (os_accountId sv) = Some s"
      using tx by (rule ledger_transactionE')
    have pend: "is_pending (ow_state w)" using submitted_record [OF new(1)] w(3) by simp
    have reserved: "map_of (lg_reservations (ac_state s)) (r_orderId initial) \<noteq> None"
      using reserved_in_books [OF inv' bind row(2) w(2) pend s] w(1) by simp
    have "ledger_transaction sv cause db' [reserve_event sv initial debit risk] = Inr db'"
    proof -
      have "books_inv (db1\<lparr>db_orders := db_orders db\<rparr>)" using inv by (simp add: db1)
      moreover have "ledger_transaction sv cause (db1\<lparr>db_orders := db_orders db\<rparr>) [reserve_event sv initial debit risk] =
          Inr (db'\<lparr>db_orders := db_orders db\<rparr>)"
        using tx by (rule ledger_transactionE') (auto simp: ledger_transaction_def find_account_def put_account_def)
      ultimately show ?thesis by (rule transaction_again) (simp add: find_account_def)
    qed
    then have "reserve sv i debit risk cause db' initial = Inr db'"
      using bind s reserved by (simp add: reserve_def Let_def)
    then show ?thesis
      using bind currency new(1) row(1) w by (simp add: submit_order_def store_submit_def require_funded_effects_def run_effects_def)
  next
    case (retried initial w)
    have "w \<in> set (db_orders db)" "ow_orderId w = r_orderId initial"
      using retried(3) by (auto simp: find_order_def find_Some_iff)
    from retried(7) have "db' = db"
    proof (rule reserveE)
      fix s0 assume tx: "ledger_transaction sv cause db [reserve_event sv initial debit risk] = Inr db'"
      then show ?thesis
      proof (rule ledger_transactionE')
        fix s s' c assume a: "find_account db (os_accountId sv) = Some s" "db' = put_account (os_accountId sv) s' db"
          "apply_in_transaction checkpoint_event_interval mark_age c s [reserve_event sv initial debit risk] = Inr s'"
        have "account_ok db (os_accountId sv) s" using inv a(1) by (simp add: books_inv_def)
        then have "reserve_id (r_orderId initial) \<in> ev_id ` set (lg_events (full_ledger s))"
          using \<open>w \<in> set (db_orders db)\<close> \<open>ow_orderId w = r_orderId initial\<close> verify_binding_bound [OF retried(2,4)]
          unfolding account_ok_def by metis
        then have "s' = s" by (intro logged_transaction [OF _ a(3)]) simp
        then show ?thesis using a(1,2) by (simp add: put_account_def find_account_def update_present)
      qed
    qed
    then show ?thesis using submit by blast
  qed
qed

lemma find_unique: "x \<in> set xs \<Longrightarrow> P x \<Longrightarrow> (\<And>y. y \<in> set xs \<Longrightarrow> P y \<Longrightarrow> y = x) \<Longrightarrow> find P xs = Some x"
proof -
  assume x: "x \<in> set xs" "P x" and unique: "\<And>y. y \<in> set xs \<Longrightarrow> P y \<Longrightarrow> y = x"
  then have "find P xs \<noteq> None" by (auto simp: find_None_iff)
  then obtain y where y: "find P xs = Some y" by blast
  then have "y \<in> set xs" "P y" by (auto simp: find_Some_iff)
  from unique [OF this] y show ?thesis by simp
qed

text \<open>A cancellation: a settled order stays as it is.\<close>

lemma cancel_again:
  assumes "keyed_orders db" "cancel_order sv db i t reason pre cause = Inr (db', c)"
  shows "\<exists>c'. cancel_order sv db' i t reason pre cause = Inr (db', c') \<and> (\<forall>n. c' = NoOp n \<longleftrightarrow> c = NoOp n)"
  using assms(2)
proof (cases rule: cancel_orderE)
  case (none n)
  then show ?thesis using assms(2) by blast
next
  case stored
  then show ?thesis
  proof (cases rule: cancel_in_storeE)
    case (settled w)
    then show ?thesis using assms(2) by blast
  next
    case (cancelled w db1)
    let ?after = "(ow_state w)\<lparr>r_status := CANCELLED, r_reason := Some (CancelReason reason)\<rparr>"
    note same = ledger_transaction_fields [OF cancelled(6)]
    have bind0: "verify_binding sv db None = Inr ()" by (rule cancelled(5))
    have bind: "verify_binding sv db' None = Inr ()"
      using same cancelled(8) by (intro verify_binding_cong [OF _ _ _ bind0]) auto
    have id: "r_orderId ?after = i" using assms(1) cancelled(1,2) by (simp add: keyed_orders_def)
    let ?w = "w\<lparr>ow_state := ?after, ow_lastFactAt := t, ow_lastFactId := cause, ow_revision := ow_revision w + 1\<rparr>"
    have member: "?w \<in> set (db_orders db')"
      using cancelled(1,2,8) same id by (auto simp: update_order_def image_iff intro!: bexI [of _ w])
    have unique: "x = ?w" if "x \<in> set (db_orders db')" "ow_orderId x = i" for x
    proof (rule keyed_row_unique [OF _ that(1) member])
      show "keyed_orders db'" using keyed_cancel assms by blast
      show "ow_orderId x = ow_orderId ?w" using that(2) cancelled(2) by simp
    qed
    have row: "find (\<lambda>w. ow_orderId w = i \<and> ow_runId w = os_runId sv) (db_orders db') = Some ?w"
    proof (rule find_unique [OF member])
      show "ow_orderId ?w = i \<and> ow_runId ?w = os_runId sv" using cancelled(2,3) by simp
    qed (rule unique, simp_all)
    have present: "run_has_order sv db' i" "run_has_order sv db i"
      unfolding run_has_order_def using cancelled(2,3) by (intro bexI [OF _ member], simp, intro bexI [OF _ cancelled(1)], simp)
    have facts: "run_facts sv db' = run_facts sv db" using facts_cancel [OF assms(2)] by (simp add: run_facts_def)
    have "cancel_in_store sv db' i t reason cause = Inr (db', Transitioned ?after)"
      using row by (simp add: cancel_in_store_def store_transition_def require_funded_effects_def)
    moreover have "invalidation_proven sv db' i (the pre)" if "coalesce pre [] \<noteq> []"
    proof -
      have "invalidation_proven sv db i (the pre)"
        using assms(2) bind0 that by (simp add: cancel_order_def split: if_splits)
      then show ?thesis using facts by (simp add: invalidation_proven_def)
    qed
    ultimately have "cancel_order sv db' i t reason pre cause = Inr (db', Transitioned ?after)"
      using bind present by (simp add: cancel_order_def)
    then show ?thesis using cancelled(9) by auto
  qed
qed

lemma allocation_terms: "allocate_orders initial orders quote p b closeAt portfolio = Inr (l, after) \<Longrightarrow>
    el_quote l = el_quote initial \<and> el_participation l = el_participation initial \<and> el_impactBps l = el_impactBps initial"
  by (auto simp: allocate_orders_def allocate_entry_liquidity_def bindR_eq_Inr split: if_splits)

text \<open>A quote: the liquidity of the attempt that committed answers for it.\<close>

lemma attempt_again:
  assumes "quote_attempt sv db i quote p b cause = Inr (db', x)"
  shows "\<exists>x'. quote_attempt sv db' i quote p b cause = Inr (db', x')"
  using assms
proof (rule quote_attemptE)
  fix portfolio
  assume bind: "verify_binding sv db (Some i) = Inr ()" and store:
    "store_allocate_quote db (os_runId sv) i quote p b (Some (quote_effects sv i quote cause)) portfolio cause = Inr (db', x)"
  from store show ?thesis
  proof (cases rule: store_allocate_quoteE)
    case (retry previous)
    then show ?thesis using assms by blast
  next
    case (fresh run initial closeAt liquidity after db1)
    let ?row = "\<lparr>lw_runId = os_runId sv, lw_instrumentId = i, lw_state = liquidity, lw_orders = after\<rparr>"
    from fresh(5) obtain es s where tx: "ledger_transaction sv cause db es = Inr db1" by (rule quote_effectsE) blast
    note same = ledger_transaction_fields [OF tx]
    have fields: "db_bindings db' = db_bindings db" "db_instruments db' = db_instruments db" "db_runs db' = db_runs db"
      using same fresh(6) by simp_all
    have bind': "verify_binding sv db' (Some i) = Inr ()"
      using fields by (intro verify_binding_cong [OF _ _ _ bind]) auto
    have policy: "bound_policy sv db' = bound_policy sv db" using fields by (simp add: bound_policy_def find_binding_def)
    have liq: "find_liquidity db' (os_runId sv) i = Some ?row" unfolding fresh(6) by (simp add: find_put_liquidity)
    note init = open_liquidity_fields [OF fresh(2)]
    have l: "el_quote liquidity = quote" "el_participation liquidity = p" "el_impactBps liquidity = b"
      using allocation_terms [OF fresh(4)] init fresh(2) by (auto simp: open_entry_liquidity_def split: if_splits)
    have terms: "valid_liquidity_terms p b" using fresh(2) by (auto simp: open_entry_liquidity_def split: if_splits)
    then have same_terms: "js_eq p p" "js_eq b b" by (auto simp: valid_liquidity_terms_def js_eq_def is_finite_iff)
    have t: "date_parse (q_timestamp quote) \<le> date_parse (q_timestamp quote)"
      "\<not> date_parse (q_timestamp quote) < date_parse (q_timestamp quote)"
      using init unfolding has_time_def by (simp_all add: js_le_refl)
    have run: "find_run db' (os_runId sv) = Some run" using fields fresh(1) by (simp add: find_run_def)
    have again: "store_allocate_quote db' (os_runId sv) i quote p b (Some (quote_effects sv i quote cause)) portfolio' cause =
        Inr (db', liquidity, after)" for portfolio'
      unfolding store_allocate_quote_def fresh(2) run liq require_funded_effects_def Let_def
      using l same_terms t by simp
    show ?thesis
      using assms bind' bind policy again by (auto simp: quote_attempt_def bindR_eq_Inr split: if_splits)
  qed
qed

lemma quote_orders_attempt:
  assumes returned: "quote_orders sv db i quote p b cause = Some y" and result: "snd y = Inr x"
  shows "\<exists>db0. quote_attempt sv db0 i quote p b cause = Inr (fst y, x)"
proof -
  let ?Q = "\<lambda>sv' db i' quote' p' b' cause' y. sv' = sv \<longrightarrow> i' = i \<longrightarrow> quote' = quote \<longrightarrow> p' = p \<longrightarrow> b' = b \<longrightarrow>
     cause' = cause \<longrightarrow> snd y = Inr x \<longrightarrow> (\<exists>db0. quote_attempt sv db0 i quote p b cause = Inr (fst y, x))"
  have "?Q sv db i quote p b cause y"
  proof (rule quote_orders.raw_induct [of ?Q, OF _ returned], intro impI)
    fix rec sv' db i' quote' p' b' cause' y
    assume ih: "\<And>sv' db i' quote' p' b' cause' y. rec sv' db i' quote' p' b' cause' = Some y \<Longrightarrow>
        ?Q sv' db i' quote' p' b' cause' y"
      and body: "(case quote_attempt sv' db i' quote' p' b' cause' of
        Inl e \<Rightarrow> (case e of FundedRiskVeto orderId message code \<Rightarrow>
            (case cancel_order sv' db orderId (q_timestamp quote') RISK_VETO None cause' of
              Inl e' \<Rightarrow> Some (db, Inl e')
            | Inr (db1, c) \<Rightarrow>
              if (case c of Transitioned r \<Rightarrow> r_status r = CANCELLED | NoOp n \<Rightarrow> False)
              then rec sv' db1 i' quote' p' b' cause' else Some (db1, Inl e))
          | _ \<Rightarrow> Some (db, Inl e))
      | Inr (db1, r) \<Rightarrow> Some (db1, Inr r)) = Some y"
      and same: "sv' = sv" "i' = i" "quote' = quote" "p' = p" "b' = b" "cause' = cause" and res: "snd y = Inr x"
    note body = body [unfolded same]
    show "\<exists>db0. quote_attempt sv db0 i quote p b cause = Inr (fst y, x)"
    proof (cases "quote_attempt sv db i quote p b cause")
      case (Inr z)
      then show ?thesis using body res by (cases z) auto
    next
      case (Inl e)
      with body res obtain db1 where "rec sv db1 i quote p b cause = Some y"
        by (auto split: js_error.splits sum.splits prod.splits if_splits)
      from ih [OF this] res show ?thesis by simp
    qed
  qed
  then show ?thesis using result by simp
qed

lemma quote_again:
  assumes "quote_orders sv db i quote p b cause = Some (db', Inr x)"
  shows "\<exists>x'. quote_orders sv db' i quote p b cause = Some (db', Inr x')"
proof -
  obtain db0 where "quote_attempt sv db0 i quote p b cause = Inr (db', x)"
    using quote_orders_attempt [OF assms] by auto
  then obtain x' where "quote_attempt sv db' i quote p b cause = Inr (db', x')" using attempt_again by blast
  then show ?thesis by (simp add: quote_orders.simps)
qed

text \<open>The clock: what it has not changed it does not change the second time.\<close>

lemma close_intent_settled:
  assumes "close_intent run t r = Inr r'" "order_record_ok r" "is_pending r' \<or> (\<exists>x. r_execution r' = Some (QOpen x))"
  shows "r' = r"
  using assms(1)
proof (cases rule: close_intent_cases)
  case (withdrawn reason)
  then show ?thesis using assms(2,3) by (auto simp: order_record_ok_def is_pending_def)
next
  case (closing x)
  then show ?thesis using assms(2,3) by (auto simp: order_record_ok_def is_pending_def split: order_status.splits)
qed

lemma clock_run_same: "\<forall>r \<in> set states. close_intent run t r = Inr r \<Longrightarrow>
    runR (clock_step sv run t cause) acc states = Inr acc"
  by (induction states) (auto simp: clock_step_def)

lemma transaction_last_event:
  assumes "store_ok s" "apply_in_transaction interval age c s es = Inr s'" "\<forall>e \<in> set es. ev_at e = t"
  shows "lg_lastEventAt (ac_state s') = lg_lastEventAt (ac_state s) \<or> lg_lastEventAt (ac_state s') = t"
proof -
  have "lg_lastEventAt l' = lg_lastEventAt l \<or> lg_lastEventAt l' = t"
    if "apply_ledger_events l es age = Inr l'" "\<forall>e \<in> set es. ev_at e = t" for l l' es
    using that unfolding apply_ledger_events_def
  proof (induction es arbitrary: l)
    case (Cons e es)
    then obtain m where m: "apply_ledger_event l e age = Inr m" "runR (\<lambda>l e. apply_ledger_event l e age) m es = Inr l'"
      by (auto simp: bindR_eq_Inr)
    have "lg_lastEventAt m = lg_lastEventAt l \<or> lg_lastEventAt m = ev_at e"
      using m(1) by (rule apply_ledger_eventE) auto
    moreover have "lg_lastEventAt l' = lg_lastEventAt m \<or> lg_lastEventAt l' = t"
      by (rule Cons.IH [OF m(2)]) (use Cons.prems(2) in simp)
    ultimately show ?case using Cons.prems(2) by (metis list.set_intros(1))
  qed simp
  from this [OF conjunct2 [OF transaction_ledger [OF assms(1,2)]] assms(3)] show ?thesis by (simp add: full_ledger_def)
qed

lemma clock_again:
  assumes inv: "books_inv db" and clock: "advance_clock sv db t cause = Inr db'"
  shows "advance_clock sv db' t cause = Inr db'"
  using clock
proof (rule advance_clockE)
  fix run b s0 db1 events db2
  assume fin: "is_finite (date_parse t)" and bind: "verify_binding sv db None = Inr ()"
    and found: "find_run db (os_runId sv) = Some run" "find_binding db (os_runId sv) = Some b"
      "find_account db (os_accountId sv) = Some s0"
    and step: "runR (clock_step sv run t cause) (db, []) (map ow_state (select_orders db (clocked sv))) = Inr (db1, events)"
    and tx: "ledger_transaction sv cause db1 events = Inr db2"
    and db': "db' = set_clock (os_runId sv) (\<lambda>_. Some (int_of_time t)) db2"
  define states where "states = map ow_state (select_orders db (clocked sv))"
  obtain after where after: "list_all2 (\<lambda>r r'. close_intent run t r = Inr r') states after"
    "db1 = foldl (update_order cause t) db (changed_orders states after)"
    "events = map (\<lambda>(r, r'). release_event sv (r_orderId r) t) (filter (\<lambda>(r, r'). r' \<noteq> r \<and> is_pending r) (zip states after))"
    using clock_run [OF step] states_def by auto
  let ?rs = "changed_orders states after"
  note same = ledger_transaction_fields [OF tx]
  have keyed: "keyed_orders db" using inv by (simp add: books_inv_def)
  have distR: "distinct (map r_orderId ?rs)"
    unfolding states_def select_orders_def
    using sorted_rows_distinct [OF keyed keyed_distinct [OF keyed]] closing_ids [OF after(1)]
    by (intro changed_orders_distinct) (simp_all add: states_def select_orders_def)
  have rest: "db_runs db' = db_runs db" "db_instruments db' = db_instruments db"
    using same db' after(2) by simp_all
  let ?f = "\<lambda>b. if bd_runId b = os_runId sv then b\<lparr>bd_clockAt := Some (int_of_time t)\<rparr> else b"
  have bindings: "db_bindings db' = map ?f (db_bindings db)"
    using same db' after(2) by (simp add: set_clock_def)
  have bind': "verify_binding sv db' None = Inr ()"
  proof (rule verify_binding_cong [OF _ rest(2,1) bind])
    fix x assume "x \<in> set (db_bindings db)"
    then have "?f x \<in> set (db_bindings db')" unfolding bindings by simp
    then show "\<exists>b' \<in> set (db_bindings db'). bd_runId b' = bd_runId x \<and> bd_accountId b' = bd_accountId x \<and> bd_currency b' = bd_currency x"
      by (rule rev_bexI) simp
  qed
  have still: "close_intent run t r = Inr r" if "r \<in> set (map ow_state (select_orders db' (clocked sv)))" for r
  proof -
    from that obtain w where w: "w \<in> set (db_orders db')" "clocked sv w" "r = ow_state w" by (auto simp: select_orders_def)
    have "db_orders db' = map (updated_row cause t ?rs) (db_orders db)"
      using same db' after(2) by (simp add: updates_orders)
    then obtain w0 where w0: "w0 \<in> set (db_orders db)" "w = updated_row cause t ?rs w0" using w(1) by auto
    have run0: "ow_runId w0 = os_runId sv" using w(2) w0(2) by (simp add: clocked_def)
    have open': "is_pending r \<or> (\<exists>x. r_execution r = Some (QOpen x))"
      using w(2,3) by (auto simp: clocked_def split: option.splits quote_execution_state.splits)
    show ?thesis
    proof (cases "\<exists>r' \<in> set ?rs. r_orderId r' = ow_orderId w0")
      case True
      then obtain r' where r': "r' \<in> set ?rs" "r_orderId r' = ow_orderId w0" by blast
      obtain r0 where r0: "r' \<noteq> r0" "r0 \<in> set states" "r_orderId r' = r_orderId r0" "close_intent run t r0 = Inr r'"
        by (rule closing_pair [OF after(1) r'(1)])
      obtain w1 where w1: "w1 \<in> set (db_orders db)" "ow_state w1 = r0"
        using r0(2) by (auto simp: states_def select_orders_def)
      have "r_orderId (ow_state w1) = ow_orderId w1" using keyed w1(1) unfolding keyed_orders_def by blast
      then have "w1 = w0" using w1(2) r0(3) r'(2) by (intro keyed_row_unique [OF keyed w1(1) w0(1)]) simp
      moreover have "row_ok db w0" using inv w0(1) verify_binding_bound [OF bind run0] unfolding books_inv_def by blast
      ultimately have "order_record_ok r0" using w1(2) by (simp add: row_ok_def)
      moreover have "r = r'" using updated_row_state [OF distR r'] w(3) w0(2) by simp
      ultimately show ?thesis using close_intent_settled [OF r0(4)] open' r0(1) by blast
    next
      case False
      then have same_row: "w = w0" using w0(2) updated_row_same by metis
      then have rs: "r \<in> set states" using w w0(1) by (auto simp: states_def select_orders_def)
      then obtain r' where p: "(r, r') \<in> set (zip states after)" using after(1)
        by (metis in_set_impl_in_set_zip1 list_all2_lengthD)
      have "r_orderId r' = ow_orderId w0"
        using zip_ids [OF p closing_ids [OF after(1)]] keyed w0(1) w(3) same_row by (simp add: keyed_orders_def)
      then have "r' \<notin> set ?rs" using False by blast
      then have "r' = r" using p by (force simp: changed_orders_def)
      then show ?thesis using p after(1) by (auto simp: list_all2_iff)
    qed
  qed
  obtain s s' c where a: "cause_of sv cause = Inr c" "find_account db1 (os_accountId sv) = Some s"
    "apply_in_transaction checkpoint_event_interval mark_age c s events = Inr s'" "find_account db2 (os_accountId sv) = Some s'"
    by (rule ledger_transactionE' [OF tx])
  have acc: "find_account db' (os_accountId sv) = Some s'" "s = s0"
    using a(2,4) found(3) db' after(2) by (simp_all add: find_account_def)
  have ts: "num (int_of_time t) = date_parse t" using fin by (rule date_parse_finite) (simp add: int_of_time_def)
  have early: "\<not> date_parse t < math_max (num (int_of_time t)) (date_parse (lg_lastEventAt (ac_state s')))"
  proof -
    have "store_ok s" using inv found(3) acc(2) by (simp add: books_inv_def account_ok_def)
    moreover have "\<forall>e \<in> set events. ev_at e = t" using after(3) by auto
    ultimately have l: "lg_lastEventAt (ac_state s') = lg_lastEventAt (ac_state s) \<or> lg_lastEventAt (ac_state s') = t"
      using transaction_last_event [OF _ a(3)] by blast
    have "\<not> date_parse t < math_max (case bd_clockAt b of None \<Rightarrow> Fin 0 | Some t \<Rightarrow> num t) (date_parse (lg_lastEventAt (ac_state s0)))"
      using clock fin found bind by (simp add: advance_clock_def split: if_splits)
    then have "\<not> date_parse t < date_parse (lg_lastEventAt (ac_state s0))"
      by (cases "bd_clockAt b"; cases "date_parse t"; cases "date_parse (lg_lastEventAt (ac_state s0))")
        (auto simp: math_max_def split: if_splits)
    then show ?thesis unfolding ts using l acc(2) fin
      by (cases "date_parse t"; cases "date_parse (lg_lastEventAt (ac_state s0))") (auto simp: math_max_def)
  qed
  have "find_binding db' (os_runId sv) = Some (?f b)"
  proof -
    have eq: "(\<lambda>b. bd_runId b = os_runId sv) \<circ> ?f = (\<lambda>b. bd_runId b = os_runId sv)" by (auto simp: fun_eq_iff)
    show ?thesis unfolding find_binding_def bindings find_map' eq using found(2)
      by (simp only: find_binding_def option.map)
  qed
  moreover have "bd_runId b = os_runId sv" using found(2) by (auto simp: find_binding_def find_Some_iff)
  moreover have "find_run db' (os_runId sv) = Some run" using found(1) rest by (simp add: find_run_def)
  moreover have "ledger_transaction sv cause db' [] = Inr db'"
    by (rule ledger_same [OF a(1) acc(1)]) (simp add: apply_in_transaction_def)
  moreover have "set_clock (os_runId sv) (\<lambda>_. Some (int_of_time t)) db' = db'"
    unfolding db' by (simp add: set_clock_def comp_def if_distrib cong: if_cong)
  moreover have "runR (clock_step sv run t cause) (db', []) (map ow_state (select_orders db' (clocked sv))) = Inr (db', [])"
    using still by (intro clock_run_same) blast
  ultimately show ?thesis using fin bind' acc(1) early by (simp add: advance_clock_def)
qed

lemma deliver_again:
  assumes inv: "books_inv db" and d: "deliver sv db sm input = Some (db1, Inr sm1)"
  shows "deliver sv db1 sm input = Some (db1, Inr sm1)"
proof (cases "fi_fact input")
  case (Clock t)
  then have c: "advance_clock sv db t (fi_factId input) = Inr db1"
    using d by (cases "advance_clock sv db t (fi_factId input)") (auto simp: deliver_def deliver_clock_def)
  show ?thesis using clock_again [OF inv c] c d Clock by (simp add: deliver_def deliver_clock_def)
next
  case (Signal i order debit risk)
  show ?thesis
  proof (cases "submit_order sv db i order debit risk (fi_factId input)")
    case (Inl e)
    then have "db1 = db" using d Signal by (auto simp: deliver_def deliver_signal_def split: js_error.splits)
    then show ?thesis using d by simp
  next
    case (Inr x)
    then obtain r where s: "submit_order sv db i order debit risk (fi_factId input) = Inr (db1, r)"
      using d Signal by (cases x) (auto simp: deliver_def deliver_signal_def)
    then show ?thesis using submit_again [OF inv s] d Signal by (auto simp: deliver_def deliver_signal_def)
  qed
next
  case (Quoted i quote p b)
  then obtain x where q: "quote_orders sv db i quote p b (fi_factId input) = Some (db1, Inr x)"
    using d by (auto simp: deliver_def deliver_quote_def bindR_eq_Inr)
  then show ?thesis using quote_again [OF q] d Quoted by (auto simp: deliver_def deliver_quote_def)
next
  case (Cancel i t reason pre)
  then obtain c where c: "cancel_order sv db i t reason pre (fi_factId input) = Inr (db1, c)"
    using d by (cases "cancel_order sv db i t reason pre (fi_factId input)")
      (auto simp: deliver_def deliver_cancel_def split: cancellation.splits)
  have "keyed_orders db" using inv by (simp add: books_inv_def)
  from cancel_again [OF this c] obtain c' where "cancel_order sv db1 i t reason pre (fi_factId input) = Inr (db1, c')"
    "\<forall>n. c' = NoOp n \<longleftrightarrow> c = NoOp n" by blast
  then show ?thesis using d c Cancel
    by (cases c; cases c') (auto simp: deliver_def deliver_cancel_def)
qed

lemma process_again:
  assumes inv: "books_inv db" and p: "process_fact sv row db = Some (db1, Inr sm)"
  shows "process_fact sv row db1 = Some (db1, Inr sm)"
proof (cases "timed \<lparr>fi_fact = fr_fact row, fi_factId = Some (fr_factId row)\<rparr>")
  case (Inl e)
  then show ?thesis using p by (simp add: process_fact_deliver)
next
  case (Inr input)
  then have "deliver sv db \<lparr>sm_processed = 0, sm_vetoes = [], sm_noOps = []\<rparr> input = Some (db1, Inr sm)"
    using p by (simp add: process_fact_deliver)
  from deliver_again [OF inv this] show ?thesis using Inr by (simp add: process_fact_deliver)
qed

end
