(* ===== verification/InboxOrder.thy ===== *)
theory InboxOrder
  imports InboxLemmas
begin

text \<open>
  The order in which the drain takes the facts. \<open>inbox_trace\<close> follows an inbox through batches,
  claims, acknowledgements and crashes, and records the place of every claimed fact; the invariant
  says that no fact still pending, and none that a producer may still add, comes before the last
  one claimed.
\<close>

section \<open>The order of facts\<close>

definition fact_place :: "fact_order \<Rightarrow> int \<times> rat \<times> string \<times> string" where
  "fact_place f = (fo_at f, rat_of (fo_priority f), fo_sortKey f, fo_id f)"

definition placed :: "fact_order \<Rightarrow> bool" where
  "placed f \<longleftrightarrow> \<bar>fo_at f\<bar> \<le> max_time \<and> (\<exists>f'. fo_priority f = fact_priority f')"

lemma priority_double: "is_double (fact_priority f)"
  using is_double_num [of 0] is_double_num [of 1] is_double_num [of 2] is_double_num [of 3]
  by (cases f) (simp_all add: fact_priority_def)

lemma compare_fact_order_place: "compares compare_fact_order fact_place placed"
proof -
  let ?k = "\<lambda>f. ((( rat_of (num (fo_at f)), rat_of (fo_priority f)), fo_sortKey f), fo_id f)"
  have "compares compare_fact_order ?k placed"
    unfolding compare_fact_order_def
    by (intro compares_intros) (auto simp: placed_def max_time_def priority_double intro!: is_double_num)
  moreover have "?k y < ?k x \<longleftrightarrow> fact_place y < fact_place x" "?k x = ?k y \<longleftrightarrow> fact_place x = fact_place y" for x y
    by (auto simp: fact_place_def less_prod_def')
  ultimately show ?thesis by (simp add: compares_def)
qed

interpretation inbox_order: keyed_comparator compare_fact_order fact_place placed
  by (rule compares_keyed [OF compare_fact_order_place])

lemma compare_not_NaN: "compare_fact_order x y \<noteq> NaN"
  by (simp add: compare_fact_order_def num_or_def string_cmp_def)

lemma in_order_iff:
  assumes "placed x" "placed y"
  shows "compare_fact_order x y \<le> Fin 0 \<longleftrightarrow> fact_place x \<le> fact_place y"
proof -
  have "compare_fact_order x y \<le> Fin 0 \<longleftrightarrow> \<not> Fin 0 < compare_fact_order x y"
    using compare_not_NaN [of x y] by (cases "compare_fact_order x y") auto
  then show ?thesis using inbox_order.cmp_key [OF assms] by (simp add: not_less)
qed

section \<open>A trace of the inbox\<close>

definition run_rows :: "string \<Rightarrow> database \<Rightarrow> fact_row list" where
  "run_rows runId db = filter (\<lambda>f. fr_runId f = runId) (db_facts db)"

definition run_claims :: "string \<Rightarrow> database \<Rightarrow> fact_order option list" where
  "run_claims runId db = map bd_inflight (filter (\<lambda>b. bd_runId b = runId) (db_bindings db))"

text \<open>
  The runs whose producers have sort keys of their own (\<open>keyed\<close>) are those of a comparison; the
  producers of the other runs leave them out.
\<close>

inductive inbox_trace :: "string \<Rightarrow> bool \<Rightarrow> database \<Rightarrow> fact_order list \<Rightarrow> bool" for runId keyed where
  empty: "run_rows runId db = [] \<Longrightarrow> set (run_claims runId db) \<subseteq> {None} \<Longrightarrow> length (run_claims runId db) \<le> 1 \<Longrightarrow>
    inbox_trace runId keyed db []"
| batch: "inbox_trace runId keyed db h \<Longrightarrow> enqueue z runId lockFree sortKeys facts db = Inr db' \<Longrightarrow>
    keyed \<or> sortKeys = (\<lambda>_. None) \<Longrightarrow>
    inbox_trace runId keyed db' h"
| claim: "inbox_trace runId keyed db h \<Longrightarrow> next_fact runId (repair_claim runId db) = Some row \<Longrightarrow>
    claim_fact runId row (repair_claim runId db) = Inr db' \<Longrightarrow> inbox_trace runId keyed db' (h @ [order_of_row row])"
| acknowledged: "inbox_trace runId keyed db h \<Longrightarrow> inbox_trace runId keyed (acknowledge runId factId status db) h"
| unseen: "inbox_trace runId keyed db h \<Longrightarrow> run_rows runId db' = run_rows runId db \<Longrightarrow>
    run_claims runId db' = run_claims runId db \<or> run_claims runId db = [] \<and> run_claims runId db' = [None] \<Longrightarrow>
    inbox_trace runId keyed db' h"

text \<open>
  The place the trace speaks of: the whole place, or only time and priority for a keyed run, where
  the claim does not keep the sort key of the row.
\<close>

definition trace_place :: "bool \<Rightarrow> fact_order \<Rightarrow> int \<times> rat \<times> string \<times> string" where
  "trace_place keyed f = (fo_at f, rat_of (fo_priority f), if keyed then [] else fo_sortKey f, if keyed then [] else fo_id f)"

lemma trace_place_mono: "fact_place x \<le> fact_place y \<Longrightarrow> trace_place keyed x \<le> trace_place keyed y"
  by (auto simp: fact_place_def trace_place_def)

text \<open>A row as a producer writes it, and the place its claim keeps.\<close>

definition plain_row :: "bool \<Rightarrow> fact_row \<Rightarrow> bool" where
  "plain_row keyed f \<longleftrightarrow> \<bar>fr_factAt f\<bar> \<le> max_time \<and> date_parse (fact_instant (fr_fact f)) = num (fr_factAt f) \<and>
     fr_priority f = fact_priority (fr_fact f) \<and> (keyed \<or> fr_sortKey f = fact_key (fr_fact f))"

definition claimed_order :: "fact_row \<Rightarrow> fact_order" where
  "claimed_order f = (order_of_row f)\<lparr>fo_sortKey := fact_key (fr_fact f)\<rparr>"

definition trace_ok :: "bool \<Rightarrow> string \<Rightarrow> database \<Rightarrow> fact_order list \<Rightarrow> bool" where
  "trace_ok keyed runId db h \<longleftrightarrow> (\<forall>f \<in> set (run_rows runId db). plain_row keyed f) \<and>
     distinct (map fr_factId (run_rows runId db)) \<and> length (run_claims runId db) \<le> 1 \<and>
     (\<forall>x \<in> set h. placed x) \<and> sorted (map (trace_place keyed) h) \<and>
     (h \<noteq> [] \<longrightarrow> (\<forall>f \<in> set (run_rows runId db). fr_outcome f = None \<longrightarrow>
          trace_place keyed (last h) \<le> trace_place keyed (order_of_row f)) \<and>
        (\<exists>g \<in> set (run_rows runId db). order_of_row g = last h \<and>
          (fr_outcome g \<noteq> None \<or> run_claims runId db = [Some (claimed_order g)])))"

lemma claimed_placed: "plain_row keyed f \<Longrightarrow> placed (claimed_order f)"
  by (auto simp: plain_row_def placed_def claimed_order_def order_of_row_def)

lemma claimed_place: "plain_row keyed f \<Longrightarrow> trace_place keyed (claimed_order f) = trace_place keyed (order_of_row f)"
  by (auto simp: plain_row_def trace_place_def claimed_order_def order_of_row_def)

lemma plain_placed: "plain_row k f \<Longrightarrow> placed (order_of_row f)"
  by (auto simp: plain_row_def placed_def order_of_row_def)

section \<open>What each step does to the rows\<close>

text \<open>The outcomes of some pending rows are set.\<close>

definition resolved :: "fact_row \<Rightarrow> fact_row \<Rightarrow> bool" where
  "resolved f f' \<longleftrightarrow> f' = f \<or> fr_outcome f = None \<and> (\<exists>status. f' = f\<lparr>fr_outcome := Some status\<rparr>)"

lemma resolvedD: "resolved f f' \<Longrightarrow> order_of_row f' = order_of_row f \<and> plain_row k f' = plain_row k f \<and> fr_factId f' = fr_factId f \<and>
    claimed_order f' = claimed_order f \<and> (fr_outcome f' = None \<longrightarrow> fr_outcome f = None)"
  by (auto simp: resolved_def order_of_row_def plain_row_def claimed_order_def)

lemma set_outcome_rows: "list_all2 resolved (run_rows r db) (run_rows r (set_outcome r' i st db))"
proof -
  let ?f = "\<lambda>f. if fr_runId f = r' \<and> fr_factId f = i \<and> fr_outcome f = None then f\<lparr>fr_outcome := Some st\<rparr> else f"
  have "list_all2 resolved (filter (\<lambda>f. fr_runId f = r) fs) (filter (\<lambda>f. fr_runId f = r) (map ?f fs))" for fs
    by (induction fs) (auto simp: resolved_def)
  then show ?thesis by (simp add: run_rows_def set_outcome_def)
qed

lemma run_rows_cong: "db_facts db' = db_facts db \<Longrightarrow> run_rows r db' = run_rows r db"
  by (simp add: run_rows_def)

lemma run_claims_cong: "db_bindings db' = db_bindings db \<Longrightarrow> run_claims r db' = run_claims r db"
  by (simp add: run_claims_def)

lemma insert_fact_fields: "insert_fact db f = Inr db' \<Longrightarrow> db_facts db' = db_facts db @ [f] \<and> db_bindings db' = db_bindings db \<and>
    (fr_runId f = r \<longrightarrow> fr_factId f \<notin> fr_factId ` set (run_rows r db))"
  by (auto simp: insert_fact_def run_rows_def split: if_splits)

lemma reconcile_order_fields: "reconcile_order db r i clock current = Inr db' \<Longrightarrow>
    db_facts db' = db_facts db \<and> db_bindings db' = db_bindings db"
  by (auto simp: reconcile_order_def bindR_eq_Inr Let_def dest!: ledger_transaction_fields split: option.splits)

definition added :: "string \<Rightarrow> database \<Rightarrow> database \<Rightarrow> fact_row \<Rightarrow> string option \<Rightarrow> bool" where
  "added r db db' row outcome \<longleftrightarrow> (\<exists>rows. list_all2 resolved (run_rows r db) rows \<and>
     run_rows r db' = rows @ [row\<lparr>fr_outcome := outcome\<rparr>]) \<and>
     fr_factId row \<notin> fr_factId ` set (run_rows r db) \<and> db_bindings db' = db_bindings db"

lemma added_plain:
  assumes "insert_fact db1 (row\<lparr>fr_outcome := outcome\<rparr>) = Inr db'" "fr_runId row = r"
    "db1 = db \<or> db1 = set_outcome r i st db"
  shows "added r db db' row outcome"
proof -
  have rows: "list_all2 resolved (run_rows r db) (run_rows r db1)" "db_bindings db1 = db_bindings db"
    using assms(3) set_outcome_rows [of r db r i st] by (auto simp: list_all2_same resolved_def set_outcome_def)
  note f = insert_fact_fields [OF assms(1), of r]
  have "map fr_factId (run_rows r db1) = map fr_factId (run_rows r db)"
    using rows(1) by (induction rule: list_all2_induct) (auto dest: resolvedD)
  then have "fr_factId ` set (run_rows r db1) = fr_factId ` set (run_rows r db)" by (metis list.set_map)
  then have "fr_factId row \<notin> fr_factId ` set (run_rows r db)" using f assms(2) by simp
  then show ?thesis unfolding added_def using rows f assms(2) by (auto simp: run_rows_def)
qed

lemma added_reconciled:
  assumes "insert_fact db (row\<lparr>fr_outcome := None\<rparr>) = Inr db1" "fr_runId row = r"
    "db_facts db2 = db_facts db1" "db_bindings db2 = db_bindings db1"
  shows "added r db (set_outcome r (fr_factId row) st db2) row (Some st)"
proof -
  note f = insert_fact_fields [OF assms(1), of r]
  have rows: "run_rows r db2 = run_rows r db @ [row\<lparr>fr_outcome := None\<rparr>]"
    using f assms(2,3) by (simp add: run_rows_def)
  let ?f = "\<lambda>f. if fr_runId f = r \<and> fr_factId f = fr_factId row \<and> fr_outcome f = None then f\<lparr>fr_outcome := Some st\<rparr> else f"
  have "filter (\<lambda>f. fr_runId f = r) (map ?f fs) = map ?f (filter (\<lambda>f. fr_runId f = r) fs)" for fs
    by (induction fs) auto
  then have "run_rows r (set_outcome r (fr_factId row) st db2) = map ?f (run_rows r db2)"
    by (simp add: run_rows_def set_outcome_def)
  also have "\<dots> = map ?f (run_rows r db) @ [row\<lparr>fr_outcome := Some st\<rparr>]" using rows assms(2) by simp
  finally have "run_rows r (set_outcome r (fr_factId row) st db2) = map ?f (run_rows r db) @ [row\<lparr>fr_outcome := Some st\<rparr>]" .
  moreover have "list_all2 resolved (run_rows r db) (map ?f (run_rows r db))"
    by (auto simp: list_all2_conv_all_nth resolved_def)
  ultimately show ?thesis unfolding added_def using f assms(2,4) by (auto simp: set_outcome_def)
qed

lemma admit_added:
  assumes "admit_fact r binding f row db = Inr (db', stored)" "fr_runId row = r"
  obtains outcome where "added r db db' row outcome" "outcome = None \<Longrightarrow> \<not> late_fact db r binding (order_of_row row)"
proof -
  note out = that
  define late where "late = (if late_fact db r binding (order_of_row row) then Some ''LATE_FACT'' else None)"
  have plain: thesis if "insert_fact db1 (row\<lparr>fr_outcome := late\<rparr>) = Inr db'" "db1 = db \<or> (\<exists>i st. db1 = set_outcome r i st db)" for db1
  proof -
    from that(2) obtain i st where "db1 = db \<or> db1 = set_outcome r i st db" by blast
    from added_plain [OF that(1) assms(2) this] show thesis by (rule out) (simp add: late_def split: if_splits)
  qed
  show thesis
  proof (cases "\<exists>clock t reason current. reconcile db r clock row t reason current = Inr db'")
    case True
    then obtain clock current db1 db2 where "insert_fact db (row\<lparr>fr_outcome := None\<rparr>) = Inr db1"
      "reconcile_order db1 r (fr_factId row) clock current = Inr db2" "db' = set_outcome r (fr_factId row) ''APPLIED'' db2"
      by (auto simp: reconcile_def bindR_eq_Inr split: if_splits)
    with added_reconciled [OF _ assms(2)] show thesis
      by (intro out [of "Some ''APPLIED''"]) (auto dest: reconcile_order_fields)
  next
    case False
    then have "\<exists>db1. insert_fact db1 (row\<lparr>fr_outcome := late\<rparr>) = Inr db' \<and> (db1 = db \<or> (\<exists>i st. db1 = set_outcome r i st db))"
      using assms(1) unfolding late_def
      by (auto simp: admit_fact_def Let_def bindR_eq_Inr split: session_fact.splits option.splits if_splits)
    then show thesis using plain by blast
  qed
qed

text \<open>The claims of a run that is bound once.\<close>

lemma bound_claims: "length (run_claims r db) \<le> 1 \<Longrightarrow>
    run_claims r db = (case find_binding db r of None \<Rightarrow> [] | Some b \<Rightarrow> [bd_inflight b])"
proof -
  have "length (filter (\<lambda>b. bd_runId b = r) bs) \<le> 1 \<Longrightarrow> filter (\<lambda>b. bd_runId b = r) bs =
      (case find (\<lambda>b. bd_runId b = r) bs of None \<Rightarrow> [] | Some b \<Rightarrow> [b])" for bs
    by (induction bs) auto
  from this [of "db_bindings db"] show "length (run_claims r db) \<le> 1 \<Longrightarrow> ?thesis"
    unfolding run_claims_def find_binding_def length_map by (auto split: option.split)
qed

lemma run_claims_set: "run_claims r (set_inflight r p c db) =
    map (\<lambda>b. if p b then c else bd_inflight b) (filter (\<lambda>b. bd_runId b = r) (db_bindings db))"
proof -
  have "map bd_inflight (filter (\<lambda>b. bd_runId b = r) (map (\<lambda>b. if bd_runId b = r \<and> p b then b\<lparr>bd_inflight := c\<rparr> else b) bs)) =
      map (\<lambda>b. if p b then c else bd_inflight b) (filter (\<lambda>b. bd_runId b = r) bs)" for bs
    by (induction bs) auto
  then show ?thesis by (simp add: run_claims_def set_inflight_def)
qed

section \<open>The trace stays in order\<close>

lemma resolved_rows:
  assumes "list_all2 resolved rows rows'"
  shows "map order_of_row rows' = map order_of_row rows" "map fr_factId rows' = map fr_factId rows"
    "(\<forall>f \<in> set rows. plain_row k f) \<Longrightarrow> \<forall>f \<in> set rows'. plain_row k f"
    "g \<in> set rows \<Longrightarrow> \<exists>g' \<in> set rows'. order_of_row g' = order_of_row g \<and> claimed_order g' = claimed_order g \<and>
      (fr_outcome g' = None \<longrightarrow> fr_outcome g = None)"
    "f' \<in> set rows' \<Longrightarrow> fr_outcome f' = None \<Longrightarrow> f' \<in> set rows"
proof -
  show "map order_of_row rows' = map order_of_row rows" "map fr_factId rows' = map fr_factId rows"
    using assms by (induction rule: list_all2_induct) (auto dest: resolvedD)
  show "(\<forall>f \<in> set rows. plain_row k f) \<Longrightarrow> \<forall>f \<in> set rows'. plain_row k f"
    using assms by (induction rule: list_all2_induct) (auto dest: resolvedD)
  show "g \<in> set rows \<Longrightarrow> \<exists>g' \<in> set rows'. order_of_row g' = order_of_row g \<and> claimed_order g' = claimed_order g \<and>
      (fr_outcome g' = None \<longrightarrow> fr_outcome g = None)"
    using assms by (induction rule: list_all2_induct) (auto dest: resolvedD)
  show "f' \<in> set rows' \<Longrightarrow> fr_outcome f' = None \<Longrightarrow> f' \<in> set rows"
    using assms by (induction rule: list_all2_induct) (auto simp: resolved_def)
qed

lemma trace_lastE:
  assumes "trace_ok k r db h" "h \<noteq> []"
  obtains g where "g \<in> set (run_rows r db)" "order_of_row g = last h"
    "fr_outcome g \<noteq> None \<or> run_claims r db = [Some (claimed_order g)]"
  using assms by (auto simp: trace_ok_def)

text \<open>Rows resolved and claims kept, or the last claim given up once its fact has an outcome.\<close>

lemma trace_ok_resolved:
  assumes ok: "trace_ok k r db h" and rows: "list_all2 resolved (run_rows r db) (run_rows r db')"
    and len: "length (run_claims r db') \<le> 1"
    and claims: "run_claims r db' = run_claims r db \<or>
      (\<forall>g \<in> set (run_rows r db'). h \<noteq> [] \<longrightarrow> order_of_row g = last h \<longrightarrow> run_claims r db = [Some (claimed_order g)] \<longrightarrow> fr_outcome g \<noteq> None)"
  shows "trace_ok k r db' h"
proof -
  note r = resolved_rows [OF rows]
  have "\<exists>g \<in> set (run_rows r db'). order_of_row g = last h \<and> (fr_outcome g \<noteq> None \<or> run_claims r db' = [Some (claimed_order g)])"
    if h: "h \<noteq> []"
  proof -
    obtain g where g: "g \<in> set (run_rows r db)" "order_of_row g = last h" "fr_outcome g \<noteq> None \<or> run_claims r db = [Some (claimed_order g)]"
      by (rule trace_lastE [OF ok h])
    obtain g' where g': "g' \<in> set (run_rows r db')" "order_of_row g' = last h" "claimed_order g' = claimed_order g" "fr_outcome g' = None \<longrightarrow> fr_outcome g = None"
      using r(4) [OF g(1)] g(2) by auto
    from claims show ?thesis
    proof
      assume "run_claims r db' = run_claims r db"
      then show ?thesis using g(3) g' by auto
    next
      assume "\<forall>g \<in> set (run_rows r db'). h \<noteq> [] \<longrightarrow> order_of_row g = last h \<longrightarrow> run_claims r db = [Some (claimed_order g)] \<longrightarrow> fr_outcome g \<noteq> None"
      then show ?thesis using g(3) g' h by metis
    qed
  qed
  then show ?thesis using ok r len unfolding trace_ok_def by auto
qed

lemma trace_ok_added:
  assumes ok: "trace_ok k r db h" and added: "added r db db' row outcome" and plain: "plain_row k row"
    and place: "outcome = None \<Longrightarrow> \<not> late_fact db r (find_binding db r) (order_of_row row)"
  shows "trace_ok k r db' h"
proof -
  obtain rows where rows: "list_all2 resolved (run_rows r db) rows" "run_rows r db' = rows @ [row\<lparr>fr_outcome := outcome\<rparr>]"
    and new: "fr_factId row \<notin> fr_factId ` set (run_rows r db)" and same: "db_bindings db' = db_bindings db"
    using added by (auto simp: added_def)
  note r = resolved_rows [OF rows(1)]
  have claims: "run_claims r db' = run_claims r db" by (rule run_claims_cong [OF same])
  have row: "plain_row k (row\<lparr>fr_outcome := outcome\<rparr>)" "order_of_row (row\<lparr>fr_outcome := outcome\<rparr>) = order_of_row row"
    using plain by (simp_all add: plain_row_def order_of_row_def)
  have "trace_place k (last h) \<le> trace_place k (order_of_row row)" if h: "h \<noteq> []" "outcome = None"
  proof -
    note late = place [OF h(2)]
    obtain g where g: "g \<in> set (run_rows r db)" "order_of_row g = last h" "fr_outcome g \<noteq> None \<or> run_claims r db = [Some (claimed_order g)]"
      by (rule trace_lastE [OF ok h(1)])
    have g': "plain_row k g" using ok g(1) by (simp add: trace_ok_def)
    show ?thesis
    proof (cases "fr_outcome g")
      case (Some st)
      then have "\<not> fr_factAt row \<le> fr_factAt g"
        using late g(1) by (auto simp: late_fact_def order_of_row_def run_rows_def)
      then show ?thesis using g(2) [symmetric] by (simp add: trace_place_def order_of_row_def)
    next
      case None
      then have c: "run_claims r db = [Some (claimed_order g)]" using g(3) by simp
      have "length (run_claims r db) \<le> 1" using ok by (simp add: trace_ok_def)
      from bound_claims [OF this] c have "Option.bind (find_binding db r) bd_inflight = Some (claimed_order g)"
        by (auto split: option.splits)
      then have "\<not> compare_fact_order (order_of_row row) (claimed_order g) \<le> Fin 0"
        using late by (simp add: late_fact_def at_or_before_claim_def)
      then have "fact_place (claimed_order g) \<le> fact_place (order_of_row row)"
        using in_order_iff [OF plain_placed [OF plain] claimed_placed [OF g']] by simp
      from trace_place_mono [OF this, of k] show ?thesis using claimed_place [OF g'] g(2) by simp
    qed
  qed
  then have "\<forall>f \<in> set (run_rows r db'). fr_outcome f = None \<longrightarrow> h \<noteq> [] \<longrightarrow>
      trace_place k (last h) \<le> trace_place k (order_of_row f)"
    using ok r(5) row(2) rows(2) by (auto simp: trace_ok_def)
  moreover have "\<exists>g \<in> set (run_rows r db'). order_of_row g = last h \<and> (fr_outcome g \<noteq> None \<or> run_claims r db' = [Some (claimed_order g)])"
    if h: "h \<noteq> []"
  proof -
    obtain g where g: "g \<in> set (run_rows r db)" "order_of_row g = last h" "fr_outcome g \<noteq> None \<or> run_claims r db = [Some (claimed_order g)]"
      by (rule trace_lastE [OF ok h])
    then show ?thesis using r(4) [OF g(1)] rows(2) claims by auto
  qed
  moreover have "distinct (map fr_factId (run_rows r db'))"
    using ok new r(2) rows(2) by (simp add: trace_ok_def flip: set_map)
  ultimately show ?thesis using ok r(3) row(1) rows(2) claims by (auto simp: trace_ok_def)
qed

text \<open>A batch of facts.\<close>

lemma trace_ok_batch:
  assumes "trace_ok k r db h" "enqueue z r lockFree sortKeys facts db = Inr db'"
    "k \<or> sortKeys = (\<lambda>_. None)"
  shows "trace_ok k r db' h"
proof -
  let ?P = "\<lambda>d. trace_ok k r d h \<and> db_bindings d = db_bindings db"
  have "?P db'"
  proof (rule enqueue_invariant [OF assms(2), of ?P])
    fix e s s'
    assume p: "?P (ib_db s)" and step: "enqueue_fact r (find_binding db r) sortKeys s e = Inr s'"
    have b: "find_binding (ib_db s) r = find_binding db r" using p by (simp add: find_binding_def)
    from step show "?P (ib_db s')"
    proof (cases rule: enqueue_factE)
      case (admitted row stored)
      obtain outcome where a: "added r (ib_db s) (ib_db s') row outcome"
        "outcome = None \<Longrightarrow> \<not> late_fact (ib_db s) r (find_binding db r) (order_of_row row)"
        using admit_added [OF admitted(9,1)] by blast
      have "plain_row k row" using admitted(3,5,6,7) admitted(8) assms(3) by (auto simp: plain_row_def)
      with trace_ok_added [OF conjunct1 [OF p] a(1)] a(2) b have "trace_ok k r (ib_db s') h" by simp
      then show ?thesis using a(1) p by (simp add: added_def)
    qed (use p in simp)
  qed (use assms(1) in simp)
  then show ?thesis by blast
qed

text \<open>The repair of the claim, the claim and the acknowledgement.\<close>

lemma same_fact: "trace_ok k r db h \<Longrightarrow> f \<in> set (run_rows r db) \<Longrightarrow> g \<in> set (run_rows r db) \<Longrightarrow> fr_factId f = fr_factId g \<Longrightarrow> f = g"
  by (auto simp: trace_ok_def distinct_map dest: inj_onD)

lemma resolved_refl: "list_all2 resolved rows rows"
  by (simp add: list_all2_same resolved_def)

lemma trace_ok_repair:
  assumes ok: "trace_ok k r db h"
  shows "trace_ok k r (repair_claim r db) h"
proof -
  let ?p = "\<lambda>b. \<exists>f \<in> set (db_facts db). fr_runId f = r \<and> map_option fo_id (bd_inflight b) = Some (fr_factId f) \<and> fr_outcome f \<noteq> None"
  have rows: "run_rows r (repair_claim r db) = run_rows r db" by (simp add: run_rows_def)
  have len: "length (run_claims r (repair_claim r db)) \<le> 1"
    using ok unfolding repair_claim_def run_claims_set by (simp add: trace_ok_def run_claims_def)
  show ?thesis
  proof (rule trace_ok_resolved [OF ok _ len])
    show "list_all2 resolved (run_rows r db) (run_rows r (repair_claim r db))" unfolding rows by (rule resolved_refl)
    show "run_claims r (repair_claim r db) = run_claims r db \<or> (\<forall>g \<in> set (run_rows r (repair_claim r db)).
      h \<noteq> [] \<longrightarrow> order_of_row g = last h \<longrightarrow> run_claims r db = [Some (claimed_order g)] \<longrightarrow> fr_outcome g \<noteq> None)"
    proof (cases "\<exists>b \<in> set (db_bindings db). bd_runId b = r \<and> ?p b")
      case False
      then have "run_claims r (repair_claim r db) = run_claims r db"
        unfolding repair_claim_def run_claims_set by (auto simp: run_claims_def)
      then show ?thesis by blast
    next
      case True
      then obtain b f where b: "b \<in> set (db_bindings db)" "bd_runId b = r" "f \<in> set (run_rows r db)"
        "map_option fo_id (bd_inflight b) = Some (fr_factId f)" "fr_outcome f \<noteq> None" by (auto simp: run_rows_def)
      have "fr_outcome g \<noteq> None" if g: "g \<in> set (run_rows r db)" "order_of_row g = last h" "run_claims r db = [Some (claimed_order g)]" for g
      proof -
        have "bd_inflight b \<in> set (run_claims r db)" using b(1,2) by (simp add: run_claims_def)
        then have "fr_factId g = fr_factId f" using g(3) b(4) by (simp add: claimed_order_def order_of_row_def)
        then show ?thesis using same_fact [OF ok g(1) b(3)] b(5) by simp
      qed
      then show ?thesis unfolding rows by blast
    qed
  qed
qed

lemma set_outcome_settled:
  assumes "f \<in> set (db_facts (set_outcome r i st db))" "fr_runId f = r" "fr_factId f = i"
  shows "fr_outcome f \<noteq> None"
proof -
  let ?p = "\<lambda>f. fr_runId f = r \<and> fr_factId f = i \<and> fr_outcome f = None"
  have "f \<in> (\<lambda>f. if ?p f then f\<lparr>fr_outcome := Some st\<rparr> else f) ` set (db_facts db)"
    using assms(1) unfolding set_outcome_def by simp
  then obtain f0 where f0: "f = (if ?p f0 then f0\<lparr>fr_outcome := Some st\<rparr> else f0)" by (rule imageE)
  show ?thesis
  proof (cases "?p f0")
    case False
    then have "f = f0" using f0 by simp
    then show ?thesis using False assms(2,3) by simp
  qed (simp add: f0)
qed

lemma trace_ok_acknowledge:
  assumes ok: "trace_ok k r db h"
  shows "trace_ok k r (acknowledge r i st db) h"
proof -
  let ?db = "acknowledge r i st db"
  have rows: "run_rows r ?db = run_rows r (set_outcome r i st db)" by (simp add: acknowledge_def run_rows_def)
  have bindings: "db_bindings (set_outcome r i st db) = db_bindings db" by (simp add: set_outcome_def)
  have claims: "run_claims r ?db = map (\<lambda>b. if map_option fo_id (bd_inflight b) = Some i then None else bd_inflight b)
      (filter (\<lambda>b. bd_runId b = r) (db_bindings db))"
    unfolding acknowledge_def run_claims_set bindings ..
  have len: "length (run_claims r ?db) \<le> 1" using ok unfolding claims by (simp add: trace_ok_def run_claims_def)
  show ?thesis
  proof (rule trace_ok_resolved [OF ok _ len])
    show "list_all2 resolved (run_rows r db) (run_rows r ?db)" unfolding rows by (rule set_outcome_rows)
    show "run_claims r ?db = run_claims r db \<or> (\<forall>g \<in> set (run_rows r ?db).
      h \<noteq> [] \<longrightarrow> order_of_row g = last h \<longrightarrow> run_claims r db = [Some (claimed_order g)] \<longrightarrow> fr_outcome g \<noteq> None)"
    proof (cases "\<exists>b \<in> set (db_bindings db). bd_runId b = r \<and> map_option fo_id (bd_inflight b) = Some i")
      case False
      then have "run_claims r ?db = run_claims r db" unfolding claims by (auto simp: run_claims_def)
      then show ?thesis by blast
    next
      case True
      then obtain b where b: "b \<in> set (db_bindings db)" "bd_runId b = r" "map_option fo_id (bd_inflight b) = Some i" by blast
      have "fr_outcome g \<noteq> None" if g: "g \<in> set (run_rows r ?db)" "order_of_row g = last h" "run_claims r db = [Some (claimed_order g)]" for g
      proof -
        have "bd_inflight b \<in> set (run_claims r db)" using b(1,2) by (simp add: run_claims_def)
        then have id: "fr_factId g = i" using g(3) b(3) by (simp add: claimed_order_def order_of_row_def)
        have "g \<in> set (db_facts (set_outcome r i st db))" "fr_runId g = r" using g(1) unfolding rows by (auto simp: run_rows_def)
        from set_outcome_settled [OF this id] show ?thesis .
      qed
      then show ?thesis by blast
    qed
  qed
qed

lemma claim_fact_claims:
  assumes "claim_fact r row db = Inr db'" "plain_row k row" "length (run_claims r db) \<le> 1"
  shows "run_claims r db' = [Some (claimed_order row)]"
proof -
  obtain t instant where t: "fact_time (fr_fact row) = Inr t" "to_iso_string t = Inr instant"
    and b: "\<exists>b \<in> set (db_bindings db). bd_runId b = r \<and> claimable row b"
    and db': "db' = set_inflight r (claimable row) (Some \<lparr>fo_at = int_of_time instant, fo_priority = fact_priority (fr_fact row),
        fo_sortKey = fact_key (fr_fact row), fo_id = fr_factId row\<rparr>) db"
    using assms(1) by (auto simp: claim_fact_def claim_of_def bindR_eq_Inr split: if_splits)
  obtain k where "date_parse (fact_instant (fr_fact row)) = num k" "int_of_time instant = k" by (rule fact_timeE [OF t])
  then have "int_of_time instant = fr_factAt row" using assms(2) by (simp add: plain_row_def)
  then have place: "\<lparr>fo_at = int_of_time instant, fo_priority = fact_priority (fr_fact row),
      fo_sortKey = fact_key (fr_fact row), fo_id = fr_factId row\<rparr> = claimed_order row"
    using assms(2) by (simp add: claimed_order_def order_of_row_def plain_row_def)
  obtain b0 where b0: "filter (\<lambda>b. bd_runId b = r) (db_bindings db) = [b0]"
  proof -
    have "length (filter (\<lambda>b. bd_runId b = r) (db_bindings db)) \<le> 1" using assms(3) by (simp add: run_claims_def)
    moreover have "filter (\<lambda>b. bd_runId b = r) (db_bindings db) \<noteq> []" using b by (auto simp: filter_empty_conv)
    ultimately show thesis
      by (cases "filter (\<lambda>b. bd_runId b = r) (db_bindings db)") (auto intro: that)
  qed
  have "claimable row b0"
  proof -
    obtain x where x: "x \<in> set (filter (\<lambda>b. bd_runId b = r) (db_bindings db))" "claimable row x" using b by auto
    then have "x = b0" unfolding b0 by simp
    then show ?thesis using x(2) by simp
  qed
  then show ?thesis unfolding db' run_claims_set b0 place by simp
qed

interpretation inbox_rows: keyed_comparator fact_row_cmp "\<lambda>f. fact_place (order_of_row f)" "plain_row True"
  by unfold_locales (simp add: fact_row_cmp_def inbox_order.cmp_key plain_placed)

lemma next_fact_least:
  assumes "next_fact r db = Some row" "\<forall>f \<in> set (run_rows r db). plain_row k f"
  shows "row \<in> set (run_rows r db) \<and> fr_outcome row = None \<and> (\<forall>f \<in> set (run_rows r db). fr_outcome f = None \<longrightarrow>
    fact_place (order_of_row row) \<le> fact_place (order_of_row f))"
proof -
  have pending: "set (pending_facts r db) = {f \<in> set (run_rows r db). fr_outcome f = None}"
    by (auto simp: pending_facts_def run_rows_def)
  have "plain_row k f \<Longrightarrow> plain_row True f" for f by (simp add: plain_row_def)
  then have ok: "\<forall>f \<in> set (pending_facts r db). plain_row True f" using assms(2) pending by blast
  obtain rest where s: "js_sort fact_row_cmp (pending_facts r db) = row # rest"
    using assms(1) by (auto simp: next_fact_def split: list.splits)
  have "sorted (map (\<lambda>f. fact_place (order_of_row f)) (row # rest))"
    using inbox_rows.js_sort_sorted [OF ok] s by simp
  moreover have "set (row # rest) = set (pending_facts r db)" unfolding s [symmetric] by simp
  ultimately show ?thesis using pending by auto
qed

lemma trace_ok_claim:
  assumes ok: "trace_ok k r db h" and row: "next_fact r db = Some row" and claim: "claim_fact r row db = Inr db'"
  shows "trace_ok k r db' (h @ [order_of_row row])"
proof -
  have plain: "\<forall>f \<in> set (run_rows r db). plain_row k f" using ok by (simp add: trace_ok_def)
  note least = next_fact_least [OF row plain]
  then have p: "plain_row k row" using plain by blast
  have rows: "run_rows r db' = run_rows r db" using claim_fields [OF claim] by (simp add: run_rows_def)
  have claims: "run_claims r db' = [Some (claimed_order row)]"
    using ok by (intro claim_fact_claims [OF claim p]) (simp add: trace_ok_def)
  have "h \<noteq> [] \<longrightarrow> trace_place k (last h) \<le> trace_place k (order_of_row row)" using ok least by (simp add: trace_ok_def)
  then have "sorted (map (trace_place k) h @ [trace_place k (order_of_row row)])"
    using ok by (cases h rule: rev_cases) (auto simp: trace_ok_def sorted_append)
  moreover have "trace_place k (order_of_row row) \<le> trace_place k (order_of_row f)"
    if "f \<in> set (run_rows r db)" "fr_outcome f = None" for f
    using least that by (intro trace_place_mono) blast
  ultimately show ?thesis using ok least rows claims plain_placed [OF p] unfolding trace_ok_def by auto
qed

lemma inbox_trace_ok: "inbox_trace r k db h \<Longrightarrow> trace_ok k r db h"
proof (induction rule: inbox_trace.induct)
  case (empty db)
  then show ?case by (simp add: trace_ok_def)
next
  case (batch db h z lockFree sortKeys facts db')
  then show ?case by (blast intro: trace_ok_batch)
next
  case (claim db h row db')
  then show ?case by (blast intro: trace_ok_claim trace_ok_repair)
next
  case (acknowledged db h factId status)
  then show ?case by (blast intro: trace_ok_acknowledge)
next
  case (unseen db h db')
  then show ?case by (auto simp: trace_ok_def)
qed

section \<open>A crash between the transactions of a fact\<close>

text \<open>The claim of the row is held, and no processed fact is claimed.\<close>

definition holds_claim :: "string \<Rightarrow> fact_row \<Rightarrow> fact_order \<Rightarrow> database \<Rightarrow> bool" where
  "holds_claim r row c db \<longleftrightarrow> (\<exists>x. (r, x) \<in> set (snd (inbox_view db)) \<and> (x = None \<or> map_option fo_id x = Some (fr_factId row))) \<and>
     (\<forall>x. (r, x) \<in> set (snd (inbox_view db)) \<longrightarrow> x = None \<or> map_option fo_id x = Some (fr_factId row) \<longrightarrow> x = Some c) \<and>
     (\<forall>x. (r, x) \<in> set (snd (inbox_view db)) \<longrightarrow> (\<forall>f \<in> set (db_facts db). fr_runId f = r \<longrightarrow>
        map_option fo_id x = Some (fr_factId f) \<longrightarrow> fr_outcome f = None))"

lemma view_binding: "b \<in> set (db_bindings db) \<Longrightarrow> bd_runId b = r \<Longrightarrow> (r, bd_inflight b) \<in> set (snd (inbox_view db))"
  by (auto simp: inbox_view_def)

lemma view_bindingD: "(r, x) \<in> set (snd (inbox_view db)) \<Longrightarrow> \<exists>b \<in> set (db_bindings db). bd_runId b = r \<and> bd_inflight b = x"
  by (force simp: inbox_view_def)

lemma set_inflight_same: "(\<And>b. b \<in> set (db_bindings db) \<Longrightarrow> bd_runId b = r \<Longrightarrow> p b \<Longrightarrow> bd_inflight b = c) \<Longrightarrow>
    set_inflight r p c db = db"
proof -
  assume same: "\<And>b. b \<in> set (db_bindings db) \<Longrightarrow> bd_runId b = r \<Longrightarrow> p b \<Longrightarrow> bd_inflight b = c"
  have "map (\<lambda>b. if bd_runId b = r \<and> p b then b\<lparr>bd_inflight := c\<rparr> else b) (db_bindings db) = db_bindings db"
    using same by (intro map_idI) auto
  then show ?thesis by (simp add: set_inflight_def)
qed

lemma repair_held: "holds_claim r row c db \<Longrightarrow> repair_claim r db = db"
  unfolding repair_claim_def
proof (rule set_inflight_same)
  fix b assume h: "holds_claim r row c db" "b \<in> set (db_bindings db)" "bd_runId b = r"
    "\<exists>f \<in> set (db_facts db). fr_runId f = r \<and> map_option fo_id (bd_inflight b) = Some (fr_factId f) \<and> fr_outcome f \<noteq> None"
  from h(4) obtain f where f: "f \<in> set (db_facts db)" "fr_runId f = r"
    "map_option fo_id (bd_inflight b) = Some (fr_factId f)" "fr_outcome f \<noteq> None" by blast
  have "\<forall>x. (r, x) \<in> set (snd (inbox_view db)) \<longrightarrow> (\<forall>f \<in> set (db_facts db). fr_runId f = r \<longrightarrow>
      map_option fo_id x = Some (fr_factId f) \<longrightarrow> fr_outcome f = None)"
    using h(1) unfolding holds_claim_def by (elim conjE)
  from this [rule_format, OF view_binding [OF h(2,3)] f(1-3)] f(4) show "bd_inflight b = None" by simp
qed

lemma claim_held:
  assumes "claim_of row = Inr c" "holds_claim r row c db"
  shows "claim_fact r row db = Inr db"
proof -
  obtain x where x: "(r, x) \<in> set (snd (inbox_view db))" "x = None \<or> map_option fo_id x = Some (fr_factId row)"
    using assms(2) unfolding holds_claim_def by blast
  from view_bindingD [OF x(1)] obtain b where "b \<in> set (db_bindings db)" "bd_runId b = r" "bd_inflight b = x" by blast
  with x(2) have b: "b \<in> set (db_bindings db)" "bd_runId b = r" "claimable row b" by (simp_all add: claimable_def)
  have "set_inflight r (claimable row) (Some c) db = db"
  proof (rule set_inflight_same)
    fix x assume "x \<in> set (db_bindings db)" "bd_runId x = r" "claimable row x"
    then show "bd_inflight x = Some c"
      using assms(2) view_binding [of x db r] unfolding holds_claim_def claimable_def by blast
  qed
  then show ?thesis using assms(1) b by (auto simp: claim_fact_def)
qed

lemma repaired_binding:
  assumes "b \<in> set (db_bindings (repair_claim r db))" "bd_runId b = r" "f \<in> set (db_facts db)" "fr_runId f = r"
    "map_option fo_id (bd_inflight b) = Some (fr_factId f)"
  shows "fr_outcome f = None"
proof -
  let ?p = "\<lambda>b. \<exists>f \<in> set (db_facts db). fr_runId f = r \<and> map_option fo_id (bd_inflight b) = Some (fr_factId f) \<and> fr_outcome f \<noteq> None"
  have "b \<in> (\<lambda>b. if bd_runId b = r \<and> ?p b then b\<lparr>bd_inflight := None\<rparr> else b) ` set (db_bindings db)"
    using assms(1) unfolding repair_claim_def set_inflight_def by simp
  then obtain b0 where b0: "b = (if bd_runId b0 = r \<and> ?p b0 then b0\<lparr>bd_inflight := None\<rparr> else b0)" by (rule imageE)
  show ?thesis
  proof (cases "bd_runId b0 = r \<and> ?p b0")
    case True
    then have "bd_inflight b = None" using b0 by simp
    then show ?thesis using assms(5) by simp
  next
    case False
    then have "b = b0" using b0 by metis
    then show ?thesis using False assms(2-5) by blast
  qed
qed

lemma claimed_holds:
  assumes "claim_fact r row (repair_claim r db) = Inr claimed" "row \<in> set (pending_facts r db)"
    "distinct (map fr_factId (run_rows r db))"
  obtains c where "claim_of row = Inr c" "holds_claim r row c claimed"
proof -
  let ?db = "repair_claim r db"
  obtain c b where c: "claim_of row = Inr c" and b: "b \<in> set (db_bindings ?db)" "bd_runId b = r" "claimable row b"
    and claimed: "claimed = set_inflight r (claimable row) (Some c) ?db"
    using assms(1) by (auto simp: claim_fact_def bindR_eq_Inr split: if_splits)
  have id: "fo_id c = fr_factId row" using c by (auto simp: claim_of_def bindR_eq_Inr)
  let ?f = "\<lambda>b. if bd_runId b = r \<and> claimable row b then b\<lparr>bd_inflight := Some c\<rparr> else b"
  have bs: "db_bindings claimed = map ?f (db_bindings ?db)" unfolding claimed by (simp add: set_inflight_def)
  have facts: "db_facts claimed = db_facts db" unfolding claimed by simp
  have "(r, Some c) \<in> set (snd (inbox_view claimed))"
  proof -
    have "?f b \<in> set (db_bindings claimed)" unfolding bs using b(1) by simp
    from view_binding [OF this] b show ?thesis by simp
  qed
  moreover have "x = Some c \<or> x \<noteq> None \<and> map_option fo_id x \<noteq> Some (fr_factId row) \<and>
      (\<exists>b \<in> set (db_bindings ?db). bd_runId b = r \<and> bd_inflight b = x)" if x: "(r, x) \<in> set (snd (inbox_view claimed))" for x
  proof -
    obtain b' where b': "b' \<in> set (db_bindings ?db)" "bd_runId (?f b') = r" "bd_inflight (?f b') = x"
      using x by (auto simp: inbox_view_def bs)
    then show ?thesis by (cases "bd_runId b' = r \<and> claimable row b'") (auto simp: claimable_def split: if_splits)
  qed
  note cases = this
  have "fr_outcome f = None" if x: "(r, x) \<in> set (snd (inbox_view claimed))" and f: "f \<in> set (db_facts claimed)" "fr_runId f = r"
    "map_option fo_id x = Some (fr_factId f)" for x f
    using cases [OF x]
  proof
    assume "x = Some c"
    then have "fr_factId f = fr_factId row" using f(3) id by simp
    moreover have "f \<in> set (run_rows r db)" "row \<in> set (run_rows r db)"
      using f(1,2) facts assms(2) by (auto simp: run_rows_def pending_facts_def)
    ultimately have "f = row" using assms(3) by (auto simp: distinct_map dest: inj_onD)
    then show ?thesis using assms(2) by (simp add: pending_facts_def)
  next
    assume "x \<noteq> None \<and> map_option fo_id x \<noteq> Some (fr_factId row) \<and>
      (\<exists>b \<in> set (db_bindings ?db). bd_runId b = r \<and> bd_inflight b = x)"
    then obtain b' where b': "b' \<in> set (db_bindings ?db)" "bd_runId b' = r" "bd_inflight b' = x" "x \<noteq> None" by blast
    show ?thesis using repaired_binding [OF b'(1,2)] f facts b'(3) by metis
  qed
  ultimately have "holds_claim r row c claimed" using id cases unfolding holds_claim_def
    by (metis (no_types, lifting) option.map(2))
  with c show ?thesis by (rule that)
qed

lemma drain_loop_claimed:
  assumes unspent: "\<not> budget_spent budget elapsed n" and c: "claim_of row = Inr c" "holds_claim (os_runId sv) row c db"
    and row: "next_fact (os_runId sv) db = Some row" and p: "process_fact sv row db = Some (db1, Inr sm)"
  shows "drain_loop sv budget elapsed n db =
    drain_loop sv budget elapsed (n + 1) (acknowledge (os_runId sv) (fr_factId row) (outcome_of sm) db1)"
  by (subst drain_loop.simps) (simp only: unspent repair_held [OF c(2)] row claim_held [OF c] p
      option.case sum.case prod.case if_False)

lemma crash_invisible:
  assumes books: "books_inv db" and ids: "distinct (map fr_factId (run_rows (os_runId sv) db))"
    and unspent: "\<not> budget_spent budget elapsed n"
    and row: "next_fact (os_runId sv) (repair_claim (os_runId sv) db) = Some row"
    and claim: "claim_fact (os_runId sv) row (repair_claim (os_runId sv) db) = Inr claimed"
    and p: "process_fact sv row claimed = Some (db1, Inr sm)"
  shows "drain_loop sv budget elapsed n claimed = drain_loop sv budget elapsed n db \<and>
    drain_loop sv budget elapsed n db1 = drain_loop sv budget elapsed n db \<and>
    process_fact sv row db1 = Some (db1, Inr sm)"
proof -
  let ?r = "os_runId sv" and ?finish = "drain_loop sv budget elapsed (n + 1)
    (acknowledge (os_runId sv) (fr_factId row) (outcome_of sm) db1)"
  have whole: "drain_loop sv budget elapsed n db = ?finish"
    by (subst drain_loop.simps) (simp only: unspent row claim p option.case sum.case prod.case if_False)
  have pending: "row \<in> set (pending_facts ?r db)" using next_fact_pending [OF row] by simp
  obtain c where c: "claim_of row = Inr c" "holds_claim ?r row c claimed"
    by (rule claimed_holds [OF claim pending ids])
  have next': "next_fact ?r d = Some row" if "db_facts d = db_facts db" for d
    using row that by (simp add: next_fact_def pending_facts_def)
  have facts: "db_facts claimed = db_facts db" using claim_fields [OF claim] by simp
  have view: "inbox_view db1 = inbox_view claimed" using process_fact_view [OF p] by simp
  then have facts1: "db_facts db1 = db_facts claimed" by (simp add: inbox_view_def)
  have held1: "holds_claim ?r row c db1" using c(2) view facts1 by (simp add: holds_claim_def)
  have "unrelated db claimed"
  proof -
    have "unrelated db (repair_claim ?r db)" unfolding repair_claim_def by (rule unrelated_inflight)
    moreover have "unrelated (repair_claim ?r db) claimed"
      using claim by (auto simp: claim_fact_def bindR_eq_Inr split: if_splits intro: unrelated_inflight)
    ultimately show ?thesis by (rule unrelated_trans)
  qed
  then have "books_inv claimed" by (rule books_unrelated [OF books])
  from process_again [OF this p] have p1: "process_fact sv row db1 = Some (db1, Inr sm)" .
  show ?thesis
    using whole drain_loop_claimed [OF unspent c next' [OF facts] p]
      drain_loop_claimed [OF unspent c(1) held1 next' p1] facts facts1 p1 by simp
qed

end
