(* ===== verification/ServiceFixtures.thy ===== *)
theory ServiceFixtures
  imports InboxOrder Fixtures OrderProperties
begin

text \<open>
  One funded run with concrete numbers: a Canadian run bound to an account of 20,000 dollars under
  the default portfolio policy, one submitted order and the quote that fills it. The witnesses of
  the properties of the order service and of the inbox evaluate the model on it.
\<close>

definition sample_service :: order_service where
  "sample_service = \<lparr>os_runId = ''run-1'', os_accountId = ''account-1'', os_currency = CAD\<rparr>"

definition empty_database :: database where
  "empty_database = \<lparr>
     db_runs = [\<lparr>br_id = ''run-1'', br_market = CA_TSX, br_status = RUNNING,
       br_sessionDate = ''2026-09-04'', br_scheduledClose = int_of_time (sample_time ''20:00:00'')\<rparr>],
     db_instruments = [\<lparr>in_id = ''i1'', in_market = CA_TSX, in_currency = CAD, in_sector = Some ''Energy''\<rparr>],
     db_bindings = [], db_accounts = [], db_orders = [], db_liquidity = [], db_facts = [],
     db_place = (\<lambda>x y. Fin 0), db_collate = string_cmp\<rparr>"

definition funded_account :: account_store where
  "funded_account = (let l = \<lparr>lg_currency = LCAD, lg_cash = num 20000, lg_session = ''2026-09-04'',
     lg_openingEquity = num 20000, lg_dailyLossLimit = num 500, lg_realizedPnl = Fin 0,
     lg_positions = [], lg_reservations = [], lg_events = [], lg_lastEventAt = sample_time ''14:29:00''\<rparr>
   in \<lparr>ac_initial = l, ac_state = l, ac_rows = [], ac_nextSequence = 1, ac_sinceCheckpoint = 0,
     ac_checkpoints = []\<rparr>)"

lemma funded_account: "create_account (create_funded_ledger LCAD (num 20000) ''2026-09-04''
    (sample_time ''14:29:00'') (num 500)) = Inr funded_account"
  by code_simp

definition sample_policy :: funded_policy_t where
  "sample_policy = \<lparr>y_participation = Fin 1, y_impactBps = Fin 0,
     y_portfolio = Some default_funded_portfolio_policy\<rparr>"

text \<open>The database after a committed operation.\<close>

definition db_of :: "('e + database) \<Rightarrow> database" where
  "db_of r = (case r of Inr db \<Rightarrow> db | Inl e \<Rightarrow> empty_database)"

definition sample_bound :: database where
  "sample_bound = db_of (bind_run sample_service (put_account ''account-1'' funded_account empty_database)
     sample_policy None)"

lemma not_isl: "\<not> isl r \<longleftrightarrow> (\<exists>x. r = Inr x)"
  by (cases r) auto

lemma sample_bound: "bind_run sample_service (put_account ''account-1'' funded_account empty_database)
    sample_policy None = Inr sample_bound"
proof -
  have "\<not> isl (bind_run sample_service (put_account ''account-1'' funded_account empty_database) sample_policy None)"
    by code_simp
  then show ?thesis by (auto simp: sample_bound_def db_of_def not_isl)
qed

lemma reach_bound: "service_reachable sample_bound"
proof -
  have "service_reachable (put_account ''account-1'' funded_account empty_database)"
    by (rule reach_next [OF reach_fresh opened [OF _ funded_account]])
      (simp_all add: fresh_database_def empty_database_def find_account_def)
  then show ?thesis by (rule reach_next) (rule bound [OF sample_bound])
qed

definition sample_submitted :: "(database \<times> pending_order) result" where
  "sample_submitted = submit_order sample_service sample_bound ''i1'' sample_submission (num 10100) (num 102) None"

lemma sample_submitted: "\<exists>db order. sample_submitted = Inr (db, order) \<and> r_status order = PENDING \<and> r_orderId order = ''order-1''"
proof -
  have "case sample_submitted of Inr (db, order) \<Rightarrow> r_status order = PENDING \<and> r_orderId order = ''order-1'' | Inl e \<Rightarrow> False"
    by code_simp
  then show ?thesis by (auto split: sum.splits)
qed

end
