(* ===== verification/OrderServiceProperties.thy ===== *)
theory OrderServiceProperties
  imports ServiceFixtures
begin

text \<open>
  What the funded order service, the session driver and the inbox guarantee: every operation
  returns, the ledger of an account mirrors its orders in every reachable database, a submission
  respects the portfolio limits, the arrival order of a batch does not matter, the drain takes the
  facts in order, and a crash between its transactions leaves no trace.
\<close>

section \<open>Termination\<close>

lemma reachable_keyed: "service_reachable db \<Longrightarrow> keyed_orders db"
  using books_reachable by (simp add: books_inv_def)

lemma driver_returns: "keyed_orders db \<Longrightarrow> \<exists>y. process_session_facts sv db inputs = Some y"
  using deliver_all_returns by (fastforce simp: process_session_facts_def split: sum.split)

lemma drain_returns: "keyed_orders db \<Longrightarrow> \<exists>y. drain_inbox r lockFree budget elapsed db = Some y"
  using drain_loop_returns by (fastforce simp: drain_inbox_def split: option.split)

text \<open>
  C5: Quotes, batches and drains always end. In every reachable database a quote returns although
  a risk veto cancels the vetoed order and starts again, a batch of facts returns, and the drain
  of the inbox returns, with any budget, for any run.
\<close>

theorem service_returns:
  assumes "service_reachable db"
  shows "quote_orders sv db i quote participation impactBps cause \<noteq> None \<and>
    process_session_facts sv db inputs \<noteq> None \<and> drain_inbox runId lockFree budget elapsed db \<noteq> None"
  using quote_orders_returns driver_returns drain_returns reachable_keyed [OF assms] by (metis option.distinct(1))

lemma service_returns_witness:
  "drain_inbox ''run-1'' True None (\<lambda>n. Fin 0) sample_bound \<noteq> None"
  using service_returns [OF reach_bound] by blast

section \<open>The account and its orders\<close>

lemma holding_full [simp]: "holding (full_ledger s) i = holding (ac_state s) i"
  by (simp add: holding_def full_ledger_def)

lemma reachable_holding:
  "service_reachable db \<Longrightarrow> find_account db a = Some s \<Longrightarrow> holding (ac_state s) i = expected_holding db a i"
  using books_reachable [of db] by (simp add: books_inv_def account_ok_def)

text \<open>
  C1: The ledger mirrors the orders. In every database that the operations of the service, the
  inbox and the ledger store can lead to, cash is reserved in the ledger of an account exactly for
  the orders of its runs that are pending, and it holds a position exactly for those whose
  execution is open, in the instrument of the order and with the shares the execution has left.
\<close>

theorem ledger_mirrors_orders:
  assumes "service_reachable db" "find_account db a = Some s"
  shows "distinct (map ow_orderId (db_orders db)) \<and>
    (map_of (lg_reservations (ac_state s)) i \<noteq> None \<longleftrightarrow>
       (\<exists>w. account_order db a i = Some w \<and> is_pending (ow_state w))) \<and>
    map_option (\<lambda>p. (fp_instrumentId p, fp_shares p)) (map_of (lg_positions (ac_state s)) i) =
      Option.bind (account_order db a i) (\<lambda>w. map_option
        (\<lambda>(x, pending). (ow_instrumentId w, remaining_of (ox_position x))) (open_part (ow_state w)))"
proof -
  have "distinct (map ow_orderId (db_orders db))"
    using reachable_keyed [OF assms(1)] by (simp add: keyed_orders_def)
  then show ?thesis using reachable_holding [OF assms, of i]
    by (cases "account_order db a i")
      (auto simp: holding_def expected_holding_def row_holding_def order_holding_def open_holding_def)
qed

lemma ledger_mirrors_orders_witness:
  "\<exists>db order s. sample_submitted = Inr (db, order) \<and> find_account db ''account-1'' = Some s \<and>
     map_of (lg_reservations (ac_state s)) ''order-1'' \<noteq> None"
proof -
  obtain db order where s: "sample_submitted = Inr (db, order)" "r_status order = PENDING" "r_orderId order = ''order-1''"
    using sample_submitted by blast
  have reach: "service_reachable db"
    by (rule reach_next [OF reach_bound]) (rule submitted [OF s(1) [unfolded sample_submitted_def]])
  have *: "case sample_submitted of Inr (db, order) \<Rightarrow> find_account db ''account-1'' \<noteq> None \<and>
      (case account_order db ''account-1'' ''order-1'' of None \<Rightarrow> False | Some w \<Rightarrow> is_pending (ow_state w)) | Inl e \<Rightarrow> False"
    by code_simp
  then have "find_account db ''account-1'' \<noteq> None"
    "case account_order db ''account-1'' ''order-1'' of None \<Rightarrow> False | Some w \<Rightarrow> is_pending (ow_state w)"
    unfolding s(1) by simp_all
  then obtain st w where "find_account db ''account-1'' = Some st" "account_order db ''account-1'' ''order-1'' = Some w"
    "is_pending (ow_state w)" by (auto split: option.splits)
  then show ?thesis using ledger_mirrors_orders [OF reach, of "''account-1''" st "''order-1''"] s(1) by blast
qed

section \<open>The limits of the portfolio\<close>

lemma normalize_same: "normalize_funded_policy p = Inr n \<Longrightarrow> n = p"
  by (auto simp: normalize_funded_policy_def bindR_eq_Inr Let_def split: if_splits)

lemma normalize_valid: "normalize_funded_policy p = Inr n \<Longrightarrow> y_portfolio n = Some v \<Longrightarrow> \<not> invalid_portfolio v"
  using normalize_same [of p n]
  by (auto simp: normalize_funded_policy_def funded_policy_def bindR_eq_Inr Let_def split: if_splits)

text \<open>What the checks of a new order demand of the run's active orders.\<close>

definition exposure_within :: "funded_portfolio_policy \<Rightarrow> string \<Rightarrow> active_row list \<Rightarrow> bool" where
  "exposure_within v i active \<longleftrightarrow>
     (\<forall>limit. v_maxSymbolNotional v = Some limit \<longrightarrow>
        \<not> limit < sum_of (\<lambda>a. order_notional (ar_state a)) (filter (\<lambda>a. ar_instrumentId a = i) active)) \<and>
     (\<forall>limit. v_maxSectorNotional v = Some limit \<longrightarrow> (\<exists>sector a. a \<in> set active \<and> ar_instrumentId a = i \<and>
        ar_sector a = Some sector \<and> sector \<noteq> [] \<and>
        \<not> limit < sum_of (\<lambda>a. order_notional (ar_state a)) (filter (\<lambda>a. ar_sector a = Some sector) active)))"

definition context_within :: "funded_portfolio_policy \<Rightarrow> pending_order \<Rightarrow> string \<Rightarrow> bool" where
  "context_within v order instant \<longleftrightarrow> (\<forall>key \<in> set (required_contexts v).
     (let reading = find (\<lambda>r. cr_signalKey r = key) (context_readings order) in
      (v_requireFreshContext v \<longrightarrow> (\<exists>r. reading = Some r \<and> cr_status r \<notin> {UNAVAILABLE, STALE} \<and>
         Fin 0 \<le> date_parse instant - date_parse (cr_timestamp r) \<and>
         date_parse instant - date_parse (cr_timestamp r) \<le> v_contextMaxAgeSeconds v * Fin 1000)) \<and>
      (v_vetoOnWeakContext v \<longrightarrow> map_option cr_status reading \<noteq> Some WEAK)))"

definition history_within :: "funded_portfolio_policy \<Rightarrow> string \<Rightarrow> string \<Rightarrow> final_exit list \<Rightarrow> bool" where
  "history_within v i instant exits \<longleftrightarrow>
     \<not> v_maxConsecutiveStops v \<le> num (int (length (takeWhile fe_stopped exits))) \<and>
     (\<forall>x. find (\<lambda>x. fe_stopped x \<and> fe_instrumentId x = i) exits = Some x \<longrightarrow>
        \<not> date_parse instant < date_parse (fe_at x) + v_cooldownMinutesAfterStop v * Fin 60000)"

lemma check_contexts_within:
  assumes "check_contexts v order instant keys = Inr ()" "\<not> v_contextMaxAgeSeconds v * Fin 1000 < Fin 0"
    "v_contextMaxAgeSeconds v * Fin 1000 \<noteq> NaN" "key \<in> set keys"
  shows "let reading = find (\<lambda>r. cr_signalKey r = key) (context_readings order) in
      (v_requireFreshContext v \<longrightarrow> (\<exists>r. reading = Some r \<and> cr_status r \<notin> {UNAVAILABLE, STALE} \<and>
         Fin 0 \<le> date_parse instant - date_parse (cr_timestamp r) \<and>
         date_parse instant - date_parse (cr_timestamp r) \<le> v_contextMaxAgeSeconds v * Fin 1000)) \<and>
      (v_vetoOnWeakContext v \<longrightarrow> map_option cr_status reading \<noteq> Some WEAK)"
proof -
  have "check_context v order instant key = Inr ()"
    using assms(1,4) by (induction keys) (auto simp: bindR_eq_Inr)
  moreover have "age \<le> m" if "is_finite age" "\<not> m < age" "m \<noteq> NaN" for age m :: jsnum
    using that by (cases age; cases m) auto
  moreover have "Fin 0 \<le> age" if "is_finite age" "\<not> age < Fin 0" for age
    using that by (cases age) auto
  ultimately show ?thesis using assms(3)
    by (cases "find (\<lambda>r. cr_signalKey r = key) (context_readings order)")
      (auto simp: check_context_def veto_def Let_def split: if_splits)
qed

lemma check_symbol_within: "check_symbol v order i active = Inr () \<Longrightarrow> v_maxSymbolNotional v = Some limit \<Longrightarrow>
    \<not> limit < sum_of (\<lambda>a. order_notional (ar_state a)) (filter (\<lambda>a. ar_instrumentId a = i) active)"
  by (auto simp: check_symbol_def veto_def split: if_splits)

lemma check_sector_within:
  assumes "check_sector v order i active = Inr ()" "v_maxSectorNotional v = Some limit"
  shows "\<exists>sector a. a \<in> set active \<and> ar_instrumentId a = i \<and> ar_sector a = Some sector \<and> sector \<noteq> [] \<and>
    \<not> limit < sum_of (\<lambda>a. order_notional (ar_state a)) (filter (\<lambda>a. ar_sector a = Some sector) active)"
proof -
  from assms obtain a sector where "find (\<lambda>a. ar_instrumentId a = i) active = Some a" "ar_sector a = Some sector"
    "sector \<noteq> []" "\<not> limit < sum_of (\<lambda>a. order_notional (ar_state a)) (filter (\<lambda>a. ar_sector a = Some sector) active)"
    by (auto simp: check_sector_def veto_def split: if_splits option.splits bind_splits)
  then have "a \<in> set active \<and> ar_instrumentId a = i" by (auto simp: find_Some_iff)
  then show ?thesis using \<open>ar_sector a = Some sector\<close> \<open>sector \<noteq> []\<close>
      \<open>\<not> limit < sum_of (\<lambda>a. order_notional (ar_state a)) (filter (\<lambda>a. ar_sector a = Some sector) active)\<close> by blast
qed

lemma check_history_within: "check_history v order i instant exits = Inr () \<Longrightarrow> history_within v i instant exits"
  by (auto simp: check_history_def history_within_def veto_def split: if_splits option.splits)

lemma valid_context_age:
  assumes "\<not> invalid_portfolio v"
  shows "\<not> v_contextMaxAgeSeconds v * Fin 1000 < Fin 0" "v_contextMaxAgeSeconds v * Fin 1000 \<noteq> NaN"
proof -
  obtain x where x: "v_contextMaxAgeSeconds v = Fin x" "1 \<le> x"
    using assms by (cases "v_contextMaxAgeSeconds v") (auto simp: invalid_portfolio_def)
  have "Fin 0 \<le> js (x * 1000)" using js_mono [of 0 "x * 1000"] x(2) js_of_int [of 0] by simp
  then show "\<not> v_contextMaxAgeSeconds v * Fin 1000 < Fin 0" "v_contextMaxAgeSeconds v * Fin 1000 \<noteq> NaN"
    using x by (cases "js (x * 1000)"; simp)+
qed

lemma check_portfolio_within:
  assumes "check_portfolio sv db order i instant l risk overrides = Inr ()"
    "bound_policy sv db = Some p" "y_portfolio p = Some v"
  obtains summary where "funded_account_summary l instant mark_age = Inr summary"
    "num (int (length (active_rows sv db overrides))) \<le> v_maxOpenPositions v"
    "\<not> v_maxTotalOpenRisk v < w_openRisk summary + w_reservedRisk summary + risk"
    "context_within v order instant" "exposure_within v i (active_rows sv db overrides)"
    "history_within v i instant (session_exits sv db (r_orderId order) (lg_session l) overrides)"
proof -
  obtain n where n: "normalize_funded_policy p = Inr n"
    using assms(1,2) by (auto simp: check_portfolio_def bindR_eq_Inr)
  note v = normalize_valid [OF n] normalize_same [OF n]
  let ?active = "active_rows sv db overrides"
  from assms n v(2) obtain summary where s: "funded_account_summary l instant mark_age = Inr summary"
    "\<not> v_maxOpenPositions v < num (int (length ?active))"
    "\<not> v_maxTotalOpenRisk v < w_openRisk summary + w_reservedRisk summary + risk"
    "check_contexts v order instant (required_contexts v) = Inr ()"
    "check_symbol v order i ?active = Inr ()" "check_sector v order i ?active = Inr ()"
    "check_history v order i instant (session_exits sv db (r_orderId order) (lg_session l) overrides) = Inr ()"
    by (auto simp: check_portfolio_def bindR_eq_Inr Let_def veto_def split: if_splits)
  have valid: "\<not> invalid_portfolio v" using v assms(3) by simp
  then have "is_finite (v_maxOpenPositions v)"
    by (cases "v_maxOpenPositions v") (auto simp: invalid_portfolio_def)
  then have "num (int (length ?active)) \<le> v_maxOpenPositions v"
    using s(2) by (cases "v_maxOpenPositions v") auto
  moreover have "context_within v order instant"
    unfolding context_within_def using check_contexts_within [OF s(4) valid_context_age [OF valid]] by blast
  moreover have "exposure_within v i ?active"
    unfolding exposure_within_def using check_symbol_within [OF s(5)] check_sector_within [OF s(6)] by blast
  ultimately show thesis using s(1,3) check_history_within [OF s(7)] that by blast
qed

lemma active_rows_cong:
  "db_orders db' = db_orders db \<Longrightarrow> db_instruments db' = db_instruments db \<Longrightarrow> db_place db' = db_place db \<Longrightarrow>
     active_rows sv db' overrides = active_rows sv db overrides"
  by (simp add: active_rows_def select_orders_def find_instrument_def)

lemma session_exits_cong:
  "db_orders db' = db_orders db \<Longrightarrow> db_bindings db' = db_bindings db \<Longrightarrow> db_runs db' = db_runs db \<Longrightarrow>
     db_place db' = db_place db \<Longrightarrow> session_exits sv db' orderId session overrides = session_exits sv db orderId session overrides"
  by (simp add: session_exits_def select_orders_def)

lemma submit_entry_order_id: "submit_entry_order input = Inr r \<Longrightarrow> r_orderId r = si_orderId input"
  by (auto simp: submit_entry_order_def Let_def bindR_eq_Inr split: if_splits)

lemma ledger_transaction_place: "ledger_transaction sv cause db es = Inr db' \<Longrightarrow> db_place db' = db_place db"
  by (auto simp: ledger_transaction_def bindR_eq_Inr split: option.splits)

text \<open>A new order has no reservation yet, so its reservation is not mistaken for a retry.\<close>

lemma new_order_checked:
  assumes reach: "service_reachable db" and new: "find_order db (r_orderId initial) = None"
    and inserted: "insert_order db (os_runId sv) i initial cause = Inr db1" and pending: "r_status initial = PENDING"
    and reserved: "reserve sv i debit risk cause db1 initial = Inr db'"
  obtains s where "find_account db (os_accountId sv) = Some s"
    "check_portfolio sv db1 initial i (r_submittedAt initial) (ac_state s) risk [] = Inr ()"
    "ledger_transaction sv cause db1 [reserve_event sv initial debit risk] = Inr db'"
proof -
  from inserted obtain w where db1: "db1 = db\<lparr>db_orders := db_orders db @ [w]\<rparr>"
    "ow_state w = initial" "ow_orderId w = r_orderId initial" by (elim insert_orderE) auto
  from reserved show thesis
  proof (rule reserveE)
    fix s
    assume s: "find_account db1 (os_accountId sv) = Some s"
      and cases: "map_of (lg_reservations (ac_state s)) (r_orderId initial) \<noteq> None \<or>
        (\<exists>w \<in> set (db_orders db1). ow_orderId w = r_orderId initial \<and> r_status (ow_state w) \<noteq> PENDING) \<or>
        check_portfolio sv db1 initial i (r_submittedAt initial) (ac_state s) risk [] = Inr ()"
      and tx: "ledger_transaction sv cause db1 [reserve_event sv initial debit risk] = Inr db'"
    have account: "find_account db (os_accountId sv) = Some s" using s db1(1) by (simp add: find_account_def)
    have unknown: "r_orderId initial \<notin> ow_orderId ` set (db_orders db)" using new by (simp add: find_order_None)
    then have "account_order db (os_accountId sv) (r_orderId initial) = None"
      by (auto simp: account_order_def find_None_iff image_iff)
    then have "map_of (lg_reservations (ac_state s)) (r_orderId initial) = None"
      using reachable_holding [OF reach account, of "r_orderId initial"]
      by (simp add: holding_def expected_holding_def)
    moreover have "\<forall>w \<in> set (db_orders db1). ow_orderId w = r_orderId initial \<longrightarrow> r_status (ow_state w) = PENDING"
      using unknown pending db1 by (auto simp: image_iff)
    ultimately show thesis using that account tx cases by blast
  qed
qed

text \<open>
  C3: A submission respects the limits of the portfolio. When a new order is accepted in a
  reachable database, the orders of the run that are active afterwards, the new one included, are
  at most the permitted number; the open, the reserved and the new risk together do not exceed the
  permitted risk; the exposure in the instrument and its sector is within its limits; the required
  market contexts are present, fresh and not weak where the policy demands it; there have been
  fewer stops in a row than the limit and none of the instrument within the cooldown; and the
  ledger of the account holds a reservation for the order.
\<close>

theorem submission_within_limits:
  assumes "service_reachable db" "submit_order sv db i input debit risk cause = Inr (db', order)"
    "find_order db (si_orderId input) = None" "bound_policy sv db = Some p" "y_portfolio p = Some v"
  shows "\<exists>s s' summary. find_account db (os_accountId sv) = Some s \<and> find_account db' (os_accountId sv) = Some s' \<and>
    funded_account_summary (ac_state s) (r_submittedAt order) mark_age = Inr summary \<and>
    num (int (length (active_rows sv db' []))) \<le> v_maxOpenPositions v \<and>
    \<not> v_maxTotalOpenRisk v < w_openRisk summary + w_reservedRisk summary + risk \<and>
    exposure_within v i (active_rows sv db' []) \<and>
    context_within v order (r_submittedAt order) \<and>
    history_within v i (r_submittedAt order)
      (session_exits sv db' (r_orderId order) (lg_session (ac_state s)) []) \<and>
    order \<in> ar_state ` set (active_rows sv db' []) \<and>
    map_of (lg_reservations (ac_state s')) (r_orderId order) \<noteq> None"
  using assms(2)
proof (cases rule: submit_orderE)
  case (new initial db1)
  have st: "r_status initial = PENDING" using new(1) by (rule submit_entry_order_window)
  obtain s where s: "find_account db (os_accountId sv) = Some s"
    "check_portfolio sv db1 initial i (r_submittedAt initial) (ac_state s) risk [] = Inr ()"
    "ledger_transaction sv cause db1 [reserve_event sv initial debit risk] = Inr db'"
    using new_order_checked [OF assms(1) new(3,4) st new(6)] by blast
  from new(4) obtain w n where db1: "db1 = db\<lparr>db_orders := db_orders db @ [w]\<rparr>" "ow_state w = initial"
    "ow_orderId w = r_orderId initial" "ow_runId w = os_runId sv" "find_instrument db (ow_instrumentId w) = Some n"
    by (auto simp: insert_order_def split: if_splits)
  note same = ledger_transaction_fields [OF s(3)] ledger_transaction_place [OF s(3)]
  have active: "active_rows sv db' [] = active_rows sv db1 []" by (rule active_rows_cong) (simp_all add: same)
  have exits: "session_exits sv db' o' t [] = session_exits sv db1 o' t []" for o' t
    by (rule session_exits_cong) (simp_all add: same)
  have bound: "bound_policy sv db1 = Some p" using assms(4) db1(1) by (simp add: bound_policy_def find_binding_def)
  obtain summary where within: "funded_account_summary (ac_state s) (r_submittedAt initial) mark_age = Inr summary"
    "num (int (length (active_rows sv db1 []))) \<le> v_maxOpenPositions v"
    "\<not> v_maxTotalOpenRisk v < w_openRisk summary + w_reservedRisk summary + risk"
    "context_within v initial (r_submittedAt initial)" "exposure_within v i (active_rows sv db1 [])"
    "history_within v i (r_submittedAt initial) (session_exits sv db1 (r_orderId initial) (lg_session (ac_state s)) [])"
    by (rule check_portfolio_within [OF s(2) bound assms(5)])
  have pending: "is_pending initial" using st by (simp add: is_pending_def)
  have listed: "initial \<in> ar_state ` set (active_rows sv db1 [])"
    using db1 pending by (force simp: active_rows_def select_orders_def List.map_filter_def find_instrument_def override_def is_active_def
        image_iff)
  obtain s' where s': "find_account db' (os_accountId sv) = Some s'"
    using s(3) by (auto simp: ledger_transaction_def bindR_eq_Inr find_account_def update_conv' split: option.splits)
  have "service_reachable db'" by (rule reach_next [OF assms(1)]) (rule submitted [OF assms(2)])
  then have "map_of (lg_reservations (ac_state s')) (r_orderId initial) \<noteq> None"
  proof -
    assume reach: "service_reachable db'"
    have "find (\<lambda>v. ow_orderId v = r_orderId initial \<and> bound_row db' (os_accountId sv) v) (db_orders db) = None"
      using new(3) by (auto simp: find_order_def find_None_iff)
    moreover have "bound_row db' (os_accountId sv) w"
      using verify_binding_bound [OF new(2) db1(4)] db1(1) same by (simp add: bound_row_def)
    ultimately have "account_order db' (os_accountId sv) (r_orderId initial) = Some w"
      using db1 same by (simp add: account_order_def find_append')
    then show ?thesis using reachable_holding [OF reach s', of "r_orderId initial"] db1(2) pending
      by (simp add: holding_def expected_holding_def row_holding_def order_holding_def)
  qed
  then show ?thesis using s(1) s' within listed new(7) unfolding active exits by blast
qed (use assms(3) submit_entry_order_id in auto)

lemma sample_bound_policy:
  "find_order sample_bound ''order-1'' = None" "bound_policy sample_service sample_bound = Some sample_policy"
  by code_simp+

lemma submission_within_limits_witness:
  "\<exists>db order. sample_submitted = Inr (db, order) \<and> order \<in> ar_state ` set (active_rows sample_service db []) \<and>
     num (int (length (active_rows sample_service db []))) \<le> Fin 3"
proof -
  obtain db order where s: "sample_submitted = Inr (db, order)" using sample_submitted by blast
  have id: "si_orderId sample_submission = ''order-1''" by (simp add: sample_submission_def)
  have v: "y_portfolio sample_policy = Some default_funded_portfolio_policy" "v_maxOpenPositions default_funded_portfolio_policy = Fin 3"
    by (simp_all add: sample_policy_def default_funded_portfolio_policy_def)
  from submission_within_limits [OF reach_bound s [unfolded sample_submitted_def]
      sample_bound_policy(1) [folded id] sample_bound_policy(2) v(1)] s v(2)
  show ?thesis by auto
qed

section \<open>The order of a batch\<close>

text \<open>Two facts of the same time, priority and key.\<close>

definition same_place :: "fact_input \<Rightarrow> fact_input \<Rightarrow> bool" where
  "same_place x y \<longleftrightarrow> fact_time (fi_fact x) = fact_time (fi_fact y) \<and>
     fact_priority (fi_fact x) = fact_priority (fi_fact y) \<and> fact_key (fi_fact x) = fact_key (fi_fact y)"

definition timed_place :: "timed_input \<Rightarrow> (rat \<times> rat) \<times> string" where
  "timed_place x = ((rat_of (ti_time x), rat_of (fact_priority (fi_fact x))), fact_key (fi_fact x))"

lemma fact_cmp_place: "compares fact_cmp timed_place (\<lambda>x. is_double (ti_time x))"
  unfolding fact_cmp_def [abs_def] timed_place_def [abs_def]
  by (intro compares_intros) (auto simp: priority_double)

interpretation session_order: keyed_comparator fact_cmp timed_place "\<lambda>x. is_double (ti_time x)"
  by (rule compares_keyed [OF fact_cmp_place])

lemma timedE:
  assumes "timed x = Inr y"
  obtains t where "\<bar>t\<bar> \<le> max_time" "fact_time (fi_fact x) = Inr (num t)"
    "y = \<lparr>fi_fact = fi_fact x, fi_factId = fi_factId x, ti_time = num t\<rparr>"
proof -
  from assms obtain v where v: "fact_time (fi_fact x) = Inr v"
    "y = \<lparr>fi_fact = fi_fact x, fi_factId = fi_factId x, ti_time = v\<rparr>"
    by (auto simp: timed_def bindR_eq_Inr)
  then have "is_finite (date_parse (fact_instant (fi_fact x)))" "v = date_parse (fact_instant (fi_fact x))"
    by (auto simp: fact_time_def Let_def split: if_splits)
  then show thesis using that v by (metis date_parse_finite)
qed

lemma timed_Inl: "timed x = Inl e \<Longrightarrow> (Inl e :: unit result) = throw ''Invalid funded session fact time''"
  by (auto simp: timed_def fact_time_def Let_def split: if_splits)

lemma mapR_fails:
  "x \<in> set xs \<Longrightarrow> f x = Inl e \<Longrightarrow> \<forall>y \<in> set xs. \<forall>e'. f y = Inl e' \<longrightarrow> e' = e \<Longrightarrow> mapR f xs = Inl e"
proof (induction xs)
  case (Cons y ys)
  show ?case
  proof (cases "f y")
    case (Inl e')
    have "y \<in> set (y # ys)" by simp
    with Cons.prems(3) Inl have "e' = e" by blast
    then show ?thesis by (simp add: Inl)
  next
    case (Inr v)
    then have "x \<in> set ys" using Cons.prems(1,2) by auto
    moreover have "\<forall>y \<in> set ys. \<forall>e'. f y = Inl e' \<longrightarrow> e' = e" using Cons.prems(3) unfolding list.set by blast
    ultimately have "mapR f ys = Inl e" using Cons.IH Cons.prems(2) by blast
    then show ?thesis using Inr by simp
  qed
qed simp

lemma mapR_total: "(\<And>x. x \<in> set xs \<Longrightarrow> f x = Inr (g x)) \<Longrightarrow> mapR f xs = Inr (map g xs)"
  by (induction xs) auto

lemma timed_permuted:
  assumes "mset xs = mset ys"
  obtains (failed) e where "mapR timed xs = Inl e" "mapR timed ys = Inl e"
  | (timed) g where "mapR timed xs = Inr (map g xs)" "mapR timed ys = Inr (map g ys)" "\<And>x. x \<in> set xs \<Longrightarrow> timed x = Inr (g x)"
proof -
  have sets: "set xs = set ys" using assms by (metis set_mset_mset)
  show thesis
  proof (cases "\<exists>x \<in> set xs. \<exists>e. timed x = Inl e")
    case True
    then obtain x e where x: "x \<in> set xs" "timed x = Inl e" by blast
    have "e' = e" if "timed y = Inl e'" for y e'
    proof -
      have "(Inl e' :: unit result) = Inl e" unfolding timed_Inl [OF that] timed_Inl [OF x(2)] by (rule refl)
      then show ?thesis by simp
    qed
    then have "\<forall>y \<in> set xs. \<forall>e'. timed y = Inl e' \<longrightarrow> e' = e" by blast
    then have "mapR timed xs = Inl e" "mapR timed ys = Inl e"
      using mapR_fails [of x xs timed e] mapR_fails [of x ys timed e] x sets by blast+
    then show thesis by (rule failed)
  next
    case False
    define g where "g = (\<lambda>x. case timed x of Inr y \<Rightarrow> y | Inl e \<Rightarrow> undefined)"
    have g: "timed x = Inr (g x)" if "x \<in> set xs" for x
      using False that by (cases "timed x") (auto simp: g_def)
    have "mapR timed xs = Inr (map g xs)" "mapR timed ys = Inr (map g ys)" using g sets by (auto intro: mapR_total)
    then show thesis using g by (rule timed)
  qed
qed

text \<open>
  C6: The arrival order of a batch does not matter. Two batches with the same facts, in which
  facts of the same time, priority and key are the same fact, lead to the same database and the
  same summary, or to the same error with the same part of the batch committed.
\<close>

theorem batch_order_independent:
  assumes "mset inputs = mset inputs'"
    "\<forall>x \<in> set inputs. \<forall>y \<in> set inputs. same_place x y \<longrightarrow> x = y"
  shows "process_session_facts sv db inputs = process_session_facts sv db inputs'"
  using assms(1)
proof (cases rule: timed_permuted)
  case (timed g)
  have ok: "\<forall>y \<in> set (map g inputs). is_double (ti_time y)"
  proof
    fix y assume "y \<in> set (map g inputs)"
    then obtain x where "x \<in> set inputs" "y = g x" by auto
    with timed(3) have "timed x = Inr y" by simp
    then obtain t where "\<bar>t\<bar> \<le> max_time" "ti_time y = num t" by (rule timedE) simp
    then show "is_double (ti_time y)" by (auto simp: max_time_def intro!: is_double_num)
  qed
  have "inj_on timed_place (set (map g inputs))"
  proof (rule inj_onI)
    fix y y' assume in_batch: "y \<in> set (map g inputs)" "y' \<in> set (map g inputs)" and same: "timed_place y = timed_place y'"
    then obtain x x' where x: "x \<in> set inputs" "y = g x" "x' \<in> set inputs" "y' = g x'" by auto
    obtain t where t: "fact_time (fi_fact x) = Inr (num t)" "y = \<lparr>fi_fact = fi_fact x, fi_factId = fi_factId x, ti_time = num t\<rparr>"
      using timed(3) [OF x(1)] x(2) by (auto elim: timedE)
    obtain t' where t': "fact_time (fi_fact x') = Inr (num t')" "y' = \<lparr>fi_fact = fi_fact x', fi_factId = fi_factId x', ti_time = num t'\<rparr>"
      using timed(3) [OF x(3)] x(4) by (auto elim: timedE)
    have "rat_of (fact_priority f) = rat_of (fact_priority f') \<Longrightarrow> fact_priority f = fact_priority f'" for f f'
      by (cases f; cases f') (auto simp: fact_priority_def)
    then have "same_place x x'" using same t t' by (auto simp: timed_place_def same_place_def)
    then show "y = y'" using assms(2) x by blast
  qed
  then have "js_sort fact_cmp (map g inputs) = js_sort fact_cmp (map g inputs')"
    using ok assms(1) by (intro session_order.js_sort_permutation) simp_all
  then show ?thesis using timed(1,2) by (simp add: process_session_facts_def)
qed (simp add: process_session_facts_def)

definition sample_inputs :: "fact_input list" where
  "sample_inputs = [\<lparr>fi_fact = Clock (sample_time ''14:30:00''), fi_factId = None\<rparr>,
     \<lparr>fi_fact = Signal ''i1'' sample_submission (num 10100) (num 102), fi_factId = None\<rparr>]"

lemma batch_order_independent_witness:
  "process_session_facts sample_service sample_bound (rev sample_inputs) =
     process_session_facts sample_service sample_bound sample_inputs"
proof -
  have "\<forall>x \<in> set (rev sample_inputs). \<forall>y \<in> set (rev sample_inputs). same_place x y \<longrightarrow> x = y"
    by (simp add: sample_inputs_def same_place_def fact_priority_def)
  from batch_order_independent [OF _ this] show ?thesis by simp
qed

end
