(* ===== verification/InboxProperties.thy ===== *)
theory InboxProperties
  imports OrderServiceProperties
begin

text \<open>
  What the durable inbox guarantees: the drain takes the facts in the order of their places, a
  crash after any transaction of a fact leaves nothing to be seen once the drain has run again,
  and where the claim forgets the sort key of a comparison run.
\<close>

section \<open>The drain takes the facts in order\<close>

text \<open>Not before another fact in time, nor at its time with a higher priority.\<close>

definition not_after :: "fact_order \<Rightarrow> fact_order \<Rightarrow> bool" where
  "not_after x y \<longleftrightarrow> fo_at x < fo_at y \<or> fo_at x = fo_at y \<and> fo_priority x \<le> fo_priority y"

text \<open>What the place of the trace says of the order.\<close>

lemma trace_place_order:
  assumes "placed x" "placed y" "trace_place keyed x \<le> trace_place keyed y"
  shows "not_after x y \<and> (\<not> keyed \<longrightarrow> compare_fact_order x y \<le> Fin 0)"
proof
  obtain p q where "fo_priority x = fact_priority p" "fo_priority y = fact_priority q"
    using assms(1,2) by (auto simp: placed_def)
  then have "rat_of (fo_priority x) \<le> rat_of (fo_priority y) \<longleftrightarrow> fo_priority x \<le> fo_priority y"
    by (auto simp: fact_priority_def split: session_fact.splits)
  then show "not_after x y" using assms(3) by (auto simp: not_after_def trace_place_def)
  show "\<not> keyed \<longrightarrow> compare_fact_order x y \<le> Fin 0"
    using in_order_iff [OF assms(1,2)] assms(3) by (auto simp: trace_place_def fact_place_def)
qed

lemma trace_sorted:
  assumes "trace_ok keyed r db h"
  shows "sorted_wrt (\<lambda>x y. not_after x y \<and> (\<not> keyed \<longrightarrow> compare_fact_order x y \<le> Fin 0)) h"
proof -
  have "sorted_wrt (\<lambda>x y. trace_place keyed x \<le> trace_place keyed y) h" "\<forall>x \<in> set h. placed x"
    using assms by (simp_all add: trace_ok_def sorted_map)
  then show ?thesis by (induction h) (auto dest: trace_place_order)
qed

lemma trace_pending:
  assumes "trace_ok keyed r db h" "f \<in> set (pending_facts r db)" "c \<in> set h"
  shows "not_after c (order_of_row f) \<and> (\<not> keyed \<longrightarrow> compare_fact_order c (order_of_row f) \<le> Fin 0)"
proof -
  have row: "f \<in> set (run_rows r db)" "fr_outcome f = None" using assms(2) by (auto simp: pending_facts_def run_rows_def)
  have h: "h \<noteq> []" using assms(3) by auto
  have sorted_h: "sorted (map (trace_place keyed) h)" using assms(1) by (simp add: trace_ok_def)
  have "trace_place keyed c \<le> trace_place keyed (last h)"
  proof -
    obtain k where k: "k < length h" "c = h ! k" using assms(3) by (auto simp: in_set_conv_nth)
    then have "map (trace_place keyed) h ! k \<le> map (trace_place keyed) h ! (length h - 1)"
      by (intro sorted_nth_mono [OF sorted_h]) auto
    then show ?thesis using k h by (simp add: last_conv_nth)
  qed
  also have "trace_place keyed (last h) \<le> trace_place keyed (order_of_row f)" using assms(1) row h by (simp add: trace_ok_def)
  finally have "trace_place keyed c \<le> trace_place keyed (order_of_row f)" .
  then show ?thesis
    using assms(1,3) row(1) plain_placed [of keyed f] by (intro trace_place_order) (auto simp: trace_ok_def)
qed

text \<open>
  C4: The drain takes the facts in order. Over any history of batches, claims, acknowledgements
  and crashes, the facts are claimed in the order of their time and priority, and no fact that
  still waits comes before a fact that has been claimed: a late fact is recorded as such and never
  processed. When the producers have no sort keys of their own, as in every run that is not a side
  of a comparison, the order is the whole one, by time, priority, key and identity; a comparison
  run keeps only the order of time and priority, because its claims forget the sort keys.
\<close>

theorem drain_in_order:
  assumes "inbox_trace runId keyed db claims"
  shows "sorted_wrt (\<lambda>x y. not_after x y \<and> (\<not> keyed \<longrightarrow> compare_fact_order x y \<le> Fin 0)) claims \<and>
    (\<forall>f \<in> set (pending_facts runId db). \<forall>c \<in> set claims.
      not_after c (order_of_row f) \<and> (\<not> keyed \<longrightarrow> compare_fact_order c (order_of_row f) \<le> Fin 0))"
  using trace_sorted trace_pending inbox_trace_ok [OF assms] by blast

definition sample_formats :: text_formats where
  "sample_formats = \<lparr>tf_uuid = (\<lambda>s. s \<noteq> []), tf_datetime = (\<lambda>s. is_finite (date_parse s))\<rparr>"

text \<open>Two clock facts, the later one first.\<close>

definition sample_facts :: "fact_envelope list" where
  "sample_facts = [\<lparr>en_id = ''f2'', en_fact = Clock (sample_time ''14:31:00'')\<rparr>,
     \<lparr>en_id = ''f1'', en_fact = Clock (sample_time ''14:30:00'')\<rparr>]"

definition sample_inbox :: database where
  "sample_inbox = db_of (enqueue sample_formats ''run-1'' True (\<lambda>_. None) sample_facts sample_bound)"

lemma sample_inbox: "enqueue sample_formats ''run-1'' True (\<lambda>_. None) sample_facts sample_bound = Inr sample_inbox"
proof -
  have "\<not> isl (enqueue sample_formats ''run-1'' True (\<lambda>_. None) sample_facts sample_bound)" by code_simp
  then show ?thesis by (auto simp: sample_inbox_def db_of_def not_isl)
qed

definition first_claim :: "database \<Rightarrow> (fact_row \<times> database) option" where
  "first_claim db = (case next_fact ''run-1'' (repair_claim ''run-1'' db) of None \<Rightarrow> None
     | Some row \<Rightarrow> (case claim_fact ''run-1'' row (repair_claim ''run-1'' db) of Inl e \<Rightarrow> None
       | Inr db1 \<Rightarrow> Some (row, db1)))"

lemma traced_claim: "inbox_trace ''run-1'' keyed db h \<Longrightarrow> first_claim db = Some (row, db1) \<Longrightarrow>
    inbox_trace ''run-1'' keyed db1 (h @ [order_of_row row])"
  by (rule claim) (auto simp: first_claim_def split: option.splits sum.splits)

definition sample_claims :: "(fact_row \<times> fact_row \<times> database) option" where
  "sample_claims = Option.bind (first_claim sample_inbox) (\<lambda>(row1, db1).
     Option.bind (first_claim (acknowledge ''run-1'' (fr_factId row1) ''APPLIED'' db1)) (\<lambda>(row2, db2).
     Some (row1, row2, db2)))"

lemma drain_in_order_witness:
  "\<exists>row1 row2 db. sample_claims = Some (row1, row2, db) \<and> fr_factId row1 = ''f1'' \<and> fr_factId row2 = ''f2'' \<and>
     compare_fact_order (order_of_row row1) (order_of_row row2) \<le> Fin 0"
proof -
  have "case sample_claims of None \<Rightarrow> False | Some (row1, row2, db) \<Rightarrow> fr_factId row1 = ''f1'' \<and> fr_factId row2 = ''f2''"
    by code_simp
  then obtain row1 row2 db where c: "sample_claims = Some (row1, row2, db)" "fr_factId row1 = ''f1''" "fr_factId row2 = ''f2''"
    by (auto split: option.splits)
  then obtain db1 where s: "first_claim sample_inbox = Some (row1, db1)"
    "first_claim (acknowledge ''run-1'' (fr_factId row1) ''APPLIED'' db1) = Some (row2, db)"
    by (auto simp: sample_claims_def split: bind_splits)
  have "run_rows ''run-1'' sample_bound = [] \<and> set (run_claims ''run-1'' sample_bound) \<subseteq> {None} \<and>
      length (run_claims ''run-1'' sample_bound) \<le> 1" by code_simp
  then have "inbox_trace ''run-1'' False sample_bound []" by (intro empty) auto
  then have "inbox_trace ''run-1'' False sample_inbox []" by (rule batch) (rule sample_inbox, simp)
  then have "inbox_trace ''run-1'' False db1 ([] @ [order_of_row row1])" by (rule traced_claim) (rule s(1))
  then have "inbox_trace ''run-1'' False (acknowledge ''run-1'' (fr_factId row1) ''APPLIED'' db1) ([] @ [order_of_row row1])"
    by (rule acknowledged)
  then have "inbox_trace ''run-1'' False db (([] @ [order_of_row row1]) @ [order_of_row row2])" by (rule traced_claim) (rule s(2))
  from drain_in_order [OF this] have "compare_fact_order (order_of_row row1) (order_of_row row2) \<le> Fin 0" by simp
  with c show ?thesis by blast
qed

section \<open>Crashes\<close>

text \<open>
  C2: A crash between the transactions of a fact leaves no trace. When the process stops after it
  has claimed the next fact, or after the effects of the fact are committed and before it is
  acknowledged, the next drain of the inbox ends in the same database with the same result as the
  drain without the crash; in particular the effects are applied once, and processing the fact
  again reports the same summary.
\<close>

theorem crash_leaves_no_trace:
  assumes "service_reachable db" "distinct (map fr_factId (run_rows (os_runId sv) db))"
    "\<not> budget_spent budget elapsed n"
    "next_fact (os_runId sv) (repair_claim (os_runId sv) db) = Some row"
    "claim_fact (os_runId sv) row (repair_claim (os_runId sv) db) = Inr claimed"
    "process_fact sv row claimed = Some (db1, Inr sm)"
  shows "drain_loop sv budget elapsed n claimed = drain_loop sv budget elapsed n db \<and>
    drain_loop sv budget elapsed n db1 = drain_loop sv budget elapsed n db \<and>
    process_fact sv row db1 = Some (db1, Inr sm)"
  by (rule crash_invisible [OF books_reachable [OF assms(1)] assms(2-6)])

text \<open>The submission of the sample order as a fact, claimed and processed.\<close>

definition sample_signalled :: database where
  "sample_signalled = db_of (enqueue sample_formats ''run-1'' True (\<lambda>_. None)
     [\<lparr>en_id = ''f1'', en_fact = Signal ''i1'' sample_submission (num 10100) (num 102)\<rparr>] sample_bound)"

lemma sample_signalled: "enqueue sample_formats ''run-1'' True (\<lambda>_. None)
    [\<lparr>en_id = ''f1'', en_fact = Signal ''i1'' sample_submission (num 10100) (num 102)\<rparr>] sample_bound = Inr sample_signalled"
proof -
  have "\<not> isl (enqueue sample_formats ''run-1'' True (\<lambda>_. None)
    [\<lparr>en_id = ''f1'', en_fact = Signal ''i1'' sample_submission (num 10100) (num 102)\<rparr>] sample_bound)" by code_simp
  then show ?thesis by (auto simp: sample_signalled_def db_of_def not_isl)
qed

definition sample_processed :: "(fact_row \<times> database \<times> driver_state) option" where
  "sample_processed = Option.bind (first_claim sample_signalled) (\<lambda>(row, claimed).
     map_option (\<lambda>y. (row, claimed, y)) (process_fact sample_service row claimed))"

lemma crash_leaves_no_trace_witness:
  "\<exists>row claimed db1 sm. sample_processed = Some (row, claimed, db1, Inr sm) \<and> sm_processed sm = 1 \<and>
     drain_loop sample_service None (\<lambda>n. Fin 0) 0 db1 = drain_loop sample_service None (\<lambda>n. Fin 0) 0 sample_signalled"
proof -
  have processed: "case sample_processed of Some (row, claimed, db1, Inr sm) \<Rightarrow> sm_processed sm = 1 | _ \<Rightarrow> False"
    by code_simp
  then obtain row claimed db1 r where p: "sample_processed = Some (row, claimed, db1, r)"
    by (cases sample_processed) auto
  have "case r of Inl e \<Rightarrow> False | Inr sm \<Rightarrow> sm_processed sm = 1"
    using processed unfolding p by (simp split: sum.splits)
  then obtain sm where sm: "r = Inr sm" "sm_processed sm = 1" by (cases r) simp_all
  note p = p [unfolded sm(1)]
  have c: "first_claim sample_signalled = Some (row, claimed)" "process_fact sample_service row claimed = Some (db1, Inr sm)"
    using p by (auto simp: sample_processed_def split: bind_splits)
  have run: "os_runId sample_service = ''run-1''" by (simp add: sample_service_def)
  have reach: "service_reachable sample_signalled" by (rule reach_next [OF reach_bound]) (rule enqueued [OF sample_signalled])
  have ids: "distinct (map fr_factId (run_rows ''run-1'' sample_signalled))" by code_simp
  have "next_fact ''run-1'' (repair_claim ''run-1'' sample_signalled) = Some row"
    "claim_fact ''run-1'' row (repair_claim ''run-1'' sample_signalled) = Inr claimed"
    using c(1) by (auto simp: first_claim_def split: option.splits sum.splits)
  from crash_leaves_no_trace [OF reach, where sv = sample_service and budget = None and elapsed = "\<lambda>n. Fin 0" and n = 0, unfolded run,
      OF ids _ this c(2)] p sm(2) show ?thesis by (auto simp: budget_spent_def)
qed

section \<open>The claim of a comparison run\<close>

text \<open>What a claim leaves of the rest of the inbox\<close>

lemma claimed_binding:
  assumes "claim_fact r x db = Inr claimed" "plain_row keyed x" "length (run_claims r db) \<le> 1"
    "find_binding claimed r = Some b"
  shows "bd_inflight b = Some (claimed_order x) \<and> (\<exists>b0 \<in> set (db_bindings db). bd_runId b0 = r \<and> bd_clockAt b0 = bd_clockAt b)"
proof
  have claims: "run_claims r claimed = [Some (claimed_order x)]" by (rule claim_fact_claims [OF assms(1-3)])
  then show "bd_inflight b = Some (claimed_order x)" using bound_claims [of r claimed] assms(4) by simp
  have b: "b \<in> set (db_bindings claimed)" "bd_runId b = r" using assms(4) by (auto simp: find_binding_def find_Some_iff)
  show "\<exists>b0 \<in> set (db_bindings db). bd_runId b0 = r \<and> bd_clockAt b0 = bd_clockAt b"
  proof -
    obtain c where "claimed = set_inflight r (claimable x) (Some c) db"
      using assms(1) by (auto simp: claim_fact_def bindR_eq_Inr split: if_splits)
    with b(1) obtain b0 where
      "b0 \<in> set (db_bindings db)" "b = (if bd_runId b0 = r \<and> claimable x b0 then b0\<lparr>bd_inflight := Some c\<rparr> else b0)"
      unfolding set_inflight_def by auto
    with b(2) show ?thesis by (intro bexI [of _ b0]) (auto split: if_splits)
  qed
qed

lemma sibling_late:
  assumes "claim_fact r x db = Inr claimed" "plain_row keyed x" "length (run_claims r db) \<le> 1"
    "\<forall>f \<in> set (run_rows r db). fr_outcome f \<noteq> None \<longrightarrow> fr_factAt f < fr_factAt x"
    "\<forall>b \<in> set (db_bindings db). bd_runId b = r \<longrightarrow> (\<forall>t. bd_clockAt b = Some t \<longrightarrow> t \<le> fr_factAt x)"
    "plain_row True y" "fr_factAt y = fr_factAt x" "fr_priority y = fr_priority x"
  shows "late_fact claimed r (find_binding claimed r) (order_of_row y) \<longleftrightarrow>
    (fr_sortKey y, fr_factId y) \<le> (fact_key (fr_fact x), fr_factId x)"
proof -
  have "run_claims r claimed = [Some (claimed_order x)]" by (rule claim_fact_claims [OF assms(1-3)])
  then obtain b where b: "find_binding claimed r = Some b"
    using bound_claims [of r claimed] by (cases "find_binding claimed r") auto
  note c = claimed_binding [OF assms(1-3) b]
  have clock: "\<not> fr_factAt x < t" if "bd_clockAt b = Some t" for t using c assms(5) that by force
  have facts: "\<not> fr_factAt x \<le> fr_factAt f" if "f \<in> set (db_facts claimed)" "fr_runId f = r" "fr_outcome f \<noteq> None" for f
    using assms(4) that claim_fields [OF assms(1)] by (auto simp: run_rows_def not_le)
  have "late_fact claimed r (Some b) (order_of_row y) \<longleftrightarrow> compare_fact_order (order_of_row y) (claimed_order x) \<le> Fin 0"
    using facts clock c assms(7)
    by (auto simp: late_fact_def at_or_before_claim_def order_of_row_def split: option.splits)
  also have "\<dots> \<longleftrightarrow> fact_place (order_of_row y) \<le> fact_place (claimed_order x)"
    by (rule in_order_iff [OF plain_placed [OF assms(6)] claimed_placed [OF assms(2)]])
  also have "\<dots> \<longleftrightarrow> (fr_sortKey y, fr_factId y) \<le> (fact_key (fr_fact x), fr_factId x)"
    using assms(7,8) by (auto simp: fact_place_def order_of_row_def claimed_order_def)
  finally show ?thesis unfolding b .
qed

text \<open>A batch of one signal the inbox does not have yet\<close>

lemma enqueue_new_signal:
  assumes "enqueue z r lockFree sortKeys [e] db = Inr db'" "en_fact e = Signal i order debit risk"
    "sortKeys (si_orderId order) = Some key" "date_parse (si_submittedAt order) = num t"
    "\<forall>f \<in> set (run_rows r db). fr_factId f \<noteq> en_id e \<and> fr_economicKey f \<noteq> ''SIGNAL|'' @ si_orderId order"
  obtains y where "plain_row True y" "fr_factAt y = t" "fr_factId y = en_id e" "fr_sortKey y = key"
    "fr_priority y = fact_priority (en_fact e)" "fr_runId y = r"
    "db_facts db' = db_facts db @ [y\<lparr>fr_outcome := if late_fact db r (find_binding db r) (order_of_row y)
       then Some ''LATE_FACT'' else None\<rparr>]"
proof -
  have econ: "fact_economic_key (en_fact e) = Inr (''SIGNAL|'' @ si_orderId order)"
    by (simp add: fact_economic_key_def assms(2))
  have "filter (\<lambda>f. fr_runId f = r \<and> (fr_factId f \<in> {en_id e} \<or> fr_economicKey f \<in> {''SIGNAL|'' @ si_orderId order})) (db_facts db) = []"
    using assms(5) by (auto simp: run_rows_def filter_empty_conv)
  then obtain s' where step: "enqueue_fact r (find_binding db r) sortKeys \<lparr>ib_db = db, ib_byId = [], ib_byKey = []\<rparr> e = Inr s'"
    "ib_db s' = db'"
    using assms(1) by (auto simp: enqueue_def bindR_eq_Inr econ js_map_def split: if_splits)
  obtain u instant where u: "fact_time (en_fact e) = Inr u" "to_iso_string u = Inr instant"
    using step(1) by (auto simp: enqueue_fact_def Let_def bindR_eq_Inr split: if_splits)
  obtain k where k: "\<bar>k\<bar> \<le> max_time" "date_parse (fact_instant (en_fact e)) = num k" "int_of_time instant = k"
    by (rule fact_timeE [OF u])
  have t: "k = t" using k(2) assms(2,4) by (simp add: fact_instant_def)
  define y where "y = \<lparr>fr_runId = r, fr_factId = en_id e, fr_factAt = t, fr_priority = fact_priority (en_fact e),
    fr_sortKey = key, fr_economicKey = ''SIGNAL|'' @ si_orderId order, fr_fact = en_fact e, fr_outcome = None\<rparr>"
  let ?late = "if late_fact db r (find_binding db r) (order_of_row y) then Some ''LATE_FACT'' else None"
  obtain stored where "admit_fact r (find_binding db r) (en_fact e) y db = Inr (db', stored)"
    using step unfolding enqueue_fact_def Let_def u bindR_Inr k(3) t econ
    by (auto simp: assms(2,3) bindR_eq_Inr coalesce_def y_def split: if_splits)
  then have "insert_fact db (y\<lparr>fr_outcome := ?late\<rparr>) = Inr db'"
    by (auto simp: admit_fact_def assms(2) Let_def bindR_eq_Inr)
  then have "db_facts db' = db_facts db @ [y\<lparr>fr_outcome := ?late\<rparr>]" using insert_fact_fields by blast
  moreover have "plain_row True y" using k t by (simp add: plain_row_def y_def)
  ultimately show thesis by (intro that [of y]) (simp_all add: y_def)
qed

text \<open>
  C40: The claim forgets the sort key. A comparison run orders its signals by sort keys of its own,
  the rank and the source of the signal, which the rows store. Let a signal be claimed, with
  nothing of its time or later processed, and let a new signal of the same time arrive with a sort
  key. Whether it is refused as late is decided against the order id of the claimed signal and
  not against its sort key: a signal ranked after the claimed one is refused whenever its key
  comes before that order id, and a signal ranked before it is admitted whenever its key comes
  after.
\<close>

theorem claim_forgets_sort_key:
  assumes "claim_fact r x db = Inr claimed" "plain_row keyed x" "length (run_claims r db) \<le> 1"
    "fr_fact x = Signal i order debit risk"
    "\<forall>f \<in> set (run_rows r db). fr_outcome f \<noteq> None \<longrightarrow> fr_factAt f < fr_factAt x"
    "\<forall>b \<in> set (db_bindings db). bd_runId b = r \<longrightarrow> (\<forall>t. bd_clockAt b = Some t \<longrightarrow> t \<le> fr_factAt x)"
    "enqueue z r lockFree sortKeys [e] claimed = Inr db'" "en_fact e = Signal i' order' debit' risk'"
    "sortKeys (si_orderId order') = Some key" "date_parse (si_submittedAt order') = num (fr_factAt x)"
    "\<forall>f \<in> set (run_rows r db). fr_factId f \<noteq> en_id e \<and> fr_economicKey f \<noteq> ''SIGNAL|'' @ si_orderId order'"
  shows "\<exists>y \<in> set (run_rows r db'). fr_factId y = en_id e \<and> fr_sortKey y = key \<and>
    fr_outcome y = (if (key, en_id e) \<le> (si_orderId order, fr_factId x) then Some ''LATE_FACT'' else None)"
proof -
  have "run_rows r claimed = run_rows r db" using claim_fields [OF assms(1)] by (simp add: run_rows_def)
  then have new: "\<forall>f \<in> set (run_rows r claimed). fr_factId f \<noteq> en_id e \<and> fr_economicKey f \<noteq> ''SIGNAL|'' @ si_orderId order'"
    using assms(11) by simp
  obtain y where y: "plain_row True y" "fr_factAt y = fr_factAt x" "fr_factId y = en_id e" "fr_sortKey y = key"
    "fr_priority y = fact_priority (en_fact e)" "fr_runId y = r"
    "db_facts db' = db_facts claimed @ [y\<lparr>fr_outcome := if late_fact claimed r (find_binding claimed r) (order_of_row y)
       then Some ''LATE_FACT'' else None\<rparr>]"
    by (rule enqueue_new_signal [OF assms(7-10) new])
  have "fr_priority y = fr_priority x" using y(5) assms(2,4,8) by (simp add: plain_row_def fact_priority_def)
  from sibling_late [OF assms(1-3,5,6) y(1,2) this]
  have "late_fact claimed r (find_binding claimed r) (order_of_row y) \<longleftrightarrow> (key, en_id e) \<le> (si_orderId order, fr_factId x)"
    using y(3,4) assms(4) by (simp add: fact_key_def)
  then show ?thesis using y(3,4,6,7) by (auto simp: run_rows_def)
qed

text \<open>Two signals of a comparison run, ranked first and second, and one ranked second whose order id comes before
  every sort key.\<close>

definition ranked_signal :: "string \<Rightarrow> string \<Rightarrow> fact_envelope" where
  "ranked_signal i orderId = \<lparr>en_id = i, en_fact = Signal ''i1'' (sample_submission\<lparr>si_orderId := orderId\<rparr>)
     (num 10100) (num 102)\<rparr>"

definition low_order :: string where
  "low_order = ''00000000-0000-0000-0000-0000000000c2''"

definition ranked_keys :: "string \<Rightarrow> string option" where
  "ranked_keys orderId = (if orderId = ''c1'' then Some ''000001:00000000-0000-0000-0000-0000000000c1''
     else if orderId = ''c2'' \<or> orderId = low_order then Some ''000002:00000000-0000-0000-0000-0000000000c2'' else None)"

definition ranked_enqueue :: "fact_envelope \<Rightarrow> database \<Rightarrow> database result" where
  "ranked_enqueue e db = enqueue sample_formats ''run-1'' True ranked_keys [e] db"

text \<open>The first signal arrives and is claimed; then the second arrives. The evaluation of the steps, once.\<close>

definition ranked_inbox :: "fact_envelope \<Rightarrow> database" where
  "ranked_inbox e = repair_claim ''run-1'' (db_of (ranked_enqueue e sample_bound))"

definition ranked_steps :: "fact_envelope \<Rightarrow> database \<Rightarrow> (fact_row \<times> database \<times> database) option" where
  "ranked_steps e' db = Option.bind (next_fact ''run-1'' db) (\<lambda>x. case claim_fact ''run-1'' x db of Inl _ \<Rightarrow> None
     | Inr claimed \<Rightarrow> (case ranked_enqueue e' claimed of Inl _ \<Rightarrow> None | Inr db' \<Rightarrow> Some (x, claimed, db')))"

definition quiet_inbox :: "fact_envelope \<Rightarrow> database \<Rightarrow> bool" where
  "quiet_inbox e db \<longleftrightarrow> length (run_claims ''run-1'' db) \<le> 1 \<and>
     list_all (\<lambda>f. fr_outcome f = None \<and> fr_factId f = en_id e \<and> fr_economicKey f = ''SIGNAL|c1'') (run_rows ''run-1'' db) \<and>
     list_all (\<lambda>b. bd_clockAt b = None) (db_bindings db)"

definition first_ranked :: "fact_envelope \<Rightarrow> fact_row \<Rightarrow> bool" where
  "first_ranked e x \<longleftrightarrow> plain_row True x \<and> fr_fact x = en_fact e \<and> fr_factId x = en_id e \<and>
     fr_sortKey x = ''000001:00000000-0000-0000-0000-0000000000c1'' \<and>
     date_parse (si_submittedAt sample_submission) = num (fr_factAt x)"

lemma claim_forgets_sort_key_witness:
  "\<exists>x claimed db' y. ranked_steps (ranked_signal ''s2'' ''c2'') (ranked_inbox (ranked_signal ''s1'' ''c1'')) = Some (x, claimed, db') \<and>
     y \<in> set (run_rows ''run-1'' db') \<and> fr_factId y = ''s2'' \<and> fr_sortKey x < fr_sortKey y \<and> fr_outcome y = Some ''LATE_FACT''"
proof -
  define e1 e2 where "e1 = ranked_signal ''s1'' ''c1''" and "e2 = ranked_signal ''s2'' ''c2''"
  have "(\<lambda>db. quiet_inbox e1 db \<and> (case ranked_steps e2 db of None \<Rightarrow> False | Some (x, y) \<Rightarrow> first_ranked e1 x)) (ranked_inbox e1)"
    unfolding e1_def e2_def by code_simp
  then obtain x claimed db' where quiet: "quiet_inbox e1 (ranked_inbox e1)" and first: "first_ranked e1 x"
    and steps: "ranked_steps e2 (ranked_inbox e1) = Some (x, claimed, db')"
    by (auto split: option.splits)
  define db where "db = ranked_inbox e1"
  have claim: "claim_fact ''run-1'' x db = Inr claimed"
    and arrive: "enqueue sample_formats ''run-1'' True ranked_keys [e2] claimed = Inr db'"
    using steps by (auto simp: ranked_steps_def ranked_enqueue_def db_def split: bind_splits sum.splits)
  have x: "plain_row True x" "fr_factId x = ''s1''" "fr_sortKey x = ''000001:00000000-0000-0000-0000-0000000000c1''"
    "fr_fact x = Signal ''i1'' (sample_submission\<lparr>si_orderId := ''c1''\<rparr>) (num 10100) (num 102)"
    "date_parse (si_submittedAt (sample_submission\<lparr>si_orderId := ''c2''\<rparr>)) = num (fr_factAt x)"
    using first by (simp_all add: first_ranked_def e1_def ranked_signal_def)
  have e2: "en_fact e2 = Signal ''i1'' (sample_submission\<lparr>si_orderId := ''c2''\<rparr>) (num 10100) (num 102)" "en_id e2 = ''s2''"
    by (simp_all add: e2_def ranked_signal_def)
  have key: "ranked_keys (si_orderId (sample_submission\<lparr>si_orderId := ''c2''\<rparr>)) =
      Some ''000002:00000000-0000-0000-0000-0000000000c2''"
    by (simp add: ranked_keys_def)
  have q: "length (run_claims ''run-1'' db) \<le> 1" "\<forall>f \<in> set (run_rows ''run-1'' db). fr_outcome f = None"
    "\<forall>b \<in> set (db_bindings db). bd_clockAt b = None"
    "\<forall>f \<in> set (run_rows ''run-1'' db). fr_factId f \<noteq> en_id e2 \<and>
      fr_economicKey f \<noteq> ''SIGNAL|'' @ si_orderId (sample_submission\<lparr>si_orderId := ''c2''\<rparr>)"
    using quiet by (auto simp: quiet_inbox_def db_def list_all_iff e1_def e2_def ranked_signal_def)
  have order: "(''000002:00000000-0000-0000-0000-0000000000c2'', ''s2'') \<le> (''c1'', ''s1'')"
    "''000001:00000000-0000-0000-0000-0000000000c1'' < ''000002:00000000-0000-0000-0000-0000000000c2''" by code_simp+
  from claim_forgets_sort_key [OF claim x(1) q(1) x(4) _ _ arrive e2(1) key x(5) q(4)] q(2,3)
  obtain y where "y \<in> set (run_rows ''run-1'' db')" "fr_factId y = ''s2''" "fr_outcome y = Some ''LATE_FACT''"
    "fr_sortKey y = ''000002:00000000-0000-0000-0000-0000000000c2''"
    using order(1) x(2) e2(2) by auto
  then show ?thesis using steps x(3) order(2) unfolding e1_def e2_def by auto
qed

lemma repair_again: "repair_claim r (repair_claim r db) = repair_claim r db"
  unfolding repair_claim_def [of r "repair_claim r db"]
proof (rule set_inflight_same)
  fix b assume b: "b \<in> set (db_bindings (repair_claim r db))" "bd_runId b = r"
    "\<exists>f \<in> set (db_facts (repair_claim r db)). fr_runId f = r \<and>
       map_option fo_id (bd_inflight b) = Some (fr_factId f) \<and> fr_outcome f \<noteq> None"
  have facts: "db_facts (repair_claim r db) = db_facts db" by simp
  from b(3) [unfolded facts] obtain f where f: "f \<in> set (db_facts db)" "fr_runId f = r"
    "map_option fo_id (bd_inflight b) = Some (fr_factId f)" "fr_outcome f \<noteq> None" by (elim bexE conjE)
  from repaired_binding [OF b(1,2) f(1-3)] f(4) show "bd_inflight b = None" by (rule notE [rotated])
qed

text \<open>
  A held claim is never overtaken. When the fact in flight, still without an outcome, is not
  the next fact of the inbox, the drain takes nothing: it ends in the error that another fact is in
  flight, with nothing changed but a settled claim cleared, and so does every later drain. The
  next fact of a comparison run can be another one, because its claim forgets the sort key.
\<close>

theorem held_claim_blocks_drain:
  assumes "run_claims (os_runId sv) (repair_claim (os_runId sv) db) = [Some c]"
    "next_fact (os_runId sv) (repair_claim (os_runId sv) db) = Some y" "fr_factId y \<noteq> fo_id c"
    "claim_of y = Inr place" "\<not> budget_spent budget elapsed n"
  shows "drain_loop sv budget elapsed n db =
      Some (repair_claim (os_runId sv) db, throw ''Funded inbox has a different in-flight fact'') \<and>
    drain_loop sv budget elapsed n (repair_claim (os_runId sv) db) = drain_loop sv budget elapsed n db"
proof -
  let ?r = "os_runId sv" and ?db = "repair_claim (os_runId sv) db"
  have "\<not> (\<exists>b \<in> set (db_bindings ?db). bd_runId b = ?r \<and> claimable y b)"
  proof
    assume "\<exists>b \<in> set (db_bindings ?db). bd_runId b = ?r \<and> claimable y b"
    then obtain b where b: "b \<in> set (db_bindings ?db)" "bd_runId b = ?r" "claimable y b" by blast
    then have "bd_inflight b \<in> set (run_claims ?r ?db)" by (simp add: run_claims_def)
    then have "bd_inflight b = Some c" using assms(1) by simp
    then show False using b(3) assms(3) by (simp add: claimable_def)
  qed
  then have claim: "claim_fact ?r y ?db = throw ''Funded inbox has a different in-flight fact''"
    using assms(4) by (simp add: claim_fact_def)
  have drain: "drain_loop sv budget elapsed n d = Some (?db, throw ''Funded inbox has a different in-flight fact'')"
    if "repair_claim ?r d = ?db" for d
    by (subst drain_loop.simps) (simp only: that assms(2,5) claim option.case sum.case if_False)
  show ?thesis using drain [OF refl] drain [OF repair_again] by simp
qed

text \<open>The signal of rank 2, with an order id before every sort key, is claimed when the signal of rank 1 arrives.\<close>

lemma held_claim_blocks_drain_witness:
  "\<exists>x claimed db. ranked_steps (ranked_signal ''s1'' ''c1'') (ranked_inbox (ranked_signal ''s2'' low_order)) = Some (x, claimed, db) \<and>
     drain_loop sample_service None (\<lambda>n. Fin 0) 0 db =
       Some (repair_claim ''run-1'' db, throw ''Funded inbox has a different in-flight fact'')"
proof -
  define steps where "steps = ranked_steps (ranked_signal ''s1'' ''c1'') (ranked_inbox (ranked_signal ''s2'' low_order))"
  have run: "os_runId sample_service = ''run-1''" by (simp add: sample_service_def)
  have "case steps of None \<Rightarrow> False | Some (x, claimed, db) \<Rightarrow>
      (\<lambda>d. map (map_option fo_id) (run_claims ''run-1'' d) = [Some ''s2''] \<and>
        map_option (\<lambda>y. (fr_factId y, isl (claim_of y))) (next_fact ''run-1'' d) = Some (''s1'', False)) (repair_claim ''run-1'' db)"
    unfolding steps_def by code_simp
  then obtain x claimed db where steps: "steps = Some (x, claimed, db)"
    and d: "map (map_option fo_id) (run_claims ''run-1'' (repair_claim ''run-1'' db)) = [Some ''s2'']"
      "map_option (\<lambda>y. (fr_factId y, isl (claim_of y))) (next_fact ''run-1'' (repair_claim ''run-1'' db)) = Some (''s1'', False)"
    by (auto split: option.splits)
  then obtain c y place where "run_claims ''run-1'' (repair_claim ''run-1'' db) = [Some c]"
    "next_fact ''run-1'' (repair_claim ''run-1'' db) = Some y" "fr_factId y \<noteq> fo_id c" "claim_of y = Inr place"
    by (auto simp: not_isl)
  from held_claim_blocks_drain [of sample_service db, unfolded run, OF this] steps show ?thesis
    by (auto simp: steps_def budget_spent_def)
qed

end
