(* ===== verification/ComparisonValuation.thy ===== *)
theory ComparisonValuation
  imports FundedLedger JsText
begin

text \<open>
  The mark-to-market valuation of a funded comparison (\<open>paper-bot/funded-comparison-valuation.ts\<close>,
  with the input items of \<open>contracts/src/domains/funded-comparison.ts\<close>): the two sides are replayed
  from their ledgers at the start of the session over the union of the shared inputs and their own
  ledger events, and valued at every point of that grid. Of the input items the model has the
  fields that the valuation reads. \<open>localeCompare\<close> is an argument.
\<close>

section \<open>The grid\<close>

datatype input_item =
    SessionBoundary string string  \<comment> \<open>sessionDate, sessionStartAt\<close>
  | Opportunity string int string  \<comment> \<open>signalTimestamp, sourceOrdinal, sourceOpportunityId\<close>
  | QuoteItem string string string  \<comment> \<open>instrumentId, timestamp, source\<close>
  | Invalidation string string  \<comment> \<open>eventId, at\<close>

definition input_item_effective_at :: "input_item \<Rightarrow> string" where
  "input_item_effective_at item = (case item of SessionBoundary d t \<Rightarrow> t | Opportunity t n i \<Rightarrow> t
     | QuoteItem i t s \<Rightarrow> t | Invalidation e t \<Rightarrow> t)"

definition input_item_rank :: "input_item \<Rightarrow> string" where
  "input_item_rank item = (case item of Invalidation e t \<Rightarrow> ''0'' | SessionBoundary d t \<Rightarrow> ''1''
     | Opportunity t n i \<Rightarrow> ''2'' | QuoteItem i t s \<Rightarrow> ''3'')"

definition input_item_identity :: "input_item \<Rightarrow> string" where
  "input_item_identity item = (case item of SessionBoundary d t \<Rightarrow> d
     | Opportunity t n i \<Rightarrow> pad_start 10 (show_int n) @ '':'' @ i
     | QuoteItem i t s \<Rightarrow> i @ '':'' @ t @ '':'' @ s | Invalidation e t \<Rightarrow> e)"

definition input_item_order_key :: "input_item \<Rightarrow> string" where
  "input_item_order_key item =
     input_item_effective_at item @ ''|'' @ input_item_rank item @ ''|'' @ input_item_identity item"

datatype valuation_owner = SHARED | CHAMPION | CHALLENGER

definition owner_name :: "valuation_owner \<Rightarrow> string" where
  "owner_name w = (case w of SHARED \<Rightarrow> ''SHARED'' | CHAMPION \<Rightarrow> ''CHAMPION'' | CHALLENGER \<Rightarrow> ''CHALLENGER'')"

record valuation_effect =
  ve_at :: string
  ve_sequence :: int
  ve_event :: ledger_event

record grid_point =
  gp_at :: string
  gp_owner :: valuation_owner
  gp_causalKey :: string

definition effect_point :: "valuation_owner \<Rightarrow> valuation_effect \<Rightarrow> grid_point" where
  "effect_point owner e = \<lparr>gp_at = ve_at e, gp_owner = owner,
     gp_causalKey = ve_at e @ ''|7|'' @ pad_start 20 (show_int (ve_sequence e))\<rparr>"

definition grid_cmp :: "(string \<Rightarrow> string \<Rightarrow> jsnum) \<Rightarrow> grid_point \<Rightarrow> grid_point \<Rightarrow> jsnum" where
  "grid_cmp lc left right =
     (if gp_causalKey left < gp_causalKey right then Fin (- 1)
      else if gp_causalKey right < gp_causalKey left then Fin 1
      else lc (owner_name (gp_owner left)) (owner_name (gp_owner right)))"

definition point_key :: "grid_point \<Rightarrow> string" where
  "point_key p = owner_name (gp_owner p) @ ''|'' @ gp_causalKey p"

fun dedupe_points :: "string list \<Rightarrow> grid_point list \<Rightarrow> grid_point list" where
  "dedupe_points seen [] = []"
| "dedupe_points seen (p # ps) = (if point_key p \<in> set seen then dedupe_points seen ps
     else p # dedupe_points (point_key p # seen) ps)"

definition build_union_valuation_grid :: "(string \<Rightarrow> string \<Rightarrow> jsnum) \<Rightarrow> input_item list \<Rightarrow>
    valuation_effect list \<Rightarrow> valuation_effect list \<Rightarrow> grid_point list" where
  "build_union_valuation_grid lc sharedInputs championEffects challengerEffects =
     dedupe_points [] (js_sort (grid_cmp lc)
       (map (\<lambda>item. \<lparr>gp_at = input_item_effective_at item, gp_owner = SHARED,
          gp_causalKey = input_item_order_key item\<rparr>) sharedInputs @
        map (effect_point CHAMPION) championEffects @ map (effect_point CHALLENGER) challengerEffects))"

section \<open>The valuation of a side\<close>

text \<open>The reasons of \<open>FundedComparisonFailureReason\<close> that a valuation gives.\<close>

datatype comparison_failure = MARKET_CURRENCY_MISMATCH | RISK_IDENTITY_MISMATCH | RETAINED_INPUT_MISSING
  | STALE_MARK | UNPROVABLE_CAUSAL_ORDER

datatype valuation_status = PROVEN | UNAVAILABLE_VALUATION

record valuation_side =
  vd_initialState :: ledger
  vd_effects :: "valuation_effect list"

record side_valuation =
  sv_equityPoints :: "(string \<times> jsnum) list"
  sv_maxDrawdown :: "jsnum option"
  sv_maxDrawdownPctOfInitialCash :: "jsnum option"
  sv_staleMarkPoints :: nat
  sv_integrityFindings :: "string list"
  sv_status :: valuation_status
  sv_reason :: "comparison_failure option"

definition unavailable_side :: "comparison_failure \<Rightarrow> string \<Rightarrow> side_valuation" where
  "unavailable_side reason finding = \<lparr>sv_equityPoints = [], sv_maxDrawdown = None,
     sv_maxDrawdownPctOfInitialCash = None, sv_staleMarkPoints = 0, sv_integrityFindings = [finding],
     sv_status = UNAVAILABLE_VALUATION, sv_reason = Some reason\<rparr>"

fun verify_effects :: "int \<Rightarrow> valuation_effect list \<Rightarrow> string option" where
  "verify_effects previous [] = None"
| "verify_effects previous (e # es) =
     (if \<not> is_safe_integer (num (ve_sequence e)) \<or> ve_sequence e \<le> previous \<or> \<not> is_finite (date_parse (ve_at e))
      then Some (''Effect sequence '' @ show_int (ve_sequence e) @ '' is not a proven monotone causal order'')
      else verify_effects (ve_sequence e) es)"

definition comparison_mark_age :: jsnum where
  "comparison_mark_age = Fin 30000"

text \<open>The effects up to a point are applied; the rest is what the cursor has not reached.\<close>

fun catch_up :: "string \<Rightarrow> ledger \<Rightarrow> valuation_effect list \<Rightarrow> (ledger \<times> valuation_effect list) result" where
  "catch_up t l [] = Inr (l, [])"
| "catch_up t l (e # es) = (if date_parse (ve_at e) \<le> date_parse t
     then bindR (apply_ledger_event l (ve_event e) (Fin 30000)) (\<lambda>l'. catch_up t l' es)
     else Inr (l, e # es))"

record side_progress =
  vp_state :: ledger
  vp_rest :: "valuation_effect list"
  vp_points :: "(string \<times> jsnum) list"
  vp_stale :: nat
  vp_peak :: jsnum
  vp_maxDrawdown :: jsnum

definition record_equity :: "string \<Rightarrow> jsnum \<Rightarrow> side_progress \<Rightarrow> side_progress" where
  "record_equity t equity s =
     (let peak = (if vp_peak s < equity then equity else vp_peak s);
          drawdown = peak - equity in
      s\<lparr>vp_points := vp_points s @ [(t, equity)], vp_peak := peak,
        vp_maxDrawdown := (if is_finite peak \<and> vp_maxDrawdown s < drawdown then drawdown else vp_maxDrawdown s)\<rparr>)"

definition value_point :: "side_progress \<Rightarrow> grid_point \<Rightarrow> side_progress result" where
  "value_point s p = bindR (catch_up (gp_at p) (vp_state s) (vp_rest s)) (\<lambda>(l, rest).
     bindR (funded_account_summary l (gp_at p) comparison_mark_age) (\<lambda>summary.
     let s' = s\<lparr>vp_state := l, vp_rest := rest\<rparr> in
     Inr (if w_staleMarks summary then s'\<lparr>vp_stale := vp_stale s' + 1\<rparr>
       else record_equity (gp_at p) (w_equity summary) s')))"

definition initial_progress :: "valuation_side \<Rightarrow> side_progress" where
  "initial_progress side = \<lparr>vp_state = vd_initialState side, vp_rest = vd_effects side, vp_points = [],
     vp_stale = 0, vp_peak = NegInf, vp_maxDrawdown = Fin 0\<rparr>"

definition value_side :: "valuation_side \<Rightarrow> jsnum \<Rightarrow> grid_point list \<Rightarrow> side_valuation result" where
  "value_side side initialCash points = bindR (runR value_point (initial_progress side) points) (\<lambda>s.
     Inr (if 0 < vp_stale s then unavailable_side STALE_MARK
         (show_nat (vp_stale s) @ '' grid point(s) had no mark within 30000ms'')
       else if vp_rest s \<noteq> [] then unavailable_side UNPROVABLE_CAUSAL_ORDER
         ''A retained effect is effective after the final grid point''
       else if \<not> Fin 0 < initialCash then unavailable_side RISK_IDENTITY_MISMATCH
         ''The frozen initial cash is not a positive amount''
       else \<lparr>sv_equityPoints = vp_points s, sv_maxDrawdown = Some (vp_maxDrawdown s),
         sv_maxDrawdownPctOfInitialCash = Some (vp_maxDrawdown s / initialCash),
         sv_staleMarkPoints = vp_stale s, sv_integrityFindings = [], sv_status = PROVEN, sv_reason = None\<rparr>))"

section \<open>Both sides\<close>

record valuation_input =
  vi_sharedInputs :: "input_item list"
  vi_champion :: valuation_side
  vi_challenger :: valuation_side
  vi_initialCash :: jsnum

record comparison_valuation =
  cv_champion :: side_valuation
  cv_challenger :: side_valuation
  cv_grid :: "grid_point list"

definition reconstruct_comparison_valuation :: "(string \<Rightarrow> string \<Rightarrow> jsnum) \<Rightarrow> valuation_input \<Rightarrow>
    comparison_valuation result" where
  "reconstruct_comparison_valuation lc inp =
     (let points = build_union_valuation_grid lc (vi_sharedInputs inp) (vd_effects (vi_champion inp))
            (vd_effects (vi_challenger inp));
          failed = (\<lambda>reason a b. Inr \<lparr>cv_champion = unavailable_side reason a,
            cv_challenger = unavailable_side reason b, cv_grid = points\<rparr>) in
      if lg_currency (vd_initialState (vi_champion inp)) \<noteq> lg_currency (vd_initialState (vi_challenger inp))
      then failed MARKET_CURRENCY_MISMATCH ''Champion currency mismatch'' ''Challenger currency mismatch''
      else (case verify_effects 0 (vd_effects (vi_champion inp)) of
        Some finding \<Rightarrow> failed UNPROVABLE_CAUSAL_ORDER finding finding
      | None \<Rightarrow> (case verify_effects 0 (vd_effects (vi_challenger inp)) of
          Some finding \<Rightarrow> failed UNPROVABLE_CAUSAL_ORDER finding finding
        | None \<Rightarrow>
          if vi_sharedInputs inp = []
          then failed RETAINED_INPUT_MISSING ''No retained shared input'' ''No retained shared input''
          else bindR (value_side (vi_champion inp) (vi_initialCash inp) points) (\<lambda>champion.
            bindR (value_side (vi_challenger inp) (vi_initialCash inp) points) (\<lambda>challenger.
            Inr \<lparr>cv_champion = champion, cv_challenger = challenger, cv_grid = points\<rparr>)))))"

end
