(* ===== verification/ComparisonProperties.thy ===== *)
theory ComparisonProperties
  imports ComparisonValuation LedgerProperties JsCompare
begin

text \<open>
  What a proven comparison valuation says: the reported drawdown is the largest fall of the equity
  from an earlier point to a later one, and every equity is that of the ledger with exactly the
  effects applied that are effective by its point.
\<close>

section \<open>The equity of a point\<close>

lemma ledger_money_finite: "ledger_money v = Inr m \<Longrightarrow> \<exists>x. m = Fin x"
  using ledger_money_graded [of v m] by (auto simp: graded_def)

lemma summary_equity: "funded_account_summary l t age = Inr w \<Longrightarrow> \<exists>x. w_equity w = Fin x"
  by (auto simp: funded_account_summary_def Let_def bindR_eq_Inr dest!: ledger_money_finite split: if_splits)

section \<open>Drawdown\<close>

definition falls :: "jsnum list \<Rightarrow> jsnum set" where
  "falls qs = {qs ! i - qs ! j | i j. i \<le> j \<and> j < length qs}"

lemma falls_snoc: "falls (qs @ [q]) = falls qs \<union> (\<lambda>p. p - q) ` set (qs @ [q])"
proof -
  have "falls (qs @ [q]) \<subseteq> falls qs \<union> (\<lambda>p. p - q) ` set (qs @ [q])"
  proof
    fix d assume "d \<in> falls (qs @ [q])"
    then obtain i j where d: "d = (qs @ [q]) ! i - (qs @ [q]) ! j" "i \<le> j" "j < length (qs @ [q])"
      by (auto simp: falls_def)
    show "d \<in> falls qs \<union> (\<lambda>p. p - q) ` set (qs @ [q])"
    proof (cases "j < length qs")
      case True
      then show ?thesis using d by (auto simp: falls_def nth_append)
    next
      case False
      then have "(qs @ [q]) ! j = q" using d(3) by (simp add: nth_append)
      moreover have "(qs @ [q]) ! i \<in> set (qs @ [q])" using d(2,3) by (intro nth_mem) simp
      moreover have "d = (qs @ [q]) ! i - q" using d(1) calculation(1) by simp
      ultimately show ?thesis by blast
    qed
  qed
  moreover have "falls qs \<subseteq> falls (qs @ [q])"
  proof
    fix d assume "d \<in> falls qs"
    then obtain i j where d: "d = qs ! i - qs ! j" "i \<le> j" "j < length qs" by (auto simp: falls_def)
    then have "d = (qs @ [q]) ! i - (qs @ [q]) ! j" "j < length (qs @ [q])" by (simp_all add: nth_append)
    then show "d \<in> falls (qs @ [q])" using d(2) unfolding falls_def by blast
  qed
  moreover have "(\<lambda>p. p - q) ` set (qs @ [q]) \<subseteq> falls (qs @ [q])"
  proof
    fix d assume "d \<in> (\<lambda>p. p - q) ` set (qs @ [q])"
    then obtain p where "p \<in> set (qs @ [q])" "d = p - q" by blast
    then obtain i where i: "i < length (qs @ [q])" "d = (qs @ [q]) ! i - q" unfolding in_set_conv_nth by blast
    have "(qs @ [q]) ! length qs = q" "i \<le> length qs" using i(1) by simp_all
    then show "d \<in> falls (qs @ [q])" using i(2) unfolding falls_def
      by (intro CollectI exI [of _ i] exI [of _ "length qs"]) auto
  qed
  ultimately show ?thesis by blast
qed

text \<open>The greatest fall, and zero when the equity never falls.\<close>

definition greatest_fall :: "jsnum list \<Rightarrow> jsnum \<Rightarrow> bool" where
  "greatest_fall qs d \<longleftrightarrow> d \<in> insert (Fin 0) (falls qs) \<and> (\<forall>d' \<in> insert (Fin 0) (falls qs). d' \<le> d)"

definition peak_of :: "jsnum list \<Rightarrow> jsnum \<Rightarrow> bool" where
  "peak_of qs p \<longleftrightarrow> (if qs = [] then p = NegInf else p \<in> set qs \<and> (\<forall>q \<in> set qs. q \<le> p))"

definition progress_ok :: "side_progress \<Rightarrow> bool" where
  "progress_ok s \<longleftrightarrow> (\<forall>q \<in> snd ` set (vp_points s). \<exists>x. q = Fin x) \<and>
     peak_of (map snd (vp_points s)) (vp_peak s) \<and> greatest_fall (map snd (vp_points s)) (vp_maxDrawdown s)"

lemma progress_initial: "progress_ok (initial_progress side)"
  by (simp add: progress_ok_def initial_progress_def peak_of_def greatest_fall_def falls_def)

lemma record_equity_ok:
  assumes ok: "progress_ok s" and q: "q = Fin x"
  shows "progress_ok (record_equity t q s)"
proof -
  let ?qs = "map snd (vp_points s)"
  define peak where "peak = (if vp_peak s < q then q else vp_peak s)"
  have finite_qs: "\<forall>p \<in> set (?qs @ [q]). \<exists>y. p = Fin y" using ok q by (auto simp: progress_ok_def)
  have peak: "peak \<in> set (?qs @ [q])" "\<forall>p \<in> set (?qs @ [q]). p \<le> peak"
  proof -
    have old: "peak_of ?qs (vp_peak s)" using ok by (simp add: progress_ok_def)
    show "peak \<in> set (?qs @ [q])"
      using old q by (auto simp: peak_def peak_of_def split: if_splits)
    have "vp_peak s \<noteq> NaN" using old finite_qs by (auto simp: peak_of_def split: if_splits)
    then have *: "q \<le> peak" "vp_peak s \<le> peak"
      using q by (cases "vp_peak s"; auto simp: peak_def)+
    have "p \<le> peak" if "p \<in> set ?qs" for p
    proof -
      have "p \<le> vp_peak s" using old that by (auto simp: peak_of_def split: if_splits)
      then show ?thesis using *(2) by (rule js_le_trans)
    qed
    then show "\<forall>p \<in> set (?qs @ [q]). p \<le> peak" using *(1) by auto
  qed
  obtain y where y: "peak = Fin y" using peak(1) finite_qs by blast
  define d where "d = peak - q"
  have d: "d \<in> (\<lambda>p. p - q) ` set (?qs @ [q])" "\<forall>d' \<in> (\<lambda>p. p - q) ` set (?qs @ [q]). d' \<le> d"
    using peak by (auto simp: d_def q intro: js_minus_mono)
  let ?m = "vp_maxDrawdown s"
  let ?m' = "if ?m < d then d else ?m"
  have m: "?m \<in> insert (Fin 0) (falls ?qs)" "\<forall>d' \<in> insert (Fin 0) (falls ?qs). d' \<le> ?m"
    using ok by (simp_all add: progress_ok_def greatest_fall_def)
  have "?m \<noteq> NaN" using m(2) by auto
  moreover have "d \<noteq> NaN" by (simp add: d_def y q minus_jsnum_def)
  ultimately have m': "?m \<le> ?m'" "d \<le> ?m'" by (cases ?m; cases d; auto)+
  have "greatest_fall (?qs @ [q]) ?m'"
    unfolding greatest_fall_def falls_snoc
  proof
    show "?m' \<in> insert (Fin 0) (falls ?qs \<union> (\<lambda>p. p - q) ` set (?qs @ [q]))" using m(1) d(1) by auto
    show "\<forall>d' \<in> insert (Fin 0) (falls ?qs \<union> (\<lambda>p. p - q) ` set (?qs @ [q])). d' \<le> ?m'"
      using m(2) d(2) m' by (blast intro: js_le_trans)
  qed
  moreover have "record_equity t q s = s\<lparr>vp_points := vp_points s @ [(t, q)], vp_peak := peak, vp_maxDrawdown := ?m'\<rparr>"
    by (simp add: record_equity_def Let_def y d_def flip: peak_def)
  ultimately show ?thesis using finite_qs peak by (simp add: progress_ok_def peak_of_def)
qed

lemma value_point_ok:
  assumes "progress_ok s" "value_point s p = Inr s'"
  shows "progress_ok s'"
proof -
  from assms(2) obtain l rest where c: "catch_up (gp_at p) (vp_state s) (vp_rest s) = Inr (l, rest)"
    by (auto simp: value_point_def bindR_eq_Inr)
  with assms(2) obtain w where w: "funded_account_summary l (gp_at p) comparison_mark_age = Inr w"
    "s' = (if w_staleMarks w then s\<lparr>vp_state := l, vp_rest := rest, vp_stale := vp_stale s + 1\<rparr>
      else record_equity (gp_at p) (w_equity w) (s\<lparr>vp_state := l, vp_rest := rest\<rparr>))"
    by (auto simp: value_point_def Let_def bindR_eq_Inr)
  have "progress_ok (s\<lparr>vp_state := l, vp_rest := rest\<rparr>)" "progress_ok (s\<lparr>vp_state := l, vp_rest := rest, vp_stale := vp_stale s + 1\<rparr>)"
    using assms(1) by (simp_all add: progress_ok_def)
  then show ?thesis using w(2) summary_equity [OF w(1)] record_equity_ok by auto
qed

lemma value_points_ok: "runR value_point s points = Inr s' \<Longrightarrow> progress_ok s \<Longrightarrow> progress_ok s'"
  by (induction points arbitrary: s) (auto simp: bindR_eq_Inr value_point_ok)

lemma value_side_proven:
  assumes "value_side side cash points = Inr v" "sv_status v = PROVEN"
  obtains s where "runR value_point (initial_progress side) points = Inr s" "vp_stale s = 0" "vp_rest s = []"
    "sv_equityPoints v = vp_points s" "sv_maxDrawdown v = Some (vp_maxDrawdown s)"
proof -
  from assms(1) obtain s where s: "runR value_point (initial_progress side) points = Inr s"
    by (auto simp: value_side_def bindR_eq_Inr)
  note v = assms(1) [unfolded value_side_def s bindR_Inr, THEN Inr_inject, symmetric]
  have "vp_stale s = 0" "vp_rest s = []" "Fin 0 < cash"
    using assms(2) unfolding v by (simp_all add: unavailable_side_def split: if_split_asm)
  then show thesis using that [OF s] unfolding v by simp
qed

section \<open>Which effects are applied\<close>

definition effective_by :: "string \<Rightarrow> valuation_effect \<Rightarrow> bool" where
  "effective_by t e \<longleftrightarrow> date_parse (ve_at e) \<le> date_parse t"

lemma catch_up_applies: "catch_up t l es = Inr (l', rest) \<Longrightarrow>
    apply_ledger_events l (map ve_event (takeWhile (effective_by t) es)) (Fin 30000) = Inr l'"
  by (induction t l es rule: catch_up.induct)
    (auto simp: apply_ledger_events_def effective_by_def bindR_eq_Inr split: if_splits)

lemma catch_up_again:
  "catch_up t l es = Inr (l', rest) \<Longrightarrow> date_parse t \<le> date_parse t' \<Longrightarrow> catch_up t' l' rest = catch_up t' l es"
proof (induction t l es rule: catch_up.induct)
  case (2 t l e es)
  show ?case
  proof (cases "date_parse (ve_at e) \<le> date_parse t")
    case True
    with "2.prems"(1) obtain l1 where l1: "apply_ledger_event l (ve_event e) (Fin 30000) = Inr l1"
      "catch_up t l1 es = Inr (l', rest)" by (auto simp: bindR_eq_Inr)
    have "date_parse (ve_at e) \<le> date_parse t'" using True "2.prems"(2) by (rule js_le_trans)
    then show ?thesis using "2.IH" [OF True l1(2) "2.prems"(2)] l1(1) by simp
  qed (use "2.prems"(1) in auto)
qed auto

definition chronological_grid :: "grid_point list \<Rightarrow> bool" where
  "chronological_grid points \<longleftrightarrow> sorted_wrt (\<lambda>p q. date_parse (gp_at p) \<le> date_parse (gp_at q)) points"

text \<open>The equity of a point is that of the initial ledger with the effects effective by it.\<close>

definition valued_at :: "valuation_side \<Rightarrow> grid_point \<Rightarrow> string \<times> jsnum \<Rightarrow> bool" where
  "valued_at side p point \<longleftrightarrow> fst point = gp_at p \<and> (\<exists>l w. apply_ledger_events (vd_initialState side)
       (map ve_event (takeWhile (effective_by (gp_at p)) (vd_effects side))) (Fin 30000) = Inr l \<and>
     funded_account_summary l (gp_at p) comparison_mark_age = Inr w \<and> \<not> w_staleMarks w \<and> snd point = w_equity w)"

lemma value_pointE:
  assumes "value_point s p = Inr s'"
  obtains l rest w where "catch_up (gp_at p) (vp_state s) (vp_rest s) = Inr (l, rest)"
    "funded_account_summary l (gp_at p) comparison_mark_age = Inr w" "vp_state s' = l" "vp_rest s' = rest"
    "if w_staleMarks w then vp_points s' = vp_points s \<and> vp_stale s' = vp_stale s + 1
     else vp_points s' = vp_points s @ [(gp_at p, w_equity w)] \<and> vp_stale s' = vp_stale s"
proof -
  note out = that
  from assms obtain l rest where c: "catch_up (gp_at p) (vp_state s) (vp_rest s) = Inr (l, rest)"
    by (auto simp: value_point_def bindR_eq_Inr)
  with assms obtain w where w: "funded_account_summary l (gp_at p) comparison_mark_age = Inr w"
    "s' = (if w_staleMarks w then s\<lparr>vp_state := l, vp_rest := rest, vp_stale := vp_stale s + 1\<rparr>
      else record_equity (gp_at p) (w_equity w) (s\<lparr>vp_state := l, vp_rest := rest\<rparr>))"
    by (auto simp: value_point_def Let_def bindR_eq_Inr)
  show thesis by (rule out [OF c w(1)]) (simp_all add: w(2) record_equity_def Let_def)
qed

lemma value_run:
  assumes "runR value_point (initial_progress side) points = Inr s" "chronological_grid points"
  shows "(\<forall>t. (\<forall>p \<in> set points. date_parse (gp_at p) \<le> date_parse t) \<longrightarrow>
      catch_up t (vp_state s) (vp_rest s) = catch_up t (vd_initialState side) (vd_effects side)) \<and>
    (vp_stale s = 0 \<longrightarrow> list_all2 (valued_at side) points (vp_points s))"
  using assms
proof (induction points arbitrary: s rule: rev_induct)
  case Nil
  then have "s = initial_progress side" by simp
  then show ?case by (simp add: initial_progress_def)
next
  case (snoc p points)
  from snoc.prems(1) obtain s0 where s0: "runR value_point (initial_progress side) points = Inr s0" "value_point s0 p = Inr s"
    by (auto simp: runR_append bindR_eq_Inr)
  have order: "chronological_grid points" "\<forall>q \<in> set points. date_parse (gp_at q) \<le> date_parse (gp_at p)"
    using snoc.prems(2) by (auto simp: chronological_grid_def sorted_wrt_append)
  note IH = snoc.IH [OF s0(1) order(1)]
  obtain l rest w where c: "catch_up (gp_at p) (vp_state s0) (vp_rest s0) = Inr (l, rest)"
    "funded_account_summary l (gp_at p) comparison_mark_age = Inr w" "vp_state s = l" "vp_rest s = rest"
    "if w_staleMarks w then vp_points s = vp_points s0 \<and> vp_stale s = vp_stale s0 + 1
     else vp_points s = vp_points s0 @ [(gp_at p, w_equity w)] \<and> vp_stale s = vp_stale s0"
    using s0(2) by (rule value_pointE)
  have first: "catch_up (gp_at p) (vd_initialState side) (vd_effects side) = Inr (l, rest)"
    using IH order(2) c(1) by metis
  have "catch_up t (vp_state s) (vp_rest s) = catch_up t (vd_initialState side) (vd_effects side)"
    if "\<forall>q \<in> set (points @ [p]). date_parse (gp_at q) \<le> date_parse t" for t
    using catch_up_again [OF first, of t] that c(3,4) by simp
  moreover have "list_all2 (valued_at side) (points @ [p]) (vp_points s)" if "vp_stale s = 0"
  proof -
    have "\<not> w_staleMarks w" using c(5) that by (auto split: if_splits)
    then have points: "vp_points s = vp_points s0 @ [(gp_at p, w_equity w)]" "vp_stale s0 = 0" using c(5) that by simp_all
    have "valued_at side p (gp_at p, w_equity w)"
      unfolding valued_at_def using catch_up_applies [OF first] c(2) \<open>\<not> w_staleMarks w\<close> by auto
    then show ?thesis using IH points by (simp add: list_all2_appendI)
  qed
  ultimately show ?case by blast
qed

section \<open>Properties\<close>

lemma reconstructedE:
  assumes "reconstruct_comparison_valuation lc inp = Inr v"
    "(side, sv) \<in> {(vi_champion inp, cv_champion v), (vi_challenger inp, cv_challenger v)}" "sv_status sv = PROVEN"
  shows "value_side side (vi_initialCash inp) (cv_grid v) = Inr sv"
  using assms by (auto simp: reconstruct_comparison_valuation_def Let_def bindR_eq_Inr unavailable_side_def
      split: if_splits option.splits)

text \<open>
  C35: The reported drawdown is the largest fall of the equity. For each side of a comparison whose
  valuation is proven, the drawdown is the greatest difference between the equity of a point and
  that of the same or a later point, and zero when the equity never falls, although the code keeps
  only a running peak.
\<close>

theorem drawdown_is_greatest_fall:
  assumes "reconstruct_comparison_valuation lc inp = Inr v"
    "(side, sv) \<in> {(vi_champion inp, cv_champion v), (vi_challenger inp, cv_challenger v)}" "sv_status sv = PROVEN"
  shows "\<exists>d. sv_maxDrawdown sv = Some d \<and>
    d \<in> insert (Fin 0) (falls (map snd (sv_equityPoints sv))) \<and>
    (\<forall>d' \<in> insert (Fin 0) (falls (map snd (sv_equityPoints sv))). d' \<le> d)"
proof -
  obtain s where s: "runR value_point (initial_progress side) (cv_grid v) = Inr s"
    "sv_equityPoints sv = vp_points s" "sv_maxDrawdown sv = Some (vp_maxDrawdown s)"
    using reconstructedE [OF assms] assms(3) by (rule value_side_proven)
  from value_points_ok [OF s(1) progress_initial] s(2,3) show ?thesis
    by (simp add: progress_ok_def greatest_fall_def)
qed

text \<open>
  C36: A proven valuation is the replay. When the union grid is chronological, each side has one
  equity for every point of the grid, and it is the equity, by a summary without stale marks, of the
  initial ledger to which exactly the effects have been applied that come before the first one
  after the point.
\<close>

theorem valuation_is_replay:
  assumes "reconstruct_comparison_valuation lc inp = Inr v"
    "(side, sv) \<in> {(vi_champion inp, cv_champion v), (vi_challenger inp, cv_challenger v)}" "sv_status sv = PROVEN"
    "chronological_grid (cv_grid v)"
  shows "list_all2 (\<lambda>p (t, equity). t = gp_at p \<and> (\<exists>l w.
      apply_ledger_events (vd_initialState side)
        (map ve_event (takeWhile (effective_by (gp_at p)) (vd_effects side))) (Fin 30000) = Inr l \<and>
      funded_account_summary l (gp_at p) comparison_mark_age = Inr w \<and> \<not> w_staleMarks w \<and> equity = w_equity w))
    (cv_grid v) (sv_equityPoints sv)"
proof -
  obtain s where s: "runR value_point (initial_progress side) (cv_grid v) = Inr s" "vp_stale s = 0"
    "sv_equityPoints sv = vp_points s"
    using reconstructedE [OF assms(1-3)] assms(3) by (rule value_side_proven)
  have "list_all2 (valued_at side) (cv_grid v) (vp_points s)" using value_run [OF s(1) assms(4)] s(2) by blast
  then show ?thesis unfolding s(3) by (rule list_all2_mono) (auto simp: valued_at_def)
qed

section \<open>A sample comparison\<close>

definition sample_comparison :: valuation_input where
  "sample_comparison = \<lparr>
     vi_sharedInputs = [QuoteItem ''i1'' (sample_time ''14:30:00'') ''feed'',
       SessionBoundary ''2026-09-04'' (sample_time ''14:29:30'')],
     vi_champion = \<lparr>vd_initialState = sample_start,
       vd_effects = map (\<lambda>(n, e). \<lparr>ve_at = ev_at e, ve_sequence = n, ve_event = e\<rparr>)
         (zip [1, 2, 3] (take 3 sample_events))\<rparr>,
     vi_challenger = \<lparr>vd_initialState = sample_start, vd_effects = []\<rparr>, vi_initialCash = num 10000\<rparr>"

definition sample_valuation :: comparison_valuation where
  "sample_valuation = (case reconstruct_comparison_valuation string_cmp sample_comparison of Inr v \<Rightarrow> v
     | Inl e \<Rightarrow> undefined)"

lemma sample_valuation: "reconstruct_comparison_valuation string_cmp sample_comparison = Inr sample_valuation"
  "sv_status (cv_champion sample_valuation) = PROVEN" "chronological_grid (cv_grid sample_valuation)"
  "map snd (sv_equityPoints (cv_champion sample_valuation)) = [num 10000, num 9999, num 9999, num 9999, num 10003]"
proof -
  have "case reconstruct_comparison_valuation string_cmp sample_comparison of Inl e \<Rightarrow> False
    | Inr v \<Rightarrow> sv_status (cv_champion v) = PROVEN \<and> chronological_grid (cv_grid v) \<and>
        map snd (sv_equityPoints (cv_champion v)) = [num 10000, num 9999, num 9999, num 9999, num 10003]"
    by code_simp
  then show "reconstruct_comparison_valuation string_cmp sample_comparison = Inr sample_valuation"
    "sv_status (cv_champion sample_valuation) = PROVEN" "chronological_grid (cv_grid sample_valuation)"
    "map snd (sv_equityPoints (cv_champion sample_valuation)) = [num 10000, num 9999, num 9999, num 9999, num 10003]"
    by (cases "reconstruct_comparison_valuation string_cmp sample_comparison"; simp add: sample_valuation_def)+
qed

lemma drawdown_is_greatest_fall_witness:
  "\<exists>d. sv_maxDrawdown (cv_champion sample_valuation) = Some d \<and>
     (\<forall>d' \<in> falls [num 10000, num 9999, num 9999, num 9999, num 10003]. d' \<le> d)"
  using drawdown_is_greatest_fall [OF sample_valuation(1) _ sample_valuation(2), of "vi_champion sample_comparison"]
  unfolding sample_valuation(4) by auto

lemma valuation_is_replay_witness:
  "length (cv_grid sample_valuation) = length (sv_equityPoints (cv_champion sample_valuation))"
  using valuation_is_replay [OF sample_valuation(1) _ sample_valuation(2,3), of "vi_champion sample_comparison"]
  by (auto dest: list_all2_lengthD)

end
