(* ===== verification/TokenManager.thy ===== *)
theory TokenManager
  imports JsText
begin

text \<open>
  The credentials of the broker connection: the envelope of a persisted secret
  (\<open>questrade/token-crypto.ts\<close>), the two stores of refresh tokens (\<open>InMemoryRefreshTokenStore\<close> of
  \<open>questrade/token-manager.ts\<close> and \<open>market-data/postgres-token-store.ts\<close>) and the token manager that
  rotates them.

  The broker accepts a refresh token once and answers with a replacement, so the manager marks the
  start of a rotation in the store before it redeems a token and installs the replacement after.
  The manager is single-threaded; \<open>rotateSession\<close> awaits the store and the broker, and
  \<open>refreshInFlight\<close> holds where it waits. \<open>resume_refresh\<close> is the code from one of these
  suspensions to the next, with the reply that arrived; its second component is the settlement of the
  promise that every caller of the rotation awaits. The clock is an argument, the cipher, the URL
  parser and the random initialisation vectors are parameters.
\<close>

section \<open>The envelope of a secret\<close>

text \<open>
  AES-256-GCM under the master key: \<open>cipher_seal k s\<close> is the text (base64url) of the
  \<open>k\<close>-th random initialisation vector, of the tag and of the cipher text; \<open>cipher_open\<close> fails when the
  tag does not authenticate.
\<close>

record secret_cipher =
  cipher_seal :: "nat \<Rightarrow> string \<Rightarrow> string \<times> string \<times> string"
  cipher_open :: "string \<Rightarrow> string \<Rightarrow> string \<Rightarrow> string option"

definition encrypt_secret :: "secret_cipher \<Rightarrow> nat \<Rightarrow> string \<Rightarrow> string result" where
  "encrypt_secret ci k secret = (if secret = [] then throw ''Cannot encrypt an empty secret''
     else (case cipher_seal ci k secret of (iv, tag, ciphertext) \<Rightarrow>
       Inr (''v1'' @ ''.'' @ iv @ ''.'' @ tag @ ''.'' @ ciphertext)))"

definition decrypt_secret :: "secret_cipher \<Rightarrow> string \<Rightarrow> string result" where
  "decrypt_secret ci envelope = (case split_on (CHR ''.'') envelope of
     version # iv # tag # ciphertext # rest \<Rightarrow>
       if version \<noteq> ''v1'' \<or> iv = [] \<or> tag = [] \<or> ciphertext = [] then throw ''Invalid encrypted secret envelope''
       else (case cipher_open ci iv tag ciphertext of
         None \<Rightarrow> throw ''Unable to decrypt persisted credential'' | Some s \<Rightarrow> Inr s)
   | _ \<Rightarrow> throw ''Invalid encrypted secret envelope'')"

section \<open>The stores\<close>

text \<open>The interface \<open>RefreshTokenStore\<close>; \<open>st_begin\<close> has the time that is recorded.\<close>

record 's token_store =
  st_candidates :: "'s \<Rightarrow> string list result"
  st_begin :: "int \<Rightarrow> 's \<Rightarrow> 's"
  st_rotate :: "string \<Rightarrow> string \<Rightarrow> 's \<Rightarrow> 's result"
  st_interrupted :: "'s \<Rightarrow> int option"

subsection \<open>In memory\<close>

record memory_store =
  ms_refreshToken :: string
  ms_previousToken :: "string option"
  ms_rotationStartedAt :: "int option"

definition new_memory_store :: "string \<Rightarrow> memory_store" where
  "new_memory_store t = \<lparr>ms_refreshToken = t, ms_previousToken = None, ms_rotationStartedAt = None\<rparr>"

definition memory_read_candidates :: "memory_store \<Rightarrow> string list" where
  "memory_read_candidates s =
     filter (\<lambda>t. t \<noteq> []) (ms_refreshToken s # (case ms_previousToken s of None \<Rightarrow> [] | Some t \<Rightarrow> [t]))"

definition memory_rotate :: "string \<Rightarrow> string \<Rightarrow> memory_store \<Rightarrow> memory_store result" where
  "memory_rotate consumed replacement s =
     (if consumed \<noteq> ms_refreshToken s \<and> Some consumed \<noteq> ms_previousToken s
      then throw ''Refresh token changed during rotation''
      else Inr (s\<lparr>ms_previousToken := Some consumed, ms_refreshToken := replacement, ms_rotationStartedAt := None\<rparr>))"

definition memory_token_store :: "memory_store token_store" where
  "memory_token_store = \<lparr>st_candidates = \<lambda>s. Inr (memory_read_candidates s),
     st_begin = \<lambda>now s. s\<lparr>ms_rotationStartedAt := Some now\<rparr>, st_rotate = memory_rotate,
     st_interrupted = ms_rotationStartedAt\<rparr>"

subsection \<open>In the database\<close>

text \<open>
  The row of the provider in \<open>market_data_auth\<close>, and what the store object keeps in memory. The
  process draws a fresh initialisation vector for every encryption; \<open>pg_vectors\<close> counts them.
\<close>

record auth_row =
  ar_token :: string
  ar_previous :: "string option"
  ar_startedAt :: "int option"
  ar_version :: nat

record postgres_store =
  pg_row :: "auth_row option"
  pg_bootstrapToken :: "string option"
  pg_vectors :: nat

definition pg_initialize :: "secret_cipher \<Rightarrow> string \<Rightarrow> postgres_store \<Rightarrow> postgres_store result" where
  "pg_initialize ci t s = bindR (encrypt_secret ci (pg_vectors s) t) (\<lambda>envelope.
     Inr \<lparr>pg_row = (case pg_row s of Some r \<Rightarrow> Some r
         | None \<Rightarrow> Some \<lparr>ar_token = envelope, ar_previous = None, ar_startedAt = None, ar_version = 1\<rparr>),
       pg_bootstrapToken = Some t, pg_vectors = pg_vectors s + 1\<rparr>)"

text \<open>\<open>decrypt\<close>: a superseded envelope that cannot be opened is no token.\<close>

definition pg_decrypt :: "secret_cipher \<Rightarrow> string option \<Rightarrow> string option" where
  "pg_decrypt ci envelope = (case envelope of None \<Rightarrow> None | Some e \<Rightarrow>
     if e = [] then None else (case decrypt_secret ci e of Inl err \<Rightarrow> None | Inr t \<Rightarrow> Some t))"

text \<open>The non-empty tokens, each at its first place.\<close>

fun keep_first :: "string list \<Rightarrow> string option list \<Rightarrow> string list" where
  "keep_first seen [] = []"
| "keep_first seen (None # ts) = keep_first seen ts"
| "keep_first seen (Some t # ts) =
     (if t = [] \<or> t \<in> set seen then keep_first seen ts else t # keep_first (t # seen) ts)"

definition pg_read_candidates :: "secret_cipher \<Rightarrow> postgres_store \<Rightarrow> string list result" where
  "pg_read_candidates ci s = (case pg_row s of
     None \<Rightarrow> throw ''No persisted Questrade refresh token is available''
   | Some r \<Rightarrow> bindR (decrypt_secret ci (ar_token r)) (\<lambda>t.
       Inr (keep_first [] [Some t, pg_decrypt ci (ar_previous r), pg_bootstrapToken s])))"

text \<open>\<open>rotation_started_at\<close> is only set when it is not.\<close>

definition pg_begin_rotation :: "int \<Rightarrow> postgres_store \<Rightarrow> postgres_store" where
  "pg_begin_rotation now s = s\<lparr>pg_row := (case pg_row s of None \<Rightarrow> None | Some r \<Rightarrow>
     Some (case ar_startedAt r of None \<Rightarrow> r\<lparr>ar_startedAt := Some now\<rparr> | Some t \<Rightarrow> r))\<rparr>"

definition pg_rotate :: "secret_cipher \<Rightarrow> string \<Rightarrow> string \<Rightarrow> postgres_store \<Rightarrow> postgres_store result" where
  "pg_rotate ci consumed replacement s = (case pg_row s of
     None \<Rightarrow> throw ''No persisted Questrade refresh token is available''
   | Some r \<Rightarrow>
       if Some consumed \<notin> set [pg_decrypt ci (Some (ar_token r)), pg_decrypt ci (ar_previous r), pg_bootstrapToken s]
       then throw ''Refresh token changed during atomic rotation''
       else bindR (encrypt_secret ci (pg_vectors s) replacement) (\<lambda>new.
         bindR (encrypt_secret ci (pg_vectors s + 1) consumed) (\<lambda>old.
         Inr (s\<lparr>pg_row := Some \<lparr>ar_token = new, ar_previous = Some old, ar_startedAt = None,
           ar_version = ar_version r + 1\<rparr>, pg_vectors := pg_vectors s + 2\<rparr>))))"

definition pg_interrupted_rotation_at :: "postgres_store \<Rightarrow> int option" where
  "pg_interrupted_rotation_at s = (case pg_row s of None \<Rightarrow> None | Some r \<Rightarrow> ar_startedAt r)"

definition postgres_token_store :: "secret_cipher \<Rightarrow> postgres_store token_store" where
  "postgres_token_store ci = \<lparr>st_candidates = pg_read_candidates ci, st_begin = pg_begin_rotation,
     st_rotate = pg_rotate ci, st_interrupted = pg_interrupted_rotation_at\<rparr>"

section \<open>Errors and sessions\<close>

text \<open>What the program looks at in something thrown.\<close>

record failure =
  fl_status :: "jsnum option"  \<comment> \<open>a numeric property \<open>status\<close>\<close>
  fl_domException :: bool
  fl_error :: bool  \<comment> \<open>\<open>instanceof Error\<close>\<close>
  fl_name :: string
  fl_message :: string

definition plain_error :: "string \<Rightarrow> failure" where
  "plain_error msg = \<lparr>fl_status = None, fl_domException = False, fl_error = True, fl_name = ''Error'', fl_message = msg\<rparr>"

definition lower_char :: "char \<Rightarrow> char" where
  "lower_char c = (let n = of_char c :: nat in if 65 \<le> n \<and> n \<le> 90 then char_of (n + 32) else c)"

fun contains_text :: "string \<Rightarrow> string \<Rightarrow> bool" where
  "contains_text p [] \<longleftrightarrow> p = []"
| "contains_text p (x # xs) \<longleftrightarrow> take (length p) (x # xs) = p \<or> contains_text p xs"

definition is_transient_redemption_failure :: "failure \<Rightarrow> bool" where
  "is_transient_redemption_failure e \<longleftrightarrow>
     (case fl_status e of None \<Rightarrow> False | Some s \<Rightarrow> s = Fin 429 \<or> Fin 500 \<le> s) \<or>
     fl_domException e \<and> fl_name e = ''AbortError'' \<or>
     fl_error e \<and> contains_text ''timeout'' (map lower_char (fl_name e @ fl_message e))"

datatype auth_error =
    ReauthorizationRequired failure "int option"
  | TransientToken failure
  | PersistenceUncertain failure
  | OtherFailure failure

record raw_token_grant =
  tg_access_token :: string
  tg_refresh_token :: string
  tg_token_type :: string
  tg_expires_in :: jsnum
  tg_api_server :: string

record auth_session =
  as_accessToken :: string
  as_refreshToken :: string
  as_expiresAt :: jsnum
  as_apiServer :: string
  as_generation :: int

text \<open>\<open>new Date(t).getTime()\<close>\<close>

fun time_clip :: "jsnum \<Rightarrow> jsnum" where
  "time_clip (Fin x) = (if \<bar>x\<bar> \<le> of_int max_time then num (if 0 \<le> x then \<lfloor>x\<rfloor> else \<lceil>x\<rceil>) else NaN)"
| "time_clip a = NaN"

section \<open>The token manager\<close>

text \<open>Where a rotation waits: for the marker, the candidates, the start of the rotation with a
  candidate and those after it, the broker, or the store with the new session.\<close>

datatype rotation_phase =
    ReadingInterruption
  | ReadingCandidates
  | Beginning string "string list"
  | Redeeming string "string list"
  | Rotating string auth_session

datatype refresh_disposition = STARTED_REFRESH | JOINED_REFRESH | REUSED_NEWER_SESSION

record token_manager =
  tm_session :: "auth_session option"
  tm_refreshInFlight :: "rotation_phase option"
  tm_sessionGeneration :: int
  tm_lastDisposition :: "refresh_disposition option"
  tm_priorInterruption :: "int option"
  tm_priorInterruptionRead :: bool

definition new_token_manager :: token_manager where
  "new_token_manager = \<lparr>tm_session = None, tm_refreshInFlight = None, tm_sessionGeneration = 0,
     tm_lastDisposition = None, tm_priorInterruption = None, tm_priorInterruptionRead = False\<rparr>"

text \<open>A caller gets a session at once, or the promise of the rotation in flight (\<open>None\<close>).\<close>

definition refresh :: "token_manager \<Rightarrow> token_manager \<times> auth_session option" where
  "refresh m = (case tm_refreshInFlight m of Some p \<Rightarrow> (m, None)
   | None \<Rightarrow> (m\<lparr>tm_refreshInFlight :=
       Some (if tm_priorInterruptionRead m then ReadingCandidates else ReadingInterruption)\<rparr>, None))"

definition expiry_skew_ms :: jsnum where
  "expiry_skew_ms = Fin 30000"

definition get_session :: "int \<Rightarrow> token_manager \<Rightarrow> token_manager \<times> auth_session option" where
  "get_session now m = (case tm_session m of
     Some s \<Rightarrow> if num now < as_expiresAt s - expiry_skew_ms then (m, Some s) else refresh m
   | None \<Rightarrow> refresh m)"

definition refresh_after_unauthorized :: "int \<Rightarrow> token_manager \<Rightarrow> token_manager \<times> auth_session option" where
  "refresh_after_unauthorized rejectedGeneration m =
     (if tm_refreshInFlight m \<noteq> None then (m\<lparr>tm_lastDisposition := Some JOINED_REFRESH\<rparr>, None)
      else (case tm_session m of
        Some s \<Rightarrow> if rejectedGeneration < as_generation s
          then (m\<lparr>tm_lastDisposition := Some REUSED_NEWER_SESSION\<rparr>, Some s)
          else refresh (m\<lparr>tm_lastDisposition := Some STARTED_REFRESH\<rparr>)
      | None \<Rightarrow> refresh (m\<lparr>tm_lastDisposition := Some STARTED_REFRESH\<rparr>)))"

text \<open>\<open>new URL(u).protocol\<close>; \<open>None\<close> when the constructor throws\<close>

type_synonym url_protocol = "string \<Rightarrow> string option"

definition to_session :: "url_protocol \<Rightarrow> int \<Rightarrow> raw_token_grant \<Rightarrow> token_manager \<Rightarrow> failure + token_manager \<times> auth_session" where
  "to_session url now g m =
     (if tg_token_type g \<noteq> ''Bearer'' \<or> tg_expires_in g \<le> Fin 0 \<or> tg_access_token g = [] \<or> tg_refresh_token g = []
      then Inl (plain_error ''Questrade returned an invalid token grant'')
      else (case url (tg_api_server g) of
        None \<Rightarrow> Inl ((plain_error ''Invalid URL'')\<lparr>fl_name := ''TypeError''\<rparr>)
      | Some protocol \<Rightarrow>
          if protocol \<noteq> ''https:'' then Inl (plain_error ''Questrade API server must use HTTPS'')
          else (let m' = m\<lparr>tm_sessionGeneration := tm_sessionGeneration m + 1\<rparr> in
            Inr (m', \<lparr>as_accessToken = tg_access_token g, as_refreshToken = tg_refresh_token g,
              as_expiresAt = time_clip (num now + tg_expires_in g * Fin 1000), as_apiServer = tg_api_server g,
              as_generation = tm_sessionGeneration m'\<rparr>))))"

datatype refresh_reply =
    Interruption "int option"
  | Candidates "string list"
  | Begun
  | Granted raw_token_grant
  | Rotated
  | Failed failure

type_synonym refresh_outcome = "auth_error + auth_session"

definition settle_refresh :: "refresh_outcome \<Rightarrow> token_manager \<Rightarrow> token_manager \<times> refresh_outcome option" where
  "settle_refresh out m = (m\<lparr>tm_refreshInFlight := None\<rparr>, Some out)"

text \<open>The end of the body of the loop for a candidate that failed with \<open>lastError\<close>.\<close>

definition next_candidate :: "failure \<Rightarrow> string list \<Rightarrow> token_manager \<Rightarrow> token_manager \<times> refresh_outcome option" where
  "next_candidate lastError cs m = (case cs of
     [] \<Rightarrow> settle_refresh (Inl (ReauthorizationRequired lastError (tm_priorInterruption m))) m
   | c # cs' \<Rightarrow> (m\<lparr>tm_refreshInFlight := Some (Beginning c cs')\<rparr>, None))"

definition resume_refresh :: "url_protocol \<Rightarrow> int \<Rightarrow> refresh_reply \<Rightarrow> token_manager \<Rightarrow>
    token_manager \<times> refresh_outcome option" where
  "resume_refresh url now reply m = (case tm_refreshInFlight m of
     None \<Rightarrow> (m, None)
   | Some ReadingInterruption \<Rightarrow> (case reply of
       Interruption d \<Rightarrow> (m\<lparr>tm_priorInterruption := d, tm_priorInterruptionRead := True,
         tm_refreshInFlight := Some ReadingCandidates\<rparr>, None)
     | Failed e \<Rightarrow> settle_refresh (Inl (OtherFailure e)) m
     | _ \<Rightarrow> (m, None))
   | Some ReadingCandidates \<Rightarrow> (case reply of
       Candidates [] \<Rightarrow> settle_refresh (Inl (ReauthorizationRequired
         (plain_error ''No persisted Questrade refresh token is available'') None)) m
     | Candidates (c # cs) \<Rightarrow> (m\<lparr>tm_refreshInFlight := Some (Beginning c cs)\<rparr>, None)
     | Failed e \<Rightarrow> settle_refresh (Inl (OtherFailure e)) m
     | _ \<Rightarrow> (m, None))
   | Some (Beginning c cs) \<Rightarrow> (case reply of
       Begun \<Rightarrow> (m\<lparr>tm_refreshInFlight := Some (Redeeming c cs)\<rparr>, None)
     | Failed e \<Rightarrow> next_candidate e cs m
     | _ \<Rightarrow> (m, None))
   | Some (Redeeming c cs) \<Rightarrow> (case reply of
       Granted g \<Rightarrow> (case to_session url now g m of
         Inl e \<Rightarrow> next_candidate e cs m
       | Inr (m', s) \<Rightarrow> (m'\<lparr>tm_refreshInFlight := Some (Rotating c s)\<rparr>, None))
     | Failed e \<Rightarrow> if is_transient_redemption_failure e then settle_refresh (Inl (TransientToken e)) m
         else next_candidate e cs m
     | _ \<Rightarrow> (m, None))
   | Some (Rotating c s) \<Rightarrow> (case reply of
       Rotated \<Rightarrow> settle_refresh (Inr s) (m\<lparr>tm_session := Some s\<rparr>)
     | Failed e \<Rightarrow> settle_refresh (Inl (PersistenceUncertain e)) m
     | _ \<Rightarrow> (m, None)))"

end
