(* ===== verification/TokenProperties.thy ===== *)
theory TokenProperties
  imports TokenManager
begin

text \<open>
  The credentials of the broker connection under failures: \<open>token_step\<close> is a system of the manager, a
  store and the broker, in which every call may fail with or without effect and the process may die.
  The contract of the stores is the locale \<open>refresh_token_store\<close>, extended by
  \<open>durable_token_store\<close> for one that survives the process.
\<close>

section \<open>The contract of a store\<close>

locale refresh_token_store =
  fixes st :: "'s token_store" and valid :: "'s \<Rightarrow> bool"
  assumes candidates_read: "valid s \<Longrightarrow> \<exists>c cs. st_candidates st s = Inr (c # cs)"
    and begin_valid: "valid s \<Longrightarrow> valid (st_begin st t s)"
    and begin_candidates: "st_candidates st (st_begin st t s) = st_candidates st s"
    and begin_marks: "valid s \<Longrightarrow> st_interrupted st (st_begin st t s) \<noteq> None"
    and rotates: "valid s \<Longrightarrow> st_candidates st s = Inr cs \<Longrightarrow> c \<in> set cs \<Longrightarrow> r \<noteq> [] \<Longrightarrow>
      \<exists>s' cs'. st_rotate st c r s = Inr s' \<and> valid s' \<and> st_candidates st s' = Inr (r # cs') \<and>
        c \<in> set (r # cs') \<and> st_interrupted st s' = None"

locale durable_token_store = refresh_token_store st valid
  for st :: "'s token_store" and valid :: "'s \<Rightarrow> bool" +
  fixes restart :: "string \<Rightarrow> 's \<Rightarrow> 's" and bootstrap :: "'s \<Rightarrow> string"
  assumes bootstrap_text: "valid s \<Longrightarrow> bootstrap s \<noteq> []"
    and restart_valid: "valid s \<Longrightarrow> t \<noteq> [] \<Longrightarrow> valid (restart t s)"
    and restart_interrupted: "valid s \<Longrightarrow> t \<noteq> [] \<Longrightarrow> st_interrupted st (restart t s) = st_interrupted st s"
    and restart_same: "valid s \<Longrightarrow> st_candidates st (restart (bootstrap s) s) = st_candidates st s"
    and restart_known: "valid s \<Longrightarrow> t \<noteq> [] \<Longrightarrow> st_candidates st (restart t s) = Inr cs \<Longrightarrow> t \<in> set cs"

subsection \<open>The store in memory\<close>

definition memory_valid :: "memory_store \<Rightarrow> bool" where
  "memory_valid s \<longleftrightarrow> ms_refreshToken s \<noteq> []"

interpretation memory: refresh_token_store memory_token_store memory_valid
  by unfold_locales
    (auto simp: memory_token_store_def memory_valid_def memory_read_candidates_def memory_rotate_def
      split: option.splits if_split_asm)

subsection \<open>The store in the database\<close>

text \<open>What AES-GCM with base64url text promises: what was sealed is opened again.\<close>

definition proper_cipher :: "secret_cipher \<Rightarrow> bool" where
  "proper_cipher ci \<longleftrightarrow> (\<forall>k s. s \<noteq> [] \<longrightarrow> (case cipher_seal ci k s of (iv, tag, ct) \<Rightarrow>
     cipher_open ci iv tag ct = Some s \<and> iv \<noteq> [] \<and> tag \<noteq> [] \<and> ct \<noteq> [] \<and>
     CHR ''.'' \<notin> set iv \<and> CHR ''.'' \<notin> set tag \<and> CHR ''.'' \<notin> set ct))"

lemma decrypt_encrypt:
  assumes "proper_cipher ci" "encrypt_secret ci k s = Inr e"
  shows "decrypt_secret ci e = Inr s" "s \<noteq> []" "e \<noteq> []"
proof -
  from assms(2) show s: "s \<noteq> []" by (auto simp: encrypt_secret_def split: if_splits)
  obtain iv tag ct where parts: "cipher_seal ci k s = (iv, tag, ct)" by (cases "cipher_seal ci k s") auto
  have ok: "cipher_open ci iv tag ct = Some s" "iv \<noteq> []" "tag \<noteq> []" "ct \<noteq> []"
    "CHR ''.'' \<notin> set iv" "CHR ''.'' \<notin> set tag" "CHR ''.'' \<notin> set ct"
    using assms(1) [unfolded proper_cipher_def, rule_format, OF s, of k] by (simp_all add: parts)
  have e: "e = ''v1'' @ CHR ''.'' # iv @ CHR ''.'' # tag @ CHR ''.'' # ct"
    using assms(2) s parts by (simp add: encrypt_secret_def)
  then show "e \<noteq> []" by simp
  have "split_on (CHR ''.'') e = [''v1'', iv, tag, ct]"
    unfolding e using ok(5-7) by (subst split_on_append) (simp_all add: split_on_append split_on_plain)
  then show "decrypt_secret ci e = Inr s" using ok by (simp add: decrypt_secret_def)
qed

lemma encrypts: "s \<noteq> [] \<Longrightarrow> \<exists>e. encrypt_secret ci k s = Inr e"
  by (simp add: encrypt_secret_def split: prod.splits)

definition pg_valid :: "secret_cipher \<Rightarrow> postgres_store \<Rightarrow> bool" where
  "pg_valid ci s \<longleftrightarrow> (\<exists>r t b. pg_row s = Some r \<and> decrypt_secret ci (ar_token r) = Inr t \<and> t \<noteq> [] \<and> ar_token r \<noteq> [] \<and>
     pg_bootstrapToken s = Some b \<and> b \<noteq> [])"

definition pg_bootstrap :: "postgres_store \<Rightarrow> string" where
  "pg_bootstrap s = (case pg_bootstrapToken s of None \<Rightarrow> [] | Some b \<Rightarrow> b)"

text \<open>A new process with the token of its environment\<close>

definition pg_restart :: "secret_cipher \<Rightarrow> string \<Rightarrow> postgres_store \<Rightarrow> postgres_store" where
  "pg_restart ci t s = (case pg_initialize ci t (s\<lparr>pg_bootstrapToken := None\<rparr>) of Inl e \<Rightarrow> s | Inr s' \<Rightarrow> s')"

lemma pg_validE:
  assumes "pg_valid ci s"
  obtains r t b where "pg_row s = Some r" "decrypt_secret ci (ar_token r) = Inr t" "t \<noteq> []" "ar_token r \<noteq> []"
    "pg_bootstrapToken s = Some b" "b \<noteq> []"
  using assms by (auto simp: pg_valid_def)

lemma keep_first_set: "t \<in> set (keep_first seen ts) \<longleftrightarrow> Some t \<in> set ts \<and> t \<noteq> [] \<and> t \<notin> set seen"
  by (induction seen ts rule: keep_first.induct) auto

lemma pg_restart_parts:
  assumes "pg_row s = Some r" "t \<noteq> []"
  shows "pg_row (pg_restart ci t s) = Some r" "pg_bootstrapToken (pg_restart ci t s) = Some t"
proof -
  obtain e where "encrypt_secret ci (pg_vectors s) t = Inr e" using encrypts [OF assms(2)] by blast
  then show "pg_row (pg_restart ci t s) = Some r" "pg_bootstrapToken (pg_restart ci t s) = Some t"
    using assms(1) by (simp_all add: pg_restart_def pg_initialize_def)
qed

lemma pg_candidates:
  assumes "pg_row s = Some r" "decrypt_secret ci (ar_token r) = Inr t"
  shows "pg_read_candidates ci s = Inr (keep_first [] [Some t, pg_decrypt ci (ar_previous r), pg_bootstrapToken s])"
  using assms by (simp add: pg_read_candidates_def)

lemma postgres_durable:
  assumes "proper_cipher ci"
  shows "durable_token_store (postgres_token_store ci) (pg_valid ci) (pg_restart ci) pg_bootstrap"
proof unfold_locales
  fix s cs c and r :: string
  let ?st = "postgres_token_store ci"
  assume valid: "pg_valid ci s" and cs: "st_candidates ?st s = Inr cs" and c: "c \<in> set cs" and r: "r \<noteq> []"
  obtain row t b where row: "pg_row s = Some row" "decrypt_secret ci (ar_token row) = Inr t" "ar_token row \<noteq> []"
    "pg_bootstrapToken s = Some b" "b \<noteq> []" using valid by (rule pg_validE)
  have known: "Some c \<in> set [Some t, pg_decrypt ci (ar_previous row), Some b]" "c \<noteq> []"
    using c cs row by (auto simp: postgres_token_store_def pg_candidates keep_first_set simp del: keep_first.simps)
  have current: "pg_decrypt ci (Some (ar_token row)) = Some t" using row by (simp add: pg_decrypt_def)
  obtain new old where sealed: "encrypt_secret ci (pg_vectors s) r = Inr new" "encrypt_secret ci (pg_vectors s + 1) c = Inr old"
    using encrypts r known(2) by metis
  note opened = decrypt_encrypt [OF assms sealed(1)] decrypt_encrypt [OF assms sealed(2)]
  let ?s = "s\<lparr>pg_row := Some \<lparr>ar_token = new, ar_previous = Some old, ar_startedAt = None, ar_version = ar_version row + 1\<rparr>,
    pg_vectors := pg_vectors s + 2\<rparr>"
  have "pg_rotate ci c r s = Inr ?s"
    using known row current sealed by (simp add: pg_rotate_def)
  moreover have "pg_valid ci ?s" using opened row by (simp add: pg_valid_def)
  moreover have "pg_read_candidates ci ?s = Inr (keep_first [] [Some r, Some c, Some b])"
    using opened row by (simp add: pg_read_candidates_def pg_decrypt_def)
  ultimately show "\<exists>s' cs'. st_rotate ?st c r s = Inr s' \<and> pg_valid ci s' \<and> st_candidates ?st s' = Inr (r # cs') \<and>
      c \<in> set (r # cs') \<and> st_interrupted ?st s' = None"
    using r known(2) by (auto simp: postgres_token_store_def pg_interrupted_rotation_at_def)
next
  fix s assume "pg_valid ci s"
  then show "\<exists>c cs. st_candidates (postgres_token_store ci) s = Inr (c # cs)"
    by (rule pg_validE) (simp add: postgres_token_store_def pg_candidates)
qed (auto elim!: pg_validE simp: postgres_token_store_def pg_read_candidates_def pg_begin_rotation_def pg_restart_parts
    pg_interrupted_rotation_at_def pg_valid_def pg_bootstrap_def keep_first_set split: option.splits simp del: keep_first.simps)

section \<open>The manager, its store and the broker\<close>

record 's token_system =
  sy_store :: 's
  sy_manager :: token_manager
  sy_current :: string  \<comment> \<open>the refresh token the broker accepts\<close>

definition deliver_reply :: "url_protocol \<Rightarrow> int \<Rightarrow> refresh_reply \<Rightarrow> 's token_system \<Rightarrow>
    's token_system \<times> refresh_outcome option" where
  "deliver_reply url now reply y = (case resume_refresh url now reply (sy_manager y) of
     (m, out) \<Rightarrow> (y\<lparr>sy_manager := m\<rparr>, out))"

definition waits_for :: "'s token_system \<Rightarrow> rotation_phase \<Rightarrow> bool" where
  "waits_for y p \<longleftrightarrow> tm_refreshInFlight (sy_manager y) = Some p"

text \<open>
  \<open>failed\<close> is a call that had no effect, as when the broker refuses the token or nothing reaches it;
  \<open>begun_lost\<close>, \<open>grant_lost\<close> and \<open>rotated_lost\<close> had their effect and are reported as failures. A process
  may die between any two steps; \<open>reauthorized\<close> is an operator who obtains a new token from
  the broker and restarts the process with it.
\<close>

inductive token_step :: "'s token_store \<Rightarrow> (string \<Rightarrow> 's \<Rightarrow> 's) \<Rightarrow> ('s \<Rightarrow> string) \<Rightarrow> url_protocol \<Rightarrow>
    's token_system \<Rightarrow> 's token_system \<Rightarrow> bool"
  for st restart bootstrap url where
  asked: "token_step st restart bootstrap url y (y\<lparr>sy_manager := fst (get_session now (sy_manager y))\<rparr>)"
| unauthorized: "token_step st restart bootstrap url y
    (y\<lparr>sy_manager := fst (refresh_after_unauthorized generation (sy_manager y))\<rparr>)"
| failed: "token_step st restart bootstrap url y (fst (deliver_reply url now (Failed e) y))"
| interruption: "waits_for y ReadingInterruption \<Longrightarrow> token_step st restart bootstrap url y
    (fst (deliver_reply url now (Interruption (st_interrupted st (sy_store y))) y))"
| candidates: "waits_for y ReadingCandidates \<Longrightarrow> st_candidates st (sy_store y) = Inr cs \<Longrightarrow>
    token_step st restart bootstrap url y (fst (deliver_reply url now (Candidates cs) y))"
| begun: "waits_for y (Beginning c cs) \<Longrightarrow> token_step st restart bootstrap url y
    (fst (deliver_reply url now Begun (y\<lparr>sy_store := st_begin st time (sy_store y)\<rparr>)))"
| begun_lost: "waits_for y (Beginning c cs) \<Longrightarrow> token_step st restart bootstrap url y
    (fst (deliver_reply url now (Failed e) (y\<lparr>sy_store := st_begin st time (sy_store y)\<rparr>)))"
| granted: "waits_for y (Redeeming (sy_current y) cs) \<Longrightarrow> token_step st restart bootstrap url y
    (fst (deliver_reply url now (Granted g) (y\<lparr>sy_current := tg_refresh_token g\<rparr>)))"
| grant_lost: "waits_for y (Redeeming (sy_current y) cs) \<Longrightarrow> token_step st restart bootstrap url y
    (fst (deliver_reply url now (Failed e) (y\<lparr>sy_current := t\<rparr>)))"
| rotated: "waits_for y (Rotating c s) \<Longrightarrow> st_rotate st c (as_refreshToken s) (sy_store y) = Inr store \<Longrightarrow>
    token_step st restart bootstrap url y (fst (deliver_reply url now Rotated (y\<lparr>sy_store := store\<rparr>)))"
| rotated_lost: "waits_for y (Rotating c s) \<Longrightarrow> st_rotate st c (as_refreshToken s) (sy_store y) = Inr store \<Longrightarrow>
    token_step st restart bootstrap url y (fst (deliver_reply url now (Failed e) (y\<lparr>sy_store := store\<rparr>)))"
| restarted: "token_step st restart bootstrap url y
    (y\<lparr>sy_store := restart (bootstrap (sy_store y)) (sy_store y), sy_manager := new_token_manager\<rparr>)"
| reauthorized: "t \<noteq> [] \<Longrightarrow> token_step st restart bootstrap url y
    \<lparr>sy_store = restart t (sy_store y), sy_manager = new_token_manager, sy_current = t\<rparr>"

definition token_start :: "'s \<Rightarrow> string \<Rightarrow> 's token_system" where
  "token_start store t = \<lparr>sy_store = store, sy_manager = new_token_manager, sy_current = t\<rparr>"

section \<open>The invariant\<close>

text \<open>The candidates that remain are among those of the store, and from the request to the broker
  until the replacement is installed the store has the marker.\<close>

definition phase_ok :: "string list \<Rightarrow> bool \<Rightarrow> string \<Rightarrow> rotation_phase option \<Rightarrow> bool" where
  "phase_ok known marked current phase = (case phase of
     Some (Beginning c cs) \<Rightarrow> set (c # cs) \<subseteq> set known
   | Some (Redeeming c cs) \<Rightarrow> set (c # cs) \<subseteq> set known \<and> marked
   | Some (Rotating c s) \<Rightarrow> c \<in> set known \<and> marked \<and> as_refreshToken s = current \<and> current \<noteq> []
   | _ \<Rightarrow> True)"

definition generation_ok :: "token_manager \<Rightarrow> bool" where
  "generation_ok m \<longleftrightarrow> (\<forall>s. tm_session m = Some s \<longrightarrow> as_generation s \<le> tm_sessionGeneration m) \<and>
     (\<forall>c s. tm_refreshInFlight m = Some (Rotating c s) \<longrightarrow> as_generation s = tm_sessionGeneration m)"

lemma phase_ok_simps [simp]:
  "phase_ok known marked current None"
  "phase_ok known marked current (Some ReadingInterruption)"
  "phase_ok known marked current (Some ReadingCandidates)"
  "phase_ok known marked current (Some (Beginning c cs)) \<longleftrightarrow> set (c # cs) \<subseteq> set known"
  "phase_ok known marked current (Some (Redeeming c cs)) \<longleftrightarrow> set (c # cs) \<subseteq> set known \<and> marked"
  "phase_ok known marked current (Some (Rotating c s)) \<longleftrightarrow>
    c \<in> set known \<and> marked \<and> as_refreshToken s = current \<and> current \<noteq> []"
  by (simp_all add: phase_ok_def)

lemma phase_ok_next [simp]:
  "phase_ok known marked current (tm_refreshInFlight (fst (next_candidate e cs m))) \<longleftrightarrow> set cs \<subseteq> set known"
  by (cases cs) (simp_all add: next_candidate_def settle_refresh_def)

lemma settle_refresh_simps [simp]:
  "fst (settle_refresh out m) = m\<lparr>tm_refreshInFlight := None\<rparr>" "snd (settle_refresh out m) = Some out"
  by (simp_all add: settle_refresh_def)

lemma resume_Failed_phase:
  "phase_ok known marked current (tm_refreshInFlight m) \<Longrightarrow>
    phase_ok known marked' current' (tm_refreshInFlight (fst (resume_refresh url now (Failed e) m)))"
  by (auto simp: resume_refresh_def split: option.split rotation_phase.split)

lemma to_session_parts:
  assumes "to_session url now g m = Inr (m', s)"
  shows "m' = m\<lparr>tm_sessionGeneration := tm_sessionGeneration m + 1\<rparr>" "as_refreshToken s = tg_refresh_token g"
    "tg_refresh_token g \<noteq> []" "as_generation s = tm_sessionGeneration m + 1"
  using assms by (auto simp: to_session_def Let_def split: if_splits option.splits)

lemma generation_flight:
  "generation_ok m \<Longrightarrow> \<forall>c s. p \<noteq> Some (Rotating c s) \<Longrightarrow> generation_ok (m\<lparr>tm_refreshInFlight := p\<rparr>)"
  by (simp add: generation_ok_def)

lemma generation_next: "generation_ok m \<Longrightarrow> generation_ok (fst (next_candidate e cs m))"
  by (cases cs) (simp_all add: next_candidate_def generation_flight)

lemma generation_granted:
  assumes "generation_ok m" "to_session url now g m = Inr (m', s)"
  shows "generation_ok (m'\<lparr>tm_refreshInFlight := Some (Rotating c s)\<rparr>)"
  using assms to_session_parts [OF assms(2)] by (auto simp: generation_ok_def)

lemma generation_resume:
  assumes ok: "generation_ok m"
  shows "generation_ok (fst (resume_refresh url now reply m))"
proof (cases "tm_refreshInFlight m")
  case (Some p)
  show ?thesis
  proof (cases p)
    case ReadingInterruption
    then show ?thesis using ok Some
      by (auto simp: resume_refresh_def generation_ok_def split: refresh_reply.split)
  next
    case ReadingCandidates
    then show ?thesis using ok Some
      by (auto simp: resume_refresh_def generation_flight split: refresh_reply.split list.split)
  next
    case (Beginning c cs)
    then show ?thesis using ok Some
      by (auto simp: resume_refresh_def generation_flight generation_next split: refresh_reply.split)
  next
    case (Redeeming c cs)
    then show ?thesis using ok Some
      by (auto simp: resume_refresh_def generation_flight generation_next generation_granted
          split: refresh_reply.split sum.split)
  next
    case (Rotating c s)
    then show ?thesis using ok Some
      by (auto simp: resume_refresh_def generation_ok_def split: refresh_reply.split)
  qed
qed (use ok in \<open>simp add: resume_refresh_def\<close>)

lemma refresh_flight:
  "tm_refreshInFlight (fst (refresh m)) \<in> {tm_refreshInFlight m, Some ReadingInterruption, Some ReadingCandidates}"
  "tm_session (fst (refresh m)) = tm_session m" "tm_sessionGeneration (fst (refresh m)) = tm_sessionGeneration m"
  by (auto simp: refresh_def split: option.split)

lemma get_session_flight:
  "tm_refreshInFlight (fst (get_session now m)) \<in> {tm_refreshInFlight m, Some ReadingInterruption, Some ReadingCandidates}"
  "tm_session (fst (get_session now m)) = tm_session m"
  "tm_sessionGeneration (fst (get_session now m)) = tm_sessionGeneration m"
  using refresh_flight [of m] by (auto simp: get_session_def split: option.split)

lemma unauthorized_flight:
  fixes m :: token_manager and generation :: int
  defines "m' \<equiv> fst (refresh_after_unauthorized generation m)"
  shows "tm_refreshInFlight m' \<in> {tm_refreshInFlight m, Some ReadingInterruption, Some ReadingCandidates}"
    "tm_session m' = tm_session m" "tm_sessionGeneration m' = tm_sessionGeneration m"
  using refresh_flight [of "m\<lparr>tm_lastDisposition := Some STARTED_REFRESH\<rparr>"]
  unfolding m'_def by (auto simp: refresh_after_unauthorized_def split: option.split)

text \<open>The store is readable, and without the marker it has the token the broker accepts.\<close>

definition tokens_inv :: "'s token_store \<Rightarrow> ('s \<Rightarrow> bool) \<Rightarrow> 's token_system \<Rightarrow> bool" where
  "tokens_inv st valid y \<longleftrightarrow> valid (sy_store y) \<and> generation_ok (sy_manager y) \<and>
     (\<exists>known. st_candidates st (sy_store y) = Inr known \<and>
       (st_interrupted st (sy_store y) = None \<longrightarrow> sy_current y \<in> set known) \<and>
       phase_ok known (st_interrupted st (sy_store y) \<noteq> None) (sy_current y) (tm_refreshInFlight (sy_manager y)))"

lemma tokens_invI:
  assumes "valid (sy_store y)" "generation_ok (sy_manager y)" "st_candidates st (sy_store y) = Inr known"
    "st_interrupted st (sy_store y) = None \<Longrightarrow> sy_current y \<in> set known"
    "phase_ok known (st_interrupted st (sy_store y) \<noteq> None) (sy_current y) (tm_refreshInFlight (sy_manager y))"
  shows "tokens_inv st valid y"
  using assms by (auto simp: tokens_inv_def)

lemma deliver_reply_simps [simp]:
  "sy_store (fst (deliver_reply url now r y)) = sy_store y"
  "sy_current (fst (deliver_reply url now r y)) = sy_current y"
  "sy_manager (fst (deliver_reply url now r y)) = fst (resume_refresh url now r (sy_manager y))"
  "snd (deliver_reply url now r y) = snd (resume_refresh url now r (sy_manager y))"
  by (simp_all add: deliver_reply_def split: prod.split)

lemma phase_ok_same:
  "phase_ok known marked current p \<Longrightarrow> p' \<in> {p, Some ReadingInterruption, Some ReadingCandidates} \<Longrightarrow>
    phase_ok known marked current p'"
  by auto

lemma generation_ok_new: "generation_ok new_token_manager"
  by (simp add: generation_ok_def new_token_manager_def)

context refresh_token_store
begin

lemma begin_inv:
  assumes inv: "tokens_inv st valid y" and wait: "waits_for y (Beginning c cs)" and reply: "reply = Begun \<or> reply = Failed e"
  shows "tokens_inv st valid (fst (deliver_reply url now reply (y\<lparr>sy_store := st_begin st t (sy_store y)\<rparr>)))"
proof -
  from inv obtain known where known: "valid (sy_store y)" "generation_ok (sy_manager y)"
    "st_candidates st (sy_store y) = Inr known"
    "phase_ok known (st_interrupted st (sy_store y) \<noteq> None) (sy_current y) (tm_refreshInFlight (sy_manager y))"
    unfolding tokens_inv_def by blast
  have marked: "st_interrupted st (st_begin st t (sy_store y)) \<noteq> None" using begin_marks known(1) .
  have phase: "phase_ok known True (sy_current y) (tm_refreshInFlight (fst (resume_refresh url now reply (sy_manager y))))"
    using reply
  proof
    assume "reply = Begun"
    then show ?thesis using known(4) wait by (simp add: waits_for_def resume_refresh_def)
  qed (use known(4) resume_Failed_phase in blast)
  show ?thesis
    using known(1-3) marked phase
    by (intro tokens_invI [where known = known]) (simp_all add: begin_valid begin_candidates generation_resume)
qed

lemma rotate_inv:
  assumes inv: "tokens_inv st valid y" and wait: "waits_for y (Rotating c s)"
    and rotate: "st_rotate st c (as_refreshToken s) (sy_store y) = Inr store" and reply: "reply = Rotated \<or> reply = Failed e"
  shows "tokens_inv st valid (fst (deliver_reply url now reply (y\<lparr>sy_store := store\<rparr>)))"
proof -
  from inv obtain known where known: "valid (sy_store y)" "generation_ok (sy_manager y)"
    "st_candidates st (sy_store y) = Inr known" "c \<in> set known" "as_refreshToken s = sy_current y" "sy_current y \<noteq> []"
    using wait by (auto simp: tokens_inv_def waits_for_def)
  from rotates [OF known(1,3,4,6)] rotate obtain cs where
    store: "valid store" "st_candidates st store = Inr (sy_current y # cs)" "st_interrupted st store = None"
    unfolding known(5) by auto
  have "tm_refreshInFlight (fst (resume_refresh url now reply (sy_manager y))) = None"
    using reply wait by (auto simp: waits_for_def resume_refresh_def)
  then show ?thesis
    using store known(2) by (intro tokens_invI [where known = "sy_current y # cs"]) (simp_all add: generation_resume)
qed

lemma broker_inv:
  assumes inv: "tokens_inv st valid y" and wait: "waits_for y (Redeeming c cs)"
    and reply: "reply = Granted g \<and> t = tg_refresh_token g \<or> reply = Failed e"
  shows "tokens_inv st valid (fst (deliver_reply url now reply (y\<lparr>sy_current := t\<rparr>)))"
proof -
  from inv obtain known where known: "valid (sy_store y)" "generation_ok (sy_manager y)"
    "st_candidates st (sy_store y) = Inr known" "set (c # cs) \<subseteq> set known" "st_interrupted st (sy_store y) \<noteq> None"
    using wait by (auto simp: tokens_inv_def waits_for_def)
  have "phase_ok known True t (tm_refreshInFlight (fst (resume_refresh url now reply (sy_manager y))))"
    using reply
  proof
    assume granted: "reply = Granted g \<and> t = tg_refresh_token g"
    show ?thesis
    proof (cases "to_session url now g (sy_manager y)")
      case (Inl e)
      then show ?thesis using granted wait known(4) by (simp add: waits_for_def resume_refresh_def)
    next
      case (Inr ms)
      then obtain m s where ms: "to_session url now g (sy_manager y) = Inr (m, s)" by (cases ms) auto
      show ?thesis using granted wait known(4) ms to_session_parts [OF ms]
        by (simp add: waits_for_def resume_refresh_def)
    qed
  next
    assume failed: "reply = Failed e"
    show ?thesis unfolding failed using wait known(4)
      by (intro resume_Failed_phase [where known = known and marked = True and current = t]) (simp add: waits_for_def)
  qed
  then show ?thesis
    using known by (intro tokens_invI [where known = known]) (simp_all add: generation_resume)
qed

lemma reply_inv:
  assumes inv: "tokens_inv st valid y"
    and phase: "\<And>known. st_candidates st (sy_store y) = Inr known \<Longrightarrow>
      phase_ok known (st_interrupted st (sy_store y) \<noteq> None) (sy_current y) (tm_refreshInFlight (sy_manager y)) \<Longrightarrow>
      phase_ok known (st_interrupted st (sy_store y) \<noteq> None) (sy_current y)
        (tm_refreshInFlight (fst (resume_refresh url now reply (sy_manager y))))"
  shows "tokens_inv st valid (fst (deliver_reply url now reply y))"
  using assms unfolding tokens_inv_def by (auto simp: generation_resume)

lemma token_call_inv:
  assumes "tokens_inv st valid y"
    "tm_refreshInFlight m \<in> {tm_refreshInFlight (sy_manager y), Some ReadingInterruption, Some ReadingCandidates}"
    "tm_session m = tm_session (sy_manager y)" "tm_sessionGeneration m = tm_sessionGeneration (sy_manager y)"
  shows "tokens_inv st valid (y\<lparr>sy_manager := m\<rparr>)"
proof -
  have "generation_ok m" using assms unfolding tokens_inv_def generation_ok_def by auto
  then show ?thesis using assms phase_ok_same unfolding tokens_inv_def by fastforce
qed

end

context durable_token_store
begin

lemma token_step_inv: "token_step st restart bootstrap url y y' \<Longrightarrow> tokens_inv st valid y \<Longrightarrow> tokens_inv st valid y'"
proof (induction rule: token_step.induct)
  case (asked y now)
  then show ?case by (rule token_call_inv [OF _ get_session_flight])
next
  case (unauthorized y generation)
  then show ?case by (rule token_call_inv [OF _ unauthorized_flight])
next
  case (failed now e y)
  then show ?case by (rule reply_inv) (rule resume_Failed_phase)
next
  case (interruption y now)
  then show ?case by (intro reply_inv) (simp_all add: waits_for_def resume_refresh_def)
next
  case (candidates y cs now)
  from candidates.hyps have "phase_ok cs marked current
      (tm_refreshInFlight (fst (resume_refresh url now (Candidates cs) (sy_manager y))))" for marked current
    by (cases cs) (simp_all add: waits_for_def resume_refresh_def)
  then show ?case using candidates by (intro reply_inv) simp_all
next
  case (restarted y)
  then have valid: "valid (sy_store y)" by (simp add: tokens_inv_def)
  note same = restart_same [OF valid] restart_valid [OF valid bootstrap_text [OF valid]]
    restart_interrupted [OF valid bootstrap_text [OF valid]]
  from restarted.prems obtain known where "st_candidates st (sy_store y) = Inr known"
    "st_interrupted st (sy_store y) = None \<Longrightarrow> sy_current y \<in> set known" by (auto simp: tokens_inv_def)
  then show ?case using same
    by (intro tokens_invI [where known = known]) (simp_all add: generation_ok_new, simp add: new_token_manager_def)
next
  case (reauthorized t y)
  then have valid: "valid (sy_store y)" by (simp add: tokens_inv_def)
  note new = restart_valid [OF valid reauthorized.hyps] restart_known [OF valid reauthorized.hyps]
  from candidates_read [OF new(1)] obtain cs where "st_candidates st (restart t (sy_store y)) = Inr cs" by auto
  then show ?case using new
    by (intro tokens_invI [where known = cs]) (simp_all add: generation_ok_new, simp add: new_token_manager_def)
qed (blast intro: begin_inv rotate_inv broker_inv)+

lemma tokens_reachable_inv:
  assumes "valid s" "st_candidates st s = Inr cs" "t \<in> set cs"
    "(token_step st restart bootstrap url)\<^sup>*\<^sup>* (token_start s t) y"
  shows "tokens_inv st valid y"
  using assms(4)
proof (induction rule: rtranclp_induct)
  case base
  show ?case using assms(1-3)
    by (intro tokens_invI [where known = cs]) (simp_all add: token_start_def generation_ok_new, simp add: new_token_manager_def)
qed (rule token_step_inv)

end

section \<open>A rotation that is answered\<close>

text \<open>
  The store answers every call, the broker grants the token it accepts and refuses every other one.
\<close>

definition token_turn :: "'s token_store \<Rightarrow> url_protocol \<Rightarrow> int \<Rightarrow> (string \<Rightarrow> raw_token_grant) \<Rightarrow> failure \<Rightarrow>
    's token_system \<Rightarrow> 's token_system \<times> refresh_outcome option" where
  "token_turn st url now grants refusal y = (case tm_refreshInFlight (sy_manager y) of
     None \<Rightarrow> (y, None)
   | Some ReadingInterruption \<Rightarrow> deliver_reply url now (Interruption (st_interrupted st (sy_store y))) y
   | Some ReadingCandidates \<Rightarrow> (case st_candidates st (sy_store y) of
       Inl e \<Rightarrow> deliver_reply url now (Failed (plain_error [])) y
     | Inr cs \<Rightarrow> deliver_reply url now (Candidates cs) y)
   | Some (Beginning c cs) \<Rightarrow> deliver_reply url now Begun (y\<lparr>sy_store := st_begin st now (sy_store y)\<rparr>)
   | Some (Redeeming c cs) \<Rightarrow> if c = sy_current y
       then deliver_reply url now (Granted (grants c)) (y\<lparr>sy_current := tg_refresh_token (grants c)\<rparr>)
       else deliver_reply url now (Failed refusal) y
   | Some (Rotating c s) \<Rightarrow> (case st_rotate st c (as_refreshToken s) (sy_store y) of
       Inl e \<Rightarrow> deliver_reply url now (Failed (plain_error [])) y
     | Inr store \<Rightarrow> deliver_reply url now Rotated (y\<lparr>sy_store := store\<rparr>)))"

fun serve_refresh :: "nat \<Rightarrow> 's token_store \<Rightarrow> url_protocol \<Rightarrow> int \<Rightarrow> (string \<Rightarrow> raw_token_grant) \<Rightarrow> failure \<Rightarrow>
    's token_system \<Rightarrow> ('s token_system \<times> refresh_outcome) option" where
  "serve_refresh 0 st url now grants refusal y = None"
| "serve_refresh (Suc k) st url now grants refusal y = (case token_turn st url now grants refusal y of
     (y', Some out) \<Rightarrow> Some (y', out) | (y', None) \<Rightarrow> serve_refresh k st url now grants refusal y')"

definition proper_grant :: "url_protocol \<Rightarrow> raw_token_grant \<Rightarrow> bool" where
  "proper_grant url g \<longleftrightarrow> tg_token_type g = ''Bearer'' \<and> \<not> tg_expires_in g \<le> Fin 0 \<and> tg_access_token g \<noteq> [] \<and>
     tg_refresh_token g \<noteq> [] \<and> url (tg_api_server g) = Some ''https:''"

lemma proper_session:
  assumes "proper_grant url g"
  obtains s where "to_session url now g m = Inr (m\<lparr>tm_sessionGeneration := tm_sessionGeneration m + 1\<rparr>, s)"
    "as_refreshToken s = tg_refresh_token g" "as_accessToken s = tg_access_token g"
    "as_generation s = tm_sessionGeneration m + 1"
  using assms by (auto simp: to_session_def proper_grant_def Let_def)

text \<open>The state after a rotation that redeemed \<open>c\<close>\<close>

definition recovered :: "'s token_store \<Rightarrow> (string \<Rightarrow> raw_token_grant) \<Rightarrow> string \<Rightarrow> int \<Rightarrow> 's token_system \<Rightarrow> auth_session \<Rightarrow> bool" where
  "recovered st grants c generation y s \<longleftrightarrow>
     tm_session (sy_manager y) = Some s \<and> tm_refreshInFlight (sy_manager y) = None \<and>
     as_accessToken s = tg_access_token (grants c) \<and> as_generation s = generation + 1 \<and>
     sy_current y = tg_refresh_token (grants c) \<and>
     (\<exists>rest. st_candidates st (sy_store y) = Inr (sy_current y # rest) \<and> c \<in> set (sy_current y # rest)) \<and>
     st_interrupted st (sy_store y) = None"

definition in_phase :: "rotation_phase option \<Rightarrow> 's token_system \<Rightarrow> 's token_system" where
  "in_phase p y = y\<lparr>sy_manager := (sy_manager y)\<lparr>tm_refreshInFlight := p\<rparr>\<rparr>"

lemma in_phase_simps [simp]:
  "sy_store (in_phase p y) = sy_store y" "sy_current (in_phase p y) = sy_current y"
  "tm_refreshInFlight (sy_manager (in_phase p y)) = p"
  "tm_sessionGeneration (sy_manager (in_phase p y)) = tm_sessionGeneration (sy_manager y)"
  "waits_for (in_phase p y) q \<longleftrightarrow> p = Some q"
  by (simp_all add: in_phase_def waits_for_def)

lemmas turn_simps = token_turn_def deliver_reply_def resume_refresh_def waits_for_def

lemma turn_begin: "waits_for y (Beginning c cs) \<Longrightarrow> token_turn st url now grants refusal y =
    (in_phase (Some (Redeeming c cs)) (y\<lparr>sy_store := st_begin st now (sy_store y)\<rparr>), None)"
  by (simp add: turn_simps in_phase_def)

lemma turn_refused: "waits_for y (Redeeming c (c' # cs)) \<Longrightarrow> c \<noteq> sy_current y \<Longrightarrow>
    \<not> is_transient_redemption_failure refusal \<Longrightarrow>
    token_turn st url now grants refusal y = (in_phase (Some (Beginning c' cs)) y, None)"
  by (simp add: turn_simps next_candidate_def in_phase_def)

lemma turn_granted:
  assumes "waits_for y (Redeeming (sy_current y) cs)"
    "to_session url now (grants (sy_current y)) (sy_manager y) = Inr (m, s)"
  shows "token_turn st url now grants refusal y = (in_phase (Some (Rotating (sy_current y) s))
    (y\<lparr>sy_manager := m, sy_current := tg_refresh_token (grants (sy_current y))\<rparr>), None)"
  using assms by (simp add: turn_simps in_phase_def)

lemma turn_rotated:
  assumes "waits_for y (Rotating c s)" "st_rotate st c (as_refreshToken s) (sy_store y) = Inr store"
  shows "token_turn st url now grants refusal y =
    (y\<lparr>sy_store := store, sy_manager := (sy_manager y)\<lparr>tm_session := Some s, tm_refreshInFlight := None\<rparr>\<rparr>, Some (Inr s))"
  using assms by (simp add: turn_simps settle_refresh_def)

lemma serve_Suc: "token_turn st url now grants refusal y = (y', None) \<Longrightarrow>
    serve_refresh (Suc k) st url now grants refusal y = serve_refresh k st url now grants refusal y'"
  by simp

lemma serve_last: "token_turn st url now grants refusal y = (y', Some out) \<Longrightarrow>
    serve_refresh (Suc k) st url now grants refusal y = Some (y', out)"
  by simp

lemma serve_more: "serve_refresh k st url now grants refusal y = Some r \<Longrightarrow>
    serve_refresh (k + j) st url now grants refusal y = Some r"
  by (induction k arbitrary: y) (auto split: prod.splits option.splits)

declare serve_refresh.simps [simp del]

context refresh_token_store
begin

lemma serve_granted:
  assumes y: "valid (sy_store y)" "st_candidates st (sy_store y) = Inr known" "sy_current y \<in> set known"
    "waits_for y (Redeeming (sy_current y) cs)" and proper: "proper_grant url (grants (sy_current y))"
  shows "\<exists>y' s. serve_refresh (2 + k) st url now grants refusal y = Some (y', Inr s) \<and>
    recovered st grants (sy_current y) (tm_sessionGeneration (sy_manager y)) y' s"
proof -
  let ?c = "sy_current y"
  obtain s where s: "to_session url now (grants ?c) (sy_manager y) =
      Inr ((sy_manager y)\<lparr>tm_sessionGeneration := tm_sessionGeneration (sy_manager y) + 1\<rparr>, s)"
    "as_refreshToken s = tg_refresh_token (grants ?c)" "as_accessToken s = tg_access_token (grants ?c)"
    "as_generation s = tm_sessionGeneration (sy_manager y) + 1"
    using proper by (rule proper_session)
  have "tg_refresh_token (grants ?c) \<noteq> []" using proper by (simp add: proper_grant_def)
  from rotates [OF y(1-3) this] obtain store rest where
    store: "st_rotate st ?c (as_refreshToken s) (sy_store y) = Inr store"
    "st_candidates st store = Inr (tg_refresh_token (grants ?c) # rest)" "?c \<in> set (tg_refresh_token (grants ?c) # rest)"
    "st_interrupted st store = None" using s(2) by auto
  note first = turn_granted [where grants = grants and now = now and url = url, OF y(4) s(1)]
  let ?m = "(sy_manager y)\<lparr>tm_sessionGeneration := tm_sessionGeneration (sy_manager y) + 1\<rparr>"
  let ?y = "in_phase (Some (Rotating ?c s)) (y\<lparr>sy_manager := ?m, sy_current := tg_refresh_token (grants ?c)\<rparr>)"
  have "waits_for ?y (Rotating ?c s)" "st_rotate st ?c (as_refreshToken s) (sy_store ?y) = Inr store" using store(1) by simp_all
  note second = turn_rotated [where grants = grants and now = now and url = url and refusal = refusal, OF this]
  note serve = serve_Suc [OF first, of "Suc k"] serve_last [OF second, of k]
  show ?thesis
    unfolding add_2_eq_Suc serve recovered_def using s(3,4) store(2-4) by simp
qed

lemma serve_candidates:
  assumes "valid (sy_store y)" "st_candidates st (sy_store y) = Inr known" "set (c # cs) \<subseteq> set known"
    "sy_current y \<in> set (c # cs)" "waits_for y (Beginning c cs)" "proper_grant url (grants (sy_current y))"
    "\<not> is_transient_redemption_failure refusal"
  shows "\<exists>y' s. serve_refresh (3 + 2 * length cs) st url now grants refusal y = Some (y', Inr s) \<and>
    recovered st grants (sy_current y) (tm_sessionGeneration (sy_manager y)) y' s"
  using assms
proof (induction cs arbitrary: c y)
  case Nil
  let ?y = "in_phase (Some (Redeeming c [])) (y\<lparr>sy_store := st_begin st now (sy_store y)\<rparr>)"
  have "c = sy_current y" "sy_current y \<in> set known" using Nil.prems(3,4) by auto
  then have "\<exists>y' s. serve_refresh (2 + 0) st url now grants refusal ?y = Some (y', Inr s) \<and>
    recovered st grants (sy_current ?y) (tm_sessionGeneration (sy_manager ?y)) y' s"
    using Nil.prems by (intro serve_granted [where known = known and cs = "[]"]) (simp_all add: begin_valid begin_candidates)
  moreover have "3 + 2 * length ([] :: string list) = Suc (2 + 0)" by simp
  ultimately show ?case by (simp only: serve_Suc [OF turn_begin [OF Nil.prems(5)]]) simp
next
  case (Cons c' cs)
  let ?y = "in_phase (Some (Redeeming c (c' # cs))) (y\<lparr>sy_store := st_begin st now (sy_store y)\<rparr>)"
  have eq: "3 + 2 * length (c' # cs) = Suc (Suc (3 + 2 * length cs))" by simp
  note first = serve_Suc [OF turn_begin [OF Cons.prems(5)]]
  have begun: "valid (sy_store ?y)" "st_candidates st (sy_store ?y) = Inr known"
    using Cons.prems(1,2) by (simp_all add: begin_valid begin_candidates)
  show ?case
  proof (cases "c = sy_current y")
    case True
    have "\<exists>y' s. serve_refresh (2 + (2 + 2 * length cs)) st url now grants refusal ?y = Some (y', Inr s) \<and>
      recovered st grants (sy_current ?y) (tm_sessionGeneration (sy_manager ?y)) y' s"
      using True begun Cons.prems(3,6) by (intro serve_granted [where known = known and cs = "c' # cs"]) simp_all
    moreover have "3 + 2 * length (c' # cs) = Suc (2 + (2 + 2 * length cs))" by simp
    ultimately show ?thesis by (simp only: first) simp
  next
    case False
    let ?y2 = "in_phase (Some (Beginning c' cs)) ?y"
    have second: "token_turn st url now grants refusal ?y = (?y2, None)"
      using False Cons.prems(7) by (intro turn_refused) simp_all
    have "\<exists>y' s. serve_refresh (3 + 2 * length cs) st url now grants refusal ?y2 = Some (y', Inr s) \<and>
      recovered st grants (sy_current ?y2) (tm_sessionGeneration (sy_manager ?y2)) y' s"
      using begun False Cons.prems(3,4,6,7) by (intro Cons.IH) auto
    then show ?thesis unfolding eq first serve_Suc [OF second] by simp
  qed
qed

lemma serve_recovers:
  assumes inv: "tokens_inv st valid y" and idle: "tm_refreshInFlight (sy_manager y) = None"
    and known: "st_candidates st (sy_store y) = Inr known" "sy_current y \<in> set known"
    and env: "proper_grant url (grants (sy_current y))" "\<not> is_transient_redemption_failure refusal"
  shows "\<exists>y' s. serve_refresh (2 * length known + 3) st url now grants refusal
      (y\<lparr>sy_manager := fst (refresh (sy_manager y))\<rparr>) = Some (y', Inr s) \<and>
    recovered st grants (sy_current y) (tm_sessionGeneration (sy_manager y)) y' s"
proof -
  let ?y = "y\<lparr>sy_manager := fst (refresh (sy_manager y))\<rparr>"
  obtain c cs where cs: "known = c # cs"
    using known(1) candidates_read [of "sy_store y"] inv by (auto simp: tokens_inv_def)
  define m where "m = (sy_manager y)\<lparr>tm_refreshInFlight := Some ReadingCandidates, tm_priorInterruptionRead := True,
    tm_priorInterruption := (if tm_priorInterruptionRead (sy_manager y) then tm_priorInterruption (sy_manager y)
      else st_interrupted st (sy_store y))\<rparr>"
  have valid: "valid (sy_store y)" using inv by (simp add: tokens_inv_def)
  let ?y1 = "y\<lparr>sy_manager := m\<rparr>"
  let ?y2 = "in_phase (Some (Beginning c cs)) ?y1"
  have second: "token_turn st url now grants refusal ?y1 = (?y2, None)"
    using known(1) cs by (simp add: turn_simps m_def in_phase_def)
  have "\<exists>y' s. serve_refresh (3 + 2 * length cs) st url now grants refusal ?y2 = Some (y', Inr s) \<and>
    recovered st grants (sy_current ?y2) (tm_sessionGeneration (sy_manager ?y2)) y' s"
    using valid known cs env by (intro serve_candidates [where known = known]) auto
  then obtain y' s where ran: "serve_refresh (Suc (3 + 2 * length cs)) st url now grants refusal ?y1 = Some (y', Inr s)"
    "recovered st grants (sy_current y) (tm_sessionGeneration (sy_manager y)) y' s"
    unfolding serve_Suc [OF second] by (auto simp: m_def)
  have "serve_refresh (Suc (Suc (3 + 2 * length cs))) st url now grants refusal ?y = Some (y', Inr s)"
  proof (cases "tm_priorInterruptionRead (sy_manager y)")
    case True
    then have "?y = ?y1" using idle by (simp add: refresh_def m_def)
    then show ?thesis using serve_more [OF ran(1), of 1] by simp
  next
    case False
    then have "token_turn st url now grants refusal ?y = (?y1, None)"
      using idle by (simp add: refresh_def turn_simps m_def)
    then show ?thesis using ran(1) serve_Suc by metis
  qed
  moreover have "2 * length known + 3 = Suc (Suc (3 + 2 * length cs))" using cs by simp
  ultimately show ?thesis using ran(2) by metis
qed

end

section \<open>Properties\<close>

definition empty_postgres_store :: postgres_store where
  "empty_postgres_store = \<lparr>pg_row = None, pg_bootstrapToken = None, pg_vectors = 0\<rparr>"

text \<open>What can happen to a process that was first started with the token \<open>t\<close> on an empty table\<close>

definition token_reachable :: "secret_cipher \<Rightarrow> url_protocol \<Rightarrow> string \<Rightarrow> postgres_store token_system \<Rightarrow> bool" where
  "token_reachable ci url t y \<longleftrightarrow> (\<exists>s. pg_initialize ci t empty_postgres_store = Inr s \<and>
     (token_step (postgres_token_store ci) (pg_restart ci) pg_bootstrap url)\<^sup>*\<^sup>* (token_start s t) y)"

lemma token_reachable_inv:
  assumes ci: "proper_cipher ci" and y: "token_reachable ci url t y"
  shows "tokens_inv (postgres_token_store ci) (pg_valid ci) y"
proof -
  from y obtain s where s: "pg_initialize ci t empty_postgres_store = Inr s"
    "(token_step (postgres_token_store ci) (pg_restart ci) pg_bootstrap url)\<^sup>*\<^sup>* (token_start s t) y"
    by (auto simp: token_reachable_def)
  from s(1) obtain e where e: "encrypt_secret ci 0 t = Inr e"
    "s = \<lparr>pg_row = Some \<lparr>ar_token = e, ar_previous = None, ar_startedAt = None, ar_version = 1\<rparr>,
      pg_bootstrapToken = Some t, pg_vectors = 1\<rparr>"
    by (auto simp: pg_initialize_def empty_postgres_store_def bindR_eq_Inr)
  note opened = decrypt_encrypt [OF ci e(1)]
  have "pg_valid ci s" using opened by (simp add: pg_valid_def e(2))
  moreover have "st_candidates (postgres_token_store ci) s = Inr (keep_first [] [Some t, None, Some t])"
    using opened(1) by (simp add: postgres_token_store_def pg_read_candidates_def e(2) pg_decrypt_def)
  moreover have "t \<in> set (keep_first [] [Some t, None, Some t])" using opened(2) by simp
  ultimately show ?thesis using durable_token_store.tokens_reachable_inv [OF postgres_durable [OF ci] _ _ _ s(2)] by blast
qed

text \<open>
  C31: No refresh token is lost without a trace. Whatever calls fail, with or without effect, and
  whenever the process dies or an operator restarts it with a new token, the persisted tokens can be
  read; unless the row is marked as being rotated, the token the broker accepts is among them; and
  a session that waits for the store has the token the broker accepts, with the row marked.
\<close>

theorem no_token_lost_unmarked:
  assumes "proper_cipher ci" "token_reachable ci url t y"
  shows "\<exists>known. pg_read_candidates ci (sy_store y) = Inr known \<and>
    (pg_interrupted_rotation_at (sy_store y) = None \<longrightarrow> sy_current y \<in> set known) \<and>
    (\<forall>c s. tm_refreshInFlight (sy_manager y) = Some (Rotating c s) \<longrightarrow>
      as_refreshToken s = sy_current y \<and> c \<in> set known \<and> pg_interrupted_rotation_at (sy_store y) \<noteq> None)"
proof -
  from token_reachable_inv [OF assms] obtain known where known:
    "pg_read_candidates ci (sy_store y) = Inr known"
    "pg_interrupted_rotation_at (sy_store y) = None \<Longrightarrow> sy_current y \<in> set known"
    "phase_ok known (pg_interrupted_rotation_at (sy_store y) \<noteq> None) (sy_current y) (tm_refreshInFlight (sy_manager y))"
    by (auto simp: tokens_inv_def postgres_token_store_def)
  then show ?thesis by (intro exI [of _ known]) auto
qed

text \<open>
  C32: A refresh recovers. In every reachable state without a rotation in flight, when the row is not
  marked or the token the broker accepts is among the \<open>n\<close> persisted ones, a refresh whose
  calls are answered ends after at most \<open>2 n + 3\<close> replies with a new session: it is
  installed under the next generation, the replacement the broker issued is the first persisted token
  beside the one it replaced, the mark is gone, and a late refusal of an older session is
  answered with the new one.
\<close>

theorem refresh_recovers:
  assumes "proper_cipher ci" "token_reachable ci url t y" "tm_refreshInFlight (sy_manager y) = None"
    "pg_read_candidates ci (sy_store y) = Inr known"
    "pg_interrupted_rotation_at (sy_store y) = None \<or> sy_current y \<in> set known"
    "proper_grant url (grants (sy_current y))" "\<not> is_transient_redemption_failure refusal"
  shows "\<exists>y' s. serve_refresh (2 * length known + 3) (postgres_token_store ci) url now grants refusal
      (y\<lparr>sy_manager := fst (refresh (sy_manager y))\<rparr>) = Some (y', Inr s) \<and>
    tm_session (sy_manager y') = Some s \<and> tm_refreshInFlight (sy_manager y') = None \<and>
    as_generation s = tm_sessionGeneration (sy_manager y) + 1 \<and>
    sy_current y' = tg_refresh_token (grants (sy_current y)) \<and>
    (\<exists>rest. pg_read_candidates ci (sy_store y') = Inr (sy_current y' # rest) \<and>
      sy_current y \<in> set (sy_current y' # rest)) \<and>
    pg_interrupted_rotation_at (sy_store y') = None \<and>
    (\<forall>g \<le> tm_sessionGeneration (sy_manager y).
      snd (refresh_after_unauthorized g (sy_manager y')) = Some s)"
proof -
  note inv = token_reachable_inv [OF assms(1,2)]
  have current: "sy_current y \<in> set known"
    using inv assms(4,5) by (auto simp: tokens_inv_def postgres_token_store_def)
  let ?st = "postgres_token_store ci"
  have store: "refresh_token_store ?st (pg_valid ci)"
    using postgres_durable [OF assms(1)] by (rule durable_token_store.axioms(1))
  have known: "st_candidates ?st (sy_store y) = Inr known" using assms(4) by (simp add: postgres_token_store_def)
  obtain y' s where ran: "serve_refresh (2 * length known + 3) ?st url now grants refusal
      (y\<lparr>sy_manager := fst (refresh (sy_manager y))\<rparr>) = Some (y', Inr s)"
    "recovered ?st grants (sy_current y) (tm_sessionGeneration (sy_manager y)) y' s"
    using refresh_token_store.serve_recovers
        [where grants = grants and now = now and url = url and refusal = refusal, OF store inv assms(3) known current assms(6,7)] by blast
  note after = ran(2) [unfolded recovered_def]
  have late: "\<forall>g \<le> tm_sessionGeneration (sy_manager y). snd (refresh_after_unauthorized g (sy_manager y')) = Some s"
    using after by (simp add: refresh_after_unauthorized_def)
  have rest: "\<exists>rest. pg_read_candidates ci (sy_store y') = Inr (sy_current y' # rest) \<and>
      sy_current y \<in> set (sy_current y' # rest)"
    "pg_interrupted_rotation_at (sy_store y') = None"
    using after by (auto simp only: postgres_token_store_def token_store.simps)
  show ?thesis using ran(1) after rest late by blast
qed

section \<open>A sample\<close>

text \<open>A cipher whose text is free of dots: the letter \<open>a\<close> escapes itself and the dot.\<close>

fun escape_dots :: "string \<Rightarrow> string" where
  "escape_dots [] = []"
| "escape_dots (c # s) = (if c = CHR ''a'' then ''aa'' else if c = CHR ''.'' then ''ab'' else [c]) @ escape_dots s"

fun unescape_dots :: "string \<Rightarrow> string" where
  "unescape_dots (c # d # s) = (if c = CHR ''a'' then (if d = CHR ''a'' then CHR ''a'' else CHR ''.'') # unescape_dots s
     else c # unescape_dots (d # s))"
| "unescape_dots s = s"

definition sample_cipher :: secret_cipher where
  "sample_cipher = \<lparr>cipher_seal = \<lambda>k s. (''iv'', ''tag'', escape_dots s),
     cipher_open = \<lambda>iv tag ct. Some (unescape_dots ct)\<rparr>"

lemma unescape_Cons: "c \<noteq> CHR ''a'' \<Longrightarrow> unescape_dots (c # s) = c # unescape_dots s"
  by (cases s) simp_all

lemma unescape_escape: "unescape_dots (escape_dots s) = s"
  by (induction s) (simp_all add: unescape_Cons)

lemma escape_plain: "CHR ''.'' \<notin> set (escape_dots s)" "escape_dots s = [] \<longleftrightarrow> s = []"
  by (induction s) auto

lemma sample_cipher_proper: "proper_cipher sample_cipher"
  by (simp add: proper_cipher_def sample_cipher_def unescape_escape escape_plain)

interpretation sealed: durable_token_store "postgres_token_store sample_cipher" "pg_valid sample_cipher"
    "pg_restart sample_cipher" pg_bootstrap
  by (rule postgres_durable [OF sample_cipher_proper])

definition sample_url :: url_protocol where
  "sample_url u = (if take 8 u = ''https://'' then Some ''https:'' else if take 7 u = ''http://'' then Some ''http:'' else None)"

definition sample_grant :: "string \<Rightarrow> raw_token_grant" where
  "sample_grant c = \<lparr>tg_access_token = ''access'', tg_refresh_token = c @ ''1'', tg_token_type = ''Bearer'',
     tg_expires_in = Fin 1800, tg_api_server = ''https://api01.iq.questrade.com/''\<rparr>"

definition invalid_grant :: failure where
  "invalid_grant = (plain_error ''Questrade authentication request failed with HTTP 400'')
     \<lparr>fl_name := ''QuestradeHttpError'', fl_status := Some (Fin 400)\<rparr>"

definition network_failure :: failure where
  "network_failure = (plain_error ''fetch failed'')\<lparr>fl_name := ''TypeError''\<rparr>"

definition answer_lost :: failure where
  "answer_lost = (plain_error ''The operation timed out: request timeout'')"

definition sample_store :: postgres_store where
  "sample_store = (case pg_initialize sample_cipher ''t'' empty_postgres_store of Inr s \<Rightarrow> s | Inl e \<Rightarrow> empty_postgres_store)"

lemma sample_store_start: "pg_initialize sample_cipher ''t'' empty_postgres_store = Inr sample_store"
  by code_simp

lemma sample_reachable: "token_reachable sample_cipher sample_url ''t'' (token_start sample_store ''t'')"
  unfolding token_reachable_def using sample_store_start by blast

text \<open>A rotation whose grant never arrives\<close>

definition sample_asked :: "postgres_store token_system" where
  "sample_asked = (token_start sample_store ''t'')\<lparr>sy_manager := fst (get_session 0 new_token_manager)\<rparr>"

definition sample_candidates :: "postgres_store token_system" where
  "sample_candidates = fst (deliver_reply sample_url 0 (Interruption None) sample_asked)"

definition sample_beginning :: "postgres_store token_system" where
  "sample_beginning = fst (deliver_reply sample_url 0 (Candidates [''t'']) sample_candidates)"

definition sample_redeeming :: "postgres_store token_system" where
  "sample_redeeming = fst (deliver_reply sample_url 0 Begun
     (sample_beginning\<lparr>sy_store := pg_begin_rotation 7 (sy_store sample_beginning)\<rparr>))"

definition sample_lost :: "postgres_store token_system" where
  "sample_lost = fst (deliver_reply sample_url 0 (Failed answer_lost) (sample_redeeming\<lparr>sy_current := ''t1''\<rparr>))"

lemma sample_phases:
  "waits_for sample_asked ReadingInterruption" "waits_for sample_candidates ReadingCandidates"
  "waits_for sample_beginning (Beginning ''t'' [])" "waits_for sample_redeeming (Redeeming ''t'' [])"
  "pg_interrupted_rotation_at (sy_store sample_asked) = None" "sy_current sample_redeeming = ''t''"
  "pg_read_candidates sample_cipher (sy_store sample_candidates) = Inr [''t'']"
  by code_simp+

lemma sample_lost_reachable: "token_reachable sample_cipher sample_url ''t'' sample_lost"
proof -
  let ?step = "token_step (postgres_token_store sample_cipher) (pg_restart sample_cipher) pg_bootstrap sample_url"
  have "?step (token_start sample_store ''t'') sample_asked"
    using token_step.asked [where y = "token_start sample_store ''t''" and now = 0]
    by (simp add: sample_asked_def token_start_def)
  moreover have "?step sample_asked sample_candidates"
    using token_step.interruption [OF sample_phases(1), of "postgres_token_store sample_cipher" _ _ sample_url 0] sample_phases(5)
    by (simp add: sample_candidates_def postgres_token_store_def)
  moreover have "?step sample_candidates sample_beginning"
    unfolding sample_beginning_def
    by (rule token_step.candidates [OF sample_phases(2)]) (simp add: postgres_token_store_def sample_phases(7))
  moreover have "?step sample_beginning sample_redeeming"
    using token_step.begun [OF sample_phases(3), of "postgres_token_store sample_cipher" _ _ sample_url 0 7]
    by (simp add: sample_redeeming_def postgres_token_store_def)
  moreover have "?step sample_redeeming sample_lost"
    unfolding sample_lost_def
    by (rule token_step.grant_lost) (use sample_phases(4,6) in simp)
  ultimately have "?step\<^sup>*\<^sup>* (token_start sample_store ''t'') sample_lost"
    by (meson converse_rtranclp_into_rtranclp rtranclp.rtrancl_refl)
  then show ?thesis unfolding token_reachable_def using sample_store_start by blast
qed

lemma sample_lost_state:
  "sy_current sample_lost = ''t1''" "pg_read_candidates sample_cipher (sy_store sample_lost) = Inr [''t'']"
  by code_simp+

lemma no_token_lost_unmarked_witness:
  "token_reachable sample_cipher sample_url ''t'' sample_lost \<and> sy_current sample_lost = ''t1'' \<and>
   pg_read_candidates sample_cipher (sy_store sample_lost) = Inr [''t''] \<and>
   pg_interrupted_rotation_at (sy_store sample_lost) \<noteq> None"
  using no_token_lost_unmarked [OF sample_cipher_proper sample_lost_reachable] sample_lost_reachable sample_lost_state by auto

lemma sample_store_candidates: "pg_read_candidates sample_cipher sample_store = Inr [''t'']"
  by code_simp

lemma invalid_grant_final: "\<not> is_transient_redemption_failure invalid_grant"
  by code_simp

lemma sample_grant_proper: "proper_grant sample_url (sample_grant ''t'')"
  by code_simp

lemma refresh_recovers_witness:
  "\<exists>y' s. serve_refresh 5 (postgres_token_store sample_cipher) sample_url 0 sample_grant invalid_grant
      ((token_start sample_store ''t'')\<lparr>sy_manager := fst (refresh new_token_manager)\<rparr>) = Some (y', Inr s) \<and>
    as_generation s = 1 \<and> sy_current y' = ''t1'' \<and> snd (refresh_after_unauthorized 0 (sy_manager y')) = Some s"
proof -
  let ?y = "token_start sample_store ''t''"
  have y: "sy_manager ?y = new_token_manager" "sy_store ?y = sample_store" "sy_current ?y = ''t''"
    by (simp_all add: token_start_def)
  have new: "tm_refreshInFlight new_token_manager = None" "tm_sessionGeneration new_token_manager = 0"
    by (simp_all add: new_token_manager_def)
  have "tg_refresh_token (sample_grant ''t'') = ''t1''" by (simp add: sample_grant_def)
  then show ?thesis
    using refresh_recovers [of sample_cipher sample_url "''t''" ?y "[''t'']" sample_grant invalid_grant 0,
        OF sample_cipher_proper sample_reachable]
    by (auto simp: y new sample_store_candidates invalid_grant_final sample_grant_proper)
qed

section \<open>Failures that are taken for rejections\<close>

text \<open>The replies to a refresh, one after the other, with the last outcome\<close>

definition resume_all :: "url_protocol \<Rightarrow> int \<Rightarrow> refresh_reply list \<Rightarrow> token_manager \<Rightarrow>
    token_manager \<times> refresh_outcome option" where
  "resume_all url now replies m = foldl (\<lambda>(m, out) r. resume_refresh url now r m) (m, None) replies"

text \<open>
  The replies for one candidate that end in an error \<open>e\<close> which says nothing about the token: the
  mark of the rotation fails and nothing is sent; the broker is not reached, so the error has no
  status, and is not recognised as a timeout; or the broker grants, so it accepts the token, and
  the grant is refused.
\<close>

definition no_rejection :: "url_protocol \<Rightarrow> int \<Rightarrow> refresh_reply list \<Rightarrow> failure \<Rightarrow> bool" where
  "no_rejection url now replies e \<longleftrightarrow> replies = [Failed e] \<or>
     replies = [Begun, Failed e] \<and> fl_status e = None \<and> \<not> is_transient_redemption_failure e \<or>
     (\<exists>g. replies = [Begun, Granted g] \<and> to_session url now g new_token_manager = Inl e)"

lemma to_session_refused: "to_session url now g m = Inl e \<Longrightarrow> to_session url now g m' = Inl e"
  by (auto simp: to_session_def Let_def split: if_splits option.splits)

lemma resume_all_append: "resume_all url now (rs @ rs') m =
    (let (m', out) = resume_all url now rs m in if rs' = [] then (m', out) else resume_all url now rs' m')"
proof (cases rs')
  case (Cons r rs'')
  then show ?thesis by (simp add: resume_all_def split: prod.splits)
qed (simp add: resume_all_def)

lemma resume_candidate:
  assumes "no_rejection url now replies e" "tm_refreshInFlight m = Some (Beginning c cs)"
  shows "resume_all url now replies m = (case cs of
      [] \<Rightarrow> (m\<lparr>tm_refreshInFlight := None\<rparr>, Some (Inl (ReauthorizationRequired e (tm_priorInterruption m))))
    | c' # cs' \<Rightarrow> (m\<lparr>tm_refreshInFlight := Some (Beginning c' cs')\<rparr>, None))"
proof -
  let ?redeeming = "m\<lparr>tm_refreshInFlight := Some (Redeeming c cs)\<rparr>"
  from assms(1) consider "replies = [Failed e]" | "replies = [Begun, Failed e]" "\<not> is_transient_redemption_failure e"
    | g where "replies = [Begun, Granted g]" "to_session url now g ?redeeming = Inl e"
    using to_session_refused unfolding no_rejection_def by blast
  then show ?thesis using assms(2)
    by cases (simp_all add: resume_all_def resume_refresh_def next_candidate_def settle_refresh_def split: list.split)
qed

text \<open>
  C39: Failures that say nothing about the stored tokens end in the error that every stored token
  was rejected. Whatever the number of candidates, when each of them fails because the database
  does not mark the rotation, because the broker is not reached, or because the grant of the broker
  is refused after it has accepted the token, in any mixture, the refresh answers that
  reauthorisation is required, with the last of these errors as the reason, and keeps the session it
  had; not one of the candidates was rejected, and a token the broker has issued is dropped.
\<close>

theorem failures_taken_for_rejections:
  assumes "tm_refreshInFlight m = Some (Beginning c cs)" "list_all2 (no_rejection url now) replies es"
    "length replies = length (c # cs)"
  shows "resume_all url now (concat replies) m = (m\<lparr>tm_refreshInFlight := None\<rparr>,
    Some (Inl (ReauthorizationRequired (last es) (tm_priorInterruption m))))"
  using assms
proof (induction cs arbitrary: m c replies es)
  case Nil
  then obtain r e where "replies = [r]" "es = [e]" "no_rejection url now r e"
    by (auto simp: length_Suc_conv list_all2_Cons1)
  with resume_candidate [OF this(3) Nil(1)] show ?case by simp
next
  case (Cons c' cs)
  from Cons.prems(2,3) obtain r rs e es' where r: "replies = r # rs" "es = e # es'" "no_rejection url now r e"
    "list_all2 (no_rejection url now) rs es'" "length rs = length (c' # cs)"
    by (auto simp: length_Suc_conv list_all2_Cons1)
  have ne: "es' \<noteq> []" "concat rs \<noteq> []"
    using r(4,5) by (auto simp: length_Suc_conv list_all2_Cons1 no_rejection_def)
  let ?m = "m\<lparr>tm_refreshInFlight := Some (Beginning c' cs)\<rparr>"
  have "tm_refreshInFlight ?m = Some (Beginning c' cs)" by simp
  from Cons.IH [OF this r(4,5)] resume_candidate [OF r(3) Cons.prems(1)] ne show ?case
    by (simp add: r resume_all_append)
qed

text \<open>A manager with two candidates, of which the first is granted with an address that is not HTTPS, and
  for the second the network fails\<close>

definition doubtful_manager :: token_manager where
  "doubtful_manager = new_token_manager\<lparr>tm_refreshInFlight := Some (Beginning ''t1'' [''t''])\<rparr>"

definition http_grant :: raw_token_grant where
  "http_grant = (sample_grant ''t'')\<lparr>tg_api_server := ''http://api01.iq.questrade.com/''\<rparr>"

lemma failures_taken_for_rejections_witness:
  "snd (resume_all sample_url 0 [Begun, Granted http_grant, Begun, Failed network_failure] doubtful_manager) =
     Some (Inl (ReauthorizationRequired network_failure None))"
proof -
  have "to_session sample_url 0 http_grant new_token_manager = Inl (plain_error ''Questrade API server must use HTTPS'')"
    "fl_status network_failure = None" "\<not> is_transient_redemption_failure network_failure" by code_simp+
  then have r: "list_all2 (no_rejection sample_url 0) [[Begun, Granted http_grant], [Begun, Failed network_failure]]
      [plain_error ''Questrade API server must use HTTPS'', network_failure]"
    by (simp add: no_rejection_def)
  have m: "tm_refreshInFlight doubtful_manager = Some (Beginning ''t1'' [''t''])" by (simp add: doubtful_manager_def)
  have "length [[Begun, Granted http_grant], [Begun, Failed network_failure]] = length [''t1'', ''t'']" by simp
  from failures_taken_for_rejections [OF m r this] show ?thesis
    by (simp add: doubtful_manager_def new_token_manager_def)
qed

end
