(* ===== verification/MarketCalendar.thy ===== *)
theory MarketCalendar
  imports JsText JsArray PaperTypes
begin

text \<open>
  The exchange calendars (\<open>universe/market-calendar.ts\<close>, the schedules of
  \<open>universe/published-calendars.ts\<close> and \<open>zonedSessionBoundary\<close> of \<open>paper-bot/session-time.ts\<close>). A
  \<open>Date\<close> here is at midnight UTC and is its day number; a \<open>Set\<close> of dates is the list of its
  elements. The caches of holiday sets hold values of pure functions and are left out. The hour
  that the host's time zone data gives for an instant is the argument \<open>local_hour\<close>; the hash
  of a schedule is left out. Date texts are of digits and dashes, as the callers pass them.
\<close>

section \<open>Dates\<close>

text \<open>\<open>new Date(Date.UTC(y, m, d))\<close> with a month from 0 to 11; a year below 100 is one of the 1900s.\<close>

definition utc_day :: "int \<Rightarrow> int \<Rightarrow> int \<Rightarrow> int" where
  "utc_day y m d = make_day (if 0 \<le> y \<and> y \<le> 99 then 1900 + y else y) m d"

definition utc_weekday :: "int \<Rightarrow> int" where
  "utc_weekday t = (t + 4) mod 7"

definition utc_full_year :: "int \<Rightarrow> int" where
  "utc_full_year t = year_of_day t"

definition utc_month :: "int \<Rightarrow> int" where
  "utc_month t = month_of_day (leap_year (year_of_day t)) (t - day_from_year (year_of_day t))"

definition utc_date :: "int \<Rightarrow> int" where
  "utc_date t = t - day_from_year (year_of_day t) - month_start (leap_year (year_of_day t)) (utc_month t) + 1"

definition date_string :: "int \<Rightarrow> int \<Rightarrow> int \<Rightarrow> string" where
  "date_string y m d = show_int y @ ''-'' @ pad_start 2 (show_int m) @ ''-'' @ pad_start 2 (show_int d)"

definition iso_date :: "int \<Rightarrow> string" where
  "iso_date t = date_string (utc_full_year t) (utc_month t + 1) (utc_date t)"

definition is_weekday :: "int \<Rightarrow> bool" where
  "is_weekday t \<longleftrightarrow> utc_weekday t \<noteq> 0 \<and> utc_weekday t \<noteq> 6"

section \<open>Rules\<close>

definition easter_sunday :: "int \<Rightarrow> int \<times> int" where
  "easter_sunday year = (let a = year mod 19; b = year div 100; c = year mod 100; d = b div 4; e = b mod 4;
     f = (b + 8) div 25; g = (b - f + 1) div 3; h = (19 * a + b - d - g + 15) mod 30; i = c div 4; k = c mod 4;
     l = (32 + 2 * e + 2 * i - h - k) mod 7; m = (a + 11 * h + 22 * l) div 451 in
     ((h + l - 7 * m + 114) div 31, (h + l - 7 * m + 114) mod 31 + 1))"

definition good_friday :: "int \<Rightarrow> string" where
  "good_friday year = (case easter_sunday year of (month, day) \<Rightarrow>
     let t = utc_day year (month - 1) day - 2 in date_string year (utc_month t + 1) (utc_date t))"

text \<open>The loop over the days of a month: it breaks in the next month.\<close>

fun nth_weekday_loop :: "int \<Rightarrow> int \<Rightarrow> int \<Rightarrow> int \<Rightarrow> int \<Rightarrow> int list \<Rightarrow> string option" where
  "nth_weekday_loop year month weekday n found [] = None"
| "nth_weekday_loop year month weekday n found (day # days) =
     (let t = utc_day year (month - 1) day in
      if utc_month t \<noteq> month - 1 then None
      else if utc_weekday t = weekday
        then (if found + 1 = n then Some (date_string year month day)
          else nth_weekday_loop year month weekday n (found + 1) days)
        else nth_weekday_loop year month weekday n found days)"

definition nth_weekday_of_month :: "int \<Rightarrow> int \<Rightarrow> int \<Rightarrow> int \<Rightarrow> string result" where
  "nth_weekday_of_month year month weekday n = (case nth_weekday_loop year month weekday n 0 [1..31] of
     Some s \<Rightarrow> Inr s
   | None \<Rightarrow> throw (''Unable to find '' @ show_int n @ ''th weekday '' @ show_int weekday @ '' in month '' @ show_int month))"

fun last_weekday_loop :: "int \<Rightarrow> int \<Rightarrow> int \<Rightarrow> int \<Rightarrow> int list \<Rightarrow> int" where
  "last_weekday_loop year month weekday lastDay [] = lastDay"
| "last_weekday_loop year month weekday lastDay (day # days) =
     (let t = utc_day year (month - 1) day in
      if utc_month t \<noteq> month - 1 then lastDay
      else last_weekday_loop year month weekday (if utc_weekday t = weekday then day else lastDay) days)"

definition last_weekday_of_month :: "int \<Rightarrow> int \<Rightarrow> int \<Rightarrow> string" where
  "last_weekday_of_month year month weekday = date_string year month (last_weekday_loop year month weekday 1 [1..31])"

definition observed_fixed_holiday :: "int \<Rightarrow> int \<Rightarrow> int \<Rightarrow> string" where
  "observed_fixed_holiday year month day = (let t = utc_day year (month - 1) day; dow = utc_weekday t in
     iso_date (if dow = 0 then t + 1 else if dow = 6 then t - 1 else t))"

definition us_holidays :: "int \<Rightarrow> string list result" where
  "us_holidays year =
     bindR (nth_weekday_of_month year 1 1 3) (\<lambda>king.
     bindR (nth_weekday_of_month year 2 1 3) (\<lambda>presidents.
     bindR (nth_weekday_of_month year 9 1 1) (\<lambda>labor.
     bindR (nth_weekday_of_month year 11 4 4) (\<lambda>thanksgiving.
     Inr [observed_fixed_holiday year 1 1, king, presidents, good_friday year, last_weekday_of_month year 5 1,
       observed_fixed_holiday year 6 19, observed_fixed_holiday year 7 4, labor, thanksgiving,
       observed_fixed_holiday year 12 25]))))"

definition tsx_new_year :: "int \<Rightarrow> string" where
  "tsx_new_year year = (let dow = utc_weekday (utc_day year 0 1) in
     show_int year @ (if dow = 0 then ''-01-02'' else if dow = 6 then ''-01-03'' else ''-01-01''))"

fun victoria_loop :: "int \<Rightarrow> int list \<Rightarrow> string list" where
  "victoria_loop year [] = []"
| "victoria_loop year (day # days) = (if utc_weekday (utc_day year 4 day) = 1
     then [show_int year @ ''-05-'' @ pad_start 2 (show_int day)] else victoria_loop year days)"

definition canada_day :: "int \<Rightarrow> string" where
  "canada_day year = (let dow = utc_weekday (utc_day year 6 1) in
     show_int year @ (if dow = 0 then ''-07-02'' else if dow = 6 then ''-07-03'' else ''-07-01''))"

definition tsx_christmas :: "int \<Rightarrow> string list" where
  "tsx_christmas year = (let dow = utc_weekday (utc_day year 11 25) in
     map (\<lambda>s. show_int year @ s) (if dow = 5 then [''-12-25'', ''-12-28''] else if dow = 6 then [''-12-27'', ''-12-28'']
       else if dow = 0 then [''-12-26'', ''-12-27''] else [''-12-25'', ''-12-26'']))"

definition tsx_holidays :: "int \<Rightarrow> string list result" where
  "tsx_holidays year =
     bindR (nth_weekday_of_month year 2 1 3) (\<lambda>family.
     bindR (nth_weekday_of_month year 8 1 1) (\<lambda>civic.
     bindR (nth_weekday_of_month year 9 1 1) (\<lambda>labour.
     bindR (nth_weekday_of_month year 10 1 2) (\<lambda>thanksgiving.
     Inr ([tsx_new_year year, family, good_friday year] @ victoria_loop year [18..24] @
       [canada_day year, civic, labour, thanksgiving] @ tsx_christmas year)))))"

section \<open>Published schedules\<close>

record published_calendar_year =
  pc_holidays :: "string list"
  pc_earlyCloses :: "string list"

definition tsx_source :: "int \<Rightarrow> published_calendar_year option" where
  "tsx_source year =
     (if year = 2025 then Some \<lparr>pc_holidays = [''2025-01-01'', ''2025-02-17'', ''2025-04-18'', ''2025-05-19'', ''2025-07-01'',
        ''2025-08-04'', ''2025-09-01'', ''2025-10-13'', ''2025-12-25'', ''2025-12-26''], pc_earlyCloses = [''2025-12-24'']\<rparr>
      else if year = 2026 then Some \<lparr>pc_holidays = [''2026-01-01'', ''2026-02-16'', ''2026-04-03'', ''2026-05-18'', ''2026-07-01'',
        ''2026-08-03'', ''2026-09-07'', ''2026-10-12'', ''2026-12-25'', ''2026-12-28''], pc_earlyCloses = [''2026-12-24'']\<rparr>
      else None)"

definition nyse_source :: "int \<Rightarrow> published_calendar_year option" where
  "nyse_source year =
     (if year = 2025 then Some \<lparr>pc_holidays = [''2025-01-01'', ''2025-01-20'', ''2025-02-17'', ''2025-04-18'', ''2025-05-26'',
        ''2025-06-19'', ''2025-07-04'', ''2025-09-01'', ''2025-11-27'', ''2025-12-25''],
        pc_earlyCloses = [''2025-07-03'', ''2025-11-28'', ''2025-12-24'']\<rparr>
      else if year = 2026 then Some \<lparr>pc_holidays = [''2026-01-01'', ''2026-01-19'', ''2026-02-16'', ''2026-04-03'', ''2026-05-25'',
        ''2026-06-19'', ''2026-07-03'', ''2026-09-07'', ''2026-11-26'', ''2026-12-25''],
        pc_earlyCloses = [''2026-11-27'', ''2026-12-24'']\<rparr>
      else if year = 2027 then Some \<lparr>pc_holidays = [''2027-01-01'', ''2027-01-18'', ''2027-02-15'', ''2027-03-26'', ''2027-05-31'',
        ''2027-06-18'', ''2027-07-05'', ''2027-09-06'', ''2027-11-25'', ''2027-12-24''], pc_earlyCloses = [''2027-11-26'']\<rparr>
      else None)"

definition published_calendar_year_of :: "market_id \<Rightarrow> int \<Rightarrow> published_calendar_year option" where
  "published_calendar_year_of market year = (case market of CA_TSX \<Rightarrow> tsx_source year | US_EQUITIES \<Rightarrow> nyse_source year)"

definition published_retrievals :: "market_id \<Rightarrow> string list" where
  "published_retrievals market = (case market of CA_TSX \<Rightarrow> [''2026-09-11''] | US_EQUITIES \<Rightarrow> [''2026-09-11'', ''2026-09-11''])"

definition is_date_text :: "string \<Rightarrow> bool" where
  "is_date_text s \<longleftrightarrow> length s = 10 \<and> s ! 4 = CHR ''-'' \<and> s ! 7 = CHR ''-'' \<and>
     list_all (\<lambda>c. digit_val c \<noteq> None) (take 4 s @ take 2 (drop 5 s) @ drop 8 s)"

definition is_valid_calendar_date :: "string \<Rightarrow> bool" where
  "is_valid_calendar_date value \<longleftrightarrow> is_date_text value \<and>
     (let parsed = date_parse (value @ ''T00:00:00.000Z'') in is_finite parsed \<and>
       (case to_iso_string parsed of Inl e \<Rightarrow> False | Inr s \<Rightarrow> take 10 s = value))"

definition published_calendar_retrieved_at :: "market_id \<Rightarrow> string option" where
  "published_calendar_retrieved_at market = (let dates = published_retrievals market in
     if dates = [] \<or> \<not> list_all is_valid_calendar_date dates then None
     else Some (last (js_sort string_cmp dates)))"

definition published_calendar_covers :: "market_id \<Rightarrow> string list \<Rightarrow> bool" where
  "published_calendar_covers market dates \<longleftrightarrow>
     list_all (\<lambda>d. published_calendar_year_of market (text_number (take 4 d)) \<noteq> None) dates"

section \<open>Sessions\<close>

definition holidays_for_market_year :: "market_id \<Rightarrow> int \<Rightarrow> string list result" where
  "holidays_for_market_year market year = (case published_calendar_year_of market year of
     Some p \<Rightarrow> Inr (pc_holidays p)
   | None \<Rightarrow> if market = CA_TSX then tsx_holidays year else us_holidays year)"

definition us_early_closes :: "int \<Rightarrow> string list result" where
  "us_early_closes year = bindR (nth_weekday_of_month year 11 4 4) (\<lambda>thanksgiving.
     bindR (holidays_for_market_year US_EQUITIES year) (\<lambda>holidays.
     let july3 = utc_day year 6 3; july4 = utc_day year 6 4; eve = show_int year @ ''-12-24'' in
     Inr ([case parse_ms (thanksgiving @ ''T00:00:00Z'') of Some t \<Rightarrow> iso_date ((t + 86400000) div 86400000) | None \<Rightarrow> ''NaN-NaN-NaN''] @
       (if is_weekday july3 \<and> is_weekday july4 then [show_int year @ ''-07-03''] else []) @
       (if is_weekday (utc_day year 11 24) \<and> eve \<notin> set holidays then [eve] else []))))"

definition tsx_early_closes :: "int \<Rightarrow> string list result" where
  "tsx_early_closes year = bindR (holidays_for_market_year CA_TSX year) (\<lambda>holidays.
     let eve = show_int year @ ''-12-24'' in
     Inr (if is_weekday (utc_day year 11 24) \<and> eve \<notin> set holidays then [eve] else []))"

definition early_closes_for_market_year :: "market_id \<Rightarrow> int \<Rightarrow> string list result" where
  "early_closes_for_market_year market year = (case published_calendar_year_of market year of
     Some p \<Rightarrow> Inr (pc_earlyCloses p)
   | None \<Rightarrow> if market = CA_TSX then tsx_early_closes year else us_early_closes year)"

definition is_market_early_close :: "market_id \<Rightarrow> string \<Rightarrow> bool result" where
  "is_market_early_close market dateStr =
     bindR (early_closes_for_market_year market (text_number (take 4 dateStr))) (\<lambda>closes. Inr (dateStr \<in> set closes))"

definition part_or :: "string list \<Rightarrow> nat \<Rightarrow> string \<Rightarrow> string" where
  "part_or parts i otherwise = (if i < length parts then parts ! i else otherwise)"

definition read_date :: "string \<Rightarrow> int \<times> int \<times> int" where
  "read_date dateStr = (let parts = split_on (CHR ''-'') dateStr in
     (text_number (part_or parts 0 ''2026''), text_number (part_or parts 1 ''1''), text_number (part_or parts 2 ''1'')))"

definition is_market_trading_day :: "string \<Rightarrow> market_id \<Rightarrow> bool result" where
  "is_market_trading_day dateStr market = (case read_date dateStr of (year, month, day) \<Rightarrow>
     let dow = utc_weekday (utc_day year (month - 1) day) in
     if dow = 0 \<or> dow = 6 then Inr False
     else bindR (holidays_for_market_year market year) (\<lambda>holidays.
       if dateStr \<in> set holidays then Inr False
       else bindR (holidays_for_market_year market (year + 1)) (\<lambda>nextYearHolidays.
         Inr (dateStr \<notin> set nextYearHolidays))))"

text \<open>\<open>local_hour\<close>: the hour that \<open>Intl.DateTimeFormat\<close> prints for an instant in a time zone\<close>

definition is_clock_text :: "string \<Rightarrow> bool" where
  "is_clock_text s \<longleftrightarrow> length s = 5 \<and> s ! 2 = CHR '':'' \<and> list_all (\<lambda>c. digit_val c \<noteq> None) (take 2 s @ drop 3 s)"

definition zoned_session_boundary :: "(string \<Rightarrow> int \<Rightarrow> int) \<Rightarrow> string \<Rightarrow> string \<Rightarrow> string \<Rightarrow> string result" where
  "zoned_session_boundary local_hour sessionDate localTime timezone =
     (if \<not> is_date_text sessionDate then throw (''Invalid session date: '' @ sessionDate)
      else if \<not> is_clock_text localTime then throw (''Invalid session boundary: '' @ localTime)
      else (let hours = text_number (take 2 localTime); minutes = text_number (drop 3 localTime) in
        if 23 < hours \<or> 59 < minutes then throw (''Invalid session boundary: '' @ localTime)
        else (case parse_ms (sessionDate @ ''T12:00:00.000Z'') of
          None \<Rightarrow> Inl (RangeError ''Invalid time value'')
        | Some noon \<Rightarrow> (let offset = local_hour timezone noon - 12 in
            to_iso_string (num (utc_day (text_number (take 4 sessionDate)) (text_number (take 2 (drop 5 sessionDate)) - 1)
                (text_number (drop 8 sessionDate)) * 86400000 + (hours - offset) * 3600000 + minutes * 60000))))))"

record calendar_session_boundary =
  cs_tradingDate :: string
  cs_open :: string
  cs_close :: string

definition calendar_session_boundary_for :: "(string \<Rightarrow> int \<Rightarrow> int) \<Rightarrow> market_id \<Rightarrow> string \<Rightarrow>
    calendar_session_boundary option result" where
  "calendar_session_boundary_for local_hour market tradingDate =
     bindR (is_market_trading_day tradingDate market) (\<lambda>trading.
     if \<not> trading then Inr None
     else (let timezone = (if market = CA_TSX then ''America/Toronto'' else ''America/New_York'') in
       bindR (zoned_session_boundary local_hour tradingDate ''09:30'' timezone) (\<lambda>opens.
       bindR (is_market_early_close market tradingDate) (\<lambda>early.
       bindR (zoned_session_boundary local_hour tradingDate (if early then ''13:00'' else ''16:00'') timezone) (\<lambda>closes.
       Inr (Some \<lparr>cs_tradingDate = tradingDate, cs_open = opens, cs_close = closes\<rparr>))))))"

text \<open>The walk back from the day \<open>cursor\<close>: at most \<open>i\<close> days and until \<open>wanted\<close> dates are found.\<close>

fun collect_sessions :: "market_id \<Rightarrow> nat \<Rightarrow> nat \<Rightarrow> int \<Rightarrow> string list \<Rightarrow> string list result" where
  "collect_sessions market 0 wanted cursor dates = Inr dates"
| "collect_sessions market (Suc i) wanted cursor dates = (if length dates < wanted
     then bindR (is_market_trading_day (iso_date cursor) market) (\<lambda>trading.
       collect_sessions market i wanted (cursor - 1) (if trading then dates @ [iso_date cursor] else dates))
     else Inr dates)"

fun session_boundaries :: "(string \<Rightarrow> int \<Rightarrow> int) \<Rightarrow> market_id \<Rightarrow> string list \<Rightarrow> calendar_session_boundary option list result" where
  "session_boundaries local_hour market [] = Inr []"
| "session_boundaries local_hour market (d # ds) = bindR (calendar_session_boundary_for local_hour market d) (\<lambda>s.
     bindR (session_boundaries local_hour market ds) (\<lambda>rest. Inr (s # rest)))"

definition recent_regular_sessions :: "(string \<Rightarrow> int \<Rightarrow> int) \<Rightarrow> market_id \<Rightarrow> string \<Rightarrow> nat \<Rightarrow>
    calendar_session_boundary option list result" where
  "recent_regular_sessions local_hour market asOfDate wanted = (case read_date asOfDate of (y, m, d) \<Rightarrow>
     bindR (collect_sessions market (wanted * 3) wanted (utc_day y (m - 1) d) []) (\<lambda>dates.
     session_boundaries local_hour market (rev dates)))"

definition published_calendar_authoritative_at :: "market_id \<Rightarrow> string \<Rightarrow> bool" where
  "published_calendar_authoritative_at market inputCutoff = (case published_calendar_retrieved_at market of
     None \<Rightarrow> False | Some d \<Rightarrow> d < take 10 inputCutoff)"

record calendar_provenance_at =
  cp_verified :: bool
  cp_sourceRetrievedAt :: "string option"
  cp_sessions :: "calendar_session_boundary option list"

definition calendar_provenance_for_at :: "(string \<Rightarrow> int \<Rightarrow> int) \<Rightarrow> market_id \<Rightarrow> string list \<Rightarrow> string \<Rightarrow>
    calendar_provenance_at result" where
  "calendar_provenance_for_at local_hour market tradingDates inputCutoff =
     bindR (session_boundaries local_hour market tradingDates) (\<lambda>sessions.
     Inr \<lparr>cp_verified = (tradingDates \<noteq> [] \<and> published_calendar_covers market tradingDates \<and>
         list_all (\<lambda>s. s \<noteq> None) sessions \<and> published_calendar_authoritative_at market inputCutoff),
       cp_sourceRetrievedAt = published_calendar_retrieved_at market, cp_sessions = sessions\<rparr>)"

end
