(* ===== verification/CalendarRules.thy ===== *)
theory CalendarRules
  imports MarketCalendar
begin

text \<open>
  The calendar arithmetic behind the holiday rules: day numbers and civil dates are in bijection,
  the loops over a month find the weekday they look for, Easter is a Sunday, and date texts are
  injective. From these, the computed holidays are the days described by rules on month, day and weekday.
\<close>

section \<open>Civil dates and day numbers\<close>

lemma day_from_year_less: "y < y' \<Longrightarrow> day_from_year y < day_from_year y'"
proof (induction y' rule: int_gr_induct)
  case base
  then show ?case by (simp add: day_from_year_step)
next
  case (step i)
  then show ?case by (simp add: day_from_year_step)
qed

lemma year_of_day_eq:
  assumes "day_from_year y \<le> t" "t < day_from_year (y + 1)"
  shows "year_of_day t = y"
proof (rule ccontr)
  assume "year_of_day t \<noteq> y"
  then consider "year_of_day t + 1 \<le> y" | "y + 1 \<le> year_of_day t" by linarith
  then show False
  proof cases
    case 1
    then have "day_from_year (year_of_day t + 1) \<le> day_from_year y"
      using day_from_year_less [of "year_of_day t + 1" y] by (cases "year_of_day t + 1 = y") auto
    then show False using year_of_day_bounds(2) [of t] assms(1) by linarith
  next
    case 2
    then have "day_from_year (y + 1) \<le> day_from_year (year_of_day t)"
      using day_from_year_less [of "y + 1" "year_of_day t"] by (cases "y + 1 = year_of_day t") auto
    then show False using year_of_day_bounds(1) [of t] assms(2) by linarith
  qed
qed

definition month_length :: "bool \<Rightarrow> int \<Rightarrow> int" where
  "month_length leap m = (if m = 11 then 31 else month_start leap (m + 1) - month_start leap m)"

lemma month_cases:
  fixes m :: int
  assumes "0 \<le> m" "m \<le> 11"
  obtains "m = 0" | "m = 1" | "m = 2" | "m = 3" | "m = 4" | "m = 5" | "m = 6" | "m = 7" | "m = 8" | "m = 9"
    | "m = 10" | "m = 11"
proof -
  have "m = 0 \<or> m = 1 \<or> m = 2 \<or> m = 3 \<or> m = 4 \<or> m = 5 \<or> m = 6 \<or> m = 7 \<or> m = 8 \<or> m = 9 \<or> m = 10 \<or> m = 11"
    using assms by presburger
  then show thesis using that by blast
qed

lemma month_length_values:
  assumes "0 \<le> m" "m \<le> 11"
  shows "28 \<le> month_length leap m" "month_length leap m \<le> 31"
    "month_start leap m + month_length leap m \<le> (if leap then 366 else 365)" "0 \<le> month_start leap m"
  using assms by (cases rule: month_cases; simp add: month_length_def month_start_def Let_def)+

lemma month_of_day_eq:
  assumes "0 \<le> m" "m \<le> 11" "1 \<le> d" "d \<le> month_length leap m"
  shows "month_of_day leap (month_start leap m + d - 1) = m"
  using assms(1,2)
  by (cases rule: month_cases)
    (use assms(3,4) in \<open>simp_all add: month_of_day_def month_length_def month_start_def Let_def split: if_splits\<close>)

lemma month_of_day_next:
  "month_of_day leap n = 11 \<or> n < month_start leap (month_of_day leap n + 1)"
proof -
  define s where "s = month_start leap"
  have m: "month_of_day leap n = (if n < s 1 then 0 else if n < s 2 then 1 else if n < s 3 then 2
     else if n < s 4 then 3 else if n < s 5 then 4 else if n < s 6 then 5 else if n < s 7 then 6
     else if n < s 8 then 7 else if n < s 9 then 8 else if n < s 10 then 9 else if n < s 11 then 10 else 11)"
    by (simp add: month_of_day_def s_def)
  show ?thesis unfolding s_def [symmetric] m by simp
qed

text \<open>A date the program can write: a year from 100 on, a month from 1, and a day of that month\<close>

definition civil_date :: "int \<Rightarrow> int \<Rightarrow> int \<Rightarrow> bool" where
  "civil_date y m d \<longleftrightarrow> 100 \<le> y \<and> 1 \<le> m \<and> m \<le> 12 \<and> 1 \<le> d \<and> d \<le> month_length (leap_year y) (m - 1)"

lemma civil_28: "100 \<le> y \<Longrightarrow> 1 \<le> m \<Longrightarrow> m \<le> 12 \<Longrightarrow> 1 \<le> d \<Longrightarrow> d \<le> 28 \<Longrightarrow> civil_date y m d"
  using month_length_values(1) [of "m - 1" "leap_year y"] by (simp add: civil_date_def)

lemma civil_day:
  assumes "civil_date y m d"
  shows "utc_full_year (utc_day y (m - 1) d) = y" "utc_month (utc_day y (m - 1) d) = m - 1"
    "utc_date (utc_day y (m - 1) d) = d"
proof -
  have c: "100 \<le> y" "0 \<le> m - 1" "m - 1 \<le> 11" "1 \<le> d" "d \<le> month_length (leap_year y) (m - 1)"
    using assms by (simp_all add: civil_date_def)
  have t: "utc_day y (m - 1) d = day_from_year y + (month_start (leap_year y) (m - 1) + d - 1)"
    using c(1) by (simp add: utc_day_def make_day_def)
  note len = month_length_values [OF c(2,3), of "leap_year y"]
  have year: "year_of_day (utc_day y (m - 1) d) = y"
    unfolding t using len c by (intro year_of_day_eq) (simp_all add: day_from_year_step)
  then show "utc_full_year (utc_day y (m - 1) d) = y" by (simp add: utc_full_year_def)
  show month: "utc_month (utc_day y (m - 1) d) = m - 1"
    using month_of_day_eq [OF c(2-5)] unfolding utc_month_def year by (simp add: t)
  show "utc_date (utc_day y (m - 1) d) = d"
    unfolding utc_date_def month year by (simp add: t)
qed

lemma day_civil:
  assumes "100 \<le> utc_full_year t"
  shows "civil_date (utc_full_year t) (utc_month t + 1) (utc_date t)" "utc_day (utc_full_year t) (utc_month t) (utc_date t) = t"
proof -
  define y m l n where "y = utc_full_year t" and "m = utc_month t" and "l = leap_year y" and "n = t - day_from_year y"
  have n: "0 \<le> n" "n < (if l then 366 else 365)"
    using year_of_day_bounds [of t] by (simp_all add: n_def l_def y_def utc_full_year_def day_from_year_step)
  have m: "m = month_of_day l n" by (simp add: m_def utc_month_def y_def l_def n_def utc_full_year_def)
  have d: "utc_date t = n - month_start l m + 1"
    by (simp add: utc_date_def m_def y_def l_def n_def utc_full_year_def)
  note b = month_of_day_bounds [OF n, folded m]
  have len: "n < month_start l m + month_length l m"
  proof (cases "m = 11")
    case True
    then show ?thesis using n(2) by (simp add: month_length_def month_start_def split: if_splits)
  next
    case False
    then show ?thesis using month_of_day_next [of l n, folded m] by (simp add: month_length_def)
  qed
  have "civil_date y (m + 1) (utc_date t)"
    using assms b len unfolding civil_date_def d l_def [symmetric] by (simp add: y_def [symmetric])
  moreover have "utc_day y m (utc_date t) = t"
    using assms unfolding utc_day_def make_day_def d by (simp add: y_def [symmetric] l_def [symmetric] n_def)
  ultimately show "civil_date (utc_full_year t) (utc_month t + 1) (utc_date t)"
    "utc_day (utc_full_year t) (utc_month t) (utc_date t) = t" by (simp_all add: y_def m_def)
qed

lemma utc_day_shift: "utc_day y m d = utc_day y m e + (d - e)"
  by (simp add: utc_day_def make_day_def)

lemma utc_weekday_range [simp]: "0 \<le> utc_weekday t" "utc_weekday t < 7"
  by (simp_all add: utc_weekday_def)

lemma utc_weekday_shift: "utc_weekday (t + k) = (utc_weekday t + k) mod 7"
  unfolding utc_weekday_def by presburger

lemma weekday_in_month: "utc_weekday (utc_day y m d) = (utc_weekday (utc_day y m e) + (d - e)) mod 7"
  by (subst utc_day_shift [of y m d e]) (rule utc_weekday_shift)

section \<open>The loops over a month\<close>

lemma nth_loop_found:
  assumes "\<forall>x \<in> set (before @ [d]). utc_month (utc_day y (m - 1) x) = m - 1"
    "found + int (length (filter (\<lambda>x. utc_weekday (utc_day y (m - 1) x) = w) before)) + 1 = n"
    "utc_weekday (utc_day y (m - 1) d) = w"
  shows "nth_weekday_loop y m w n found (before @ d # after) = Some (date_string y m d)"
  using assms
proof (induction before arbitrary: found)
  case (Cons x before)
  then show ?case by (cases "utc_weekday (utc_day y (m - 1) x) = w") (auto simp: Let_def)
qed (simp add: Let_def)

lemma last_loop: "\<forall>x \<in> set days. utc_month (utc_day y (m - 1) x) = m - 1 \<Longrightarrow>
    last_weekday_loop y m w l days =
      (let ds = filter (\<lambda>x. utc_weekday (utc_day y (m - 1) x) = w) days in if ds = [] then l else last ds)"
  by (induction days arbitrary: l) (auto simp: Let_def)

text \<open>The day from \<open>lo\<close> on with weekday \<open>w\<close>\<close>

definition weekday_from :: "int \<Rightarrow> int \<Rightarrow> int \<Rightarrow> int \<Rightarrow> int" where
  "weekday_from y m lo w = lo + (w - utc_weekday (utc_day y (m - 1) lo)) mod 7"

lemma weekday_from_iff:
  assumes "0 \<le> w" "w < 7"
  shows "d = weekday_from y m lo w \<longleftrightarrow> lo \<le> d \<and> d < lo + 7 \<and> utc_weekday (utc_day y (m - 1) d) = w"
proof -
  have pick: "k = (w - v) mod 7 \<longleftrightarrow> 0 \<le> k \<and> k < 7 \<and> (v + k) mod 7 = w" for k v
  proof
    assume k: "k = (w - v) mod 7"
    have "(v + (w - v) mod 7) mod 7 = (v + (w - v)) mod 7" by (rule mod_add_right_eq)
    then show "0 \<le> k \<and> k < 7 \<and> (v + k) mod 7 = w" using assms by (simp add: k)
  next
    assume k: "0 \<le> k \<and> k < 7 \<and> (v + k) mod 7 = w"
    have "((v + k) mod 7 - v) mod 7 = (v + k - v) mod 7" by (rule mod_diff_left_eq)
    then show "k = (w - v) mod 7" using k by simp
  qed
  have "d = weekday_from y m lo w \<longleftrightarrow> d - lo = (w - utc_weekday (utc_day y (m - 1) lo)) mod 7"
    unfolding weekday_from_def by linarith
  also have "\<dots> \<longleftrightarrow> lo \<le> d \<and> d < lo + 7 \<and> utc_weekday (utc_day y (m - 1) d) = w"
    by (subst weekday_in_month [of y "m - 1" d lo]) (auto simp: pick)
  finally show ?thesis .
qed

lemma filter_weekdays:
  "filter (\<lambda>x. utc_weekday (utc_day y m x) = w) xs = filter (\<lambda>x. (utc_weekday (utc_day y m 1) + (x - 1)) mod 7 = w) xs"
  by (rule filter_cong [OF refl]) (subst weekday_in_month [of y m _ 1], rule refl)

lemma seven_cases:
  fixes v :: int
  assumes "0 \<le> v" "v < 7"
  obtains "v = 0" | "v = 1" | "v = 2" | "v = 3" | "v = 4" | "v = 5" | "v = 6"
proof -
  have "v = 0 \<or> v = 1 \<or> v = 2 \<or> v = 3 \<or> v = 4 \<or> v = 5 \<or> v = 6" using assms by presburger
  then show thesis using that by blast
qed

text \<open>How many days before the n-th Monday, or the fourth Thursday, are of that weekday\<close>

lemma weekdays_before:
  fixes v :: int
  assumes "0 \<le> v" "v < 7" "(w, n) \<in> {(1, 1), (1, 2), (1, 3), (4, 4)}"
  shows "int (length (filter (\<lambda>x. (v + (x - 1)) mod 7 = w) [1..7 * (n - 1) + (w - v) mod 7])) + 1 = n"
proof -
  consider "w = 1" "n = 1" | "w = 1" "n = 2" | "w = 1" "n = 3" | "w = 4" "n = 4" using assms(3) by auto
  then show ?thesis
  proof cases
    case 1
    show ?thesis by (rule seven_cases [OF assms(1,2)]) (simp_all add: 1 upto.simps)
  next
    case 2
    show ?thesis by (rule seven_cases [OF assms(1,2)]) (simp_all add: 2 upto.simps)
  next
    case 3
    show ?thesis by (rule seven_cases [OF assms(1,2)]) (simp_all add: 3 upto.simps)
  next
    case 4
    show ?thesis by (rule seven_cases [OF assms(1,2)]) (simp_all add: 4 upto.simps)
  qed
qed

lemma nth_weekday:
  assumes "100 \<le> y" "1 \<le> m" "m \<le> 12" "(w, n) \<in> {(1, 1), (1, 2), (1, 3), (4, 4)}"
  shows "nth_weekday_of_month y m w n = Inr (date_string y m (weekday_from y m (7 * (n - 1) + 1) w))"
proof -
  define v where "v = utc_weekday (utc_day y (m - 1) 1)"
  define d where "d = 7 * (n - 1) + 1 + (w - v) mod 7"
  have v: "0 \<le> v" "v < 7" by (simp_all add: v_def)
  have n: "1 \<le> n" "n \<le> 4" and w: "0 \<le> w" "w < 7" using assms(4) by auto
  have "0 \<le> (w - v) mod 7" "(w - v) mod 7 < 7" by simp_all
  then have d1: "1 \<le> d" "d \<le> 28" using n by (simp_all add: d_def)
  have lo: "utc_weekday (utc_day y (m - 1) (7 * (n - 1) + 1)) = v"
  proof -
    have "(v + (n - 1) * 7) mod 7 = v mod 7" by (rule mod_mult_self1)
    also have "\<dots> = v" using v by simp
    finally have "(v + (n - 1) * 7) mod 7 = v" .
    then show ?thesis by (subst weekday_in_month [of y "m - 1" _ 1]) (simp add: v_def [symmetric] algebra_simps)
  qed
  then have d: "weekday_from y m (7 * (n - 1) + 1) w = d" by (simp add: weekday_from_def d_def)
  then have weekday: "utc_weekday (utc_day y (m - 1) d) = w" using weekday_from_iff [OF w] by metis
  have before: "found + int (length (filter (\<lambda>x. utc_weekday (utc_day y (m - 1) x) = w) [1..d - 1])) + 1 = n"
    if "found = 0" for found
  proof -
    have "d - 1 = 7 * (n - 1) + (w - v) mod 7" by (simp add: d_def)
    then show ?thesis
      using weekdays_before [OF v assms(4)] that by (simp only: filter_weekdays v_def [symmetric])
  qed
  have "[1..31] = [1..d - 1] @ d # [d + 1..31]" using d1 by (intro upto_split3) simp_all
  moreover have "nth_weekday_loop y m w n 0 ([1..d - 1] @ d # [d + 1..31]) = Some (date_string y m d)"
    using d1 assms(1-3) before weekday by (intro nth_loop_found) (simp_all add: civil_day(2) civil_28)
  ultimately show ?thesis unfolding nth_weekday_of_month_def d by simp
qed

lemma last_monday_of_may:
  assumes "100 \<le> y"
  shows "last_weekday_of_month y 5 1 = date_string y 5 (weekday_from y 5 25 1)"
proof -
  define v where "v = utc_weekday (utc_day y 4 1)"
  have v: "0 \<le> v" "v < 7" by (simp_all add: v_def)
  have civil: "civil_date y 5 x" if "x \<in> set [1..31]" for x
    using that assms by (simp add: civil_date_def month_length_def month_start_def Let_def)
  have "utc_month (utc_day y (5 - 1) x) = 5 - 1" if "x \<in> set [1..31]" for x
    using civil_day(2) [OF civil [OF that]] by simp
  then have loop: "last_weekday_loop y 5 1 1 [1..31] =
      (let ds = filter (\<lambda>x. (v + (x - 1)) mod 7 = 1) [1..31] in if ds = [] then 1 else last ds)"
    by (subst last_loop) (simp_all only: filter_weekdays v_def, simp_all)
  have from25: "weekday_from y 5 25 1 = 25 + (1 - (v + 24) mod 7) mod 7"
    by (simp add: weekday_from_def v_def weekday_in_month [of y 4 25 1])
  have "last_weekday_loop y 5 1 1 [1..31] = weekday_from y 5 25 1"
    unfolding loop from25 by (rule seven_cases [OF v]) (simp_all add: upto.simps)
  then show ?thesis by (simp add: last_weekday_of_month_def)
qed

section \<open>Easter\<close>

text \<open>The first of March counted from a fixed day, with the leap days of the calendar\<close>

lemma march_day:
  "day_from_year y + month_start (leap_year y) 2 = 365 * y + y div 4 - y div 100 + y div 400 - 719468"
proof -
  define p q r :: int where "p = (if 4 dvd y then 1 else 0)" and "q = (if 100 dvd y then 1 else 0)"
    and "r = (if 400 dvd y then 1 else 0)"
  have a: "(y - 1968) div 4 = (y - 1969) div 4 + p"
    unfolding p_def by (rule div_step_offset) simp_all
  have b: "(y - 1900) div 100 = (y - 1901) div 100 + q"
    unfolding q_def by (rule div_step_offset) simp_all
  have c: "(y - 1600) div 400 = (y - 1601) div 400 + r"
    unfolding r_def by (rule div_step_offset) simp_all
  have "(y - 1968) div 4 = y div 4 - 492" "(y - 1900) div 100 = y div 100 - 19" "(y - 1600) div 400 = y div 400 - 4"
    using div_mult_self1 [of 4 y "- 492"] div_mult_self1 [of 100 y "- 19"] div_mult_self1 [of 400 y "- 4"] by simp_all
  moreover have "400 dvd y \<Longrightarrow> 100 dvd y" by (rule dvd_trans [of 100 400 y]) simp_all
  moreover have "100 dvd y \<Longrightarrow> 4 dvd y" by (rule dvd_trans [of 4 100 y]) simp_all
  then have "month_start (leap_year y) 2 =
      59 + (p - q + r)"
    using \<open>400 dvd y \<Longrightarrow> 100 dvd y\<close>
    by (cases "4 dvd y"; cases "100 dvd y"; cases "400 dvd y")
      (simp_all add: month_start_def leap_year_def p_def q_def r_def)
  moreover have "365 * (y - 1970) = 365 * y - 719050" by simp
  ultimately show ?thesis using a b c unfolding day_from_year_def by linarith
qed

definition easter_day :: "int \<Rightarrow> int" where
  "easter_day year = (case easter_sunday year of (month, day) \<Rightarrow> utc_day year (month - 1) day)"

text \<open>Easter is a Sunday from March 22 to April 25.\<close>

lemma easter:
  assumes "100 \<le> y"
  obtains n where "easter_sunday y = (n div 31, n mod 31 + 1)" "114 \<le> n" "n \<le> 148"
    "easter_day y = utc_day y 2 1 + (n - 93)" "utc_weekday (easter_day y) = 0"
proof -
  define a b c d e f g h i k l m n where "a = y mod 19" and "b = y div 100" and "c = y mod 100" and "d = b div 4"
    and "e = b mod 4" and "f = (b + 8) div 25" and "g = (b - f + 1) div 3" and "h = (19 * a + b - d - g + 15) mod 30"
    and "i = c div 4" and "k = c mod 4" and "l = (32 + 2 * e + 2 * i - h - k) mod 7" and "m = (a + 11 * h + 22 * l) div 451"
    and "n = h + l - 7 * m + 114"
  note defs = this
  have easter: "easter_sunday y = (n div 31, n mod 31 + 1)"
    unfolding easter_sunday_def Let_def defs by (rule refl)
  have "0 \<le> a" "a < 19" by (simp_all add: a_def)
  moreover have "0 \<le> h" "h < 30" unfolding h_def by (rule pos_mod_sign, simp) (rule pos_mod_bound, simp)
  moreover have "0 \<le> l" "l < 7" unfolding l_def by (rule pos_mod_sign, simp) (rule pos_mod_bound, simp)
  ultimately have r: "0 \<le> a" "a \<le> 18" "0 \<le> h" "h \<le> 29" "0 \<le> l" "l \<le> 6" by linarith+
  have m: "451 * m \<le> a + 11 * h + 22 * l" "a + 11 * h + 22 * l < 451 * m + 451" by (simp_all add: m_def)
  have n: "114 \<le> n" "n \<le> 148"
  proof -
    have "0 \<le> m" "m \<le> 1" using m r by linarith+
    then have "m = 0 \<or> m = 1" by linarith
    then show "114 \<le> n" "n \<le> 148" using r m unfolding n_def by auto
  qed
  have day: "easter_day y = utc_day y 2 1 + (n - 93)"
  proof -
    have n31: "31 * (n div 31) + n mod 31 = n" by simp
    have "n div 31 = 3 \<or> n div 31 = 4" using n by presburger
    then show ?thesis
    proof
      assume q: "n div 31 = 3"
      then show ?thesis using n31 by (simp add: easter_day_def easter utc_day_def make_day_def)
    next
      assume q: "n div 31 = 4"
      then show ?thesis using n31
        by (simp add: easter_day_def easter utc_day_def make_day_def month_start_def Let_def)
    qed
  qed
  have y: "y = 100 * b + c" "b = 4 * d + e" "c = 4 * i + k" by (simp_all add: b_def c_def d_def e_def i_def k_def)
  have digits: "0 \<le> e" "e \<le> 3" "0 \<le> k" "k \<le> 3" "0 \<le> c" "c \<le> 99"
  proof -
    have "0 \<le> e" "e < 4" "0 \<le> k" "k < 4" "0 \<le> c" "c < 100" by (simp_all add: e_def k_def c_def)
    then show "0 \<le> e" "e \<le> 3" "0 \<le> k" "k \<le> 3" "0 \<le> c" "c \<le> 99" by linarith+
  qed
  have "y div 100 = b" by (simp add: b_def)
  moreover have "y div 4 = 25 * b + i" 
  proof (rule int_div_pos_eq)
    show "y = 4 * (25 * b + i) + k" using y(1,3) by (simp add: distrib_left)
  qed (use digits in linarith)+
  moreover have "y div 400 = d" 
  proof (rule int_div_pos_eq)
    show "y = 400 * d + (100 * e + c)" using y(1,2) by (simp add: distrib_left)
  qed (use digits in linarith)+
  ultimately have march: "utc_day y 2 1 = 146097 * d + 36524 * e + 1461 * i + 365 * k - 719468"
    using assms march_day [of y] y by (simp add: utc_day_def make_day_def)
  have "(h + l) mod 7 = (32 + 2 * e + 2 * i - k) mod 7"
    unfolding l_def by (subst mod_add_right_eq) (simp add: algebra_simps)
  then obtain q where q: "h + l = 32 + 2 * e + 2 * i - k + 7 * q"
    by (metis mod_eqE add.commute)
  have whole: "easter_day y + 4 = 7 * (20871 * d + 5218 * e + 209 * i + 52 * k + q - m - 102773)"
    unfolding day march n_def using q by simp
  have "utc_weekday (easter_day y) = 0" unfolding utc_weekday_def whole by (rule mod_mult_self1_is_0)
  then show thesis using that easter n day by blast
qed

section \<open>Date texts\<close>

lemma show_int_no_dash: "0 \<le> n \<Longrightarrow> CHR ''-'' \<notin> set (show_int n)"
  by (simp add: show_int_def show_nat_no_dash)

lemma pad_start_no_dash: "0 \<le> n \<Longrightarrow> CHR ''-'' \<notin> set (pad_start k (show_int n))"
  by (simp add: pad_start_def show_int_no_dash)

lemma read_date_string:
  assumes "0 \<le> y" "0 \<le> m" "0 \<le> d"
  shows "read_date (date_string y m d) = (y, m, d)"
proof -
  have "split_on (CHR ''-'') (date_string y m d) = [show_int y, pad_start 2 (show_int m), pad_start 2 (show_int d)]"
    using assms by (simp add: date_string_def split_on_append split_on_plain show_int_no_dash pad_start_no_dash)
  then show ?thesis
    using assms by (simp add: read_date_def part_or_def text_number_show_int text_number_pad_start)
qed

lemma date_string_eq:
  assumes "0 \<le> y" "0 \<le> m" "0 \<le> d" "0 \<le> y'" "0 \<le> m'" "0 \<le> d'"
  shows "date_string y m d = date_string y' m' d' \<longleftrightarrow> y = y' \<and> m = m' \<and> d = d'"
proof
  assume "date_string y m d = date_string y' m' d'"
  then have "read_date (date_string y m d) = read_date (date_string y' m' d')" by (rule arg_cong)
  then show "y = y' \<and> m = m' \<and> d = d'"
    unfolding read_date_string [OF assms(1-3)] read_date_string [OF assms(4-6)] by simp
qed simp

text \<open>A day with its year, month and date, as the rules see it\<close>

definition on_date :: "int \<Rightarrow> int \<Rightarrow> int \<Rightarrow> int \<Rightarrow> bool" where
  "on_date t y m d \<longleftrightarrow> utc_full_year t = y \<and> utc_month t + 1 = m \<and> utc_date t = d"

lemma iso_date_on:
  assumes "100 \<le> utc_full_year t" "0 \<le> y" "0 \<le> m" "0 \<le> d"
  shows "iso_date t = date_string y m d \<longleftrightarrow> on_date t y m d"
  using day_civil(1) [OF assms(1)] assms
  unfolding iso_date_def on_date_def by (subst date_string_eq) (auto simp: civil_date_def)

lemma on_date_civil:
  assumes "100 \<le> utc_full_year t" "civil_date y m d"
  shows "on_date t y m d \<longleftrightarrow> t = utc_day y (m - 1) d"
proof
  assume "on_date t y m d"
  then have "utc_full_year t = y" "utc_month t = m - 1" "utc_date t = d" by (auto simp: on_date_def)
  then show "t = utc_day y (m - 1) d" using day_civil(2) [OF assms(1)] by simp
next
  assume "t = utc_day y (m - 1) d"
  then show "on_date t y m d" using civil_day [OF assms(2)] by (simp add: on_date_def)
qed

lemma iso_date_eq:
  assumes "100 \<le> utc_full_year t" "100 \<le> utc_full_year t'"
  shows "iso_date t = iso_date t' \<longleftrightarrow> t = t'"
proof
  assume eq: "iso_date t = iso_date t'"
  have "on_date t (utc_full_year t') (utc_month t' + 1) (utc_date t')"
    using eq day_civil(1) [OF assms(2)] unfolding iso_date_def [of t']
    by (subst (asm) iso_date_on [OF assms(1)]) (auto simp: civil_date_def)
  then show "t = t'"
    using day_civil(2) [OF assms(2)] by (subst (asm) on_date_civil [OF assms(1) day_civil(1) [OF assms(2)]]) simp
qed simp

lemma read_iso_date:
  assumes "100 \<le> utc_full_year t"
  shows "read_date (iso_date t) = (utc_full_year t, utc_month t + 1, utc_date t)"
  using day_civil(1) [OF assms] unfolding iso_date_def
  by (subst read_date_string) (auto simp: civil_date_def)

end
