(* ===== verification/CalendarProperties.thy ===== *)
theory CalendarProperties
  imports CalendarRules
begin

text \<open>
  What the exchange calendar computes: the trading days are the weekdays that no rule (or published
  schedule) excludes, and the walk back collects exactly the last trading days of its window, each with a
  session of full or half length.
\<close>

section \<open>Holiday rules\<close>

definition weekday_between :: "int \<Rightarrow> int \<Rightarrow> int \<Rightarrow> int \<Rightarrow> bool" where
  "weekday_between t m lo w \<longleftrightarrow> utc_month t + 1 = m \<and> lo \<le> utc_date t \<and> utc_date t < lo + 7 \<and> utc_weekday t = w"

text \<open>The holiday of month \<open>m\<close> and date \<open>d\<close>, observed on Friday or Monday when it is on a weekend\<close>

definition fixed_observed :: "int \<Rightarrow> int \<Rightarrow> int \<Rightarrow> bool" where
  "fixed_observed t m d \<longleftrightarrow> utc_month t + 1 = m \<and>
     (utc_date t = d \<and> is_weekday t \<or> utc_date t = d - 1 \<and> utc_weekday t = 5 \<or> utc_date t = d + 1 \<and> utc_weekday t = 1)"

definition us_rule :: "int \<Rightarrow> bool" where
  "us_rule t \<longleftrightarrow> utc_month t = 0 \<and> (utc_date t = 1 \<and> is_weekday t \<or> utc_date t = 2 \<and> utc_weekday t = 1) \<or>
     weekday_between t 1 15 1 \<or> weekday_between t 2 15 1 \<or> t = easter_day (utc_full_year t) - 2 \<or> weekday_between t 5 25 1 \<or>
     fixed_observed t 6 19 \<or> fixed_observed t 7 4 \<or> weekday_between t 9 1 1 \<or> weekday_between t 11 22 4 \<or>
     fixed_observed t 12 25"

text \<open>New Year's Day on a Saturday is observed on the Friday before, in the year before.\<close>

definition us_eve_rule :: "int \<Rightarrow> bool" where
  "us_eve_rule t \<longleftrightarrow> utc_month t = 11 \<and> utc_date t = 31 \<and> utc_weekday t = 5"

text \<open>The first of a month, observed on the Monday after when it is on a weekend\<close>

definition first_observed :: "int \<Rightarrow> int \<Rightarrow> bool" where
  "first_observed t m \<longleftrightarrow> utc_month t + 1 = m \<and>
     (utc_date t = 1 \<and> is_weekday t \<or> utc_date t = 2 \<and> utc_weekday t = 1 \<or> utc_date t = 3 \<and> utc_weekday t = 1)"

definition christmas_rule :: "int \<Rightarrow> bool" where
  "christmas_rule t \<longleftrightarrow> utc_month t = 11 \<and>
     (utc_date t = 25 \<and> is_weekday t \<or> utc_date t = 26 \<and> is_weekday t \<or>
      (utc_date t = 27 \<or> utc_date t = 28) \<and> (utc_weekday t = 1 \<or> utc_weekday t = 2))"

definition tsx_rule :: "int \<Rightarrow> bool" where
  "tsx_rule t \<longleftrightarrow> first_observed t 1 \<or> weekday_between t 2 15 1 \<or> t = easter_day (utc_full_year t) - 2 \<or>
     weekday_between t 5 18 1 \<or> first_observed t 7 \<or> weekday_between t 8 1 1 \<or> weekday_between t 9 1 1 \<or>
     weekday_between t 10 8 1 \<or> christmas_rule t"

lemma weekday_of_civil:
  assumes "100 \<le> utc_full_year t" "utc_full_year t = y" "utc_month t + 1 = m"
  shows "utc_weekday (utc_day y (m - 1) (utc_date t)) = utc_weekday t"
  using day_civil(2) [OF assms(1)] assms(2,3) by auto

lemma weekday_from_on:
  assumes t: "100 \<le> utc_full_year t" and y: "100 \<le> y" "0 \<le> m" "1 \<le> lo" and w: "0 \<le> w" "w < 7"
  shows "iso_date t = date_string y m (weekday_from y m lo w) \<longleftrightarrow> utc_full_year t = y \<and> weekday_between t m lo w"
proof -
  have d: "lo \<le> weekday_from y m lo w" by (simp add: weekday_from_def)
  have "iso_date t = date_string y m (weekday_from y m lo w) \<longleftrightarrow>
      utc_full_year t = y \<and> utc_month t + 1 = m \<and> utc_date t = weekday_from y m lo w"
    using d y by (subst iso_date_on [OF t]) (simp_all add: on_date_def)
  also have "\<dots> \<longleftrightarrow> utc_full_year t = y \<and> weekday_between t m lo w"
    using weekday_from_iff [OF w] weekday_of_civil [OF t] unfolding weekday_between_def by metis
  finally show ?thesis .
qed

text \<open>A day beside a given day of the same month\<close>

lemma beside:
  assumes t: "100 \<le> utc_full_year t" and civil: "civil_date y m d'"
  shows "t = utc_day y (m - 1) d + (d' - d) \<longleftrightarrow> on_date t y m d'"
  using on_date_civil [OF assms] utc_day_shift [of y "m - 1" d' d] by simp

lemma on_date_weekday:
  assumes "100 \<le> utc_full_year t" "on_date t y m d'"
  shows "utc_weekday t = (utc_weekday (utc_day y (m - 1) d) + (d' - d)) mod 7"
  using weekday_of_civil [OF assms(1)] assms(2) weekday_in_month [of y "m - 1" d' d] unfolding on_date_def by metis

lemma observed_on:
  assumes t: "100 \<le> utc_full_year t" and y: "100 \<le> y" "1 \<le> m" "m \<le> 12" and d: "2 \<le> d" "d \<le> 27"
  shows "iso_date t = observed_fixed_holiday y m d \<longleftrightarrow> utc_full_year t = y \<and> fixed_observed t m d"
proof -
  let ?t = "utc_day y (m - 1) d"
  let ?w = "utc_weekday ?t"
  define k :: int where "k = (if ?w = 0 then 1 else if ?w = 6 then - 1 else 0)"
  have civil: "civil_date y m (d + k)" using y d by (intro civil_28) (simp_all add: k_def)
  have "observed_fixed_holiday y m d = iso_date (?t + k)" by (simp add: observed_fixed_holiday_def Let_def k_def)
  also have "?t + k = utc_day y (m - 1) (d + k)" using utc_day_shift [of y "m - 1" "d + k" d] by simp
  finally have "iso_date t = observed_fixed_holiday y m d \<longleftrightarrow> on_date t y m (d + k)"
    using civil_day(1) [OF civil] y iso_date_eq [OF t, of "utc_day y (m - 1) (d + k)"] on_date_civil [OF t civil] by simp
  also have "\<dots> \<longleftrightarrow> utc_full_year t = y \<and> fixed_observed t m d"
  proof -
    have w: "utc_weekday t = (?w + (d' - d)) mod 7" if "on_date t y m d'" for d'
      using on_date_weekday [OF t that] .
    have range: "0 \<le> ?w" "?w < 7" by simp_all
    show ?thesis
    proof
      assume on: "on_date t y m (d + k)"
      show "utc_full_year t = y \<and> fixed_observed t m d"
      proof -
        consider "?w = 0" "k = 1" | "?w = 6" "k = - 1" | "?w \<noteq> 0" "?w \<noteq> 6" "k = 0" by (auto simp: k_def)
        then show ?thesis
        proof cases
          case 1
          then show ?thesis using on w [OF on] by (simp add: on_date_def fixed_observed_def)
        next
          case 2
          then show ?thesis using on w [OF on] by (simp add: on_date_def fixed_observed_def)
        next
          case 3
          then show ?thesis using on w [OF on] range by (simp add: on_date_def fixed_observed_def is_weekday_def)
        qed
      qed
    next
      assume "utc_full_year t = y \<and> fixed_observed t m d"
      then consider "on_date t y m d" "is_weekday t" | "on_date t y m (d - 1)" "utc_weekday t = 5"
        | "on_date t y m (d + 1)" "utc_weekday t = 1"
        by (auto simp: fixed_observed_def on_date_def)
      then show "on_date t y m (d + k)"
      proof cases
        case 1
        then show ?thesis using w [OF 1(1)] range by (simp add: k_def is_weekday_def)
      next
        case 2
        then have "?w = 6" using w [OF 2(1)] by - (rule seven_cases [OF range]; simp)
        then show ?thesis using 2 by (simp add: k_def)
      next
        case 3
        then have "?w = 0" using w [OF 3(1)] by - (rule seven_cases [OF range]; simp)
        then show ?thesis using 3 by (simp add: k_def)
      qed
    qed
  qed
  finally show ?thesis .
qed

lemma new_year_us_on:
  assumes t: "100 \<le> utc_full_year t" and y: "101 \<le> y"
  shows "iso_date t = observed_fixed_holiday y 1 1 \<longleftrightarrow>
    utc_full_year t = y \<and> utc_month t = 0 \<and> (utc_date t = 1 \<and> is_weekday t \<or> utc_date t = 2 \<and> utc_weekday t = 1) \<or>
    utc_full_year t = y - 1 \<and> us_eve_rule t"
proof -
  let ?w = "utc_weekday (utc_day y 0 1)"
  have range: "0 \<le> ?w" "?w < 7" by simp_all
  have civil: "civil_date y 1 1" "civil_date y 1 2" "civil_date (y - 1) 12 31"
    using y by (simp_all add: civil_date_def month_length_def month_start_def Let_def)
  have eve: "utc_day (y - 1) 11 31 = utc_day y 0 1 - 1"
    using y day_from_year_step [of "y - 1"] by (simp add: utc_day_def make_day_def month_start_def Let_def)
  note on = on_date_civil [OF t civil(1)] on_date_civil [OF t civil(2)] on_date_civil [OF t civil(3)]
  have days: "on_date t y 1 1 \<longleftrightarrow> t = utc_day y 0 1" "on_date t y 1 2 \<longleftrightarrow> t = utc_day y 0 1 + 1"
    "on_date t (y - 1) 12 31 \<longleftrightarrow> t = utc_day y 0 1 - 1"
    using on eve utc_day_shift [of y 0 2 1] by simp_all
  have w: "t = utc_day y 0 1 + k \<Longrightarrow> utc_weekday t = (?w + k) mod 7" for k by (simp add: utc_weekday_shift)
  have years: "100 \<le> utc_full_year (utc_day y 0 1)" "100 \<le> utc_full_year (utc_day y 0 1 + 1)"
    "100 \<le> utc_full_year (utc_day y 0 1 - 1)"
    using civil_day(1) [OF civil(1)] civil_day(1) [OF civil(2)] civil_day(1) [OF civil(3)] y eve utc_day_shift [of y 0 2 1]
    by simp_all
  consider "?w = 0" | "?w = 6" | "?w \<noteq> 0" "?w \<noteq> 6" by blast
  then show ?thesis
  proof cases
    case 1
    then have "iso_date t = observed_fixed_holiday y 1 1 \<longleftrightarrow> t = utc_day y 0 1 + 1"
      using iso_date_eq [OF t years(2)] by (simp add: observed_fixed_holiday_def Let_def)
    then show ?thesis
      using days w [of 0] w [of 1] w [of "- 1"] 1 by (auto simp: on_date_def us_eve_rule_def is_weekday_def)
  next
    case 2
    then have "iso_date t = observed_fixed_holiday y 1 1 \<longleftrightarrow> t = utc_day y 0 1 - 1"
      using iso_date_eq [OF t years(3)] by (simp add: observed_fixed_holiday_def Let_def)
    then show ?thesis
      using days w [of 0] w [of 1] w [of "- 1"] 2 by (auto simp: on_date_def us_eve_rule_def is_weekday_def)
  next
    case 3
    then have "iso_date t = observed_fixed_holiday y 1 1 \<longleftrightarrow> t = utc_day y 0 1"
      using iso_date_eq [OF t years(1)] by (simp add: observed_fixed_holiday_def Let_def)
    moreover have "(?w + 1) mod 7 \<noteq> 1" "(?w + - 1) mod 7 \<noteq> 5" "(?w + 0) mod 7 = ?w"
      using 3 by - (rule seven_cases [OF range]; simp)+
    then have "utc_weekday (utc_day y 0 1 + 1) \<noteq> 1" "utc_weekday (utc_day y 0 1 - 1) \<noteq> 5"
      using w [of "1"] w [of "- 1"] utc_weekday_shift [of "utc_day y 0 1"] by (metis diff_conv_add_uminus)+
    ultimately show ?thesis
      using days 3 by (auto simp: on_date_def us_eve_rule_def is_weekday_def)
  qed
qed

lemma good_friday_on:
  assumes t: "100 \<le> utc_full_year t" and y: "100 \<le> y"
  shows "iso_date t = good_friday y \<longleftrightarrow> utc_full_year t = y \<and> t = easter_day (utc_full_year t) - 2"
    "utc_weekday (easter_day y - 2) = 5"
proof -
  obtain n where n: "easter_sunday y = (n div 31, n mod 31 + 1)" "114 \<le> n" "n \<le> 148"
    "easter_day y = utc_day y 2 1 + (n - 93)" "utc_weekday (easter_day y) = 0"
    using easter [OF y] .
  show "utc_weekday (easter_day y - 2) = 5"
    using utc_weekday_shift [of "easter_day y" "- 2"] n(5) by simp
  have "\<exists>m d. civil_date y m d \<and> easter_day y - 2 = utc_day y (m - 1) d"
  proof (cases "n \<le> 125")
    case True
    have "civil_date y 3 (n - 94)" using True n(2) y by (simp add: civil_date_def month_length_def month_start_def Let_def)
    moreover have "easter_day y - 2 = utc_day y (3 - 1) (n - 94)"
      using n(4) utc_day_shift [of y 2 "n - 94" 1] by simp
    ultimately show ?thesis by blast
  next
    case False
    have "civil_date y 4 (n - 125)" using False n(3) y by (intro civil_28) simp_all
    moreover have "easter_day y - 2 = utc_day y (4 - 1) (n - 125)"
      using n(4) y by (simp add: utc_day_def make_day_def month_start_def Let_def)
    ultimately show ?thesis by blast
  qed
  then have year: "utc_full_year (easter_day y - 2) = y" using civil_day(1) by metis
  have "good_friday y = iso_date (easter_day y - 2)"
    using year by (cases "easter_sunday y") (simp add: good_friday_def iso_date_def easter_day_def Let_def)
  then show "iso_date t = good_friday y \<longleftrightarrow> utc_full_year t = y \<and> t = easter_day (utc_full_year t) - 2"
    using iso_date_eq [OF t, of "easter_day y - 2"] year y by auto
qed

lemma us_holidays_on:
  assumes t: "100 \<le> utc_full_year t" and y: "101 \<le> y"
  shows "\<exists>hs. us_holidays y = Inr hs \<and> (iso_date t \<in> set hs \<longleftrightarrow>
    utc_full_year t = y \<and> us_rule t \<or> utc_full_year t = y - 1 \<and> us_eve_rule t)"
proof -
  have y': "100 \<le> y" using y by simp
  show ?thesis
    using nth_weekday [OF y', of 1 1 3] nth_weekday [OF y', of 2 1 3] nth_weekday [OF y', of 9 1 1]
      nth_weekday [OF y', of 11 4 4] last_monday_of_may [OF y']
    by (simp add: us_holidays_def new_year_us_on [OF t y] good_friday_on(1) [OF t y'] observed_on [OF t y']
        weekday_from_on [OF t y'] us_rule_def) blast
qed

lemma show_nat_pad: "1 \<le> k \<Longrightarrow> k = 1 \<or> 10 ^ (k - 1) \<le> n \<Longrightarrow> n < 10 ^ k \<Longrightarrow> show_nat n = pad k (int n)"
proof (induction k arbitrary: n)
  case (Suc k)
  show ?case
  proof (cases "k = 0")
    case True
    then show ?thesis using Suc.prems by (subst show_nat.simps) simp
  next
    case False
    have n: "10 ^ k \<le> n" "n < 10 * 10 ^ k" using Suc.prems False by auto
    have "(10 :: nat) ^ 1 \<le> 10 ^ k" using False by (intro power_increasing) auto
    then have ten: "\<not> n < 10" using n(1) by simp
    have "10 * 10 ^ (k - 1) = (10 :: nat) ^ k" using False by (simp flip: power_Suc)
    then have "10 ^ (k - 1) \<le> n div 10" "n div 10 < 10 ^ k" using n by auto
    then have "show_nat (n div 10) = pad k (int (n div 10))" using Suc.IH [of "n div 10"] False by simp
    then show ?thesis using ten by (subst show_nat.simps) (simp add: zdiv_int)
  qed
qed simp

lemma show_int_four: "1000 \<le> y \<Longrightarrow> y \<le> 9999 \<Longrightarrow> show_int y = pad 4 y"
  using show_nat_pad [of 4 "nat y"] by (simp add: show_int_def nat_le_iff le_nat_iff nat_less_iff)

lemma length_pad [simp]: "length (pad k n) = k"
  by (induction k arbitrary: n) simp_all

lemma two_digits:
  assumes "0 \<le> n" "n < 100"
  shows "pad_start 2 (show_int n) = pad 2 n"
proof (cases "n < 10")
  case True
  then have "show_int n = [digit_char n]" using assms by (simp add: show_int_def show_nat.simps [of "nat n"] nat_less_iff)
  moreover have "digit_char 0 = CHR ''0''" by code_simp
  moreover have "n div 10 = 0" using True assms(1) by simp
  ultimately show ?thesis by (simp add: pad_start_def numeral_2_eq_2)
next
  case False
  then have "show_int n = pad 2 n"
    using assms show_nat_pad [of 2 "nat n"] by (simp add: show_int_def le_nat_iff nat_less_iff)
  then show ?thesis by (simp add: pad_start_def)
qed

lemma tail_texts:
  "show_int y @ ''-01-01'' = date_string y 1 1" "show_int y @ ''-01-02'' = date_string y 1 2" "show_int y @ ''-01-03'' = date_string y 1 3"
  "show_int y @ ''-07-01'' = date_string y 7 1" "show_int y @ ''-07-02'' = date_string y 7 2" "show_int y @ ''-07-03'' = date_string y 7 3"
  "show_int y @ ''-12-24'' = date_string y 12 24" "show_int y @ ''-12-25'' = date_string y 12 25"
  "show_int y @ ''-12-26'' = date_string y 12 26" "show_int y @ ''-12-27'' = date_string y 12 27"
  "show_int y @ ''-12-28'' = date_string y 12 28"
  by (simp_all add: date_string_def, code_simp+)

lemma weekday_at:
  "100 \<le> utc_full_year t \<Longrightarrow> on_date t y m d' \<Longrightarrow> utc_weekday (utc_day y (m - 1) d) = w \<Longrightarrow>
    utc_weekday t = (w + (d' - d)) mod 7"
  using on_date_weekday by blast

lemma first_on:
  assumes t: "100 \<le> utc_full_year t" and y: "0 \<le> y" "0 \<le> m"
  shows "iso_date t = date_string y m (let dow = utc_weekday (utc_day y (m - 1) 1) in
      if dow = 0 then 2 else if dow = 6 then 3 else 1) \<longleftrightarrow> utc_full_year t = y \<and> first_observed t m"
proof -
  let ?w = "utc_weekday (utc_day y (m - 1) 1)"
  have on: "iso_date t = date_string y m d \<longleftrightarrow> on_date t y m d" if "0 \<le> d" for d
    using iso_date_on [OF t] y that by simp
  have rule: "utc_full_year t = y \<and> first_observed t m \<longleftrightarrow> on_date t y m 1 \<and> is_weekday t \<or>
      on_date t y m 2 \<and> utc_weekday t = 1 \<or> on_date t y m 3 \<and> utc_weekday t = 1"
    by (auto simp: first_observed_def on_date_def)
  have only: "on_date t y m d \<Longrightarrow> on_date t y m d' \<Longrightarrow> d = d'" for d d' by (simp add: on_date_def)
  have "0 \<le> ?w" "?w < 7" by simp_all
  then show ?thesis
    unfolding rule
    by (cases rule: seven_cases)
      (auto simp: on Let_def is_weekday_def dest: weekday_at [OF t, where d = 1])
qed

lemma christmas_on:
  assumes t: "100 \<le> utc_full_year t" and y: "0 \<le> y"
  shows "iso_date t \<in> set (tsx_christmas y) \<longleftrightarrow> utc_full_year t = y \<and> christmas_rule t"
proof -
  let ?w = "utc_weekday (utc_day y 11 25)"
  have on: "iso_date t = date_string y 12 d \<longleftrightarrow> on_date t y 12 d" if "0 \<le> d" for d
    using iso_date_on [OF t] y that by simp
  have rule: "utc_full_year t = y \<and> christmas_rule t \<longleftrightarrow> (on_date t y 12 25 \<or> on_date t y 12 26) \<and> is_weekday t \<or>
      (on_date t y 12 27 \<or> on_date t y 12 28) \<and> (utc_weekday t = 1 \<or> utc_weekday t = 2)"
    by (auto simp: christmas_rule_def on_date_def)
  have w: "on_date t y 12 d \<Longrightarrow> ?w = v \<Longrightarrow> utc_weekday t = (v + (d - 25)) mod 7" for d v
    using weekday_at [OF t, of y 12 d 25 v] by simp
  have "0 \<le> ?w" "?w < 7" by simp_all
  then show ?thesis
    unfolding rule
    by (cases rule: seven_cases)
      (auto simp: tsx_christmas_def on tail_texts Let_def is_weekday_def dest: w)
qed

lemma victoria_loop_eq:
  "victoria_loop y [18..24] = [date_string y 5 (weekday_from y 5 18 1)]"
proof -
  define v where "v = utc_weekday (utc_day y 4 18)"
  have v: "0 \<le> v" "v < 7" by (simp_all add: v_def)
  have w: "utc_weekday (utc_day y 4 x) = (v + (x - 18)) mod 7" for x
    unfolding v_def by (rule weekday_in_month)
  have prefix: "show_int y @ ''-05-'' @ s = show_int y @ ''-'' @ pad_start 2 (show_int 5) @ ''-'' @ s" for s
    by simp code_simp
  show ?thesis
    by (rule seven_cases [OF v])
      (simp_all add: upto.simps w weekday_from_def v_def [symmetric] date_string_def prefix del: append.simps append_assoc)
qed

lemma tsx_holidays_on:
  assumes t: "100 \<le> utc_full_year t" and y: "100 \<le> y"
  shows "\<exists>hs. tsx_holidays y = Inr hs \<and> (iso_date t \<in> set hs \<longleftrightarrow> utc_full_year t = y \<and> tsx_rule t)"
proof -
  have y': "0 \<le> y" using y by simp
  have first: "iso_date t = tsx_new_year y \<longleftrightarrow> utc_full_year t = y \<and> first_observed t 1"
    "iso_date t = canada_day y \<longleftrightarrow> utc_full_year t = y \<and> first_observed t 7"
    using first_on [OF t y', of 1] first_on [OF t y', of 7]
    by (simp_all add: tsx_new_year_def canada_day_def Let_def tail_texts split: if_split_asm)
  show ?thesis
    using nth_weekday [OF y, of 2 1 3] nth_weekday [OF y, of 8 1 1] nth_weekday [OF y, of 9 1 1] nth_weekday [OF y, of 10 1 2]
    unfolding tsx_holidays_def victoria_loop_eq
    by (simp add: first good_friday_on(1) [OF t y] weekday_from_on [OF t y] christmas_on [OF t y'] tsx_rule_def) blast
qed

section \<open>Trading days\<close>

lemma published_own_year:
  assumes "published_calendar_year_of market y = Some p" "h \<in> set (pc_holidays p)"
  shows "fst (read_date h) = y"
proof -
  have tsx: "list_all (\<lambda>h. fst (read_date h) = 2025) (pc_holidays (the (tsx_source 2025)))"
    "list_all (\<lambda>h. fst (read_date h) = 2026) (pc_holidays (the (tsx_source 2026)))" by code_simp+
  have us: "list_all (\<lambda>h. fst (read_date h) = 2025) (pc_holidays (the (nyse_source 2025)))"
    "list_all (\<lambda>h. fst (read_date h) = 2026) (pc_holidays (the (nyse_source 2026)))"
    "list_all (\<lambda>h. fst (read_date h) = 2027) (pc_holidays (the (nyse_source 2027)))" by code_simp+
  have "y = 2025 \<or> y = 2026 \<or> market = US_EQUITIES \<and> y = 2027"
    using assms(1) by (cases market) (auto simp: published_calendar_year_of_def tsx_source_def nyse_source_def split: if_splits)
  moreover have "p = the (case market of CA_TSX \<Rightarrow> tsx_source y | US_EQUITIES \<Rightarrow> nyse_source y)"
    using assms(1) by (cases market) (simp_all add: published_calendar_year_of_def)
  ultimately show ?thesis
    using assms(2) tsx us unfolding list_all_iff by (cases market) auto
qed

text \<open>The day is a holiday of its year.\<close>

definition closed_day :: "market_id \<Rightarrow> int \<Rightarrow> bool" where
  "closed_day market t \<longleftrightarrow> (case published_calendar_year_of market (utc_full_year t) of
     Some p \<Rightarrow> iso_date t \<in> set (pc_holidays p)
   | None \<Rightarrow> if market = CA_TSX then tsx_rule t else us_rule t)"

text \<open>The day is a holiday of the year after, as the rules compute it.\<close>

definition closed_eve :: "market_id \<Rightarrow> int \<Rightarrow> bool" where
  "closed_eve market t \<longleftrightarrow> market = US_EQUITIES \<and> us_eve_rule t \<and>
     published_calendar_year_of market (utc_full_year t + 1) = None"

lemma holidays_of_year:
  assumes t: "101 \<le> utc_full_year t"
  shows "\<exists>hs. holidays_for_market_year market (utc_full_year t) = Inr hs \<and> (iso_date t \<in> set hs \<longleftrightarrow> closed_day market t)"
proof (cases "published_calendar_year_of market (utc_full_year t)")
  case None
  have "100 \<le> utc_full_year t" using t by simp
  from us_holidays_on [OF this t] tsx_holidays_on [OF this this] show ?thesis
    using None by (cases market) (auto simp: holidays_for_market_year_def closed_day_def)
qed (simp add: holidays_for_market_year_def closed_day_def)

lemma holidays_of_next_year:
  assumes t: "101 \<le> utc_full_year t"
  shows "\<exists>hs. holidays_for_market_year market (utc_full_year t + 1) = Inr hs \<and> (iso_date t \<in> set hs \<longleftrightarrow> closed_eve market t)"
proof (cases "published_calendar_year_of market (utc_full_year t + 1)")
  case None
  have "100 \<le> utc_full_year t" "101 \<le> utc_full_year t + 1" "100 \<le> utc_full_year t + 1" using t by simp_all
  from us_holidays_on [OF this(1,2)] tsx_holidays_on [OF this(1,3)] show ?thesis
    using None by (cases market) (auto simp: holidays_for_market_year_def closed_eve_def)
next
  case (Some p)
  have "iso_date t \<notin> set (pc_holidays p)"
    using published_own_year [OF Some, of "iso_date t"] read_iso_date [of t] t by auto
  then show ?thesis using Some by (simp add: holidays_for_market_year_def closed_eve_def)
qed

lemma trading_day:
  assumes "101 \<le> utc_full_year t"
  shows "is_market_trading_day (iso_date t) market =
    Inr (is_weekday t \<and> \<not> closed_day market t \<and> \<not> closed_eve market t)"
proof -
  have t: "100 \<le> utc_full_year t" using assms by simp
  obtain hs where hs: "holidays_for_market_year market (utc_full_year t) = Inr hs"
    "iso_date t \<in> set hs \<longleftrightarrow> closed_day market t" using holidays_of_year [OF assms] by blast
  obtain hs' where hs': "holidays_for_market_year market (utc_full_year t + 1) = Inr hs'"
    "iso_date t \<in> set hs' \<longleftrightarrow> closed_eve market t" using holidays_of_next_year [OF assms] by blast
  show ?thesis
    using hs hs' day_civil(2) [OF t]
    by (auto simp: is_market_trading_day_def read_iso_date [OF t] is_weekday_def Let_def)
qed

text \<open>
  C34: Which days are trading days. From the year 101 on, the calendar never fails: a date is a trading day
  exactly when it is a weekday, it is not a holiday of its year - one the published schedule
  lists, or, in a year without a schedule, one of the days the rules name by month, date and
  weekday and Good Friday - and it is not a Friday December 31 before a year of
  the US market without a schedule.
\<close>

theorem trading_day_iff:
  assumes "101 \<le> utc_full_year t"
  shows "is_market_trading_day (iso_date t) market = Inr (is_weekday t \<and>
    \<not> (case published_calendar_year_of market (utc_full_year t) of
        Some p \<Rightarrow> iso_date t \<in> set (pc_holidays p)
      | None \<Rightarrow> if market = CA_TSX then tsx_rule t else us_rule t) \<and>
    \<not> (market = US_EQUITIES \<and> us_eve_rule t \<and> published_calendar_year_of market (utc_full_year t + 1) = None))"
  using trading_day [OF assms, of market] by (simp add: closed_day_def closed_eve_def)

lemma new_years_eve_2027:
  "utc_full_year (utc_day 2027 11 31) = 2027" "utc_month (utc_day 2027 11 31) = 11" "utc_date (utc_day 2027 11 31) = 31"
  "utc_weekday (utc_day 2027 11 31) = 5" "iso_date (utc_day 2027 11 31) = ''2027-12-31''"
proof -
  have civil: "civil_date 2027 12 31" by (simp add: civil_date_def month_length_def)
  note day = civil_day [OF civil]
  show "utc_full_year (utc_day 2027 11 31) = 2027" "utc_month (utc_day 2027 11 31) = 11" "utc_date (utc_day 2027 11 31) = 31"
    using day by simp_all
  then show "iso_date (utc_day 2027 11 31) = ''2027-12-31''"
    by (simp add: iso_date_def) code_simp
  show "utc_weekday (utc_day 2027 11 31) = 5"
    by (simp add: utc_weekday_def utc_day_def make_day_def day_from_year_def month_start_def leap_year_def Let_def)
qed

lemma new_years_eve_2026:
  "utc_full_year (utc_day 2026 11 31) = 2026" "utc_weekday (utc_day 2026 11 31) = 4" "iso_date (utc_day 2026 11 31) = ''2026-12-31''"
proof -
  have civil: "civil_date 2026 12 31" by (simp add: civil_date_def month_length_def)
  note day = civil_day [OF civil]
  show "utc_full_year (utc_day 2026 11 31) = 2026" using day by simp
  show "iso_date (utc_day 2026 11 31) = ''2026-12-31''"
    using day by (simp add: iso_date_def) code_simp
  show "utc_weekday (utc_day 2026 11 31) = 4"
    by (simp add: utc_weekday_def utc_day_def make_day_def day_from_year_def month_start_def leap_year_def Let_def)
qed

lemma trading_day_iff_witness:
  "is_market_trading_day ''2026-12-31'' US_EQUITIES = Inr True \<and> is_market_trading_day ''2027-12-31'' US_EQUITIES = Inr False"
  using trading_day_iff [of "utc_day 2026 11 31" US_EQUITIES] trading_day_iff [of "utc_day 2027 11 31" US_EQUITIES]
  by (simp add: new_years_eve_2026 new_years_eve_2027 published_calendar_year_of_def nyse_source_def us_eve_rule_def is_weekday_def)

end
