(* ===== verification/CalendarSessions.thy ===== *)
theory CalendarSessions
  imports CalendarProperties
begin

text \<open>
  The sessions of the calendar: the walk back collects the last trading days of its window, and every
  session it returns is of full or half length, whatever the offset of the time zone.
\<close>

section \<open>The walk back\<close>

fun walk_back :: "nat \<Rightarrow> int \<Rightarrow> int list" where
  "walk_back 0 t = []"
| "walk_back (Suc i) t = t # walk_back i (t - 1)"

definition open_day :: "market_id \<Rightarrow> int \<Rightarrow> bool" where
  "open_day market t \<longleftrightarrow> is_weekday t \<and> \<not> closed_day market t \<and> \<not> closed_eve market t"

lemma day_from_year_le: "y \<le> y' \<Longrightarrow> day_from_year y \<le> day_from_year y'"
  using day_from_year_less [of y y'] by (cases "y = y'") auto

lemma year_after:
  assumes "day_from_year y \<le> t"
  shows "y \<le> utc_full_year t"
proof (rule ccontr)
  assume "\<not> y \<le> utc_full_year t"
  then have "day_from_year (year_of_day t + 1) \<le> day_from_year y"
    unfolding utc_full_year_def by (intro day_from_year_le) simp
  then show False using year_of_day_bounds(2) [of t] assms by linarith
qed

lemma year_before:
  assumes "t < day_from_year (y + 1)"
  shows "utc_full_year t \<le> y"
proof (rule ccontr)
  assume "\<not> utc_full_year t \<le> y"
  then have "day_from_year (y + 1) \<le> day_from_year (year_of_day t)"
    unfolding utc_full_year_def by (intro day_from_year_le) simp
  then show False using year_of_day_bounds(1) [of t] assms by linarith
qed

lemma trading_open: "day_from_year 101 \<le> t \<Longrightarrow> is_market_trading_day (iso_date t) market = Inr (open_day market t)"
  unfolding open_day_def by (rule trading_day) (rule year_after)

lemma collect_eq: "day_from_year 101 + int i \<le> t + 1 \<Longrightarrow> collect_sessions market i wanted t dates =
    Inr (dates @ map iso_date (take (wanted - length dates) (filter (open_day market) (walk_back i t))))"
proof (induction i arbitrary: t dates)
  case (Suc i)
  have t: "day_from_year 101 \<le> t" "day_from_year 101 + int i \<le> t - 1 + 1" using Suc.prems by simp_all
  show ?case
  proof (cases "length dates < wanted")
    case True
    then have "wanted - length dates = Suc (wanted - Suc (length dates))" by simp
    then show ?thesis using True Suc.IH [OF t(2)] by (simp add: trading_open [OF t(1)])
  qed simp
qed simp

section \<open>Boundaries\<close>

lemma iso_of_ms_day:
  assumes y: "1000 \<le> utc_full_year t" "utc_full_year t \<le> 9999" and r: "0 \<le> r" "r < 86400000"
  shows "iso_of_ms (t * 86400000 + r) = iso_date t @ iso_time r"
proof -
  have t: "100 \<le> utc_full_year t" using y by simp
  note civil = day_civil(1) [OF t]
  have "(t * 86400000 + r) div 86400000 = t" "(t * 86400000 + r) mod 86400000 = r" using r by simp_all
  moreover have "utc_date t < 100" "0 \<le> utc_date t" "utc_month t + 1 < 100" "0 \<le> utc_month t + 1"
    using civil month_length_values(2) [of "utc_month t" "leap_year (utc_full_year t)"] by (auto simp: civil_date_def)
  ultimately show ?thesis
    using y by (simp add: iso_of_ms_def Let_def iso_year_def iso_date_def date_string_def show_int_four two_digits
        utc_date_def utc_month_def utc_full_year_def)
qed

lemma pad_digits: "list_all (\<lambda>c. digit_val c \<noteq> None) (pad k n)"
  by (induction k arbitrary: n) simp_all

lemma date_text_parts:
  assumes y: "1000 \<le> utc_full_year t" "utc_full_year t \<le> 9999"
  shows "is_date_text (iso_date t)" "text_number (take 4 (iso_date t)) = utc_full_year t"
    "text_number (take 2 (drop 5 (iso_date t))) = utc_month t + 1" "text_number (drop 8 (iso_date t)) = utc_date t"
proof -
  have t: "100 \<le> utc_full_year t" using y by simp
  note civil = day_civil(1) [OF t]
  have d: "utc_date t < 100" "0 \<le> utc_date t" "utc_month t + 1 < 100" "0 \<le> utc_month t + 1"
    using civil month_length_values(2) [of "utc_month t" "leap_year (utc_full_year t)"] by (auto simp: civil_date_def)
  let ?y = "show_int (utc_full_year t)" and ?m = "pad_start 2 (show_int (utc_month t + 1))"
    and ?d = "pad_start 2 (show_int (utc_date t))"
  have iso: "iso_date t = ?y @ CHR ''-'' # ?m @ CHR ''-'' # ?d" by (simp add: iso_date_def date_string_def)
  have len: "length ?y = 4" "length ?m = 2" "length ?d = 2"
    using y d by (simp_all add: show_int_four two_digits)
  have digits: "list_all (\<lambda>c. digit_val c \<noteq> None) (?y @ ?m @ ?d)"
    using y d pad_digits by (simp add: show_int_four two_digits)
  have parts: "take 4 (iso_date t) = ?y" "take 2 (drop 5 (iso_date t)) = ?m" "drop 8 (iso_date t) = ?d"
    "length (iso_date t) = 10" "iso_date t ! 4 = CHR ''-''" "iso_date t ! 7 = CHR ''-''"
    unfolding iso using len by (simp_all add: nth_append)
  show "is_date_text (iso_date t)" using digits unfolding is_date_text_def parts by simp
  show "text_number (take 4 (iso_date t)) = utc_full_year t"
    "text_number (take 2 (drop 5 (iso_date t))) = utc_month t + 1" "text_number (drop 8 (iso_date t)) = utc_date t"
    unfolding parts using y d by (simp_all add: text_number_pad_start text_number_show_int)
qed

lemma day_range:
  assumes "1000 \<le> utc_full_year t" "utc_full_year t \<le> 9999"
  shows "- 400000 < t" "t < 3000000"
proof -
  have "day_from_year 1000 \<le> day_from_year (year_of_day t)" "day_from_year (year_of_day t + 1) \<le> day_from_year 10000"
    using assms unfolding utc_full_year_def by (intro day_from_year_le; simp)+
  moreover have "- 400000 < day_from_year 1000" "day_from_year 10000 < 3000000" by (simp_all add: day_from_year_def)
  ultimately show "- 400000 < t" "t < 3000000" using year_of_day_bounds [of t] by linarith+
qed

lemma zoned_boundary:
  assumes y: "1000 \<le> utc_full_year t" "utc_full_year t \<le> 9999"
    and clock: "is_clock_text s" "text_number (take 2 s) = h" "text_number (drop 3 s) = mi" "0 \<le> h" "h \<le> 23" "0 \<le> mi" "mi \<le> 59"
    and hour: "0 \<le> local_hour timezone (t * 86400000 + 43200000)" "local_hour timezone (t * 86400000 + 43200000) \<le> 24"
  defines "ms \<equiv> t * 86400000 + (h - (local_hour timezone (t * 86400000 + 43200000) - 12)) * 3600000 + mi * 60000"
  shows "zoned_session_boundary local_hour (iso_date t) s timezone = Inr (iso_of_ms ms)" "\<bar>ms\<bar> \<le> max_time"
proof -
  note range = day_range [OF y]
  have "iso_date t @ ''T12:00:00.000Z'' = iso_of_ms (t * 86400000 + 43200000)"
  proof -
    have "iso_time 43200000 = ''T12:00:00.000Z''" by code_simp
    then show ?thesis by (simp add: iso_of_ms_day [OF y])
  qed
  moreover have "\<bar>t * 86400000 + 43200000\<bar> \<le> max_time" using range by (simp add: max_time_def)
  ultimately have noon: "parse_ms (iso_date t @ ''T12:00:00.000Z'') = Some (t * 86400000 + 43200000)"
    by (simp add: parse_ms_iso)
  show max: "\<bar>ms\<bar> \<le> max_time" 
  proof -
    define l where "l = local_hour timezone (t * 86400000 + 43200000)"
    have "ms = t * 86400000 + h * 3600000 - l * 3600000 + 43200000 + mi * 60000"
      unfolding ms_def l_def [symmetric] by (simp add: algebra_simps)
    then show ?thesis using range hour clock(4-7) unfolding max_time_def l_def [symmetric] by (simp add: abs_le_iff)
  qed
  have "utc_day (utc_full_year t) (utc_month t + 1 - 1) (utc_date t) = t"
    using day_civil(2) [of t] y by simp
  then have "zoned_session_boundary local_hour (iso_date t) s timezone = to_iso_string (num ms)"
    using clock date_text_parts [OF y] noon
    by (simp add: zoned_session_boundary_def Let_def ms_def del: to_iso_string.simps)
  then show "zoned_session_boundary local_hour (iso_date t) s timezone = Inr (iso_of_ms ms)"
    using to_iso_string_num [OF max] by (rule trans)
qed

lemma early_close_returns:
  assumes "1000 \<le> utc_full_year t" "utc_full_year t \<le> 9999"
  shows "\<exists>b. is_market_early_close market (iso_date t) = Inr b"
proof -
  have "101 \<le> utc_full_year t" "100 \<le> utc_full_year t" using assms by simp_all
  note hs = holidays_of_year [OF this(1), of market] nth_weekday [OF this(2), of 11 4 4]
  then show ?thesis
    unfolding is_market_early_close_def date_text_parts(2) [OF assms] early_closes_for_market_year_def
    by (cases market) (auto simp: us_early_closes_def tsx_early_closes_def Let_def split: option.splits)
qed

text \<open>The session of an open day\<close>

definition full_session :: int where "full_session = 23400000"
definition half_session :: int where "half_session = 12600000"

lemma clock_texts:
  "is_clock_text ''09:30''" "text_number (take 2 ''09:30'') = 9" "text_number (drop 3 ''09:30'') = 30"
  "is_clock_text ''13:00''" "text_number (take 2 ''13:00'') = 13" "text_number (drop 3 ''13:00'') = 0"
  "is_clock_text ''16:00''" "text_number (take 2 ''16:00'') = 16" "text_number (drop 3 ''16:00'') = 0"
  by code_simp+

lemma session_of_open_day:
  assumes y: "1000 \<le> utc_full_year t" "utc_full_year t \<le> 9999" and "open_day market t"
    and hour: "\<forall>tz ms. 0 \<le> local_hour tz ms \<and> local_hour tz ms \<le> 24"
  shows "\<exists>b opens closes. calendar_session_boundary_for local_hour market (iso_date t) = Inr (Some b) \<and>
    cs_tradingDate b = iso_date t \<and> date_parse (cs_open b) = num opens \<and> date_parse (cs_close b) = num closes \<and>
    (closes - opens = full_session \<or> closes - opens = half_session)"
proof -
  have "101 \<le> utc_full_year t" using y by simp
  then have trading: "is_market_trading_day (iso_date t) market = Inr True"
    using trading_day assms(3) by (simp add: open_day_def)
  obtain early where early: "is_market_early_close market (iso_date t) = Inr early"
    using early_close_returns [OF y] by blast
  let ?tz = "if market = CA_TSX then ''America/Toronto'' else ''America/New_York''"
  define l where "l = local_hour ?tz (t * 86400000 + 43200000)"
  have l: "0 \<le> local_hour ?tz (t * 86400000 + 43200000)" "local_hour ?tz (t * 86400000 + 43200000) \<le> 24" using hour by blast+
  note opens = zoned_boundary [where local_hour = local_hour and timezone = ?tz, OF y clock_texts(1-3) _ _ _ _ l, folded l_def]
    and noon = zoned_boundary [where local_hour = local_hour and timezone = ?tz, OF y clock_texts(4-6) _ _ _ _ l, folded l_def]
    and evening = zoned_boundary [where local_hour = local_hour and timezone = ?tz, OF y clock_texts(7-9) _ _ _ _ l, folded l_def]
  define o1 c1 where "o1 = t * 86400000 + (9 - (l - 12)) * 3600000 + 30 * 60000"
    and "c1 = t * 86400000 + ((if early then 13 else 16) - (l - 12)) * 3600000 + 0 * 60000"
  have o: "zoned_session_boundary local_hour (iso_date t) ''09:30'' ?tz = Inr (iso_of_ms o1)" "\<bar>o1\<bar> \<le> max_time"
    using opens by (simp_all add: o1_def)
  have c: "zoned_session_boundary local_hour (iso_date t) (if early then ''13:00'' else ''16:00'') ?tz = Inr (iso_of_ms c1)"
    "\<bar>c1\<bar> \<le> max_time"
    using noon evening by (cases early; cases market; simp add: c1_def)+
  let ?b = "\<lparr>cs_tradingDate = iso_date t, cs_open = iso_of_ms o1, cs_close = iso_of_ms c1\<rparr>"
  have "calendar_session_boundary_for local_hour market (iso_date t) = Inr (Some ?b)"
    using o(1) c(1) by (simp add: calendar_session_boundary_for_def trading early Let_def)
  moreover have "c1 - o1 = full_session \<or> c1 - o1 = half_session"
    by (simp add: o1_def c1_def full_session_def half_session_def)
  ultimately show ?thesis
    using date_parse_iso [OF o(2)] date_parse_iso [OF c(2)]
    by (intro exI [of _ ?b] exI [of _ o1] exI [of _ c1]) simp
qed

lemma boundaries_of_open_days:
  assumes hour: "\<forall>tz ms. 0 \<le> local_hour tz ms \<and> local_hour tz ms \<le> 24"
    and days: "\<forall>t \<in> set ts. 1000 \<le> utc_full_year t \<and> utc_full_year t \<le> 9999 \<and> open_day market t"
  shows "\<exists>ss. session_boundaries local_hour market (map iso_date ts) = Inr ss \<and>
    list_all2 (\<lambda>s t. \<exists>b opens closes. s = Some b \<and> cs_tradingDate b = iso_date t \<and>
      date_parse (cs_open b) = num opens \<and> date_parse (cs_close b) = num closes \<and>
      (closes - opens = full_session \<or> closes - opens = half_session)) ss ts"
  using days
proof (induction ts)
  case (Cons t ts)
  then obtain ss where ss: "session_boundaries local_hour market (map iso_date ts) = Inr ss"
    "list_all2 (\<lambda>s t. \<exists>b opens closes. s = Some b \<and> cs_tradingDate b = iso_date t \<and>
      date_parse (cs_open b) = num opens \<and> date_parse (cs_close b) = num closes \<and>
      (closes - opens = full_session \<or> closes - opens = half_session)) ss ts" by auto
  from Cons.prems session_of_open_day [OF _ _ _ hour, of t market] obtain b opens closes where
    "calendar_session_boundary_for local_hour market (iso_date t) = Inr (Some b)" "cs_tradingDate b = iso_date t"
    "date_parse (cs_open b) = num opens" "date_parse (cs_close b) = num closes"
    "closes - opens = full_session \<or> closes - opens = half_session" by auto
  then show ?case using ss by (intro exI [of _ "Some b # ss"]) auto
qed simp

lemma walk_back_range: "t \<in> set (walk_back i T) \<longleftrightarrow> T - int i < t \<and> t \<le> T"
proof (induction i arbitrary: T)
  case (Suc i)
  have "t \<in> set (walk_back (Suc i) T) \<longleftrightarrow> t = T \<or> T - 1 - int i < t \<and> t \<le> T - 1" by (simp add: Suc.IH)
  also have "\<dots> \<longleftrightarrow> T - int (Suc i) < t \<and> t \<le> T" by (simp, linarith)
  finally show ?case .
qed simp

section \<open>Properties\<close>

text \<open>
  C33: The recent sessions are the last trading days. For dates of four-digit years the function returns, whatever hour
  between 0 and 24 the time zone data gives: one session for each of the last trading days, at most
  \<open>wanted\<close> of them, among the \<open>3 * wanted\<close> days up to the date, in ascending order; the session
  has the date of its day, and its boundaries are instants six and a half or three and a half hours apart.
\<close>

theorem recent_sessions_are_last_trading_days:
  assumes "utc_full_year T \<le> 9999" "day_from_year 1000 + 3 * int wanted \<le> T"
    "\<forall>tz ms. 0 \<le> local_hour tz ms \<and> local_hour tz ms \<le> 24"
  shows "\<exists>ss. recent_regular_sessions local_hour market (iso_date T) wanted = Inr ss \<and>
    list_all2 (\<lambda>s t. \<exists>b opens closes. s = Some b \<and> cs_tradingDate b = iso_date t \<and>
        date_parse (cs_open b) = num opens \<and> date_parse (cs_close b) = num closes \<and>
        (closes - opens = 23400000 \<or> closes - opens = 12600000))
      ss (rev (take wanted (filter (\<lambda>t. is_market_trading_day (iso_date t) market = Inr True) (walk_back (wanted * 3) T))))"
proof -
  have T: "1000 \<le> utc_full_year T" using assms(2) by (intro year_after) simp
  have early: "day_from_year 101 \<le> day_from_year 1000" by (intro day_from_year_le) simp
  let ?ts = "rev (take wanted (filter (open_day market) (walk_back (wanted * 3) T)))"
  have within_range: "1000 \<le> utc_full_year t \<and> utc_full_year t \<le> 9999" if "t \<in> set (walk_back (wanted * 3) T)" for t
  proof
    show "1000 \<le> utc_full_year t" using that assms(2) by (intro year_after) (simp add: walk_back_range)
    have "T < day_from_year (9999 + 1)"
      using year_of_day_bounds(2) [of T] day_from_year_le [of "year_of_day T + 1" "9999 + 1"] assms(1)
      by (simp add: utc_full_year_def)
    then show "utc_full_year t \<le> 9999" using that by (intro year_before) (simp add: walk_back_range)
  qed
  have same: "filter (\<lambda>t. is_market_trading_day (iso_date t) market = Inr True) (walk_back (wanted * 3) T) =
      filter (open_day market) (walk_back (wanted * 3) T)"
    using assms(2) early by (intro filter_cong refl) (simp add: walk_back_range trading_open)
  have "collect_sessions market (wanted * 3) wanted T [] =
      Inr (map iso_date (take wanted (filter (open_day market) (walk_back (wanted * 3) T))))"
    using assms(2) early by (subst collect_eq) simp_all
  moreover have "read_date (iso_date T) = (utc_full_year T, utc_month T + 1, utc_date T)" "utc_day (utc_full_year T) (utc_month T) (utc_date T) = T"
    using read_iso_date [of T] day_civil(2) [of T] T by simp_all
  ultimately have run: "recent_regular_sessions local_hour market (iso_date T) wanted =
      session_boundaries local_hour market (map iso_date ?ts)"
    by (simp add: recent_regular_sessions_def rev_map)
  have "\<forall>t \<in> set ?ts. 1000 \<le> utc_full_year t \<and> utc_full_year t \<le> 9999 \<and> open_day market t"
    using within_range by (auto dest!: in_set_takeD)
  from boundaries_of_open_days [OF assms(3) this] show ?thesis
    unfolding run same full_session_def half_session_def .
qed

lemma recent_sessions_are_last_trading_days_witness:
  "\<exists>b. recent_regular_sessions (\<lambda>tz ms. 7) US_EQUITIES ''2026-12-31'' 1 = Inr [Some b] \<and> cs_tradingDate b = ''2026-12-31''"
proof -
  let ?t = "utc_day 2026 11 31"
  have "day_from_year 1000 + 3 \<le> ?t" by (simp add: day_from_year_def utc_day_def make_day_def month_start_def leap_year_def Let_def)
  moreover have "is_market_trading_day (iso_date ?t) US_EQUITIES = Inr True"
    using trading_day [of ?t US_EQUITIES]
    by (simp add: new_years_eve_2026 closed_day_def closed_eve_def published_calendar_year_of_def nyse_source_def is_weekday_def)
  ultimately show ?thesis
    using recent_sessions_are_last_trading_days [of ?t 1 "\<lambda>tz ms. 7" US_EQUITIES]
    by (simp add: new_years_eve_2026 numeral_3_eq_3 list_all2_Cons2) blast
qed

end
