(* ===== verification/Spec2Isabelle.thy ===== *)
theory Spec2Isabelle
  imports
    LiquidityProperties
    LedgerProperties
    CoordinationProperties StoredPolicy LedgerStoreProperties BudgetProperties LimiterProperties
    OrderServiceProperties InboxProperties ComparisonProperties TokenProperties CalendarSessions
begin

text \<open>
  Verification of the paper-trading core of the scanner (TypeScript, \<open>apps/api/src\<close>): the code that
  decides on, sizes, executes and accounts for simulated trades, the durable inbox that drives it,
  and the scheduler, budget and credentials of its broker connection.

  \<^bold>\<open>How the parts work together.\<close> A producer enqueues facts (a clock tick, a signal with an entry
  order, a quote, a cancellation) in the inbox of a run. The drain claims them one by one, in order,
  and hands each to the session driver, which calls the funded order service. The service runs every
  operation in one database transaction that covers the orders (pending-order repository) and the
  ledger of the account (ledger repository): a submission reserves cash after the portfolio checks, a
  quote is shared among the open positions (exits) and the pending orders (entries) of its instrument,
  the clock expires and closes. Underneath, the execution machines decide on one entry and its exit,
  with levels, size, costs and economics computed in binary64 arithmetic.

  \<^bold>\<open>Theories and sources\<close> (\<open>paper-bot/\<close> unless another directory is named):

  \<^item> \<open>Prelude\<close>: results of throwing functions, options, dictionaries; the locales
    \<open>watermark_machine\<close> and \<open>event_log\<close> of machines that are delivered facts at least once.
  \<^item> \<open>JsNumber\<close>, \<open>JsDate\<close>, \<open>JsArray\<close>, \<open>JsRounding\<close>, \<open>JsCompare\<close>: the language. Numbers are binary64 with
    round to nearest even; \<open>Date.parse\<close> and \<open>toISOString\<close>; stable sorting; the contracts
    (locales) of comparators and of decimal rounding.
  \<^item> \<open>PaperTypes\<close> (\<open>types.ts\<close>), \<open>Financials\<close> (\<open>financials.ts\<close>, \<open>cost-policy.ts\<close>,
    \<open>market-data/tick-policy.ts\<close>), \<open>Economics\<close> (\<open>economics.ts\<close>), \<open>Sizing\<close> (\<open>level-derivation.ts\<close>).
  \<^item> \<open>QuoteExecution\<close>, \<open>CandleExecution\<close>, \<open>ExecutionCore\<close> (\<open>quote-execution.ts\<close>,
    \<open>candle-execution.ts\<close>, \<open>execution-core.ts\<close>): the two execution machines, their invariants in
    \<open>ExecutionLemmas\<close>.
  \<^item> \<open>PendingOrder\<close>, \<open>EntryLiquidity\<close>, \<open>ExitLiquidity\<close> (\<open>pending-order.ts\<close>,
    \<open>shared-entry-liquidity.ts\<close>, \<open>shared-exit-liquidity.ts\<close>): one order, and one quote among many.
  \<^item> \<open>FundedPolicy\<close>, \<open>FundedLedger\<close>, \<open>LedgerStore\<close> (\<open>funded-policy.ts\<close>, \<open>funded-ledger.ts\<close>,
    \<open>funded-ledger-repository.ts\<close>): limits, books, and the books with bounded history, event
    rows and checkpoints. \<open>LedgerLemmas\<close> reads the books as integers. \<open>StoredPolicy\<close> is
    \<open>funded-policy.ts\<close> once more, on the JSON values the database returns, which need not have the
    type of a policy; the functions of \<open>FundedPolicy\<close> on typed values are proved to refine it.
  \<^item> \<open>Coordination\<close> (\<open>coordination-policy.ts\<close>): ranking of candidates, portfolio gates, decision.
  \<^item> \<open>OrderStore\<close>, \<open>OrderService\<close>, \<open>SessionDriver\<close>, \<open>FactInbox\<close> (\<open>pending-order-repository.ts\<close>,
    \<open>funded-order-service.ts\<close>, \<open>funded-session-driver.ts\<close>, \<open>funded-fact-adapter.ts\<close> with
    \<open>funded-fact-schema.ts\<close>): the database, the service on it, and what drives it.
  \<^item> \<open>ComparisonValuation\<close> (\<open>funded-comparison-valuation.ts\<close>): the valuation of the two sides of a
    comparison, replayed from their ledgers.
  \<^item> \<open>RequestBudget\<close>, \<open>RateLimiter\<close> (\<open>questrade/request-budget.ts\<close>, \<open>questrade/rate-limiter.ts\<close>).
  \<^item> \<open>TokenManager\<close> (\<open>questrade/token-manager.ts\<close>, \<open>questrade/token-crypto.ts\<close>,
    \<open>market-data/postgres-token-store.ts\<close>): the refresh tokens of the broker and their rotation.
  \<^item> \<open>MarketCalendar\<close> (\<open>universe/market-calendar.ts\<close>, \<open>universe/published-calendars.ts\<close>,
    \<open>session-time.ts\<close>): holidays, trading days and sessions; \<open>CalendarRules\<close> has the calendar
    arithmetic, \<open>JsText\<close> numbers as text.

  \<^bold>\<open>Correspondence.\<close> A definition has the name of the function it models, in the style of the
  language; a record field keeps its name behind a prefix for its record. A function that may throw
  returns a sum with the error on the left. An absent property, \<open>undefined\<close> and \<open>null\<close> are
  \<open>None\<close>. A transaction is a function from the database to the new database or the error; the error
  is the rollback. The rows of a table are a list; a query without an order sorts them by an arbitrary
  comparison \<open>db_place\<close>, and text columns collate by an arbitrary \<open>db_collate\<close>; primary, unique and
  foreign keys are branches of the insertions. What is asynchronous is a sequence of turns: a step of
  the scheduler is the code between two suspensions, with the clock read once in it; the handlers of a
  settled operation and its \<open>finally\<close> are two steps.

  \<^bold>\<open>What the properties show.\<close>

  \<^item> \<open>OrderServiceProperties\<close>: by rule induction over \<open>service_step\<close> every reachable database
    satisfies \<open>books_inv\<close> (\<open>OrderBooks\<close>, \<open>OrderInvariant\<close>), whose core is that the ledger mirrors the
    orders; new orders respect the portfolio limits; quotes, batches and drains end; the arrival
    order of a batch is irrelevant.
  \<^item> \<open>InboxProperties\<close>: the drain takes the facts in their order (in a run with sort keys, in the order
    of time and priority), and a crash between its transactions leaves no trace; the claim of a
    comparison run forgets the sort key, and a fact admitted behind it blocks the drain.
  \<^item> \<open>ExecutionProperties\<close>, \<open>EntryProperties\<close>: share conservation, no fill from the past, redelivery,
    termination of a session close, exact closing profit; size is the largest allowed.
  \<^item> \<open>OrderProperties\<close>, \<open>LiquidityProperties\<close>: the window of an order; one quote is never sold twice.
  \<^item> \<open>LedgerProperties\<close>, \<open>LedgerStoreProperties\<close>: the floating-point books refine integer books;
    the durable store refines the ledger; reconstruction from a checkpoint is exact.
  \<^item> \<open>CoordinationProperties\<close>: approvals respect every limit and gate and do not depend on the order of
    the candidates; the comparator of the shadow ranking is not an order.
  \<^item> \<open>StoredPolicy\<close>: exactly which stored policies are accepted, and that a built one always is.
  \<^item> \<open>ComparisonProperties\<close>: a proven valuation is the replay of the ledger, its drawdown the greatest
    fall of the equity.
  \<^item> \<open>BudgetProperties\<close>, \<open>LimiterProperties\<close>: no broker limit is exceeded; no request is lost.
  \<^item> \<open>CalendarProperties\<close>, \<open>CalendarSessions\<close>: the trading days by rule, and the sessions of the last
    ones; the rule for New Year also overrules a published schedule.
  \<^item> \<open>TokenProperties\<close>: under failing calls and crashes no refresh token is lost without a mark, and a
    refresh recovers; failures that are no rejection are reported as one.

  \<^bold>\<open>Bounds.\<close> Share counts are integers below \<open>2 ^ 53\<close>. The integer reading of the books holds for amounts
  of at most 10 million dollars (\<open>modest\<close>), which keeps every sum of units of a ten-thousandth
  far below \<open>2 ^ 53\<close>. The store keeps 256 recent events in its snapshot and reads pages of 2,000
  rows up to a budget of 250,000, as the source does. No definition runs on fuel: \<open>quote_orders\<close> and
  \<open>drain_loop\<close> are partial functions, and that they return is a theorem; every other loop is a
  recursion over a list. Reconstruction pages run on the budget of the source.

  \<^bold>\<open>Parameters.\<close> \<open>localeCompare\<close> is an argument with the contract \<open>collation\<close>; the formats
  of the schema library are arguments; whether an advisory lock is free is an argument; the operations
  and the budget service behind the scheduler are its environment; the cipher of the tokens (with what
  AES-GCM promises as \<open>proper_cipher\<close>) and the URL parser are arguments, as is the
  hour the time zone data gives for an instant. The two zeros of the language
  are one number, dates are milliseconds.

  \<^bold>\<open>Not modelled.\<close> The evidence repositories and the refusal requests of the inbox (they record what
  was decided and never change it), diagnostics and metrics, SQL triggers, reporting, backtests,
  statistical models, universe discovery, market-data polling, HTTP routes, the web front end and the
  Python scanner: these are input and output around the core, or pipelines over stored data whose
  results the core does not read. Concurrency between two transactions of one run is excluded by the
  row lock every transaction takes first; deadlocks and lost connections are outside the model.
\<close>

end
